(* ===== verification/Prelude.thy ===== *)
theory Prelude
  imports Main "HOL-Library.Word" "HOL-Library.Monad_Syntax"
begin

unbundle bit_operations_syntax

text \<open>
  The prelude of the development: the machine integer types of the Rust code, the two's
  complement wrap-around of its signed arithmetic (the release profile of \<^verbatim>\<open>host/Cargo.toml\<close>
  sets no overflow checks), little-endian byte strings, decimal and hexadecimal printing as
  \<^verbatim>\<open>format!\<close> does it, and the list lemmas that several components share.
\<close>

type_synonym u8 = "8 word"
type_synonym u16 = "16 word"
type_synonym u32 = "32 word"
type_synonym u64 = "64 word"
type_synonym i32 = "32 word"
type_synonym bytes = "8 word list"

named_theorems le_simps \<open>little-endian encoding and decoding\<close>
named_theorems panic_simps \<open>conditions under which an operation does not panic\<close>

section \<open>Signed arithmetic that wraps\<close>

text \<open>An \<^verbatim>\<open>i32\<close> or \<^verbatim>\<open>i64\<close> result of an arithmetic operation, kept as an integer.\<close>

definition wrap32 :: "int \<Rightarrow> int" where
  "wrap32 x = signed_take_bit 31 x"

definition wrap64 :: "int \<Rightarrow> int" where
  "wrap64 x = signed_take_bit 63 x"

lemma wrap32_id: "- (2 ^ 31) \<le> x \<Longrightarrow> x < 2 ^ 31 \<Longrightarrow> wrap32 x = x"
  unfolding wrap32_def by (rule signed_take_bit_int_eq_self) simp_all

lemma wrap64_id: "- (2 ^ 63) \<le> x \<Longrightarrow> x < 2 ^ 63 \<Longrightarrow> wrap64 x = x"
  unfolding wrap64_def by (rule signed_take_bit_int_eq_self) simp_all

text \<open>Rust's \<^verbatim>\<open>%\<close> on signed integers takes the sign of the dividend.\<close>

definition trunc_rem :: "int \<Rightarrow> int \<Rightarrow> int" where
  "trunc_rem a b = sgn a * (\<bar>a\<bar> mod \<bar>b\<bar>)"

section \<open>Little-endian bytes\<close>

definition le_bytes32 :: "u32 \<Rightarrow> bytes" where
  "le_bytes32 w = [ucast w, ucast (drop_bit 8 w), ucast (drop_bit 16 w), ucast (drop_bit 24 w)]"

fun of_le_bytes32 :: "bytes \<Rightarrow> u32" where
  "of_le_bytes32 [a, b, c, d] =
     ucast a OR push_bit 8 (ucast b) OR push_bit 16 (ucast c) OR push_bit 24 (ucast d)"
| "of_le_bytes32 _ = 0"

lemma length_le_bytes32 [simp, le_simps]: "length (le_bytes32 w) = 4"
  by (simp add: le_bytes32_def)

lemma of_le_le_bytes32 [simp, le_simps]: "of_le_bytes32 (le_bytes32 w) = w"
  unfolding le_bytes32_def of_le_bytes32.simps
proof (rule bit_word_eqI)
  fix n assume n: "n < LENGTH(32)"
  consider "n < 8" | "8 \<le> n" "n < 16" | "16 \<le> n" "n < 24" | "24 \<le> n" "n < 32"
    using n by fastforce
  then show "bit (ucast (ucast w :: u8) OR push_bit 8 (ucast (ucast (drop_bit 8 w) :: u8))
      OR push_bit 16 (ucast (ucast (drop_bit 16 w) :: u8))
      OR push_bit 24 (ucast (ucast (drop_bit 24 w) :: u8)) :: u32) n = bit w n"
    by cases (auto simp: bit_simps)
qed

lemma le_bytes32_inject [le_simps]: "le_bytes32 v = le_bytes32 w \<longleftrightarrow> v = w"
  by (metis of_le_le_bytes32)

section \<open>Printing\<close>

text \<open>\<^verbatim>\<open>format!("{}", n)\<close>, \<^verbatim>\<open>format!("0x{:02x}", b)\<close> and \<^verbatim>\<open>join\<close>.\<close>

definition digit :: "nat \<Rightarrow> char" where
  "digit d = ''0123456789abcdef'' ! d"

fun dec_string :: "nat \<Rightarrow> string" where
  "dec_string n = (if n < 10 then [digit n] else dec_string (n div 10) @ [digit (n mod 10)])"

declare dec_string.simps [simp del]

definition hex_byte :: "u8 \<Rightarrow> string" where
  "hex_byte b = ''0x'' @ [digit (unat b div 16), digit (unat b mod 16)]"

fun join :: "string \<Rightarrow> string list \<Rightarrow> string" where
  "join sep [] = []"
| "join sep [s] = s"
| "join sep (s # ss) = s @ sep @ join sep ss"

section \<open>Lists\<close>

lemma nth_take_drop_eq:
  "take n (drop s xs) = take n (drop t xs) \<Longrightarrow> j < n \<Longrightarrow> s + j < length xs \<Longrightarrow> t + j < length xs
   \<Longrightarrow> xs ! (s + j) = xs ! (t + j)"
  by (metis (no_types, lifting) nth_take nth_drop add_leD1 less_imp_le_nat)

lemma take_Suc_append: "n < length xs \<Longrightarrow> take (Suc n) xs = take n xs @ [xs ! n]"
  by (rule take_Suc_conv_app_nth)

section \<open>64-bit words as naturals\<close>

lemma u64_less: "unat (x :: u64) < 2 ^ 64"
  using unsigned_less[of x] by simp

lemma u32_less: "unat (x :: u32) < 2 ^ 32"
  using unsigned_less[of x] by simp

lemma unat_ucast_u32 [simp]: "unat (ucast (x :: u32) :: u64) = unat x"
  using u32_less[of x] by (simp add: unsigned_ucast_eq take_bit_nat_eq_self)

lemma unat_add_u64: "unat (x :: u64) + unat y < 2 ^ 64 \<Longrightarrow> unat (x + y) = unat x + unat y"
  using unat_add_lem[of x y] by simp

lemma unat_of_nat_u64: "n < 2 ^ 64 \<Longrightarrow> unat (of_nat n :: u64) = n"
  by (simp add: unsigned_of_nat take_bit_nat_eq_self)

text \<open>Case distinctions over small indices.\<close>

lemma upto16: "(n :: nat) < 16 \<Longrightarrow> n \<in> {0, 1, 2, 3, 4, 5, 6, 7, 8, 9, 10, 11, 12, 13, 14, 15}"
  by (auto simp: less_Suc_eq numeral_eq_Suc)

lemma upto8: "(n :: nat) < 8 \<Longrightarrow> n \<in> {0, 1, 2, 3, 4, 5, 6, 7}"
  by (auto simp: less_Suc_eq numeral_eq_Suc)

end
