(* ===== verification/Probe.thy ===== *)
theory Probe
  imports Prelude
begin

text \<open>
  Open addressing with linear probing, the walk that every table of \<^verbatim>\<open>phi-pld\<close> makes
  (\<^verbatim>\<open>lookup.rs\<close>: \<^verbatim>\<open>Table\<close>; \<^verbatim>\<open>ngram_cache.rs\<close>: \<^verbatim>\<open>Cache\<close> and \<^verbatim>\<open>Static\<close>):
  from a start slot, one slot at a time under the mask of a power-of-two length, until a
  slot where the loop stops.  The loop of the source has no bound, so \<open>probe\<close> is a
  partial function: \<open>None\<close> is the loop that never ends.  The locale \<open>open_table\<close> is the
  contract of such a table: a view \<open>keyof\<close> of the slots and a hash \<open>home\<close>; its lemmas
  (the walk ends, finds exactly what the table holds, and filling the slot where a failed
  walk ended keeps the invariant \<open>oa_ok\<close>) are proved once and interpreted by each table.
\<close>

section \<open>The walk\<close>

partial_function (option) probe :: "('s \<Rightarrow> bool) \<Rightarrow> 's list \<Rightarrow> nat \<Rightarrow> nat option" where
  "probe stop slots i =
     (if stop (slots ! i) then Some i
      else probe stop slots ((i + 1) AND (length slots - 1)))"

declare probe.simps [code]

definition pow2 :: "nat \<Rightarrow> bool" where
  "pow2 n \<longleftrightarrow> (\<exists>b. n = 2 ^ b)"

lemma pow2_pos: "pow2 n \<Longrightarrow> 0 < n"
  by (auto simp: pow2_def)

lemma pow2_double: "pow2 n \<Longrightarrow> pow2 (n * 2)"
  by (auto simp: pow2_def) (metis power_Suc2)

lemma pow2_1024: "pow2 1024"
  unfolding pow2_def by (rule exI[of _ 10]) simp

lemma and_mask_pow2: "pow2 n \<Longrightarrow> i AND (n - 1) = i mod n"
  unfolding pow2_def by (metis mask_eq_exp_minus_1 take_bit_eq_mask take_bit_eq_mod)

lemma probe_first:
  assumes "pow2 n" "length slots = n" "i < n"
    and "stop (slots ! ((i + d) mod n))"
    and "\<And>e. e < d \<Longrightarrow> \<not> stop (slots ! ((i + e) mod n))"
  shows "probe stop slots i = Some ((i + d) mod n)"
  using assms(3-5)
proof (induction d arbitrary: i)
  case 0
  then show ?case by (simp add: probe.simps)
next
  case (Suc d)
  let ?i = "(i + 1) mod n"
  have shift: "(?i + e) mod n = (i + Suc e) mod n" for e
    by (simp add: mod_add_left_eq)
  have "\<not> stop (slots ! i)"
    using Suc.prems(3)[of 0] Suc.prems(1) by simp
  then have "probe stop slots i = probe stop slots ?i"
    unfolding probe.simps[of stop slots i] assms(2) and_mask_pow2[OF assms(1)] by (rule if_not_P)
  also have "\<dots> = Some ((?i + d) mod n)"
  proof (rule Suc.IH)
    show "?i < n" using pow2_pos[OF assms(1)] by simp
    show "stop (slots ! ((?i + d) mod n))"
      using Suc.prems(2) by (simp only: shift)
    show "\<not> stop (slots ! ((?i + e) mod n))" if "e < d" for e
      using Suc.prems(3)[of "Suc e"] that by (simp only: shift Suc_less_eq not_False_eq_True)
  qed
  finally show ?case by (simp only: shift)
qed

lemma probe_ends:
  assumes "pow2 n" "length slots = n" "i < n" "j < n" "stop (slots ! j)"
  obtains d where "d < n" "probe stop slots i = Some ((i + d) mod n)"
    "stop (slots ! ((i + d) mod n))" "\<And>e. e < d \<Longrightarrow> \<not> stop (slots ! ((i + e) mod n))"
proof -
  let ?P = "\<lambda>d. stop (slots ! ((i + d) mod n))"
  have "(i + (j + n - i) mod n) mod n = j"
    using assms(3,4) by (simp add: mod_add_right_eq)
  then have ex: "?P ((j + n - i) mod n)" using assms(5) by simp
  define d where "d = Least ?P"
  have "?P d" unfolding d_def using ex by (rule LeastI)
  moreover have le: "d \<le> (j + n - i) mod n" unfolding d_def using ex by (rule Least_le)
  moreover have "\<And>e. e < d \<Longrightarrow> \<not> ?P e" unfolding d_def by (rule not_less_Least)
  moreover have "d < n" using le mod_less_divisor[OF pow2_pos[OF assms(1)]] by (rule le_less_trans)
  ultimately show thesis
    using that probe_first[of n slots i stop d] assms(1-3) by metis
qed

lemma probe_cong:
  assumes "pow2 (length slots)" "i < length slots" "s \<in> set slots" "stop s"
    "\<And>s. s \<in> set slots \<Longrightarrow> stop s = stop' s"
  shows "probe stop slots i = probe stop' slots i"
proof -
  obtain j where "j < length slots" "stop (slots ! j)" using assms(3,4) by (auto simp: in_set_conv_nth)
  then obtain d where d: "probe stop slots i = Some ((i + d) mod length slots)"
    "stop (slots ! ((i + d) mod length slots))"
    "\<And>e. e < d \<Longrightarrow> \<not> stop (slots ! ((i + e) mod length slots))"
    using probe_ends[OF assms(1) refl assms(2)] by metis
  have mem: "slots ! ((i + e) mod length slots) \<in> set slots" for e
    using assms(2) by (intro nth_mem mod_less_divisor) linarith
  have "probe stop' slots i = Some ((i + d) mod length slots)"
    using probe_first[OF assms(1) refl assms(2), of stop' d] d(2,3) assms(5)[OF mem] by simp
  then show ?thesis using d(1) by simp
qed

section \<open>The table invariant\<close>

text \<open>A walk from \<open>h\<close> reaches \<open>j\<close> through occupied slots only.\<close>

definition path :: "'k option list \<Rightarrow> nat \<Rightarrow> nat \<Rightarrow> bool" where
  "path ks h j \<longleftrightarrow>
     (\<exists>d < length ks. j = (h + d) mod length ks \<and> (\<forall>e < d. ks ! ((h + e) mod length ks) \<noteq> None))"

definition used_slots :: "'k option list \<Rightarrow> nat" where
  "used_slots ks = length (filter (\<lambda>x. x \<noteq> None) ks)"

definition oa_ok :: "('k \<Rightarrow> nat) \<Rightarrow> 'k option list \<Rightarrow> bool" where
  "oa_ok home ks \<longleftrightarrow>
     pow2 (length ks) \<and> used_slots ks < length ks \<and>
     (\<forall>i < length ks. \<forall>j < length ks. ks ! i \<noteq> None \<longrightarrow> ks ! i = ks ! j \<longrightarrow> i = j) \<and>
     (\<forall>j < length ks. \<forall>k. ks ! j = Some k \<longrightarrow> path ks (home k) j)"

lemma oa_okD:
  assumes "oa_ok home ks"
  shows "pow2 (length ks)" "used_slots ks < length ks"
    "\<And>i j. i < length ks \<Longrightarrow> j < length ks \<Longrightarrow> ks ! i = Some k \<Longrightarrow> ks ! j = Some k \<Longrightarrow> i = j"
    "\<And>j k. j < length ks \<Longrightarrow> ks ! j = Some k \<Longrightarrow> path ks (home k) j"
  using assms unfolding oa_ok_def by (blast, blast, metis option.distinct(1), blast)

lemma used_slots_free:
  assumes "used_slots ks < length ks" obtains j where "j < length ks" "ks ! j = None"
proof -
  have "\<exists>j < length ks. ks ! j = None"
  proof (rule ccontr)
    assume "\<not> ?thesis"
    then have "\<forall>x \<in> set ks. x \<noteq> None" by (metis in_set_conv_nth)
    then have "filter (\<lambda>x. x \<noteq> None) ks = ks" by (simp add: filter_id_conv)
    then show False using assms by (simp add: used_slots_def)
  qed
  then show thesis using that by blast
qed

lemma used_slots_update:
  "j < length ks \<Longrightarrow> ks ! j = None \<Longrightarrow> used_slots (ks[j := Some k]) = Suc (used_slots ks)"
  unfolding used_slots_def
proof (induction ks arbitrary: j)
  case Nil then show ?case by simp
next
  case (Cons x ks) then show ?case by (cases j) auto
qed

lemma used_slots_replicate [simp]: "used_slots (replicate n None) = 0"
  by (simp add: used_slots_def)

lemma oa_ok_replicate: "pow2 n \<Longrightarrow> oa_ok home (replicate n None)"
  by (simp add: oa_ok_def pow2_pos)

lemma path_update:
  assumes "path ks h i" "j < length ks"
  shows "path (ks[j := Some k]) h i"
proof -
  from assms obtain d where d: "d < length ks" "i = (h + d) mod length ks"
    "\<forall>e < d. ks ! ((h + e) mod length ks) \<noteq> None" by (auto simp: path_def)
  have "(h + e) mod length ks < length ks" for e
    using assms(2) by (intro mod_less_divisor) linarith
  then have "\<forall>e < d. ks[j := Some k] ! ((h + e) mod length ks) \<noteq> None"
    using d(3) assms(2) by (simp add: nth_list_update)
  then show ?thesis using d by (auto simp: path_def)
qed

lemma oa_insert:
  assumes ok: "oa_ok home ks" and j: "j < length ks" "ks ! j = None"
    and new: "Some k \<notin> set ks" and p: "path ks (home k) j"
    and room: "Suc (used_slots ks) < length ks"
  shows "oa_ok home (ks[j := Some k])"
proof -
  let ?ks = "ks[j := Some k]"
  have "\<forall>a < length ks. \<forall>b < length ks. ?ks ! a \<noteq> None \<longrightarrow> ?ks ! a = ?ks ! b \<longrightarrow> a = b"
  proof (intro allI impI)
    fix a b assume ab: "a < length ks" "b < length ks" "?ks ! a \<noteq> None" "?ks ! a = ?ks ! b"
    have other: "ks ! i \<noteq> Some k" if "i < length ks" for i using new that by (metis nth_mem)
    show "a = b"
    proof (cases "a = j \<or> b = j")
      case True
      then show ?thesis using ab j other by (metis nth_list_update_eq nth_list_update_neq)
    next
      case False
      then show ?thesis using ab oa_okD(3)[OF ok] by (metis nth_list_update_neq option.exhaust)
    qed
  qed
  moreover have "\<forall>i < length ks. \<forall>x. ?ks ! i = Some x \<longrightarrow> path ?ks (home x) i"
    using p path_update[OF _ j(1)] oa_okD(4)[OF ok] j(1) by (auto simp: nth_list_update)
  ultimately show ?thesis
    using oa_okD(1)[OF ok] room j by (simp add: oa_ok_def used_slots_update)
qed

lemma distinct_filter_ne:
  "\<forall>i < length ks. \<forall>j < length ks. ks ! i \<noteq> None \<longrightarrow> ks ! i = ks ! j \<longrightarrow> i = j \<Longrightarrow>
   distinct (filter (\<lambda>x. x \<noteq> None) ks)"
proof (induction ks)
  case Nil
  then show ?case by simp
next
  case (Cons x ks)
  have "distinct (filter (\<lambda>x. x \<noteq> None) ks)"
    using Cons.prems by (intro Cons.IH) (metis Suc_less_eq length_Cons nat.inject nth_Cons_Suc)
  moreover have "x \<notin> set ks" if "x \<noteq> None"
  proof
    assume "x \<in> set ks"
    then obtain j where "j < length ks" "ks ! j = x" by (auto simp: in_set_conv_nth)
    then show False
      using Cons.prems[rule_format, of 0 "Suc j"] that by simp
  qed
  ultimately show ?case by simp
qed

section \<open>The contract of a table\<close>

text \<open>
  Moving entries into a table with room (a rehash): each goes to the first free slot of its
  walk, as the \<^verbatim>\<open>while\<close> loops of \<^verbatim>\<open>grow\<close> do.
\<close>

fun place_all :: "('s \<Rightarrow> bool) \<Rightarrow> ('s \<Rightarrow> nat) \<Rightarrow> 's list \<Rightarrow> 's list \<Rightarrow> 's list option" where
  "place_all free hm [] slots = Some slots"
| "place_all free hm (x # xs) slots =
     (case probe free slots (hm x AND (length slots - 1)) of
        None \<Rightarrow> None
      | Some i \<Rightarrow> place_all free hm xs (slots[i := x]))"

definition entries_of :: "('s \<Rightarrow> 'k option) \<Rightarrow> 's list \<Rightarrow> 's set" where
  "entries_of keyof slots = {s \<in> set slots. keyof s \<noteq> None}"

locale open_table =
  fixes keyof :: "'s \<Rightarrow> 'k option" and home :: "'k \<Rightarrow> nat" and vacant :: 's
  assumes vacant: "keyof vacant = None"
begin

lemma fresh: "pow2 n \<Longrightarrow> oa_ok home (map keyof (replicate n vacant))"
  by (simp add: vacant map_replicate oa_ok_replicate)

lemma start: "oa_ok home (map keyof slots) \<Longrightarrow> h AND (length slots - 1) = h mod length slots"
  using and_mask_pow2 oa_okD(1) by (metis length_map)

lemma walk:
  assumes ok: "oa_ok home (map keyof slots)"
    and stop: "\<And>s. keyof s = None \<Longrightarrow> stop s" "\<And>s. stop s \<Longrightarrow> keyof s = None \<or> keyof s = Some k"
      "\<And>s. Some k \<in> set (map keyof slots) \<Longrightarrow> keyof s = Some k \<Longrightarrow> stop s"
  obtains j where "probe stop slots (home k AND (length slots - 1)) = Some j" "j < length slots"
    "path (map keyof slots) (home k) j"
    "keyof (slots ! j) = Some k \<or> keyof (slots ! j) = None \<and> Some k \<notin> set (map keyof slots)"
proof -
  let ?n = "length slots" and ?h = "home k mod length slots"
  have p2: "pow2 ?n" using oa_okD(1)[OF ok] by simp
  then have n: "0 < ?n" by (rule pow2_pos)
  obtain f where f: "f < ?n" "keyof (slots ! f) = None"
    using used_slots_free[OF oa_okD(2)[OF ok]] by auto
  obtain d where d: "d < ?n" "probe stop slots ?h = Some ((?h + d) mod ?n)"
    "stop (slots ! ((?h + d) mod ?n))" "\<And>e. e < d \<Longrightarrow> \<not> stop (slots ! ((?h + e) mod ?n))"
    using probe_ends[OF p2 refl, of ?h f stop] n f stop(1) by auto
  have md: "(?h + e) mod ?n = (home k + e) mod ?n" for e by (simp add: mod_add_left_eq)
  define j where "j = (home k + d) mod ?n"
  have j: "j < ?n" using n by (simp add: j_def)
  have occ: "keyof (slots ! ((home k + e) mod ?n)) \<noteq> None" if "e < d" for e
    using d(4)[OF that] stop(1) by (auto simp: md)
  have p: "path (map keyof slots) (home k) j"
    using d(1) occ n unfolding path_def j_def by auto
  have st: "stop (slots ! j)" using d(3) by (simp add: md j_def)
  have "Some k \<notin> set (map keyof slots)" if none: "keyof (slots ! j) = None"
  proof
    assume mem: "Some k \<in> set (map keyof slots)"
    then obtain i where i: "i < ?n" "keyof (slots ! i) = Some k"
      by (metis in_set_conv_nth length_map nth_map)
    then have "path (map keyof slots) (home k) i" using oa_okD(4)[OF ok, of i k] by simp
    then obtain c where c: "i = (home k + c) mod ?n"
      "\<forall>e < c. keyof (slots ! ((home k + e) mod ?n)) \<noteq> None"
      using n by (auto simp: path_def)
    have "\<not> d < c" using c(2) none by (auto simp: j_def)
    moreover have "\<not> c < d" using d(4)[of c] stop(3)[OF mem] i(2) c(1) by (auto simp: md)
    ultimately have "d = c" by simp
    then show False using c(1) i(2) none by (simp add: j_def)
  qed
  moreover have "keyof (slots ! j) = None \<or> keyof (slots ! j) = Some k" using stop(2)[OF st] .
  ultimately show thesis
    using that[OF _ j p] d(2) start[OF ok] by (auto simp: md j_def)
qed

text \<open>A lookup ends, at the slot of its key or, exactly when the table has none, at a free slot.\<close>

lemma find_walk:
  assumes "oa_ok home (map keyof slots)"
  obtains j where
    "probe (\<lambda>s. keyof s = Some k \<or> keyof s = None) slots (home k AND (length slots - 1)) = Some j"
    "j < length slots" "path (map keyof slots) (home k) j"
    "keyof (slots ! j) = Some k \<or> keyof (slots ! j) = None \<and> Some k \<notin> set (map keyof slots)"
  using walk[OF assms, of "\<lambda>s. keyof s = Some k \<or> keyof s = None"] by auto

lemma free_walk:
  assumes ok: "oa_ok home (map keyof slots)" and new: "Some k \<notin> set (map keyof slots)"
    and free: "\<And>s. free s \<longleftrightarrow> keyof s = None"
  obtains j where "probe free slots (home k AND (length slots - 1)) = Some j" "j < length slots"
    "path (map keyof slots) (home k) j" "keyof (slots ! j) = None"
proof (rule walk[OF ok, of free k])
  fix j assume j: "probe free slots (home k AND (length slots - 1)) = Some j" "j < length slots"
    "path (map keyof slots) (home k) j"
    and c: "keyof (slots ! j) = Some k \<or> keyof (slots ! j) = None \<and> Some k \<notin> set (map keyof slots)"
  have "keyof (slots ! j) \<in> set (map keyof slots)" using j(2) by simp
  then have "keyof (slots ! j) = None" using c new by auto
  with j show thesis by (rule that)
qed (use free new in auto)

lemma entry_unique:
  assumes "oa_ok home (map keyof slots)" "s \<in> set slots" "t \<in> set slots"
    "keyof s = Some k" "keyof t = Some k"
  shows "s = t"
  using assms oa_okD(3)[OF assms(1)] by (metis in_set_conv_nth length_map nth_map)

lemma fill_slot:
  assumes ok: "oa_ok home (map keyof slots)" and j: "j < length slots" "keyof (slots ! j) = None"
    and p: "path (map keyof slots) (home k) j" and new: "Some k \<notin> set (map keyof slots)"
    and key: "keyof s = Some k"
    and room: "Suc (used_slots (map keyof slots)) < length slots"
  shows "oa_ok home (map keyof (slots[j := s]))"
    "used_slots (map keyof (slots[j := s])) = Suc (used_slots (map keyof slots))"
    "entries_of keyof (slots[j := s]) = insert s (entries_of keyof slots)"
proof -
  show "oa_ok home (map keyof (slots[j := s]))"
    using oa_insert[OF ok _ _ new p] j room key by (simp add: map_update)
  show "used_slots (map keyof (slots[j := s])) = Suc (used_slots (map keyof slots))"
    using used_slots_update[of j "map keyof slots" k] j key by (simp add: map_update)
  have "t \<in> set (slots[j := s])" if "t \<in> set slots" "keyof t \<noteq> None" for t
    using that j by (metis in_set_conv_nth length_list_update nth_list_update_neq)
  then show "entries_of keyof (slots[j := s]) = insert s (entries_of keyof slots)"
    using j key set_update_subset_insert[of slots j s] set_update_memI[OF j(1), of s]
    by (auto simp: entries_of_def)
qed

lemma place_all_ok:
  assumes "oa_ok home (map keyof slots)" "distinct (map keyof xs)"
    "\<And>x. x \<in> set xs \<Longrightarrow> keyof x \<noteq> None \<and> keyof x \<notin> set (map keyof slots)"
    "used_slots (map keyof slots) + length xs < length slots"
    "\<And>x. x \<in> set xs \<Longrightarrow> hm x = home (the (keyof x))"
    "\<And>s. free s \<longleftrightarrow> keyof s = None"
  shows "\<exists>slots'. place_all free hm xs slots = Some slots' \<and> length slots' = length slots \<and>
    oa_ok home (map keyof slots') \<and>
    used_slots (map keyof slots') = used_slots (map keyof slots) + length xs \<and>
    entries_of keyof slots' = entries_of keyof slots \<union> set xs"
  using assms(1-5)
proof (induction xs arbitrary: slots)
  case Nil
  then show ?case by simp
next
  case (Cons x xs)
  obtain k where k: "keyof x = Some k" using Cons.prems(3)[of x] by auto
  have new: "Some k \<notin> set (map keyof slots)" using Cons.prems(3)[of x] k by simp
  obtain j where j: "probe free slots (home k AND (length slots - 1)) = Some j" "j < length slots"
    "path (map keyof slots) (home k) j" "keyof (slots ! j) = None"
    using free_walk[OF Cons.prems(1) new assms(6)] by blast
  note fs = fill_slot[OF Cons.prems(1) j(2,4,3) new k]
  have room: "Suc (used_slots (map keyof slots)) < length slots" using Cons.prems(4) by simp
  have dist: "keyof y \<noteq> None \<and> keyof y \<notin> set (map keyof (slots[j := x]))" if "y \<in> set xs" for y
  proof -
    have "keyof y \<noteq> keyof x" using Cons.prems(2) that by (metis distinct.simps(2) image_eqI list.set_map list.simps(9))
    moreover have "keyof y \<noteq> None \<and> keyof y \<notin> set (map keyof slots)" using Cons.prems(3)[of y] that by simp
    ultimately show ?thesis using set_update_subset_insert[of "map keyof slots" j "keyof x"]
      by (auto simp: map_update)
  qed
  have d: "distinct (map keyof xs)" using Cons.prems(2) by simp
  have r: "used_slots (map keyof (slots[j := x])) + length xs < length (slots[j := x])"
    using Cons.prems(4) fs(2)[OF room] by simp
  have h: "hm y = home (the (keyof y))" if "y \<in> set xs" for y using Cons.prems(5) that by simp
  from Cons.IH[OF fs(1)[OF room] d dist r h] obtain slots' where
    s': "place_all free hm xs (slots[j := x]) = Some slots'"
    "length slots' = length (slots[j := x])" "oa_ok home (map keyof slots')"
    "used_slots (map keyof slots') = used_slots (map keyof (slots[j := x])) + length xs"
    "entries_of keyof slots' = entries_of keyof (slots[j := x]) \<union> set xs" by blast
  have "hm x = home k" using Cons.prems(5)[of x] k by simp
  then have "place_all free hm (x # xs) slots = Some slots'" using j(1) s'(1) by simp
  moreover have "length slots' = length slots" using s'(2) by simp
  moreover have "used_slots (map keyof slots') = used_slots (map keyof slots) + length (x # xs)"
    unfolding s'(4) fs(2)[OF room] by simp
  moreover have "entries_of keyof slots' = entries_of keyof slots \<union> set (x # xs)"
    unfolding s'(5) fs(3)[OF room] by simp
  ultimately show ?case using s'(3) by blast
qed

lemma filter_map_keyof:
  "map keyof (filter (\<lambda>s. keyof s \<noteq> None) slots) = filter (\<lambda>x. x \<noteq> None) (map keyof slots)"
  by (simp add: filter_map o_def)

lemma set_filter_entries: "set (filter (\<lambda>s. keyof s \<noteq> None) slots) = entries_of keyof slots"
  by (auto simp: entries_of_def)

text \<open>A rehash into a fresh, longer table keeps every entry.\<close>

lemma rehash:
  assumes ok: "oa_ok home (map keyof slots)" and n: "pow2 n" "length slots \<le> n"
    and hm: "\<And>x. x \<in> entries_of keyof slots \<Longrightarrow> hm x = home (the (keyof x))"
    and free: "\<And>s. free s \<longleftrightarrow> keyof s = None"
  shows "\<exists>slots'. place_all free hm (filter (\<lambda>s. keyof s \<noteq> None) slots) (replicate n vacant) = Some slots' \<and>
    length slots' = n \<and> oa_ok home (map keyof slots') \<and>
    used_slots (map keyof slots') = used_slots (map keyof slots) \<and>
    entries_of keyof slots' = entries_of keyof slots"
proof -
  let ?xs = "filter (\<lambda>s. keyof s \<noteq> None) slots"
  have len: "length ?xs = used_slots (map keyof slots)"
    unfolding used_slots_def filter_map_keyof[symmetric] by simp
  have d: "distinct (map keyof ?xs)"
    unfolding filter_map_keyof by (rule distinct_filter_ne) (use ok in \<open>unfold oa_ok_def, blast\<close>)
  have e: "entries_of keyof (replicate n vacant) = {}" by (auto simp: entries_of_def vacant)
  have u: "used_slots (map keyof (replicate n vacant)) = 0" by (simp add: vacant map_replicate)
  have "\<exists>slots'. place_all free hm ?xs (replicate n vacant) = Some slots' \<and>
    length slots' = length (replicate n vacant) \<and> oa_ok home (map keyof slots') \<and>
    used_slots (map keyof slots') = used_slots (map keyof (replicate n vacant)) + length ?xs \<and>
    entries_of keyof slots' = entries_of keyof (replicate n vacant) \<union> set ?xs"
  proof (rule place_all_ok[OF fresh[OF n(1)] d])
    show "keyof x \<noteq> None \<and> keyof x \<notin> set (map keyof (replicate n vacant))" if "x \<in> set ?xs" for x
      using that by (auto simp: vacant)
    show "used_slots (map keyof (replicate n vacant)) + length ?xs < length (replicate n vacant)"
      using oa_okD(2)[OF ok] n(2) unfolding u len by simp
    show "hm x = home (the (keyof x))" if "x \<in> set ?xs" for x
      using that hm unfolding set_filter_entries by blast
  qed (rule free)
  then show ?thesis unfolding u e len set_filter_entries by simp
qed

end
end
