(* ===== verification/Lookup.thy ===== *)
theory Lookup
  imports Probe
begin

text \<open>
  The exact-match drafter, \<^verbatim>\<open>host/crates/phi-pld/src/lookup.rs\<close>: the context seen so far,
  one open-addressing table per n-gram length, and the draft copied from after the earlier
  occurrence of the longest n-gram the context ends with.  \<open>Table\<close> is shown to keep the
  contract \<open>occ_table\<close> (where each key occurred first and last); \<open>Lookup\<close> is proved from
  that contract alone.  A result of type \<open>option\<close> is \<open>None\<close> where the Rust would panic on a
  slice or loop for ever; the theorems show that neither happens.
\<close>

section \<open>The table\<close>

datatype pick = First | Latest

record slot =
  skey :: u64
  sfirst :: u32
  slast :: u32

definition slot_default :: slot where
  "slot_default = \<lparr>skey = 0, sfirst = 0, slast = 0\<rparr>"

record table =
  slots :: "slot list"
  used :: nat

definition table_new :: table where
  "table_new = \<lparr>slots = replicate 1024 slot_default, used = 0\<rparr>"

definition table_find :: "table \<Rightarrow> u64 \<Rightarrow> slot option option" where
  "table_find t k =
     (let mask = length (slots t) - 1 in
      case probe (\<lambda>s. skey s = k \<or> skey s = 0) (slots t) (unat k AND mask) of
        None \<Rightarrow> None
      | Some i \<Rightarrow> Some (if skey (slots t ! i) = k then Some (slots t ! i) else None))"

definition table_grow :: "table \<Rightarrow> table option" where
  "table_grow t =
     (let size = length (slots t) * 2 in
      case place_all (\<lambda>s. skey s = 0) (\<lambda>s. unat (skey s)) (filter (\<lambda>s. skey s \<noteq> 0) (slots t))
             (replicate size slot_default) of
        None \<Rightarrow> None
      | Some ss \<Rightarrow> Some (t\<lparr>slots := ss\<rparr>))"

definition table_note :: "table \<Rightarrow> u64 \<Rightarrow> u32 \<Rightarrow> table option" where
  "table_note t0 k at =
     (case (if length (slots t0) < (used t0 + 1) * 2 then table_grow t0 else Some t0) of
        None \<Rightarrow> None
      | Some t \<Rightarrow>
          (let mask = length (slots t) - 1 in
           case probe (\<lambda>s. skey s = k \<or> skey s = 0) (slots t) (unat k AND mask) of
             None \<Rightarrow> None
           | Some i \<Rightarrow>
               Some (if skey (slots t ! i) = k
                     then t\<lparr>slots := (slots t)[i := (slots t ! i)\<lparr>slast := at\<rparr>]\<rparr>
                     else t\<lparr>slots := (slots t)[i := \<lparr>skey = k, sfirst = at, slast = at\<rparr>],
                            used := used t + 1\<rparr>)))"

section \<open>The contract of an occurrence table\<close>

fun note_all :: "('t \<Rightarrow> u64 \<Rightarrow> u32 \<Rightarrow> 't option) \<Rightarrow> 't \<Rightarrow> (u64 \<times> u32) list \<Rightarrow> 't option" where
  "note_all put t [] = Some t"
| "note_all put t ((k, a) # kas) =
     (case put t k a of None \<Rightarrow> None | Some t' \<Rightarrow> note_all put t' kas)"

lemma note_all_append:
  "note_all put t (xs @ ys) = Option.bind (note_all put t xs) (\<lambda>t'. note_all put t' ys)"
  by (induction xs arbitrary: t) (auto split: option.splits)

locale occ_table =
  fixes new :: 't and put :: "'t \<Rightarrow> u64 \<Rightarrow> u32 \<Rightarrow> 't option"
    and find :: "'t \<Rightarrow> u64 \<Rightarrow> slot option option" and ok :: "'t \<Rightarrow> bool"
  assumes new_ok: "ok new"
    and new_find: "k \<noteq> 0 \<Longrightarrow> find new k = Some None"
    and note_total: "ok t \<Longrightarrow> k \<noteq> 0 \<Longrightarrow> \<exists>t'. put t k a = Some t' \<and> ok t'"
    and note_same: "ok t \<Longrightarrow> k \<noteq> 0 \<Longrightarrow> put t k a = Some t' \<Longrightarrow>
      find t' k = Some (Some \<lparr>skey = k,
        sfirst = (case find t k of Some (Some s) \<Rightarrow> sfirst s | _ \<Rightarrow> a), slast = a\<rparr>)"
    and note_other: "ok t \<Longrightarrow> k \<noteq> 0 \<Longrightarrow> k' \<noteq> 0 \<Longrightarrow> put t k a = Some t' \<Longrightarrow> k' \<noteq> k \<Longrightarrow>
      find t' k' = find t k'"
begin

lemma note_all_spec:
  assumes "\<forall>(k, a) \<in> set kas. k \<noteq> 0" "k \<noteq> 0"
  shows "\<exists>t. note_all put new kas = Some t \<and> ok t \<and>
    find t k = Some (case filter (\<lambda>ka. fst ka = k) kas of [] \<Rightarrow> None
      | hits \<Rightarrow> Some \<lparr>skey = k, sfirst = snd (hd hits), slast = snd (last hits)\<rparr>)"
  using assms(1)
proof (induction kas rule: rev_induct)
  case Nil
  then show ?case by (simp add: new_ok new_find assms(2))
next
  case (snoc ka kas)
  obtain c a where ka: "ka = (c, a)" by (cases ka)
  with snoc.prems have c: "c \<noteq> 0" by simp
  let ?hits = "filter (\<lambda>ka. fst ka = k) kas"
  obtain t where t: "note_all put new kas = Some t" "ok t"
    "find t k = Some (case ?hits of [] \<Rightarrow> None
      | hits \<Rightarrow> Some \<lparr>skey = k, sfirst = snd (hd hits), slast = snd (last hits)\<rparr>)"
    using snoc by auto
  obtain t' where t': "put t c a = Some t'" "ok t'" using note_total[OF t(2) c] by blast
  have all: "note_all put new (kas @ [ka]) = Some t'" by (simp add: note_all_append t t' ka)
  show ?case
  proof (cases "c = k")
    case True
    then have "find t' k = Some (Some \<lparr>skey = k, sfirst = (case ?hits of [] \<Rightarrow> a | h # hs \<Rightarrow> snd h), slast = a\<rparr>)"
      using note_same[OF t(2) c t'(1)] t(3) by (auto split: list.splits)
    then show ?thesis using all t'(2) ka True by (auto split: list.splits)
  next
    case False
    then show ?thesis
      using all t' ka t(3) note_other[OF t(2) c assms(2) t'(1)] by auto
  qed
qed

end

section \<open>The table keeps the contract\<close>

definition slot_key :: "slot \<Rightarrow> u64 option" where
  "slot_key s = (if skey s = 0 then None else Some (skey s))"

interpretation tab: open_table slot_key unat slot_default
  by unfold_locales (simp add: slot_key_def slot_default_def)

definition table_ok :: "table \<Rightarrow> bool" where
  "table_ok t \<longleftrightarrow> oa_ok unat (map slot_key (slots t)) \<and>
     used t = used_slots (map slot_key (slots t)) \<and> 2 * used t \<le> length (slots t) \<and>
     2 \<le> length (slots t)"

lemma stop_eq: "k \<noteq> 0 \<Longrightarrow>
  (\<lambda>s. skey s = k \<or> skey s = 0) = (\<lambda>s. slot_key s = Some k \<or> slot_key s = None)"
  by (auto simp: slot_key_def fun_eq_iff)

lemma table_ok_new: "table_ok table_new"
  using tab.fresh[OF pow2_1024] tab.vacant
  by (simp add: table_ok_def table_new_def map_replicate used_slots_replicate)

lemma table_walk:
  assumes "table_ok t" "k \<noteq> 0"
  obtains i where
    "probe (\<lambda>s. skey s = k \<or> skey s = 0) (slots t) (unat k AND (length (slots t) - 1)) = Some i"
    "i < length (slots t)" "path (map slot_key (slots t)) (unat k) i"
    "skey (slots t ! i) = k \<or> slot_key (slots t ! i) = None \<and> Some k \<notin> set (map slot_key (slots t))"
proof -
  have ok: "oa_ok unat (map slot_key (slots t))" using assms(1) by (simp add: table_ok_def)
  show thesis
    by (rule tab.find_walk[OF ok, of k]) (rule that, auto simp: stop_eq[OF assms(2)] slot_key_def)
qed

lemma table_find_iff:
  assumes "table_ok t" "k \<noteq> 0"
  shows "table_find t k = Some r \<longleftrightarrow>
    (case r of None \<Rightarrow> \<forall>s \<in> entries_of slot_key (slots t). skey s \<noteq> k
     | Some s \<Rightarrow> s \<in> entries_of slot_key (slots t) \<and> skey s = k)"
proof -
  obtain i where i:
    "probe (\<lambda>s. skey s = k \<or> skey s = 0) (slots t) (unat k AND (length (slots t) - 1)) = Some i"
    "i < length (slots t)"
    "skey (slots t ! i) = k \<or> slot_key (slots t ! i) = None \<and> Some k \<notin> set (map slot_key (slots t))"
    using table_walk[OF assms] by blast
  have ok: "oa_ok unat (map slot_key (slots t))" using assms(1) by (simp add: table_ok_def)
  show ?thesis
  proof (cases "skey (slots t ! i) = k")
    case True
    then have find: "table_find t k = Some (Some (slots t ! i))" using i(1) by (simp add: table_find_def)
    have key: "slot_key (slots t ! i) = Some k" using True assms(2) by (simp add: slot_key_def)
    have mem: "slots t ! i \<in> entries_of slot_key (slots t)"
      using i(2) key by (simp add: entries_of_def)
    have uniq: "s = slots t ! i" if "s \<in> entries_of slot_key (slots t)" "skey s = k" for s
    proof (rule tab.entry_unique[OF ok _ _ _ key])
      show "s \<in> set (slots t)" using that(1) by (simp add: entries_of_def)
      show "slots t ! i \<in> set (slots t)" using i(2) by (rule nth_mem)
      show "slot_key s = Some k" using that(2) assms(2) by (simp add: slot_key_def)
    qed
    show ?thesis
    proof (cases r)
      case None
      then have "\<not> table_find t k = Some r" unfolding find by simp
      moreover have "\<not> (\<forall>s \<in> entries_of slot_key (slots t). skey s \<noteq> k)" using mem True by blast
      ultimately show ?thesis unfolding None option.case by blast
    next
      case (Some s)
      have "table_find t k = Some r \<longleftrightarrow> s = slots t ! i" unfolding find Some by blast
      then show ?thesis unfolding Some option.case using mem True uniq by blast
    qed
  next
    case False
    then have "table_find t k = Some None" using i(1) by (simp add: table_find_def)
    moreover have "skey s \<noteq> k" if "s \<in> entries_of slot_key (slots t)" for s
    proof
      assume "skey s = k"
      then have "slot_key s = Some k" using assms(2) by (simp add: slot_key_def)
      then show False using that False i(3) by (force simp: entries_of_def)
    qed
    ultimately show ?thesis by (auto split: option.splits)
  qed
qed


lemma table_find_cong:
  assumes "table_ok t" "table_ok u" "k \<noteq> 0"
    "\<And>s. skey s = k \<Longrightarrow> s \<in> entries_of slot_key (slots t) \<longleftrightarrow> s \<in> entries_of slot_key (slots u)"
  shows "table_find t k = table_find u k"
proof -
  have "table_find t k = Some r \<longleftrightarrow> table_find u k = Some r" for r
    unfolding table_find_iff[OF assms(1,3)] table_find_iff[OF assms(2,3)]
    using assms(4) by (cases r) (simp only: option.case, blast)+
  then show ?thesis by (metis not_Some_eq)
qed

lemma table_grow_ok:
  assumes "table_ok t"
  shows "\<exists>t'. table_grow t = Some t' \<and> table_ok t' \<and> used t' = used t \<and>
    length (slots t') = length (slots t) * 2 \<and>
    entries_of slot_key (slots t') = entries_of slot_key (slots t)"
proof -
  let ?n = "length (slots t) * 2"
  have ok: "oa_ok unat (map slot_key (slots t))" using assms by (simp add: table_ok_def)
  have p2: "pow2 ?n" using pow2_double oa_okD(1)[OF ok] by simp
  have f: "(\<lambda>s. skey s \<noteq> 0) = (\<lambda>s. slot_key s \<noteq> None)" by (auto simp: slot_key_def)
  have hm: "unat (skey x) = unat (the (slot_key x))" if "x \<in> entries_of slot_key (slots t)" for x
    using that by (auto simp: entries_of_def slot_key_def split: if_splits)
  have free: "(skey s = 0) = (slot_key s = None)" for s by (simp add: slot_key_def)
  have le: "length (slots t) \<le> ?n" by simp
  obtain ss where ss: "place_all (\<lambda>s. skey s = 0) (\<lambda>s. unat (skey s)) (filter (\<lambda>s. skey s \<noteq> 0) (slots t))
      (replicate ?n slot_default) = Some ss"
    "length ss = ?n" "oa_ok unat (map slot_key ss)"
    "used_slots (map slot_key ss) = used_slots (map slot_key (slots t))"
    "entries_of slot_key ss = entries_of slot_key (slots t)"
    using tab.rehash[OF ok p2 le hm free] unfolding f by blast
  from ss(1) have "table_grow t = Some (t\<lparr>slots := ss\<rparr>)" by (simp add: table_grow_def Let_def)
  then show ?thesis using ss(2-5) assms by (auto simp: table_ok_def)
qed

lemma table_room:
  assumes "table_ok t"
  shows "\<exists>t'. (if length (slots t) < (used t + 1) * 2 then table_grow t else Some t) = Some t' \<and>
    table_ok t' \<and> (used t' + 1) * 2 \<le> length (slots t') \<and>
    entries_of slot_key (slots t') = entries_of slot_key (slots t)"
proof (cases "length (slots t) < (used t + 1) * 2")
  case True
  obtain t' where "table_grow t = Some t'" "table_ok t'" "used t' = used t"
    "length (slots t') = length (slots t) * 2"
    "entries_of slot_key (slots t') = entries_of slot_key (slots t)"
    using table_grow_ok[OF assms] by blast
  then show ?thesis using True assms by (auto simp: table_ok_def)
next
  case False
  then show ?thesis using assms by auto
qed

lemma entries_update_same:
  assumes ok: "table_ok t" and i: "i < length (slots t)"
    and k: "k \<noteq> 0" "skey (slots t ! i) = k" "skey s' = k"
  shows "x \<in> entries_of slot_key ((slots t)[i := s']) \<longleftrightarrow>
    (if skey x = k then x = s' else x \<in> entries_of slot_key (slots t))"
proof -
  have oa: "oa_ok unat (map slot_key (slots t))" using ok by (simp add: table_ok_def)
  have only: "j = i" if "j < length (slots t)" "skey (slots t ! j) = k" for j
    using oa_okD(3)[OF oa, of j i k] that i k by (simp add: slot_key_def)
  have "x \<in> set ((slots t)[i := s']) \<longleftrightarrow> x = s' \<or> (\<exists>j < length (slots t). j \<noteq> i \<and> slots t ! j = x)"
    using i by (auto simp: in_set_conv_nth nth_list_update)
  moreover have "(\<exists>j < length (slots t). j \<noteq> i \<and> slots t ! j = x) \<longleftrightarrow> x \<in> set (slots t) \<and> skey x \<noteq> k"
    if "skey x \<noteq> 0" using only k by (auto simp: in_set_conv_nth)
  ultimately show ?thesis using k by (auto simp: entries_of_def slot_key_def)
qed

text \<open>What \<open>note\<close> leaves in the table: the key's slot with its first and its latest place.\<close>

lemma table_note_entries:
  fixes a :: u32
  assumes ok: "table_ok t" and k: "k \<noteq> 0"
  defines "new \<equiv> \<lparr>skey = k, sfirst = (case table_find t k of Some (Some s) \<Rightarrow> sfirst s | _ \<Rightarrow> a), slast = a\<rparr>"
  shows "\<exists>t'. table_note t k a = Some t' \<and> table_ok t' \<and>
    (\<forall>x. x \<in> entries_of slot_key (slots t') \<longleftrightarrow>
      (if skey x = k then x = new else x \<in> entries_of slot_key (slots t)))"
proof -
  obtain u where u: "(if length (slots t) < (used t + 1) * 2 then table_grow t else Some t) = Some u"
    "table_ok u" "(used u + 1) * 2 \<le> length (slots u)"
    "entries_of slot_key (slots u) = entries_of slot_key (slots t)"
    using table_room[OF ok] by blast
  have find: "table_find u k = table_find t k"
    by (rule table_find_cong[OF u(2) ok k]) (simp add: u(4))
  obtain i where i:
    "probe (\<lambda>s. skey s = k \<or> skey s = 0) (slots u) (unat k AND (length (slots u) - 1)) = Some i"
    "i < length (slots u)" "path (map slot_key (slots u)) (unat k) i"
    "skey (slots u ! i) = k \<or> slot_key (slots u ! i) = None \<and> Some k \<notin> set (map slot_key (slots u))"
    using table_walk[OF u(2) k] by blast
  have oa: "oa_ok unat (map slot_key (slots u))" using u(2) by (simp add: table_ok_def)
  show ?thesis
  proof (cases "skey (slots u ! i) = k")
    case True
    have "table_find t k = Some (Some (slots u ! i))"
      using i(1) True unfolding find[symmetric] by (simp add: table_find_def)
    then have new: "new = (slots u ! i)\<lparr>slast := a\<rparr>" using True by (simp add: new_def)
    let ?t = "u\<lparr>slots := (slots u)[i := new]\<rparr>"
    have nt: "table_note t k a = Some ?t" using u(1) i(1) True by (simp add: table_note_def new)
    have "map slot_key ((slots u)[i := new]) = map slot_key (slots u)"
      using i(2) by (simp add: new map_update slot_key_def list_update_same_conv)
    then have "table_ok ?t" using u(2) by (simp add: table_ok_def)
    moreover have "skey new = k" by (simp add: new_def)
    ultimately show ?thesis
      using nt entries_update_same[OF u(2) i(2) k True] u(4) by auto
  next
    case False
    with i(4) have free: "slot_key (slots u ! i) = None" "Some k \<notin> set (map slot_key (slots u))" by auto
    have "table_find t k = Some None"
      using i(1) False unfolding find[symmetric] by (simp add: table_find_def)
    then have new: "new = \<lparr>skey = k, sfirst = a, slast = a\<rparr>" by (simp add: new_def)
    let ?t = "u\<lparr>slots := (slots u)[i := new], used := used u + 1\<rparr>"
    have nt: "table_note t k a = Some ?t" using u(1) i(1) False by (simp add: table_note_def new)
    have key: "slot_key new = Some k" using k by (simp add: slot_key_def new)
    have room: "Suc (used_slots (map slot_key (slots u))) < length (slots u)"
      using u(2,3) by (auto simp: table_ok_def)
    note fs = tab.fill_slot[OF oa i(2) free(1) i(3) free(2) key room]
    have "table_ok ?t" using fs(1,2) u(2,3) by (simp add: table_ok_def)
    moreover have "\<forall>x. x \<in> entries_of slot_key (slots ?t) \<longleftrightarrow>
      (if skey x = k then x = new else x \<in> entries_of slot_key (slots t))"
      using free(2) k fs(3) unfolding u(4)[symmetric]
      by (auto simp: entries_of_def slot_key_def new split: if_splits)
    ultimately show ?thesis using nt by blast
  qed
qed

interpretation tc: occ_table table_new table_note table_find table_ok
proof unfold_locales
  fix k k' :: u64 and a :: u32 and t t' :: table
  show "table_ok table_new" by (rule table_ok_new)
  show "table_find table_new k = Some None" if "k \<noteq> 0"
    using table_find_iff[OF table_ok_new that, of None]
    by (auto simp: entries_of_def table_new_def slot_default_def slot_key_def)
  assume t: "table_ok t" and k: "k \<noteq> 0"
  then show "\<exists>t'. table_note t k a = Some t' \<and> table_ok t'"
    using table_note_entries[of t k a] by blast
  assume n: "table_note t k a = Some t'"
  then have t': "table_ok t'" and e: "\<And>x. x \<in> entries_of slot_key (slots t') \<longleftrightarrow>
      (if skey x = k then x = \<lparr>skey = k, sfirst = (case table_find t k of Some (Some s) \<Rightarrow> sfirst s | _ \<Rightarrow> a), slast = a\<rparr>
       else x \<in> entries_of slot_key (slots t))"
    using table_note_entries[OF t k, of a] by auto
  show "table_find t' k = Some (Some \<lparr>skey = k,
      sfirst = (case table_find t k of Some (Some s) \<Rightarrow> sfirst s | _ \<Rightarrow> a), slast = a\<rparr>)"
    unfolding table_find_iff[OF t' k] by (simp add: e)
  assume k': "k' \<noteq> 0" "k' \<noteq> k"
  then show "table_find t' k' = table_find t k'"
    by (intro table_find_cong[OF t' t]) (simp_all add: e)
qed


section \<open>The drafter\<close>

definition key_step :: "i32 \<Rightarrow> u64 \<Rightarrow> u64" where
  "key_step t h0 =
     (let h = (h0 XOR ucast t) * 0xff51afd7ed558ccd in h XOR drop_bit 33 h)"

definition lookup_key :: "i32 list \<Rightarrow> u64" where
  "lookup_key ngram =
     fold key_step ngram (0x9e3779b97f4a7c15 XOR word_of_nat (length ngram)) OR 1"

lemma lookup_key_nonzero: "lookup_key g \<noteq> 0"
proof -
  have "bit (lookup_key g) 0" by (simp add: lookup_key_def bit_simps)
  then show ?thesis by auto
qed

record lookup =
  tokens :: "i32 list"
  tables :: "table list"
  lmin_n :: nat
  lmax_n :: nat
  lpick :: pick

definition lookup_new :: "nat \<Rightarrow> nat \<Rightarrow> pick \<Rightarrow> lookup" where
  "lookup_new min_n0 max_n0 p =
     (let min_n = max min_n0 1; max_n = max max_n0 min_n in
      \<lparr>tokens = [], tables = replicate max_n table_new, lmin_n = min_n, lmax_n = max_n, lpick = p\<rparr>)"

fun push_tables :: "i32 list \<Rightarrow> nat list \<Rightarrow> table list \<Rightarrow> table list option" where
  "push_tables toks [] tabs = Some tabs"
| "push_tables toks (n # ns) tabs =
     (let at = length toks in
      if n \<le> at then
        let s = at - n; k = lookup_key (take n (drop s toks)) in
        case table_note (tabs ! (n - 1)) k (word_of_nat s) of
          None \<Rightarrow> None
        | Some t \<Rightarrow> push_tables toks ns (tabs[n - 1 := t])
      else push_tables toks ns tabs)"

definition lookup_push :: "lookup \<Rightarrow> i32 \<Rightarrow> lookup option" where
  "lookup_push l t =
     (case push_tables (tokens l) [lmin_n l ..< Suc (lmax_n l)] (tables l) of
        None \<Rightarrow> None
      | Some tabs \<Rightarrow> Some (l\<lparr>tables := tabs, tokens := tokens l @ [t]\<rparr>))"

fun lookup_extend :: "lookup \<Rightarrow> i32 list \<Rightarrow> lookup option" where
  "lookup_extend l [] = Some l"
| "lookup_extend l (t # ts) =
     (case lookup_push l t of None \<Rightarrow> None | Some l' \<Rightarrow> lookup_extend l' ts)"

fun draft_ns :: "lookup \<Rightarrow> nat \<Rightarrow> nat list \<Rightarrow> (i32 list \<times> nat) option" where
  "draft_ns l k [] = Some ([], 0)"
| "draft_ns l k (n # ns) =
     (let len = length (tokens l) in
      if len < n + 1 then draft_ns l k ns
      else let tail = drop (len - n) (tokens l) in
        case table_find (tables l ! (n - 1)) (lookup_key tail) of
          None \<Rightarrow> None
        | Some None \<Rightarrow> draft_ns l k ns
        | Some (Some sl) \<Rightarrow>
            let s = unat (case lpick l of First \<Rightarrow> sfirst sl | Latest \<Rightarrow> slast sl) in
            if len < s + n then None
            else if take n (drop s (tokens l)) \<noteq> tail then draft_ns l k ns
            else let from = s + n; to = min (from + k) len in
              if from < to then Some (take (to - from) (drop from (tokens l)), n)
              else draft_ns l k ns)"

definition lookup_draft :: "lookup \<Rightarrow> nat \<Rightarrow> (i32 list \<times> nat) option" where
  "lookup_draft l k =
     (if k = 0 then Some ([], 0) else draft_ns l k (rev [lmin_n l ..< Suc (lmax_n l)]))"

section \<open>The index invariant\<close>

definition gram :: "i32 list \<Rightarrow> nat \<Rightarrow> nat \<Rightarrow> i32 list" where
  "gram ts n s = take n (drop s ts)"

text \<open>The occurrences that table \<open>n - 1\<close> has been told of after the tokens \<open>ts\<close>.\<close>

definition noted :: "i32 list \<Rightarrow> nat \<Rightarrow> (u64 \<times> u32) list" where
  "noted ts n = map (\<lambda>s. (lookup_key (gram ts n s), word_of_nat s)) [0 ..< length ts - n]"

definition lookup_inv :: "lookup \<Rightarrow> bool" where
  "lookup_inv l \<longleftrightarrow> 1 \<le> lmin_n l \<and> lmin_n l \<le> lmax_n l \<and> length (tables l) = lmax_n l \<and>
     (\<forall>n \<in> {lmin_n l .. lmax_n l}.
        note_all table_note table_new (noted (tokens l) n) = Some (tables l ! (n - 1)))"

lemma gram_snoc: "s + n \<le> length ts \<Longrightarrow> gram (ts @ [t]) n s = gram ts n s"
  by (simp add: gram_def)

lemma noted_snoc:
  "noted (ts @ [t]) n =
     (if n \<le> length ts then noted ts n @ [(lookup_key (gram ts n (length ts - n)), word_of_nat (length ts - n))]
      else noted ts n)"
proof (cases "n \<le> length ts")
  case True
  then have "Suc (length ts) - n = Suc (length ts - n)" by simp
  then show ?thesis using True by (auto simp: noted_def gram_snoc)
next
  case False
  then show ?thesis by (simp add: noted_def)
qed

lemma noted_total: "\<exists>t. note_all table_note table_new (noted ts n) = Some t \<and> table_ok t"
proof -
  have "\<forall>(k, a) \<in> set (noted ts n). k \<noteq> 0" by (auto simp: noted_def lookup_key_nonzero)
  from tc.note_all_spec[OF this, of 1] show ?thesis by auto
qed

lemma push_tables_ok:
  assumes "distinct ns" "\<forall>n \<in> set ns. 1 \<le> n \<and> n \<le> length tabs"
    "\<forall>n \<in> set ns. note_all table_note table_new (noted ts n) = Some (tabs ! (n - 1))"
  shows "\<exists>tabs'. push_tables ts ns tabs = Some tabs' \<and> length tabs' = length tabs \<and>
    (\<forall>n \<in> set ns. note_all table_note table_new (noted (ts @ [t]) n) = Some (tabs' ! (n - 1))) \<and>
    (\<forall>i. Suc i \<notin> set ns \<longrightarrow> tabs' ! i = tabs ! i)"
  using assms
proof (induction ns arbitrary: tabs)
  case Nil
  then show ?case by simp
next
  case (Cons n ns)
  have n: "1 \<le> n" "n \<le> length tabs" "n \<notin> set ns" "distinct ns" using Cons.prems by auto
  have old: "note_all table_note table_new (noted ts n) = Some (tabs ! (n - 1))" using Cons.prems(3) by simp
  show ?case
  proof (cases "n \<le> length ts")
    case True
    let ?k = "lookup_key (gram ts n (length ts - n))" and ?a = "word_of_nat (length ts - n) :: u32"
    have "noted (ts @ [t]) n = noted ts n @ [(?k, ?a)]" using True by (simp add: noted_snoc)
    then obtain u where u: "table_note (tabs ! (n - 1)) ?k ?a = Some u"
      "note_all table_note table_new (noted (ts @ [t]) n) = Some u"
      using noted_total[of "ts @ [t]" n] old by (auto simp: note_all_append split: option.splits)
    have apart: "n - 1 \<noteq> m - 1" if "m \<in> set ns" for m
      using that n Cons.prems(2) by (metis One_nat_def Suc_pred le_simps(3) list.set_intros(2) less_eq_Suc_le)
    have rest: "\<forall>m \<in> set ns. 1 \<le> m \<and> m \<le> length (tabs[n - 1 := u])"
      "\<forall>m \<in> set ns. note_all table_note table_new (noted ts m) = Some (tabs[n - 1 := u] ! (m - 1))"
      using Cons.prems(2,3) apart by simp_all
    obtain tabs' where tabs': "push_tables ts ns (tabs[n - 1 := u]) = Some tabs'"
      "length tabs' = length tabs"
      "\<forall>m \<in> set ns. note_all table_note table_new (noted (ts @ [t]) m) = Some (tabs' ! (m - 1))"
      "\<forall>i. Suc i \<notin> set ns \<longrightarrow> tabs' ! i = tabs[n - 1 := u] ! i"
      using Cons.IH[OF n(4) rest] by auto
    have "tabs' ! (n - 1) = u" using tabs'(4) n by (simp add: nth_list_update)
    moreover have "\<forall>i. Suc i \<notin> set (n # ns) \<longrightarrow> tabs' ! i = tabs ! i"
      using tabs'(4) n(1) by (metis Suc_pred' less_eq_Suc_le One_nat_def list.set_intros list.set_cases nth_list_update_neq set_ConsD)
    ultimately show ?thesis using True tabs'(1-3) u by (simp add: gram_def)
  next
    case False
    obtain tabs' where "push_tables ts ns tabs = Some tabs'"
      "length tabs' = length tabs"
      "\<forall>m \<in> set ns. note_all table_note table_new (noted (ts @ [t]) m) = Some (tabs' ! (m - 1))"
      "\<forall>i. Suc i \<notin> set ns \<longrightarrow> tabs' ! i = tabs ! i"
      using Cons.IH[OF n(4), of tabs] Cons.prems by auto
    moreover have "noted (ts @ [t]) n = noted ts n" using False by (simp add: noted_snoc)
    moreover have "tabs' ! (n - 1) = tabs ! (n - 1)" using calculation(4) n by simp
    ultimately show ?thesis using False old by auto
  qed
qed

lemma lookup_new_inv: "lookup_inv (lookup_new a b p)"
  by (auto simp: lookup_inv_def lookup_new_def Let_def noted_def)

lemma lookup_push_inv:
  assumes "lookup_inv l"
  shows "\<exists>l'. lookup_push l t = Some l' \<and> lookup_inv l' \<and> tokens l' = tokens l @ [t] \<and>
    lmin_n l' = lmin_n l \<and> lmax_n l' = lmax_n l \<and> lpick l' = lpick l"
proof -
  let ?ns = "[lmin_n l ..< Suc (lmax_n l)]"
  have ns: "set ?ns = {lmin_n l .. lmax_n l}" by auto
  have "\<forall>n \<in> set ?ns. 1 \<le> n \<and> n \<le> length (tables l)"
    "\<forall>n \<in> set ?ns. note_all table_note table_new (noted (tokens l) n) = Some (tables l ! (n - 1))"
    using assms unfolding ns by (auto simp: lookup_inv_def)
  from push_tables_ok[OF distinct_upt this, of t] obtain tabs where
    "push_tables (tokens l) ?ns (tables l) = Some tabs" "length tabs = length (tables l)"
    "\<forall>n \<in> set ?ns. note_all table_note table_new (noted (tokens l @ [t]) n) = Some (tabs ! (n - 1))"
    by blast
  then show ?thesis using assms unfolding ns by (simp add: lookup_push_def lookup_inv_def)
qed

lemma lookup_extend_inv:
  assumes "lookup_inv l"
  shows "\<exists>l'. lookup_extend l ts = Some l' \<and> lookup_inv l' \<and> tokens l' = tokens l @ ts \<and>
    lmin_n l' = lmin_n l \<and> lmax_n l' = lmax_n l \<and> lpick l' = lpick l"
  using assms
proof (induction ts arbitrary: l)
  case Nil
  then show ?case by simp
next
  case (Cons t ts)
  obtain l' where "lookup_push l t = Some l'" "lookup_inv l'" "tokens l' = tokens l @ [t]"
    "lmin_n l' = lmin_n l" "lmax_n l' = lmax_n l" "lpick l' = lpick l"
    using lookup_push_inv[OF Cons.prems, of t] by blast
  then show ?case using Cons.IH[of l'] by fastforce
qed


section \<open>What a draft is\<close>

lemma find_hits:
  assumes "lookup_inv l" "n \<in> {lmin_n l .. lmax_n l}" "\<kappa> \<noteq> 0"
  shows "table_find (tables l ! (n - 1)) \<kappa> = Some (
    case filter (\<lambda>s. lookup_key (gram (tokens l) n s) = \<kappa>) [0 ..< length (tokens l) - n] of
      [] \<Rightarrow> None
    | s # ss \<Rightarrow> Some \<lparr>skey = \<kappa>, sfirst = word_of_nat s, slast = word_of_nat (last (s # ss))\<rparr>)"
proof -
  have "\<forall>(k, a) \<in> set (noted (tokens l) n). k \<noteq> 0" by (auto simp: noted_def lookup_key_nonzero)
  from tc.note_all_spec[OF this assms(3)] assms(1,2)
  have "table_find (tables l ! (n - 1)) \<kappa> = Some (
    case filter (\<lambda>ka. fst ka = \<kappa>) (noted (tokens l) n) of [] \<Rightarrow> None
      | h # hs \<Rightarrow> Some \<lparr>skey = \<kappa>, sfirst = snd (hd (h # hs)), slast = snd (last (h # hs))\<rparr>)"
    by (auto simp: lookup_inv_def)
  moreover have "filter (\<lambda>ka. fst ka = \<kappa>) (noted (tokens l) n) =
    map (\<lambda>s. (lookup_key (gram (tokens l) n s), word_of_nat s))
      (filter (\<lambda>s. lookup_key (gram (tokens l) n s) = \<kappa>) [0 ..< length (tokens l) - n])"
    by (simp add: noted_def filter_map o_def)
  ultimately show ?thesis by (auto split: list.splits simp: last_map)
qed

text \<open>
  The specification of a draft: the earlier occurrences (with a token after them) of the last
  \<open>n\<close> tokens, and the tokens that followed the chosen one.
\<close>

definition occurrences :: "i32 list \<Rightarrow> nat \<Rightarrow> nat list" where
  "occurrences ts n = filter (\<lambda>s. gram ts n s = drop (length ts - n) ts) [0 ..< length ts - n]"

fun copy_draft :: "pick \<Rightarrow> i32 list \<Rightarrow> nat \<Rightarrow> nat list \<Rightarrow> i32 list \<times> nat" where
  "copy_draft p ts k [] = ([], 0)"
| "copy_draft p ts k (n # ns) =
     (case occurrences ts n of
        [] \<Rightarrow> copy_draft p ts k ns
      | s # ss \<Rightarrow> (take k (drop ((case p of First \<Rightarrow> s | Latest \<Rightarrow> last (s # ss)) + n) ts), n))"

lemma unat_place: "s < length ts \<Longrightarrow> length ts < 2 ^ 32 \<Longrightarrow> unat (word_of_nat s :: u32) = s"
  by (simp add: unat_of_nat)

lemma picked_hit:
  assumes "xs = filter P [0 ..< m]" "xs = s # ss"
  shows "(case p of First \<Rightarrow> s | Latest \<Rightarrow> last (s # ss)) < m"
    "P (case p of First \<Rightarrow> s | Latest \<Rightarrow> last (s # ss))"
proof -
  have "(case p of First \<Rightarrow> s | Latest \<Rightarrow> last (s # ss)) \<in> set (filter P [0 ..< m])"
    unfolding assms(1)[symmetric] assms(2) by (cases p) auto
  then show "(case p of First \<Rightarrow> s | Latest \<Rightarrow> last (s # ss)) < m"
    "P (case p of First \<Rightarrow> s | Latest \<Rightarrow> last (s # ss))" by auto
qed

lemma picked_place:
  assumes "(case p of First \<Rightarrow> s0 | Latest \<Rightarrow> s1) = s" "s < length ts" "length ts < 2 ^ 32"
  shows "unat (case p of First \<Rightarrow> sfirst \<lparr>skey = c, sfirst = word_of_nat s0, slast = word_of_nat s1\<rparr>
    | Latest \<Rightarrow> slast \<lparr>skey = c, sfirst = word_of_nat s0, slast = word_of_nat s1\<rparr>) = s"
  using assms unat_place by (cases p) auto

text \<open>One n-gram length of the search: the slot found names a place that the context has passed.\<close>

lemma draft_ns_step:
  assumes inv: "lookup_inv l" and n: "n \<in> {lmin_n l .. lmax_n l}"
    and len: "length (tokens l) < 2 ^ 32" and k: "0 < k"
  shows "draft_ns l k (n # ns) = draft_ns l k ns \<or>
    (\<exists>s. s + n < length (tokens l) \<and> gram (tokens l) n s = drop (length (tokens l) - n) (tokens l) \<and>
      draft_ns l k (n # ns) = Some (take k (drop (s + n) (tokens l)), n))"
proof (cases "length (tokens l) < n + 1")
  case True
  then show ?thesis by simp
next
  case False
  let ?ts = "tokens l" and ?tail = "drop (length (tokens l) - n) (tokens l)"
  let ?hits = "filter (\<lambda>s. lookup_key (gram ?ts n s) = lookup_key ?tail) [0 ..< length ?ts - n]"
  note find = find_hits[OF inv n lookup_key_nonzero[of ?tail]]
  show ?thesis
  proof (cases ?hits)
    case Nil
    then show ?thesis using False find by (simp add: Let_def)
  next
    case (Cons s0 ss)
    define s where "s = (case lpick l of First \<Rightarrow> s0 | Latest \<Rightarrow> last (s0 # ss))"
    have s: "s < length ?ts - n" unfolding s_def by (rule picked_hit(1)[OF refl Cons])
    have sl: "unat (case lpick l of First \<Rightarrow> sfirst \<lparr>skey = c, sfirst = word_of_nat s0, slast = word_of_nat (last (s0 # ss))\<rparr>
      | Latest \<Rightarrow> slast \<lparr>skey = c, sfirst = word_of_nat s0, slast = word_of_nat (last (s0 # ss))\<rparr>) = s" for c
      by (rule picked_place[OF s_def[symmetric] _ len]) (use s in simp)
    have nk: "take (min (s + n + k) (length ?ts) - (s + n)) (drop (s + n) ?ts) = take k (drop (s + n) ?ts)"
      by (cases "s + n + k \<le> length ?ts") (simp_all add: min_def)
    have "s + n < min (s + n + k) (length ?ts)" using s k by simp
    then have "draft_ns l k (n # ns) =
      (if take n (drop s ?ts) \<noteq> ?tail then draft_ns l k ns else Some (take k (drop (s + n) ?ts), n))"
      using False s unfolding draft_ns.simps(2) Let_def find Cons list.case option.case sl
      by (simp add: nk del: last.simps)
    then show ?thesis using s by (auto simp: gram_def intro!: exI[of _ s])
  qed
qed

lemma draft_ns_sound:
  assumes "lookup_inv l" "set ns \<subseteq> {lmin_n l .. lmax_n l}" "length (tokens l) < 2 ^ 32" "0 < k"
  shows "\<exists>d n. draft_ns l k ns = Some (d, n) \<and> (d = [] \<and> n = 0 \<or> n \<in> set ns \<and>
    (\<exists>s. s + n < length (tokens l) \<and> gram (tokens l) n s = drop (length (tokens l) - n) (tokens l) \<and>
       d = take k (drop (s + n) (tokens l))))"
  using assms(2)
proof (induction ns)
  case Nil
  then show ?case by simp
next
  case (Cons n ns)
  then have n: "n \<in> {lmin_n l .. lmax_n l}" by simp
  show ?case using draft_ns_step[OF assms(1) n assms(3,4), of ns] Cons by auto
qed

text \<open>Without hash collisions among the context's n-grams the draft is the specified one.\<close>

definition collision_free :: "i32 list \<Rightarrow> nat \<Rightarrow> bool" where
  "collision_free ts n \<longleftrightarrow>
     (\<forall>s \<le> length ts - n. \<forall>t \<le> length ts - n.
        lookup_key (gram ts n s) = lookup_key (gram ts n t) \<longrightarrow> gram ts n s = gram ts n t)"

lemma draft_ns_exact:
  assumes "lookup_inv l" "set ns \<subseteq> {lmin_n l .. lmax_n l}" "length (tokens l) < 2 ^ 32" "0 < k"
    "\<forall>n \<in> set ns. collision_free (tokens l) n"
  shows "draft_ns l k ns = Some (copy_draft (lpick l) (tokens l) k ns)"
  using assms(2,5)
proof (induction ns)
  case Nil
  then show ?case by simp
next
  case (Cons n ns)
  let ?ts = "tokens l" and ?tail = "drop (length (tokens l) - n) (tokens l)"
  have n: "n \<in> {lmin_n l .. lmax_n l}" using Cons.prems by simp
  have IH: "draft_ns l k ns = Some (copy_draft (lpick l) ?ts k ns)" using Cons by simp
  show ?case
  proof (cases "length ?ts < n + 1")
    case True
    then show ?thesis using IH by (simp add: occurrences_def)
  next
    case False
    have tail: "?tail = gram ?ts n (length ?ts - n)" using False by (simp add: gram_def)
    have hits: "filter (\<lambda>s. lookup_key (gram ?ts n s) = lookup_key ?tail) [0 ..< length ?ts - n] = occurrences ?ts n"
      unfolding occurrences_def tail
      by (rule filter_cong[OF refl]) (use Cons.prems(2) in \<open>auto simp: collision_free_def\<close>)
    note find = find_hits[OF assms(1) n lookup_key_nonzero[of ?tail], unfolded hits]
    show ?thesis
    proof (cases "occurrences ?ts n")
      case Nil
      then show ?thesis using False find IH by (simp add: Let_def)
    next
      case (Cons s0 ss)
      define s where "s = (case lpick l of First \<Rightarrow> s0 | Latest \<Rightarrow> last (s0 # ss))"
      note pick = picked_hit[OF occurrences_def[symmetric, THEN sym] Cons]
      have s: "s < length ?ts - n" "gram ?ts n s = ?tail" unfolding s_def by (rule pick)+
      have sl: "unat (case lpick l of First \<Rightarrow> sfirst \<lparr>skey = c, sfirst = word_of_nat s0, slast = word_of_nat (last (s0 # ss))\<rparr>
        | Latest \<Rightarrow> slast \<lparr>skey = c, sfirst = word_of_nat s0, slast = word_of_nat (last (s0 # ss))\<rparr>) = s" for c
        by (rule picked_place[OF s_def[symmetric] _ assms(3)]) (use s in simp)
      have nk: "take (min (s + n + k) (length ?ts) - (s + n)) (drop (s + n) ?ts) = take k (drop (s + n) ?ts)"
        by (cases "s + n + k \<le> length ?ts") (simp_all add: min_def)
      have "s + n < min (s + n + k) (length ?ts)" using s assms(4) by simp
      then have "draft_ns l k (n # ns) = Some (take k (drop (s + n) ?ts), n)"
        using False s unfolding draft_ns.simps(2) Let_def find Cons list.case option.case sl
        by (simp add: nk gram_def del: last.simps)
      then show ?thesis by (simp add: Cons s_def del: last.simps)
    qed
  qed
qed

section \<open>Properties\<close>

text \<open>
  C18. Prompt lookup (\<^verbatim>\<open>Lookup::extend\<close>, \<^verbatim>\<open>Lookup::draft\<close>) never panics and its probes end, and a
  draft is always a copy of what followed an earlier, identical occurrence of the context's
  last \<open>n\<close> tokens, for an \<open>n\<close> in the configured range, whatever the hashes collide with.
\<close>

theorem lookup_draft_copies:
  assumes "length ts < 2 ^ 32"
  shows "\<exists>l d n. lookup_extend (lookup_new a b p) ts = Some l \<and> lookup_draft l k = Some (d, n) \<and>
    (d = [] \<or> max a 1 \<le> n \<and> n \<le> max b (max a 1) \<and>
      (\<exists>s. s + n < length ts \<and> gram ts n s = drop (length ts - n) ts \<and> d = take k (drop (s + n) ts)))"
proof -
  obtain l where l: "lookup_extend (lookup_new a b p) ts = Some l" "lookup_inv l" "tokens l = ts"
    "lmin_n l = max a 1" "lmax_n l = max b (max a 1)"
    using lookup_extend_inv[OF lookup_new_inv, of a b p ts] by (auto simp: lookup_new_def Let_def)
  show ?thesis
  proof (cases "k = 0")
    case True
    then show ?thesis using l(1) by (auto simp: lookup_draft_def)
  next
    case False
    let ?ns = "rev [lmin_n l ..< Suc (lmax_n l)]"
    have ns: "set ?ns \<subseteq> {lmin_n l .. lmax_n l}" by auto
    have "length (tokens l) < 2 ^ 32" "0 < k" using assms l(3) False by simp_all
    from draft_ns_sound[OF l(2) ns this] obtain d n where
      d: "draft_ns l k ?ns = Some (d, n)" "d = [] \<and> n = 0 \<or> n \<in> set ?ns \<and>
      (\<exists>s. s + n < length (tokens l) \<and> gram (tokens l) n s = drop (length (tokens l) - n) (tokens l) \<and>
         d = take k (drop (s + n) (tokens l)))" by blast
    have "lookup_draft l k = Some (d, n)" using d(1) False by (simp add: lookup_draft_def)
    moreover have "d = [] \<or> max a 1 \<le> n \<and> n \<le> max b (max a 1) \<and>
        (\<exists>s. s + n < length ts \<and> gram ts n s = drop (length ts - n) ts \<and> d = take k (drop (s + n) ts))"
      using d(2) l(3-5) by auto
    ultimately show ?thesis using l(1) by blast
  qed
qed

theorem lookup_draft_copies_witness:
  "\<exists>l d n. lookup_extend (lookup_new 1 3 Latest) [7, 8, 9, 7, 8] = Some l \<and> lookup_draft l 10 = Some (d, n) \<and>
    (d = [] \<or> max 1 1 \<le> n \<and> n \<le> max 3 (max 1 1) \<and>
      (\<exists>s. s + n < length [7, 8, 9, 7, 8 :: i32] \<and>
        gram [7, 8, 9, 7, 8] n s = drop (length [7, 8, 9, 7, 8 :: i32] - n) [7, 8, 9, 7, 8] \<and>
        d = take 10 (drop (s + n) [7, 8, 9, 7, 8])))"
  by (rule lookup_draft_copies) simp

text \<open>
  C3. Where no two different n-grams of the context, of the orders from \<open>a\<close> to \<open>b\<close>, share a hash, the
  draft is exactly the specified one: the continuation of the first (or, with \<^verbatim>\<open>Pick::Latest\<close>, the
  last) earlier occurrence of the longest suffix of the context that occurred before.  (Where hashes
  collide, a match can be missed; the draft is still a copy, by the property above.)
\<close>

theorem lookup_draft_is_longest_match:
  assumes "length ts < 2 ^ 32" "0 < k" "1 \<le> a" "a \<le> b" "\<forall>n \<in> {a .. b}. collision_free ts n"
  shows "\<exists>l. lookup_extend (lookup_new a b p) ts = Some l \<and>
    lookup_draft l k = Some (copy_draft p ts k (rev [a ..< Suc b]))"
proof -
  obtain l where l: "lookup_extend (lookup_new a b p) ts = Some l" "lookup_inv l" "tokens l = ts"
    "lmin_n l = a" "lmax_n l = b" "lpick l = p"
    using lookup_extend_inv[OF lookup_new_inv, of a b p ts] assms(3,4)
    by (auto simp: lookup_new_def Let_def max_def)
  have "draft_ns l k (rev [a ..< Suc b]) = Some (copy_draft (lpick l) (tokens l) k (rev [a ..< Suc b]))"
    by (rule draft_ns_exact[OF l(2)]) (use assms l in auto)
  then show ?thesis using l assms(2) by (simp add: lookup_draft_def del: draft_ns.simps copy_draft.simps upt_Suc)
qed

theorem lookup_draft_is_longest_match_witness:
  "\<exists>l. lookup_extend (lookup_new 1 1 First) [5, 5] = Some l \<and> lookup_draft l 4 = Some ([5], 1)"
proof -
  have "collision_free [5, 5] 1" by (auto simp: collision_free_def gram_def le_Suc_eq)
  then have "\<exists>l. lookup_extend (lookup_new 1 1 First) [5, 5] = Some l \<and>
      lookup_draft l 4 = Some (copy_draft First [5, 5] 4 (rev [1 ..< Suc 1]))"
    by (intro lookup_draft_is_longest_match) auto
  moreover have "copy_draft First [5, 5] 4 (rev [1 ..< Suc 1]) = ([5], 1)"
    by (simp add: occurrences_def gram_def)
  ultimately show ?thesis by simp
qed

text \<open>
  The occurrence table (\<^verbatim>\<open>Table::note\<close>, \<^verbatim>\<open>find\<close>, \<^verbatim>\<open>grow\<close>): after any sequence of notes a
  key's lookup ends and returns the first and the last position noted under it, and nothing
  for a key never noted, through every growth of the table.
\<close>

lemma table_find_first_last:
  assumes "\<forall>(k, a) \<in> set es. k \<noteq> 0" "k \<noteq> 0"
  shows "\<exists>t. note_all table_note table_new es = Some t \<and> table_find t k = Some (
    case filter (\<lambda>e. fst e = k) es of [] \<Rightarrow> None
      | hits \<Rightarrow> Some \<lparr>skey = k, sfirst = snd (hd hits), slast = snd (last hits)\<rparr>)"
  using tc.note_all_spec[OF assms] by blast

end
