(* ===== verification/Entry_Table.thy ===== *)
theory Entry_Table
  imports Probe
begin

text \<open>
  Open addressing by entry number: both caches of \<^verbatim>\<open>ngram_cache.rs\<close> keep their entries in
  a list and a table of 32-bit entry numbers (0 empty) over it.  The locale \<open>entry_table\<close>
  is the contract of such a table for one hash; the probing contract gives it its walks.
\<close>

text \<open>A slot's entry number as \<^verbatim>\<open>u32\<close>: \<^verbatim>\<open>e as u32 + 1\<close>, wrapping.\<close>

definition entry_no :: "nat \<Rightarrow> nat" where
  "entry_no e = (e mod 2 ^ 32 + 1) mod 2 ^ 32"

definition entry_key :: "'k list \<Rightarrow> nat \<Rightarrow> 'k option" where
  "entry_key ks e = (if e = 0 then None else Some (ks ! (e - 1)))"

text \<open>Every entry has its slot, every slot its entry.\<close>

definition index_ok :: "('k \<Rightarrow> nat) \<Rightarrow> 'k list \<Rightarrow> nat list \<Rightarrow> bool" where
  "index_ok home ks slots \<longleftrightarrow> oa_ok home (map (entry_key ks) slots) \<and>
     entries_of (entry_key ks) slots = {1 .. length ks} \<and>
     used_slots (map (entry_key ks) slots) = length ks"

lemma entry_no_small: "e + 1 < 2 ^ 32 \<Longrightarrow> entry_no e = e + 1"
  by (simp add: entry_no_def)

locale entry_table =
  fixes home :: "'k \<Rightarrow> nat"

sublocale entry_table \<subseteq> ot: open_table "entry_key ks" home 0 for ks
  by unfold_locales (simp add: entry_key_def)

context entry_table
begin

lemma index_slot:
  assumes "index_ok home ks slots" "i < length slots" "slots ! i \<noteq> 0"
  shows "1 \<le> slots ! i" "slots ! i \<le> length ks"
proof -
  have "slots ! i \<in> entries_of (entry_key ks) slots"
    using assms(2,3) by (simp add: entries_of_def entry_key_def)
  then show "1 \<le> slots ! i" "slots ! i \<le> length ks" using assms(1) by (auto simp: index_ok_def)
qed

lemma index_keys:
  assumes "index_ok home ks slots"
  shows "Some k \<in> set (map (entry_key ks) slots) \<longleftrightarrow> k \<in> set ks"
proof -
  have "Some k \<in> set (map (entry_key ks) slots) \<longleftrightarrow> (\<exists>e \<in> entries_of (entry_key ks) slots. entry_key ks e = Some k)"
  proof
    assume "Some k \<in> set (map (entry_key ks) slots)"
    then obtain e where "e \<in> set slots" "entry_key ks e = Some k" by auto
    then show "\<exists>e \<in> entries_of (entry_key ks) slots. entry_key ks e = Some k"
      unfolding entries_of_def by blast
  next
    assume "\<exists>e \<in> entries_of (entry_key ks) slots. entry_key ks e = Some k"
    then obtain e where "e \<in> set slots" "entry_key ks e = Some k" unfolding entries_of_def by blast
    then show "Some k \<in> set (map (entry_key ks) slots)" by (metis image_eqI set_map)
  qed
  also have "\<dots> \<longleftrightarrow> (\<exists>e \<in> {1 .. length ks}. ks ! (e - 1) = k)"
    using assms by (auto simp: index_ok_def entry_key_def)
  also have "\<dots> \<longleftrightarrow> k \<in> set ks"
  proof
    assume "\<exists>e \<in> {1 .. length ks}. ks ! (e - 1) = k"
    then obtain e where e: "e \<in> {1 .. length ks}" "ks ! (e - 1) = k" by blast
    have "e - 1 < length ks" using e(1) unfolding atLeastAtMost_iff by linarith
    then show "k \<in> set ks" using e(2) by (metis nth_mem)
  next
    assume "k \<in> set ks"
    then obtain i where "i < length ks" "ks ! i = k" by (auto simp: in_set_conv_nth)
    then show "\<exists>e \<in> {1 .. length ks}. ks ! (e - 1) = k" by (intro bexI[of _ "i + 1"]) auto
  qed
  finally show ?thesis .
qed

lemma entry_key_stop: "(\<lambda>e. e = 0 \<or> ks ! (e - 1) = k) = (\<lambda>e. entry_key ks e = Some k \<or> entry_key ks e = None)"
  by (auto simp: entry_key_def fun_eq_iff)

lemma index_walk:
  assumes "index_ok home ks slots" and stop: "\<And>e. e \<le> length ks \<Longrightarrow> stop e = (e = 0 \<or> ks ! (e - 1) = k)"
  obtains i where
    "probe stop slots (home k AND (length slots - 1)) = Some i"
    "i < length slots" "path (map (entry_key ks) slots) (home k) i"
    "slots ! i = 0 \<and> k \<notin> set ks \<or> slots ! i \<noteq> 0 \<and> slots ! i \<le> length ks \<and> ks ! (slots ! i - 1) = k"
proof -
  have ok: "oa_ok home (map (entry_key ks) slots)" using assms by (simp add: index_ok_def)
  from ot.find_walk[OF ok, of k, folded entry_key_stop] obtain i where i:
    "probe (\<lambda>e. e = 0 \<or> ks ! (e - 1) = k) slots (home k AND (length slots - 1)) = Some i"
    "i < length slots" "path (map (entry_key ks) slots) (home k) i"
    "entry_key ks (slots ! i) = Some k \<or>
      entry_key ks (slots ! i) = None \<and> Some k \<notin> set (map (entry_key ks) slots)" by blast
  have found: "slots ! i = 0 \<and> k \<notin> set ks \<or> slots ! i \<noteq> 0 \<and> slots ! i \<le> length ks \<and> ks ! (slots ! i - 1) = k"
    using i(4) index_keys[OF assms(1), of k] index_slot[OF assms(1) i(2)]
    by (auto simp: entry_key_def split: if_splits)
  have "probe stop slots (home k AND (length slots - 1)) = Some i"
  proof -
    have small: "e \<le> length ks" if "e \<in> set slots" for e
      using that index_slot[OF assms(1)] by (cases "e = 0") (auto simp: in_set_conv_nth)
    have p2: "pow2 (length slots)" using oa_okD(1)[OF ok] by simp
    have start: "home k AND (length slots - 1) < length slots"
      unfolding and_mask_pow2[OF p2] by (rule mod_less_divisor[OF pow2_pos[OF p2]])
    have "slots ! i = 0 \<or> ks ! (slots ! i - 1) = k" using found by blast
    then have "probe (\<lambda>e. e = 0 \<or> ks ! (e - 1) = k) slots (home k AND (length slots - 1)) =
      probe stop slots (home k AND (length slots - 1))"
      by (rule probe_cong[OF p2 start nth_mem[OF i(2)]]) (simp only: stop[OF small])
    then show ?thesis unfolding i(1) by (rule sym)
  qed
  then show thesis using that i(2,3) found by simp
qed

lemma index_fresh: "pow2 n \<Longrightarrow> index_ok home [] (replicate n 0)"
  using ot.fresh[of n "[]"] by (simp add: index_ok_def entries_of_def entry_key_def map_replicate)

text \<open>The next entry goes to the free slot its walk ends at.\<close>

lemma index_insert:
  assumes ix: "index_ok home ks slots" and i: "i < length slots" "slots ! i = 0"
    "path (map (entry_key ks) slots) (home k) i"
    and new: "k \<notin> set ks" and room: "Suc (length ks) < length slots"
  shows "index_ok home (ks @ [k]) (slots[i := Suc (length ks)])"
proof -
  let ?ks' = "ks @ [k]" and ?m = "Suc (length ks)"
  have same: "entry_key ?ks' x = entry_key ks x" if "x \<in> set slots" for x
  proof -
    have "x \<le> length ks" using that index_slot(2)[OF ix] by (cases "x = 0") (auto simp: in_set_conv_nth)
    then show ?thesis by (cases "x = 0") (auto simp: entry_key_def nth_append)
  qed
  then have maps: "map (entry_key ?ks') slots = map (entry_key ks) slots" by simp
  have ents: "entries_of (entry_key ?ks') slots = entries_of (entry_key ks) slots"
    using same unfolding entries_of_def by auto
  have key: "entry_key ?ks' ?m = Some k" by (simp add: entry_key_def nth_append)
  have free: "entry_key ?ks' (slots ! i) = None" using i(2) by (simp add: entry_key_def)
  have oa: "oa_ok home (map (entry_key ?ks') slots)" "used_slots (map (entry_key ?ks') slots) = length ks"
    using ix unfolding maps by (auto simp: index_ok_def)
  have absent: "Some k \<notin> set (map (entry_key ?ks') slots)"
    unfolding maps index_keys[OF ix] using new by simp
  have room': "Suc (used_slots (map (entry_key ?ks') slots)) < length slots" unfolding oa(2) by (rule room)
  note fs = ot.fill_slot[OF oa(1) i(1) free i(3)[folded maps] absent key room']
  show ?thesis using fs ix unfolding ents oa(2) by (auto simp: index_ok_def)
qed

end

end
