(* ===== verification/Ngram_Part.thy ===== *)
theory Ngram_Part
  imports Prelude
begin

text \<open>
  The followers of one n-gram, \<^verbatim>\<open>Part\<close> of \<^verbatim>\<open>host/crates/phi-pld/src/ngram_cache.rs\<close>:
  pairs of a token and its count kept in token order by a binary search with a fixed trip
  count, with their total and their largest count.  Tokens are \<open>i32\<close> words compared as
  signed integers; counts are integers with the wrap-around of \<^verbatim>\<open>i32\<close> and \<^verbatim>\<open>i64\<close>
  written out.
\<close>

type_synonym pair = "i32 \<times> int"

function lower_loop :: "pair list \<Rightarrow> i32 \<Rightarrow> nat \<Rightarrow> nat \<Rightarrow> nat" where
  "lower_loop pairs t base n =
     (if 1 < n then
        let half = n div 2;
            base' = (if sint (fst (pairs ! (base + half))) < sint t then base + half else base)
        in lower_loop pairs t base' (n - half)
      else base)"
  by pat_completeness auto
termination
  by (relation "measure (\<lambda>(pairs, t, base, n). n)") auto

declare lower_loop.simps [simp del]

definition lower_bound :: "pair list \<Rightarrow> i32 \<Rightarrow> nat" where
  "lower_bound pairs t =
     (if pairs = [] then 0
      else let base = lower_loop pairs t 0 (length pairs)
           in base + (if sint (fst (pairs ! base)) < sint t then 1 else 0))"

definition count_in :: "pair list \<Rightarrow> i32 \<Rightarrow> int option" where
  "count_in pairs t =
     (let i = lower_bound pairs t in
      if i < length pairs \<and> fst (pairs ! i) = t then Some (snd (pairs ! i)) else None)"

record part =
  pairs :: "pair list"
  psum :: int
  pmax :: int

definition part_default :: part where
  "part_default = \<lparr>pairs = [], psum = 0, pmax = 0\<rparr>"

definition part_add :: "part \<Rightarrow> i32 \<Rightarrow> int \<Rightarrow> part" where
  "part_add p t c =
     (let i = lower_bound (pairs p) t;
          ps = (if i < length (pairs p) \<and> fst (pairs p ! i) = t
                then (pairs p)[i := (t, wrap32 (snd (pairs p ! i) + c))]
                else take i (pairs p) @ (t, c) # drop i (pairs p))
      in p\<lparr>pairs := ps, psum := wrap64 (psum p + c), pmax := max (pmax p) (snd (ps ! i))\<rparr>)"

section \<open>The search\<close>

definition token_sorted :: "pair list \<Rightarrow> bool" where
  "token_sorted ps \<longleftrightarrow> sorted_wrt (\<lambda>a b. sint (fst a) < sint (fst b)) ps"

lemma token_sorted_nth:
  "token_sorted ps \<Longrightarrow> i < j \<Longrightarrow> j < length ps \<Longrightarrow> sint (fst (ps ! i)) < sint (fst (ps ! j))"
  using sorted_wrt_nth_less[of "\<lambda>a b. sint (fst a) < sint (fst b)" ps i j] by (simp add: token_sorted_def)

text \<open>The window \<open>[base, base + n)\<close> of the search always holds the boundary.\<close>

lemma lower_loop_inv:
  assumes "token_sorted ps" "0 < n" "base + n \<le> length ps"
    "\<And>i. i < base \<Longrightarrow> sint (fst (ps ! i)) < sint t"
    "\<And>i. base + n \<le> i \<Longrightarrow> i < length ps \<Longrightarrow> \<not> sint (fst (ps ! i)) < sint t"
  shows "lower_loop ps t base n < length ps \<and>
    (\<forall>i < lower_loop ps t base n. sint (fst (ps ! i)) < sint t) \<and>
    (\<forall>i. lower_loop ps t base n < i \<longrightarrow> i < length ps \<longrightarrow> \<not> sint (fst (ps ! i)) < sint t)"
  using assms(2-5)
proof (induction n arbitrary: base rule: less_induct)
  case (less n)
  show ?case
  proof (cases "1 < n")
    case False
    then have "n = 1" using less.prems(1) by simp
    then have "lower_loop ps t base n = base" by (subst lower_loop.simps) simp
    then show ?thesis using less.prems \<open>n = 1\<close> by simp
  next
    case big: True
    let ?half = "n div 2"
    have half: "0 < ?half" "n - ?half < n" "0 < n - ?half" using big by auto
    have mid: "base + ?half < length ps" using half less.prems(2) by linarith
    show ?thesis
    proof (cases "sint (fst (ps ! (base + ?half))) < sint t")
      case T: True
      have low: "sint (fst (ps ! i)) < sint t" if "i < base + ?half" for i
        using token_sorted_nth[OF assms(1) that mid] T by linarith
      have eq: "lower_loop ps t base n = lower_loop ps t (base + ?half) (n - ?half)"
        using big T by (subst lower_loop.simps) (simp add: Let_def)
      have fin: "base + ?half + (n - ?half) = base + n" by simp
      show ?thesis unfolding eq
      proof (rule less.IH[OF half(2,3)])
        show "base + ?half + (n - ?half) \<le> length ps" unfolding fin by (rule less.prems(2))
        show "\<not> sint (fst (ps ! i)) < sint t" if "base + ?half + (n - ?half) \<le> i" "i < length ps" for i
          using less.prems(4)[of i] that unfolding fin by blast
      qed (rule low)
    next
      case F: False
      have high: "\<not> sint (fst (ps ! i)) < sint t" if "base + (n - ?half) \<le> i" "i < length ps" for i
      proof (cases "i = base + ?half")
        case True
        then show ?thesis using F by simp
      next
        case False
        then have "base + ?half < i" using that(1) by linarith
        then show ?thesis using token_sorted_nth[OF assms(1) _ that(2), of "base + ?half"] F by linarith
      qed
      have eq: "lower_loop ps t base n = lower_loop ps t base (n - ?half)"
        using big F by (subst lower_loop.simps) (simp add: Let_def)
      show ?thesis unfolding eq
      proof (rule less.IH[OF half(2,3)])
        show "base + (n - ?half) \<le> length ps" using less.prems(2) by linarith
      qed (rule less.prems(3), assumption, rule high)
    qed
  qed
qed

lemma lower_bound_spec:
  assumes "token_sorted ps"
  shows "lower_bound ps t \<le> length ps"
    "\<And>i. i < lower_bound ps t \<Longrightarrow> sint (fst (ps ! i)) < sint t"
    "\<And>i. lower_bound ps t \<le> i \<Longrightarrow> i < length ps \<Longrightarrow> \<not> sint (fst (ps ! i)) < sint t"
proof -
  have "lower_bound ps t \<le> length ps \<and> (\<forall>i < lower_bound ps t. sint (fst (ps ! i)) < sint t) \<and>
    (\<forall>i. lower_bound ps t \<le> i \<longrightarrow> i < length ps \<longrightarrow> \<not> sint (fst (ps ! i)) < sint t)"
  proof (cases "ps = []")
    case True
    then show ?thesis by (simp add: lower_bound_def)
  next
    case False
    then have "0 < length ps" by simp
    note inv = lower_loop_inv[OF assms this, of 0 t, simplified]
    show ?thesis
    proof (cases "sint (fst (ps ! lower_loop ps t 0 (length ps))) < sint t")
      case True
      then show ?thesis using inv False by (auto simp: lower_bound_def Let_def less_Suc_eq Suc_le_eq)
    next
      case F: False
      then show ?thesis using inv False by (auto simp: lower_bound_def Let_def le_less)
    qed
  qed
  then show "lower_bound ps t \<le> length ps"
    "\<And>i. i < lower_bound ps t \<Longrightarrow> sint (fst (ps ! i)) < sint t"
    "\<And>i. lower_bound ps t \<le> i \<Longrightarrow> i < length ps \<Longrightarrow> \<not> sint (fst (ps ! i)) < sint t" by auto
qed

text \<open>The search agrees with a left-to-right scan, whatever the length.\<close>

lemma lower_bound_takeWhile:
  assumes "token_sorted ps"
  shows "lower_bound ps t = length (takeWhile (\<lambda>p. sint (fst p) < sint t) ps)"
proof -
  have "takeWhile (\<lambda>p. sint (fst p) < sint t) ps = take (lower_bound ps t) ps"
    using lower_bound_spec[OF assms, where t = t] by (intro takeWhile_eq_take_P_nth) auto
  then show ?thesis using lower_bound_spec(1)[OF assms, where t = t] by simp
qed


lemma lower_bound_index:
  assumes "token_sorted ps" "i < length ps"
  shows "lower_bound ps (fst (ps ! i)) = i"
proof (rule linorder_cases)
  note lb = lower_bound_spec[OF assms(1), where t = "fst (ps ! i)"]
  show ?thesis if "lower_bound ps (fst (ps ! i)) < i"
    using lb(3)[OF order_refl] token_sorted_nth[OF assms(1) that assms(2)] that assms(2) by linarith
  show ?thesis if "i < lower_bound ps (fst (ps ! i))" using lb(2)[OF that] by simp
qed

lemma token_sorted_distinct:
  assumes "token_sorted ps" shows "distinct (map fst ps)"
proof -
  have "fst (ps ! i) \<noteq> fst (ps ! j)" if "i < length ps" "j < length ps" "i \<noteq> j" for i j
    using token_sorted_nth[OF assms, of i j] token_sorted_nth[OF assms, of j i] that by (cases "i < j") auto
  then show ?thesis by (auto simp: distinct_conv_nth)
qed

lemma lower_bound_hit:
  assumes "token_sorted ps"
  shows "lower_bound ps t < length ps \<and> fst (ps ! lower_bound ps t) = t \<longleftrightarrow> t \<in> fst ` set ps"
proof
  assume "lower_bound ps t < length ps \<and> fst (ps ! lower_bound ps t) = t"
  then show "t \<in> fst ` set ps" by (metis image_eqI nth_mem)
next
  assume "t \<in> fst ` set ps"
  then obtain i where "i < length ps" "fst (ps ! i) = t" by (auto simp: in_set_conv_nth)
  then show "lower_bound ps t < length ps \<and> fst (ps ! lower_bound ps t) = t"
    using lower_bound_index[OF assms] by auto
qed

lemma count_in_map_of: "token_sorted ps \<Longrightarrow> count_in ps t = map_of ps t"
proof -
  assume s: "token_sorted ps"
  show ?thesis
  proof (cases "t \<in> fst ` set ps")
    case True
    let ?i = "lower_bound ps t"
    have i: "?i < length ps" "fst (ps ! ?i) = t" using True lower_bound_hit[OF s] by auto
    then have "(t, snd (ps ! ?i)) \<in> set ps" by (metis nth_mem prod.collapse)
    then have "map_of ps t = Some (snd (ps ! ?i))" using token_sorted_distinct[OF s] by simp
    then show ?thesis using i by (simp add: count_in_def)
  next
    case False
    then show ?thesis using lower_bound_hit[OF s, of t] map_of_eq_None_iff[of ps t]
      by (auto simp: count_in_def Let_def)
  qed
qed

section \<open>The part invariant\<close>

definition follower_count :: "part \<Rightarrow> i32 \<Rightarrow> int" where
  "follower_count p t = (case map_of (pairs p) t of None \<Rightarrow> 0 | Some c \<Rightarrow> c)"

text \<open>
  Tokens ascending, counts positive, the total and the largest count true, and the total in
  the range of \<^verbatim>\<open>i32\<close> (a context or corpus of fewer than 2^31 tokens), where no
  addition wraps.
\<close>

definition part_ok :: "part \<Rightarrow> bool" where
  "part_ok p \<longleftrightarrow> token_sorted (pairs p) \<and> (\<forall>x \<in> set (pairs p). 0 < snd x) \<and>
     psum p = sum_list (map snd (pairs p)) \<and> psum p < 2 ^ 31 \<and>
     pmax p = Max (insert 0 (snd ` set (pairs p)))"

lemma part_ok_default: "part_ok part_default"
  by (simp add: part_ok_def part_default_def token_sorted_def)

lemma sum_list_pos_bound:
  "\<forall>x \<in> set xs. 0 < snd x \<Longrightarrow> y \<in> set xs \<Longrightarrow> snd y \<le> sum_list (map snd xs)" for xs :: "pair list"
proof (induction xs)
  case Nil
  then show ?case by simp
next
  case (Cons x xs)
  have "0 \<le> sum_list (map snd xs)" using Cons.prems(1) by (intro sum_list_nonneg) auto
  then show ?case using Cons by fastforce
qed

lemma part_count_le_max: "part_ok p \<Longrightarrow> (t, c) \<in> set (pairs p) \<Longrightarrow> c \<le> pmax p"
  by (force simp: part_ok_def intro!: Max_ge)

lemma part_max_le_sum: "part_ok p \<Longrightarrow> 0 \<le> pmax p \<and> pmax p \<le> psum p"
proof -
  assume ok: "part_ok p"
  then have "0 \<le> psum p" by (fastforce simp: part_ok_def intro!: sum_list_nonneg)
  moreover have "\<forall>c \<in> snd ` set (pairs p). c \<le> psum p"
    using ok sum_list_pos_bound by (auto simp: part_ok_def)
  ultimately show ?thesis using ok by (simp add: part_ok_def)
qed


lemma max_list_update:
  fixes xs :: "int list"
  assumes "i < length xs" "xs ! i \<le> m"
  shows "Max (insert 0 (set (xs[i := m]))) = max (Max (insert 0 (set xs))) m"
proof (rule Max_eqI)
  show "y \<le> max (Max (insert 0 (set xs))) m" if "y \<in> insert 0 (set (xs[i := m]))" for y
    using that set_update_subset_insert[of xs i m] by (auto simp: le_max_iff_disj)
  have m: "m \<in> set (xs[i := m])" using assms(1) by (rule set_update_memI)
  have "y \<in> set (xs[i := m])" if "y \<in> set xs" "m < y" for y
    using that assms by (metis in_set_conv_nth length_list_update not_less nth_list_update_neq)
  moreover have "Max (insert 0 (set xs)) \<in> insert 0 (set xs)" by (rule Max_in) auto
  ultimately show "max (Max (insert 0 (set xs))) m \<in> insert 0 (set (xs[i := m]))"
    using m by (metis insert_iff max_def not_less)
qed simp

lemma token_sorted_map: "token_sorted ps \<longleftrightarrow> sorted_wrt (\<lambda>a b. sint a < sint b) (map fst ps)"
  by (simp add: token_sorted_def sorted_wrt_map)

lemma sum_list_map_update:
  fixes xs :: "int list"
  shows "i < length xs \<Longrightarrow> sum_list (xs[i := y]) = sum_list xs - xs ! i + y"
  by (induction xs arbitrary: i) (auto split: nat.splits)

lemma part_add_hit:
  assumes ok: "part_ok p" and c: "0 < c" "psum p + c < 2 ^ 31"
    and i: "i = lower_bound (pairs p) t" "i < length (pairs p)" "fst (pairs p ! i) = t"
  defines "n \<equiv> snd (pairs p ! i) + c"
  shows "part_add p t c = p\<lparr>pairs := (pairs p)[i := (t, n)], psum := psum p + c, pmax := max (pmax p) n\<rparr>"
    "part_ok (part_add p t c)" "map_of (pairs (part_add p t c)) = (map_of (pairs p))(t \<mapsto> n)"
proof -
  let ?ps = "pairs p"
  have mem: "(t, snd (?ps ! i)) \<in> set ?ps" using i by (metis nth_mem prod.collapse)
  have old: "0 < snd (?ps ! i)" "snd (?ps ! i) \<le> psum p"
    using ok mem sum_list_pos_bound[of ?ps "(t, snd (?ps ! i))"] by (auto simp: part_ok_def)
  have w: "wrap32 n = n" "wrap64 (psum p + c) = psum p + c"
    using old c by (auto simp: n_def intro!: wrap32_id wrap64_id)
  show eq: "part_add p t c = p\<lparr>pairs := ?ps[i := (t, n)], psum := psum p + c, pmax := max (pmax p) n\<rparr>"
    using i w by (simp add: part_add_def Let_def n_def)
  have fsts: "map fst (?ps[i := (t, n)]) = map fst ?ps"
    using i by (metis fst_conv list_update_id map_update nth_map)
  have sorted: "token_sorted ?ps" using ok by (simp add: part_ok_def)
  then have sorted': "token_sorted (?ps[i := (t, n)])" unfolding token_sorted_map fsts .
  have snds: "map snd (?ps[i := (t, n)]) = (map snd ?ps)[i := n]" by (simp add: map_update)
  have sum: "sum_list (map snd (?ps[i := (t, n)])) = psum p + c"
    unfolding snds using i(2) ok by (simp add: sum_list_map_update part_ok_def n_def)
  have "snd ` set (?ps[i := (t, n)]) = set ((map snd ?ps)[i := n])"
    unfolding snds[symmetric] by simp
  then have mx: "Max (insert 0 (snd ` set (?ps[i := (t, n)]))) = max (pmax p) n"
    using max_list_update[of i "map snd ?ps" n] i(2) c(1) ok by (simp add: part_ok_def n_def)
  have pos: "\<forall>x \<in> set (?ps[i := (t, n)]). 0 < snd x"
    using ok old c set_update_subset_insert[of ?ps i "(t, n)"] by (auto simp: part_ok_def n_def)
  show "part_ok (part_add p t c)"
    unfolding eq using sorted' sum mx pos c(2) by (simp add: part_ok_def)
  have "map_of (?ps[i := (t, n)]) s = ((map_of ?ps)(t \<mapsto> n)) s" for s
  proof (cases "s = t")
    case True
    have "(t, n) \<in> set (?ps[i := (t, n)])" using i(2) by (rule set_update_memI)
    then show ?thesis using True token_sorted_distinct[OF sorted'] by simp
  next
    case False
    have "(s, x) \<in> set (?ps[i := (t, n)]) \<longleftrightarrow> (s, x) \<in> set ?ps" for x
    proof
      show "(s, x) \<in> set (?ps[i := (t, n)]) \<Longrightarrow> (s, x) \<in> set ?ps"
        using False set_update_subset_insert[of ?ps i "(t, n)"] by auto
      assume "(s, x) \<in> set ?ps"
      then obtain j where "j < length ?ps" "?ps ! j = (s, x)" by (auto simp: in_set_conv_nth)
      then show "(s, x) \<in> set (?ps[i := (t, n)])"
        using False i(3) by (metis fst_conv length_list_update nth_list_update_neq nth_mem)
    qed
    then have "map_of (?ps[i := (t, n)]) s = Some x \<longleftrightarrow> map_of ?ps s = Some x" for x
      using token_sorted_distinct[OF sorted'] token_sorted_distinct[OF sorted] by simp
    then show ?thesis using False by (metis fun_upd_other not_Some_eq)
  qed
  then show "map_of (pairs (part_add p t c)) = (map_of ?ps)(t \<mapsto> n)" unfolding eq by auto
qed

lemma part_add_miss:
  assumes ok: "part_ok p" and c: "0 < c" "psum p + c < 2 ^ 31"
    and t: "t \<notin> fst ` set (pairs p)"
  defines "i \<equiv> lower_bound (pairs p) t"
  shows "part_add p t c = p\<lparr>pairs := take i (pairs p) @ (t, c) # drop i (pairs p),
      psum := psum p + c, pmax := max (pmax p) c\<rparr>"
    "part_ok (part_add p t c)" "map_of (pairs (part_add p t c)) = (map_of (pairs p))(t \<mapsto> c)"
proof -
  let ?ps = "pairs p" and ?qs = "take i (pairs p) @ (t, c) # drop i (pairs p)"
  have sorted: "token_sorted ?ps" using ok by (simp add: part_ok_def)
  note lb = lower_bound_spec[OF sorted, where t = t, folded i_def]
  have no: "\<not> (i < length ?ps \<and> fst (?ps ! i) = t)" using lower_bound_hit[OF sorted] t i_def by simp
  have w: "wrap64 (psum p + c) = psum p + c"
    using c part_max_le_sum[OF ok] by (auto intro!: wrap64_id)
  have "?qs ! i = (t, c)" using lb(1) by (simp add: nth_append)
  then show eq: "part_add p t c = p\<lparr>pairs := ?qs, psum := psum p + c, pmax := max (pmax p) c\<rparr>"
    unfolding part_add_def Let_def i_def[symmetric] if_not_P[OF no] w by simp
  have set: "set ?qs = insert (t, c) (set ?ps)"
    by (metis append_take_drop_id list.simps(15) set_append Un_insert_right)
  have before: "sint (fst x) < sint t" if "x \<in> set (take i ?ps)" for x
    using that lb(2) by (auto simp: in_set_conv_nth)
  have after: "sint t < sint (fst x)" if x: "x \<in> set (drop i ?ps)" for x
  proof -
    have "\<not> sint (fst x) < sint t" using x lb(3) by (auto simp: in_set_conv_nth)
    moreover have "fst x \<noteq> t" using x t by (meson image_eqI in_set_dropD)
    ultimately show ?thesis by (metis linorder_neqE_linordered_idom signed_word_eqI)
  qed
  have sorted': "token_sorted ?qs"
    unfolding token_sorted_def sorted_wrt_append list.set sorted_wrt.simps(2)
  proof (intro conjI ballI)
    let ?P = "\<lambda>a b. sint (fst a) < sint (fst b)"
    show "sorted_wrt ?P (take i ?ps)" "sorted_wrt ?P (drop i ?ps)"
      using sorted unfolding token_sorted_def by (rule sorted_wrt_take sorted_wrt_drop)+
    show "sint (fst (t, c)) < sint (fst y)" if "y \<in> set (drop i ?ps)" for y
      using after[OF that] by simp
    show "sint (fst x) < sint (fst y)"
      if "x \<in> set (take i ?ps)" "y \<in> insert (t, c) (set (drop i ?ps))" for x y
      using that before[OF that(1)] after[of y] by (cases "y = (t, c)") auto
  qed
  have split: "sum_list (map snd ?ps) = sum_list (map snd (take i ?ps)) + sum_list (map snd (drop i ?ps))"
    unfolding sum_list_append[symmetric] map_append[symmetric] append_take_drop_id ..
  have "sum_list (map snd ?qs) = sum_list (map snd ?ps) + c" unfolding split by simp
  moreover have "psum p = sum_list (map snd ?ps)" using ok unfolding part_ok_def by blast
  ultimately have sum: "sum_list (map snd ?qs) = psum p + c" by simp
  have "insert 0 (snd ` set ?qs) = insert c (insert 0 (snd ` set ?ps))" unfolding set by auto
  then have mx: "Max (insert 0 (snd ` set ?qs)) = max (pmax p) c"
    using ok by (simp only:, subst Max_insert) (auto simp: part_ok_def max.commute)
  show "part_ok (part_add p t c)"
  proof -
    have "\<forall>x \<in> set ?qs. 0 < snd x" using ok c(1) unfolding set part_ok_def by simp
    then show ?thesis unfolding eq part_ok_def using sorted' sum mx c(2) by simp
  qed
  have "map_of ?qs s = ((map_of ?ps)(t \<mapsto> c)) s" for s
  proof -
    have "map_of ?qs s = Some x \<longleftrightarrow> ((map_of ?ps)(t \<mapsto> c)) s = Some x" for x
      unfolding map_of_eq_Some_iff[OF token_sorted_distinct[OF sorted']] set
      using map_of_eq_Some_iff[OF token_sorted_distinct[OF sorted], of s x] t by force
    then show ?thesis by (metis not_Some_eq)
  qed
  then show "map_of (pairs (part_add p t c)) = (map_of ?ps)(t \<mapsto> c)" unfolding eq by auto
qed

text \<open>Adding to a part: the token's count, the total and the largest count all follow.\<close>

lemma part_add_spec:
  assumes "part_ok p" "0 < c" "psum p + c < 2 ^ 31"
  shows "part_ok (part_add p t c)"
    "follower_count (part_add p t c) = (follower_count p)(t := follower_count p t + c)"
    "psum (part_add p t c) = psum p + c" "pairs (part_add p t c) \<noteq> []"
proof -
  have s: "token_sorted (pairs p)" using assms(1) by (simp add: part_ok_def)
  have "part_ok (part_add p t c) \<and>
    follower_count (part_add p t c) = (follower_count p)(t := follower_count p t + c) \<and>
    psum (part_add p t c) = psum p + c \<and> pairs (part_add p t c) \<noteq> []"
  proof (cases "t \<in> fst ` set (pairs p)")
    case True
    note hit = lower_bound_hit[OF s, THEN iffD2, OF True]
    note r = part_add_hit[OF assms refl conjunct1[OF hit] conjunct2[OF hit]]
    have "map_of (pairs p) t = Some (snd (pairs p ! lower_bound (pairs p) t))"
      using count_in_map_of[OF s, of t] hit by (simp add: count_in_def)
    then show ?thesis using r hit by (auto simp: follower_count_def fun_eq_iff)
  next
    case False
    note r = part_add_miss[OF assms False]
    have "map_of (pairs p) t = None" using False by (simp add: map_of_eq_None_iff)
    then show ?thesis using r by (auto simp: follower_count_def fun_eq_iff)
  qed
  then show "part_ok (part_add p t c)"
    "follower_count (part_add p t c) = (follower_count p)(t := follower_count p t + c)"
    "psum (part_add p t c) = psum p + c" "pairs (part_add p t c) \<noteq> []" by auto
qed

section \<open>Properties\<close>

text \<open>
  The branch-free binary search of \<^verbatim>\<open>lower_bound\<close>, whose trip count depends on the length
  alone, agrees with a scan from the left at every length and every probe.
\<close>

lemma lower_bound_is_scan:
  assumes "token_sorted ps"
  shows "lower_bound ps t = length (takeWhile (\<lambda>p. sint (fst p) < sint t) ps)"
  by (rule lower_bound_takeWhile[OF assms])

text \<open>
  \<^verbatim>\<open>Part::add\<close> keeps the part well formed (tokens ascending, counts positive, the total and
  the largest count true) and adds to exactly one token's count, while the total stays below 2^31.
\<close>

lemma part_add_counts:
  assumes "part_ok p" "0 < c" "psum p + c < 2 ^ 31"
  shows "part_ok (part_add p t c) \<and> psum (part_add p t c) = psum p + c \<and>
    follower_count (part_add p t c) = (follower_count p)(t := follower_count p t + c)"
  using part_add_spec[OF assms] by blast

end
