(* ===== verification/Ngram_Cache.thy ===== *)
theory Ngram_Cache
  imports Entry_Table Ngram_Part
begin

text \<open>
  The growing n-gram cache, \<^verbatim>\<open>Cache\<close> of \<^verbatim>\<open>host/crates/phi-pld/src/ngram_cache.rs\<close>:
  an open-addressing table of entry numbers (0 empty) over the list of entries, the counting
  of a context's followers, and the merge into the dynamic cache.  \<open>Cache\<close> is an
  interpretation of the probing contract and keeps the contract \<open>follower_store\<close> of a map
  from n-grams to parts; what \<open>update\<close> and \<open>merge\<close> count is proved from that contract.
  \<open>None\<close> stands for a panic (a slice out of range) or a probe that never ends.
\<close>

section \<open>Keys\<close>

definition NGRAM_MAX :: nat where "NGRAM_MAX = 4"
definition NGRAM_STATIC :: nat where "NGRAM_STATIC = 2"
definition NULL :: i32 where "NULL = - 1"

type_synonym key = "i32 list"

definition key_of :: "i32 list \<Rightarrow> key option" where
  "key_of toks = (if length toks \<le> NGRAM_MAX
     then Some (toks @ replicate (NGRAM_MAX - length toks) NULL) else None)"

definition hash_step :: "i32 \<Rightarrow> u64 \<Rightarrow> u64" where
  "hash_step t h0 = (let h = (h0 XOR ucast t) * 0xff51afd7ed558ccd in h XOR drop_bit 33 h)"

definition hash :: "key \<Rightarrow> u64" where
  "hash k = fold hash_step k 0x9e3779b97f4a7c15"

lemma key_of_inj:
  assumes "key_of a = Some k" "key_of b = Some k" "NULL \<notin> set a" "NULL \<notin> set b"
  shows "a = b"
proof -
  let ?live = "takeWhile (\<lambda>t. t \<noteq> NULL)"
  have pad: "?live (x @ replicate m NULL) = x" if "NULL \<notin> set x" for x m
  proof -
    have "?live (x @ replicate m NULL) = x @ ?live (replicate m NULL)"
      using that by (intro takeWhile_append2) auto
    then show ?thesis by (cases m) simp_all
  qed
  have live: "?live k = x" if "key_of x = Some k" "NULL \<notin> set x" for x
  proof -
    have "k = x @ replicate (NGRAM_MAX - length x) NULL"
      using that(1) unfolding key_of_def by (simp split: if_splits)
    then show ?thesis using pad[OF that(2)] by simp
  qed
  show ?thesis using live[OF assms(1,3)] live[OF assms(2,4)] by simp
qed

section \<open>The cache\<close>

record cache =
  cslots :: "nat list"
  centries :: "(key \<times> part) list"

definition cache_new :: cache where
  "cache_new = \<lparr>cslots = [], centries = []\<rparr>"

definition cache_len :: "cache \<Rightarrow> nat" where
  "cache_len c = length (centries c)"

definition cache_is_empty :: "cache \<Rightarrow> bool" where
  "cache_is_empty c \<longleftrightarrow> centries c = []"

definition cache_find :: "cache \<Rightarrow> key \<Rightarrow> part option option" where
  "cache_find c k =
     (if cslots c = [] then Some None
      else let mask = length (cslots c) - 1 in
        case probe (\<lambda>e. e = 0 \<or> fst (centries c ! (e - 1)) = k) (cslots c) (unat (hash k) AND mask) of
          None \<Rightarrow> None
        | Some i \<Rightarrow>
            (let e = cslots c ! i in
             Some (if e = 0 then None else Some (snd (centries c ! (e - 1))))))"

fun cache_refill :: "(key \<times> part) list \<Rightarrow> nat \<Rightarrow> nat list \<Rightarrow> nat list option" where
  "cache_refill [] e slots = Some slots"
| "cache_refill ((k, p) # es) e slots =
     (case probe (\<lambda>x. x = 0) slots (unat (hash k) AND (length slots - 1)) of
        None \<Rightarrow> None
      | Some i \<Rightarrow> cache_refill es (e + 1) (slots[i := entry_no e]))"

definition cache_grow :: "cache \<Rightarrow> cache option" where
  "cache_grow c =
     (let size = max (length (cslots c) * 2) 1024 in
      map_option (\<lambda>ss. c\<lparr>cslots := ss\<rparr>) (cache_refill (centries c) 0 (replicate size 0)))"

text \<open>
  \<^verbatim>\<open>part_mut\<close> hands out a mutable reference to the key's part, an empty one when the key
  is new; here it takes what the caller does with it.
\<close>

definition cache_part_mut :: "cache \<Rightarrow> key \<Rightarrow> (part \<Rightarrow> part) \<Rightarrow> cache option" where
  "cache_part_mut c0 k f =
     (case (if length (cslots c0) < (length (centries c0) + 1) * 2 then cache_grow c0 else Some c0) of
        None \<Rightarrow> None
      | Some c \<Rightarrow>
          (let mask = length (cslots c) - 1 in
           case probe (\<lambda>e. e = 0 \<or> fst (centries c ! (e - 1)) = k) (cslots c) (unat (hash k) AND mask) of
             None \<Rightarrow> None
           | Some i \<Rightarrow>
               (let e = cslots c ! i in
                Some (if e = 0
                      then c\<lparr>centries := centries c @ [(k, f part_default)],
                             cslots := (cslots c)[i := (length (centries c) + 1) mod 2 ^ 32]\<rparr>
                      else c\<lparr>centries := (centries c)[e - 1 :=
                               (fst (centries c ! (e - 1)), f (snd (centries c ! (e - 1))))]\<rparr>))))"

fun update_at :: "i32 list \<Rightarrow> nat \<Rightarrow> nat list \<Rightarrow> cache \<Rightarrow> cache option" where
  "update_at toks n [] c = Some c"
| "update_at toks n (i # is) c =
     (case key_of (take n (drop (i - n) toks)) of
        None \<Rightarrow> None
      | Some k \<Rightarrow>
          (case cache_part_mut c k (\<lambda>p. part_add p (toks ! i) 1) of
             None \<Rightarrow> None
           | Some c' \<Rightarrow> update_at toks n is c'))"

fun update_ns :: "i32 list \<Rightarrow> nat \<Rightarrow> nat list \<Rightarrow> cache \<Rightarrow> cache option" where
  "update_ns toks nnew [] c = Some c"
| "update_ns toks nnew (n # ns) c =
     (let len = length toks in
      case update_at toks n [max (len - nnew) n ..< len] c of
        None \<Rightarrow> None
      | Some c' \<Rightarrow> update_ns toks nnew ns c')"

definition cache_update :: "cache \<Rightarrow> i32 list \<Rightarrow> nat \<Rightarrow> nat \<Rightarrow> nat \<Rightarrow> cache option" where
  "cache_update c toks nnew nmin nmax =
     update_ns toks nnew [nmin ..< Suc (min nmax NGRAM_MAX)] c"

definition add_pairs :: "pair list \<Rightarrow> part \<Rightarrow> part" where
  "add_pairs ps p = fold (\<lambda>(t, c) q. part_add q t c) ps p"

fun merge_entries :: "(key \<times> part) list \<Rightarrow> cache \<Rightarrow> cache option" where
  "merge_entries [] c = Some c"
| "merge_entries ((k, p) # es) c =
     (case cache_part_mut c k (add_pairs (pairs p)) of
        None \<Rightarrow> None
      | Some c' \<Rightarrow> merge_entries es c')"

definition cache_merge :: "cache \<Rightarrow> cache \<Rightarrow> cache option" where
  "cache_merge c other = merge_entries (centries other) c"

section \<open>The table of entry numbers\<close>

definition home :: "key \<Rightarrow> nat" where
  "home k = unat (hash k)"

interpretation ct: entry_table home .

text \<open>Every entry has its slot; the table is at most half full.\<close>

definition cache_ok :: "cache \<Rightarrow> bool" where
  "cache_ok c \<longleftrightarrow> distinct (map fst (centries c)) \<and>
     (if cslots c = [] then centries c = []
      else index_ok home (map fst (centries c)) (cslots c) \<and> 2 \<le> length (cslots c) \<and>
        2 * length (centries c) \<le> length (cslots c))"

lemma refill_place:
  assumes "length ks < 2 ^ 32 - 1" "map fst es = drop e ks" "e \<le> length ks"
  shows "cache_refill es e slots =
    place_all (\<lambda>x. x = 0) (\<lambda>x. home (ks ! (x - 1))) [Suc e ..< Suc (length ks)] slots"
  using assms(2,3)
proof (induction es arbitrary: e slots)
  case Nil
  then have "e = length ks" by simp
  then show ?case by simp
next
  case (Cons kp es)
  obtain k p where kp: "kp = (k, p)" by (cases kp)
  have e: "e < length ks" using Cons.prems by (metis drop_eq_Nil leI list.map_disc_iff list.distinct(1))
  have "drop e ks = ks ! e # drop (Suc e) ks" using e by (simp add: Cons_nth_drop_Suc)
  then have k: "k = ks ! e" and rest: "map fst es = drop (Suc e) ks" using Cons.prems(1) kp by auto
  have "entry_no e = Suc e" using entry_no_small[of e] e assms(1) by simp
  moreover have "[Suc e ..< Suc (length ks)] = Suc e # [Suc (Suc e) ..< Suc (length ks)]"
    using e by (subst upt_conv_Cons) auto
  ultimately show ?case
    using Cons.IH[OF rest] e by (simp add: kp k home_def split: option.splits)
qed

lemma cache_grow_ok:
  assumes ok: "cache_ok c" and n: "length (centries c) < 2 ^ 32 - 1"
    and full: "length (cslots c) < (length (centries c) + 1) * 2"
  shows "\<exists>c'. cache_grow c = Some c' \<and> cache_ok c' \<and> centries c' = centries c \<and>
    cslots c' \<noteq> [] \<and> (length (centries c) + 1) * 2 \<le> length (cslots c')"
proof -
  let ?ks = "map fst (centries c)" and ?size = "max (length (cslots c) * 2) 1024"
  have p2: "pow2 ?size"
  proof (cases "cslots c = []")
    case True
    then show ?thesis by (simp add: pow2_1024)
  next
    case False
    then have "pow2 (length (cslots c))"
      using ok oa_okD(1)[of home "map (entry_key ?ks) (cslots c)"] by (simp add: cache_ok_def index_ok_def)
    then show ?thesis using pow2_double pow2_1024 by (simp add: max_def)
  qed
  have room: "(length (centries c) + 1) * 2 \<le> ?size"
    using ok by (cases "cslots c = []") (auto simp: cache_ok_def max_def)
  have none: "entry_key ?ks x = None \<longleftrightarrow> x = 0" for x by (simp add: entry_key_def)
  let ?items = "[Suc 0 ..< Suc (length ?ks)]"
  have d: "distinct (map (entry_key ?ks) ?items)"
    unfolding distinct_map
  proof (intro conjI inj_onI)
    have dk: "distinct ?ks" using ok by (simp add: cache_ok_def)
    fix x y assume xy: "x \<in> set ?items" "y \<in> set ?items" "entry_key ?ks x = entry_key ?ks y"
    moreover have "x \<noteq> 0" "y \<noteq> 0" using xy(1,2) unfolding set_upt atLeastLessThan_iff by linarith+
    ultimately have "?ks ! (x - 1) = ?ks ! (y - 1)" unfolding entry_key_def by simp
    then have "x - 1 = y - 1" using xy(1,2) nth_eq_iff_index_eq[OF dk, of "x - 1" "y - 1"] by auto
    then show "x = y" using xy(1,2) by auto
  qed simp
  have u: "used_slots (map (entry_key ?ks) (replicate ?size 0)) = 0"
    by (simp add: map_replicate entry_key_def)
  have e: "entries_of (entry_key ?ks) (replicate ?size 0) = {}" by (auto simp: entries_of_def entry_key_def)
  have "\<exists>ss. place_all (\<lambda>x. x = 0) (\<lambda>x. home (?ks ! (x - 1))) ?items (replicate ?size 0) = Some ss \<and>
    length ss = length (replicate ?size (0 :: nat)) \<and> oa_ok home (map (entry_key ?ks) ss) \<and>
    used_slots (map (entry_key ?ks) ss) = used_slots (map (entry_key ?ks) (replicate ?size 0)) + length ?items \<and>
    entries_of (entry_key ?ks) ss = entries_of (entry_key ?ks) (replicate ?size 0) \<union> set ?items"
  proof (rule ct.ot.place_all_ok[OF ct.ot.fresh[OF p2] d])
    show "used_slots (map (entry_key ?ks) (replicate ?size 0)) + length ?items < length (replicate ?size (0 :: nat))"
    proof -
      have li: "length ?items = length (centries c)" by (simp del: upt_Suc)
      have "length (centries c) < (length (centries c) + 1) * 2" by simp
      then show ?thesis unfolding u add_0 li length_replicate using room by (rule less_le_trans)
    qed
  qed (auto simp: entry_key_def)
  then obtain ss where ss0: "place_all (\<lambda>x. x = 0) (\<lambda>x. home (?ks ! (x - 1))) ?items (replicate ?size 0) = Some ss"
    "length ss = length (replicate ?size (0 :: nat))" "oa_ok home (map (entry_key ?ks) ss)"
    "used_slots (map (entry_key ?ks) ss) = 0 + length ?items" "entries_of (entry_key ?ks) ss = {} \<union> set ?items"
    unfolding u e by blast
  have li: "length ?items = length ?ks" "set ?items = {1 .. length ?ks}" by (auto simp del: upt_Suc)
  note ss = ss0(1) ss0(2)[unfolded length_replicate] ss0(3) ss0(4)[unfolded add_0 li] ss0(5)[unfolded Un_empty_left li]
  have "cache_refill (centries c) 0 (replicate ?size 0) = Some ss"
    using refill_place[of ?ks "centries c" 0] n ss(1) by simp
  then have "cache_grow c = Some (c\<lparr>cslots := ss\<rparr>)" by (simp add: cache_grow_def Let_def)
  moreover have "ss \<noteq> []" using ss(2) by auto
  ultimately show ?thesis
    using ss(2-5) ok room by (auto simp: cache_ok_def index_ok_def)
qed

text \<open>The entries after handing out a part.\<close>

definition upsert :: "key \<Rightarrow> (part \<Rightarrow> part) \<Rightarrow> (key \<times> part) list \<Rightarrow> (key \<times> part) list" where
  "upsert k f es =
     (if k \<in> fst ` set es then map (\<lambda>(k', p). (k', if k' = k then f p else p)) es
      else es @ [(k, f part_default)])"

lemma stop_fst:
  "e \<le> length (map fst es) \<Longrightarrow> (e = 0 \<or> fst (es ! (e - 1)) = k) = (e = 0 \<or> map fst es ! (e - 1) = k)"
  by (cases "e = 0") auto

lemma cache_find_map_of:
  assumes "cache_ok c" shows "cache_find c k = Some (map_of (centries c) k)"
proof (cases "cslots c = []")
  case True
  then show ?thesis using assms by (simp add: cache_ok_def cache_find_def)
next
  case False
  let ?ks = "map fst (centries c)"
  have ix: "index_ok home ?ks (cslots c)" and d: "distinct ?ks" using assms False by (auto simp: cache_ok_def)
  obtain i where i: "probe (\<lambda>e. e = 0 \<or> fst (centries c ! (e - 1)) = k) (cslots c)
      (unat (hash k) AND (length (cslots c) - 1)) = Some i"
    "i < length (cslots c)"
    "cslots c ! i = 0 \<and> k \<notin> set ?ks \<or>
     cslots c ! i \<noteq> 0 \<and> cslots c ! i \<le> length ?ks \<and> ?ks ! (cslots c ! i - 1) = k"
    using ct.index_walk[OF ix stop_fst, of k] unfolding home_def by blast
  show ?thesis
  proof (cases "cslots c ! i = 0")
    case True
    then have "map_of (centries c) k = None" using i(3) by (simp add: map_of_eq_None_iff)
    then show ?thesis using i(1) True False by (simp add: cache_find_def Let_def)
  next
    case nz: False
    let ?e = "cslots c ! i - 1"
    have e: "?e < length (centries c)" "fst (centries c ! ?e) = k" using i(3) nz by auto
    then have "(k, snd (centries c ! ?e)) \<in> set (centries c)" by (metis nth_mem prod.collapse)
    then have "map_of (centries c) k = Some (snd (centries c ! ?e))" using d by simp
    then show ?thesis using i(1) nz False by (simp add: cache_find_def Let_def)
  qed
qed


lemma map_fst_upsert:
  "map fst (upsert k f es) = (if k \<in> fst ` set es then map fst es else map fst es @ [k])"
  by (auto simp: upsert_def o_def split_def)

lemma map_of_upsert:
  "map_of (upsert k f es) = (map_of es)(k \<mapsto> f (case map_of es k of None \<Rightarrow> part_default | Some p \<Rightarrow> p))"
proof (cases "k \<in> fst ` set es")
  case True
  then have "upsert k f es = map (\<lambda>(k', p). (k', if k' = k then f p else p)) es" by (simp add: upsert_def)
  moreover have "map_of (map (\<lambda>(k', p). (k', if k' = k then f p else p)) es) x =
    map_option (\<lambda>p. if x = k then f p else p) (map_of es x)" for x
    by (induction es) auto
  moreover obtain p where "map_of es k = Some p" using True by (meson map_of_eq_None_iff not_None_eq)
  ultimately show ?thesis by (auto simp: fun_eq_iff map_option.id[unfolded id_def])
next
  case False
  then have "map_of es k = None" by (simp add: map_of_eq_None_iff)
  then show ?thesis using False by (auto simp: upsert_def map_add_def fun_eq_iff split: option.splits)
qed

lemma upsert_at:
  assumes "distinct (map fst es)" "i < length es" "fst (es ! i) = k"
  shows "es[i := (fst (es ! i), f (snd (es ! i)))] = upsert k f es"
proof (rule nth_equalityI)
  have "k \<in> fst ` set es" using assms(2,3) by auto
  then have u: "upsert k f es = map (\<lambda>(k', p). (k', if k' = k then f p else p)) es" by (simp add: upsert_def)
  show "length (es[i := (fst (es ! i), f (snd (es ! i)))]) = length (upsert k f es)" by (simp add: u)
  fix j assume "j < length (es[i := (fst (es ! i), f (snd (es ! i)))])"
  then have j: "j < length es" by simp
  have "fst (es ! j) = k \<longleftrightarrow> j = i"
    using nth_eq_iff_index_eq[OF assms(1), of j i] j assms(2,3) by auto
  then show "es[i := (fst (es ! i), f (snd (es ! i)))] ! j = upsert k f es ! j"
    using j unfolding u by (cases "j = i") (auto simp: split_def)
qed

lemma cache_room:
  assumes "cache_ok c" "length (centries c) < 2 ^ 32 - 1"
  shows "\<exists>c'. (if length (cslots c) < (length (centries c) + 1) * 2 then cache_grow c else Some c) = Some c' \<and>
    cache_ok c' \<and> centries c' = centries c \<and> cslots c' \<noteq> [] \<and>
    (length (centries c) + 1) * 2 \<le> length (cslots c')"
proof (cases "length (cslots c) < (length (centries c) + 1) * 2")
  case True
  then show ?thesis using cache_grow_ok[OF assms True] by simp
next
  case False
  then show ?thesis using assms(1) by auto
qed

lemma cache_part_mut_entries:
  assumes ok: "cache_ok c" and n: "length (centries c) < 2 ^ 32 - 1"
  shows "\<exists>c'. cache_part_mut c k f = Some c' \<and> cache_ok c' \<and> centries c' = upsert k f (centries c)"
proof -
  obtain u where u: "(if length (cslots c) < (length (centries c) + 1) * 2 then cache_grow c else Some c) = Some u"
    "cache_ok u" "centries u = centries c" "cslots u \<noteq> []"
    "(length (centries c) + 1) * 2 \<le> length (cslots u)"
    using cache_room[OF assms] by blast
  let ?es = "centries u" and ?ks = "map fst (centries u)"
  have ix: "index_ok home ?ks (cslots u)" and d: "distinct ?ks" using u(2,4) by (auto simp: cache_ok_def)
  obtain i where i: "probe (\<lambda>e. e = 0 \<or> fst (?es ! (e - 1)) = k) (cslots u)
      (unat (hash k) AND (length (cslots u) - 1)) = Some i"
    "i < length (cslots u)" "path (map (entry_key ?ks) (cslots u)) (home k) i"
    "cslots u ! i = 0 \<and> k \<notin> set ?ks \<or>
     cslots u ! i \<noteq> 0 \<and> cslots u ! i \<le> length ?ks \<and> ?ks ! (cslots u ! i - 1) = k"
    using ct.index_walk[OF ix stop_fst, of k] unfolding home_def by blast
  show ?thesis
  proof (cases "cslots u ! i = 0")
    case False
    let ?e = "cslots u ! i - 1"
    have e: "?e < length ?es" "fst (?es ! ?e) = k" using i(4) False by auto
    have "cache_part_mut c k f = Some (u\<lparr>centries := upsert k f ?es\<rparr>)"
      using u(1) i(1) False upsert_at[OF d e, of f] by (simp add: cache_part_mut_def Let_def)
    moreover have "k \<in> fst ` set ?es" using e by (metis image_eqI nth_mem)
    moreover have "length (upsert k f ?es) = length ?es"
      using calculation(2) by (simp add: upsert_def)
    ultimately show ?thesis using u(2-4) by (auto simp: cache_ok_def map_fst_upsert)
  next
    case True
    then have new: "k \<notin> fst ` set ?es" using i(4) by auto
    let ?m = "Suc (length ?es)" and ?ks' = "?ks @ [k]"
    have m: "?m mod 2 ^ 32 = ?m" using n u(3) by simp
    let ?c = "u\<lparr>centries := upsert k f ?es, cslots := (cslots u)[i := ?m]\<rparr>"
    have eq: "cache_part_mut c k f = Some ?c"
      using u(1) i(1) True new m by (simp add: cache_part_mut_def Let_def upsert_def)
    have "index_ok home ?ks' ((cslots u)[i := ?m])"
      using ct.index_insert[OF ix i(2) True i(3)] new u(3,5) by simp
    then have "cache_ok ?c"
      using d new u(3,5) i(2) by (auto simp: cache_ok_def map_fst_upsert upsert_def)
    then show ?thesis using eq u(3) by auto
  qed
qed

section \<open>The contract of a store of followers\<close>

text \<open>
  What the counting code needs of the cache: a map from keys to parts, an update that cannot
  fail while there is room, and a bound on how it grows.
\<close>

fun upd_all :: "('c \<Rightarrow> key \<Rightarrow> (part \<Rightarrow> part) \<Rightarrow> 'c option) \<Rightarrow> (key \<times> (part \<Rightarrow> part)) list \<Rightarrow> 'c \<Rightarrow> 'c option" where
  "upd_all upd [] c = Some c"
| "upd_all upd ((k, f) # ops) c =
     (case upd c k f of None \<Rightarrow> None | Some c' \<Rightarrow> upd_all upd ops c')"

text \<open>The part of one key after a list of updates.\<close>

definition part_after :: "key \<Rightarrow> (key \<times> (part \<Rightarrow> part)) list \<Rightarrow> part option \<Rightarrow> part option" where
  "part_after k ops p =
     (case filter (\<lambda>o'. fst o' = k) ops of
        [] \<Rightarrow> p
      | hits \<Rightarrow> Some (fold snd hits (case p of None \<Rightarrow> part_default | Some q \<Rightarrow> q)))"

locale follower_store =
  fixes none :: 'c and find :: "'c \<Rightarrow> key \<Rightarrow> part option option"
    and upd :: "'c \<Rightarrow> key \<Rightarrow> (part \<Rightarrow> part) \<Rightarrow> 'c option"
    and ok :: "'c \<Rightarrow> bool" and size :: "'c \<Rightarrow> nat"
  assumes none_ok: "ok none" "size none = 0" "find none k = Some None"
    and find_total: "ok c \<Longrightarrow> \<exists>p. find c k = Some p"
    and upd_ok: "ok c \<Longrightarrow> size c < 2 ^ 32 - 1 \<Longrightarrow>
      \<exists>c'. upd c k f = Some c' \<and> ok c' \<and> size c' \<le> Suc (size c) \<and>
        (\<forall>k'. find c' k' = (if k' = k then Some (Some (f (case find c k of Some (Some p) \<Rightarrow> p | _ \<Rightarrow> part_default)))
          else find c k'))"
begin

lemma upd_all_spec:
  assumes "ok c" "size c + length ops < 2 ^ 32"
  shows "\<exists>c'. upd_all upd ops c = Some c' \<and> ok c' \<and> size c' \<le> size c + length ops \<and>
    (\<forall>k p. find c k = Some p \<longrightarrow> find c' k = Some (part_after k ops p))"
  using assms
proof (induction ops arbitrary: c)
  case Nil
  then show ?case by (simp add: part_after_def)
next
  case (Cons o1 ops)
  obtain k f where o1: "o1 = (k, f)" by (cases o1)
  have "size c < 2 ^ 32 - 1" using Cons.prems(2) by simp
  then obtain c1 where c1: "upd c k f = Some c1" "ok c1" "size c1 \<le> Suc (size c)"
    "\<And>k'. find c1 k' = (if k' = k then Some (Some (f (case find c k of Some (Some p) \<Rightarrow> p | _ \<Rightarrow> part_default)))
       else find c k')"
    using upd_ok[OF Cons.prems(1), of k f] by auto
  obtain c' where c': "upd_all upd ops c1 = Some c'" "ok c'" "size c' \<le> size c1 + length ops"
    "\<forall>k p. find c1 k = Some p \<longrightarrow> find c' k = Some (part_after k ops p)"
    using Cons.IH[OF c1(2)] c1(3) Cons.prems(2) by auto
  have "find c' k' = Some (part_after k' (o1 # ops) p)" if "find c k' = Some p" for k' p
  proof (cases "k' = k")
    case True
    then have "find c1 k' = Some (Some (f (case p of None \<Rightarrow> part_default | Some q \<Rightarrow> q)))"
      using c1(4)[of k'] that by (simp split: option.splits)
    then have "find c' k' = Some (part_after k' ops (Some (f (case p of None \<Rightarrow> part_default | Some q \<Rightarrow> q))))"
      using c'(4) by blast
    then show ?thesis using True by (auto simp: part_after_def o1 split: list.splits)
  next
    case False
    then have "find c' k' = Some (part_after k' ops p)" using c1(4)[of k'] that c'(4) by simp
    then show ?thesis using False by (simp add: part_after_def o1)
  qed
  then show ?case using c1 c' o1 by auto
qed

end

interpretation fs: follower_store cache_new cache_find cache_part_mut cache_ok cache_len
proof unfold_locales
  fix c :: cache and k :: key and f :: "part \<Rightarrow> part"
  show "cache_ok cache_new" "cache_len cache_new = 0" "cache_find cache_new k = Some None"
    by (simp_all add: cache_ok_def cache_new_def cache_len_def cache_find_def)
  assume ok: "cache_ok c"
  show "\<exists>p. cache_find c k = Some p" using cache_find_map_of[OF ok] by blast
  assume "cache_len c < 2 ^ 32 - 1"
  then obtain c' where c': "cache_part_mut c k f = Some c'" "cache_ok c'" "centries c' = upsert k f (centries c)"
    using cache_part_mut_entries[OF ok, of k f] by (auto simp: cache_len_def)
  have "length (upsert k f (centries c)) \<le> Suc (length (centries c))" by (simp add: upsert_def)
  then show "\<exists>c'. cache_part_mut c k f = Some c' \<and> cache_ok c' \<and> cache_len c' \<le> Suc (cache_len c) \<and>
    (\<forall>k'. cache_find c' k' = (if k' = k then Some (Some (f (case cache_find c k of Some (Some p) \<Rightarrow> p | _ \<Rightarrow> part_default)))
      else cache_find c k'))"
    using c' by (auto simp: cache_len_def cache_find_map_of ok map_of_upsert split: option.splits)
qed

section \<open>Properties\<close>

text \<open>
  C10. The open-addressing cache is a map: below 2^32 - 1 entries \<^verbatim>\<open>part_mut\<close> ends, keeps the
  table's invariant, changes its key's part alone (an empty one when the key is new), and
  \<^verbatim>\<open>find\<close> ends with what the entries hold.
\<close>

theorem cache_is_map:
  assumes "cache_ok c" "cache_len c < 2 ^ 32 - 1"
  shows "cache_find c k = Some (map_of (centries c) k) \<and>
    (\<exists>c'. cache_part_mut c k f = Some c' \<and> cache_ok c' \<and>
      (\<forall>k'. cache_find c' k' = (if k' = k
         then Some (Some (f (case map_of (centries c) k of None \<Rightarrow> part_default | Some p \<Rightarrow> p)))
         else cache_find c k')))"
proof -
  obtain c' where c': "cache_part_mut c k f = Some c'" "cache_ok c'" "centries c' = upsert k f (centries c)"
    using cache_part_mut_entries[OF assms(1)] assms(2) by (auto simp: cache_len_def)
  have "cache_find c' k' = (if k' = k
      then Some (Some (f (case map_of (centries c) k of None \<Rightarrow> part_default | Some p \<Rightarrow> p)))
      else cache_find c k')" for k'
    using c' assms(1) by (simp add: cache_find_map_of map_of_upsert)
  then show ?thesis using c'(1,2) cache_find_map_of[OF assms(1)] by blast
qed

theorem cache_is_map_witness:
  "cache_find cache_new [1, 2, - 1, - 1] = Some (map_of (centries cache_new) [1, 2, - 1, - 1]) \<and>
    (\<exists>c'. cache_part_mut cache_new [1, 2, - 1, - 1] id = Some c' \<and> cache_ok c' \<and>
      (\<forall>k'. cache_find c' k' = (if k' = [1, 2, - 1, - 1]
         then Some (Some (id (case map_of (centries cache_new) [1, 2, - 1, - 1] of None \<Rightarrow> part_default | Some p \<Rightarrow> p)))
         else cache_find cache_new k')))"
  by (rule cache_is_map[OF fs.none_ok(1)]) (simp add: fs.none_ok(2))

end
