(* ===== verification/Ngram_Counts.thy ===== *)
theory Ngram_Counts
  imports Ngram_Cache
begin

text \<open>
  What the n-gram cache counts: after \<^verbatim>\<open>Cache::update\<close> a key holds exactly the
  followers its n-gram has in the context, in the order they occurred; what
  \<^verbatim>\<open>Cache::merge\<close> does to the counts of two caches.  Both are lists of part updates, so
  they rest on \<open>fs.upd_all_spec\<close>, the contract of a store of followers.
\<close>

section \<open>The followers of an n-gram in a context\<close>

definition follow_at :: "i32 list \<Rightarrow> i32 list \<Rightarrow> nat \<Rightarrow> bool" where
  "follow_at ts g i \<longleftrightarrow> length g \<le> i \<and> i < length ts \<and> take (length g) (drop (i - length g) ts) = g"

definition followers :: "i32 list \<Rightarrow> i32 list \<Rightarrow> i32 list" where
  "followers ts g = map ((!) ts) (filter (follow_at ts g) [0 ..< length ts])"

definition count_all :: "i32 list \<Rightarrow> part \<Rightarrow> part" where
  "count_all fs p = fold (\<lambda>t q. part_add q t 1) fs p"

definition part_of :: "i32 list \<Rightarrow> part option" where
  "part_of fs = (if fs = [] then None else Some (count_all fs part_default))"

lemma count_all_spec:
  "part_ok p \<Longrightarrow> psum p + int (length fs) < 2 ^ 31 \<Longrightarrow>
   part_ok (count_all fs p) \<and> psum (count_all fs p) = psum p + int (length fs) \<and>
   (\<forall>t. follower_count (count_all fs p) t = follower_count p t + int (count_list fs t))"
proof (induction fs arbitrary: p)
  case Nil
  then show ?case by (simp add: count_all_def)
next
  case (Cons t fs)
  have "psum p + 1 < 2 ^ 31" using Cons.prems(2) by simp
  note r = part_add_spec[OF Cons.prems(1) zero_less_one this, of t]
  have "psum (part_add p t 1) + int (length fs) < 2 ^ 31" using Cons.prems(2) r(3) by simp
  note ih = Cons.IH[OF r(1) this]
  have step: "count_all (t # fs) p = count_all fs (part_add p t 1)" by (simp add: count_all_def)
  have "follower_count (count_all (t # fs) p) s = follower_count p s + int (count_list (t # fs) s)" for s
    unfolding step using ih r(2) by simp
  moreover have "psum (count_all (t # fs) p) = psum p + int (length (t # fs))"
    unfolding step using ih r(3) by simp
  ultimately show ?case using ih step by simp
qed

lemma part_of_spec:
  assumes "length fs < 2 ^ 31" "part_of fs = Some p"
  shows "part_ok p" "psum p = int (length fs)" "follower_count p t = int (count_list fs t)"
proof -
  have "psum part_default + int (length fs) < 2 ^ 31" using assms(1) by (simp add: part_default_def)
  note r = count_all_spec[OF part_ok_default this]
  have p: "p = count_all fs part_default" using assms(2) by (simp add: part_of_def split: if_splits)
  have "follower_count part_default t = 0" "psum part_default = 0"
    by (simp_all add: follower_count_def part_default_def)
  then show "part_ok p" "psum p = int (length fs)" "follower_count p t = int (count_list fs t)"
    using r unfolding p by auto
qed

lemma length_followers: "length (followers ts g) \<le> length ts"
  unfolding followers_def by (metis diff_zero length_filter_le length_map length_upt)

lemma follow_at_append:
  "i < length ts \<Longrightarrow> follow_at (ts @ us) g i = follow_at ts g i"
  by (auto simp: follow_at_def)

lemma followers_append:
  "followers (ts @ us) g = followers ts g @
     map ((!) (ts @ us)) (filter (follow_at (ts @ us) g) [length ts ..< length (ts @ us)])"
proof -
  have split: "[0 ..< length (ts @ us)] = [0 ..< length ts] @ [length ts ..< length (ts @ us)]"
    using upt_add_eq_append[of 0 "length ts" "length us"] by simp
  have old: "filter (follow_at (ts @ us) g) [0 ..< length ts] = filter (follow_at ts g) [0 ..< length ts]"
    by (rule filter_cong) (simp_all add: follow_at_append)
  have "map ((!) (ts @ us)) (filter (follow_at ts g) [0 ..< length ts]) = followers ts g"
    unfolding followers_def by (rule map_cong) (auto simp: nth_append)
  then show ?thesis unfolding followers_def[of "ts @ us"] split filter_append map_append old by simp
qed

section \<open>An update is a list of part updates\<close>

definition key_at :: "i32 list \<Rightarrow> nat \<Rightarrow> nat \<Rightarrow> key" where
  "key_at toks n i = take n (drop (i - n) toks) @
     replicate (NGRAM_MAX - length (take n (drop (i - n) toks))) NULL"

definition count_op :: "i32 list \<Rightarrow> nat \<Rightarrow> nat \<Rightarrow> key \<times> (part \<Rightarrow> part)" where
  "count_op toks n i = (key_at toks n i, \<lambda>p. part_add p (toks ! i) 1)"

definition update_ops :: "i32 list \<Rightarrow> nat \<Rightarrow> nat \<Rightarrow> nat \<Rightarrow> (key \<times> (part \<Rightarrow> part)) list" where
  "update_ops toks nnew nmin nmax = concat (map
     (\<lambda>n. map (count_op toks n) [max (length toks - nnew) n ..< length toks])
     [nmin ..< Suc (min nmax NGRAM_MAX)])"

lemma key_of_key_at: "n \<le> NGRAM_MAX \<Longrightarrow> key_of (take n (drop (i - n) toks)) = Some (key_at toks n i)"
  by (auto simp: key_of_def key_at_def)

lemma upd_all_append:
  "upd_all upd (a @ b) c = (case upd_all upd a c of None \<Rightarrow> None | Some c' \<Rightarrow> upd_all upd b c')"
  by (induction upd a c rule: upd_all.induct) (auto split: option.splits)

lemma update_at_ops:
  "n \<le> NGRAM_MAX \<Longrightarrow> update_at toks n is c = upd_all cache_part_mut (map (count_op toks n) is) c"
proof (induction "is" arbitrary: c)
  case (Cons i "is")
  show ?case unfolding update_at.simps key_of_key_at[OF Cons.prems]
    using Cons.IH[OF Cons.prems] by (simp add: count_op_def split: option.splits)
qed simp

lemma update_ns_ops:
  "\<forall>n \<in> set ns. n \<le> NGRAM_MAX \<Longrightarrow> update_ns toks nnew ns c = upd_all cache_part_mut
     (concat (map (\<lambda>n. map (count_op toks n) [max (length toks - nnew) n ..< length toks]) ns)) c"
proof (induction ns arbitrary: c)
  case Nil
  then show ?case by simp
next
  case (Cons n ns)
  have n: "n \<le> NGRAM_MAX" and ns: "\<forall>n \<in> set ns. n \<le> NGRAM_MAX" using Cons.prems by auto
  show ?case unfolding update_ns.simps Let_def update_at_ops[OF n] list.map concat.simps upd_all_append
    using Cons.IH[OF ns] by (simp split: option.splits)
qed

lemma cache_update_ops:
  "cache_update c toks nnew nmin nmax = upd_all cache_part_mut (update_ops toks nnew nmin nmax) c"
proof -
  have "\<forall>n \<in> set [nmin ..< Suc (min nmax NGRAM_MAX)]. n \<le> NGRAM_MAX" by auto
  then show ?thesis unfolding cache_update_def update_ops_def by (rule update_ns_ops)
qed

lemma key_at_iff:
  assumes "n \<le> i" "i < length toks" "n \<le> NGRAM_MAX" "length g \<le> NGRAM_MAX" "NULL \<notin> set toks" "NULL \<notin> set g"
  shows "Some (key_at toks n i) = key_of g \<longleftrightarrow> n = length g \<and> follow_at toks g i"
proof
  let ?w = "take n (drop (i - n) toks)"
  have len: "length ?w = n" using assms(1,2) by simp
  have nn: "NULL \<notin> set ?w" using assms(5) by (meson in_set_dropD in_set_takeD)
  have key: "key_of ?w = Some (key_at toks n i)" using assms(3) by (rule key_of_key_at)
  {
    assume "Some (key_at toks n i) = key_of g"
    then have w: "?w = g" using key_of_inj[OF key _ nn assms(6)] by simp
    then show "n = length g \<and> follow_at toks g i" using len assms(1,2) by (auto simp: follow_at_def)
  next
    assume "n = length g \<and> follow_at toks g i"
    then have "?w = g" by (simp add: follow_at_def)
    then show "Some (key_at toks n i) = key_of g" using key by simp
  }
qed

lemma concat_map_single:
  "distinct ns \<Longrightarrow> m \<in> set ns \<Longrightarrow> (\<And>n. n \<in> set ns \<Longrightarrow> n \<noteq> m \<Longrightarrow> f n = []) \<Longrightarrow> concat (map f ns) = f m"
proof (induction ns)
  case Nil
  then show ?case by simp
next
  case (Cons n ns)
  show ?case
  proof (cases "n = m")
    case True
    then have "\<forall>x \<in> set ns. f x = []" using Cons.prems by auto
    then have "concat (map f ns) = []" by simp
    then show ?thesis using True by simp
  next
    case False
    then show ?thesis using Cons by simp
  qed
qed

text \<open>The updates that touch one key are the new occurrences of its n-gram, in order.\<close>

lemma update_ops_of:
  assumes g: "nmin \<le> length g" "length g \<le> nmax" "length g \<le> NGRAM_MAX" "NULL \<notin> set g"
    and nn: "NULL \<notin> set (ts @ us)" and k: "key_of g = Some k"
  shows "map snd (filter (\<lambda>o'. fst o' = k) (update_ops (ts @ us) (length us) nmin nmax)) =
    map (\<lambda>t p. part_add p t 1) (map ((!) (ts @ us)) (filter (follow_at (ts @ us) g) [length ts ..< length (ts @ us)]))"
proof -
  let ?toks = "ts @ us" and ?N = "length (ts @ us)"
  let ?f = "\<lambda>n. filter (\<lambda>o'. fst o' = k) (map (count_op ?toks n) [max (?N - length us) n ..< ?N])"
  have hit: "fst (count_op ?toks n i) = k \<longleftrightarrow> n = length g \<and> follow_at ?toks g i"
    if "n \<le> i" "i < ?N" "n \<le> NGRAM_MAX" for n i
    using key_at_iff[OF that g(3) nn g(4)] k by (auto simp: count_op_def)
  have other: "?f n = []" if "n \<in> set [nmin ..< Suc (min nmax NGRAM_MAX)]" "n \<noteq> length g" for n
  proof -
    have n: "n \<le> NGRAM_MAX" using that(1) by auto
    have "fst o' \<noteq> k" if o: "o' \<in> set (map (count_op ?toks n) [max (?N - length us) n ..< ?N])" for o'
    proof -
      obtain i where i: "o' = count_op ?toks n i" "n \<le> i" "i < ?N" using o by auto
      show ?thesis unfolding i(1) hit[OF i(2,3) n] using \<open>n \<noteq> length g\<close> by simp
    qed
    then show ?thesis unfolding filter_empty_conv by blast
  qed
  have mem: "length g \<in> set [nmin ..< Suc (min nmax NGRAM_MAX)]" using g by auto
  have "filter (\<lambda>o'. fst o' = k) (update_ops ?toks (length us) nmin nmax) = ?f (length g)"
    unfolding update_ops_def filter_concat map_map o_def
    by (rule concat_map_single[OF distinct_upt mem other])
  also have "\<dots> = map (count_op ?toks (length g)) (filter (follow_at ?toks g) [max (length ts) (length g) ..< ?N])"
    unfolding filter_map o_def 
  proof (rule arg_cong[of _ _ "map _"], rule filter_cong)
    show "[max (?N - length us) (length g) ..< ?N] = [max (length ts) (length g) ..< ?N]" by simp
    show "(fst (count_op ?toks (length g) i) = k) = follow_at ?toks g i"
      if "i \<in> set [max (length ts) (length g) ..< ?N]" for i
      using that hit[of "length g" i] g(3) by simp
  qed
  also have "filter (follow_at ?toks g) [max (length ts) (length g) ..< ?N] =
      filter (follow_at ?toks g) [length ts ..< ?N]"
  proof (cases "length g \<le> length ts")
    case True
    then show ?thesis by (simp add: max_def)
  next
    case False
    then have m: "max (length ts) (length g) = length g" by simp
    show ?thesis
    proof (cases "length g \<le> ?N")
      case True
      then have split: "[length ts ..< ?N] = [length ts ..< length g] @ [length g ..< ?N]"
        using False by (metis le_add_diff_inverse nat_le_linear upt_add_eq_append)
      have none: "filter (follow_at ?toks g) [length ts ..< length g] = []"
        by (auto simp: filter_empty_conv follow_at_def)
      show ?thesis unfolding m split filter_append none by simp
    next
      case big: False
      have "filter (follow_at ?toks g) [length ts ..< ?N] = []"
        using big by (auto simp: filter_empty_conv follow_at_def)
      then show ?thesis unfolding m using big by simp
    qed
  qed
  finally show ?thesis by (simp add: o_def count_op_def)
qed

lemma length_concat_le:
  "(\<And>n. n \<in> set ns \<Longrightarrow> length (f n) \<le> b) \<Longrightarrow> length (concat (map f ns)) \<le> length ns * b"
  by (induction ns) (force intro: add_mono)+

lemma length_update_ops: "length (update_ops (ts @ us) (length us) nmin nmax) \<le> 5 * length us"
proof -
  let ?ns = "[nmin ..< Suc (min nmax NGRAM_MAX)]"
  have "length (update_ops (ts @ us) (length us) nmin nmax) \<le> length ?ns * length us"
    unfolding update_ops_def by (rule length_concat_le) simp
  also have "\<dots> \<le> 5 * length us" by (rule mult_right_mono) (auto simp: NGRAM_MAX_def)
  finally show ?thesis .
qed

section \<open>The cache counts the context\<close>

text \<open>The cache holds the followers of every n-gram of \<open>nmin\<close> to \<open>nmax\<close> tokens of \<open>ts\<close>.\<close>

definition counts_of :: "cache \<Rightarrow> i32 list \<Rightarrow> nat \<Rightarrow> nat \<Rightarrow> bool" where
  "counts_of c ts nmin nmax \<longleftrightarrow> cache_ok c \<and> cache_len c \<le> 5 * length ts \<and>
     (\<forall>g k. nmin \<le> length g \<and> length g \<le> min nmax NGRAM_MAX \<and> NULL \<notin> set g \<and> key_of g = Some k \<longrightarrow>
        cache_find c k = Some (part_of (followers ts g)))"

lemma counts_of_new: "counts_of cache_new [] nmin nmax"
  using fs.none_ok by (simp add: counts_of_def followers_def part_of_def)

lemma part_after_count:
  assumes "map snd (filter (\<lambda>o'. fst o' = k) ops) = map (\<lambda>t p. part_add p t 1) new"
  shows "part_after k ops (part_of old) = part_of (old @ new)"
proof -
  let ?hits = "filter (\<lambda>o'. fst o' = k) ops"
  have folds: "fold snd ?hits p = count_all new p" for p
  proof -
    have "fold snd ?hits p = fold (\<lambda>f. f) (map snd ?hits) p" by (simp add: fold_map o_def)
    then show ?thesis unfolding assms by (simp add: fold_map o_def count_all_def)
  qed
  have empty: "?hits = [] \<longleftrightarrow> new = []" using assms by (metis map_is_Nil_conv)
  have app: "count_all (old @ new) part_default = count_all new (count_all old part_default)"
    by (simp add: count_all_def)
  have none: "count_all [] part_default = part_default" by (simp add: count_all_def)
  show ?thesis
  proof (cases ?hits)
    case Nil
    then show ?thesis using empty by (simp add: part_after_def)
  next
    case (Cons h hs)
    then have "part_after k ops (part_of old) =
        Some (fold snd ?hits (case part_of old of None \<Rightarrow> part_default | Some q \<Rightarrow> q))"
      by (simp add: part_after_def)
    then show ?thesis using Cons empty unfolding folds by (auto simp: part_of_def app none)
  qed
qed

lemma cache_update_counts:
  assumes c: "counts_of c ts nmin nmax" and nn: "NULL \<notin> set (ts @ us)" and len: "length (ts @ us) < 2 ^ 29"
  shows "\<exists>c'. cache_update c (ts @ us) (length us) nmin nmax = Some c' \<and> counts_of c' (ts @ us) nmin nmax"
proof -
  let ?ops = "update_ops (ts @ us) (length us) nmin nmax"
  have ops: "length ?ops \<le> 5 * length us" by (rule length_update_ops)
  have ok: "cache_ok c" "cache_len c \<le> 5 * length ts" using c by (auto simp: counts_of_def)
  have "cache_len c + length ?ops < 2 ^ 32" using ok(2) ops len by simp
  then obtain c' where c': "upd_all cache_part_mut ?ops c = Some c'" "cache_ok c'"
    "cache_len c' \<le> cache_len c + length ?ops"
    "\<And>k p. cache_find c k = Some p \<Longrightarrow> cache_find c' k = Some (part_after k ?ops p)"
    using fs.upd_all_spec[OF ok(1)] by blast
  have "cache_find c' k = Some (part_of (followers (ts @ us) g))"
    if g: "nmin \<le> length g" "length g \<le> min nmax NGRAM_MAX" "NULL \<notin> set g" "key_of g = Some k" for g k
  proof -
    have "cache_find c k = Some (part_of (followers ts g))" using c g unfolding counts_of_def by blast
    note step = c'(4)[OF this]
    have "length g \<le> nmax" "length g \<le> NGRAM_MAX" using g(2) by simp_all
    note occ = update_ops_of[OF g(1) this g(3) nn g(4)]
    show ?thesis unfolding step part_after_count[OF occ] followers_append ..
  qed
  then have "counts_of c' (ts @ us) nmin nmax"
    using c'(2,3) ok(2) ops unfolding counts_of_def by auto
  then show ?thesis using c'(1) by (simp add: cache_update_ops)
qed

section \<open>Every part of a counted cache is well formed\<close>

definition parts_ok :: "cache \<Rightarrow> bool" where
  "parts_ok c \<longleftrightarrow> (\<forall>(k, p) \<in> set (centries c). part_ok p \<and> pairs p \<noteq> [])"

definition part_lists :: "cache \<Rightarrow> nat \<Rightarrow> bool" where
  "part_lists c n \<longleftrightarrow> (\<forall>k. \<exists>fs. length fs \<le> n \<and> cache_find c k = Some (part_of fs))"

lemma part_lists_new: "part_lists cache_new n"
  using fs.none_ok by (auto simp: part_lists_def part_of_def intro!: exI[of _ "[]"])

lemma part_of_pairs: "part_of fs = Some p \<Longrightarrow> length fs < 2 ^ 31 \<Longrightarrow> pairs p \<noteq> []"
proof
  assume p: "part_of fs = Some p" "length fs < 2 ^ 31" "pairs p = []"
  have "fs \<noteq> []" using p(1) by (auto simp: part_of_def)
  then have "0 < psum p" using part_of_spec(2)[OF p(2,1)] by simp
  moreover have "psum p = 0" using part_of_spec(1)[OF p(2,1)] p(3) by (simp add: part_ok_def)
  ultimately show False by simp
qed

lemma part_lists_ok:
  assumes "cache_ok c" "part_lists c n" "n < 2 ^ 31" shows "parts_ok c"
  unfolding parts_ok_def
proof (intro ballI, clarify)
  fix k p assume kp: "(k, p) \<in> set (centries c)"
  have "distinct (map fst (centries c))" using assms(1) by (simp add: cache_ok_def)
  then have "cache_find c k = Some (Some p)" using kp cache_find_map_of[OF assms(1)] by simp
  then obtain fs where fs: "length fs \<le> n" "part_of fs = Some p"
    using assms(2) unfolding part_lists_def by (metis option.inject)
  have "length fs < 2 ^ 31" using fs(1) assms(3) by simp
  then show "part_ok p \<and> pairs p \<noteq> []" using part_of_spec(1)[OF _ fs(2)] part_of_pairs[OF fs(2)] by blast
qed

lemma map_snd_adds:
  "\<forall>o' \<in> set os. \<exists>t. snd o' = (\<lambda>p. part_add p t 1) \<Longrightarrow> \<exists>new. map snd os = map (\<lambda>t p. part_add p t 1) new"
proof (induction os)
  case (Cons o2 os)
  then obtain new t where "map snd os = map (\<lambda>t p. part_add p t 1) new" "snd o2 = (\<lambda>p. part_add p t 1)" by auto
  then show ?case by (intro exI[of _ "t # new"]) simp
qed simp

lemma update_ops_adds:
  "\<exists>new. map snd (filter P (update_ops toks nnew nmin nmax)) = map (\<lambda>t p. part_add p t 1) new"
  by (rule map_snd_adds) (auto simp: update_ops_def count_op_def)

lemma cache_update_lists:
  assumes c: "cache_ok c" "part_lists c n" and room: "cache_len c + 5 * length us < 2 ^ 32"
  shows "\<exists>c'. cache_update c (ts @ us) (length us) nmin nmax = Some c' \<and> cache_ok c' \<and>
    part_lists c' (n + 5 * length us)"
proof -
  let ?ops = "update_ops (ts @ us) (length us) nmin nmax"
  have ops: "length ?ops \<le> 5 * length us" by (rule length_update_ops)
  then have "cache_len c + length ?ops < 2 ^ 32" using room by simp
  then obtain c' where c': "upd_all cache_part_mut ?ops c = Some c'" "cache_ok c'"
    "\<And>k p. cache_find c k = Some p \<Longrightarrow> cache_find c' k = Some (part_after k ?ops p)"
    using fs.upd_all_spec[OF c(1)] by blast
  have "\<exists>fs. length fs \<le> n + 5 * length us \<and> cache_find c' k = Some (part_of fs)" for k
  proof -
    obtain old where old: "length old \<le> n" "cache_find c k = Some (part_of old)"
      using c(2) unfolding part_lists_def by blast
    obtain new where new: "map snd (filter (\<lambda>o'. fst o' = k) ?ops) = map (\<lambda>t p. part_add p t 1) new"
      using update_ops_adds by blast
    have "length new \<le> length ?ops" using new by (metis length_filter_le length_map)
    then have "length (old @ new) \<le> n + 5 * length us" using old(1) ops by simp
    then show ?thesis using c'(3)[OF old(2)] part_after_count[OF new] by metis
  qed
  then show ?thesis using c'(1,2) by (auto simp: cache_update_ops part_lists_def)
qed

section \<open>Merging\<close>

text \<open>How often a token followed a key, and how often the key occurred.\<close>

definition tally :: "cache \<Rightarrow> key \<Rightarrow> i32 \<Rightarrow> int" where
  "tally c k t = (case cache_find c k of Some (Some p) \<Rightarrow> follower_count p t | _ \<Rightarrow> 0)"

definition total :: "cache \<Rightarrow> key \<Rightarrow> int" where
  "total c k = (case cache_find c k of Some (Some p) \<Rightarrow> psum p | _ \<Rightarrow> 0)"

lemma merge_entries_ops:
  "merge_entries es c = upd_all cache_part_mut (map (\<lambda>(k, p). (k, add_pairs (pairs p))) es) c"
  by (induction es c rule: merge_entries.induct) (auto split: option.splits)

lemma add_pairs_spec:
  "part_ok p \<Longrightarrow> \<forall>x \<in> set ps. 0 < snd x \<Longrightarrow> psum p + sum_list (map snd ps) < 2 ^ 31 \<Longrightarrow> distinct (map fst ps) \<Longrightarrow>
   part_ok (add_pairs ps p) \<and> psum (add_pairs ps p) = psum p + sum_list (map snd ps) \<and>
   (\<forall>t. follower_count (add_pairs ps p) t = follower_count p t + (case map_of ps t of None \<Rightarrow> 0 | Some c \<Rightarrow> c)) \<and>
   (ps \<noteq> [] \<or> pairs p \<noteq> [] \<longrightarrow> pairs (add_pairs ps p) \<noteq> [])"
proof (induction ps arbitrary: p)
  case Nil
  then show ?case by (simp add: add_pairs_def)
next
  case (Cons x ps)
  obtain t c where x: "x = (t, c)" by (cases x)
  have nn: "0 \<le> sum_list (map snd ps)" using Cons.prems(2) by (intro sum_list_nonneg) auto
  have c: "0 < c" "psum p + c < 2 ^ 31" using Cons.prems(2,3) nn x by auto
  note r = part_add_spec[OF Cons.prems(1) c, of t]
  have ps: "\<forall>x \<in> set ps. 0 < snd x" and sm: "psum (part_add p t c) + sum_list (map snd ps) < 2 ^ 31"
    and d: "distinct (map fst ps)" using Cons.prems(2-4) r(3) x by auto
  note ih = Cons.IH[OF r(1) ps sm d]
  have step: "add_pairs (x # ps) p = add_pairs ps (part_add p t c)" by (simp add: add_pairs_def x)
  have "t \<notin> fst ` set ps" using Cons.prems(4) x by simp
  then have "map_of ps t = None" by (simp add: map_of_eq_None_iff)
  then have "follower_count (add_pairs (x # ps) p) s = follower_count p s +
      (case map_of (x # ps) s of None \<Rightarrow> 0 | Some c \<Rightarrow> c)" for s
    unfolding step using ih r(2) x by (cases "s = t") auto
  then show ?case unfolding step using ih r(3,4) x by simp
qed

lemma filter_fst_distinct:
  "distinct (map fst es) \<Longrightarrow> filter (\<lambda>x. fst x = k) es = (case map_of es k of None \<Rightarrow> [] | Some p \<Rightarrow> [(k, p)])"
proof (induction es)
  case (Cons x es)
  show ?case
  proof (cases "fst x = k")
    case True
    then have "k \<notin> fst ` set es" using Cons.prems by auto
    then have "map_of es k = None" by (simp add: map_of_eq_None_iff)
    then show ?thesis using Cons True by (cases x) auto
  next
    case False
    then show ?thesis using Cons by (cases x) auto
  qed
qed simp

lemma part_after_merge:
  assumes "distinct (map fst es)"
  shows "part_after k (map (\<lambda>(k, p). (k, add_pairs (pairs p))) es) old =
    (case map_of es k of None \<Rightarrow> old
     | Some p \<Rightarrow> Some (add_pairs (pairs p) (case old of None \<Rightarrow> part_default | Some q \<Rightarrow> q)))"
proof -
  have "filter (\<lambda>x. fst x = k) (map (\<lambda>(k, p). (k, add_pairs (pairs p))) es) =
    map (\<lambda>(k, p). (k, add_pairs (pairs p))) (filter (\<lambda>x. fst x = k) es)"
    by (simp add: filter_map o_def split_def)
  then show ?thesis unfolding part_after_def filter_fst_distinct[OF assms] by (simp split: option.splits)
qed

lemma parts_ok_find:
  assumes "cache_ok c" "parts_ok c" "cache_find c k = Some (Some p)"
  shows "part_ok p" "pairs p \<noteq> []"
proof -
  have "map_of (centries c) k = Some p" using assms(1,3) by (simp add: cache_find_map_of)
  then have "(k, p) \<in> set (centries c)" by (rule map_of_SomeD)
  then show "part_ok p" "pairs p \<noteq> []" using assms(2) by (auto simp: parts_ok_def)
qed

lemma cache_merge_adds:
  assumes a: "cache_ok a" "parts_ok a" and b: "cache_ok b" "parts_ok b"
    and room: "cache_len a + cache_len b < 2 ^ 32" and small: "\<And>k. total a k + total b k < 2 ^ 31"
  shows "\<exists>c. cache_merge a b = Some c \<and> cache_ok c \<and>
    (\<forall>k t. tally c k t = tally a k t + tally b k t) \<and> (\<forall>k. total c k = total a k + total b k)"
proof -
  let ?ops = "map (\<lambda>(k, p). (k, add_pairs (pairs p))) (centries b)"
  have db: "distinct (map fst (centries b))" using b(1) by (simp add: cache_ok_def)
  have "cache_len a + length ?ops < 2 ^ 32" using room by (simp add: cache_len_def)
  then obtain c where c: "upd_all cache_part_mut ?ops a = Some c" "cache_ok c"
    "\<And>k p. cache_find a k = Some p \<Longrightarrow> cache_find c k = Some (part_after k ?ops p)"
    using fs.upd_all_spec[OF a(1)] by blast
  have "(\<forall>t. tally c k t = tally a k t + tally b k t) \<and> total c k = total a k + total b k" for k
  proof -
    obtain old where old: "cache_find a k = Some old" using fs.find_total[OF a(1)] by blast
    note fc = c(3)[OF old, unfolded part_after_merge[OF db]]
    have fb: "cache_find b k = Some (map_of (centries b) k)" by (rule cache_find_map_of[OF b(1)])
    show ?thesis
    proof (cases "map_of (centries b) k")
      case None
      then show ?thesis using fc fb old by (simp add: tally_def total_def)
    next
      case (Some p)
      let ?q = "case old of None \<Rightarrow> part_default | Some q \<Rightarrow> q"
      have fc': "cache_find c k = Some (Some (add_pairs (pairs p) ?q))" using fc Some by simp
      have p: "part_ok p" using parts_ok_find[OF b] fb Some by simp
      have q: "part_ok ?q" using parts_ok_find(1)[OF a, of k] old part_ok_default by (simp split: option.splits)
      have tq: "psum ?q = total a k" "\<And>t. follower_count ?q t = tally a k t"
        using old by (auto simp: total_def tally_def part_default_def follower_count_def split: option.splits)
      have tp: "sum_list (map snd (pairs p)) = total b k" "\<And>t. follower_count p t = tally b k t"
        using fb Some p by (auto simp: total_def tally_def part_ok_def)
      have pos: "\<forall>x \<in> set (pairs p). 0 < snd x" and s: "token_sorted (pairs p)" using p by (auto simp: part_ok_def)
      have "psum ?q + sum_list (map snd (pairs p)) < 2 ^ 31" using small[of k] tq(1) tp(1) by simp
      note r = add_pairs_spec[OF q pos this token_sorted_distinct[OF s]]
      have "tally c k t = tally a k t + tally b k t" for t
      proof -
        have "tally c k t = follower_count ?q t + follower_count p t"
          using r fc' by (simp add: tally_def follower_count_def[of p])
        then show ?thesis by (simp add: tq tp)
      qed
      moreover have "total c k = total a k + total b k" using r tq(1) tp(1) fc' by (simp add: total_def)
      ultimately show ?thesis by blast
    qed
  qed
  then show ?thesis using c(1,2) by (auto simp: cache_merge_def merge_entries_ops)
qed

section \<open>Properties\<close>

text \<open>
  C13. \<^verbatim>\<open>Cache::update\<close> counts the context: from the empty cache, and again after every
  extension of the context, the cache holds for each n-gram of \<open>nmin\<close> to \<open>nmax\<close> tokens exactly
  the tokens that followed it, as often as they did.
\<close>

theorem cache_update_counts_context:
  assumes "counts_of c ts nmin nmax" "NULL \<notin> set (ts @ us)" "length (ts @ us) < 2 ^ 29"
    "nmin \<le> length g" "length g \<le> min nmax NGRAM_MAX" "NULL \<notin> set g"
  shows "\<exists>c' k q. cache_update c (ts @ us) (length us) nmin nmax = Some c' \<and> counts_of c' (ts @ us) nmin nmax \<and>
    key_of g = Some k \<and> cache_find c' k = Some q \<and>
    (q = None \<longleftrightarrow> followers (ts @ us) g = []) \<and>
    (\<forall>p. q = Some p \<longrightarrow> part_ok p \<and> psum p = int (length (followers (ts @ us) g)) \<and>
      (\<forall>t. follower_count p t = int (count_list (followers (ts @ us) g) t)))"
proof -
  obtain c' where c': "cache_update c (ts @ us) (length us) nmin nmax = Some c'" "counts_of c' (ts @ us) nmin nmax"
    using cache_update_counts[OF assms(1-3)] by blast
  obtain k where k: "key_of g = Some k" using assms(5) by (auto simp: key_of_def)
  let ?fs = "followers (ts @ us) g"
  have find: "cache_find c' k = Some (part_of ?fs)" using c'(2) assms(4-6) k unfolding counts_of_def by blast
  have len: "length ?fs < 2 ^ 31" using length_followers[of "ts @ us" g] assms(3) by simp
  have "part_of ?fs = None \<longleftrightarrow> ?fs = []" by (simp add: part_of_def)
  moreover have "\<forall>p. part_of ?fs = Some p \<longrightarrow> part_ok p \<and> psum p = int (length ?fs) \<and>
      (\<forall>t. follower_count p t = int (count_list ?fs t))"
    using part_of_spec[OF len] by blast
  ultimately show ?thesis
    by (intro exI[of _ c'] exI[of _ k] exI[of _ "part_of ?fs"] conjI c' k find)
qed

theorem cache_update_counts_context_witness:
  "\<exists>c' k q. cache_update cache_new ([] @ [3, 4, 5, 3, 4]) (length [3, 4, 5, 3, 4 :: i32]) 1 4 = Some c' \<and>
    counts_of c' ([] @ [3, 4, 5, 3, 4]) 1 4 \<and> key_of [3] = Some k \<and> cache_find c' k = Some q \<and>
    (q = None \<longleftrightarrow> followers ([] @ [3, 4, 5, 3, 4]) [3] = []) \<and>
    (\<forall>p. q = Some p \<longrightarrow> part_ok p \<and> psum p = int (length (followers ([] @ [3, 4, 5, 3, 4]) [3])) \<and>
      (\<forall>t. follower_count p t = int (count_list (followers ([] @ [3, 4, 5, 3, 4]) [3]) t)))"
  by (rule cache_update_counts_context[OF counts_of_new]) (simp_all add: NULL_def NGRAM_MAX_def)

text \<open>
  C21. \<^verbatim>\<open>Cache::merge\<close> adds: every key's total and every follower's count in the merged cache are
  the sums of the two caches' (while no total reaches 2^31).
\<close>

theorem cache_merge_sums:
  assumes "cache_ok a" "parts_ok a" "cache_ok b" "parts_ok b"
    "cache_len a + cache_len b < 2 ^ 32" "\<And>k. total a k + total b k < 2 ^ 31"
  shows "\<exists>c. cache_merge a b = Some c \<and> cache_ok c \<and>
    (\<forall>k t. tally c k t = tally a k t + tally b k t) \<and> (\<forall>k. total c k = total a k + total b k)"
  by (rule cache_merge_adds[OF assms])

theorem cache_merge_sums_witness:
  "\<exists>b. cache_update cache_new ([] @ [3, 4, 3]) (length [3, 4, 3 :: i32]) 1 4 = Some b \<and>
    (\<exists>c. cache_merge cache_new b = Some c \<and> cache_ok c \<and>
      (\<forall>k t. tally c k t = tally cache_new k t + tally b k t) \<and> (\<forall>k. total c k = total cache_new k + total b k))"
proof -
  have ok: "cache_ok cache_new" "cache_len cache_new = 0" using fs.none_ok by auto
  have "cache_len cache_new + 5 * length [3, 4, 3 :: i32] < 2 ^ 32" by (simp add: ok(2))
  from cache_update_lists[OF ok(1) part_lists_new this, of "[]" 1 4 0] obtain b where
    b: "cache_update cache_new ([] @ [3, 4, 3]) (length [3, 4, 3 :: i32]) 1 4 = Some b" "cache_ok b" "part_lists b 15"
    by auto
  have po: "parts_ok b" "parts_ok cache_new"
    by (rule part_lists_ok[OF b(2,3)], simp) (simp add: parts_ok_def cache_new_def)
  have tot: "total b k < 2 ^ 31" for k
  proof -
    obtain fs where "length fs \<le> 15" "cache_find b k = Some (part_of fs)" using b(3) unfolding part_lists_def by blast
    then show ?thesis using part_of_spec(2)[of fs] by (auto simp: total_def split: option.splits)
  qed
  have len: "cache_len cache_new + cache_len b < 2 ^ 32"
  proof -
    have "cache_update cache_new ([] @ [3, 4, 3]) (length [3, 4, 3 :: i32]) 1 4 =
        upd_all cache_part_mut (update_ops ([] @ [3, 4, 3]) (length [3, 4, 3 :: i32]) 1 4) cache_new"
      by (rule cache_update_ops)
    moreover have "length (update_ops ([] @ [3, 4, 3]) (length [3, 4, 3 :: i32]) 1 4) \<le> 15"
      using length_update_ops[of "[]" "[3, 4, 3]" 1 4] by simp
    ultimately show ?thesis
      using fs.upd_all_spec[OF ok(1), of "update_ops ([] @ [3, 4, 3]) (length [3, 4, 3 :: i32]) 1 4"] b(1) ok(2)
      by auto
  qed
  have "total cache_new k + total b k < 2 ^ 31" for k
    using tot[of k] fs.none_ok(3)[of k] by (simp add: total_def[of cache_new])
  from cache_merge_sums[OF ok(1) po(2) b(2) po(1) len this] b(1) show ?thesis by blast
qed

end
