(* ===== verification/Ngram_File.thy ===== *)
theory Ngram_File
  imports Ngram_Counts "HOL-Library.Product_Lexorder"
begin

text \<open>
  The cache file of \<^verbatim>\<open>host/crates/phi-pld/src/ngram_cache.rs\<close> (llama.cpp's format):
  \<^verbatim>\<open>Cache::save\<close> writes it, \<^verbatim>\<open>read_records\<close> parses it and
  \<^verbatim>\<open>Cache::load\<close> rebuilds the cache.  A file is its bytes, \<open>None\<close> a file that does
  not exist; every \<^verbatim>\<open>context\<close> and \<^verbatim>\<open>ensure!\<close> of the parser is an error of its own.
  A saved cache loads back entry for entry.
\<close>

section \<open>Writing\<close>

definition save_entry :: "key \<times> part \<Rightarrow> bytes" where
  "save_entry kp = concat (map le_bytes32 (fst kp)) @
     le_bytes32 (of_nat (length (pairs (snd kp)))) @
     concat (map (\<lambda>(t, c). le_bytes32 t @ le_bytes32 (word_of_int c)) (pairs (snd kp)))"

definition cache_save :: "cache \<Rightarrow> bytes" where
  "cache_save c = concat (map save_entry (centries c))"

section \<open>Reading\<close>

datatype load_error =
    KeyCutShort
  | CountCutShort
  | FollowerCutShort
  | NoFollowers int
  | CountedTimes int
  | NotStatic key
  | TooLarge
  | TwiceSame

text \<open>One word: \<^verbatim>\<open>read_exact\<close> of four bytes, \<open>None\<close> at the end of the file.\<close>

definition next_word :: "bytes \<Rightarrow> (i32 \<times> bytes) option" where
  "next_word bs = (if length bs < 4 then None else Some (of_le_bytes32 (take 4 bs), drop 4 bs))"

fun read_key :: "nat \<Rightarrow> bytes \<Rightarrow> load_error + key \<times> bytes" where
  "read_key 0 bs = Inr ([], bs)"
| "read_key (Suc n) bs =
     (case next_word bs of
        None \<Rightarrow> Inl KeyCutShort
      | Some (t, bs') \<Rightarrow>
          (case read_key n bs' of Inl e \<Rightarrow> Inl e | Inr (k, r) \<Rightarrow> Inr (t # k, r)))"

fun read_pairs :: "nat \<Rightarrow> bytes \<Rightarrow> load_error + pair list \<times> bytes" where
  "read_pairs 0 bs = Inr ([], bs)"
| "read_pairs (Suc n) bs =
     (case next_word bs of
        None \<Rightarrow> Inl FollowerCutShort
      | Some (t, bs1) \<Rightarrow>
          (case next_word bs1 of
             None \<Rightarrow> Inl FollowerCutShort
           | Some (c, bs2) \<Rightarrow>
               if 0 < sint c
               then (case read_pairs n bs2 of Inl e \<Rightarrow> Inl e | Inr (ps, r) \<Rightarrow> Inr ((t, sint c) # ps, r))
               else Inl (CountedTimes (sint c))))"

definition sort_pairs :: "pair list \<Rightarrow> pair list" where
  "sort_pairs ps = sort_key (\<lambda>(t, c). (sint t, c)) ps"

definition read_record :: "i32 \<Rightarrow> bytes \<Rightarrow> load_error + (key \<times> pair list) \<times> bytes" where
  "read_record t0 bs =
     (case read_key (NGRAM_MAX - 1) bs of
        Inl e \<Rightarrow> Inl e
      | Inr (k, bs1) \<Rightarrow>
          (case next_word bs1 of
             None \<Rightarrow> Inl CountCutShort
           | Some (n, bs2) \<Rightarrow>
               if 0 < sint n
               then (case read_pairs (nat (sint n)) bs2 of
                       Inl e \<Rightarrow> Inl e
                     | Inr (ps, r) \<Rightarrow> Inr ((t0 # k, sort_pairs ps), r))
               else Inl (NoFollowers (sint n))))"

lemma next_word_shorter: "next_word bs = Some (t, r) \<Longrightarrow> length r < length bs"
  by (auto simp: next_word_def split: if_splits)

lemma read_key_shorter: "read_key n bs = Inr (k, r) \<Longrightarrow> length r \<le> length bs"
  by (induction n bs arbitrary: k r rule: read_key.induct)
    (fastforce split: option.splits sum.splits dest: next_word_shorter)+

lemma read_pairs_shorter: "read_pairs n bs = Inr (ps, r) \<Longrightarrow> length r \<le> length bs"
  by (induction n bs arbitrary: ps r rule: read_pairs.induct)
    (fastforce split: option.splits sum.splits if_splits dest: next_word_shorter)+

lemma read_record_shorter: "read_record t0 bs = Inr (x, r) \<Longrightarrow> length r \<le> length bs"
  unfolding read_record_def
  by (fastforce split: option.splits sum.splits if_splits
    dest: next_word_shorter read_key_shorter read_pairs_shorter)

text \<open>The records of a file, up to the first that does not parse.\<close>

function read_records :: "bytes \<Rightarrow> load_error + (key \<times> pair list) list" where
  "read_records bs =
     (case next_word bs of
        None \<Rightarrow> Inr []
      | Some (t0, bs1) \<Rightarrow>
          (case read_record t0 bs1 of
             Inl e \<Rightarrow> Inl e
           | Inr (x, bs2) \<Rightarrow>
               (case read_records bs2 of Inl e \<Rightarrow> Inl e | Inr xs \<Rightarrow> Inr (x # xs))))"
  by pat_completeness auto
termination
  by (relation "measure length") (auto dest!: next_word_shorter read_record_shorter)

declare read_records.simps [simp del]

text \<open>
  The callback of \<^verbatim>\<open>Cache::load\<close>, record by record.  A file that fails to parse drops
  the cache built so far, so the records are parsed first here.
\<close>

fun load_entries :: "(key \<times> pair list) list \<Rightarrow> cache \<Rightarrow> cache option" where
  "load_entries [] c = Some c"
| "load_entries ((k, ps) # rs) c =
     (case cache_part_mut c k (add_pairs ps) of
        None \<Rightarrow> None
      | Some c' \<Rightarrow> load_entries rs c')"

definition cache_load :: "bytes option \<Rightarrow> (load_error + cache) option" where
  "cache_load f =
     (case f of
        None \<Rightarrow> Some (Inr cache_new)
      | Some bs \<Rightarrow>
          (case read_records bs of
             Inl e \<Rightarrow> Some (Inl e)
           | Inr rs \<Rightarrow> map_option Inr (load_entries rs cache_new)))"

section \<open>A saved cache parses\<close>

lemma next_word_le [simp]: "next_word (le_bytes32 w @ bs) = Some (w, bs)"
  by (simp add: next_word_def)

lemma next_word_Nil [simp]: "next_word [] = None"
  by (simp add: next_word_def)

lemma read_key_le: "read_key (length k) (concat (map le_bytes32 k) @ bs) = Inr (k, bs)"
  by (induction k) auto

lemma sint_count: "0 < c \<Longrightarrow> c < 2 ^ 31 \<Longrightarrow> sint (word_of_int c :: i32) = c"
  by (simp add: signed_of_int signed_take_bit_int_eq_self)

lemma read_pairs_le:
  "\<forall>x \<in> set ps. 0 < snd x \<and> snd x < 2 ^ 31 \<Longrightarrow>
   read_pairs (length ps) (concat (map (\<lambda>(t, c). le_bytes32 t @ le_bytes32 (word_of_int c)) ps) @ bs) = Inr (ps, bs)"
proof (induction ps)
  case (Cons x ps)
  obtain t c where x: "x = (t, c)" by (cases x)
  have c: "sint (word_of_int c :: i32) = c" "0 < c" using Cons.prems x by (auto intro: sint_count)
  have "\<forall>x \<in> set ps. 0 < snd x \<and> snd x < 2 ^ 31" using Cons.prems by simp
  note ih = Cons.IH[OF this]
  show ?case using c ih by (simp add: x)
qed simp

lemma sort_pairs_id: "token_sorted ps \<Longrightarrow> sort_pairs ps = ps"
proof -
  assume s: "token_sorted ps"
  have "sorted (map (\<lambda>(t, c). (sint t, c)) ps)"
    unfolding sorted_map
    by (rule sorted_wrt_mono_rel[OF _ s[unfolded token_sorted_def]]) (auto simp: less_eq_prod_def)
  then show ?thesis unfolding sort_pairs_def by (rule sort_key_id_if_sorted)
qed

definition savable :: "cache \<Rightarrow> bool" where
  "savable c \<longleftrightarrow> cache_ok c \<and> parts_ok c \<and> (\<forall>k \<in> fst ` set (centries c). length k = NGRAM_MAX)"

lemma part_counts_small:
  assumes "part_ok p" "x \<in> set (pairs p)" shows "0 < snd x \<and> snd x < 2 ^ 31"
proof -
  have "snd x \<le> psum p" "0 < snd x" "psum p < 2 ^ 31"
    using assms sum_list_pos_bound[of "pairs p" x] by (auto simp: part_ok_def)
  then show ?thesis by simp
qed

lemma part_length_small:
  assumes "part_ok p" shows "length (pairs p) < 2 ^ 31"
proof -
  have pos: "\<forall>x \<in> set (pairs p). 0 < snd x" using assms by (simp add: part_ok_def)
  have "int (length ps) \<le> sum_list (map snd ps)" if "\<forall>x \<in> set ps. 0 < snd x" for ps :: "pair list"
    using that by (induction ps) auto
  from this[OF pos] show ?thesis using assms by (simp add: part_ok_def)
qed

lemma read_record_save:
  assumes "length k = NGRAM_MAX" "part_ok p" "pairs p \<noteq> []"
  shows "\<exists>t0 r. next_word (save_entry (k, p) @ bs) = Some (t0, r) \<and>
    read_record t0 r = Inr ((k, pairs p), bs)"
proof -
  obtain t0 k' where k: "k = t0 # k'" "length k' = NGRAM_MAX - 1"
    using assms(1) by (cases k) (auto simp: NGRAM_MAX_def)
  let ?n = "of_nat (length (pairs p)) :: i32"
  let ?ps = "concat (map (\<lambda>(t, c). le_bytes32 t @ le_bytes32 (word_of_int c)) (pairs p)) @ bs"
  let ?r = "concat (map le_bytes32 k') @ le_bytes32 ?n @ ?ps"
  have nw: "next_word (save_entry (k, p) @ bs) = Some (t0, ?r)" by (simp add: save_entry_def k(1))
  have n: "sint ?n = int (length (pairs p))"
    using part_length_small[OF assms(2)] by (simp add: signed_of_nat signed_take_bit_int_eq_self)
  have rk: "read_key (NGRAM_MAX - 1) ?r = Inr (k', le_bytes32 ?n @ ?ps)"
    using read_key_le[of k'] k(2) by simp
  have rp: "read_pairs (length (pairs p)) ?ps = Inr (pairs p, bs)"
    by (rule read_pairs_le) (use part_counts_small[OF assms(2)] in blast)
  have "0 < length (pairs p)" using assms(3) by simp
  moreover have "sort_pairs (pairs p) = pairs p" using assms(2) by (simp add: part_ok_def sort_pairs_id)
  ultimately have "read_record t0 ?r = Inr ((k, pairs p), bs)"
    using rk rp n k(1) by (simp add: read_record_def)
  then show ?thesis using nw by blast
qed

lemma read_records_save:
  "\<forall>(k, p) \<in> set es. length k = NGRAM_MAX \<and> part_ok p \<and> pairs p \<noteq> [] \<Longrightarrow>
   read_records (concat (map save_entry es)) = Inr (map (\<lambda>(k, p). (k, pairs p)) es)"
proof (induction es)
  case Nil
  then show ?case by (subst read_records.simps) simp
next
  case (Cons x es)
  obtain k p where x: "x = (k, p)" by (cases x)
  have kp: "length k = NGRAM_MAX" "part_ok p" "pairs p \<noteq> []" using Cons.prems x by auto
  obtain t0 r where r: "next_word (save_entry (k, p) @ concat (map save_entry es)) = Some (t0, r)"
    "read_record t0 r = Inr ((k, pairs p), concat (map save_entry es))"
    using read_record_save[OF kp] by blast
  have ih: "read_records (concat (map save_entry es)) = Inr (map (\<lambda>(k, p). (k, pairs p)) es)"
    using Cons by simp
  show ?case unfolding x list.map concat.simps
    by (subst read_records.simps) (simp add: r ih)
qed

section \<open>And loads back the same\<close>

lemma add_pairs_rebuild:
  "part_ok p \<Longrightarrow> pairs p = qs @ ps \<Longrightarrow>
   add_pairs ps \<lparr>pairs = qs, psum = sum_list (map snd qs), pmax = Max (insert 0 (snd ` set qs))\<rparr> = p"
proof (induction ps arbitrary: qs)
  case Nil
  then show ?case by (cases p) (simp add: add_pairs_def part_ok_def)
next
  case (Cons x ps)
  obtain t c where x: "x = (t, c)" by (cases x)
  let ?q = "\<lparr>pairs = qs, psum = sum_list (map snd qs), pmax = Max (insert 0 (snd ` set qs))\<rparr>"
  have s: "token_sorted (qs @ x # ps)" using Cons.prems by (simp add: part_ok_def)
  then have sq: "token_sorted qs" "\<forall>y \<in> set qs. sint (fst y) < sint t"
    by (auto simp: token_sorted_def sorted_wrt_append x)
  have pos: "\<forall>y \<in> set (qs @ x # ps). 0 < snd y" using Cons.prems by (simp add: part_ok_def)
  have nns: "0 \<le> sum_list (map snd zs)" if "set zs \<subseteq> set (qs @ x # ps)" for zs
  proof (rule sum_list_nonneg)
    fix y assume "y \<in> set (map snd zs)"
    then have "\<exists>z \<in> set (qs @ x # ps). y = snd z" using that by auto
    then show "0 \<le> y" using pos by fastforce
  qed
  have nn: "0 \<le> sum_list (map snd qs)" "0 \<le> sum_list (map snd ps)"
    by (rule nns, auto)+
  have "sum_list (map snd qs) + c + sum_list (map snd ps) < 2 ^ 31"
    using Cons.prems by (auto simp: part_ok_def x)
  then have sum: "psum ?q + c < 2 ^ 31" using nn by simp
  have c: "0 < c" using pos x by simp
  have ok: "part_ok ?q" using sq(1) pos sum c by (simp add: part_ok_def)
  have lb: "lower_bound qs t = length qs"
  proof -
    have "takeWhile (\<lambda>p. sint (fst p) < sint t) qs = qs" using sq(2) by (simp add: takeWhile_eq_all_conv)
    then show ?thesis by (simp only: lower_bound_takeWhile[OF sq(1)])
  qed
  have new: "t \<notin> fst ` set (pairs ?q)" using sq(2) by fastforce
  have mx: "max (Max (insert 0 (snd ` set qs))) c = Max (insert 0 (snd ` set (qs @ [x])))"
  proof -
    have "insert 0 (snd ` set (qs @ [x])) = insert c (insert 0 (snd ` set qs))" by (auto simp: x)
    then show ?thesis by (simp add: max.commute)
  qed
  have "part_add ?q t c = \<lparr>pairs = qs @ [x], psum = sum_list (map snd (qs @ [x])),
      pmax = Max (insert 0 (snd ` set (qs @ [x])))\<rparr>"
    unfolding part_add_miss(1)[OF ok c sum new] using lb mx by (simp add: x)
  moreover have "add_pairs (x # ps) ?q = add_pairs ps (part_add ?q t c)" by (simp add: add_pairs_def x)
  ultimately show ?case using Cons.IH[of "qs @ [x]"] Cons.prems by simp
qed

lemma add_pairs_default: "part_ok p \<Longrightarrow> add_pairs (pairs p) part_default = p"
  using add_pairs_rebuild[of p "[]"] by (simp add: part_default_def)

lemma load_entries_append:
  "cache_ok c \<Longrightarrow> length (centries c) + length es < 2 ^ 32 \<Longrightarrow> distinct (map fst (centries c @ es)) \<Longrightarrow>
   \<forall>(k, p) \<in> set es. part_ok p \<Longrightarrow>
   \<exists>c'. load_entries (map (\<lambda>(k, p). (k, pairs p)) es) c = Some c' \<and> cache_ok c' \<and> centries c' = centries c @ es"
proof (induction es arbitrary: c)
  case (Cons x es)
  obtain k p where x: "x = (k, p)" by (cases x)
  have "length (centries c) < 2 ^ 32 - 1" using Cons.prems(2) by simp
  then obtain c1 where c1: "cache_part_mut c k (add_pairs (pairs p)) = Some c1" "cache_ok c1"
    "centries c1 = upsert k (add_pairs (pairs p)) (centries c)"
    using cache_part_mut_entries[OF Cons.prems(1)] by blast
  have "k \<notin> fst ` set (centries c)" using Cons.prems(3) x by auto
  moreover have "part_ok p" using Cons.prems(4) x by simp
  ultimately have ents: "centries c1 = centries c @ [x]"
    using c1(3) by (simp add: upsert_def add_pairs_default x)
  have l: "length (centries c1) + length es < 2 ^ 32" and d: "distinct (map fst (centries c1 @ es))"
    using Cons.prems(2,3) ents by auto
  have p: "\<forall>(k, p) \<in> set es. part_ok p" using Cons.prems(4) by simp
  show ?case using Cons.IH[OF c1(2) l d p] c1(1) ents x by simp
qed simp

lemma cache_load_save:
  assumes "savable c" "cache_len c < 2 ^ 32"
  shows "\<exists>c'. cache_load (Some (cache_save c)) = Some (Inr c') \<and> cache_ok c' \<and> centries c' = centries c"
proof -
  have parts: "\<forall>(k, p) \<in> set (centries c). part_ok p" using assms(1) by (auto simp: savable_def parts_ok_def)
  have "\<forall>(k, p) \<in> set (centries c). length k = NGRAM_MAX \<and> part_ok p \<and> pairs p \<noteq> []"
    using assms(1) by (force simp: savable_def parts_ok_def)
  note rr = read_records_save[OF this]
  have "distinct (map fst (centries cache_new @ centries c))" "cache_ok cache_new"
    "length (centries cache_new) + length (centries c) < 2 ^ 32"
    using assms fs.none_ok(1) by (auto simp: savable_def cache_ok_def cache_new_def cache_len_def)
  note le = load_entries_append[OF this(2,3,1) parts]
  have none: "centries cache_new = []" by (simp add: cache_new_def)
  show ?thesis using le unfolding cache_load_def cache_save_def none
    by (auto simp: rr)
qed

section \<open>Properties\<close>

text \<open>
  C12. A saved cache loads back: \<^verbatim>\<open>Cache::load\<close> of what \<^verbatim>\<open>Cache::save\<close> wrote succeeds and gives a
  cache with the same entries in the same order, and a well-formed table over them.
\<close>

theorem cache_save_load:
  assumes "savable c" "cache_len c < 2 ^ 32"
  shows "\<exists>c'. cache_load (Some (cache_save c)) = Some (Inr c') \<and> cache_ok c' \<and> centries c' = centries c \<and>
    (\<forall>k. cache_find c' k = cache_find c k)"
proof -
  obtain c' where c': "cache_load (Some (cache_save c)) = Some (Inr c')" "cache_ok c'" "centries c' = centries c"
    using cache_load_save[OF assms] by blast
  moreover have "cache_find c' k = cache_find c k" for k
    using c' assms(1) by (simp add: cache_find_map_of savable_def)
  ultimately show ?thesis by blast
qed

theorem cache_save_load_witness:
  "\<exists>c c'. cache_part_mut cache_new [1, 2, - 1, - 1] (\<lambda>p. part_add p 9 1) = Some c \<and>
    cache_load (Some (cache_save c)) = Some (Inr c') \<and> cache_ok c' \<and> centries c' = centries c \<and>
    (\<forall>k. cache_find c' k = cache_find c k)"
proof -
  have "cache_ok cache_new" "length (centries cache_new) < 2 ^ 32 - 1"
    using fs.none_ok by (simp_all add: cache_new_def)
  from cache_part_mut_entries[OF this] obtain c where c: "cache_part_mut cache_new [1, 2, - 1, - 1] (\<lambda>p. part_add p 9 1) = Some c"
    "cache_ok c" "centries c = upsert [1, 2, - 1, - 1] (\<lambda>p. part_add p 9 1) []"
    by (auto simp: cache_new_def)
  have p: "psum part_default + 1 < 2 ^ 31" by (simp add: part_default_def)
  note r = part_add_spec[OF part_ok_default zero_less_one p, of 9]
  have e: "centries c = [([1, 2, - 1, - 1], part_add part_default 9 1)]" using c(3) by (simp add: upsert_def)
  have "savable c" using c(2) r(1,4) by (simp add: savable_def parts_ok_def e NGRAM_MAX_def)
  moreover have "cache_len c < 2 ^ 32" by (simp add: cache_len_def e)
  ultimately show ?thesis using cache_save_load[of c] c(1) by blast
qed

end
