(* ===== verification/Ngram_Static.thy ===== *)
theory Ngram_Static
  imports Ngram_File
begin

text \<open>
  The static cache, \<^verbatim>\<open>Static\<close> of \<^verbatim>\<open>host/crates/phi-pld/src/ngram_cache.rs\<close>: the 2-grams
  of a corpus read from a cache file, every follower in one array, and a table of entry
  numbers over the 2-grams.  A load succeeds only on a file of distinct 2-grams, and then
  \<open>static_find\<close> returns every record of the file with its followers, total and best
  follower, and nothing else.
\<close>

record meta =
  mkey :: u64
  mat :: u64
  msum :: int
  mtop :: i32
  mtop_count :: int

record statics =
  sslots :: "nat list"
  sgrams :: "meta list"
  spairs :: "pair list"

definition static_default :: statics where
  "static_default = \<lparr>sslots = [], sgrams = [], spairs = []\<rparr>"

definition static_len :: "statics \<Rightarrow> nat" where
  "static_len st = length (sgrams st)"

definition static_is_empty :: "statics \<Rightarrow> bool" where
  "static_is_empty st \<longleftrightarrow> sgrams st = []"

definition key2 :: "i32 \<Rightarrow> i32 \<Rightarrow> u64" where
  "key2 a b = push_bit 32 (ucast a) OR ucast b"

definition hash2 :: "u64 \<Rightarrow> u64" where
  "hash2 k = (let h = k * 0x9e3779b97f4a7c15 in h XOR drop_bit 29 h)"

text \<open>The scan of a record's followers: their best (the first of the largest) and their total.\<close>

definition best_step :: "pair \<Rightarrow> i32 \<times> int \<times> int \<Rightarrow> i32 \<times> int \<times> int" where
  "best_step tc acc = (case (tc, acc) of ((t, c), (tp, top_count, sm)) \<Rightarrow>
     if top_count < c then (t, c, wrap64 (sm + c)) else (tp, top_count, wrap64 (sm + c)))"

definition scan_best :: "pair list \<Rightarrow> i32 \<times> int \<times> int" where
  "scan_best ps = fold best_step ps (NULL, 0, 0)"

definition meta_of :: "nat \<Rightarrow> key \<Rightarrow> pair list \<Rightarrow> meta" where
  "meta_of at k ps = (case scan_best ps of (tp, top_count, sm) \<Rightarrow>
     \<lparr>mkey = key2 (k ! 0) (k ! 1), mat = push_bit 24 (of_nat at) OR of_nat (length ps),
      msum = sm, mtop = tp, mtop_count = top_count\<rparr>)"

definition static_record :: "key \<Rightarrow> pair list \<Rightarrow> bool" where
  "static_record k ps \<longleftrightarrow> \<not> ((\<exists>t \<in> set (drop NGRAM_STATIC k). t \<noteq> NULL) \<or> 2 ^ 24 \<le> length ps)"

text \<open>The callback of \<^verbatim>\<open>Static::load\<close> over the records: the first bad key, if any.\<close>

fun static_collect :: "(key \<times> pair list) list \<Rightarrow> key option \<Rightarrow> meta list \<Rightarrow> pair list \<Rightarrow> key option \<times> meta list \<times> pair list" where
  "static_collect [] bad grams ps = (bad, grams, ps)"
| "static_collect ((k, fs) # rs) bad grams ps =
     (if \<not> static_record k fs
      then static_collect rs (case bad of None \<Rightarrow> Some k | Some b \<Rightarrow> Some b) grams ps
      else static_collect rs bad (grams @ [meta_of (length ps) k fs]) (ps @ fs))"

text \<open>\<^verbatim>\<open>usize::next_power_of_two\<close>.\<close>

fun next_pow2 :: "nat \<Rightarrow> nat" where
  "next_pow2 n = (if n \<le> 1 then 1 else 2 * next_pow2 ((n + 1) div 2))"

declare next_pow2.simps [simp del]

fun static_place :: "meta list \<Rightarrow> nat list \<Rightarrow> nat list \<Rightarrow> (load_error + nat list) option" where
  "static_place grams [] slots = Some (Inr slots)"
| "static_place grams (g # gs) slots =
     (let m = grams ! g in
      case probe (\<lambda>x. x = 0 \<or> mkey (grams ! (x - 1)) = mkey m) slots
             (unat (hash2 (mkey m)) AND (length slots - 1)) of
        None \<Rightarrow> None
      | Some i \<Rightarrow>
          if slots ! i \<noteq> 0 then Some (Inl TwiceSame)
          else static_place grams gs (slots[i := entry_no g]))"

definition static_load :: "bytes \<Rightarrow> (load_error + statics) option" where
  "static_load bs =
     (case read_records bs of
        Inl e \<Rightarrow> Some (Inl e)
      | Inr rs \<Rightarrow>
          (case static_collect rs None [] [] of (bad, grams, ps) \<Rightarrow>
             (case bad of
                Some k \<Rightarrow> Some (Inl (NotStatic k))
              | None \<Rightarrow>
                  if \<not> (length ps < 2 ^ 40 \<and> length grams < 2 ^ 32 - 1) then Some (Inl TooLarge)
                  else let size = max (next_pow2 (length grams * 2)) 1024 in
                    (case static_place grams [0 ..< length grams] (replicate size 0) of
                       None \<Rightarrow> None
                     | Some (Inl e) \<Rightarrow> Some (Inl e)
                     | Some (Inr slots) \<Rightarrow> Some (Inr \<lparr>sslots = slots, sgrams = grams, spairs = ps\<rparr>)))))"

definition static_find :: "statics \<Rightarrow> i32 \<Rightarrow> i32 \<Rightarrow> meta option option" where
  "static_find st a b =
     (if sslots st = [] then Some None
      else let k = key2 a b; mask = length (sslots st) - 1 in
        case probe (\<lambda>g. g = 0 \<or> mkey (sgrams st ! (g - 1)) = k) (sslots st) (unat (hash2 k) AND mask) of
          None \<Rightarrow> None
        | Some i \<Rightarrow>
            (let g = sslots st ! i in Some (if g = 0 then None else Some (sgrams st ! (g - 1)))))"

definition static_followers :: "statics \<Rightarrow> meta \<Rightarrow> pair list" where
  "static_followers st m =
     (let at = unat (drop_bit 24 (mat m)) in
      take (unat (mat m AND 0xffffff)) (drop at (spairs st)))"

definition META_SIZE :: nat where "META_SIZE = 32"

definition static_bytes :: "statics \<Rightarrow> nat" where
  "static_bytes st = length (sslots st) * 4 + length (sgrams st) * META_SIZE + length (spairs st) * 8"

section \<open>Packing\<close>

lemma next_pow2_pow2: "pow2 (next_pow2 n)"
proof (induction n rule: next_pow2.induct)
  case (1 n)
  show ?case
  proof (cases "n \<le> 1")
    case True
    then show ?thesis by (subst next_pow2.simps) (simp add: pow2_def exI[of _ 0])
  next
    case False
    then have "next_pow2 n = next_pow2 ((n + 1) div 2) * 2" by (subst next_pow2.simps) simp
    then show ?thesis using pow2_double[OF 1[OF False]] by simp
  qed
qed

lemma next_pow2_ge: "n \<le> next_pow2 n"
proof (induction n rule: next_pow2.induct)
  case (1 n)
  show ?case
  proof (cases "n \<le> 1")
    case True
    then show ?thesis by (subst next_pow2.simps) simp
  next
    case False
    then have "next_pow2 n = 2 * next_pow2 ((n + 1) div 2)" by (subst next_pow2.simps) simp
    then show ?thesis using 1[OF False] by linarith
  qed
qed

lemma key2_inject: "key2 a b = key2 c d \<longleftrightarrow> a = c \<and> b = d"
proof
  assume eq: "key2 a b = key2 c d"
  have hi: "drop_bit 32 (key2 x y) = ucast x" for x y
    by (rule bit_word_eqI) (auto simp: key2_def bit_simps dest: bit_imp_le_length)
  have lo: "take_bit 32 (key2 x y) = ucast y" for x y
    by (rule bit_word_eqI) (auto simp: key2_def bit_simps dest: bit_imp_le_length)
  have "(ucast a :: u64) = ucast c" "(ucast b :: u64) = ucast d" using eq hi lo by metis+
  moreover have "(ucast (ucast x :: u64) :: i32) = x" for x
    by (rule bit_word_eqI) (simp add: bit_simps)
  ultimately show "a = c \<and> b = d" by metis
qed simp

lemma pack_at:
  fixes at len :: nat
  assumes "at < 2 ^ 40" "len < 2 ^ 24"
  defines "w \<equiv> push_bit 24 (of_nat at) OR of_nat len :: u64"
  shows "unat (drop_bit 24 w) = at" "unat (w AND 0xffffff) = len"
proof -
  have l: "(of_nat len :: u64) = take_bit 24 (of_nat len)" "take_bit 40 (of_nat at :: u64) = of_nat at"
    using assms by (simp_all add: take_bit_of_nat take_bit_nat_eq_self)
  have d: "drop_bit 24 w = take_bit 40 (of_nat at)"
    unfolding w_def by (subst l(1), rule bit_word_eqI) (auto simp: bit_simps)
  show "unat (drop_bit 24 w) = at" unfolding d l(2) using assms(1) by (simp add: unat_of_nat)
  have m: "(0xffffff :: u64) = mask 24" by (simp add: mask_eq_exp_minus_1)
  have a: "w AND 0xffffff = take_bit 24 (of_nat len)"
    unfolding w_def m by (rule bit_word_eqI) (auto simp: bit_simps)
  show "unat (w AND 0xffffff) = len" unfolding a l(1)[symmetric] using assms(2) by (simp add: unat_of_nat)
qed

section \<open>Loading\<close>

fun metas :: "nat \<Rightarrow> (key \<times> pair list) list \<Rightarrow> meta list" where
  "metas at [] = []"
| "metas at ((k, ps) # rs) = meta_of at k ps # metas (at + length ps) rs"

lemma static_collect_bad: "fst (static_collect rs (Some b) gs ps) = Some b"
  by (induction rs "Some b" gs ps rule: static_collect.induct) auto

lemma static_collect_ok:
  "static_collect rs None gs ps = (None, grams, fs) \<Longrightarrow>
   (\<forall>(k, ps) \<in> set rs. static_record k ps) \<and> grams = gs @ metas (length ps) rs \<and>
   fs = ps @ concat (map snd rs)"
proof (induction rs "None :: key option" gs ps rule: static_collect.induct)
  case (2 k gs0 rs gs ps)
  show ?case
  proof (cases "static_record k gs0")
    case True
    then show ?thesis using 2 by simp
  next
    case False
    then have "static_collect rs (Some k) gs ps = (None, grams, fs)" using 2(3) by simp
    then show ?thesis using static_collect_bad[of rs k gs ps] by simp
  qed
qed simp

lemma length_metas [simp]: "length (metas at rs) = length rs"
  by (induction at rs rule: metas.induct) auto

lemma metas_nth:
  "i < length rs \<Longrightarrow> metas at rs ! i =
     meta_of (at + length (concat (map snd (take i rs)))) (fst (rs ! i)) (snd (rs ! i))"
proof (induction at rs arbitrary: i rule: metas.induct)
  case (2 at k ps rs)
  then show ?case by (cases i) (auto simp: add.assoc)
qed simp

lemma mkey_meta_of [simp]: "mkey (meta_of at k ps) = key2 (k ! 0) (k ! 1)"
  by (simp add: meta_of_def split: prod.splits)

definition home2 :: "u64 \<Rightarrow> nat" where
  "home2 k = unat (hash2 k)"

interpretation st: entry_table home2 .

lemma stop_mkey:
  "e \<le> length ks \<Longrightarrow> ks = take n (map mkey grams) \<Longrightarrow> (e = 0 \<or> mkey (grams ! (e - 1)) = k) = (e = 0 \<or> ks ! (e - 1) = k)"
  by (cases "e = 0") auto

text \<open>The placing loop ends: at the first repeated key, or with every entry in the table.\<close>

lemma static_place_ok:
  assumes "index_ok home2 (take g (map mkey grams)) slots" "g \<le> length grams"
    "2 * length grams \<le> length slots" "2 \<le> length slots" "length grams < 2 ^ 32 - 1"
    "distinct (take g (map mkey grams))"
  shows "\<exists>r. static_place grams [g ..< length grams] slots = Some r \<and>
    (case r of Inl e \<Rightarrow> e = TwiceSame \<and> \<not> distinct (map mkey grams)
     | Inr ss \<Rightarrow> distinct (map mkey grams) \<and> length ss = length slots \<and> index_ok home2 (map mkey grams) ss)"
  using assms
proof (induction "length grams - g" arbitrary: g slots)
  case 0
  then show ?case by simp
next
  case (Suc d)
  let ?ks = "take g (map mkey grams)" and ?k = "mkey (grams ! g)"
  have g: "g < length grams" using Suc.hyps(2) by simp
  then have upt: "[g ..< length grams] = g # [Suc g ..< length grams]" by (rule upt_conv_Cons)
  have next_ks: "take (Suc g) (map mkey grams) = ?ks @ [?k]"
    using g by (simp add: take_Suc_conv_app_nth)
  have stop: "e \<le> length ?ks \<Longrightarrow> (e = 0 \<or> mkey (grams ! (e - 1)) = ?k) = (e = 0 \<or> ?ks ! (e - 1) = ?k)" for e
    by (rule stop_mkey[OF _ refl])
  obtain i where i: "probe (\<lambda>x. x = 0 \<or> mkey (grams ! (x - 1)) = ?k) slots (home2 ?k AND (length slots - 1)) = Some i"
    "i < length slots" "path (map (entry_key ?ks) slots) (home2 ?k) i"
    "slots ! i = 0 \<and> ?k \<notin> set ?ks \<or> slots ! i \<noteq> 0 \<and> slots ! i \<le> length ?ks \<and> ?ks ! (slots ! i - 1) = ?k"
    using st.index_walk[OF Suc.prems(1) stop] by blast
  note step = static_place.simps(2)[of grams g, unfolded Let_def home2_def[symmetric], of "[Suc g ..< length grams]" slots]
  show ?case
  proof (cases "slots ! i = 0")
    case False
    let ?j = "slots ! i - 1"
    have j: "?j < g" "mkey (grams ! ?j) = ?k" using i(4) False g by auto
    then have "map mkey grams ! ?j = map mkey grams ! g" using g by simp
    then have "\<not> distinct (map mkey grams)" using j(1) g
      by (metis length_map less_trans nat_neq_iff nth_eq_iff_index_eq)
    then show ?thesis unfolding upt step i(1) using False by simp
  next
    case True
    have new: "?k \<notin> set ?ks" using i(4) True by simp
    have "Suc (length ?ks) < length slots" using g Suc.prems(3) by simp
    note ins = st.index_insert[OF Suc.prems(1) i(2) True i(3) new this]
    have len: "length ?ks = g" using g by simp
    have en: "entry_no g = Suc g" using entry_no_small[of g] g Suc.prems(5) by simp
    have "d = length grams - Suc g" using Suc.hyps(2) by simp
    note ih = Suc.hyps(1)[OF this]
    have "\<exists>r. static_place grams [Suc g ..< length grams] (slots[i := Suc g]) = Some r \<and>
      (case r of Inl e \<Rightarrow> e = TwiceSame \<and> \<not> distinct (map mkey grams)
       | Inr ss \<Rightarrow> distinct (map mkey grams) \<and> length ss = length (slots[i := Suc g]) \<and> index_ok home2 (map mkey grams) ss)"
    proof (rule ih)
      show "index_ok home2 (take (Suc g) (map mkey grams)) (slots[i := Suc g])"
        using ins unfolding next_ks len .
      show "distinct (take (Suc g) (map mkey grams))" using Suc.prems(6) new unfolding next_ks by simp
    qed (use g Suc.prems in simp_all)
    then show ?thesis unfolding length_list_update upt step i(1) using True by (simp add: en)
  qed
qed

lemma static_find_spec:
  assumes ix: "index_ok home2 (map mkey (sgrams st)) (sslots st)" and d: "distinct (map mkey (sgrams st))"
    and ne: "sslots st \<noteq> []"
  shows "i < length (sgrams st) \<Longrightarrow> mkey (sgrams st ! i) = key2 a b \<Longrightarrow> static_find st a b = Some (Some (sgrams st ! i))"
    "key2 a b \<notin> mkey ` set (sgrams st) \<Longrightarrow> static_find st a b = Some None"
proof -
  let ?ks = "map mkey (sgrams st)" and ?k = "key2 a b"
  have st: "e \<le> length ?ks \<Longrightarrow> (e = 0 \<or> mkey (sgrams st ! (e - 1)) = ?k) = (e = 0 \<or> ?ks ! (e - 1) = ?k)" for e
    by (cases "e = 0") auto
  obtain j where j: "probe (\<lambda>g. g = 0 \<or> mkey (sgrams st ! (g - 1)) = ?k) (sslots st) (home2 ?k AND (length (sslots st) - 1)) = Some j"
    "sslots st ! j = 0 \<and> ?k \<notin> set ?ks \<or>
     sslots st ! j \<noteq> 0 \<and> sslots st ! j \<le> length ?ks \<and> ?ks ! (sslots st ! j - 1) = ?k"
    using st.index_walk[OF ix st] by blast
  have find: "static_find st a b = Some (if sslots st ! j = 0 then None else Some (sgrams st ! (sslots st ! j - 1)))"
    using j(1) ne by (simp add: static_find_def Let_def home2_def)
  {
    assume i: "i < length (sgrams st)" "mkey (sgrams st ! i) = ?k"
    then have "?k \<in> set ?ks" by (metis image_eqI list.set_map nth_mem)
    then have nz: "sslots st ! j \<noteq> 0" "sslots st ! j - 1 < length ?ks" "?ks ! (sslots st ! j - 1) = ?k"
      using j(2) by auto
    then have "sslots st ! j - 1 = i"
      using nth_eq_iff_index_eq[OF d nz(2), of i] i by simp
    then show "static_find st a b = Some (Some (sgrams st ! i))" using find nz(1) by simp
  }
  assume "?k \<notin> mkey ` set (sgrams st)"
  then have no: "?k \<notin> set ?ks" by simp
  have "sslots st ! j = 0"
  proof (rule ccontr)
    assume "sslots st ! j \<noteq> 0"
    then have "sslots st ! j - 1 < length ?ks" "?ks ! (sslots st ! j - 1) = ?k" using j(2) by auto
    then show False using no by (metis nth_mem)
  qed
  then show "static_find st a b = Some None" using find by simp
qed

lemma static_table:
  assumes "length grams < 2 ^ 32 - 1"
  shows "\<exists>r. static_place grams [0 ..< length grams] (replicate (max (next_pow2 (length grams * 2)) 1024) 0) = Some r \<and>
    (case r of Inl e \<Rightarrow> e = TwiceSame \<and> \<not> distinct (map mkey grams)
     | Inr ss \<Rightarrow> distinct (map mkey grams) \<and> length ss = max (next_pow2 (length grams * 2)) 1024 \<and>
         index_ok home2 (map mkey grams) ss)"
proof -
  let ?size = "max (next_pow2 (length grams * 2)) 1024"
  have p2: "pow2 ?size" using next_pow2_pow2 pow2_1024 by (simp add: max_def)
  have sz: "length grams * 2 \<le> ?size" using next_pow2_ge[of "length grams * 2"] by linarith
  have "\<exists>r. static_place grams [0 ..< length grams] (replicate ?size 0) = Some r \<and>
    (case r of Inl e \<Rightarrow> e = TwiceSame \<and> \<not> distinct (map mkey grams)
     | Inr ss \<Rightarrow> distinct (map mkey grams) \<and> length ss = length (replicate ?size (0 :: nat)) \<and>
         index_ok home2 (map mkey grams) ss)"
  proof (rule static_place_ok)
    show "index_ok home2 (take 0 (map mkey grams)) (replicate ?size 0)" using st.index_fresh[OF p2] by simp
    show "2 * length grams \<le> length (replicate ?size (0 :: nat))" using sz by simp
    show "2 \<le> length (replicate ?size (0 :: nat))" by (simp add: le_max_iff_disj)
  qed (use assms in auto)
  then show ?thesis unfolding length_replicate .
qed

lemma static_table_distinct:
  assumes "length grams < 2 ^ 32 - 1" "distinct (map mkey grams)"
  shows "\<exists>ss. static_place grams [0 ..< length grams] (replicate (max (next_pow2 (length grams * 2)) 1024) 0) = Some (Inr ss)"
proof -
  obtain r where r: "static_place grams [0 ..< length grams] (replicate (max (next_pow2 (length grams * 2)) 1024) 0) = Some r"
    "case r of Inl e \<Rightarrow> e = TwiceSame \<and> \<not> distinct (map mkey grams)
     | Inr ss \<Rightarrow> distinct (map mkey grams) \<and> length ss = max (next_pow2 (length grams * 2)) 1024 \<and>
         index_ok home2 (map mkey grams) ss"
    using static_table[OF assms(1)] by blast
  show ?thesis using r assms(2) by (cases r) simp_all
qed

lemma static_load_total: "\<exists>r. static_load bs = Some r"
proof (cases "read_records bs")
  case (Inl e)
  then show ?thesis by (simp add: static_load_def)
next
  case (Inr rs)
  obtain bad grams ps where c: "static_collect rs None [] [] = (bad, grams, ps)" by (metis prod_cases3)
  show ?thesis
  proof (cases "bad = None \<and> length ps < 2 ^ 40 \<and> length grams < 2 ^ 32 - 1")
    case False
    then show ?thesis using Inr c by (auto simp: static_load_def split: option.splits)
  next
    case True
    then have "\<exists>r. static_place grams [0 ..< length grams] (replicate (max (next_pow2 (length grams * 2)) 1024) 0) = Some r"
      using static_table[of grams] by blast
    then obtain r where "static_place grams [0 ..< length grams]
      (replicate (max (next_pow2 (length grams * 2)) 1024) 0) = Some r" by blast
    then show ?thesis using True Inr c by (cases r) (simp_all add: static_load_def Let_def)
  qed
qed

lemma static_load_ok:
  assumes "static_load bs = Some (Inr st)"
  obtains rs where "read_records bs = Inr rs" "\<forall>(k, ps) \<in> set rs. static_record k ps"
    "sgrams st = metas 0 rs" "spairs st = concat (map snd rs)" "length (spairs st) < 2 ^ 40"
    "distinct (map mkey (sgrams st))" "index_ok home2 (map mkey (sgrams st)) (sslots st)" "sslots st \<noteq> []"
proof -
  obtain rs where rs: "read_records bs = Inr rs"
    using assms by (cases "read_records bs") (auto simp: static_load_def)
  obtain bad grams ps where c: "static_collect rs None [] [] = (bad, grams, ps)" by (metis prod_cases3)
  let ?size = "max (next_pow2 (length grams * 2)) 1024"
  have bad: "bad = None" and small: "length ps < 2 ^ 40" "length grams < 2 ^ 32 - 1"
    using assms rs c by (auto simp: static_load_def split: option.splits if_splits)
  obtain slots where slots: "static_place grams [0 ..< length grams] (replicate ?size 0) = Some (Inr slots)"
    "st = \<lparr>sslots = slots, sgrams = grams, spairs = ps\<rparr>"
    using assms rs c bad small
    by (auto simp: static_load_def Let_def split: option.splits sum.splits)
  have ix: "distinct (map mkey grams)" "length slots = ?size" "index_ok home2 (map mkey grams) slots"
    using slots(1) static_table[OF small(2)] by auto
  have "slots \<noteq> []" using ix(2) by auto
  then show thesis
    using that[OF rs] static_collect_ok[OF c[unfolded bad]] slots(2) ix(1,3) small(1) by auto
qed

lemma take_drop_concat:
  "i < length xss \<Longrightarrow> take (length (xss ! i)) (drop (length (concat (take i xss))) (concat xss)) = xss ! i"
proof (induction xss arbitrary: i)
  case (Cons xs xss)
  then show ?case by (cases i) auto
qed simp

lemma static_load_finds:
  assumes l: "static_load bs = Some (Inr st)" and r: "read_records bs = Inr rs" and m: "(k, ps) \<in> set rs"
  shows "\<exists>m. static_find st (k ! 0) (k ! 1) = Some (Some m) \<and> static_followers st m = ps \<and>
    (mtop m, mtop_count m, msum m) = scan_best ps \<and> (\<forall>t \<in> set (drop NGRAM_STATIC k). t = NULL)"
proof -
  obtain ok: "\<forall>(k, ps) \<in> set rs. static_record k ps" and st: "sgrams st = metas 0 rs"
      "spairs st = concat (map snd rs)" "length (spairs st) < 2 ^ 40"
    and ix: "distinct (map mkey (sgrams st))" "index_ok home2 (map mkey (sgrams st)) (sslots st)" "sslots st \<noteq> []"
    using static_load_ok[OF l] r by (metis sum.inject(2))
  obtain i where i: "i < length rs" "rs ! i = (k, ps)" using m by (auto simp: in_set_conv_nth)
  let ?at = "length (concat (map snd (take i rs)))"
  have g: "sgrams st ! i = meta_of ?at k ps" using metas_nth[OF i(1), of 0] i(2) st(1) by simp
  have len: "i < length (sgrams st)" using i(1) st(1) by simp
  have find: "static_find st (k ! 0) (k ! 1) = Some (Some (sgrams st ! i))"
    by (rule static_find_spec(1)[OF ix(2,1,3) len]) (simp add: g)
  have rec: "static_record k ps" using ok m by auto
  then have small: "length ps < 2 ^ 24" by (auto simp: static_record_def)
  have "concat (map snd rs) = concat (map snd (take i rs)) @ concat (map snd (drop i rs))"
    by (metis append_take_drop_id concat_append map_append)
  then have at: "?at < 2 ^ 40" using st(2,3) by simp
  have seg: "take (length ps) (drop ?at (spairs st)) = ps"
    using take_drop_concat[of i "map snd rs"] i st(2) by (simp add: take_map)
  obtain tp tc sm where sb: "scan_best ps = (tp, tc, sm)" by (metis prod_cases3)
  have mat: "mat (sgrams st ! i) = push_bit 24 (of_nat ?at) OR of_nat (length ps)"
    unfolding g by (simp add: meta_of_def sb)
  have "static_followers st (sgrams st ! i) = ps"
    unfolding static_followers_def Let_def mat pack_at[OF at small] by (rule seg)
  moreover have "(mtop (sgrams st ! i), mtop_count (sgrams st ! i), msum (sgrams st ! i)) = scan_best ps"
    unfolding g by (simp add: meta_of_def sb)
  moreover have "\<forall>t \<in> set (drop NGRAM_STATIC k). t = NULL" using rec by (auto simp: static_record_def)
  ultimately show ?thesis using find by blast
qed

lemma static_load_finds_only:
  assumes l: "static_load bs = Some (Inr st)" and r: "read_records bs = Inr rs"
    and m: "\<forall>(k, ps) \<in> set rs. (k ! 0, k ! 1) \<noteq> (a, b)"
  shows "static_find st a b = Some None"
proof -
  obtain st: "sgrams st = metas 0 rs" and ix: "distinct (map mkey (sgrams st))"
      "index_ok home2 (map mkey (sgrams st)) (sslots st)" "sslots st \<noteq> []"
    using static_load_ok[OF l] r by (metis sum.inject(2))
  show ?thesis
  proof (rule static_find_spec(2)[OF ix(2,1,3)])
    show "key2 a b \<notin> mkey ` set (sgrams st)"
    proof
      assume "key2 a b \<in> mkey ` set (sgrams st)"
      then obtain i where i: "i < length rs" "key2 a b = mkey (metas 0 rs ! i)"
        unfolding st by (auto simp: in_set_conv_nth)
      then have "(fst (rs ! i) ! 0, fst (rs ! i) ! 1) = (a, b)"
        using metas_nth[OF i(1), of 0] by (simp add: key2_inject)
      moreover have "rs ! i \<in> set rs" using i(1) by simp
      ultimately show False using m by (metis (mono_tags, lifting) case_prodD prod.collapse)
    qed
  qed
qed

lemma static_load_record:
  "static_load bs = Some (Inr st) \<Longrightarrow> read_records bs = Inr rs \<Longrightarrow> (k, ps) \<in> set rs \<Longrightarrow> static_record k ps"
  by (erule static_load_ok) auto

section \<open>The best follower\<close>

text \<open>The first follower of the largest count: the ones before it count less, none after counts more.\<close>

definition first_largest :: "pair list \<Rightarrow> i32 \<Rightarrow> int \<Rightarrow> bool" where
  "first_largest ps t c \<longleftrightarrow>
     (\<exists>xs ys. ps = xs @ (t, c) # ys \<and> (\<forall>x \<in> set xs. snd x < c) \<and> (\<forall>y \<in> set ys. snd y \<le> c))"

lemma first_largest_append:
  "first_largest ps t c \<Longrightarrow> c' \<le> c \<Longrightarrow> first_largest (ps @ [(t', c')]) t c"
  unfolding first_largest_def by fastforce

lemma first_largest_new:
  assumes "first_largest ps t c" "c < c'"
  shows "first_largest (ps @ [(t', c')]) t' c'"
proof -
  have "\<forall>x \<in> set ps. snd x < c'" using assms by (fastforce simp: first_largest_def)
  then show ?thesis unfolding first_largest_def by (intro exI[of _ ps] exI[of _ "[]"]) simp
qed

lemma first_largest_single: "first_largest [(t, c)] t c"
  unfolding first_largest_def by (intro exI[of _ "[]"]) simp

lemma scan_best_spec:
  "\<forall>x \<in> set ps. 0 < snd x \<Longrightarrow> sum_list (map snd ps) < 2 ^ 63 \<Longrightarrow>
   \<exists>t c. scan_best ps = (t, c, sum_list (map snd ps)) \<and> (if ps = [] then c = 0 else first_largest ps t c)"
proof (induction ps rule: rev_induct)
  case (snoc x ps)
  obtain t' c' where x: "x = (t', c')" by (cases x)
  have c': "0 < c'" using snoc.prems(1) x by simp
  have nn: "0 \<le> sum_list (map snd ps)"
    by (rule sum_list_nonneg) (use snoc.prems(1) in fastforce)
  obtain t c where ih: "scan_best ps = (t, c, sum_list (map snd ps))" "if ps = [] then c = 0 else first_largest ps t c"
    using snoc c' x by auto
  have w: "wrap64 (sum_list (map snd ps) + c') = sum_list (map snd ps) + c'"
    using snoc.prems(2) x c' nn by (intro wrap64_id) auto
  have step: "scan_best (ps @ [x]) = (if c < c' then (t', c', sum_list (map snd (ps @ [x]))) else (t, c, sum_list (map snd (ps @ [x]))))"
    using ih(1) w x by (simp add: scan_best_def best_step_def)
  show ?case using step ih(2) c' first_largest_append[of ps t c c' t'] first_largest_new[of ps t c c' t']
      first_largest_single[of t' c'] x
    by (cases "ps = []"; cases "c < c'") auto
qed (simp add: scan_best_def)

text \<open>What the parser lets through: at least one follower, counts that are positive words.\<close>

lemma read_pairs_counts:
  "read_pairs n bs = Inr (ps, r) \<Longrightarrow> length ps = n \<and> (\<forall>x \<in> set ps. 0 < snd x \<and> snd x < 2 ^ 31)"
proof (induction n bs arbitrary: ps r rule: read_pairs.induct)
  case (2 n bs)
  have "sint (c :: i32) < 2 ^ 31" for c using sint_lt[of c] by simp
  then show ?case using 2 by (fastforce split: option.splits sum.splits if_splits)
qed simp

lemma read_record_counts:
  assumes "read_record t bs = Inr ((k, ps), r)"
  shows "ps \<noteq> [] \<and> (\<forall>x \<in> set ps. 0 < snd x \<and> snd x < 2 ^ 31)"
proof -
  obtain n b qs where q: "0 < sint (n :: i32)" "read_pairs (nat (sint n)) b = Inr (qs, r)" "ps = sort_pairs qs"
    using assms by (auto simp: read_record_def split: sum.splits option.splits if_splits)
  have s: "set ps = set qs" and l: "length ps = length qs" using q(3) by (simp_all add: sort_pairs_def)
  show ?thesis using read_pairs_counts[OF q(2)] q(1) s l by (metis length_greater_0_conv zero_less_nat_eq)
qed

lemma read_records_counts:
  "read_records bs = Inr rs \<Longrightarrow> (k, ps) \<in> set rs \<Longrightarrow> ps \<noteq> [] \<and> (\<forall>x \<in> set ps. 0 < snd x \<and> snd x < 2 ^ 31)"
proof (induction bs arbitrary: rs rule: read_records.induct)
  case (1 bs)
  show ?case
  proof (cases "next_word bs")
    case None
    then have "rs = []" using 1(2) by (subst (asm) read_records.simps) simp
    then show ?thesis using 1(3) by simp
  next
    case (Some p)
    obtain t b where p: "p = (t, b)" by (cases p)
    obtain x b2 xs where x: "read_record t b = Inr (x, b2)" "read_records b2 = Inr xs" "rs = x # xs"
      using 1(2) Some p by (subst (asm) read_records.simps) (auto split: sum.splits)
    show ?thesis
      using 1(1)[OF Some p[symmetric] x(1) prod.collapse] x(2) 1(3) x(3) read_record_counts[of t b k ps b2] x(1) by auto
  qed
qed

lemma sum_list_bound:
  "\<forall>x \<in> set ps. snd x < (2 :: int) ^ 31 \<Longrightarrow> sum_list (map snd ps) \<le> 2 ^ 31 * int (length ps)"
  by (induction ps) (auto simp: algebra_simps)

lemma static_record_best:
  assumes "read_records bs = Inr rs" "(k, ps) \<in> set rs" "static_record k ps"
  shows "\<exists>t c. scan_best ps = (t, c, sum_list (map snd ps)) \<and> first_largest ps t c"
proof -
  have c: "ps \<noteq> []" "\<forall>x \<in> set ps. 0 < snd x" "\<forall>x \<in> set ps. snd x < 2 ^ 31"
    using read_records_counts[OF assms(1,2)] by auto
  have "length ps < 2 ^ 24" using assms(3) by (auto simp: static_record_def)
  then have "sum_list (map snd ps) < 2 ^ 63" using sum_list_bound[OF c(3)] by simp
  from scan_best_spec[OF c(2) this] show ?thesis using c(1) by auto
qed

section \<open>Properties\<close>

text \<open>
  C19. \<^verbatim>\<open>Static::load\<close> always ends, and when it succeeds every record of the file is found under
  its 2-gram with exactly its followers, the sum of their counts as total, and as best follower
  the first of those with the largest count; no other 2-gram is found.
\<close>

theorem static_load_faithful:
  "(\<exists>r. static_load bs = Some r) \<and>
   (\<forall>st rs. static_load bs = Some (Inr st) \<and> read_records bs = Inr rs \<longrightarrow>
     (\<forall>(k, ps) \<in> set rs. \<exists>m. static_find st (k ! 0) (k ! 1) = Some (Some m) \<and> static_followers st m = ps \<and>
        msum m = sum_list (map snd ps) \<and> first_largest ps (mtop m) (mtop_count m)) \<and>
     (\<forall>a b. (\<forall>(k, ps) \<in> set rs. (k ! 0, k ! 1) \<noteq> (a, b)) \<longrightarrow> static_find st a b = Some None))"
proof (intro conjI allI impI)
  show "\<exists>r. static_load bs = Some r" by (rule static_load_total)
  fix st rs assume l: "static_load bs = Some (Inr st) \<and> read_records bs = Inr rs"
  have one: "\<exists>m. static_find st (k ! 0) (k ! 1) = Some (Some m) \<and> static_followers st m = ps \<and>
        msum m = sum_list (map snd ps) \<and> first_largest ps (mtop m) (mtop_count m)" if "(k, ps) \<in> set rs" for k ps
    using static_load_finds[of bs st rs k ps] static_record_best[of bs rs k ps] static_load_record[of bs st rs k ps] l that
    by (metis prod.inject)
  then show "\<forall>(k, ps) \<in> set rs. \<exists>m. static_find st (k ! 0) (k ! 1) = Some (Some m) \<and> static_followers st m = ps \<and>
        msum m = sum_list (map snd ps) \<and> first_largest ps (mtop m) (mtop_count m)" by blast
  fix a b assume "\<forall>(k, ps) \<in> set rs. (k ! 0, k ! 1) \<noteq> (a, b)"
  then show "static_find st a b = Some None" using static_load_finds_only[of bs st rs a b] l by blast
qed

text \<open>A file of one 2-gram with three followers, the second and the third counted alike.\<close>

definition demo_grams :: part where
  "demo_grams = \<lparr>pairs = [(9, 3), (10, 5), (11, 5)], psum = 13, pmax = 5\<rparr>"

theorem static_load_faithful_witness:
  "\<exists>st m. static_load (save_entry ([1, 2, - 1, - 1], demo_grams)) = Some (Inr st) \<and>
    static_find st 1 2 = Some (Some m) \<and> static_followers st m = [(9, 3), (10, 5), (11, 5)] \<and>
    (mtop m, mtop_count m, msum m) = (10, 5, 13)"
proof -
  let ?ps = "[(9, 3), (10, 5), (11, 5)] :: pair list"
  let ?bs = "save_entry ([1, 2, - 1, - 1], demo_grams)"
  have "part_ok demo_grams" by (simp add: part_ok_def demo_grams_def token_sorted_def)
  then have rr: "read_records ?bs = Inr [([1, 2, - 1, - 1], ?ps)]"
    using read_records_save[of "[([1, 2, - 1, - 1], demo_grams)]"] by (simp add: NGRAM_MAX_def demo_grams_def)
  let ?m = "meta_of 0 [1, 2, - 1, - 1] ?ps"
  have c: "static_collect [([1, 2, - 1, - 1], ?ps)] None [] [] = (None, [?m], ?ps)"
    by (simp add: static_record_def NGRAM_STATIC_def NULL_def)
  have small: "length [?m] < 2 ^ 32 - 1" and one: "distinct (map mkey [?m])" by simp_all
  obtain ss where "static_place [?m] [0 ..< length [?m]] (replicate (max (next_pow2 (length [?m] * 2)) 1024) 0) = Some (Inr ss)"
    using static_table_distinct[OF small one] by (rule exE)
  then have "static_load ?bs = Some (Inr \<lparr>sslots = ss, sgrams = [?m], spairs = ?ps\<rparr>)"
    unfolding static_load_def rr sum.case c prod.case option.case Let_def by simp
  then obtain st where st: "static_load ?bs = Some (Inr st)" by blast
  have "\<exists>m. static_find st ([1, 2, - 1, - 1] ! 0) ([1, 2, - 1, - 1] ! 1) = Some (Some m) \<and>
      static_followers st m = ?ps \<and> msum m = sum_list (map snd ?ps) \<and> first_largest ?ps (mtop m) (mtop_count m)"
    using conjunct2[OF static_load_faithful[of ?bs], rule_format, of st "[([1, 2, - 1, - 1], ?ps)]"] st rr by simp
  moreover have "t = 10 \<and> c = 5" if "first_largest ?ps t c" for t c
    using that by (auto simp: first_largest_def Cons_eq_append_conv)
  ultimately show ?thesis using st by fastforce
qed

end
