(* ===== verification/Ngram_Draft.thy ===== *)
theory Ngram_Draft
  imports Ngram_Static
begin

text \<open>
  Drafting from the n-gram caches: the thresholds, \<^verbatim>\<open>try_primary\<close> and \<^verbatim>\<open>draft\<close> of
  \<^verbatim>\<open>host/crates/phi-pld/src/ngram_cache.rs\<close>.  The outer \<open>None\<close> is a panic or a probe
  that never ends; the lemmas show it away under the caches' invariants.
\<close>

definition SAMPLE_LAX :: "int list" where "SAMPLE_LAX = [2, 2, 1, 1]"
definition PERCENT_LAX :: "int list" where "PERCENT_LAX = [66, 50, 50, 50]"
definition SAMPLE_STRICT :: "int list" where "SAMPLE_STRICT = [4, 3, 2, 2]"
definition PERCENT_STRICT :: "int list" where "PERCENT_STRICT = [75, 66, 66, 66]"

record caches =
  dynamic_cache :: cache
  static_cache :: statics
  learn :: bool

datatype tier = Context_tier | Dynamic_tier | Static_tier

definition weight_of :: "pair list option \<Rightarrow> i32 \<Rightarrow> int" where
  "weight_of weights t =
     (case (case weights of None \<Rightarrow> None | Some ws \<Rightarrow> count_in ws t) of
        None \<Rightarrow> 1 | Some s \<Rightarrow> wrap64 (100 * s))"

definition weigh :: "pair list option \<Rightarrow> pair \<Rightarrow> int \<times> i32 \<times> int \<Rightarrow> int \<times> i32 \<times> int" where
  "weigh weights tc acc = (case (tc, acc) of ((t, cnt), (best, best_t, best_c)) \<Rightarrow>
     let w = wrap64 (cnt * weight_of weights t) in
     if best < w then (w, t, cnt) else (best, best_t, best_c))"

definition best_follower :: "pair list option \<Rightarrow> pair list \<Rightarrow> i32 \<times> int" where
  "best_follower weights ps = snd (fold (weigh weights) ps (0, NULL, 0))"

text \<open>The loop of \<^verbatim>\<open>try_primary\<close> over the lengths still to try.\<close>

fun try_ns :: "cache \<Rightarrow> i32 list \<Rightarrow> nat \<Rightarrow> pair list option \<Rightarrow> int list \<Rightarrow> int list \<Rightarrow> nat list \<Rightarrow> i32 option option" where
  "try_ns c seq nmin weights sample percent [] = Some None"
| "try_ns c seq nmin weights sample percent (n # ns) =
     (if length seq < n then try_ns c seq nmin weights sample percent ns
      else case key_of (drop (length seq - n) seq) of
        None \<Rightarrow> None
      | Some k \<Rightarrow>
          (case cache_find c k of
             None \<Rightarrow> None
           | Some None \<Rightarrow> try_ns c seq nmin weights sample percent ns
           | Some (Some p) \<Rightarrow>
               (let i = n - nmin in
                if length sample \<le> i \<or> length percent \<le> i then None
                else if psum p < sample ! i \<or> 100 * pmax p < wrap64 (percent ! i * psum p)
                then try_ns c seq nmin weights sample percent ns
                else (case best_follower weights (pairs p) of (best_t, best_c) \<Rightarrow>
                  if 100 * best_c < wrap64 (percent ! i * psum p)
                  then try_ns c seq nmin weights sample percent ns
                  else Some (Some best_t)))))"

definition try_primary :: "cache \<Rightarrow> i32 list \<Rightarrow> nat \<Rightarrow> nat \<Rightarrow> pair list option \<Rightarrow> int list \<Rightarrow> int list \<Rightarrow> i32 option option" where
  "try_primary c seq nmin nmax weights sample percent =
     try_ns c seq nmin weights sample percent (rev [nmin ..< Suc nmax])"

text \<open>One token: the context cache, else the dynamic, else the static alone.\<close>

definition draft_one :: "i32 list \<Rightarrow> nat \<Rightarrow> nat \<Rightarrow> cache \<Rightarrow> cache \<Rightarrow> statics \<Rightarrow> (i32 \<times> tier) option option" where
  "draft_one seq nmin nmax ctx dyn statics =
     (case static_find statics (seq ! (length seq - 2)) (seq ! (length seq - 1)) of
        None \<Rightarrow> None
      | Some st \<Rightarrow>
          (let weights = map_option (static_followers statics) st in
           case try_primary ctx seq nmin nmax weights SAMPLE_LAX PERCENT_LAX of
             None \<Rightarrow> None
           | Some (Some t) \<Rightarrow> Some (Some (t, Context_tier))
           | Some None \<Rightarrow>
               (case try_primary dyn seq nmin nmax weights SAMPLE_STRICT PERCENT_STRICT of
                  None \<Rightarrow> None
                | Some (Some t) \<Rightarrow> Some (Some (t, Dynamic_tier))
                | Some None \<Rightarrow>
                    Some (case st of
                       None \<Rightarrow> None
                     | Some m \<Rightarrow>
                         if SAMPLE_LAX ! (NGRAM_STATIC - 1) \<le> msum m \<and>
                            wrap64 (PERCENT_LAX ! (NGRAM_STATIC - 1) * msum m) \<le> 100 * mtop_count m
                         then Some (mtop m, Static_tier) else None))))"

fun ngram_loop :: "nat \<Rightarrow> i32 list \<Rightarrow> nat \<Rightarrow> nat \<Rightarrow> cache \<Rightarrow> cache \<Rightarrow> statics \<Rightarrow> (i32 \<times> tier) list option" where
  "ngram_loop 0 seq nmin nmax ctx dyn statics = Some []"
| "ngram_loop (Suc k) seq nmin nmax ctx dyn statics =
     (case draft_one seq nmin nmax ctx dyn statics of
        None \<Rightarrow> None
      | Some None \<Rightarrow> Some []
      | Some (Some (t, tier)) \<Rightarrow>
          map_option (Cons (t, tier)) (ngram_loop k (seq @ [t]) nmin nmax ctx dyn statics))"

definition ngram_draft :: "i32 list \<Rightarrow> nat \<Rightarrow> nat \<Rightarrow> nat \<Rightarrow> cache \<Rightarrow> cache \<Rightarrow> statics \<Rightarrow> (i32 \<times> tier) list option" where
  "ngram_draft history k nmin nmax ctx dyn statics =
     (if length history < NGRAM_STATIC \<or> k = 0 then Some []
      else let keep = min (max nmax NGRAM_STATIC) (length history) in
        ngram_loop k (drop (length history - keep) history) nmin nmax ctx dyn statics)"

section \<open>The best follower\<close>

lemma weigh_inv:
  "\<exists>b t c. fold (weigh w) ps (b0, t0, c0) = (b, t, c) \<and> ((t, c) = (t0, c0) \<or> (t, c) \<in> set ps)"
proof (induction ps arbitrary: b0 t0 c0)
  case (Cons x ps)
  obtain t1 c1 where x: "x = (t1, c1)" by (cases x)
  obtain b' t' c' where s: "weigh w x (b0, t0, c0) = (b', t', c')" "(t', c') = (t0, c0) \<or> (t', c') = x"
    by (cases "b0 < wrap64 (c1 * weight_of w t1)") (simp_all add: weigh_def Let_def x)
  obtain b t c where "fold (weigh w) ps (b', t', c') = (b, t, c)" "(t, c) = (t', c') \<or> (t, c) \<in> set ps"
    using Cons by blast
  then show ?case using s by auto
qed simp

lemma best_follower_in:
  "best_follower w ps = (t, c) \<Longrightarrow> (t, c) = (NULL, 0) \<or> (t, c) \<in> set ps"
  using weigh_inv[of w ps 0 NULL 0] by (auto simp: best_follower_def)

lemma best_follower_le_max: "part_ok p \<Longrightarrow> best_follower w (pairs p) = (t, c) \<Longrightarrow> c \<le> pmax p"
  using best_follower_in[of w "pairs p" t c] part_count_le_max[of p t c] part_max_le_sum[of p] by auto

section \<open>The precheck\<close>

text \<open>The loop without Lemire's test of the largest count.\<close>

fun try_plain :: "cache \<Rightarrow> i32 list \<Rightarrow> nat \<Rightarrow> pair list option \<Rightarrow> int list \<Rightarrow> int list \<Rightarrow> nat list \<Rightarrow> i32 option option" where
  "try_plain c seq nmin weights sample percent [] = Some None"
| "try_plain c seq nmin weights sample percent (n # ns) =
     (if length seq < n then try_plain c seq nmin weights sample percent ns
      else case key_of (drop (length seq - n) seq) of
        None \<Rightarrow> None
      | Some k \<Rightarrow>
          (case cache_find c k of
             None \<Rightarrow> None
           | Some None \<Rightarrow> try_plain c seq nmin weights sample percent ns
           | Some (Some p) \<Rightarrow>
               (let i = n - nmin in
                if length sample \<le> i \<or> length percent \<le> i then None
                else case best_follower weights (pairs p) of (best_t, best_c) \<Rightarrow>
                  if psum p < sample ! i \<or> 100 * best_c < wrap64 (percent ! i * psum p)
                  then try_plain c seq nmin weights sample percent ns
                  else Some (Some best_t))))"

lemma try_ns_plain:
  assumes "cache_ok c" "parts_ok c"
  shows "try_ns c seq nmin weights sample percent ns = try_plain c seq nmin weights sample percent ns"
proof (induction ns)
  case (Cons n ns)
  have pre: "100 * b < x" if "cache_find c k = Some (Some p)" "best_follower weights (pairs p) = (t, b)"
    "100 * pmax p < x" for k p t b x
  proof -
    have "b \<le> pmax p" using best_follower_le_max[OF parts_ok_find(1)[OF assms that(1)] that(2)] .
    then show ?thesis using that(3) by linarith
  qed
  show ?case
  proof (cases "key_of (drop (length seq - n) seq)")
    case None
    then show ?thesis using Cons by simp
  next
    case (Some k)
    obtain q where q: "cache_find c k = Some q" using fs.find_total[OF assms(1)] by blast
    show ?thesis
    proof (cases q)
      case None
      then show ?thesis using Cons Some q by simp
    next
      case (Some p)
      obtain t b where b: "best_follower weights (pairs p) = (t, b)" by (metis surj_pair)
      have "100 * pmax p < x \<Longrightarrow> 100 * b < x" for x using pre q Some b by blast
      then show ?thesis using Cons \<open>key_of _ = Some k\<close> q Some b by (auto simp: Let_def)
    qed
  qed
qed simp

section \<open>What a draft may hold\<close>

lemma ngram_loop_length:
  "ngram_loop k seq nmin nmax ctx dyn st = Some out \<Longrightarrow> length out \<le> k"
  by (induction k seq nmin nmax ctx dyn st arbitrary: out rule: ngram_loop.induct)
    (auto split: option.splits)

lemma try_ns_total:
  assumes "cache_ok c" "\<forall>n \<in> set ns. n \<le> NGRAM_MAX \<and> n - nmin < length sample \<and> n - nmin < length percent"
  shows "\<exists>r. try_ns c seq nmin weights sample percent ns = Some r"
  using assms(2)
proof (induction ns)
  case (Cons n ns)
  have n: "n \<le> NGRAM_MAX" "n - nmin < length sample" "n - nmin < length percent"
    and ih: "\<exists>r. try_ns c seq nmin weights sample percent ns = Some r" using Cons by auto
  obtain k where k: "length seq \<ge> n \<Longrightarrow> key_of (drop (length seq - n) seq) = Some k"
    using n(1) by (auto simp: key_of_def)
  obtain q where q: "cache_find c k = Some q" using fs.find_total[OF assms(1)] by blast
  show ?case
  proof (cases q)
    case None
    then show ?thesis using ih k q by simp
  next
    case (Some p)
    then show ?thesis using ih k q n by (auto simp: Let_def split: prod.splits)
  qed
qed simp

lemma try_primary_total:
  assumes "cache_ok c" "nmax \<le> NGRAM_MAX" "1 \<le> nmin" "length sample = NGRAM_MAX" "length percent = NGRAM_MAX"
  shows "\<exists>r. try_primary c seq nmin nmax weights sample percent = Some r"
  unfolding try_primary_def
  by (rule try_ns_total[OF assms(1)]) (use assms(2-) in \<open>auto simp: NGRAM_MAX_def\<close>)

definition static_ok :: "statics \<Rightarrow> bool" where
  "static_ok st \<longleftrightarrow> (\<forall>a b. \<exists>m. static_find st a b = Some m)"

lemma static_ok_default: "static_ok static_default"
  by (simp add: static_ok_def static_default_def static_find_def)

lemma static_load_static_ok: "static_load bs = Some (Inr st) \<Longrightarrow> static_ok st"
  unfolding static_ok_def
proof (intro allI)
  fix a b assume l: "static_load bs = Some (Inr st)"
  obtain ix: "distinct (map mkey (sgrams st))" "index_ok home2 (map mkey (sgrams st)) (sslots st)" "sslots st \<noteq> []"
    using static_load_ok[OF l] by blast
  show "\<exists>m. static_find st a b = Some m"
    using static_find_spec[OF ix(2,1,3), where a = a and b = b]
    by (cases "key2 a b \<in> mkey ` set (sgrams st)") (auto simp: in_set_conv_nth)
qed

lemma draft_one_total:
  assumes "cache_ok ctx" "cache_ok dyn" "static_ok st" "1 \<le> nmin" "nmax \<le> NGRAM_MAX"
  shows "\<exists>r. draft_one seq nmin nmax ctx dyn st = Some r"
proof -
  have l: "length SAMPLE_LAX = NGRAM_MAX" "length PERCENT_LAX = NGRAM_MAX"
    "length SAMPLE_STRICT = NGRAM_MAX" "length PERCENT_STRICT = NGRAM_MAX"
    by (simp_all add: SAMPLE_LAX_def PERCENT_LAX_def SAMPLE_STRICT_def PERCENT_STRICT_def NGRAM_MAX_def)
  obtain m where m: "static_find st (seq ! (length seq - 2)) (seq ! (length seq - 1)) = Some m"
    using assms(3) by (auto simp: static_ok_def)
  let ?w = "map_option (static_followers st) m"
  obtain r1 where r1: "try_primary ctx seq nmin nmax ?w SAMPLE_LAX PERCENT_LAX = Some r1"
    using try_primary_total[OF assms(1,5,4) l(1,2)] by blast
  obtain r2 where r2: "try_primary dyn seq nmin nmax ?w SAMPLE_STRICT PERCENT_STRICT = Some r2"
    using try_primary_total[OF assms(2,5,4) l(3,4)] by blast
  show ?thesis unfolding draft_one_def Let_def m
    by (cases r1; cases r2) (simp_all add: r1 r2)
qed

lemma ngram_loop_total:
  assumes "cache_ok ctx" "cache_ok dyn" "static_ok st" "1 \<le> nmin" "nmax \<le> NGRAM_MAX"
  shows "\<exists>out. ngram_loop k seq nmin nmax ctx dyn st = Some out"
proof (induction k arbitrary: seq)
  case (Suc k)
  obtain r where r: "draft_one seq nmin nmax ctx dyn st = Some r" using draft_one_total[OF assms] by blast
  show ?case
  proof (cases r)
    case None
    then show ?thesis using r by simp
  next
    case (Some tt)
    obtain t tier where "tt = (t, tier)" by (cases tt)
    then show ?thesis using r Some Suc[of "seq @ [t]"] by auto
  qed
qed simp

text \<open>
  The token \<open>try_primary\<close> picks is a true follower of a true suffix of the sequence, and
  its share of the context's occurrences passes the thresholds.
\<close>

definition trusted :: "i32 list \<Rightarrow> i32 list \<Rightarrow> int \<Rightarrow> int \<Rightarrow> i32 \<Rightarrow> bool" where
  "trusted ts g sample percent t \<longleftrightarrow> t \<in> set (followers ts g) \<and>
     sample \<le> int (length (followers ts g)) \<and>
     percent * int (length (followers ts g)) \<le> 100 * int (count_list (followers ts g) t)"

lemma try_ns_trusted:
  assumes c: "counts_of c ts nmin nmax" and ts: "length ts < 2 ^ 31" and nn: "NULL \<notin> set seq"
    and pos: "\<forall>x \<in> set percent. 0 < x \<and> x \<le> 100"
    and r: "try_ns c seq nmin weights sample percent ns = Some (Some t)"
    and ns: "\<forall>n \<in> set ns. nmin \<le> n \<and> n \<le> nmax"
  shows "\<exists>n. n \<in> set ns \<and> n \<le> length seq \<and>
    trusted ts (drop (length seq - n) seq) (sample ! (n - nmin)) (percent ! (n - nmin)) t"
  using r ns
proof (induction ns)
  case (Cons n ns)
  show ?case
  proof (cases "try_ns c seq nmin weights sample percent ns = Some (Some t)")
    case True
    then show ?thesis using Cons by auto
  next
    case now: False
    let ?g = "drop (length seq - n) seq" and ?i = "n - nmin"
    have n: "n \<le> length seq" using Cons.prems(1) now by (auto split: if_splits)
    then obtain k q where k: "key_of ?g = Some k" and q: "cache_find c k = Some q"
      using Cons.prems(1) by (auto split: option.splits)
    then obtain p where p: "q = Some p" using Cons.prems(1) now n by (cases q) auto
    obtain bt bc where b: "best_follower weights (pairs p) = (bt, bc)" by (metis surj_pair)
    have pick: "bt = t" "\<not> psum p < sample ! ?i" "\<not> 100 * bc < wrap64 (percent ! ?i * psum p)"
      "?i < length percent"
      using Cons.prems(1) now n k q p b by (auto simp: Let_def split: if_splits)
    have len: "length ?g = n" using n by simp
    have "n \<le> NGRAM_MAX" using k len by (auto simp: key_of_def split: if_splits)
    then have "cache_find c k = Some (part_of (followers ts ?g))"
    proof -
      have "nmin \<le> length ?g" "length ?g \<le> min nmax NGRAM_MAX" using len \<open>n \<le> NGRAM_MAX\<close> Cons.prems(2) by auto
      moreover have "NULL \<notin> set ?g" using nn in_set_dropD by metis
      ultimately show ?thesis using c k unfolding counts_of_def by blast
    qed
    then have fs: "part_of (followers ts ?g) = Some p" using q p by simp
    have fl: "length (followers ts ?g) < 2 ^ 31" using length_followers[of ts ?g] ts by linarith
    note spec = part_of_spec[OF fl fs]
    have ne: "0 < psum p"
    proof -
      have "followers ts ?g \<noteq> []" using fs by (auto simp: part_of_def)
      then show ?thesis using spec(2) by simp
    qed
    have pc: "0 < percent ! ?i" "percent ! ?i \<le> 100" using pos pick(4) by auto
    have "percent ! ?i * psum p \<le> 100 * psum p" using pc ne by simp
    also have "\<dots> < 2 ^ 63" using spec(2) fl by simp
    finally have w: "wrap64 (percent ! ?i * psum p) = percent ! ?i * psum p"
      using pc ne by (intro wrap64_id) (auto intro: order.trans[of _ 0])
    have "0 < percent ! ?i * psum p" using pc ne by simp
    then have "0 < bc" using pick(3) w by linarith
    then have "(t, bc) \<in> set (pairs p)" using best_follower_in[OF b] pick(1) by auto
    moreover have "token_sorted (pairs p)" using spec(1) by (simp add: part_ok_def)
    ultimately have "follower_count p t = bc"
      using token_sorted_distinct[of "pairs p"] by (simp add: follower_count_def)
    then have cnt: "bc = int (count_list (followers ts ?g) t)" using spec(3) by simp
    have "t \<in> set (followers ts ?g)"
    proof (rule ccontr)
      assume "t \<notin> set (followers ts ?g)"
      then have "count_list (followers ts ?g) t = 0" by (rule count_notin)
      then show False using \<open>0 < bc\<close> cnt by simp
    qed
    then have "trusted ts ?g (sample ! ?i) (percent ! ?i) t"
      using pick(2,3) w spec(2) cnt by (simp add: trusted_def)
    then show ?thesis using n by auto
  qed
qed simp

section \<open>Properties\<close>

text \<open>
  Lemire's precheck changes nothing: on well-formed parts \<^verbatim>\<open>try_primary\<close> returns exactly what
  it would return without the early test of the part's largest count.
\<close>

lemma precheck_is_sound:
  assumes "cache_ok c" "parts_ok c"
  shows "try_primary c seq nmin nmax weights sample percent =
    try_plain c seq nmin weights sample percent (rev [nmin ..< Suc nmax])"
  unfolding try_primary_def by (rule try_ns_plain[OF assms])

text \<open>
  C20. A token drafted from the context cache is trusted: for some \<open>n\<close> it truly followed the last
  \<open>n\<close> tokens of the sequence earlier in the context, the n-gram occurred at least as often as
  the sample threshold asks, and the token's share of those occurrences passes the percentage.
\<close>

theorem context_draft_is_trusted:
  assumes "counts_of c ts 1 NGRAM_MAX" "length ts < 2 ^ 31" "NULL \<notin> set seq"
    "try_primary c seq 1 NGRAM_MAX weights SAMPLE_LAX PERCENT_LAX = Some (Some t)"
  shows "\<exists>n. 1 \<le> n \<and> n \<le> NGRAM_MAX \<and> n \<le> length seq \<and>
    trusted ts (drop (length seq - n) seq) (SAMPLE_LAX ! (n - 1)) (PERCENT_LAX ! (n - 1)) t"
proof -
  have "\<forall>x \<in> set PERCENT_LAX. 0 < x \<and> x \<le> 100" by (simp add: PERCENT_LAX_def)
  note draft = try_ns_trusted[OF assms(1-3) this assms(4)[unfolded try_primary_def]]
  have range: "n \<in> set (rev [1 ..< Suc NGRAM_MAX]) \<Longrightarrow> 1 \<le> n \<and> n \<le> NGRAM_MAX" for n by auto
  obtain n where n: "n \<in> set (rev [1 ..< Suc NGRAM_MAX])" "n \<le> length seq"
    "trusted ts (drop (length seq - n) seq) (SAMPLE_LAX ! (n - 1)) (PERCENT_LAX ! (n - 1)) t"
    using draft range by blast
  have "1 \<le> n \<and> n \<le> NGRAM_MAX" using range[OF n(1)] .
  then show ?thesis using n by blast
qed

theorem context_draft_is_trusted_witness:
  "\<exists>c. counts_of c [3, 4, 3, 4, 3] 1 NGRAM_MAX \<and>
    try_primary c [3] 1 NGRAM_MAX None SAMPLE_LAX PERCENT_LAX = Some (Some 4) \<and>
    (\<exists>n. 1 \<le> n \<and> n \<le> NGRAM_MAX \<and> n \<le> length [3 :: i32] \<and>
      trusted [3, 4, 3, 4, 3] (drop (length [3 :: i32] - n) [3]) (SAMPLE_LAX ! (n - 1)) (PERCENT_LAX ! (n - 1)) 4)"
proof -
  have nn: "NULL \<notin> set ([] @ [3, 4, 3, 4, 3])" "NULL \<notin> set [3]" by (simp_all add: NULL_def)
  obtain c where c: "counts_of c [3, 4, 3, 4, 3] 1 NGRAM_MAX"
    using cache_update_counts[OF counts_of_new nn(1), of 1 NGRAM_MAX] by auto
  have k: "key_of [3] = Some [3, - 1, - 1, - 1]" by (simp add: key_of_def NGRAM_MAX_def NULL_def numeral_eq_Suc)
  have p: "part_of (followers [3, 4, 3, 4, 3] [3]) = Some \<lparr>pairs = [(4, 2)], psum = 2, pmax = 2\<rparr>"
    by code_simp
  have l: "1 \<le> length [3 :: i32] \<and> length [3 :: i32] \<le> min NGRAM_MAX NGRAM_MAX" by (simp add: NGRAM_MAX_def)
  have f: "cache_find c [3, - 1, - 1, - 1] = Some (Some \<lparr>pairs = [(4, 2)], psum = 2, pmax = 2\<rparr>)"
    using c[unfolded counts_of_def, THEN conjunct2, THEN conjunct2, rule_format, of "[3]" "[3, - 1, - 1, - 1]"] k nn(2) l
    unfolding p by blast
  have ns: "rev [1 ..< Suc NGRAM_MAX] = [4, 3, 2, 1]" by (simp add: NGRAM_MAX_def upt_rec)
  have d: "try_primary c [3] 1 NGRAM_MAX None SAMPLE_LAX PERCENT_LAX = Some (Some 4)"
    unfolding try_primary_def ns
    using k f by (simp add: SAMPLE_LAX_def PERCENT_LAX_def best_follower_def weigh_def weight_of_def wrap64_id Let_def)
  have small: "length [3, 4, 3, 4, 3 :: i32] < 2 ^ 31" by simp
  show ?thesis by (intro exI[of _ c] conjI c d context_draft_is_trusted[OF c small nn(2) d])
qed
end
