(* ===== verification/Decode.thy ===== *)
theory Decode
  imports Lookup Ngram_Draft
begin

text \<open>
  The generation engine, \<^verbatim>\<open>host/crates/phi-pld/src/decode.rs\<close>: the prompt decoded in
  batches (\<open>prompt_cuts\<close>, \<open>prefill\<close>), and the loop of \<open>generate\<close>, which drafts, decodes the
  last token with the draft, keeps what the model agrees with and takes the rest back, through
  truncation or a checkpoint.  The trait \<^verbatim>\<open>Model\<close> is a record of operations on an abstract
  model state.  Wall-clock times and the text field of the outcome are not modelled.
\<close>

section \<open>Results\<close>

text \<open>
  A run is done, or failed with an \<^verbatim>\<open>Err\<close> of the source, or panicked (or did not end).
  The model's own errors are text.
\<close>

datatype gen_error =
    Model_error string
  | After_restore nat
  | Take_back nat nat
  | Left_output nat

datatype 'a run = Done 'a | Failed gen_error | Panicked

fun and_then :: "'a run \<Rightarrow> ('a \<Rightarrow> 'b run) \<Rightarrow> 'b run" where
  "and_then (Done a) f = f a"
| "and_then (Failed e) f = Failed e"
| "and_then Panicked f = Panicked"

fun or_panic :: "'a option \<Rightarrow> 'a run" where
  "or_panic (Some a) = Done a"
| "or_panic None = Panicked"

fun question :: "string + 'a \<Rightarrow> 'a run" where
  "question (Inr a) = Done a"
| "question (Inl e) = Failed (Model_error e)"

section \<open>The model and the parameters\<close>

record 'm model_ops =
  recurrent :: "'m \<Rightarrow> bool"
  rs_seq :: "'m \<Rightarrow> nat"
  n_ctx :: "'m \<Rightarrow> nat"
  batch :: "'m \<Rightarrow> nat \<times> nat"
  is_eog :: "'m \<Rightarrow> i32 \<Rightarrow> bool"
  ban_eog :: "'m \<Rightarrow> bool \<Rightarrow> 'm"
  clear :: "'m \<Rightarrow> 'm"
  decode :: "'m \<Rightarrow> i32 list \<Rightarrow> nat \<Rightarrow> nat list \<Rightarrow> (i32 list \<times> 'm) run"
  truncate_to :: "'m \<Rightarrow> nat \<Rightarrow> bool \<times> 'm"
  checkpoint :: "'m \<Rightarrow> string + bytes \<times> 'm"
  restore :: "'m \<Rightarrow> bytes \<Rightarrow> string + 'm"

datatype drafter = Exact | Cache_only | Both

record params =
  n_predict :: nat
  k_max :: nat
  k_min :: nat
  adapt :: bool
  min_n :: nat
  max_n :: nat
  ppick :: pick
  fold_max :: nat
  junk :: bool
  drafts :: drafter
  cache_k :: nat
  ignore_eos :: bool
  plearn :: bool
  use_static :: bool

record order_count =
  osteps :: nat
  odrafted :: nat
  oaccepted :: nat

definition order_default :: order_count where
  "order_default = \<lparr>osteps = 0, odrafted = 0, oaccepted = 0\<rparr>"

record outcome =
  otokens :: "i32 list"
  prompt_n :: nat
  draft_n :: nat
  draft_accepted :: nat
  steps :: nat
  restores :: nat
  carried :: nat
  flushes :: nat
  by_n :: "order_count list"
  by_tier :: "order_count list"
  eog :: bool

definition outcome_new :: "nat \<Rightarrow> outcome" where
  "outcome_new n = \<lparr>otokens = [], prompt_n = n, draft_n = 0, draft_accepted = 0, steps = 0,
     restores = 0, carried = 0, flushes = 0, by_n = [], by_tier = replicate 3 order_default, eog = False\<rparr>"

section \<open>The prompt\<close>

definition prompt_tail :: "nat \<Rightarrow> nat \<Rightarrow> nat \<Rightarrow> bool \<Rightarrow> nat list" where
  "prompt_tail n bat ubat rec =
     (if rec then sort (map (\<lambda>r. n - r) (filter (\<lambda>r. r < n) [min bat (4 + ubat), min bat 4])) else [])"

partial_function (option) cut_loop :: "nat \<Rightarrow> nat \<Rightarrow> nat list \<Rightarrow> nat \<Rightarrow> nat list option" where
  "cut_loop n bat tail at =
     (if at < n then
        let end0 = min (at + bat) n;
            e = (case find (\<lambda>c. at < c \<and> c < end0) tail of Some c \<Rightarrow> c | None \<Rightarrow> end0)
        in Option.bind (cut_loop n bat tail e) (\<lambda>es. Some (e # es))
      else Some [])"

definition prompt_cuts :: "nat \<Rightarrow> nat \<Rightarrow> nat \<Rightarrow> bool \<Rightarrow> nat list option" where
  "prompt_cuts n bat ubat rec = cut_loop n bat (prompt_tail n bat ubat rec) 0"

text \<open>\<^verbatim>\<open>got[0]\<close>.\<close>

fun first_choice :: "i32 list \<Rightarrow> i32 option" where
  "first_choice [] = None"
| "first_choice (t # ts) = Some t"

fun prefill_loop :: "'m model_ops \<Rightarrow> i32 list \<Rightarrow> nat list \<Rightarrow> nat \<Rightarrow> i32 \<Rightarrow> 'm \<Rightarrow> (i32 \<times> 'm) run" where
  "prefill_loop ops prompt [] from nxt m = Done (nxt, m)"
| "prefill_loop ops prompt (e # es) from nxt m =
     (let lst = (e = length prompt); want = (if lst then [e - from - 1] else []) in
      and_then (decode ops m (take (e - from) (drop from prompt)) from want) (\<lambda>(got, m').
        if lst then and_then (or_panic (first_choice got)) (\<lambda>t. prefill_loop ops prompt es e t m')
        else prefill_loop ops prompt es e nxt m'))"

definition prefill :: "'m model_ops \<Rightarrow> 'm \<Rightarrow> i32 list \<Rightarrow> (i32 \<times> 'm) run" where
  "prefill ops m prompt =
     (case batch ops m of (bat, ubat) \<Rightarrow>
        and_then (or_panic (prompt_cuts (length prompt) bat ubat (recurrent ops m))) (\<lambda>cuts.
          prefill_loop ops prompt cuts 0 0 m))"

section \<open>The loop\<close>

text \<open>What the loop carries; \<open>cached\<close> is the flag of the closure \<^verbatim>\<open>seen\<close>.\<close>

record 'm gen =
  mdl :: 'm
  out :: outcome
  look :: lookup
  hist :: "i32 list"
  ctx :: cache
  gpos :: nat
  pending :: "i32 list"
  kk :: nat
  ckpt :: bytes
  cur :: i32

text \<open>A token joins the output, the lookup and, when cached, the history and its cache.\<close>

definition emit :: "bool \<Rightarrow> i32 \<Rightarrow> 'm gen \<Rightarrow> 'm gen run" where
  "emit cached t g =
     and_then (or_panic (lookup_push (look g) t)) (\<lambda>l.
       let g1 = g\<lparr>out := (out g)\<lparr>otokens := otokens (out g) @ [t]\<rparr>, look := l\<rparr> in
       if cached
       then and_then (or_panic (cache_update (ctx g) (hist g @ [t]) 1 1 NGRAM_MAX)) (\<lambda>c.
              Done (g1\<lparr>hist := hist g @ [t], ctx := c\<rparr>))
       else Done g1)"

fun tier_no :: "tier \<Rightarrow> nat" where
  "tier_no Context_tier = 0"
| "tier_no Dynamic_tier = 1"
| "tier_no Static_tier = 2"

text \<open>The draft, the length of the n-gram it follows, and the tiers of a draft from the caches.\<close>

definition choose_draft :: "params \<Rightarrow> cache \<Rightarrow> statics \<Rightarrow> nat \<Rightarrow> 'm gen \<Rightarrow> (i32 list \<times> nat \<times> nat list) run" where
  "choose_draft p dyn st room g =
     (if k_max p = 0 \<or> room = 0 then Done ([], 0, [])
      else if junk p
      then Done (replicate (min (kk g) room) (word_of_int (trunc_rem (sint (cur g + 1)) 1000)), 0, [])
      else and_then
        (if drafts p = Cache_only then Done ([], 0) else or_panic (lookup_draft (look g) (min (kk g) room)))
        (\<lambda>(ex, n).
          if ex = [] \<and> drafts p \<noteq> Exact
          then and_then (or_panic (ngram_draft (hist g) (min (cache_k p) room) 1 NGRAM_MAX (ctx g) dyn st)) (\<lambda>d.
                 Done (map fst d, 0, map (\<lambda>x. tier_no (snd x)) d))
          else Done (ex, n, [])))"

text \<open>Carried tokens decoded on their own when the batch would grow past \<^verbatim>\<open>fold_max\<close>.\<close>

definition flush :: "'m model_ops \<Rightarrow> params \<Rightarrow> i32 list \<Rightarrow> 'm gen \<Rightarrow> 'm gen run" where
  "flush ops p draft g =
     (if draft \<noteq> [] \<and> pending g \<noteq> [] \<and> fold_max p < length (pending g) + 1 + length draft
      then and_then (decode ops (mdl g) (pending g) (gpos g - length (pending g)) []) (\<lambda>(_, m).
             Done (g\<lparr>mdl := m, pending := [], out := (out g)\<lparr>flushes := flushes (out g) + 1\<rparr>\<rparr>))
      else Done g)"

text \<open>The longest prefix of the draft the model agrees with; \<open>None\<close> is a short \<open>choice\<close>.\<close>

fun agree :: "i32 list \<Rightarrow> i32 list \<Rightarrow> nat option" where
  "agree [] choice = Some 0"
| "agree (d # ds) [] = None"
| "agree (d # ds) (c # cs) = (if c = d then map_option Suc (agree ds cs) else Some 0)"

definition count_tier :: "nat \<Rightarrow> nat \<times> nat \<Rightarrow> order_count list \<Rightarrow> order_count list" where
  "count_tier j it os = (case it of (i, t) \<Rightarrow>
     os[t := (os ! t)\<lparr>odrafted := odrafted (os ! t) + 1,
                      oaccepted := oaccepted (os ! t) + (if i < j then 1 else 0)\<rparr>])"

definition account :: "nat \<Rightarrow> nat list \<Rightarrow> nat \<Rightarrow> nat \<Rightarrow> outcome \<Rightarrow> outcome" where
  "account n tiers d j o0 =
     (let o1 = o0\<lparr>steps := steps o0 + 1, draft_n := draft_n o0 + d, draft_accepted := draft_accepted o0 + j\<rparr> in
      if tiers = [] then
        (let bn = (if length (by_n o1) \<le> n
                   then by_n o1 @ replicate (n + 1 - length (by_n o1)) order_default else by_n o1)
         in o1\<lparr>by_n := bn[n := \<lparr>osteps = osteps (bn ! n) + 1, odrafted = odrafted (bn ! n) + d,
                               oaccepted = oaccepted (bn ! n) + j\<rparr>]\<rparr>)
      else
        (let bt = by_tier o1; t0 = hd tiers;
             bt1 = bt[t0 := (bt ! t0)\<lparr>osteps := osteps (bt ! t0) + 1\<rparr>]
         in o1\<lparr>by_tier := fold (count_tier j) (enumerate 0 tiers) bt1\<rparr>))"

text \<open>Taking back what was not accepted: \<open>bounded\<close> through the checkpoint, else by truncation.\<close>

definition take_back :: "'m model_ops \<Rightarrow> bool \<Rightarrow> nat \<Rightarrow> nat \<Rightarrow> i32 list \<Rightarrow> nat \<Rightarrow> nat \<Rightarrow> 'm gen \<Rightarrow> 'm gen run" where
  "take_back ops bounded base first seq d j g =
     (if d \<le> j then Done g
      else if bounded
      then and_then (question (restore ops (mdl g) (ckpt g))) (\<lambda>m.
        (case truncate_to ops m base of (ok, m') \<Rightarrow>
          if ok
          then Done (g\<lparr>mdl := m', pending := take (first + 1 + j) seq,
                       out := (out g)\<lparr>restores := restores (out g) + 1\<rparr>\<rparr>)
          else Failed (After_restore base)))
      else (case truncate_to ops (mdl g) (gpos g + 1 + j) of (ok, m') \<Rightarrow>
          if ok then Done (g\<lparr>mdl := m'\<rparr>) else Failed (Take_back (d - j) (gpos g + 1 + j))))"

text \<open>The accepted tokens join the output, up to an end-of-generation token.\<close>

fun emit_all :: "'m model_ops \<Rightarrow> bool \<Rightarrow> i32 list \<Rightarrow> 'm gen \<Rightarrow> (bool \<times> 'm gen) run" where
  "emit_all ops cached [] g = Done (False, g)"
| "emit_all ops cached (t # ts) g =
     and_then (emit cached t g) (\<lambda>g1.
       if is_eog ops (mdl g1) t then Done (True, g1\<lparr>out := (out g1)\<lparr>eog := True\<rparr>\<rparr>)
       else emit_all ops cached ts g1)"

text \<open>\<^verbatim>\<open>Ord::clamp\<close> panics when its bounds are the wrong way round.\<close>

definition clamp :: "nat \<Rightarrow> nat \<Rightarrow> nat \<Rightarrow> nat option" where
  "clamp x lo hi = (if hi < lo then None else Some (if x < lo then lo else if hi < x then hi else x))"

definition adapt_k :: "params \<Rightarrow> nat list \<Rightarrow> nat \<Rightarrow> nat \<Rightarrow> nat \<Rightarrow> nat option" where
  "adapt_k p tiers d j k =
     (if adapt p \<and> tiers = []
      then if j = d then Some (min (k * 2) (k_max p)) else clamp (j + 1) (max (k_min p) 1) (k_max p)
      else Some k)"

text \<open>Whether the loop goes on.\<close>

datatype 'a loop_end = Stop 'a | Again 'a

text \<open>The step after its decode: what the model agreed with is kept, the rest taken back.\<close>

definition settle :: "'m model_ops \<Rightarrow> params \<Rightarrow> bool \<Rightarrow> i32 list \<Rightarrow> nat \<Rightarrow> nat list \<Rightarrow> bool \<Rightarrow> nat \<Rightarrow> nat \<Rightarrow> i32 list \<Rightarrow>
    i32 list \<Rightarrow> 'm gen \<Rightarrow> 'm gen loop_end run" where
  "settle ops p cached draft n tiers bounded base first seq choice g =
     and_then (or_panic (agree draft choice)) (\<lambda>j.
     and_then (take_back ops bounded base first seq (length draft) j
                (g\<lparr>out := account n tiers (length draft) j (out g)\<rparr>)) (\<lambda>g1.
     and_then (emit_all ops cached (take j draft) g1) (\<lambda>(stop, g2).
     if length choice \<le> j then Panicked
     else let g3 = g2\<lparr>gpos := gpos g2 + 1 + j, cur := choice ! j\<rparr> in
       if stop then Done (Stop g3)
       else and_then (or_panic (adapt_k p tiers (length draft) j (kk g3))) (\<lambda>k.
         Done (Again (g3\<lparr>kk := k\<rparr>))))))"

text \<open>With nothing carried, the state before the batch is checkpointed.\<close>

definition save_point :: "'m model_ops \<Rightarrow> bool \<Rightarrow> 'm gen \<Rightarrow> 'm gen run" where
  "save_point ops need g =
     (if need then and_then (question (checkpoint ops (mdl g))) (\<lambda>(buf, m). Done (g\<lparr>mdl := m, ckpt := buf\<rparr>))
      else Done g)"

definition verify :: "'m model_ops \<Rightarrow> params \<Rightarrow> bool \<Rightarrow> i32 list \<Rightarrow> nat \<Rightarrow> nat list \<Rightarrow> 'm gen \<Rightarrow> 'm gen loop_end run" where
  "verify ops p cached draft n tiers g =
     (let base = gpos g - length (pending g); first = length (pending g);
          seq = pending g @ cur g # draft;
          g1 = g\<lparr>pending := [], out := (out g)\<lparr>carried := carried (out g) + first\<rparr>\<rparr> in
      if draft = [] then
        and_then (decode ops (mdl g1) seq base [first]) (\<lambda>(got, m).
          and_then (or_panic (first_choice got)) (\<lambda>t.
            Done (Again (g1\<lparr>mdl := m, cur := t, gpos := gpos g1 + 1\<rparr>))))
      else
        let bounded = (recurrent ops (mdl g1) \<and> rs_seq ops (mdl g1) < length draft) in
        and_then (save_point ops (bounded \<and> first = 0) g1) (\<lambda>g2.
        and_then (decode ops (mdl g2) seq base [first ..< length seq]) (\<lambda>(choice, m).
        settle ops p cached draft n tiers bounded base first seq choice (g2\<lparr>mdl := m\<rparr>))))"

definition gen_step :: "'m model_ops \<Rightarrow> params \<Rightarrow> bool \<Rightarrow> cache \<Rightarrow> statics \<Rightarrow> nat \<Rightarrow> 'm gen \<Rightarrow> 'm gen loop_end run" where
  "gen_step ops p cached dyn st nctx g0 =
     and_then (emit cached (cur g0) g0) (\<lambda>g.
       if is_eog ops (mdl g) (cur g) then Done (Stop (g\<lparr>out := (out g)\<lparr>eog := True\<rparr>\<rparr>))
       else if n_predict p \<le> length (otokens (out g)) \<or> nctx \<le> gpos g + 1 then Done (Stop g)
       else
         let room = min (n_predict p - length (otokens (out g)) - 1) (nctx - gpos g - 1) in
         and_then (choose_draft p dyn st room g) (\<lambda>(draft0, n, tiers0).
           let draft = take room draft0; tiers = take room tiers0 in
           and_then (flush ops p draft g) (\<lambda>g1. verify ops p cached draft n tiers g1)))"

section \<open>The loop ends\<close>

lemma and_then_Done: "and_then r f = Done b \<longleftrightarrow> (\<exists>a. r = Done a \<and> f a = Done b)"
  by (cases r) auto

lemma or_panic_Done: "or_panic r = Done a \<longleftrightarrow> r = Some a"
  by (cases r) auto

lemma question_Done: "question r = Done a \<longleftrightarrow> r = Inr a"
  by (cases r) auto

lemmas run_simps [panic_simps] = and_then_Done or_panic_Done question_Done

text \<open>What an emitted token leaves alone.\<close>

definition emitted :: "i32 list \<Rightarrow> 'm gen \<Rightarrow> 'm gen \<Rightarrow> bool" where
  "emitted ts g g' \<longleftrightarrow> otokens (out g') = otokens (out g) @ ts \<and> mdl g' = mdl g \<and> gpos g' = gpos g \<and>
     pending g' = pending g \<and> kk g' = kk g \<and> ckpt g' = ckpt g \<and> cur g' = cur g"

lemma emit_emitted: "emit cached t g = Done g' \<Longrightarrow> emitted [t] g g'"
  by (auto simp: emit_def emitted_def Let_def run_simps split: if_splits)

lemma emit_all_emitted:
  "emit_all ops cached ts g = Done (stop, g') \<Longrightarrow> \<exists>us. emitted us g g'"
proof (induction ops cached ts g arbitrary: stop g' rule: emit_all.induct)
  case (1 ops cached g)
  then show ?case by (auto simp: emitted_def)
next
  case (2 ops cached t ts g)
  obtain g1 where g1: "emit cached t g = Done g1"
    "(if is_eog ops (mdl g1) t then Done (True, g1\<lparr>out := (out g1)\<lparr>eog := True\<rparr>\<rparr>)
      else emit_all ops cached ts g1) = Done (stop, g')"
    using 2(2) by (auto simp: run_simps)
  note e = emit_emitted[OF g1(1)]
  show ?case
  proof (cases "is_eog ops (mdl g1) t")
    case True
    then show ?thesis using e g1(2) by (intro exI[of _ "[t]"]) (auto simp: emitted_def)
  next
    case False
    then obtain us where "emitted us g1 g'" using 2(1)[of g1] g1(2) by auto
    then show ?thesis using e by (intro exI[of _ "t # us"]) (auto simp: emitted_def)
  qed
qed

lemma flush_otokens: "flush ops p draft g = Done g' \<Longrightarrow> otokens (out g') = otokens (out g)"
  by (auto simp: flush_def run_simps split: if_splits)

lemma account_otokens [simp]: "otokens (account n tiers d j o0) = otokens o0"
  by (simp add: account_def Let_def)

lemma account_eog [simp]: "eog (account n tiers d j o0) = eog o0"
  by (simp add: account_def Let_def)

lemma take_back_otokens: "take_back ops b base first seq d j g = Done g' \<Longrightarrow> otokens (out g') = otokens (out g)"
  by (auto simp: take_back_def run_simps split_def split: if_splits)

lemma settle_Done:
  "settle ops p cached draft n tiers bounded base first seq choice g = Done r \<longleftrightarrow>
   (\<exists>j g1 stop g2. agree draft choice = Some j \<and>
      take_back ops bounded base first seq (length draft) j
        (g\<lparr>out := account n tiers (length draft) j (out g)\<rparr>) = Done g1 \<and>
      emit_all ops cached (take j draft) g1 = Done (stop, g2) \<and> j < length choice \<and>
      (if stop then r = Stop (g2\<lparr>gpos := gpos g2 + 1 + j, cur := choice ! j\<rparr>)
       else \<exists>k. adapt_k p tiers (length draft) j (kk g2) = Some k \<and>
         r = Again (g2\<lparr>gpos := gpos g2 + 1 + j, cur := choice ! j, kk := k\<rparr>)))"
  by (auto simp: settle_def Let_def run_simps)

lemma settle_otokens:
  assumes "settle ops p cached draft n tiers bounded base first seq choice g = Done (Again g')"
  shows "length (otokens (out g)) \<le> length (otokens (out g'))"
proof -
  obtain j g1 stop g2 where
    "take_back ops bounded base first seq (length draft) j
      (g\<lparr>out := account n tiers (length draft) j (out g)\<rparr>) = Done g1"
    "emit_all ops cached (take j draft) g1 = Done (stop, g2)" "otokens (out g') = otokens (out g2)"
    using assms unfolding settle_Done by (auto split: if_splits)
  then show ?thesis using take_back_otokens emit_all_emitted by (fastforce simp: emitted_def)
qed

lemma save_point_otokens: "save_point ops need g = Done g' \<Longrightarrow> otokens (out g') = otokens (out g)"
  by (auto simp: save_point_def run_simps split: if_splits)

lemma verify_otokens:
  assumes v: "verify ops p cached draft n tiers g = Done (Again g')"
  shows "length (otokens (out g)) \<le> length (otokens (out g'))"
proof (cases "draft = []")
  case True
  then show ?thesis using v by (auto simp: verify_def Let_def run_simps)
next
  case False
  obtain need g2 m bounded base first seq choice where
    s: "save_point ops need (g\<lparr>pending := [], out := (out g)\<lparr>carried := carried (out g) + length (pending g)\<rparr>\<rparr>) = Done g2"
    and t: "settle ops p cached draft n tiers bounded base first seq choice (g2\<lparr>mdl := m\<rparr>) = Done (Again g')"
    using v False unfolding verify_def Let_def if_not_P[OF False] and_then_Done split_def by blast
  show ?thesis using settle_otokens[OF t] save_point_otokens[OF s] by simp
qed

lemma gen_step_progress:
  assumes s: "gen_step ops p cached dyn st nctx g = Done (Again g')"
  shows "n_predict p - length (otokens (out g')) < n_predict p - length (otokens (out g))"
proof -
  obtain g1 draft n tiers g2 where
    e: "emit cached (cur g) g = Done g1" and more: "length (otokens (out g1)) < n_predict p" and
    f: "flush ops p draft g1 = Done g2" and v: "verify ops p cached draft n tiers g2 = Done (Again g')"
    using s unfolding gen_step_def Let_def by (auto simp: run_simps split: if_splits)
  have "length (otokens (out g1)) = Suc (length (otokens (out g)))"
    using emit_emitted[OF e] by (simp add: emitted_def)
  moreover have "length (otokens (out g1)) \<le> length (otokens (out g'))"
    using verify_otokens[OF v] flush_otokens[OF f] by simp
  ultimately show ?thesis using more by linarith
qed

function gen_loop :: "'m model_ops \<Rightarrow> params \<Rightarrow> bool \<Rightarrow> cache \<Rightarrow> statics \<Rightarrow> nat \<Rightarrow> 'm gen \<Rightarrow> 'm gen run" where
  "gen_loop ops p cached dyn st nctx g =
     (case gen_step ops p cached dyn st nctx g of
        Done (Stop g') \<Rightarrow> Done g'
      | Done (Again g') \<Rightarrow> gen_loop ops p cached dyn st nctx g'
      | Failed e \<Rightarrow> Failed e
      | Panicked \<Rightarrow> Panicked)"
  by pat_completeness auto
termination
  by (relation "measure (\<lambda>(ops, p, cached, dyn, st, nctx, g). n_predict p - length (otokens (out g)))")
    (auto intro: gen_step_progress)

declare gen_loop.simps [simp del]

section \<open>A request\<close>

definition start_k :: "params \<Rightarrow> nat" where
  "start_k p = (if adapt p then min (max (k_min p) 1) (k_max p) else k_max p)"

definition learn_into :: "bool \<Rightarrow> cache \<Rightarrow> caches \<Rightarrow> caches option" where
  "learn_into lrn c cs =
     (if lrn \<and> \<not> cache_is_empty c
      then map_option (\<lambda>d. cs\<lparr>dynamic_cache := d\<rparr>) (cache_merge (dynamic_cache cs) c)
      else Some cs)"

definition generate :: "'m model_ops \<Rightarrow> 'm \<Rightarrow> i32 list \<Rightarrow> params \<Rightarrow> caches \<Rightarrow> (outcome \<times> 'm \<times> caches) run" where
  "generate ops m0 prompt p cs =
     (let m1 = ban_eog ops (clear ops m0) (ignore_eos p);
          nctx = n_ctx ops m1;
          lrn = (learn cs \<and> plearn p);
          st = (if use_static p then static_cache cs else static_default);
          cached = (drafts p \<noteq> Exact \<or> lrn) in
      and_then (prefill ops m1 prompt) (\<lambda>(t, m2).
      and_then (or_panic (lookup_extend (lookup_new (min_n p) (max_n p) (ppick p)) prompt)) (\<lambda>l.
      and_then (or_panic (if cached then cache_update cache_new prompt (length prompt) 1 NGRAM_MAX
                          else Some cache_new)) (\<lambda>c.
      and_then (gen_loop ops p cached (dynamic_cache cs) st nctx
        \<lparr>mdl = m2, out = outcome_new (length prompt), look = l, hist = (if cached then prompt else []),
         ctx = c, gpos = length prompt, pending = [], kk = start_k p, ckpt = [], cur = t\<rparr>) (\<lambda>g.
      and_then (or_panic (learn_into lrn (ctx g) cs)) (\<lambda>cs'.
      Done (out g, mdl g, cs')))))))"

end
