(* ===== verification/Prefill.thy ===== *)
theory Prefill
  imports Decode
begin

text \<open>
  The model contract \<open>greedy_model\<close>, what \<^verbatim>\<open>decode.rs\<close> relies on of a \<^verbatim>\<open>Model\<close>: a
  context of cells, a recurrent state that follows them, and a greedy choice that depends
  on the tokens before it alone.  Under it the prompt's batches (\<open>prompt_cuts\<close>) leave the
  whole prompt in the context and return the choice after it.
\<close>

section \<open>The cuts of a prompt\<close>

text \<open>Cuts that lead from \<open>at\<close> to \<open>n\<close> in steps of one to \<open>bat\<close> tokens.\<close>

fun cuts_to :: "nat \<Rightarrow> nat \<Rightarrow> nat \<Rightarrow> nat list \<Rightarrow> bool" where
  "cuts_to n bat at [] = (at = n)"
| "cuts_to n bat at (e # es) = (at < e \<and> e \<le> n \<and> e \<le> at + bat \<and> cuts_to n bat e es)"

lemma cut_loop_ok:
  assumes "0 < bat" "at \<le> n" "sorted tail"
  shows "\<exists>cuts. cut_loop n bat tail at = Some cuts \<and> cuts_to n bat at cuts \<and>
    (\<forall>c \<in> set tail. at < c \<and> c < n \<longrightarrow> c \<in> set cuts)"
  using assms(2)
proof (induction "n - at" arbitrary: at rule: less_induct)
  case less
  show ?case
  proof (cases "at < n")
    case False
    then show ?thesis using less.prems by (subst cut_loop.simps) auto
  next
    case True
    let ?stop = "min (at + bat) n"
    define e where "e = (case find (\<lambda>c. at < c \<and> c < ?stop) tail of Some c \<Rightarrow> c | None \<Rightarrow> ?stop)"
    have e: "at < e" "e \<le> n" "e \<le> at + bat"
      using True assms(1) by (auto simp: e_def find_Some_iff split: option.splits)
    have skip: "c \<noteq> e \<Longrightarrow> at < c \<Longrightarrow> c < n \<Longrightarrow> c \<in> set tail \<Longrightarrow> e < c" for c
    proof (rule ccontr)
      assume c: "c \<noteq> e" "at < c" "c < n" "c \<in> set tail" "\<not> e < c"
      then have lt: "c < e" by simp
      show False
      proof (cases "find (\<lambda>c. at < c \<and> c < ?stop) tail")
        case None
        then have "c < ?stop" using lt by (simp add: e_def)
        then show False using None c by (auto simp: find_None_iff)
      next
        case (Some d)
        then obtain i where i: "i < length tail" "tail ! i = d" "\<forall>j < i. \<not> (at < tail ! j \<and> tail ! j < ?stop)"
          by (auto simp: find_Some_iff)
        have "d = e" unfolding e_def Some by simp
        moreover have "d < ?stop" using Some by (auto simp: find_Some_iff)
        ultimately have de: "d = e" "d < ?stop" .
        obtain j where j: "j < length tail" "tail ! j = c" using c(4) by (auto simp: in_set_conv_nth)
        have "\<not> i \<le> j" using sorted_nth_mono[OF assms(3), of i j] j i(2) lt de(1) by auto
        then have "\<not> (at < c \<and> c < ?stop)" using i(3) j(2) by auto
        then show False using c(2) lt de by auto
      qed
    qed
    obtain cuts where cuts: "cut_loop n bat tail e = Some cuts" "cuts_to n bat e cuts"
      "\<forall>c \<in> set tail. e < c \<and> c < n \<longrightarrow> c \<in> set cuts"
      using less.hyps[OF _ e(2)] e(1) True by (metis diff_less_mono2)
    have "cut_loop n bat tail at = Some (e # cuts)"
      by (subst cut_loop.simps) (simp only: True if_True Let_def e_def[symmetric] cuts(1) Option.bind.bind_lunit)
    moreover have "\<forall>c \<in> set tail. at < c \<and> c < n \<longrightarrow> c \<in> set (e # cuts)" using skip cuts(3) by auto
    ultimately show ?thesis using e cuts(2) by (intro exI[of _ "e # cuts"]) auto
  qed
qed

lemma prompt_cuts_ok:
  assumes "0 < bat"
  shows "\<exists>cuts. prompt_cuts n bat ubat rec = Some cuts \<and> cuts_to n bat 0 cuts \<and>
    (rec \<longrightarrow> (\<forall>r \<in> {min bat (4 + ubat), min bat 4}. r < n \<longrightarrow> n - r \<in> set cuts))"
proof -
  have s: "sorted (prompt_tail n bat ubat rec)" by (simp add: prompt_tail_def)
  obtain cuts where c: "prompt_cuts n bat ubat rec = Some cuts" "cuts_to n bat 0 cuts"
    "\<forall>c \<in> set (prompt_tail n bat ubat rec). 0 < c \<and> c < n \<longrightarrow> c \<in> set cuts"
    using cut_loop_ok[OF assms _ s, of 0 n] unfolding prompt_cuts_def by auto
  have "n - r \<in> set cuts" if "rec" "r \<in> {min bat (4 + ubat), min bat 4}" "r < n" for r
  proof -
    have "n - r \<in> set (prompt_tail n bat ubat rec)" using that by (auto simp: prompt_tail_def)
    moreover have "0 < n - r" "n - r < n" using that assms by auto
    ultimately show ?thesis using c(3) by blast
  qed
  then show ?thesis using c by blast
qed

text \<open>With batches of no tokens the loop does not move, so it returns only on an empty prompt.\<close>

lemma cut_loop_stuck:
  assumes "cut_loop n bat tail at = Some cuts"
  shows "bat = 0 \<longrightarrow> \<not> at < n"
proof (rule cut_loop.raw_induct[where P = "\<lambda>n bat tail at _. bat = 0 \<longrightarrow> \<not> at < n", OF _ assms])
  fix loop :: "nat \<Rightarrow> nat \<Rightarrow> nat list \<Rightarrow> nat \<Rightarrow> nat list option" and n bat tail at cuts
  assume ih: "\<And>n bat tail at y. loop n bat tail at = Some y \<Longrightarrow> bat = 0 \<longrightarrow> \<not> at < n"
    and body: "(if at < n then let end0 = min (at + bat) n;
        e = (case find (\<lambda>c. at < c \<and> c < end0) tail of None \<Rightarrow> end0 | Some c \<Rightarrow> c)
      in Option.bind (loop n bat tail e) (\<lambda>es. Some (e # es)) else Some []) = Some cuts"
  show "bat = 0 \<longrightarrow> \<not> at < n"
  proof (intro impI notI)
    assume z: "bat = 0" and less: "at < n"
    have m: "min (at + bat) n = at" using z less by simp
    have stop: "find (\<lambda>c. at < c \<and> c < at) tail = None" by (auto simp: find_None_iff)
    obtain cs where "loop n bat tail at = Some cs"
      using body less unfolding m Let_def stop by (auto simp: bind_eq_Some_conv)
    then show False using ih z less by blast
  qed
qed

lemma prompt_cuts_stuck: "0 < n \<Longrightarrow> prompt_cuts n 0 ubat rec = None"
  using cut_loop_stuck[where bat = 0] unfolding prompt_cuts_def by fastforce

lemma prompt_cuts_empty: "prompt_cuts 0 bat ubat rec = Some []"
  unfolding prompt_cuts_def by (subst cut_loop.simps) simp

section \<open>The contract of a model\<close>

definition coherent :: "'m model_ops \<Rightarrow> ('m \<Rightarrow> bool) \<Rightarrow> ('m \<Rightarrow> i32 list) \<Rightarrow> ('m \<Rightarrow> i32 list) \<Rightarrow> 'm \<Rightarrow> bool" where
  "coherent ops live cells state m \<longleftrightarrow> live m \<and> (recurrent ops m \<longrightarrow> state m = cells m)"

definition same_model :: "'m model_ops \<Rightarrow> ('m \<Rightarrow> bool) \<Rightarrow> ('m \<Rightarrow> i32 list \<Rightarrow> i32) \<Rightarrow> 'm \<Rightarrow> 'm \<Rightarrow> bool" where
  "same_model ops live choice m m' \<longleftrightarrow> recurrent ops m' = recurrent ops m \<and> rs_seq ops m' = rs_seq ops m \<and>
     n_ctx ops m' = n_ctx ops m \<and> is_eog ops m' = is_eog ops m \<and> live m' = live m \<and> choice m' = choice m"

lemma same_model_refl [simp]: "same_model ops live choice m m"
  by (simp add: same_model_def)

lemma same_model_trans: "same_model ops live choice a b \<Longrightarrow> same_model ops live choice b c \<Longrightarrow> same_model ops live choice a c"
  by (simp add: same_model_def)

locale greedy_model =
  fixes ops :: "'m model_ops" and live :: "'m \<Rightarrow> bool" and cells state :: "'m \<Rightarrow> i32 list"
    and choice :: "'m \<Rightarrow> i32 list \<Rightarrow> i32" and saved :: "bytes \<Rightarrow> i32 list \<Rightarrow> bool"
  assumes clear_ok: "cells (clear ops m) = []" "state (clear ops m) = []" "live (clear ops m) = live m"
    and ban_ok: "cells (ban_eog ops m on) = cells m" "state (ban_eog ops m on) = state m" "live (ban_eog ops m on) = live m"
    and decode_ok: "coherent ops live cells state m \<Longrightarrow> ts \<noteq> [] \<Longrightarrow> length (cells m) + length ts \<le> n_ctx ops m \<Longrightarrow>
      \<forall>i \<in> set want. i < length ts \<Longrightarrow>
      \<exists>m'. decode ops m ts (length (cells m)) want =
          Done (map (\<lambda>i. choice m (take (length (cells m) + i + 1) (cells m @ ts))) want, m') \<and>
        cells m' = cells m @ ts \<and> coherent ops live cells state m' \<and> same_model ops live choice m m'"
    and truncate_ok: "from \<le> length (cells m) \<Longrightarrow> (recurrent ops m \<Longrightarrow> length (state m) \<le> from + rs_seq ops m) \<Longrightarrow>
      \<exists>m'. truncate_to ops m from = (True, m') \<and> cells m' = take from (cells m) \<and>
        (recurrent ops m \<longrightarrow> state m' = take from (state m)) \<and> same_model ops live choice m m'"
    and checkpoint_ok: "\<exists>buf m'. checkpoint ops m = Inr (buf, m') \<and> saved buf (state m) \<and>
        cells m' = cells m \<and> state m' = state m \<and> same_model ops live choice m m'"
    and restore_ok: "saved buf s \<Longrightarrow>
      \<exists>m'. restore ops m buf = Inr m' \<and> cells m' = cells m \<and> state m' = s \<and> same_model ops live choice m m'"
begin

abbreviation good :: "'m \<Rightarrow> bool" where
  "good \<equiv> coherent ops live cells state"

abbreviation same :: "'m \<Rightarrow> 'm \<Rightarrow> bool" where
  "same \<equiv> same_model ops live choice"

lemma prefill_loop_ok:
  "cuts_to (length prompt) bat from cuts \<Longrightarrow> cells m = take from prompt \<Longrightarrow> good m \<Longrightarrow>
   length prompt \<le> n_ctx ops m \<Longrightarrow> from \<le> length prompt \<Longrightarrow>
   from = length prompt \<longrightarrow> nxt = choice m prompt \<Longrightarrow>
   \<exists>m'. prefill_loop ops prompt cuts from nxt m = Done (choice m prompt, m') \<and>
     cells m' = prompt \<and> good m' \<and> same m m'"
proof (induction cuts arbitrary: "from" nxt m)
  case Nil
  then show ?case by simp
next
  case (Cons e es)
  have e: "from < e" "e \<le> length prompt" "cuts_to (length prompt) bat e es" using Cons.prems(1) by auto
  let ?ts = "take (e - from) (drop from prompt)"
  let ?want = "if e = length prompt then [e - from - 1] else []"
  have ts: "?ts \<noteq> []" "length ?ts = e - from" using e by auto
  have lc: "length (cells m) = from" using Cons.prems(2,5) by simp
  have app: "cells m @ ?ts = take e prompt"
    using e(1) unfolding Cons.prems(2) by (metis le_add_diff_inverse less_imp_le_nat take_add)
  have room: "length (cells m) + length ?ts \<le> n_ctx ops m" using Cons.prems(4) lc ts(2) e by simp
  have want: "\<forall>i \<in> set ?want. i < length ?ts" using ts(2) e(1) by auto
  obtain m' where m': "decode ops m ?ts from ?want =
      Done (map (\<lambda>i. choice m (take (from + i + 1) (take e prompt))) ?want, m')"
    "cells m' = take e prompt" "good m'" "same m m'"
    using decode_ok[OF Cons.prems(3) ts(1) room want] unfolding app lc by blast
  have n: "length prompt \<le> n_ctx ops m'" and ch: "choice m' = choice m"
    using Cons.prems(4) m'(4) by (auto simp: same_model_def)
  show ?case
  proof (cases "e = length prompt")
    case True
    have t: "choice m (take (from + (e - from - 1) + 1) (take e prompt)) = choice m prompt" using True e(1) by simp
    obtain m2 where "prefill_loop ops prompt es e (choice m prompt) m' = Done (choice m prompt, m2)"
      "cells m2 = prompt" "good m2" "same m' m2"
      using Cons.IH[OF e(3) m'(2,3) n e(2), of "choice m prompt"] ch by auto
    moreover have "prefill_loop ops prompt (e # es) from nxt m =
        prefill_loop ops prompt es e (choice m prompt) m'"
      using m'(1) t True by (simp add: Let_def)
    ultimately show ?thesis using same_model_trans[OF m'(4)] by auto
  next
    case False
    obtain m2 where "prefill_loop ops prompt es e nxt m' = Done (choice m prompt, m2)"
      "cells m2 = prompt" "good m2" "same m' m2"
      using Cons.IH[OF e(3) m'(2,3) n e(2), of nxt] False ch by auto
    moreover have "prefill_loop ops prompt (e # es) from nxt m = prefill_loop ops prompt es e nxt m'"
      using m'(1) False by (simp add: Let_def)
    ultimately show ?thesis using same_model_trans[OF m'(4)] by auto
  qed
qed

lemma prefill_ok:
  assumes "cells m = []" "good m" "prompt \<noteq> []" "length prompt \<le> n_ctx ops m" "0 < fst (batch ops m)"
  shows "\<exists>m'. prefill ops m prompt = Done (choice m prompt, m') \<and> cells m' = prompt \<and> good m' \<and> same m m'"
proof -
  obtain bat ubat where b: "batch ops m = (bat, ubat)" by (cases "batch ops m")
  obtain cuts where cuts: "prompt_cuts (length prompt) bat ubat (recurrent ops m) = Some cuts"
    "cuts_to (length prompt) bat 0 cuts"
    using prompt_cuts_ok[of bat "length prompt" ubat "recurrent ops m"] assms(5) b by auto
  have "\<exists>m'. prefill_loop ops prompt cuts 0 0 m = Done (choice m prompt, m') \<and> cells m' = prompt \<and> good m' \<and> same m m'"
    by (rule prefill_loop_ok[OF cuts(2)]) (use assms in auto)
  then show ?thesis using b cuts(1) by (simp add: prefill_def)
qed

end

section \<open>Properties\<close>

text \<open>
  C22. The prompt's batches: for every positive batch size \<^verbatim>\<open>prompt_cuts\<close> ends, its cuts lead from 0
  to the end of the prompt in steps of one to \<open>bat\<close> tokens, and on a recurrent model the two
  places llama-server takes a checkpoint at are among them.  It fails to end exactly when the batch
  size is 0 and the prompt is not empty (nothing in the program forbids \<^verbatim>\<open>--batch 0\<close>).
\<close>

theorem prompt_cuts_cover:
  "case prompt_cuts n bat ubat rec of
     None \<Rightarrow> bat = 0 \<and> 0 < n
   | Some cuts \<Rightarrow> (0 < bat \<or> n = 0) \<and> cuts_to n bat 0 cuts \<and>
       (rec \<longrightarrow> (\<forall>r \<in> {min bat (4 + ubat), min bat 4}. r < n \<longrightarrow> n - r \<in> set cuts))"
proof -
  consider "0 < bat" | "bat = 0" "n = 0" | "bat = 0" "0 < n" by blast
  then show ?thesis
  proof cases
    case 1
    then show ?thesis using prompt_cuts_ok[OF 1, of n ubat rec] by auto
  qed (simp_all add: prompt_cuts_empty prompt_cuts_stuck)
qed

theorem prompt_cuts_cover_witness:
  "(\<exists>cuts. prompt_cuts 1300 512 256 True = Some cuts \<and> cuts_to 1300 512 0 cuts \<and> {1040, 1296} \<subseteq> set cuts) \<and>
    prompt_cuts 1300 0 256 True = None"
proof
  show "\<exists>cuts. prompt_cuts 1300 512 256 True = Some cuts \<and> cuts_to 1300 512 0 cuts \<and> {1040, 1296} \<subseteq> set cuts"
    using prompt_cuts_cover[where n = 1300 and bat = 512 and ubat = 256 and rec = True] by (cases "prompt_cuts 1300 512 256 True") auto
  show "prompt_cuts 1300 0 256 True = None"
    using prompt_cuts_cover[where n = 1300 and bat = 0 and ubat = 256 and rec = True] by (cases "prompt_cuts 1300 0 256 True") auto
qed

end
