(* ===== verification/Lossless.thy ===== *)
theory Lossless
  imports Prefill
begin

text \<open>
  Generation with drafts is greedy decoding: under the contract of a model, the loop of
  \<^verbatim>\<open>generate\<close> (\<^verbatim>\<open>host/crates/phi-pld/src/decode.rs\<close>) never fails, ends, and its output is the
  model's own greedy stream, whatever was drafted, rejected, carried or flushed.  The
  invariant ties the model's cells and the carried tokens to the decided context.
\<close>

section \<open>The greedy stream\<close>

text \<open>Plain greedy decoding: at most \<open>n\<close> tokens after \<open>c\<close>, up to an end-of-generation token.\<close>

fun greedy :: "(i32 list \<Rightarrow> i32) \<Rightarrow> (i32 \<Rightarrow> bool) \<Rightarrow> nat \<Rightarrow> i32 list \<Rightarrow> i32 list" where
  "greedy nx eg 0 c = []"
| "greedy nx eg (Suc n) c = (let t = nx c in t # (if eg t then [] else greedy nx eg n (c @ [t])))"

text \<open>Each token is the model's choice after the ones before it.\<close>

definition chosen :: "(i32 list \<Rightarrow> i32) \<Rightarrow> i32 list \<Rightarrow> i32 list \<Rightarrow> bool" where
  "chosen nx c ts \<longleftrightarrow> (\<forall>i < length ts. ts ! i = nx (c @ take i ts))"

lemma chosen_Nil [simp]: "chosen nx c []"
  by (simp add: chosen_def)

lemma chosen_append: "chosen nx c (ts @ us) \<longleftrightarrow> chosen nx c ts \<and> chosen nx (c @ ts) us"
proof
  assume l: "chosen nx c (ts @ us)"
  have "ts ! i = nx (c @ take i ts)" if "i < length ts" for i
    using l that unfolding chosen_def by (auto simp: nth_append dest: spec[of _ i])
  moreover have "us ! i = nx ((c @ ts) @ take i us)" if "i < length us" for i
    using l that unfolding chosen_def by (auto simp: nth_append dest: spec[of _ "length ts + i"])
  ultimately show "chosen nx c ts \<and> chosen nx (c @ ts) us" by (simp add: chosen_def)
next
  assume r: "chosen nx c ts \<and> chosen nx (c @ ts) us"
  show "chosen nx c (ts @ us)"
    unfolding chosen_def
  proof (intro allI impI)
    fix i assume i: "i < length (ts @ us)"
    show "(ts @ us) ! i = nx (c @ take i (ts @ us))"
    proof (cases "i < length ts")
      case True
      then show ?thesis using r by (simp add: chosen_def nth_append)
    next
      case False
      then have "i - length ts < length us" using i by simp
      then have "us ! (i - length ts) = nx ((c @ ts) @ take (i - length ts) us)"
        using r unfolding chosen_def by blast
      then show ?thesis using False by (simp add: nth_append)
    qed
  qed
qed

lemma chosen_one [simp]: "chosen nx c [t] \<longleftrightarrow> t = nx c"
  by (simp add: chosen_def)

lemma chosen_Cons: "chosen nx c (t # ts) \<longleftrightarrow> t = nx c \<and> chosen nx (c @ [t]) ts"
  using chosen_append[of nx c "[t]" ts] by simp

lemma chosen_greedy:
  assumes "chosen nx c ts" "\<forall>t \<in> set (butlast ts). \<not> eg t"
    "length ts = n \<or> length ts \<le> n \<and> ts \<noteq> [] \<and> eg (last ts)"
  shows "ts = greedy nx eg n c"
  using assms
proof (induction ts arbitrary: c n)
  case Nil
  then show ?case by simp
next
  case (Cons t ts)
  then obtain m where n: "n = Suc m" by (cases n) auto
  have t: "t = nx c" "chosen nx (c @ [t]) ts" using Cons.prems(1) by (auto simp: chosen_Cons)
  show ?case
  proof (cases "ts = []")
    case True
    then show ?thesis using Cons.prems(3) t n by (cases m) (auto simp: Let_def)
  next
    case False
    then have ne: "\<not> eg t" using Cons.prems(2) by simp
    have "ts = greedy nx eg m (c @ [t])"
      by (rule Cons.IH[OF t(2)]) (use Cons.prems False n in auto)
    then show ?thesis using t ne n by (simp add: Let_def)
  qed
qed

section \<open>The model's answer to a draft\<close>

lemma agree_ok:
  "length draft < length choice \<Longrightarrow> \<exists>j. agree draft choice = Some j \<and> j \<le> length draft \<and> take j draft = take j choice"
proof (induction draft choice rule: agree.induct)
  case (3 d ds c cs)
  show ?case
  proof (cases "c = d")
    case True
    then obtain j where "agree ds cs = Some j" "j \<le> length ds" "take j ds = take j cs" using 3 by auto
    then show ?thesis using True by auto
  next
    case False
    then show ?thesis by auto
  qed
qed auto

text \<open>The rows of a verified batch: the choice after the last token and each token of the draft.\<close>

definition rows_of :: "(i32 list \<Rightarrow> i32) \<Rightarrow> i32 list \<Rightarrow> i32 list \<Rightarrow> i32 list" where
  "rows_of nx c draft = map (\<lambda>r. nx (c @ take r draft)) [0 ..< Suc (length draft)]"

lemma rows_chosen:
  assumes "agree draft (rows_of nx c draft) = Some j"
  shows "j \<le> length draft" "chosen nx c (take j draft)" "j < length (rows_of nx c draft)"
    "rows_of nx c draft ! j = nx (c @ take j draft)"
proof -
  have l: "length (rows_of nx c draft) = Suc (length draft)" by (simp add: rows_of_def)
  obtain j' where j': "agree draft (rows_of nx c draft) = Some j'" "j' \<le> length draft"
    "take j' draft = take j' (rows_of nx c draft)"
    using agree_ok[of draft "rows_of nx c draft"] l by auto
  then have jj: "j' = j" using assms by simp
  show j: "j \<le> length draft" using j'(2) jj by simp
  have row: "rows_of nx c draft ! i = nx (c @ take i draft)" if "i \<le> length draft" for i
    using that unfolding rows_of_def by (subst nth_map) (auto simp del: upt_Suc)
  show "rows_of nx c draft ! j = nx (c @ take j draft)" by (rule row[OF j])
  show "j < length (rows_of nx c draft)" using l j by simp
  have "take j draft ! i = nx (c @ take i (take j draft))" if "i < j" for i
  proof -
    have "take j draft ! i = take j (rows_of nx c draft) ! i" using j'(3) jj by simp
    also have "\<dots> = nx (c @ take i draft)" using that j by (simp add: row)
    finally show ?thesis using that by (simp add: min_absorb1)
  qed
  then show "chosen nx c (take j draft)" using j by (simp add: chosen_def)
qed

section \<open>The context of the drafts\<close>

text \<open>
  The lookup and the context cache hold the decided context \<open>all\<close>; they never panic while it
  is short of 2^29 tokens.
\<close>

definition tracks :: "bool \<Rightarrow> i32 list \<Rightarrow> 'm gen \<Rightarrow> bool" where
  "tracks cached all g \<longleftrightarrow> lookup_inv (look g) \<and> tokens (look g) = all \<and> cache_ok (ctx g) \<and>
     cache_len (ctx g) \<le> 5 * length all \<and> (cached \<longrightarrow> hist g = all)"

lemma tracks_cong: "look g' = look g \<Longrightarrow> ctx g' = ctx g \<Longrightarrow> hist g' = hist g \<Longrightarrow> tracks c all g' = tracks c all g"
  by (simp add: tracks_def)

lemma cache_update_total:
  assumes "cache_ok c" "cache_len c + 5 * length us < 2 ^ 32"
  shows "\<exists>c'. cache_update c (ts @ us) (length us) nmin nmax = Some c' \<and> cache_ok c' \<and>
    cache_len c' \<le> cache_len c + 5 * length us"
proof -
  have ops: "length (update_ops (ts @ us) (length us) nmin nmax) \<le> 5 * length us" by (rule length_update_ops)
  then have "cache_len c + length (update_ops (ts @ us) (length us) nmin nmax) < 2 ^ 32" using assms(2) by simp
  from fs.upd_all_spec[OF assms(1) this] show ?thesis
    using ops unfolding cache_update_ops by fastforce
qed

lemma emit_ok:
  assumes t: "tracks cached all g" and n: "length all < 2 ^ 29"
  shows "\<exists>g'. emit cached t g = Done g' \<and> tracks cached (all @ [t]) g' \<and> emitted [t] g g' \<and> eog (out g') = eog (out g)"
proof -
  obtain l where l: "lookup_push (look g) t = Some l" "lookup_inv l" "tokens l = all @ [t]"
    using lookup_push_inv[of "look g" t] t by (auto simp: tracks_def)
  show ?thesis
  proof (cases cached)
    case False
    then show ?thesis using l t by (simp add: emit_def Let_def tracks_def emitted_def)
  next
    case True
    have "cache_ok (ctx g)" "cache_len (ctx g) + 5 * length [t] < 2 ^ 32" using t n by (auto simp: tracks_def)
    from cache_update_total[OF this, of all 1 NGRAM_MAX] obtain c where
      "cache_update (ctx g) (hist g @ [t]) 1 1 NGRAM_MAX = Some c" "cache_ok c" "cache_len c \<le> cache_len (ctx g) + 5"
      using True t by (auto simp: tracks_def)
    then show ?thesis using l t True by (simp add: emit_def Let_def tracks_def emitted_def)
  qed
qed

lemma emit_all_ok:
  "tracks cached all g \<Longrightarrow> length all + length ts \<le> 2 ^ 29 \<Longrightarrow>
   \<exists>stop us g'. emit_all ops cached ts g = Done (stop, g') \<and> tracks cached (all @ us) g' \<and> emitted us g g' \<and>
     (if stop then (\<exists>vs. ts = us @ vs) \<and> us \<noteq> [] \<and> is_eog ops (mdl g) (last us) \<and>
        (\<forall>t \<in> set (butlast us). \<not> is_eog ops (mdl g) t) \<and> eog (out g')
      else us = ts \<and> (\<forall>t \<in> set ts. \<not> is_eog ops (mdl g) t) \<and> eog (out g') = eog (out g))"
proof (induction ts arbitrary: all g)
  case Nil
  then show ?case by (intro exI[of _ False] exI[of _ "[]"] exI[of _ g]) (simp add: emitted_def)
next
  case (Cons t ts)
  have "length all < 2 ^ 29" using Cons.prems(2) by simp
  then obtain g1 where g1: "emit cached t g = Done g1" "tracks cached (all @ [t]) g1" "emitted [t] g g1"
    "eog (out g1) = eog (out g)"
    using emit_ok[OF Cons.prems(1)] by blast
  have m: "mdl g1 = mdl g" using g1(3) by (simp add: emitted_def)
  show ?case
  proof (cases "is_eog ops (mdl g) t")
    case True
    let ?g = "g1\<lparr>out := (out g1)\<lparr>eog := True\<rparr>\<rparr>"
    have "emit_all ops cached (t # ts) g = Done (True, ?g)" using g1(1) True m by simp
    moreover have "tracks cached (all @ [t]) ?g" using g1(2) by (simp add: tracks_def)
    moreover have "emitted [t] g ?g" using g1(3) by (simp add: emitted_def)
    ultimately show ?thesis using True by (intro exI[of _ True] exI[of _ "[t]"] exI[of _ ?g]) simp
  next
    case False
    have "length (all @ [t]) + length ts \<le> 2 ^ 29" using Cons.prems(2) by simp
    from Cons.IH[OF g1(2) this] obtain stop us g' where s: "emit_all ops cached ts g1 = Done (stop, g')"
      "tracks cached ((all @ [t]) @ us) g'" "emitted us g1 g'"
      "if stop then (\<exists>vs. ts = us @ vs) \<and> us \<noteq> [] \<and> is_eog ops (mdl g1) (last us) \<and>
        (\<forall>t \<in> set (butlast us). \<not> is_eog ops (mdl g1) t) \<and> eog (out g')
      else us = ts \<and> (\<forall>t \<in> set ts. \<not> is_eog ops (mdl g1) t) \<and> eog (out g') = eog (out g1)" by blast
    have e: "emit_all ops cached (t # ts) g = Done (stop, g')" using g1(1) s(1) False m by simp
    have em: "emitted (t # us) g g'" using g1(3) s(3) by (simp add: emitted_def)
    show ?thesis
      by (intro exI[of _ stop] exI[of _ "t # us"] exI[of _ g'])
        (use e em s(2,4) False m g1(4) in \<open>auto split: if_splits\<close>)
  qed
qed

lemma choose_draft_ok:
  assumes t: "tracks cached all g" and n: "length all < 2 ^ 32" and c: "drafts p \<noteq> Exact \<longrightarrow> cached"
    and d: "cache_ok dyn" "static_ok st"
  shows "\<exists>ds n ts. choose_draft p dyn st room g = Done (ds, n, ts)"
proof -
  have ng: "\<exists>d. ngram_draft (hist g) k 1 NGRAM_MAX (ctx g) dyn st = Some d" for k
    using ngram_loop_total[OF _ d, of "ctx g" 1 NGRAM_MAX] t
    by (auto simp: ngram_draft_def Let_def tracks_def)
  have ld: "\<exists>x. lookup_draft (look g) k = Some x" for k
  proof (cases "k = 0")
    case True
    then show ?thesis by (simp add: lookup_draft_def)
  next
    case False
    have "set (rev [lmin_n (look g) ..< Suc (lmax_n (look g))]) \<subseteq> {lmin_n (look g) .. lmax_n (look g)}" by auto
    from draft_ns_sound[OF _ this, of k] t n False show ?thesis
      by (auto simp: tracks_def lookup_draft_def)
  qed
  obtain e1 e2 where ex: "(if drafts p = Cache_only then Done ([], 0)
      else or_panic (lookup_draft (look g) (min (kk g) room))) = Done (e1, e2)"
    using ld[of "min (kk g) room"] by (cases "drafts p = Cache_only") auto
  obtain d where dd: "ngram_draft (hist g) (min (cache_k p) room) 1 NGRAM_MAX (ctx g) dyn st = Some d"
    using ng by blast
  show ?thesis unfolding choose_draft_def ex and_then.simps split_conv dd or_panic.simps by auto
qed

lemma choose_draft_off: "k_max p = 0 \<Longrightarrow> choose_draft p dyn st room g = Done (ds, n, ts) \<Longrightarrow> ds = []"
  by (simp add: choose_draft_def)

section \<open>Requests\<close>

text \<open>How many tokens a request yields, at least and at most, before an end-of-generation token.\<close>

definition limit_low :: "params \<Rightarrow> nat \<Rightarrow> nat \<Rightarrow> nat" where
  "limit_low p nctx n = max 1 (min (n_predict p) (nctx - n))"

definition limit_high :: "params \<Rightarrow> nat \<Rightarrow> nat \<Rightarrow> nat" where
  "limit_high p nctx n = min (max 1 (n_predict p)) (nctx + 1 - n)"

text \<open>What a request must be: its prompt fits the context, and the tables stay below 2^32 entries.\<close>

definition request_ok :: "'m model_ops \<Rightarrow> ('m \<Rightarrow> bool) \<Rightarrow> 'm \<Rightarrow> i32 list \<Rightarrow> params \<Rightarrow> caches \<Rightarrow> bool" where
  "request_ok ops live m1 prompt p cs \<longleftrightarrow> live m1 \<and> prompt \<noteq> [] \<and> length prompt \<le> n_ctx ops m1 \<and> n_ctx ops m1 < 2 ^ 29 \<and>
     0 < fst (batch ops m1) \<and> (adapt p \<longrightarrow> k_min p \<le> k_max p) \<and> cache_ok (dynamic_cache cs) \<and>
     static_ok (static_cache cs) \<and> cache_len (dynamic_cache cs) + 5 * (n_ctx ops m1 + 1) < 2 ^ 32"

lemma cache_merge_total:
  assumes "cache_ok a" "cache_len a + cache_len b < 2 ^ 32"
  shows "\<exists>c. cache_merge a b = Some c \<and> cache_ok c"
proof -
  let ?ops = "map (\<lambda>(k, p). (k, add_pairs (pairs p))) (centries b)"
  have "cache_len a + length ?ops < 2 ^ 32" using assms(2) by (simp add: cache_len_def)
  from fs.upd_all_spec[OF assms(1) this] show ?thesis by (auto simp: cache_merge_def merge_entries_ops)
qed

section \<open>The model and the carried tokens\<close>

context greedy_model
begin

text \<open>The cells and the carried tokens are the decided context \<open>pre\<close>.\<close>

definition held :: "'m \<Rightarrow> i32 list \<Rightarrow> 'm gen \<Rightarrow> bool" where
  "held m0 pre g \<longleftrightarrow> same m0 (mdl g) \<and> good (mdl g) \<and> cells (mdl g) @ pending g = pre \<and>
     (pending g \<noteq> [] \<longrightarrow> saved (ckpt g) (cells (mdl g)))"

lemma held_cong: "mdl g' = mdl g \<Longrightarrow> pending g' = pending g \<Longrightarrow> ckpt g' = ckpt g \<Longrightarrow> held m0 pre g' = held m0 pre g"
  by (simp add: held_def)

lemma held_emitted: "emitted us g g' \<Longrightarrow> held m0 pre g' = held m0 pre g"
  by (rule held_cong) (simp_all add: emitted_def)

lemma flush_ok:
  assumes h: "held m0 pre g" and pos: "gpos g = length pre" and room: "length pre \<le> n_ctx ops m0"
  shows "\<exists>g'. flush ops p draft g = Done g' \<and> held m0 pre g' \<and> look g' = look g \<and> ctx g' = ctx g \<and>
    hist g' = hist g \<and> gpos g' = gpos g \<and> kk g' = kk g \<and> cur g' = cur g \<and>
    otokens (out g') = otokens (out g) \<and> eog (out g') = eog (out g)"
proof (cases "draft \<noteq> [] \<and> pending g \<noteq> [] \<and> fold_max p < length (pending g) + 1 + length draft")
  case False
  then show ?thesis using h unfolding flush_def if_not_P[OF False] by auto
next
  case True
  have at: "gpos g - length (pending g) = length (cells (mdl g))"
    using h pos by (auto simp: held_def)
  have n: "length (cells (mdl g)) + length (pending g) \<le> n_ctx ops (mdl g)"
  proof -
    have "length (cells (mdl g)) + length (pending g) = length pre" using h by (auto simp: held_def)
    then show ?thesis using h room by (simp add: held_def same_model_def)
  qed
  obtain m' where m': "decode ops (mdl g) (pending g) (length (cells (mdl g))) [] = Done ([], m')"
    "cells m' = cells (mdl g) @ pending g" "good m'" "same (mdl g) m'"
    using decode_ok[of "mdl g" "pending g" "[]"] h True n by (auto simp: held_def)
  have "same m0 (mdl g)" using h by (simp add: held_def)
  then have "same m0 m'" using m'(4) by (rule same_model_trans)
  then show ?thesis unfolding flush_def if_P[OF True] at m'(1) and_then.simps
    using m'(2,3) h by (simp add: held_def)
qed

text \<open>Whatever was rejected, the context afterwards is the decided one.\<close>

lemma take_back_ok:
  assumes s: "same m0 (mdl g)" "good (mdl g)"
    and cs: "cells (mdl g) = base @ pend @ c # draft" and j: "j \<le> length draft"
    and pos: "gpos g = length (base @ pend)" and none: "pending g = []"
    and ck: "bounded \<Longrightarrow> saved (ckpt g) base"
    and bd: "bounded \<longleftrightarrow> recurrent ops (mdl g) \<and> rs_seq ops (mdl g) < length draft"
  shows "\<exists>g'. take_back ops bounded (length base) (length pend) (pend @ c # draft) (length draft) j g = Done g' \<and>
    held m0 (base @ pend @ c # take j draft) g' \<and> look g' = look g \<and> ctx g' = ctx g \<and> hist g' = hist g \<and>
    gpos g' = gpos g \<and> kk g' = kk g \<and> otokens (out g') = otokens (out g) \<and> eog (out g') = eog (out g)"
proof (cases "length draft \<le> j")
  case True
  then show ?thesis using s cs j none by (simp add: take_back_def held_def)
next
  case rej: False
  show ?thesis
  proof (cases bounded)
    case True
    obtain m1 where m1: "restore ops (mdl g) (ckpt g) = Inr m1" "cells m1 = cells (mdl g)" "state m1 = base"
      "same (mdl g) m1" using restore_ok[OF ck[OF True], of "mdl g"] by blast
    have le: "length base \<le> length (cells m1)" using m1(2) cs by simp
    have st: "length (state m1) \<le> length base + rs_seq ops m1" using m1(3) by simp
    obtain m2 where m2: "truncate_to ops m1 (length base) = (True, m2)"
      "cells m2 = take (length base) (cells m1)" "recurrent ops m1 \<longrightarrow> state m2 = take (length base) (state m1)"
      "same m1 m2" using truncate_ok[OF le st] by blast
    note sm = same_model_trans[OF same_model_trans[OF s(1) m1(4)] m2(4)]
    have "recurrent ops m1 = recurrent ops m2" using m2(4) by (simp add: same_model_def)
    moreover have "live m2" using s(2) m1(4) m2(4) by (simp add: coherent_def same_model_def)
    ultimately have "good m2" "cells m2 = base" using m2(2,3) m1(2,3) cs by (auto simp: coherent_def)
    then show ?thesis using rej True m1(1) m2(1) sm ck[OF True]
      by (simp add: take_back_def held_def)
  next
    case False
    let ?n = "gpos g + 1 + j"
    have le: "?n \<le> length (cells (mdl g))" using pos cs j by simp
    have st: "length (state (mdl g)) \<le> ?n + rs_seq ops (mdl g)" if "recurrent ops (mdl g)"
      using that s(2) cs pos False bd by (auto simp: coherent_def)
    obtain m2 where m2: "truncate_to ops (mdl g) ?n = (True, m2)" "cells m2 = take ?n (cells (mdl g))"
      "recurrent ops (mdl g) \<longrightarrow> state m2 = take ?n (state (mdl g))" "same (mdl g) m2"
      using truncate_ok[OF le st] by blast
    note sm = same_model_trans[OF s(1) m2(4)]
    have "good m2" using m2(2-4) s(2) by (auto simp: coherent_def same_model_def)
    moreover have "cells m2 = base @ pend @ c # take j draft" using m2(2) cs pos j by simp
    ultimately show ?thesis using rej False m2(1) sm none
      by (simp add: take_back_def held_def)
  qed
qed

text \<open>Where a step may leave the loop: going on, the invariant's pieces; stopped, at its end token.\<close>

definition went_on :: "'m \<Rightarrow> bool \<Rightarrow> i32 list \<Rightarrow> 'm gen \<Rightarrow> nat \<Rightarrow> 'm gen \<Rightarrow> bool" where
  "went_on m0 cached pre g n g' \<longleftrightarrow> (\<exists>us. otokens (out g') = otokens (out g) @ us \<and> length us \<le> n \<and>
     chosen (choice m0) pre us \<and> (\<forall>t \<in> set us. \<not> is_eog ops m0 t) \<and> tracks cached (pre @ us) g' \<and>
     held m0 (pre @ us) g' \<and> gpos g' = length (pre @ us) \<and> cur g' = choice m0 (pre @ us) \<and>
     eog (out g') = eog (out g))"

definition stopped :: "'m \<Rightarrow> bool \<Rightarrow> i32 list \<Rightarrow> 'm gen \<Rightarrow> nat \<Rightarrow> 'm gen \<Rightarrow> bool" where
  "stopped m0 cached pre g n g' \<longleftrightarrow> (\<exists>us. otokens (out g') = otokens (out g) @ us \<and> length us \<le> n \<and>
     us \<noteq> [] \<and> chosen (choice m0) pre us \<and> is_eog ops m0 (last us) \<and>
     (\<forall>t \<in> set (butlast us). \<not> is_eog ops m0 t) \<and> tracks cached (pre @ us) g' \<and> eog (out g'))"

lemma settle_ok:
  assumes s: "same m0 (mdl g)" "good (mdl g)"
    and cs: "cells (mdl g) = base @ pend @ c # draft" and pos: "gpos g = length (base @ pend)"
    and none: "pending g = []" and ck: "bounded \<Longrightarrow> saved (ckpt g) base"
    and bd: "bounded \<longleftrightarrow> recurrent ops (mdl g) \<and> rs_seq ops (mdl g) < length draft"
    and t: "tracks cached (base @ pend @ [c]) g" and n: "length (base @ pend @ [c]) + length draft \<le> 2 ^ 29"
    and k: "adapt p \<Longrightarrow> max (k_min p) 1 \<le> k_max p"
  shows "\<exists>r. settle ops p cached draft nn tiers bounded (length base) (length pend) (pend @ c # draft)
      (rows_of (choice m0) (base @ pend @ [c]) draft) g = Done r \<and>
    (case r of Again g' \<Rightarrow> went_on m0 cached (base @ pend @ [c]) g (length draft) g'
     | Stop g' \<Rightarrow> stopped m0 cached (base @ pend @ [c]) g (length draft) g')"
proof -
  let ?pre = "base @ pend @ [c]" and ?rows = "rows_of (choice m0) (base @ pend @ [c]) draft"
  have "length draft < length ?rows" by (simp add: rows_of_def)
  then obtain j where j: "agree draft ?rows = Some j" using agree_ok by blast
  note row = rows_chosen[OF j]
  let ?g = "g\<lparr>out := account nn tiers (length draft) j (out g)\<rparr>"
  have "\<exists>g'. take_back ops bounded (length base) (length pend) (pend @ c # draft) (length draft) j ?g = Done g' \<and>
    held m0 (base @ pend @ c # take j draft) g' \<and> look g' = look ?g \<and> ctx g' = ctx ?g \<and> hist g' = hist ?g \<and>
    gpos g' = gpos ?g \<and> kk g' = kk ?g \<and> otokens (out g') = otokens (out ?g) \<and> eog (out g') = eog (out ?g)"
    by (rule take_back_ok) (use s cs row(1) pos none ck bd in simp_all)
  then obtain g1 where g1: "take_back ops bounded (length base) (length pend) (pend @ c # draft) (length draft) j ?g = Done g1"
    "held m0 (base @ pend @ c # take j draft) g1" "look g1 = look g" "ctx g1 = ctx g" "hist g1 = hist g"
    "gpos g1 = gpos g" "otokens (out g1) = otokens (out g)" "eog (out g1) = eog (out g)"
    by auto
  have t1: "tracks cached ?pre g1" using t g1(3-5) by (simp add: tracks_def)
  have eg: "is_eog ops (mdl g1) = is_eog ops m0" using g1(2) by (simp add: held_def same_model_def)
  have "length ?pre + length (take j draft) \<le> 2 ^ 29" using n row(1) by simp
  from emit_all_ok[OF t1 this, of ops] obtain stop us g2 where
    e: "emit_all ops cached (take j draft) g1 = Done (stop, g2)" "tracks cached (?pre @ us) g2" "emitted us g1 g2" and
    st: "if stop then (\<exists>vs. take j draft = us @ vs) \<and> us \<noteq> [] \<and> is_eog ops m0 (last us) \<and>
        (\<forall>t \<in> set (butlast us). \<not> is_eog ops m0 t) \<and> eog (out g2)
      else us = take j draft \<and> (\<forall>t \<in> set (take j draft). \<not> is_eog ops m0 t) \<and> eog (out g2) = eog (out g1)"
    unfolding eg by blast
  have em: "otokens (out g2) = otokens (out g) @ us" "gpos g2 = gpos g" using e(3) g1(6,7) by (auto simp: emitted_def)
  show ?thesis
  proof (cases stop)
    case True
    let ?r = "g2\<lparr>gpos := gpos g2 + 1 + j, cur := ?rows ! j\<rparr>"
    obtain vs where vs: "take j draft = us @ vs" using st True by auto
    have "chosen (choice m0) ?pre us" using row(2) unfolding vs chosen_append by simp
    moreover have "length us \<le> length draft" using vs row(1) by (metis length_append length_take le_add1 min.cobounded1 order.trans)
    moreover have "tracks cached (?pre @ us) ?r" using e(2) by (simp add: tracks_def)
    ultimately have "stopped m0 cached ?pre g (length draft) ?r" using st True em by (auto simp: stopped_def)
    then show ?thesis using j g1(1) e(1) row(3) True
      by (intro exI[of _ "Stop ?r"]) (auto simp add: settle_Done)
  next
    case False
    have us: "us = take j draft" "\<forall>t \<in> set us. \<not> is_eog ops m0 t" "eog (out g2) = eog (out g)"
      using st False g1(8) by auto
    have "clamp (j + 1) (max (k_min p) 1) (k_max p) \<noteq> None" if "adapt p" using k[OF that] by (auto simp: clamp_def)
    then obtain k' where k': "adapt_k p tiers (length draft) j (kk g2) = Some k'"
      unfolding adapt_k_def by (cases "adapt p \<and> tiers = []"; cases "j = length draft") auto
    let ?r = "g2\<lparr>gpos := gpos g2 + 1 + j, cur := ?rows ! j, kk := k'\<rparr>"
    have "held m0 (?pre @ us) ?r" using g1(2) e(3) us(1) by (simp add: held_def emitted_def)
    moreover have "tracks cached (?pre @ us) ?r" using e(2) by (simp add: tracks_def)
    moreover have "gpos ?r = length (?pre @ us)" using em(2) pos us(1) row(1) by simp
    moreover have "cur ?r = choice m0 (?pre @ us)" using row(4) us(1) by simp
    ultimately have "went_on m0 cached ?pre g (length draft) ?r"
      unfolding went_on_def using us row(1,2) em(1) by (intro exI[of _ us]) simp
    then show ?thesis using j g1(1) e(1) row(3) False k'
      by (intro exI[of _ "Again ?r"]) (auto simp add: settle_Done)
  qed
qed

lemma went_on_cong:
  "otokens (out h) = otokens (out g) \<Longrightarrow> eog (out h) = eog (out g) \<Longrightarrow> went_on m0 cached pre h n g' = went_on m0 cached pre g n g'"
  "otokens (out h) = otokens (out g) \<Longrightarrow> stopped m0 cached pre h n g' = stopped m0 cached pre g n g'"
  by (simp_all add: went_on_def stopped_def)

lemma verify_ok:
  assumes h: "held m0 pre g" and pos: "gpos g = length pre"
    and t: "tracks cached (pre @ [cur g]) g"
    and room: "length pre + 1 + length draft \<le> n_ctx ops m0" and n: "n_ctx ops m0 < 2 ^ 29"
    and k: "draft \<noteq> [] \<Longrightarrow> adapt p \<Longrightarrow> max (k_min p) 1 \<le> k_max p"
  shows "\<exists>r. verify ops p cached draft nn tiers g = Done r \<and>
    (case r of Again g' \<Rightarrow> went_on m0 cached (pre @ [cur g]) g (length draft) g'
     | Stop g' \<Rightarrow> stopped m0 cached (pre @ [cur g]) g (length draft) g')"
proof -
  let ?base = "cells (mdl g)" and ?pend = "pending g" and ?c = "cur g"
  have sm: "same m0 (mdl g)" and gd: "good (mdl g)" and pre: "pre = ?base @ ?pend"
    using h by (auto simp: held_def)
  have at: "gpos g - length ?pend = length ?base" using pos pre by simp
  let ?g1 = "g\<lparr>pending := [], out := (out g)\<lparr>carried := carried (out g) + length ?pend\<rparr>\<rparr>"
  let ?seq = "?pend @ ?c # draft"
  have nc: "n_ctx ops (mdl g) = n_ctx ops m0" and ch: "choice (mdl g) = choice m0" using sm by (auto simp: same_model_def)
  have fits: "length ?base + length ?seq \<le> n_ctx ops (mdl g)" using room pre nc by simp
  show ?thesis
  proof (cases "draft = []")
    case True
    obtain m' where m': "decode ops (mdl g) ?seq (length ?base) [length ?pend] =
        Done (map (\<lambda>i. choice (mdl g) (take (length ?base + i + 1) (?base @ ?seq))) [length ?pend], m')"
      "cells m' = ?base @ ?seq" "good m'" "same (mdl g) m'"
      using decode_ok[OF gd _ fits, of "[length ?pend]"] by auto
    let ?r = "?g1\<lparr>mdl := m', cur := choice m0 (pre @ [?c]), gpos := gpos g + 1\<rparr>"
    have v: "verify ops p cached draft nn tiers g = Done (Again ?r)"
      unfolding verify_def Let_def at using m'(1) True by (simp add: ch pre)
    have "held m0 (pre @ [?c]) ?r" using m' True pre same_model_trans[OF sm m'(4)] by (simp add: held_def)
    moreover have "tracks cached (pre @ [?c]) ?r" using t by (simp add: tracks_def)
    ultimately have "went_on m0 cached (pre @ [?c]) g (length draft) ?r"
      using pos unfolding went_on_def by (intro exI[of _ "[]"]) simp
    then show ?thesis using v by (intro exI[of _ "Again ?r"]) simp
  next
    case False
    let ?bounded = "recurrent ops (mdl g) \<and> rs_seq ops (mdl g) < length draft"
    have "\<exists>g2. save_point ops (?bounded \<and> length ?pend = 0) ?g1 = Done g2 \<and> same (mdl g) (mdl g2) \<and> good (mdl g2) \<and>
      cells (mdl g2) = ?base \<and> pending g2 = [] \<and> gpos g2 = gpos g \<and> look g2 = look g \<and> ctx g2 = ctx g \<and> hist g2 = hist g \<and>
      otokens (out g2) = otokens (out g) \<and> eog (out g2) = eog (out g) \<and> (?bounded \<longrightarrow> saved (ckpt g2) ?base)"
    proof (cases "?bounded \<and> length ?pend = 0")
      case True
      obtain buf m1 where m1: "checkpoint ops (mdl g) = Inr (buf, m1)" "saved buf (state (mdl g))"
        "cells m1 = ?base" "state m1 = state (mdl g)" "same (mdl g) m1"
        using checkpoint_ok[of "mdl g"] by blast
      have "state (mdl g) = ?base" using gd True by (simp add: coherent_def)
      then show ?thesis using m1 gd unfolding save_point_def if_P[OF True]
        by (simp add: coherent_def same_model_def)
    next
      case False
      have "saved (ckpt g) ?base" if ?bounded using that False h by (auto simp: held_def)
      then show ?thesis using gd unfolding save_point_def if_not_P[OF False] by simp
    qed
    then obtain g2 where g2: "save_point ops (?bounded \<and> length ?pend = 0) ?g1 = Done g2" "same (mdl g) (mdl g2)"
      "good (mdl g2)" "cells (mdl g2) = ?base" "pending g2 = []" "gpos g2 = gpos g" "look g2 = look g" "ctx g2 = ctx g"
      "hist g2 = hist g" "otokens (out g2) = otokens (out g)" "eog (out g2) = eog (out g)"
      "?bounded \<longrightarrow> saved (ckpt g2) ?base" by blast
    let ?want = "[length ?pend ..< length ?seq]"
    have fits2: "length (cells (mdl g2)) + length ?seq \<le> n_ctx ops (mdl g2)"
      using fits g2(2,4) by (simp add: same_model_def)
    obtain m' where m': "decode ops (mdl g2) ?seq (length ?base) ?want =
        Done (map (\<lambda>i. choice (mdl g2) (take (length ?base + i + 1) (?base @ ?seq))) ?want, m')"
      "cells m' = ?base @ ?seq" "good m'" "same (mdl g2) m'"
      using decode_ok[OF g2(3) _ fits2, of ?want] unfolding g2(4) by auto
    have sm': "same m0 m'" using same_model_trans[OF same_model_trans[OF sm g2(2)] m'(4)] .
    have ch2: "choice (mdl g2) = choice m0" using g2(2) ch by (simp add: same_model_def)
    have rows: "map (\<lambda>i. choice (mdl g2) (take (length ?base + i + 1) (?base @ ?seq))) ?want =
        rows_of (choice m0) (?base @ ?pend @ [?c]) draft"
    proof (rule nth_equalityI)
      show "length (map (\<lambda>i. choice (mdl g2) (take (length ?base + i + 1) (?base @ ?seq))) ?want) =
          length (rows_of (choice m0) (?base @ ?pend @ [?c]) draft)" by (simp add: rows_of_def)
      fix i assume "i < length (map (\<lambda>i. choice (mdl g2) (take (length ?base + i + 1) (?base @ ?seq))) ?want)"
      then have i: "i < Suc (length draft)" by simp
      then have "?want ! i = length ?pend + i" "[0 ..< Suc (length draft)] ! i = i" by (auto simp del: upt_Suc)
      then show "map (\<lambda>i. choice (mdl g2) (take (length ?base + i + 1) (?base @ ?seq))) ?want ! i =
          rows_of (choice m0) (?base @ ?pend @ [?c]) draft ! i"
        using i unfolding rows_of_def by (simp add: ch2 del: upt_Suc)
    qed
    let ?h = "g2\<lparr>mdl := m'\<rparr>"
    define want where "want = ?want"
    have m1: "decode ops (mdl g2) ?seq (length ?base) want = Done (rows_of (choice m0) (?base @ ?pend @ [?c]) draft, m')"
      using m'(1) unfolding rows want_def .
    have v: "verify ops p cached draft nn tiers g =
      settle ops p cached draft nn tiers ?bounded (length ?base) (length ?pend) ?seq
        (rows_of (choice m0) (?base @ ?pend @ [?c]) draft) ?h"
      unfolding verify_def Let_def at want_def[symmetric] using g2(1) m1 False by simp
    have bd: "?bounded \<longleftrightarrow> recurrent ops (mdl ?h) \<and> rs_seq ops (mdl ?h) < length draft"
      using g2(2) m'(4) by (simp add: same_model_def)
    have n': "length (?base @ ?pend @ [?c]) + length draft \<le> 2 ^ 29" using room n pre by simp
    have "\<exists>r. settle ops p cached draft nn tiers ?bounded (length ?base) (length ?pend) ?seq
        (rows_of (choice m0) (?base @ ?pend @ [?c]) draft) ?h = Done r \<and>
      (case r of Again g' \<Rightarrow> went_on m0 cached (?base @ ?pend @ [?c]) ?h (length draft) g'
       | Stop g' \<Rightarrow> stopped m0 cached (?base @ ?pend @ [?c]) ?h (length draft) g')"
    proof (rule settle_ok)
      show "tracks cached (?base @ ?pend @ [?c]) ?h" using t g2(7-9) pre by (simp add: tracks_def)
    qed (use sm' m'(2,3) g2(5,6,12) pos pre bd n' k[OF False] in auto)
    then show ?thesis unfolding v pre append_assoc
      using g2(10,11) went_on_cong[of ?h g] by (auto split: loop_end.splits)
  qed
qed

section \<open>One iteration, and the loop\<close>

definition loop_inv :: "'m \<Rightarrow> bool \<Rightarrow> i32 list \<Rightarrow> 'm gen \<Rightarrow> bool" where
  "loop_inv m0 cached prompt g \<longleftrightarrow> (let ts = otokens (out g); all = prompt @ ts in
     tracks cached all g \<and> held m0 all g \<and> gpos g = length all \<and> cur g = choice m0 all \<and>
     chosen (choice m0) prompt ts \<and> (\<forall>t \<in> set ts. \<not> is_eog ops m0 t) \<and> \<not> eog (out g))"

text \<open>The output at the end: an end-of-generation token last, or a limit reached.\<close>

definition finished :: "'m \<Rightarrow> bool \<Rightarrow> params \<Rightarrow> i32 list \<Rightarrow> 'm gen \<Rightarrow> bool" where
  "finished m0 cached p prompt g \<longleftrightarrow> (let ts = otokens (out g) in
     tracks cached (prompt @ ts) g \<and> ts \<noteq> [] \<and> chosen (choice m0) prompt ts \<and>
     (\<forall>t \<in> set (butlast ts). \<not> is_eog ops m0 t) \<and> (eog (out g) \<longleftrightarrow> is_eog ops m0 (last ts)) \<and>
     length ts \<le> max 1 (n_predict p) \<and> length prompt + length ts \<le> n_ctx ops m0 + 1 \<and>
     (\<not> eog (out g) \<longrightarrow> n_predict p \<le> length ts \<or> n_ctx ops m0 \<le> length prompt + length ts))"

lemma butlast_snoc_clean: "\<forall>t \<in> set ts. \<not> P t \<Longrightarrow> us \<noteq> [] \<Longrightarrow> \<forall>t \<in> set (butlast us). \<not> P t \<Longrightarrow>
    \<forall>t \<in> set (butlast (ts @ us)). \<not> P t"
  by (auto simp: butlast_append)

lemma gen_step_ok:
  assumes i: "loop_inv m0 cached prompt g" and few: "otokens (out g) = [] \<or> length (otokens (out g)) < n_predict p"
    and fits: "length prompt + length (otokens (out g)) \<le> n_ctx ops m0" and n: "n_ctx ops m0 < 2 ^ 29"
    and k: "adapt p \<Longrightarrow> k_min p \<le> k_max p" and c: "drafts p \<noteq> Exact \<longrightarrow> cached"
    and d: "cache_ok dyn" "static_ok st"
  shows "\<exists>r. gen_step ops p cached dyn st (n_ctx ops m0) g = Done r \<and>
    (case r of Again g' \<Rightarrow> loop_inv m0 cached prompt g' \<and> length (otokens (out g')) < n_predict p \<and>
         length prompt + length (otokens (out g')) \<le> n_ctx ops m0
     | Stop g' \<Rightarrow> finished m0 cached p prompt g')"
proof -
  let ?ts = "otokens (out g)" and ?c = "cur g" and ?N = "n_ctx ops m0"
  let ?all = "prompt @ ?ts"
  have inv: "tracks cached ?all g" "held m0 ?all g" "gpos g = length ?all" "?c = choice m0 ?all"
    "chosen (choice m0) prompt ?ts" "\<forall>t \<in> set ?ts. \<not> is_eog ops m0 t" "\<not> eog (out g)"
    using i by (auto simp: loop_inv_def Let_def)
  have "length ?all < 2 ^ 29" using fits n by simp
  from emit_ok[OF inv(1) this] obtain g1 where g1: "emit cached ?c g = Done g1" "tracks cached (?all @ [?c]) g1"
    "emitted [?c] g g1" "eog (out g1) = eog (out g)" by blast
  have e1: "otokens (out g1) = ?ts @ [?c]" "gpos g1 = length ?all" "cur g1 = ?c" using g1(3) inv(3) by (auto simp: emitted_def)
  have h1: "held m0 ?all g1" using held_emitted[OF g1(3)] inv(2) by simp
  have eg: "is_eog ops (mdl g1) = is_eog ops m0" using h1 by (simp add: held_def same_model_def)
  have ch: "chosen (choice m0) prompt (?ts @ [?c])" using inv(4,5) by (simp add: chosen_append)
  have len: "length (?ts @ [?c]) \<le> max 1 (n_predict p)" using few by auto
  show ?thesis
  proof (cases "is_eog ops m0 ?c")
    case True
    let ?r = "g1\<lparr>out := (out g1)\<lparr>eog := True\<rparr>\<rparr>"
    have "gen_step ops p cached dyn st ?N g = Done (Stop ?r)" using g1(1) True eg e1(3) by (simp add: gen_step_def)
    moreover have "finished m0 cached p prompt ?r"
      unfolding finished_def Let_def using g1(2) e1(1) ch True inv(6) len fits
      by (auto simp: tracks_def butlast_append)
    ultimately show ?thesis by auto
  next
    case no: False
    show ?thesis
    proof (cases "n_predict p \<le> length (?ts @ [?c]) \<or> ?N \<le> gpos g1 + 1")
      case True
      have "gen_step ops p cached dyn st ?N g = Done (Stop g1)" using g1(1) True no eg e1 by (auto simp: gen_step_def)
      moreover have "finished m0 cached p prompt g1"
        unfolding finished_def Let_def using g1(2,4) e1 ch no True inv(6,7) len fits
        by (auto simp: butlast_append)
      ultimately show ?thesis by auto
    next
      case False
      let ?room = "min (n_predict p - length (?ts @ [?c]) - 1) (?N - gpos g1 - 1)"
      have l32: "length (?all @ [?c]) < 2 ^ 32" using fits n by simp
      obtain ds nn tiers where cd: "choose_draft p dyn st ?room g1 = Done (ds, nn, tiers)"
        using choose_draft_ok[OF g1(2) l32 c d] by blast
      let ?draft = "take ?room ds"
      have dl: "length ?draft \<le> ?room" unfolding length_take by (rule min.cobounded2)
      have fit1: "length ?all \<le> ?N" using fits by simp
      obtain g2 where g2: "flush ops p ?draft g1 = Done g2" "held m0 ?all g2" "look g2 = look g1" "ctx g2 = ctx g1"
        "hist g2 = hist g1" "gpos g2 = gpos g1" "cur g2 = cur g1" "otokens (out g2) = otokens (out g1)" "eog (out g2) = eog (out g1)"
        using flush_ok[OF h1 e1(2) fit1] by blast
      have t2: "tracks cached (?all @ [cur g2]) g2" using g1(2) g2(3-5,7) e1(3) by (simp add: tracks_def)
      have room: "length ?all + 1 + length ?draft \<le> ?N" using dl False e1(2) by linarith
      have kd: "max (k_min p) 1 \<le> k_max p" if "?draft \<noteq> []" "adapt p"
      proof -
        have "k_max p \<noteq> 0"
        proof
          assume "k_max p = 0"
          then have "ds = []" using cd by (rule choose_draft_off)
          then show False using that(1) by simp
        qed
        then show ?thesis using k[OF that(2)] by auto
      qed
      have pos2: "gpos g2 = length ?all" using g2(6) e1(2) by simp
      obtain r where v: "verify ops p cached ?draft nn (take ?room tiers) g2 = Done r"
        "case r of Again g' \<Rightarrow> went_on m0 cached (?all @ [cur g2]) g2 (length ?draft) g'
         | Stop g' \<Rightarrow> stopped m0 cached (?all @ [cur g2]) g2 (length ?draft) g'"
        using verify_ok[OF g2(2) pos2 t2 room n kd] by blast
      have step: "gen_step ops p cached dyn st ?N g = Done r"
        using g1(1) no False eg e1 cd g2(1) v(1) by (simp add: gen_step_def Let_def)
      have o2: "otokens (out g2) = ?ts @ [?c]" "cur g2 = ?c" "\<not> eog (out g2)" using g2(7-9) e1 g1(4) inv(7) by auto
      have np: "length (?ts @ [?c]) + length ?draft < n_predict p" using dl False by linarith
      have bounds: "length x < n_predict p" "length prompt + length x \<le> ?N"
        if x: "x = (?ts @ [?c]) @ us" and us: "length us \<le> length ?draft" for x us
      proof -
        have lx: "length x = length (?ts @ [?c]) + length us" unfolding x by simp
        have la: "length ?all + 1 = length prompt + length (?ts @ [?c])" by simp
        show "length x < n_predict p" unfolding lx using us np by linarith
        show "length prompt + length x \<le> ?N" unfolding lx using us room la by linarith
      qed
      show ?thesis
      proof (cases r)
        case (Again g')
        obtain us where us: "otokens (out g') = (?ts @ [?c]) @ us" "length us \<le> length ?draft"
          "chosen (choice m0) (?all @ [?c]) us" "\<forall>t \<in> set us. \<not> is_eog ops m0 t" "tracks cached ((?all @ [?c]) @ us) g'"
          "held m0 ((?all @ [?c]) @ us) g'" "gpos g' = length ((?all @ [?c]) @ us)"
          "cur g' = choice m0 ((?all @ [?c]) @ us)" "\<not> eog (out g')"
          using v(2) Again o2 by (auto simp: went_on_def)
        have "chosen (choice m0) prompt (otokens (out g'))"
          using ch us(1,3) chosen_append[of "choice m0" prompt "?ts @ [?c]" us] by simp
        then have "loop_inv m0 cached prompt g'"
          unfolding loop_inv_def Let_def using us inv(6) no by auto
        moreover note bounds[OF us(1,2)]
        ultimately show ?thesis using step Again by auto
      next
        case (Stop g')
        obtain us where us: "otokens (out g') = (?ts @ [?c]) @ us" "length us \<le> length ?draft" "us \<noteq> []"
          "chosen (choice m0) (?all @ [?c]) us" "is_eog ops m0 (last us)" "\<forall>t \<in> set (butlast us). \<not> is_eog ops m0 t"
          "tracks cached ((?all @ [?c]) @ us) g'" "eog (out g')"
          using v(2) Stop o2 by (auto simp: stopped_def)
        have "chosen (choice m0) prompt (otokens (out g'))"
          using ch us(1,4) chosen_append[of "choice m0" prompt "?ts @ [?c]" us] by simp
        moreover have "\<forall>t \<in> set (butlast (otokens (out g'))). \<not> is_eog ops m0 t"
          unfolding us(1) by (rule butlast_snoc_clean[OF _ us(3,6)]) (use inv(6) no in auto)
        moreover have "last (otokens (out g')) = last us" using us(1,3) by simp
        moreover have "length (otokens (out g')) \<le> max 1 (n_predict p)" using bounds(1)[OF us(1,2)] by simp
        moreover have "length prompt + length (otokens (out g')) \<le> ?N + 1" using bounds(2)[OF us(1,2)] by simp
        moreover have "tracks cached (prompt @ otokens (out g')) g'" using us(1,7) by simp
        ultimately have "finished m0 cached p prompt g'"
          unfolding finished_def Let_def using us(1,3,5,8) by auto
        then show ?thesis using step Stop by auto
      qed
    qed
  qed
qed

lemma gen_loop_ok:
  assumes n: "n_ctx ops m0 < 2 ^ 29" and k: "adapt p \<Longrightarrow> k_min p \<le> k_max p"
    and c: "drafts p \<noteq> Exact \<longrightarrow> cached" and d: "cache_ok dyn" "static_ok st"
  shows "loop_inv m0 cached prompt g \<Longrightarrow> otokens (out g) = [] \<or> length (otokens (out g)) < n_predict p \<Longrightarrow>
    length prompt + length (otokens (out g)) \<le> n_ctx ops m0 \<Longrightarrow>
    \<exists>g'. gen_loop ops p cached dyn st (n_ctx ops m0) g = Done g' \<and> finished m0 cached p prompt g'"
proof (induction "n_predict p - length (otokens (out g))" arbitrary: g rule: less_induct)
  case less
  obtain r where r: "gen_step ops p cached dyn st (n_ctx ops m0) g = Done r"
    "case r of Again g' \<Rightarrow> loop_inv m0 cached prompt g' \<and> length (otokens (out g')) < n_predict p \<and>
         length prompt + length (otokens (out g')) \<le> n_ctx ops m0
     | Stop g' \<Rightarrow> finished m0 cached p prompt g'"
    using gen_step_ok[OF less.prems n k c d] by blast
  show ?case
  proof (cases r)
    case (Stop g')
    then show ?thesis using r by (subst gen_loop.simps) simp
  next
    case (Again g')
    have smaller: "n_predict p - length (otokens (out g')) < n_predict p - length (otokens (out g))"
      using gen_step_progress r(1) Again by blast
    obtain g2 where "gen_loop ops p cached dyn st (n_ctx ops m0) g' = Done g2" "finished m0 cached p prompt g2"
      using less.hyps[OF smaller] r(2) Again by auto
    then show ?thesis using r(1) Again by (subst gen_loop.simps) simp
  qed
qed

section \<open>A whole request\<close>

lemma finished_greedy:
  assumes f: "finished m0 cached p prompt g" and n: "length prompt \<le> n_ctx ops m0"
  shows "\<exists>k. limit_low p (n_ctx ops m0) (length prompt) \<le> k \<and> k \<le> limit_high p (n_ctx ops m0) (length prompt) \<and>
    otokens (out g) = greedy (choice m0) (is_eog ops m0) k prompt"
proof -
  let ?ts = "otokens (out g)" and ?lo = "limit_low p (n_ctx ops m0) (length prompt)"
  let ?hi = "limit_high p (n_ctx ops m0) (length prompt)"
  have F: "?ts \<noteq> []" "chosen (choice m0) prompt ?ts" "\<forall>t \<in> set (butlast ?ts). \<not> is_eog ops m0 t"
    "eog (out g) \<longleftrightarrow> is_eog ops m0 (last ?ts)" "length ?ts \<le> ?hi"
    "\<not> eog (out g) \<longrightarrow> n_predict p \<le> length ?ts \<or> n_ctx ops m0 \<le> length prompt + length ?ts"
    using f n by (auto simp: finished_def Let_def limit_high_def)
  have lohi: "?lo \<le> ?hi" using n by (auto simp: limit_low_def limit_high_def)
  show ?thesis
  proof (cases "eog (out g)")
    case True
    have "?ts = greedy (choice m0) (is_eog ops m0) ?hi prompt"
      by (rule chosen_greedy[OF F(2,3)]) (use F True in auto)
    then show ?thesis using lohi by blast
  next
    case False
    have "?ts = greedy (choice m0) (is_eog ops m0) (length ?ts) prompt"
      by (rule chosen_greedy[OF F(2,3)]) simp
    moreover have "1 \<le> length ?ts" using F(1) by (cases ?ts) auto
    then have "?lo \<le> length ?ts" using F(6) False by (auto simp: limit_low_def)
    ultimately show ?thesis using F(5) by blast
  qed
qed

lemma generate_ok:
  assumes m1: "m1 = ban_eog ops (clear ops m0) (ignore_eos p)" and r: "request_ok ops live m1 prompt p cs"
  shows "\<exists>o' m' cs' k. generate ops m0 prompt p cs = Done (o', m', cs') \<and> cache_ok (dynamic_cache cs') \<and>
    static_cache cs' = static_cache cs \<and>
    limit_low p (n_ctx ops m1) (length prompt) \<le> k \<and> k \<le> limit_high p (n_ctx ops m1) (length prompt) \<and>
    otokens o' = greedy (choice m1) (is_eog ops m1) k prompt"
proof -
  let ?N = "n_ctx ops m1" and ?lrn = "learn cs \<and> plearn p"
  let ?st = "if use_static p then static_cache cs else static_default"
  let ?cached = "drafts p \<noteq> Exact \<or> ?lrn"
  note R = r[unfolded request_ok_def]
  have m10: "cells m1 = []" "good m1" using clear_ok ban_ok R by (simp_all add: m1 coherent_def)
  have "prompt \<noteq> []" "length prompt \<le> ?N" "0 < fst (batch ops m1)" using R by simp_all
  from prefill_ok[OF m10 this] obtain m2 where m2: "prefill ops m1 prompt = Done (choice m1 prompt, m2)" "cells m2 = prompt" "good m2" "same m1 m2"
    by blast
  obtain l where l: "lookup_extend (lookup_new (min_n p) (max_n p) (ppick p)) prompt = Some l" "lookup_inv l"
    "tokens l = prompt"
    using lookup_extend_inv[OF lookup_new_inv, of "min_n p" "max_n p" "ppick p" prompt]
    by (auto simp: lookup_new_def Let_def)
  have ok0: "cache_ok cache_new" "cache_len cache_new = 0" using fs.none_ok by auto
  have "cache_len cache_new + 5 * length prompt < 2 ^ 32" using R ok0 by simp
  from cache_update_total[OF ok0(1) this, of "[]" 1 NGRAM_MAX]
  obtain c where c: "(if ?cached then cache_update cache_new prompt (length prompt) 1 NGRAM_MAX else Some cache_new) = Some c"
    "cache_ok c" "cache_len c \<le> 5 * length prompt"
    using ok0 by (cases ?cached) auto
  let ?g = "\<lparr>mdl = m2, out = outcome_new (length prompt), look = l, hist = (if ?cached then prompt else []),
         ctx = c, gpos = length prompt, pending = [], kk = start_k p, ckpt = [], cur = choice m1 prompt\<rparr>"
  have inv: "loop_inv m1 ?cached prompt ?g"
    using l c(2,3) m2 by (auto simp: loop_inv_def Let_def outcome_new_def tracks_def held_def)
  have st: "static_ok ?st" using R static_ok_default by simp
  have cd: "drafts p \<noteq> Exact \<longrightarrow> ?cached" by simp
  have fits: "length prompt + length (otokens (out ?g)) \<le> ?N" and few: "otokens (out ?g) = [] \<or> length (otokens (out ?g)) < n_predict p"
    using R by (simp_all add: outcome_new_def)
  have N: "?N < 2 ^ 29" and kk: "adapt p \<Longrightarrow> k_min p \<le> k_max p" and dy: "cache_ok (dynamic_cache cs)" using R by auto
  obtain g where g: "gen_loop ops p ?cached (dynamic_cache cs) ?st ?N ?g = Done g" "finished m1 ?cached p prompt g"
    using gen_loop_ok[OF N kk cd dy st inv few fits] by blast
  have cl: "cache_ok (ctx g)" "cache_len (ctx g) \<le> 5 * (?N + 1)"
    using g(2) by (auto simp: finished_def Let_def tracks_def)
  have "\<exists>cs'. learn_into ?lrn (ctx g) cs = Some cs' \<and> cache_ok (dynamic_cache cs') \<and> static_cache cs' = static_cache cs"
  proof (cases "?lrn \<and> \<not> cache_is_empty (ctx g)")
    case True
    have "cache_len (dynamic_cache cs) + cache_len (ctx g) < 2 ^ 32" using R cl(2) by linarith
    from cache_merge_total[OF dy this] show ?thesis unfolding learn_into_def if_P[OF True] by auto
  next
    case False
    then show ?thesis using dy unfolding learn_into_def if_not_P[OF False] by auto
  qed
  then obtain cs' where cs': "learn_into ?lrn (ctx g) cs = Some cs'" "cache_ok (dynamic_cache cs')"
    "static_cache cs' = static_cache cs" by blast
  have "generate ops m0 prompt p cs = Done (out g, mdl g, cs')"
    unfolding generate_def Let_def m1[symmetric] m2(1) and_then.simps split_conv l(1) or_panic.simps c(1) g(1) cs'(1) ..
  moreover have "length prompt \<le> ?N" using R by simp
  ultimately show ?thesis using finished_greedy[OF g(2)] cs'(2,3) by blast
qed

end

end
