(* ===== verification/Sim.thy ===== *)
theory Sim
  imports Lossless
begin

text \<open>
  The replay of a known output, \<^verbatim>\<open>host/crates/phi-pld/src/sim.rs\<close>: a \<^verbatim>\<open>Model\<close> whose cells and
  recurrent state are the tokens in them, which fails any decode that does not continue its
  context.  It keeps the contract \<open>greedy_model\<close>, so \<open>simulate\<close> returns the replayed output
  for every drafting policy.  The arithmetic of \<^verbatim>\<open>f64\<close> (prices in milliseconds) is a
  parameter: a record of its operations.
\<close>

section \<open>Prices\<close>

record 'f f64_ops =
  fadd :: "'f \<Rightarrow> 'f \<Rightarrow> 'f"
  fsub :: "'f \<Rightarrow> 'f \<Rightarrow> 'f"
  fmul :: "'f \<Rightarrow> 'f \<Rightarrow> 'f"
  fdiv :: "'f \<Rightarrow> 'f \<Rightarrow> 'f"
  f_of_nat :: "nat \<Rightarrow> 'f"

record 'f cost =
  cdecode :: "(nat \<times> 'f) list"
  ccheckpoint :: 'f
  crestore :: 'f

fun position :: "('a \<Rightarrow> bool) \<Rightarrow> 'a list \<Rightarrow> nat option" where
  "position P [] = None"
| "position P (x # xs) = (if P x then Some 0 else map_option Suc (position P xs))"

definition decode_ms :: "'f f64_ops \<Rightarrow> 'f cost \<Rightarrow> nat \<Rightarrow> 'f option" where
  "decode_ms F c n =
     (let d = cdecode c in
      if d = [] then None
      else let i = min (max (case position (\<lambda>mt. n \<le> fst mt) d of Some i \<Rightarrow> i | None \<Rightarrow> length d - 1) 1) (length d - 1) in
        if length d = 1
        then Some (fdiv F (fmul F (snd (d ! 0)) (f_of_nat F n)) (f_of_nat F (fst (d ! 0))))
        else (case (d ! (i - 1), d ! i) of ((n0, t0), (n1, t1)) \<Rightarrow>
          Some (fadd F t0 (fdiv F (fmul F (fsub F t1 t0) (fsub F (f_of_nat F n) (f_of_nat F n0)))
                                  (fsub F (f_of_nat F n1) (f_of_nat F n0))))))"

section \<open>The replay\<close>

record 'f replay =
  full :: "i32 list"
  rprompt_n :: nat
  reog :: "i32 list"
  rrecurrent :: bool
  rrs_seq :: nat
  rn_ctx :: nat
  rbatch :: "nat \<times> nat"
  rcells :: "i32 list"
  rstate :: "i32 list"
  rcost :: "'f cost"
  ms :: 'f
  calls :: nat
  columns :: nat

definition replay_new :: "'f f64_ops \<Rightarrow> i32 list \<Rightarrow> i32 list \<Rightarrow> i32 list \<Rightarrow> bool \<Rightarrow> nat \<Rightarrow> 'f cost \<Rightarrow> 'f replay" where
  "replay_new F prompt output eogs rec rs c =
     \<lparr>full = prompt @ output, rprompt_n = length prompt, reog = eogs, rrecurrent = rec, rrs_seq = rs,
      rn_ctx = length (prompt @ output) + 1, rbatch = (512, 512), rcells = [], rstate = [], rcost = c,
      ms = f_of_nat F 0, calls = 0, columns = 0\<rparr>"

definition replay_clear :: "'f replay \<Rightarrow> 'f replay" where
  "replay_clear r = r\<lparr>rcells := [], rstate := []\<rparr>"

definition replay_row :: "'f replay \<Rightarrow> nat \<Rightarrow> nat \<Rightarrow> i32" where
  "replay_row r ok q = (if q < ok then (if q + 1 < length (full r) then full r ! (q + 1) else - 1) else - 1)"

definition replay_decode :: "'f f64_ops \<Rightarrow> 'f replay \<Rightarrow> i32 list \<Rightarrow> nat \<Rightarrow> nat list \<Rightarrow> (i32 list \<times> 'f replay) run" where
  "replay_decode F r toks pos0 want =
     (if pos0 \<noteq> length (rcells r) then Failed (Model_error ''a decode away from the end of the context'')
      else if \<not> (\<not> rrecurrent r \<or> rstate r = rcells r)
      then Failed (Model_error ''the recurrent state does not match the cells'')
      else let r1 = r\<lparr>rcells := rcells r @ toks, rstate := (if rrecurrent r then rstate r @ toks else rstate r)\<rparr>;
               ok = length (takeWhile (\<lambda>(a, b). a = b) (zip (rcells r1) (full r1)));
               rows = map (\<lambda>i. replay_row r1 ok (pos0 + i)) want in
        if rprompt_n r \<le> pos0
        then and_then (or_panic (decode_ms F (rcost r) (length toks))) (\<lambda>t.
               Done (rows, r1\<lparr>ms := fadd F (ms r1) t, calls := calls r1 + 1, columns := columns r1 + length toks\<rparr>))
        else Done (rows, r1))"

definition replay_truncate :: "'f replay \<Rightarrow> nat \<Rightarrow> bool \<times> 'f replay" where
  "replay_truncate r from =
     (if rrecurrent r \<and> from < length (rstate r) then
        if rrs_seq r < length (rstate r) - from then (False, r)
        else (True, r\<lparr>rstate := take from (rstate r), rcells := take from (rcells r)\<rparr>)
      else (True, r\<lparr>rcells := take from (rcells r)\<rparr>))"

definition replay_checkpoint :: "'f f64_ops \<Rightarrow> 'f replay \<Rightarrow> string + bytes \<times> 'f replay" where
  "replay_checkpoint F r =
     Inr (concat (map le_bytes32 (rstate r)), r\<lparr>ms := fadd F (ms r) (ccheckpoint (rcost r))\<rparr>)"

text \<open>\<^verbatim>\<open>chunks_exact(4)\<close>: a shorter rest is dropped.\<close>

fun chunks4 :: "bytes \<Rightarrow> i32 list" where
  "chunks4 (a # b # c # d # bs) = of_le_bytes32 [a, b, c, d] # chunks4 bs"
| "chunks4 _ = []"

definition replay_restore :: "'f f64_ops \<Rightarrow> 'f replay \<Rightarrow> bytes \<Rightarrow> string + 'f replay" where
  "replay_restore F r buf = Inr (r\<lparr>rstate := chunks4 buf, ms := fadd F (ms r) (crestore (rcost r))\<rparr>)"

definition replay_ops :: "'f f64_ops \<Rightarrow> 'f replay model_ops" where
  "replay_ops F = \<lparr>recurrent = rrecurrent, rs_seq = rrs_seq, n_ctx = rn_ctx, batch = rbatch,
     is_eog = (\<lambda>r t. t \<in> set (reog r)), ban_eog = (\<lambda>r on. r), clear = replay_clear,
     decode = replay_decode F, truncate_to = replay_truncate,
     checkpoint = replay_checkpoint F, restore = replay_restore F\<rparr>"

definition simulate :: "'f f64_ops \<Rightarrow> 'f replay \<Rightarrow> i32 list \<Rightarrow> i32 list \<Rightarrow> params \<Rightarrow> caches \<Rightarrow> (outcome \<times> 'f replay \<times> caches) run" where
  "simulate F r prompt output p cs =
     and_then (generate (replay_ops F) r prompt p cs) (\<lambda>(o1, r1, cs1).
       if otokens o1 = output then Done (o1, r1, cs1)
       else Failed (Left_output (length (takeWhile (\<lambda>(a, b). a = b) (zip (otokens o1) output)))))"

section \<open>The replay keeps the contract of a model\<close>

text \<open>The replay's choice after a context: the next known token where the context is the known one.\<close>

definition replay_choice :: "'f replay \<Rightarrow> i32 list \<Rightarrow> i32" where
  "replay_choice r c = (if take (length c) (full r) = c \<and> length c < length (full r) then full r ! length c else - 1)"

lemma takeWhile_zip_eq:
  "q < length (takeWhile (\<lambda>(a, b). a = b) (zip xs ys)) \<longleftrightarrow>
   q < length xs \<and> q < length ys \<and> take (Suc q) xs = take (Suc q) ys"
proof (induction xs arbitrary: ys q)
  case (Cons x xs)
  show ?case
  proof (cases ys)
    case (Cons y ys')
    then show ?thesis using Cons.IH[of _ ys'] by (cases q) auto
  qed simp
qed simp

lemma replay_row_choice:
  assumes "q < length (rcells r)"
  shows "replay_row r (length (takeWhile (\<lambda>(a, b). a = b) (zip (rcells r) (full r)))) q =
    replay_choice r (take (Suc q) (rcells r))"
proof -
  have l: "length (take (Suc q) (rcells r)) = Suc q" using assms by simp
  show ?thesis
  proof (cases "q < length (full r) \<and> take (Suc q) (rcells r) = take (Suc q) (full r)")
    case True
    then show ?thesis unfolding replay_row_def replay_choice_def takeWhile_zip_eq l using assms by simp
  next
    case False
    then have "\<not> (take (Suc q) (full r) = take (Suc q) (rcells r) \<and> Suc q < length (full r))" by auto
    then show ?thesis unfolding replay_row_def replay_choice_def takeWhile_zip_eq l using False by auto
  qed
qed

lemma replay_choice_cong: "full r' = full r \<Longrightarrow> replay_choice r' = replay_choice r"
  by (simp add: replay_choice_def fun_eq_iff)

lemma chunks4_le: "chunks4 (concat (map le_bytes32 ts)) = ts"
proof (induction ts)
  case (Cons t ts)
  have "chunks4 (le_bytes32 t @ bs) = t # chunks4 bs" for bs
    using of_le_le_bytes32[of t] by (simp add: le_bytes32_def)
  then show ?case using Cons by simp
qed simp

lemma decode_ms_total: "cdecode c \<noteq> [] \<Longrightarrow> \<exists>t. decode_ms F c n = Some t"
  by (auto simp: decode_ms_def Let_def split: prod.splits)

text \<open>A price table must not be empty (\<open>decode_ms\<close> panics).\<close>

definition priced :: "'f replay \<Rightarrow> bool" where
  "priced r \<longleftrightarrow> cdecode (rcost r) \<noteq> []"

definition replay_saved :: "bytes \<Rightarrow> i32 list \<Rightarrow> bool" where
  "replay_saved buf s \<longleftrightarrow> buf = concat (map le_bytes32 s)"

abbreviation replay_good :: "'f f64_ops \<Rightarrow> 'f replay \<Rightarrow> bool" where
  "replay_good F \<equiv> coherent (replay_ops F) priced rcells rstate"

abbreviation replay_same :: "'f f64_ops \<Rightarrow> 'f replay \<Rightarrow> 'f replay \<Rightarrow> bool" where
  "replay_same F \<equiv> same_model (replay_ops F) priced replay_choice"

lemma replay_sameI:
  assumes "full r' = full r" "rrecurrent r' = rrecurrent r" "rrs_seq r' = rrs_seq r" "rn_ctx r' = rn_ctx r"
    "reog r' = reog r" "rcost r' = rcost r"
  shows "replay_same F r r'"
  using assms by (simp add: same_model_def replay_ops_def priced_def replay_choice_cong[OF assms(1)])

lemma replay_decode_ok:
  assumes g: "replay_good F r" and w: "\<forall>i \<in> set want. i < length ts"
  shows "\<exists>r'. replay_decode F r ts (length (rcells r)) want =
      Done (map (\<lambda>i. replay_choice r (take (length (rcells r) + i + 1) (rcells r @ ts))) want, r') \<and>
    rcells r' = rcells r @ ts \<and> replay_good F r' \<and> replay_same F r r'"
proof -
  let ?r1 = "r\<lparr>rcells := rcells r @ ts, rstate := (if rrecurrent r then rstate r @ ts else rstate r)\<rparr>"
  let ?ok = "length (takeWhile (\<lambda>(a, b). a = b) (zip (rcells ?r1) (full ?r1)))"
  have g': "priced r" "rrecurrent r \<longrightarrow> rstate r = rcells r"
    using g by (simp_all add: coherent_def replay_ops_def)
  have row: "replay_row ?r1 ?ok (length (rcells r) + i) = replay_choice r (take (length (rcells r) + i + 1) (rcells r @ ts))"
    if "i \<in> set want" for i
  proof -
    have "length (rcells r) + i < length (rcells ?r1)" using w that by simp
    from replay_row_choice[OF this] show ?thesis by (simp add: replay_choice_cong[of ?r1 r])
  qed
  then have rows: "map (\<lambda>i. replay_row ?r1 ?ok (length (rcells r) + i)) want =
      map (\<lambda>i. replay_choice r (take (length (rcells r) + i + 1) (rcells r @ ts))) want" by (simp cong: map_cong)
  have coh: "replay_good F (?r1\<lparr>ms := a, calls := b, columns := c\<rparr>)" "replay_good F ?r1" for a b c
    using g' by (simp_all add: coherent_def replay_ops_def priced_def)
  obtain t where t: "decode_ms F (rcost r) (length ts) = Some t"
    using decode_ms_total[of "rcost r" F "length ts"] g'(1) by (auto simp: priced_def)
  note dec = replay_decode_def[of F r ts "length (rcells r)" want, unfolded Let_def rows]
  show ?thesis
  proof (cases "rprompt_n r \<le> length (rcells r)")
    case True
    let ?r2 = "?r1\<lparr>ms := fadd F (ms ?r1) t, calls := calls ?r1 + 1, columns := columns ?r1 + length ts\<rparr>"
    have "replay_decode F r ts (length (rcells r)) want =
      Done (map (\<lambda>i. replay_choice r (take (length (rcells r) + i + 1) (rcells r @ ts))) want, ?r2)"
      unfolding dec using True g'(2) t by simp
    moreover have "replay_same F r ?r2" by (rule replay_sameI) simp_all
    moreover have "rcells ?r2 = rcells r @ ts" by simp
    ultimately show ?thesis using coh(1) by blast
  next
    case False
    have "replay_decode F r ts (length (rcells r)) want =
      Done (map (\<lambda>i. replay_choice r (take (length (rcells r) + i + 1) (rcells r @ ts))) want, ?r1)"
      unfolding dec using False g'(2) by simp
    moreover have "replay_same F r ?r1" by (rule replay_sameI) simp_all
    moreover have "rcells ?r1 = rcells r @ ts" by simp
    ultimately show ?thesis using coh(2) by blast
  qed
qed

interpretation rp: greedy_model "replay_ops F" priced rcells rstate replay_choice replay_saved for F
proof unfold_locales
  fix F :: "'f f64_ops" and m :: "'f replay"
  show "rcells (clear (replay_ops F) m) = []" "rstate (clear (replay_ops F) m) = []"
    "priced (clear (replay_ops F) m) = priced m"
    by (simp_all add: replay_ops_def replay_clear_def priced_def)
  show "rcells (ban_eog (replay_ops F) m on) = rcells m" "rstate (ban_eog (replay_ops F) m on) = rstate m"
    "priced (ban_eog (replay_ops F) m on) = priced m" for on
    by (simp_all add: replay_ops_def)
  show "\<exists>m'. decode (replay_ops F) m ts (length (rcells m)) want =
        Done (map (\<lambda>i. replay_choice m (take (length (rcells m) + i + 1) (rcells m @ ts))) want, m') \<and>
      rcells m' = rcells m @ ts \<and> replay_good F m' \<and> replay_same F m m'"
    if "replay_good F m" "ts \<noteq> []" "length (rcells m) + length ts \<le> n_ctx (replay_ops F) m" "\<forall>i \<in> set want. i < length ts"
    for ts want
    using replay_decode_ok[OF that(1,4)] by (simp add: replay_ops_def)
  show "\<exists>m'. truncate_to (replay_ops F) m from = (True, m') \<and> rcells m' = take from (rcells m) \<and>
      (recurrent (replay_ops F) m \<longrightarrow> rstate m' = take from (rstate m)) \<and> replay_same F m m'"
    if "from \<le> length (rcells m)" "recurrent (replay_ops F) m \<Longrightarrow> length (rstate m) \<le> from + rs_seq (replay_ops F) m"
    for "from"
  proof (cases "rrecurrent m \<and> from < length (rstate m)")
    case True
    have "replay_same F m (m\<lparr>rstate := take from (rstate m), rcells := take from (rcells m)\<rparr>)"
      by (rule replay_sameI) simp_all
    then show ?thesis using True that(2) by (simp add: replay_ops_def replay_truncate_def)
  next
    case False
    have "replay_same F m (m\<lparr>rcells := take from (rcells m)\<rparr>)" by (rule replay_sameI) simp_all
    then show ?thesis using False by (auto simp: replay_ops_def replay_truncate_def)
  qed
  show "\<exists>buf m'. checkpoint (replay_ops F) m = Inr (buf, m') \<and> replay_saved buf (rstate m) \<and>
      rcells m' = rcells m \<and> rstate m' = rstate m \<and> replay_same F m m'"
  proof -
    have "replay_same F m (m\<lparr>ms := fadd F (ms m) (ccheckpoint (rcost m))\<rparr>)" by (rule replay_sameI) simp_all
    then show ?thesis by (simp add: replay_ops_def replay_checkpoint_def replay_saved_def)
  qed
  show "\<exists>m'. restore (replay_ops F) m buf = Inr m' \<and> rcells m' = rcells m \<and> rstate m' = s \<and> replay_same F m m'"
    if "replay_saved buf s" for buf s
  proof -
    have "replay_same F m (m\<lparr>rstate := chunks4 buf, ms := fadd F (ms m) (crestore (rcost m))\<rparr>)"
      by (rule replay_sameI) simp_all
    then show ?thesis using that by (simp add: replay_ops_def replay_restore_def replay_saved_def chunks4_le)
  qed
qed

section \<open>A simulation returns the replayed output\<close>

lemma greedy_replay:
  assumes "full r = prompt @ output"
  shows "done @ rest = output \<Longrightarrow> \<forall>t \<in> set (butlast output). \<not> eg t \<Longrightarrow> rest \<noteq> [] \<Longrightarrow>
    k = length rest \<or> length rest \<le> k \<and> eg (last output) \<Longrightarrow>
    greedy (replay_choice r) eg k (prompt @ done) = rest"
proof (induction rest arbitrary: "done" k)
  case (Cons t rest)
  obtain k' where k: "k = Suc k'" using Cons.prems(4) by (cases k) auto
  have c: "replay_choice r (prompt @ done) = t"
    using assms Cons.prems(1) by (auto simp: replay_choice_def nth_append)
  show ?case
  proof (cases "rest = []")
    case True
    then have "last output = t" using Cons.prems(1) by auto
    then show ?thesis using k c True Cons.prems(4) by (cases k') (auto simp: Let_def)
  next
    case False
    have "t \<in> set (butlast output)" using Cons.prems(1) False by (auto simp: butlast_append)
    then have "\<not> eg t" using Cons.prems(2) by blast
    moreover have "greedy (replay_choice r) eg k' (prompt @ (done @ [t])) = rest"
      by (rule Cons.IH) (use Cons.prems False k in auto)
    ultimately show ?thesis using k c by (simp add: Let_def)
  qed
qed simp

text \<open>The conditions of the tests: the output ends where generation would.\<close>

definition sim_ok :: "i32 list \<Rightarrow> i32 list \<Rightarrow> i32 list \<Rightarrow> params \<Rightarrow> caches \<Rightarrow> 'f cost \<Rightarrow> bool" where
  "sim_ok prompt output eogs p cs c \<longleftrightarrow> prompt \<noteq> [] \<and> output \<noteq> [] \<and> length (prompt @ output) + 1 < 2 ^ 29 \<and>
     (\<forall>t \<in> set (butlast output). t \<notin> set eogs) \<and>
     (n_predict p = length output \<or> length output \<le> n_predict p \<and> last output \<in> set eogs) \<and>
     (adapt p \<longrightarrow> k_min p \<le> k_max p) \<and> cdecode c \<noteq> [] \<and>
     cache_ok (dynamic_cache cs) \<and> static_ok (static_cache cs) \<and>
     cache_len (dynamic_cache cs) + 5 * (length (prompt @ output) + 2) < 2 ^ 32"

lemma simulate_ok:
  assumes s: "sim_ok prompt output eogs p cs c"
  shows "\<exists>o1 r1 cs1. simulate F (replay_new F prompt output eogs rec rs c) prompt output p cs = Done (o1, r1, cs1) \<and>
    otokens o1 = output"
proof -
  let ?r = "replay_new F prompt output eogs rec rs c"
  let ?m = "ban_eog (replay_ops F) (clear (replay_ops F) ?r) (ignore_eos p)"
  have m: "full ?m = prompt @ output" "n_ctx (replay_ops F) ?m = length (prompt @ output) + 1"
    "batch (replay_ops F) ?m = (512, 512)" "priced ?m \<longleftrightarrow> cdecode c \<noteq> []" "is_eog (replay_ops F) ?m = (\<lambda>t. t \<in> set eogs)"
    by (simp_all add: replay_ops_def replay_clear_def replay_new_def priced_def)
  have "request_ok (replay_ops F) priced ?m prompt p cs" using s unfolding request_ok_def m sim_ok_def by simp
  from rp.generate_ok[OF refl this] obtain o1 r1 cs1 k where
    g: "generate (replay_ops F) ?r prompt p cs = Done (o1, r1, cs1)"
    and k: "limit_low p (n_ctx (replay_ops F) ?m) (length prompt) \<le> k"
      "k \<le> limit_high p (n_ctx (replay_ops F) ?m) (length prompt)"
    and o1: "otokens o1 = greedy (replay_choice ?m) (is_eog (replay_ops F) ?m) k prompt" by blast
  have kk: "k = length output \<or> length output \<le> k \<and> last output \<in> set eogs"
    using k s unfolding m by (auto simp: limit_low_def limit_high_def sim_ok_def Suc_le_eq)
  have "greedy (replay_choice ?m) (\<lambda>t. t \<in> set eogs) k (prompt @ []) = output"
    by (rule greedy_replay[OF m(1)]) (use s kk in \<open>auto simp: sim_ok_def\<close>)
  then show ?thesis using g o1 unfolding m by (simp add: simulate_def)
qed

section \<open>Properties\<close>

text \<open>A small replay the properties are applied to, with prices that carry nothing.\<close>

definition demo_f64 :: "unit f64_ops" where
  "demo_f64 = \<lparr>fadd = \<lambda>_ _. (), fsub = \<lambda>_ _. (), fmul = \<lambda>_ _. (), fdiv = \<lambda>_ _. (), f_of_nat = \<lambda>_. ()\<rparr>"

definition demo_cost :: "unit cost" where
  "demo_cost = \<lparr>cdecode = [(1, ())], ccheckpoint = (), crestore = ()\<rparr>"

definition demo_params :: "nat \<Rightarrow> nat \<Rightarrow> nat \<Rightarrow> params" where
  "demo_params n hi lo = \<lparr>n_predict = n, k_max = hi, k_min = lo, adapt = True, min_n = 1, max_n = 3, ppick = Latest,
     fold_max = 4, junk = False, drafts = Exact, cache_k = 0, ignore_eos = False, plearn = False, use_static = False\<rparr>"

definition demo_caches :: caches where
  "demo_caches = \<lparr>dynamic_cache = cache_new, static_cache = static_default, learn = False\<rparr>"

definition demo_replay :: "bool \<Rightarrow> unit replay" where
  "demo_replay rec = replay_new demo_f64 [1, 2, 1] [2, 1, 4] [] rec 0 demo_cost"

lemmas demo_defs = demo_f64_def demo_cost_def demo_params_def demo_caches_def demo_replay_def

lemma demo_request_ok:
  "k \<le> h \<Longrightarrow> request_ok (replay_ops demo_f64) priced
     (ban_eog (replay_ops demo_f64) (clear (replay_ops demo_f64) (demo_replay rec)) b) [1, 2, 1] (demo_params n h k) demo_caches"
  using fs.none_ok static_ok_default
  by (simp add: request_ok_def demo_defs replay_ops_def replay_clear_def replay_new_def priced_def)

text \<open>
  C1. Drafting is lossless.  Of the model: it keeps the contract of the trait \<^verbatim>\<open>Model\<close>
  (\<open>greedy_model\<close>: a decode appends its tokens and returns the model's choices, truncation and
  restoring a checkpoint take cells and state back).  Of the request (\<open>request_ok\<close>): the prompt is not
  empty and fits the context, which has fewer than 2^29 cells; the batch size is positive; \<open>k_min\<close> is at
  most \<open>k_max\<close> when \<open>adapt\<close> is on (otherwise the engine can panic); the caches are valid and stay below
  2^32 entries.  Then, under any drafter and any other parameters, generation ends without an error, a
  panic or a failed roll-back, and its output is the model's own greedy continuation of the prompt, cut
  only at the token limit, at the end of the context or at the first end-of-generation token.
\<close>

theorem generate_is_greedy:
  assumes "greedy_model ops live cells state choice saved"
    "request_ok ops live (ban_eog ops (clear ops m0) (ignore_eos p)) prompt p cs"
  shows "\<exists>o' m' cs' k. generate ops m0 prompt p cs = Done (o', m', cs') \<and>
    limit_low p (n_ctx ops (ban_eog ops (clear ops m0) (ignore_eos p))) (length prompt) \<le> k \<and>
    k \<le> limit_high p (n_ctx ops (ban_eog ops (clear ops m0) (ignore_eos p))) (length prompt) \<and>
    otokens o' = greedy (choice (ban_eog ops (clear ops m0) (ignore_eos p)))
      (is_eog ops (ban_eog ops (clear ops m0) (ignore_eos p))) k prompt"
  using greedy_model.generate_ok[OF assms(1) refl assms(2)] by blast

theorem generate_is_greedy_witness:
  "let m1 = ban_eog (replay_ops demo_f64) (clear (replay_ops demo_f64) (demo_replay True)) (ignore_eos (demo_params 3 4 1)) in
   \<exists>o' m' cs' k. generate (replay_ops demo_f64) (demo_replay True) [1, 2, 1] (demo_params 3 4 1) demo_caches = Done (o', m', cs') \<and>
    limit_low (demo_params 3 4 1) (n_ctx (replay_ops demo_f64) m1) (length [1, 2, 1 :: i32]) \<le> k \<and>
    k \<le> limit_high (demo_params 3 4 1) (n_ctx (replay_ops demo_f64) m1) (length [1, 2, 1 :: i32]) \<and>
    otokens o' = greedy (replay_choice m1) (is_eog (replay_ops demo_f64) m1) k [1, 2, 1]"
  unfolding Let_def
  by (rule generate_is_greedy[OF rp.greedy_model_axioms demo_request_ok]) simp

text \<open>
  C2. The drafting parameters do not change the text, while the tokens asked for fit the context.  On a
  model that keeps the contract, take two requests for one prompt that both meet \<open>request_ok\<close> (in
  particular \<open>k_min\<close> at most \<open>k_max\<close> where \<open>adapt\<close> is on), with the same end-of-generation ban and the
  same positive \<open>n_predict\<close>, and with prompt and \<open>n_predict\<close> together no longer than the context.  They
  give the same output, whatever each one's drafter, draft lengths, n-gram orders, fold limit,
  adaptation and caches.  (At the end of the context this fails.)
\<close>

theorem drafting_is_invisible:
  assumes "greedy_model ops live cells state choice saved"
    "request_ok ops live (ban_eog ops (clear ops m0) (ignore_eos p)) prompt p cs"
    "request_ok ops live (ban_eog ops (clear ops m0) (ignore_eos q)) prompt q ds"
    "ignore_eos q = ignore_eos p" "n_predict q = n_predict p" "0 < n_predict p"
    "length prompt + n_predict p \<le> n_ctx ops (ban_eog ops (clear ops m0) (ignore_eos p))"
  shows "\<exists>o1 m1 cs' o2 m2 ds'. generate ops m0 prompt p cs = Done (o1, m1, cs') \<and>
    generate ops m0 prompt q ds = Done (o2, m2, ds') \<and> otokens o1 = otokens o2"
proof -
  let ?m = "ban_eog ops (clear ops m0) (ignore_eos p)"
  have exact: "k = n_predict p" if "limit_low r (n_ctx ops ?m) (length prompt) \<le> k"
    "k \<le> limit_high r (n_ctx ops ?m) (length prompt)" "n_predict r = n_predict p" for k r
  proof -
    have "n_predict p \<le> limit_low r (n_ctx ops ?m) (length prompt)" using assms(7) that(3) by (simp add: limit_low_def)
    moreover have "limit_high r (n_ctx ops ?m) (length prompt) \<le> n_predict p" using assms(6) that(3) by (simp add: limit_high_def)
    ultimately show ?thesis using that by linarith
  qed
  obtain o1 m1 cs' k1 where a: "generate ops m0 prompt p cs = Done (o1, m1, cs')"
    "limit_low p (n_ctx ops ?m) (length prompt) \<le> k1" "k1 \<le> limit_high p (n_ctx ops ?m) (length prompt)"
    "otokens o1 = greedy (choice ?m) (is_eog ops ?m) k1 prompt"
    using greedy_model.generate_ok[OF assms(1) refl assms(2)] by blast
  obtain o2 m2 ds' k2 where b: "generate ops m0 prompt q ds = Done (o2, m2, ds')"
    "limit_low q (n_ctx ops ?m) (length prompt) \<le> k2" "k2 \<le> limit_high q (n_ctx ops ?m) (length prompt)"
    "otokens o2 = greedy (choice ?m) (is_eog ops ?m) k2 prompt"
    using greedy_model.generate_ok[OF assms(1) refl assms(3)] unfolding assms(4) by blast
  have "k1 = k2" using exact[OF a(2,3)] exact[OF b(2,3) assms(5)] by simp
  then show ?thesis using a(1,4) b(1,4) by simp
qed

theorem drafting_is_invisible_witness:
  "\<exists>o1 m1 cs' o2 m2 ds'.
    generate (replay_ops demo_f64) (demo_replay True) [1, 2, 1] (demo_params 3 4 1) demo_caches = Done (o1, m1, cs') \<and>
    generate (replay_ops demo_f64) (demo_replay True) [1, 2, 1] (demo_params 3 0 0) demo_caches = Done (o2, m2, ds') \<and>
    otokens o1 = otokens o2"
  by (rule drafting_is_invisible[OF rp.greedy_model_axioms demo_request_ok demo_request_ok])
    (simp_all add: demo_defs replay_ops_def replay_clear_def replay_new_def)

text \<open>
  C17. \<^verbatim>\<open>simulate\<close> succeeds on the replay of an output that ends where generation would, under
  \<open>sim_ok\<close>: prompt and output are not empty and have fewer than 2^29 tokens together, no token of the
  output but the last ends generation, the output has \<open>n_predict\<close> tokens or is shorter and ends with
  such a token, \<open>k_min\<close> is at most \<open>k_max\<close> when \<open>adapt\<close> is on, the price list of a decode is not empty,
  and the caches are valid with room for the run.  Then, under any drafter, no decode meets a state
  the engine forgot to take back, no roll-back fails, on recurrent models with any bound on their
  snapshots and on others, and the engine's output is the replayed one.
\<close>

theorem simulate_returns_output:
  assumes "sim_ok prompt output eogs p cs c"
  shows "\<exists>o1 r1 cs1. simulate F (replay_new F prompt output eogs rec rs c) prompt output p cs = Done (o1, r1, cs1) \<and>
    otokens o1 = output"
  by (rule simulate_ok[OF assms])

theorem simulate_returns_output_witness:
  "\<exists>o1 r1 cs1. simulate demo_f64 (replay_new demo_f64 [1, 2, 1] [2, 1, 4] [] True 0 demo_cost) [1, 2, 1] [2, 1, 4]
     (demo_params 3 4 1) demo_caches = Done (o1, r1, cs1) \<and> otokens o1 = [2, 1, 4]"
  by (rule simulate_returns_output) (use fs.none_ok static_ok_default in \<open>simp add: sim_ok_def demo_defs\<close>)

text \<open>
  Where the step after a verified batch panics: when the model's answer is complete, the
  roll-back succeeds and no end-of-generation token was accepted, \<open>settle\<close> panics exactly when an
  adaptive exact-match draft was partly rejected and \<open>k_max\<close> is below \<open>max k_min 1\<close>
  (\<^verbatim>\<open>Ord::clamp\<close> with its bounds the wrong way round).
\<close>

lemma settle_panics_iff:
  assumes "agree draft choice = Some j" "j < length choice" "0 < length draft"
    "take_back ops bounded base first seq (length draft) j
       (g\<lparr>out := account n tiers (length draft) j (out g)\<rparr>) = Done g1"
    "emit_all ops cached (take j draft) g1 = Done (False, g2)"
  shows "settle ops p cached draft n tiers bounded base first seq choice g = Panicked \<longleftrightarrow>
    adapt p \<and> tiers = [] \<and> j < length draft \<and> k_max p < max (k_min p) 1"
proof -
  have "j \<le> length draft" using assms(1) by (induction draft choice arbitrary: j rule: agree.induct) (auto split: if_splits)
  then show ?thesis using assms by (auto simp: settle_def Let_def adapt_k_def clamp_def)
qed

end
