(* ===== verification/Mvex.thy ===== *)
theory Mvex
  imports Prelude
begin

text \<open>
  The encoder of Knights Corner vector instructions, the crate \<^verbatim>\<open>host/crates/knc-mvex\<close>
  (\<^verbatim>\<open>lib.rs\<close>, \<^verbatim>\<open>conv.rs\<close>, \<^verbatim>\<open>transc.rs\<close>): the MVEX prefix, every instruction builder with its
  text, and the mask register moves.  \<open>None\<close> is an \<^verbatim>\<open>assert!\<close> that fails.  Registers are
  \<open>u8\<close> as in the source; an instruction's bytes are built with the source's shifts and masks.
\<close>

section \<open>Operands\<close>

datatype zmm = Zmm u8
datatype kreg = K u8

fun zno :: "zmm \<Rightarrow> u8" where "zno (Zmm n) = n"
fun kno :: "kreg \<Rightarrow> u8" where "kno (K n) = n"

datatype gpr = Rax | Rcx | Rdx | Rbx | Rsp | Rbp | Rsi | Rdi | R8 | R9 | R10 | R11 | R12 | R13 | R14 | R15

fun gno :: "gpr \<Rightarrow> u8" where
  "gno Rax = 0"
| "gno Rcx = 1"
| "gno Rdx = 2"
| "gno Rbx = 3"
| "gno Rsp = 4"
| "gno Rbp = 5"
| "gno Rsi = 6"
| "gno Rdi = 7"
| "gno R8 = 8"
| "gno R9 = 9"
| "gno R10 = 10"
| "gno R11 = 11"
| "gno R12 = 12"
| "gno R13 = 13"
| "gno R14 = 14"
| "gno R15 = 15"

record mem =
  base :: gpr
  disp :: i32

text \<open>\<^verbatim>\<open>Mem::new\<close> refuses the bases that need a SIB byte.\<close>

definition mem_new :: "gpr \<Rightarrow> i32 \<Rightarrow> mem option" where
  "mem_new b d = (if gno b AND 7 \<noteq> 4 then Some \<lparr>base = b, disp = d\<rparr> else None)"

text \<open>\<^verbatim>\<open>i32::checked_add\<close>.\<close>

definition mem_offset :: "mem \<Rightarrow> i32 \<Rightarrow> mem option" where
  "mem_offset m delta =
     (let s = sint (disp m) + sint delta in
      if - (2 ^ 31) \<le> s \<and> s < 2 ^ 31 then Some \<lparr>base = base m, disp = word_of_int s\<rparr> else None)"

datatype conv = Conv_None | Bcast1 | Bcast4 | F16 | U8 | S8 | U16 | S16

fun conv_no :: "conv \<Rightarrow> u8" where
  "conv_no Conv_None = 0"
| "conv_no Bcast1 = 1"
| "conv_no Bcast4 = 2"
| "conv_no F16 = 3"
| "conv_no U8 = 4"
| "conv_no S8 = 5"
| "conv_no U16 = 6"
| "conv_no S16 = 7"

datatype src = Src_Reg zmm | Src_Mem mem | Src_MemConv mem conv

datatype cmp = Cmp_Eq | Cmp_Lt | Cmp_Le | Cmp_Unord | Cmp_Neq | Cmp_Nlt | Cmp_Nle | Cmp_Ord

fun cmp_no :: "cmp \<Rightarrow> u8" where
  "cmp_no Cmp_Eq = 0"
| "cmp_no Cmp_Lt = 1"
| "cmp_no Cmp_Le = 2"
| "cmp_no Cmp_Unord = 3"
| "cmp_no Cmp_Neq = 4"
| "cmp_no Cmp_Nlt = 5"
| "cmp_no Cmp_Nle = 6"
| "cmp_no Cmp_Ord = 7"

datatype round = Nearest | Down | Up | Zero

fun round_no :: "round \<Rightarrow> u8" where
  "round_no Nearest = 0"
| "round_no Down = 1"
| "round_no Up = 2"
| "round_no Zero = 3"

record insn =
  ibytes :: bytes
  itext :: string

section \<open>Text\<close>

fun show_conv :: "conv \<Rightarrow> string" where
  "show_conv Conv_None = []"
| "show_conv Bcast1 = ''{1to16}''"
| "show_conv Bcast4 = ''{4to16}''"
| "show_conv F16 = ''{float16}''"
| "show_conv U8 = ''{uint8}''"
| "show_conv S8 = ''{sint8}''"
| "show_conv U16 = ''{uint16}''"
| "show_conv S16 = ''{sint16}''"

definition show_u8 :: "u8 \<Rightarrow> string" where
  "show_u8 n = dec_string (unat n)"

definition show_zmm :: "zmm \<Rightarrow> string" where
  "show_zmm z = ''zmm'' @ show_u8 (zno z)"

definition show_k :: "kreg \<Rightarrow> string" where
  "show_k k = ''k'' @ show_u8 (kno k)"

definition GPR_NAMES :: "string list" where
  "GPR_NAMES = [''rax'', ''rcx'', ''rdx'', ''rbx'', ''rsp'', ''rbp'', ''rsi'', ''rdi'',
     ''r8'', ''r9'', ''r10'', ''r11'', ''r12'', ''r13'', ''r14'', ''r15'']"

definition show_gpr :: "gpr \<Rightarrow> string" where
  "show_gpr g = GPR_NAMES ! unat (gno g)"

definition show_mem :: "mem \<Rightarrow> string" where
  "show_mem m =
     (if sint (disp m) < 0
      then ''['' @ show_gpr (base m) @ ''-'' @ dec_string (nat (- sint (disp m))) @ '']''
      else ''['' @ show_gpr (base m) @ ''+'' @ dec_string (nat (sint (disp m))) @ '']'')"

fun show_src :: "src \<Rightarrow> string" where
  "show_src (Src_Reg z) = show_zmm z"
| "show_src (Src_Mem m) = show_mem m"
| "show_src (Src_MemConv m c) = show_mem m @ show_conv c"

definition mask_text :: "kreg \<Rightarrow> string" where
  "mask_text k = (if kno k = 0 then [] else '' {'' @ show_k k @ ''}'')"

definition gpr32 :: "gpr \<Rightarrow> string" where
  "gpr32 g = [''eax'', ''ecx'', ''edx'', ''ebx'', ''esp'', ''ebp'', ''esi'', ''edi''] ! (unat (gno g) AND 7)"

definition insn_gas :: "insn \<Rightarrow> string" where
  "insn_gas i = CHR 0x09 # ''.byte '' @ join '', '' (map hex_byte (ibytes i)) @ CHR 0x09 # ''# '' @ itext i"

definition insn_c_string :: "insn \<Rightarrow> string" where
  "insn_c_string i = CHR 0x22 # ''.byte '' @ join '','' (map hex_byte (ibytes i)) @
     [CHR 0x5C, CHR 0x6E, CHR 0x5C, CHR 0x74, CHR 0x22] @ '' /* '' @ itext i @ '' */''"

section \<open>The prefix\<close>

datatype opmap = M0F | M0F38 | M0F3A

fun map_no :: "opmap \<Rightarrow> u8" where
  "map_no M0F = 1"
| "map_no M0F38 = 2"
| "map_no M0F3A = 3"

datatype pp = Pp_None | P66 | Pf2

fun pp_no :: "pp \<Rightarrow> u8" where
  "pp_no Pp_None = 0"
| "pp_no P66 = 1"
| "pp_no Pf2 = 3"

datatype rm = Rm_Zmm zmm | Rm_Mem mem

fun rm_ok :: "rm \<Rightarrow> bool" where
  "rm_ok (Rm_Zmm z) = (zno z < 32)"
| "rm_ok (Rm_Mem m) = True"

fun rm_b :: "rm \<Rightarrow> u8" where
  "rm_b (Rm_Zmm z) = drop_bit 3 (zno z) AND 1"
| "rm_b (Rm_Mem m) = drop_bit 3 (gno (base m)) AND 1"

fun rm_x :: "rm \<Rightarrow> u8" where
  "rm_x (Rm_Zmm z) = drop_bit 4 (zno z) AND 1"
| "rm_x (Rm_Mem m) = 0"

definition byte_p0 :: "opmap \<Rightarrow> u8 \<Rightarrow> u8 \<Rightarrow> u8 \<Rightarrow> u8" where
  "byte_p0 mp reg x b =
     push_bit 7 (NOT (drop_bit 3 reg AND 1) AND 1) OR push_bit 6 (NOT x AND 1) OR
     push_bit 5 (NOT b AND 1) OR push_bit 4 (NOT (drop_bit 4 reg AND 1) AND 1) OR map_no mp"

definition byte_p1 :: "pp \<Rightarrow> bool \<Rightarrow> u8 \<Rightarrow> u8" where
  "byte_p1 p w vvvv = push_bit 7 (of_bool w) OR push_bit 3 (NOT vvvv AND 0xf) OR pp_no p"

definition byte_p2 :: "u8 \<Rightarrow> u8 \<Rightarrow> u8" where
  "byte_p2 vvvv aaa = push_bit 3 (NOT (drop_bit 4 vvvv) AND 1) OR aaa"

text \<open>The ModRM byte: mode bits, the low bits of the register, the low bits of the r/m operand.\<close>

definition modrm_byte :: "u8 \<Rightarrow> u8 \<Rightarrow> u8 \<Rightarrow> u8" where
  "modrm_byte mode reg g = mode OR push_bit 3 (reg AND 7) OR (g AND 7)"

fun rm_bytes :: "u8 \<Rightarrow> rm \<Rightarrow> bytes" where
  "rm_bytes reg (Rm_Zmm z) = [modrm_byte 0xc0 reg (zno z)]"
| "rm_bytes reg (Rm_Mem m) = modrm_byte 0x80 reg (gno (base m)) # le_bytes32 (disp m)"

fun imm_bytes :: "u8 option \<Rightarrow> bytes" where
  "imm_bytes None = []"
| "imm_bytes (Some i) = [i]"

definition mvex :: "opmap \<Rightarrow> pp \<Rightarrow> bool \<Rightarrow> u8 \<Rightarrow> u8 \<Rightarrow> rm \<Rightarrow> u8 \<Rightarrow> u8 \<Rightarrow> u8 option \<Rightarrow> bytes option" where
  "mvex mp p w reg vvvv r aaa opcode imm =
     (if reg < 32 \<and> vvvv < 32 \<and> aaa < 8 \<and> rm_ok r
      then Some ([0x62, byte_p0 mp reg (rm_x r) (rm_b r), byte_p1 p w vvvv, byte_p2 vvvv aaa, opcode] @
                 rm_bytes reg r @ imm_bytes imm)
      else None)"

fun src_rm :: "src \<Rightarrow> rm" where
  "src_rm (Src_Reg z) = Rm_Zmm z"
| "src_rm (Src_Mem m) = Rm_Mem m"
| "src_rm (Src_MemConv m c) = Rm_Mem m"

fun src_sss :: "src \<Rightarrow> u8" where
  "src_sss (Src_MemConv m c) = conv_no c"
| "src_sss _ = 0"

text \<open>\<^verbatim>\<open>bytes[3] |= bits\<close>: the eviction hint and the SSS field of P2.\<close>

definition or_p2 :: "u8 \<Rightarrow> bytes \<Rightarrow> bytes" where
  "or_p2 bits bs = bs[3 := bs ! 3 OR bits]"

definition with_sss :: "bytes \<Rightarrow> u8 \<Rightarrow> bytes" where
  "with_sss bs sss = or_p2 (push_bit 4 sss) bs"

definition make_insn :: "bytes option \<Rightarrow> string \<Rightarrow> insn option" where
  "make_insn b t = map_option (\<lambda>bs. \<lparr>ibytes = bs, itext = t\<rparr>) b"

section \<open>The instructions\<close>

definition vmovaps_store :: "mem \<Rightarrow> zmm \<Rightarrow> insn option" where
  "vmovaps_store m s = make_insn (mvex M0F Pp_None False (zno s) 0 (Rm_Mem m) 0 0x29 None)
     (''vmovaps '' @ show_mem m @ '', '' @ show_zmm s)"

definition vmovnraps_store :: "mem \<Rightarrow> zmm \<Rightarrow> insn option" where
  "vmovnraps_store m s = make_insn (mvex M0F Pf2 False (zno s) 0 (Rm_Mem m) 0 0x29 None)
     (''vmovnraps '' @ show_mem m @ '', '' @ show_zmm s)"

definition vmovnrngoaps_store :: "mem \<Rightarrow> zmm \<Rightarrow> insn option" where
  "vmovnrngoaps_store m s = make_insn (map_option (or_p2 0x80) (mvex M0F Pf2 False (zno s) 0 (Rm_Mem m) 0 0x29 None))
     (''vmovnrngoaps '' @ show_mem m @ '', '' @ show_zmm s)"

definition vmovaps_load :: "zmm \<Rightarrow> mem \<Rightarrow> insn option" where
  "vmovaps_load d m = make_insn (mvex M0F Pp_None False (zno d) 0 (Rm_Mem m) 0 0x28 None)
     (''vmovaps '' @ show_zmm d @ '', '' @ show_mem m)"

definition vmovaps_load_f16 :: "zmm \<Rightarrow> mem \<Rightarrow> insn option" where
  "vmovaps_load_f16 d m = make_insn (map_option (or_p2 (push_bit 4 3)) (mvex M0F Pp_None False (zno d) 0 (Rm_Mem m) 0 0x28 None))
     (''vmovaps '' @ show_zmm d @ '', '' @ show_mem m @ '' {float16}'')"

definition vmovapd_load :: "zmm \<Rightarrow> src \<Rightarrow> kreg \<Rightarrow> insn option" where
  "vmovapd_load d s k = make_insn (mvex M0F P66 True (zno d) 0 (src_rm s) (kno k) 0x28 None)
     (''vmovapd '' @ show_zmm d @ mask_text k @ '', '' @ show_src s)"

definition vmovapd_store :: "mem \<Rightarrow> zmm \<Rightarrow> kreg \<Rightarrow> insn option" where
  "vmovapd_store m s k = make_insn (mvex M0F P66 True (zno s) 0 (Rm_Mem m) (kno k) 0x29 None)
     (''vmovapd '' @ show_mem m @ mask_text k @ '', '' @ show_zmm s)"

definition arith :: "string \<Rightarrow> opmap \<Rightarrow> bool \<Rightarrow> u8 \<Rightarrow> zmm \<Rightarrow> zmm \<Rightarrow> src \<Rightarrow> kreg \<Rightarrow> insn option" where
  "arith name mp w opcode d s1 s2 k = make_insn (map_option (\<lambda>b. with_sss b (src_sss s2)) (mvex mp P66 w (zno d) (zno s1) (src_rm s2) (kno k) opcode None))
     (name @ '' '' @ show_zmm d @ mask_text k @ '', '' @ show_zmm s1 @ '', '' @ show_src s2)"

definition arith_ps :: "string \<Rightarrow> opmap \<Rightarrow> u8 \<Rightarrow> zmm \<Rightarrow> zmm \<Rightarrow> src \<Rightarrow> kreg \<Rightarrow> insn option" where
  "arith_ps name mp opcode d s1 s2 k = make_insn (map_option (\<lambda>b. with_sss b (src_sss s2)) (mvex mp Pp_None False (zno d) (zno s1) (src_rm s2) (kno k) opcode None))
     (name @ '' '' @ show_zmm d @ mask_text k @ '', '' @ show_zmm s1 @ '', '' @ show_src s2)"

definition vaddpd :: "zmm \<Rightarrow> zmm \<Rightarrow> src \<Rightarrow> kreg \<Rightarrow> insn option" where
  "vaddpd d s1 s2 k = arith ''vaddpd'' M0F True 0x58 d s1 s2 k"

definition vsubpd :: "zmm \<Rightarrow> zmm \<Rightarrow> src \<Rightarrow> kreg \<Rightarrow> insn option" where
  "vsubpd d s1 s2 k = arith ''vsubpd'' M0F True 0x5c d s1 s2 k"

definition vmulpd :: "zmm \<Rightarrow> zmm \<Rightarrow> src \<Rightarrow> kreg \<Rightarrow> insn option" where
  "vmulpd d s1 s2 k = arith ''vmulpd'' M0F True 0x59 d s1 s2 k"

definition vfmadd213pd :: "zmm \<Rightarrow> zmm \<Rightarrow> src \<Rightarrow> kreg \<Rightarrow> insn option" where
  "vfmadd213pd d s1 s2 k = arith ''vfmadd213pd'' M0F38 True 0xa8 d s1 s2 k"

definition vfmadd231pd :: "zmm \<Rightarrow> zmm \<Rightarrow> src \<Rightarrow> kreg \<Rightarrow> insn option" where
  "vfmadd231pd d s1 s2 k = arith ''vfmadd231pd'' M0F38 True 0xb8 d s1 s2 k"

definition vfmadd213ps :: "zmm \<Rightarrow> zmm \<Rightarrow> src \<Rightarrow> kreg \<Rightarrow> insn option" where
  "vfmadd213ps d s1 s2 k = arith ''vfmadd213ps'' M0F38 False 0xa8 d s1 s2 k"

definition vfmadd231ps :: "zmm \<Rightarrow> zmm \<Rightarrow> src \<Rightarrow> kreg \<Rightarrow> insn option" where
  "vfmadd231ps d s1 s2 k = arith ''vfmadd231ps'' M0F38 False 0xb8 d s1 s2 k"

definition vpaddd :: "zmm \<Rightarrow> zmm \<Rightarrow> src \<Rightarrow> kreg \<Rightarrow> insn option" where
  "vpaddd d s1 s2 k = arith ''vpaddd'' M0F False 0xfe d s1 s2 k"

definition vpsubd :: "zmm \<Rightarrow> zmm \<Rightarrow> src \<Rightarrow> kreg \<Rightarrow> insn option" where
  "vpsubd d s1 s2 k = arith ''vpsubd'' M0F False 0xfa d s1 s2 k"

definition vpandd :: "zmm \<Rightarrow> zmm \<Rightarrow> src \<Rightarrow> kreg \<Rightarrow> insn option" where
  "vpandd d s1 s2 k = arith ''vpandd'' M0F False 0xdb d s1 s2 k"

definition vpandnd :: "zmm \<Rightarrow> zmm \<Rightarrow> src \<Rightarrow> kreg \<Rightarrow> insn option" where
  "vpandnd d s1 s2 k = arith ''vpandnd'' M0F False 0xdf d s1 s2 k"

definition vpord :: "zmm \<Rightarrow> zmm \<Rightarrow> src \<Rightarrow> kreg \<Rightarrow> insn option" where
  "vpord d s1 s2 k = arith ''vpord'' M0F False 0xeb d s1 s2 k"

definition vpxord :: "zmm \<Rightarrow> zmm \<Rightarrow> src \<Rightarrow> kreg \<Rightarrow> insn option" where
  "vpxord d s1 s2 k = arith ''vpxord'' M0F False 0xef d s1 s2 k"

definition vpsllvd :: "zmm \<Rightarrow> zmm \<Rightarrow> src \<Rightarrow> kreg \<Rightarrow> insn option" where
  "vpsllvd d s1 s2 k = arith ''vpsllvd'' M0F38 False 0x47 d s1 s2 k"

definition vpsrlvd :: "zmm \<Rightarrow> zmm \<Rightarrow> src \<Rightarrow> kreg \<Rightarrow> insn option" where
  "vpsrlvd d s1 s2 k = arith ''vpsrlvd'' M0F38 False 0x45 d s1 s2 k"

definition vaddps :: "zmm \<Rightarrow> zmm \<Rightarrow> src \<Rightarrow> kreg \<Rightarrow> insn option" where
  "vaddps d s1 s2 k = arith_ps ''vaddps'' M0F 0x58 d s1 s2 k"

definition vsubps :: "zmm \<Rightarrow> zmm \<Rightarrow> src \<Rightarrow> kreg \<Rightarrow> insn option" where
  "vsubps d s1 s2 k = arith_ps ''vsubps'' M0F 0x5c d s1 s2 k"

definition vmulps :: "zmm \<Rightarrow> zmm \<Rightarrow> src \<Rightarrow> kreg \<Rightarrow> insn option" where
  "vmulps d s1 s2 k = arith_ps ''vmulps'' M0F 0x59 d s1 s2 k"

definition vcmppd :: "kreg \<Rightarrow> zmm \<Rightarrow> src \<Rightarrow> cmp \<Rightarrow> kreg \<Rightarrow> insn option" where
  "vcmppd d s1 s2 c k = make_insn (mvex M0F P66 True (kno d) (zno s1) (src_rm s2) (kno k) 0xc2 (Some (cmp_no c)))
     (''vcmppd '' @ show_k d @ mask_text k @ '', '' @ show_zmm s1 @ '', '' @ show_src s2 @ '', '' @ show_u8 (cmp_no c))"

definition vcmpps :: "kreg \<Rightarrow> zmm \<Rightarrow> src \<Rightarrow> cmp \<Rightarrow> kreg \<Rightarrow> insn option" where
  "vcmpps d s1 s2 c k = make_insn (mvex M0F Pp_None False (kno d) (zno s1) (src_rm s2) (kno k) 0xc2 (Some (cmp_no c)))
     (''vcmpps '' @ show_k d @ mask_text k @ '', '' @ show_zmm s1 @ '', '' @ show_src s2 @ '', '' @ show_u8 (cmp_no c))"

definition vpackstoreld :: "mem \<Rightarrow> zmm \<Rightarrow> kreg \<Rightarrow> insn option" where
  "vpackstoreld m s k = make_insn (mvex M0F38 P66 False (zno s) 0 (Rm_Mem m) (kno k) 0xd0 None)
     (''vpackstoreld '' @ show_mem m @ mask_text k @ '', '' @ show_zmm s)"

definition vpackstorehd :: "mem \<Rightarrow> zmm \<Rightarrow> kreg \<Rightarrow> insn option" where
  "vpackstorehd m s k = make_insn (mvex M0F38 P66 False (zno s) 0 (Rm_Mem m) (kno k) 0xd4 None)
     (''vpackstorehd '' @ show_mem m @ mask_text k @ '', '' @ show_zmm s)"

definition shift_imm :: "string \<Rightarrow> u8 \<Rightarrow> zmm \<Rightarrow> src \<Rightarrow> u8 \<Rightarrow> kreg \<Rightarrow> insn option" where
  "shift_imm name ext d s count k = (if ext < 8
      then make_insn (mvex M0F P66 False ext (zno d) (src_rm s) (kno k) 0x72 (Some count))
        (name @ '' '' @ show_zmm d @ mask_text k @ '', '' @ show_src s @ '', '' @ show_u8 count)
      else None)"

definition vpslld :: "zmm \<Rightarrow> src \<Rightarrow> u8 \<Rightarrow> kreg \<Rightarrow> insn option" where
  "vpslld d s count k = shift_imm ''vpslld'' 6 d s count k"

definition vpsrld :: "zmm \<Rightarrow> src \<Rightarrow> u8 \<Rightarrow> kreg \<Rightarrow> insn option" where
  "vpsrld d s count k = shift_imm ''vpsrld'' 2 d s count k"

definition vpsrad :: "zmm \<Rightarrow> src \<Rightarrow> u8 \<Rightarrow> kreg \<Rightarrow> insn option" where
  "vpsrad d s count k = shift_imm ''vpsrad'' 4 d s count k"

definition vloadunpackld :: "zmm \<Rightarrow> mem \<Rightarrow> kreg \<Rightarrow> insn option" where
  "vloadunpackld d m k = make_insn (mvex M0F38 Pp_None False (zno d) 0 (Rm_Mem m) (kno k) 0xd0 None)
     (''vloadunpackld '' @ show_zmm d @ mask_text k @ '', '' @ show_mem m)"

definition vloadunpackhd :: "zmm \<Rightarrow> mem \<Rightarrow> kreg \<Rightarrow> insn option" where
  "vloadunpackhd d m k = make_insn (mvex M0F38 Pp_None False (zno d) 0 (Rm_Mem m) (kno k) 0xd4 None)
     (''vloadunpackhd '' @ show_zmm d @ mask_text k @ '', '' @ show_mem m)"

definition vpbroadcastd :: "zmm \<Rightarrow> mem \<Rightarrow> kreg \<Rightarrow> insn option" where
  "vpbroadcastd d m k = make_insn (mvex M0F38 P66 False (zno d) 0 (Rm_Mem m) (kno k) 0x58 None)
     (''vpbroadcastd '' @ show_zmm d @ mask_text k @ '', '' @ show_mem m)"

text \<open>The mask register family: VEX.128.0F.W0, registers 0 to 7.\<close>

definition vex_k :: "u8 \<Rightarrow> u8 \<Rightarrow> u8 \<Rightarrow> bytes option" where
  "vex_k opcode reg r = (if reg < 8 \<and> r < 8 then Some [0xc5, 0xf8, opcode, 0xc0 OR push_bit 3 reg OR r] else None)"

definition kmov_r32_k :: "gpr \<Rightarrow> kreg \<Rightarrow> insn option" where
  "kmov_r32_k d s = make_insn (vex_k 0x93 (gno d) (kno s)) (''kmov '' @ gpr32 d @ '', '' @ show_k s)"

definition kmov_k_r32 :: "kreg \<Rightarrow> gpr \<Rightarrow> insn option" where
  "kmov_k_r32 d s = make_insn (vex_k 0x92 (kno d) (gno s)) (''kmov '' @ show_k d @ '', '' @ gpr32 s)"

definition kmov_k_k :: "kreg \<Rightarrow> kreg \<Rightarrow> insn option" where
  "kmov_k_k d s = make_insn (vex_k 0x90 (kno d) (kno s)) (''kmov '' @ show_k d @ '', '' @ show_k s)"

definition kortest :: "kreg \<Rightarrow> kreg \<Rightarrow> insn option" where
  "kortest a b = make_insn (vex_k 0x98 (kno a) (kno b)) (''kortest '' @ show_k a @ '', '' @ show_k b)"

section \<open>Conversions, rounding and transcendentals\<close>

definition vmovaps_load_conv :: "zmm \<Rightarrow> mem \<Rightarrow> conv \<Rightarrow> kreg \<Rightarrow> insn option" where
  "vmovaps_load_conv d m c k = make_insn (map_option (\<lambda>b. with_sss b (conv_no c)) (mvex M0F Pp_None False (zno d) 0 (Rm_Mem m) (kno k) 0x28 None))
     (''vmovaps '' @ show_zmm d @ mask_text k @ '', '' @ show_mem m @ show_conv c)"

definition vmovdqa32_load_conv :: "zmm \<Rightarrow> mem \<Rightarrow> conv \<Rightarrow> kreg \<Rightarrow> insn option" where
  "vmovdqa32_load_conv d m c k = make_insn (map_option (\<lambda>b. with_sss b (conv_no c)) (mvex M0F P66 False (zno d) 0 (Rm_Mem m) (kno k) 0x6f None))
     (''vmovdqa32 '' @ show_zmm d @ mask_text k @ '', '' @ show_mem m @ show_conv c)"

definition vloadunpackld_conv :: "zmm \<Rightarrow> mem \<Rightarrow> conv \<Rightarrow> kreg \<Rightarrow> insn option" where
  "vloadunpackld_conv d m c k = (if c \<noteq> Bcast1 \<and> c \<noteq> Bcast4
      then make_insn (map_option (\<lambda>b. with_sss b (conv_no c)) (mvex M0F38 Pp_None False (zno d) 0 (Rm_Mem m) (kno k) 0xd0 None))
        (''vloadunpackld '' @ show_zmm d @ mask_text k @ '', '' @ show_mem m @ show_conv c)
      else None)"

definition vloadunpackhd_conv :: "zmm \<Rightarrow> mem \<Rightarrow> conv \<Rightarrow> kreg \<Rightarrow> insn option" where
  "vloadunpackhd_conv d m c k = (if c \<noteq> Bcast1 \<and> c \<noteq> Bcast4
      then make_insn (map_option (\<lambda>b. with_sss b (conv_no c)) (mvex M0F38 Pp_None False (zno d) 0 (Rm_Mem m) (kno k) 0xd4 None))
        (''vloadunpackhd '' @ show_zmm d @ mask_text k @ '', '' @ show_mem m @ show_conv c)
      else None)"

definition vcvtfxpntdq2ps :: "zmm \<Rightarrow> src \<Rightarrow> kreg \<Rightarrow> insn option" where
  "vcvtfxpntdq2ps d s k = make_insn (map_option (\<lambda>b. with_sss b (src_sss s)) (mvex M0F3A Pp_None False (zno d) 0 (src_rm s) (kno k) 0xcb (Some 0)))
     (''vcvtfxpntdq2ps '' @ show_zmm d @ mask_text k @ '', '' @ show_src s @ '', 0'')"

definition vrndfxpntps :: "zmm \<Rightarrow> src \<Rightarrow> round \<Rightarrow> kreg \<Rightarrow> insn option" where
  "vrndfxpntps d s mode k = make_insn (map_option (\<lambda>b. with_sss b (src_sss s)) (mvex M0F3A P66 False (zno d) 0 (src_rm s) (kno k) 0x52 (Some (round_no mode))))
     (''vrndfxpntps '' @ show_zmm d @ mask_text k @ '', '' @ show_src s @ '', '' @ show_u8 (round_no mode))"

definition fma :: "string \<Rightarrow> u8 \<Rightarrow> zmm \<Rightarrow> zmm \<Rightarrow> src \<Rightarrow> kreg \<Rightarrow> insn option" where
  "fma name opcode d s1 s2 k = make_insn (map_option (\<lambda>b. with_sss b (src_sss s2)) (mvex M0F38 P66 False (zno d) (zno s1) (src_rm s2) (kno k) opcode None))
     (name @ '' '' @ show_zmm d @ mask_text k @ '', '' @ show_zmm s1 @ '', '' @ show_src s2)"

definition vfnmadd231ps :: "zmm \<Rightarrow> zmm \<Rightarrow> src \<Rightarrow> kreg \<Rightarrow> insn option" where
  "vfnmadd231ps d s1 s2 k = fma ''vfnmadd231ps'' 0xbc d s1 s2 k"

definition vfmsub213ps :: "zmm \<Rightarrow> zmm \<Rightarrow> src \<Rightarrow> kreg \<Rightarrow> insn option" where
  "vfmsub213ps d s1 s2 k = fma ''vfmsub213ps'' 0xaa d s1 s2 k"

definition vfmsub231ps :: "zmm \<Rightarrow> zmm \<Rightarrow> src \<Rightarrow> kreg \<Rightarrow> insn option" where
  "vfmsub231ps d s1 s2 k = fma ''vfmsub231ps'' 0xba d s1 s2 k"

definition vexp223ps :: "zmm \<Rightarrow> zmm \<Rightarrow> kreg \<Rightarrow> insn option" where
  "vexp223ps d s k = make_insn (mvex M0F38 P66 False (zno d) 0 (src_rm (Src_Reg s)) (kno k) 0xc8 None)
     (''vexp223ps '' @ show_zmm d @ mask_text k @ '', '' @ show_src (Src_Reg s))"

definition vrcp23ps :: "zmm \<Rightarrow> zmm \<Rightarrow> kreg \<Rightarrow> insn option" where
  "vrcp23ps d s k = make_insn (mvex M0F38 P66 False (zno d) 0 (src_rm (Src_Reg s)) (kno k) 0xca None)
     (''vrcp23ps '' @ show_zmm d @ mask_text k @ '', '' @ show_src (Src_Reg s))"

definition vpermd :: "zmm \<Rightarrow> zmm \<Rightarrow> src \<Rightarrow> kreg \<Rightarrow> insn option" where
  "vpermd d idx s2 k = make_insn (map_option (\<lambda>b. with_sss b (src_sss s2)) (mvex M0F38 P66 False (zno d) (zno idx) (src_rm s2) (kno k) 0x36 None))
     (''vpermd '' @ show_zmm d @ mask_text k @ '', '' @ show_zmm idx @ '', '' @ show_src s2)"

definition vcvtfxpntps2dq :: "zmm \<Rightarrow> src \<Rightarrow> round \<Rightarrow> kreg \<Rightarrow> insn option" where
  "vcvtfxpntps2dq d s mode k = make_insn (map_option (\<lambda>b. with_sss b (src_sss s)) (mvex M0F3A P66 False (zno d) 0 (src_rm s) (kno k) 0xcb (Some (round_no mode))))
     (''vcvtfxpntps2dq '' @ show_zmm d @ mask_text k @ '', '' @ show_src s @ '', '' @ show_u8 (round_no mode))"

definition vmovaps_store_conv :: "mem \<Rightarrow> zmm \<Rightarrow> conv \<Rightarrow> kreg \<Rightarrow> insn option" where
  "vmovaps_store_conv m s c k = (if c \<noteq> Bcast1 \<and> c \<noteq> Bcast4
      then make_insn (map_option (\<lambda>b. with_sss b (conv_no c)) (mvex M0F Pp_None False (zno s) 0 (Rm_Mem m) (kno k) 0x29 None))
        (''vmovaps '' @ show_mem m @ mask_text k @ show_conv c @ '', '' @ show_zmm s)
      else None)"

datatype exp_adj = Adj_None | Q28_4 | Q27_5 | Q24_8 | Q16_16 | Q8_24 | Q1_31 | Q0_32

fun exp_adj_no :: "exp_adj \<Rightarrow> u8" where
  "exp_adj_no Adj_None = 0"
| "exp_adj_no Q28_4 = 1"
| "exp_adj_no Q27_5 = 2"
| "exp_adj_no Q24_8 = 3"
| "exp_adj_no Q16_16 = 4"
| "exp_adj_no Q8_24 = 5"
| "exp_adj_no Q1_31 = 6"
| "exp_adj_no Q0_32 = 7"

text \<open>\<^verbatim>\<open>{imm:#04x}\<close> is \<open>hex_byte\<close>.\<close>

definition vcvtfxpntps2dq_adj :: "zmm \<Rightarrow> src \<Rightarrow> round \<Rightarrow> exp_adj \<Rightarrow> kreg \<Rightarrow> insn option" where
  "vcvtfxpntps2dq_adj d s mode adj k =
     (let imm = push_bit 4 (exp_adj_no adj) OR round_no mode in
      make_insn (map_option (\<lambda>b. with_sss b (src_sss s)) (mvex M0F3A P66 False (zno d) 0 (src_rm s) (kno k) 0xcb (Some imm)))
        (''vcvtfxpntps2dq '' @ show_zmm d @ mask_text k @ '', '' @ show_src s @ '', '' @ hex_byte imm))"

definition vloadunpacklps_conv :: "zmm \<Rightarrow> mem \<Rightarrow> conv \<Rightarrow> kreg \<Rightarrow> insn option" where
  "vloadunpacklps_conv d m c k = make_insn (map_option (\<lambda>b. with_sss b (conv_no c)) (mvex M0F38 Pp_None False (zno d) 0 (Rm_Mem m) (kno k) 0xd1 None))
     (''vloadunpacklps '' @ show_zmm d @ mask_text k @ '', '' @ show_mem m @ show_conv c)"

definition vloadunpackhps_conv :: "zmm \<Rightarrow> mem \<Rightarrow> conv \<Rightarrow> kreg \<Rightarrow> insn option" where
  "vloadunpackhps_conv d m c k = make_insn (map_option (\<lambda>b. with_sss b (conv_no c)) (mvex M0F38 Pp_None False (zno d) 0 (Rm_Mem m) (kno k) 0xd5 None))
     (''vloadunpackhps '' @ show_zmm d @ mask_text k @ '', '' @ show_mem m @ show_conv c)"

datatype cache_level = L1 | L2

fun cache_level_no :: "cache_level \<Rightarrow> u8" where
  "cache_level_no L1 = 1"
| "cache_level_no L2 = 2"

definition vprefetch :: "mem \<Rightarrow> cache_level \<Rightarrow> insn option" where
  "vprefetch m c = make_insn (mvex M0F Pp_None False (cache_level_no c) 0 (Rm_Mem m) 0 0x18 None)
     (''vprefetch'' @ show_u8 (cache_level_no c - 1) @ '' '' @ show_mem m)"

end
