(* ===== verification/Mvex_Decode.thy ===== *)
theory Mvex_Decode
  imports Mvex
begin

text \<open>
  A decoder of the MVEX prefix, written from the layout in the comment at the head of
  \<^verbatim>\<open>host/crates/knc-mvex/src/lib.rs\<close>, and the round trip: every field the encoder was given
  is read back from its bytes, so two instructions never share an encoding.
\<close>

section \<open>Reading the fields\<close>

record mvex_fields =
  f_map :: u8
  f_pp :: u8
  f_w :: bool
  f_reg :: u8
  f_vvvv :: u8
  f_rm :: "u8 + u8 \<times> i32"
  f_aaa :: u8
  f_sss :: u8
  f_eh :: bool
  f_opcode :: u8
  f_rest :: bytes

text \<open>The register numbers, from the inverted extension bits and ModRM.\<close>

definition read_reg :: "u8 \<Rightarrow> u8 \<Rightarrow> u8" where
  "read_reg p0 modrm =
     push_bit 4 (drop_bit 4 (NOT p0) AND 1) OR push_bit 3 (drop_bit 7 (NOT p0) AND 1) OR (drop_bit 3 modrm AND 7)"

definition read_zmm :: "u8 \<Rightarrow> u8 \<Rightarrow> u8" where
  "read_zmm p0 modrm =
     push_bit 4 (drop_bit 6 (NOT p0) AND 1) OR push_bit 3 (drop_bit 5 (NOT p0) AND 1) OR (modrm AND 7)"

definition read_base :: "u8 \<Rightarrow> u8 \<Rightarrow> u8" where
  "read_base p0 modrm = push_bit 3 (drop_bit 5 (NOT p0) AND 1) OR (modrm AND 7)"

definition read_vvvv :: "u8 \<Rightarrow> u8 \<Rightarrow> u8" where
  "read_vvvv p1 p2 = push_bit 4 (drop_bit 3 (NOT p2) AND 1) OR (drop_bit 3 (NOT p1) AND 0xf)"

fun decode_mvex :: "bytes \<Rightarrow> mvex_fields option" where
  "decode_mvex (b # p0 # p1 # p2 # opc # modrm # rest) =
     (let fs = (\<lambda>r tl. \<lparr>f_map = p0 AND 3, f_pp = p1 AND 3, f_w = bit p1 7, f_reg = read_reg p0 modrm,
            f_vvvv = read_vvvv p1 p2, f_rm = r, f_aaa = p2 AND 7, f_sss = drop_bit 4 p2 AND 7,
            f_eh = bit p2 7, f_opcode = opc, f_rest = tl\<rparr>) in
      if b \<noteq> 0x62 \<or> bit p1 2 \<or> p0 AND 0xc \<noteq> 0 then None
      else if drop_bit 6 modrm = 3 then Some (fs (Inl (read_zmm p0 modrm)) rest)
      else if drop_bit 6 modrm = 2 \<and> 4 \<le> length rest
      then Some (fs (Inr (read_base p0 modrm, of_le_bytes32 (take 4 rest))) (drop 4 rest))
      else None)"
| "decode_mvex _ = None"

section \<open>Bits of bytes\<close>

lemma byte_eqI:
  fixes a b :: u8
  assumes "bit a 0 = bit b 0" "bit a 1 = bit b 1" "bit a 2 = bit b 2" "bit a 3 = bit b 3"
    "bit a 4 = bit b 4" "bit a 5 = bit b 5" "bit a 6 = bit b 6" "bit a 7 = bit b 7"
  shows "a = b"
proof (rule bit_word_eqI)
  fix n assume "n < LENGTH(8)"
  then have "n \<in> {0, 1, 2, 3, 4, 5, 6, 7}" by auto
  then show "bit a n = bit b n" using assms by (elim insertE) auto
qed

lemma small_bits:
  fixes x :: u8
  shows "x < 32 \<Longrightarrow> \<not> bit x 5 \<and> \<not> bit x 6 \<and> \<not> bit x 7"
    "x < 16 \<Longrightarrow> \<not> bit x 4 \<and> \<not> bit x 5 \<and> \<not> bit x 6 \<and> \<not> bit x 7"
    "x < 8 \<Longrightarrow> \<not> bit x 3 \<and> \<not> bit x 4 \<and> \<not> bit x 5 \<and> \<not> bit x 6 \<and> \<not> bit x 7"
proof -
  have t: "\<not> bit x n" if a: "unat x < 2 ^ k" "k \<le> n" for k n
  proof -
    have "take_bit k (unat x) = unat x" using a(1) by (rule take_bit_nat_eq_self)
    then have "\<not> bit (unat x) n" using a(2) by (metis bit_take_bit_iff not_le)
    then show ?thesis by (cases "n < LENGTH(8)") (auto simp: bit_simps dest: bit_imp_le_length)
  qed
  show "x < 32 \<Longrightarrow> \<not> bit x 5 \<and> \<not> bit x 6 \<and> \<not> bit x 7" using t[of 5] by (simp add: word_less_nat_alt)
  show "x < 16 \<Longrightarrow> \<not> bit x 4 \<and> \<not> bit x 5 \<and> \<not> bit x 6 \<and> \<not> bit x 7" using t[of 4] by (simp add: word_less_nat_alt)
  show "x < 8 \<Longrightarrow> \<not> bit x 3 \<and> \<not> bit x 4 \<and> \<not> bit x 5 \<and> \<not> bit x 6 \<and> \<not> bit x 7" using t[of 3] by (simp add: word_less_nat_alt)
qed

lemma gno_less: "gno g < 16"
  by (cases g) simp_all

lemma rm_xb:
  "rm_ok r \<Longrightarrow> rm_x r AND 1 = rm_x r" "rm_b r AND 1 = rm_b r"
  by (cases r; auto intro!: byte_eqI simp: bit_simps)+

lemma read_reg_ok:
  assumes "reg < 32" "drop_bit 3 modrm AND 7 = reg AND 7"
  shows "read_reg (byte_p0 mp reg x b) modrm = reg"
proof -
  have m: "bit modrm 3 = bit reg 0" "bit modrm 4 = bit reg 1" "bit modrm 5 = bit reg 2"
    using arg_cong[OF assms(2), of "\<lambda>w. bit w 0"] arg_cong[OF assms(2), of "\<lambda>w. bit w 1"]
      arg_cong[OF assms(2), of "\<lambda>w. bit w 2"] by (simp_all add: bit_simps)
  show ?thesis
    by (rule byte_eqI; cases mp)
      (use small_bits(1)[OF assms(1)] m in \<open>simp_all add: read_reg_def byte_p0_def bit_simps\<close>)
qed

lemma read_zmm_ok:
  assumes "z < 32" "modrm AND 7 = z AND 7"
  shows "read_zmm (byte_p0 mp reg (drop_bit 4 z AND 1) (drop_bit 3 z AND 1)) modrm = z"
proof -
  have m: "bit modrm 0 = bit z 0" "bit modrm 1 = bit z 1" "bit modrm 2 = bit z 2"
    using arg_cong[OF assms(2), of "\<lambda>w. bit w 0"] arg_cong[OF assms(2), of "\<lambda>w. bit w 1"]
      arg_cong[OF assms(2), of "\<lambda>w. bit w 2"] by (simp_all add: bit_simps)
  show ?thesis
    by (rule byte_eqI; cases mp)
      (use small_bits(1)[OF assms(1)] m in \<open>simp_all add: read_zmm_def byte_p0_def bit_simps\<close>)
qed

lemma read_base_ok:
  assumes "g < 16" "modrm AND 7 = g AND 7"
  shows "read_base (byte_p0 mp reg x (drop_bit 3 g AND 1)) modrm = g"
proof -
  have m: "bit modrm 0 = bit g 0" "bit modrm 1 = bit g 1" "bit modrm 2 = bit g 2"
    using arg_cong[OF assms(2), of "\<lambda>w. bit w 0"] arg_cong[OF assms(2), of "\<lambda>w. bit w 1"]
      arg_cong[OF assms(2), of "\<lambda>w. bit w 2"] by (simp_all add: bit_simps)
  show ?thesis
    by (rule byte_eqI; cases mp)
      (use small_bits(2)[OF assms(1)] m in \<open>simp_all add: read_base_def byte_p0_def bit_simps\<close>)
qed

lemma p0_ok: "byte_p0 mp reg x b AND 3 = map_no mp" "byte_p0 mp reg x b AND 0xc = 0"
  by (rule byte_eqI; cases mp; simp add: byte_p0_def bit_simps)+

lemma p1_ok: "byte_p1 p w v AND 3 = pp_no p" "\<not> bit (byte_p1 p w v) 2" "bit (byte_p1 p w v) 7 = w"
proof -
  show "byte_p1 p w v AND 3 = pp_no p"
    by (rule byte_eqI; cases p; simp add: byte_p1_def bit_simps)
  show "\<not> bit (byte_p1 p w v) 2" "bit (byte_p1 p w v) 7 = w"
    by (cases p; simp add: byte_p1_def bit_simps)+
qed

text \<open>P2 with its eviction hint and SSS field set.\<close>

definition full_p2 :: "u8 \<Rightarrow> u8 \<Rightarrow> u8 \<Rightarrow> bool \<Rightarrow> u8" where
  "full_p2 vvvv aaa sss eh = byte_p2 vvvv aaa OR push_bit 4 sss OR (if eh then 0x80 else 0)"

lemma p2_ok:
  assumes "vvvv < 32" "aaa < 8" "sss < 8"
  shows "full_p2 vvvv aaa sss eh AND 7 = aaa" "drop_bit 4 (full_p2 vvvv aaa sss eh) AND 7 = sss"
    "bit (full_p2 vvvv aaa sss eh) 7 = eh" "read_vvvv (byte_p1 p w vvvv) (full_p2 vvvv aaa sss eh) = vvvv"
proof -
  note b = small_bits(1)[OF assms(1)] small_bits(3)[OF assms(2)] small_bits(3)[OF assms(3)]
  show "full_p2 vvvv aaa sss eh AND 7 = aaa" "drop_bit 4 (full_p2 vvvv aaa sss eh) AND 7 = sss"
    by (rule byte_eqI; use b in \<open>simp add: full_p2_def byte_p2_def bit_simps\<close>)+
  show "bit (full_p2 vvvv aaa sss eh) 7 = eh"
    using b by (simp add: full_p2_def byte_p2_def bit_simps)
  show "read_vvvv (byte_p1 p w vvvv) (full_p2 vvvv aaa sss eh) = vvvv"
    by (rule byte_eqI; cases p)
      (use b in \<open>simp_all add: read_vvvv_def full_p2_def byte_p1_def byte_p2_def bit_simps\<close>)
qed

lemma modrm_ok:
  "drop_bit 6 (modrm_byte 0xc0 reg g) = 3" "drop_bit 3 (modrm_byte 0xc0 reg g) AND 7 = reg AND 7"
  "modrm_byte 0xc0 reg g AND 7 = g AND 7"
  "drop_bit 6 (modrm_byte 0x80 reg g) = 2" "drop_bit 3 (modrm_byte 0x80 reg g) AND 7 = reg AND 7"
  "modrm_byte 0x80 reg g AND 7 = g AND 7"
  by (rule byte_eqI; simp add: modrm_byte_def bit_simps)+

section \<open>The round trip\<close>

text \<open>The bytes of an instruction: the prefix with its P2 fields, the operands, the immediate.\<close>

definition encode_full :: "opmap \<Rightarrow> pp \<Rightarrow> bool \<Rightarrow> u8 \<Rightarrow> u8 \<Rightarrow> rm \<Rightarrow> u8 \<Rightarrow> u8 \<Rightarrow> u8 option \<Rightarrow> u8 \<Rightarrow> bool \<Rightarrow> bytes option" where
  "encode_full mp p w reg vvvv r aaa opcode imm sss eh =
     map_option (\<lambda>b. if eh then or_p2 0x80 (with_sss b sss) else with_sss b sss)
       (mvex mp p w reg vvvv r aaa opcode imm)"

fun rm_field :: "rm \<Rightarrow> u8 + u8 \<times> i32" where
  "rm_field (Rm_Zmm z) = Inl (zno z)"
| "rm_field (Rm_Mem m) = Inr (gno (base m), disp m)"

definition fields_for :: "opmap \<Rightarrow> pp \<Rightarrow> bool \<Rightarrow> u8 \<Rightarrow> u8 \<Rightarrow> rm \<Rightarrow> u8 \<Rightarrow> u8 \<Rightarrow> u8 option \<Rightarrow> u8 \<Rightarrow> bool \<Rightarrow> mvex_fields" where
  "fields_for mp p w reg vvvv r aaa opcode imm sss eh =
     \<lparr>f_map = map_no mp, f_pp = pp_no p, f_w = w, f_reg = reg, f_vvvv = vvvv, f_rm = rm_field r,
      f_aaa = aaa, f_sss = sss, f_eh = eh, f_opcode = opcode, f_rest = imm_bytes imm\<rparr>"

lemma encode_full_bytes:
  assumes "mvex mp p w reg vvvv r aaa opcode imm = Some bs"
  shows "encode_full mp p w reg vvvv r aaa opcode imm sss eh =
    Some ([0x62, byte_p0 mp reg (rm_x r) (rm_b r), byte_p1 p w vvvv, full_p2 vvvv aaa sss eh, opcode] @
      rm_bytes reg r @ imm_bytes imm)"
proof -
  have "bs = [0x62, byte_p0 mp reg (rm_x r) (rm_b r), byte_p1 p w vvvv, byte_p2 vvvv aaa, opcode] @
      rm_bytes reg r @ imm_bytes imm"
    using assms by (simp add: mvex_def split: if_splits)
  then show ?thesis unfolding encode_full_def assms
    by (simp add: or_p2_def with_sss_def full_p2_def or.assoc)
qed

lemma mvex_guard:
  assumes "mvex mp p w reg vvvv r aaa opcode imm = Some bs"
  shows "reg < 32" "vvvv < 32" "aaa < 8" "rm_ok r"
  using assms by (simp_all add: mvex_def split: if_splits)

lemma decode_mvex_encode:
  assumes m: "mvex mp p w reg vvvv r aaa opcode imm = Some bs" and sss: "sss < 8"
    and e: "encode_full mp p w reg vvvv r aaa opcode imm sss eh = Some out"
  shows "decode_mvex out = Some (fields_for mp p w reg vvvv r aaa opcode imm sss eh)"
proof -
  note g = mvex_guard[OF m]
  note p2 = p2_ok[OF g(2,3) sss]
  have out: "out = [0x62, byte_p0 mp reg (rm_x r) (rm_b r), byte_p1 p w vvvv, full_p2 vvvv aaa sss eh, opcode] @
      rm_bytes reg r @ imm_bytes imm"
    using encode_full_bytes[OF m] e by simp
  show ?thesis
  proof (cases r)
    case (Rm_Zmm z)
    have z: "zno z < 32" using g(4) Rm_Zmm by simp
    show ?thesis unfolding out Rm_Zmm
      by (simp add: Let_def p0_ok p1_ok p2 modrm_ok read_reg_ok[OF g(1) modrm_ok(2)]
        read_zmm_ok[OF z modrm_ok(3)] fields_for_def)
  next
    case (Rm_Mem mm)
    show ?thesis unfolding out Rm_Mem
      by (simp add: Let_def p0_ok p1_ok p2 modrm_ok read_reg_ok[OF g(1) modrm_ok(5)]
        read_base_ok[OF gno_less modrm_ok(6)] fields_for_def)
  qed
qed

lemma gno_inject: "gno a = gno b \<longleftrightarrow> a = b"
  by (cases a; cases b) simp_all

lemma map_no_inject: "map_no a = map_no b \<longleftrightarrow> a = b"
  by (cases a; cases b) simp_all

lemma pp_no_inject: "pp_no a = pp_no b \<longleftrightarrow> a = b"
  by (cases a; cases b) simp_all

lemma conv_no_less: "conv_no c < 8"
  by (cases c) simp_all

lemma src_sss_less: "src_sss s < 8"
  by (cases s) (simp_all add: conv_no_less)

lemma zno_inject: "zno a = zno b \<longleftrightarrow> a = b"
  by (cases a; cases b) simp

lemma rm_field_inject: "rm_field a = rm_field b \<longleftrightarrow> a = b"
  by (cases a; cases b) (auto simp: zno_inject gno_inject)

lemma imm_bytes_inject: "imm_bytes a = imm_bytes b \<longleftrightarrow> a = b"
  by (cases a; cases b) simp_all

lemma fields_for_inject:
  "fields_for mp p w reg vvvv r aaa opcode imm sss eh = fields_for mp' p' w' reg' vvvv' r' aaa' opcode' imm' sss' eh' \<longleftrightarrow>
   mp = mp' \<and> p = p' \<and> w = w' \<and> reg = reg' \<and> vvvv = vvvv' \<and> r = r' \<and> aaa = aaa' \<and> opcode = opcode' \<and>
   imm = imm' \<and> sss = sss' \<and> eh = eh'"
  by (auto simp: fields_for_def map_no_inject pp_no_inject rm_field_inject imm_bytes_inject)

text \<open>The length: six bytes with a register, ten with memory, one more with an immediate.\<close>

lemma mvex_length:
  assumes "mvex mp p w reg vvvv r aaa opcode imm = Some bs"
  shows "length bs = (case r of Rm_Zmm z \<Rightarrow> 6 | Rm_Mem m \<Rightarrow> 10) + (case imm of None \<Rightarrow> 0 | Some i \<Rightarrow> 1)"
  using assms by (cases r; cases imm) (auto simp: mvex_def split: if_splits)

section \<open>Properties\<close>

text \<open>
  C11. Encoding is invertible: whatever the encoder accepts, a reader of the MVEX layout gets back
  every field it was given (map, prefix, W, the three operands with their inverted extension bits,
  the displacement, the mask, swizzle or conversion, eviction hint, opcode and immediate).
\<close>

theorem mvex_round_trip:
  assumes "mvex mp p w reg vvvv r aaa opcode imm = Some bs" "sss < 8"
  shows "\<exists>out. encode_full mp p w reg vvvv r aaa opcode imm sss eh = Some out \<and>
    decode_mvex out = Some (fields_for mp p w reg vvvv r aaa opcode imm sss eh)"
proof -
  obtain out where "encode_full mp p w reg vvvv r aaa opcode imm sss eh = Some out"
    using encode_full_bytes[OF assms(1)] by blast
  then show ?thesis using decode_mvex_encode[OF assms] by blast
qed

theorem mvex_round_trip_witness:
  "\<exists>out. encode_full M0F P66 False 31 17 (Rm_Mem \<lparr>base = R8, disp = - 64\<rparr>) 3 0x58 None 4 True = Some out \<and>
    decode_mvex out = Some (fields_for M0F P66 False 31 17 (Rm_Mem \<lparr>base = R8, disp = - 64\<rparr>) 3 0x58 None 4 True)"
proof -
  have "\<exists>bs. mvex M0F P66 False 31 17 (Rm_Mem \<lparr>base = R8, disp = - 64\<rparr>) 3 0x58 None = Some bs"
    by (simp add: mvex_def)
  then obtain bs where "mvex M0F P66 False 31 17 (Rm_Mem \<lparr>base = R8, disp = - 64\<rparr>) 3 0x58 None = Some bs" by blast
  then show ?thesis by (rule mvex_round_trip) simp
qed

text \<open>
  No two instructions share an encoding: equal bytes mean equal operation, operands, mask,
  modifiers and immediate.
\<close>

lemma mvex_unambiguous:
  assumes "encode_full mp p w reg vvvv r aaa opcode imm sss eh = Some out"
    "encode_full mp' p' w' reg' vvvv' r' aaa' opcode' imm' sss' eh' = Some out" "sss < 8" "sss' < 8"
  shows "mp = mp' \<and> p = p' \<and> w = w' \<and> reg = reg' \<and> vvvv = vvvv' \<and> r = r' \<and> aaa = aaa' \<and> opcode = opcode' \<and>
    imm = imm' \<and> sss = sss' \<and> eh = eh'"
proof -
  obtain bs bs' where m: "mvex mp p w reg vvvv r aaa opcode imm = Some bs" "mvex mp' p' w' reg' vvvv' r' aaa' opcode' imm' = Some bs'"
    using assms(1,2) unfolding encode_full_def by blast
  have "fields_for mp p w reg vvvv r aaa opcode imm sss eh = fields_for mp' p' w' reg' vvvv' r' aaa' opcode' imm' sss' eh'"
    using decode_mvex_encode[OF m(1) assms(3,1)] decode_mvex_encode[OF m(2) assms(4,2)] by simp
  then show ?thesis unfolding fields_for_inject .
qed

end
