(* ===== verification/Xlate.thy ===== *)
theory Xlate
  imports Mvex_Decode
begin

text \<open>
  The translation of one AVX-512 instruction into Knights Corner instructions,
  \<^verbatim>\<open>host/crates/avx512-xlate/src/lib.rs\<close>.  The decoded instruction is \<^verbatim>\<open>iced_x86\<close>'s (not in
  this repository): a record of what its documented accessors return, over its register
  and mnemonic names.  The outer \<open>None\<close> is an assertion of the encoder; \<open>Inl\<close> is a refusal.
\<close>

section \<open>The decoded instruction\<close>

datatype register = R_None | R_Xmm u8 | R_Ymm u8 | R_Zmm u8 | R_K u8 | R_Gpr gpr | R_Other

datatype op_kind = Op_Register | Op_Memory | Op_Other

datatype mnemonic =
    Vaddps | Vsubps | Vmulps | Vaddpd | Vsubpd | Vmulpd
  | Vfmadd231ps | Vfmadd213ps | Vfmadd231pd | Vfmadd213pd
  | Vpaddd | Vpsubd | Vpandd | Vpandnd | Vpord | Vpxord
  | Vmovaps | Vmovapd | Vmovdqa32 | Vmovdqa64
  | Vmovups | Vmovupd | Vmovdqu32 | Vmovdqu64
  | Vdivps | Vdivpd | Vsqrtps | Vsqrtpd
  | Vmaxps | Vminps | Vmaxpd | Vminpd
  | Vpternlogd | Vpternlogq
  | Vgatherdps | Vgatherdpd | Vpgatherdd | Vpgatherdq
  | Mnemonic_Other

record instruction =
  op_count :: nat
  op_kind_of :: "nat \<Rightarrow> op_kind"
  op_register :: "nat \<Rightarrow> register"
  op_mask :: register
  mnemonic_of :: mnemonic
  memory_base :: register
  memory_index :: register
  memory_displacement64 :: u64
  segment_prefix :: register
  zeroing_masking :: bool
  rounding_control :: bool
  is_broadcast :: bool
  display :: string

record unsupported =
  utext :: string
  reason :: string

definition refuse :: "instruction \<Rightarrow> string \<Rightarrow> unsupported" where
  "refuse i r = \<lparr>utext = display i, reason = r\<rparr>"

definition show_unsupported :: "unsupported \<Rightarrow> string" where
  "show_unsupported u = utext u @ '': '' @ reason u"

section \<open>Registers\<close>

fun zmm_of :: "register \<Rightarrow> zmm option" where
  "zmm_of (R_Zmm n) = Some (Zmm n)"
| "zmm_of _ = None"

text \<open>A register number relative to \<^verbatim>\<open>K0\<close>, for the mask registers an instruction can name.\<close>

fun kreg_of :: "register \<Rightarrow> kreg" where
  "kreg_of (R_K n) = K n"
| "kreg_of _ = K 0"

fun gpr_of :: "register \<Rightarrow> gpr option" where
  "gpr_of (R_Gpr g) = (if g = Rsp \<or> g = R12 then None else Some g)"
| "gpr_of _ = None"

section \<open>Refusals\<close>

definition R_INDEXED :: string where
  "R_INDEXED = ''indexed addressing: the MVEX encoder emits no SIB byte, so [base + index*scale] has to be strength-reduced to a pointer increment before translation''"
definition R_SEGMENT :: string where "R_SEGMENT = ''segment prefix''"
definition R_SIB :: string where
  "R_SIB = ''rsp or r12 as a memory base needs a SIB byte, which the MVEX encoder does not emit''"
definition R_BASE :: string where
  "R_BASE = ''memory base is not a 64-bit register the encoder accepts (rsp and r12 need a SIB byte)''"
definition R_DISP :: string where "R_DISP = ''displacement does not fit in 32 bits''"
definition R_VL :: string where
  "R_VL = ''AVX-512VL: the card is 512-bit only and has no xmm or ymm registers, so a 128-bit or 256-bit operation has to be re-expressed at 512 bits under a write-mask that limits the active lanes''"
definition R_ZERO :: string where
  "R_ZERO = ''zeroing masking {z}: Knights Corner has merging masking only, so this needs the destination cleared first, which changes register pressure and is not a local rewrite''"
definition R_ROUND :: string where
  "R_ROUND = ''embedded rounding {er}: expressible on the card as MVEX static rounding, not yet wired through the encoder''"
definition R_BCAST :: string where
  "R_BCAST = ''embedded broadcast {1toN}: expressible on the card as an MVEX swizzle, not yet wired through the encoder''"
definition R_SRC1 :: string where "R_SRC1 = ''first source is not a zmm register''"
definition R_SRC2 :: string where "R_SRC2 = ''second source is not a zmm register''"
definition R_SRC2K :: string where "R_SRC2K = ''second source is neither a register nor memory''"
definition R_DST :: string where "R_DST = ''destination is not a zmm register''"
definition R_SRC :: string where "R_SRC = ''source is not a zmm register''"
definition R_MOVE :: string where "R_MOVE = ''register to register moves are not translated yet''"
definition R_HIGH :: string where "R_HIGH = ''displacement overflows when offset by 64 for the high half''"
definition R_DIV :: string where
  "R_DIV = ''no divide or square root exists on Knights Corner; this needs the Newton-Raphson expansion described in docs/research/avx512-on-knc.md''"
definition R_MINMAX :: string where
  "R_MINMAX = ''the card's vgmax/vgmin use the IEEE-754-2008 NaN rule, not the AVX-512 one; this needs the compare-and-blend expansion''"
definition R_TERN :: string where "R_TERN = ''vpternlog has no card equivalent; needs truth-table expansion''"
definition R_GATHER :: string where
  "R_GATHER = ''the card's gather completes only a subset per issue and must be looped until the mask clears, which adds control flow the region model has to carry''"
definition R_TABLE :: string where "R_TABLE = ''not in the translation table''"

text \<open>\<open>Inl\<close> is \<^verbatim>\<open>Err\<close>; \<open>None\<close> the panic of \<^verbatim>\<open>Mem::new\<close>.\<close>

definition mem_of :: "instruction \<Rightarrow> (unsupported + mem) option" where
  "mem_of i =
     (if memory_index i \<noteq> R_None then Some (Inl (refuse i R_INDEXED))
      else if segment_prefix i \<noteq> R_None then Some (Inl (refuse i R_SEGMENT))
      else if memory_base i = R_Gpr Rsp \<or> memory_base i = R_Gpr R12 then Some (Inl (refuse i R_SIB))
      else case gpr_of (memory_base i) of
        None \<Rightarrow> Some (Inl (refuse i R_BASE))
      | Some b \<Rightarrow>
          (let d = sint (memory_displacement64 i) in
           if - (2 ^ 31) \<le> d \<and> d < 2 ^ 31 then map_option Inr (mem_new b (word_of_int d))
           else Some (Inl (refuse i R_DISP))))"

definition check_common :: "instruction \<Rightarrow> unsupported option" where
  "check_common i =
     (if \<exists>n \<in> set [0 ..< op_count i]. op_kind_of i n = Op_Register \<and>
           (case op_register i n of R_Xmm _ \<Rightarrow> True | R_Ymm _ \<Rightarrow> True | _ \<Rightarrow> False)
      then Some (refuse i R_VL)
      else if zeroing_masking i then Some (refuse i R_ZERO)
      else if rounding_control i then Some (refuse i R_ROUND)
      else if is_broadcast i then Some (refuse i R_BCAST)
      else None)"

definition src1_and_src2 :: "instruction \<Rightarrow> (unsupported + zmm \<times> src) option" where
  "src1_and_src2 i =
     (case zmm_of (op_register i 1) of
        None \<Rightarrow> Some (Inl (refuse i R_SRC1))
      | Some s1 \<Rightarrow>
          (case op_kind_of i 2 of
             Op_Register \<Rightarrow>
               (case zmm_of (op_register i 2) of
                  None \<Rightarrow> Some (Inl (refuse i R_SRC2))
                | Some z \<Rightarrow> Some (Inr (s1, Src_Reg z)))
           | Op_Memory \<Rightarrow>
               (case mem_of i of
                  None \<Rightarrow> None
                | Some (Inl u) \<Rightarrow> Some (Inl u)
                | Some (Inr m) \<Rightarrow> Some (Inr (s1, Src_Mem m)))
           | Op_Other \<Rightarrow> Some (Inl (refuse i R_SRC2K))))"

section \<open>The translation\<close>

text \<open>The arms of the three-operand instructions share the operands and the mask.\<close>

definition three_operand :: "instruction \<Rightarrow> (zmm \<Rightarrow> zmm \<Rightarrow> src \<Rightarrow> kreg \<Rightarrow> insn option) \<Rightarrow> (unsupported + insn list) option" where
  "three_operand i f =
     (case zmm_of (op_register i 0) of
        None \<Rightarrow> Some (Inl (refuse i R_DST))
      | Some d \<Rightarrow>
          (case src1_and_src2 i of
             None \<Rightarrow> None
           | Some (Inl u) \<Rightarrow> Some (Inl u)
           | Some (Inr (s1, s2)) \<Rightarrow> map_option (\<lambda>x. Inr [x]) (f d s1 s2 (kreg_of (op_mask i)))))"

definition aligned_move :: "instruction \<Rightarrow> (unsupported + insn list) option" where
  "aligned_move i =
     (if op_kind_of i 0 = Op_Register \<and> op_kind_of i 1 = Op_Memory then
        (case zmm_of (op_register i 0) of
           None \<Rightarrow> Some (Inl (refuse i R_DST))
         | Some d \<Rightarrow>
             (case mem_of i of
                None \<Rightarrow> None
              | Some (Inl u) \<Rightarrow> Some (Inl u)
              | Some (Inr m) \<Rightarrow> map_option (\<lambda>x. Inr [x]) (vmovaps_load d m)))
      else if op_kind_of i 0 = Op_Memory \<and> op_kind_of i 1 = Op_Register then
        (case zmm_of (op_register i 1) of
           None \<Rightarrow> Some (Inl (refuse i R_SRC))
         | Some s \<Rightarrow>
             (case mem_of i of
                None \<Rightarrow> None
              | Some (Inl u) \<Rightarrow> Some (Inl u)
              | Some (Inr m) \<Rightarrow> map_option (\<lambda>x. Inr [x]) (vmovaps_store m s)))
      else Some (Inl (refuse i R_MOVE)))"

text \<open>Both halves of an unaligned access; either builder may assert.\<close>

definition pair_of :: "insn option \<Rightarrow> insn option \<Rightarrow> (unsupported + insn list) option" where
  "pair_of a b = (case (a, b) of (Some x, Some y) \<Rightarrow> Some (Inr [x, y]) | _ \<Rightarrow> None)"

definition unaligned_move :: "instruction \<Rightarrow> (unsupported + insn list) option" where
  "unaligned_move i =
     (let k = kreg_of (op_mask i) in
      if op_kind_of i 0 = Op_Register \<and> op_kind_of i 1 = Op_Memory then
        (case zmm_of (op_register i 0) of
           None \<Rightarrow> Some (Inl (refuse i R_DST))
         | Some d \<Rightarrow>
             (case mem_of i of
                None \<Rightarrow> None
              | Some (Inl u) \<Rightarrow> Some (Inl u)
              | Some (Inr lo) \<Rightarrow>
                  (case mem_offset lo 64 of
                     None \<Rightarrow> Some (Inl (refuse i R_HIGH))
                   | Some hi \<Rightarrow> pair_of (vloadunpackld d lo k) (vloadunpackhd d hi k))))
      else if op_kind_of i 0 = Op_Memory \<and> op_kind_of i 1 = Op_Register then
        (case zmm_of (op_register i 1) of
           None \<Rightarrow> Some (Inl (refuse i R_SRC))
         | Some s \<Rightarrow>
             (case mem_of i of
                None \<Rightarrow> None
              | Some (Inl u) \<Rightarrow> Some (Inl u)
              | Some (Inr lo) \<Rightarrow>
                  (case mem_offset lo 64 of
                     None \<Rightarrow> Some (Inl (refuse i R_HIGH))
                   | Some hi \<Rightarrow> pair_of (vpackstoreld lo s k) (vpackstorehd hi s k))))
      else Some (Inl (refuse i R_MOVE)))"

fun arith_of :: "mnemonic \<Rightarrow> (zmm \<Rightarrow> zmm \<Rightarrow> src \<Rightarrow> kreg \<Rightarrow> insn option) option" where
  "arith_of Vaddps = Some vaddps"
| "arith_of Vsubps = Some vsubps"
| "arith_of Vmulps = Some vmulps"
| "arith_of Vaddpd = Some vaddpd"
| "arith_of Vsubpd = Some vsubpd"
| "arith_of Vmulpd = Some vmulpd"
| "arith_of Vfmadd231ps = Some vfmadd231ps"
| "arith_of Vfmadd213ps = Some vfmadd213ps"
| "arith_of Vfmadd231pd = Some vfmadd231pd"
| "arith_of Vfmadd213pd = Some vfmadd213pd"
| "arith_of Vpaddd = Some vpaddd"
| "arith_of Vpsubd = Some vpsubd"
| "arith_of Vpandd = Some vpandd"
| "arith_of Vpandnd = Some vpandnd"
| "arith_of Vpord = Some vpord"
| "arith_of Vpxord = Some vpxord"
| "arith_of _ = None"

definition translate :: "instruction \<Rightarrow> (unsupported + insn list) option" where
  "translate i =
     (case check_common i of
        Some u \<Rightarrow> Some (Inl u)
      | None \<Rightarrow>
          (case arith_of (mnemonic_of i) of
             Some f \<Rightarrow> three_operand i f
           | None \<Rightarrow>
               if mnemonic_of i \<in> {Vmovaps, Vmovapd, Vmovdqa32, Vmovdqa64} then aligned_move i
               else if mnemonic_of i \<in> {Vmovups, Vmovupd, Vmovdqu32, Vmovdqu64} then unaligned_move i
               else Some (Inl (refuse i
                 (if mnemonic_of i \<in> {Vdivps, Vdivpd, Vsqrtps, Vsqrtpd} then R_DIV
                  else if mnemonic_of i \<in> {Vmaxps, Vminps, Vmaxpd, Vminpd} then R_MINMAX
                  else if mnemonic_of i \<in> {Vpternlogd, Vpternlogq} then R_TERN
                  else if mnemonic_of i \<in> {Vgatherdps, Vgatherdpd, Vpgatherdd, Vpgatherdq} then R_GATHER
                  else R_TABLE)))))"

section \<open>What the encoder accepts\<close>

definition operands_ok :: "zmm \<Rightarrow> zmm \<Rightarrow> src \<Rightarrow> kreg \<Rightarrow> bool" where
  "operands_ok d s1 s2 k \<longleftrightarrow> zno d < 32 \<and> zno s1 < 32 \<and> rm_ok (src_rm s2) \<and> kno k < 8"

text \<open>Opcode map, prefix, W and opcode of the instructions both machines have (the same on both).\<close>

fun opcode_of :: "mnemonic \<Rightarrow> (u8 \<times> u8 \<times> bool \<times> u8) option" where
  "opcode_of Vaddps = Some (1, 0, False, 0x58)"
| "opcode_of Vsubps = Some (1, 0, False, 0x5c)"
| "opcode_of Vmulps = Some (1, 0, False, 0x59)"
| "opcode_of Vaddpd = Some (1, 1, True, 0x58)"
| "opcode_of Vsubpd = Some (1, 1, True, 0x5c)"
| "opcode_of Vmulpd = Some (1, 1, True, 0x59)"
| "opcode_of Vfmadd231ps = Some (2, 1, False, 0xb8)"
| "opcode_of Vfmadd213ps = Some (2, 1, False, 0xa8)"
| "opcode_of Vfmadd231pd = Some (2, 1, True, 0xb8)"
| "opcode_of Vfmadd213pd = Some (2, 1, True, 0xa8)"
| "opcode_of Vpaddd = Some (1, 1, False, 0xfe)"
| "opcode_of Vpsubd = Some (1, 1, False, 0xfa)"
| "opcode_of Vpandd = Some (1, 1, False, 0xdb)"
| "opcode_of Vpandnd = Some (1, 1, False, 0xdf)"
| "opcode_of Vpord = Some (1, 1, False, 0xeb)"
| "opcode_of Vpxord = Some (1, 1, False, 0xef)"
| "opcode_of _ = None"

text \<open>An instruction whose bytes decode to the operation and the operands it was built from.\<close>

definition encodes :: "u8 \<times> u8 \<times> bool \<times> u8 \<Rightarrow> zmm \<Rightarrow> zmm \<Rightarrow> src \<Rightarrow> kreg \<Rightarrow> insn \<Rightarrow> bool" where
  "encodes opc d s1 s2 k x \<longleftrightarrow> (\<exists>fs. decode_mvex (ibytes x) = Some fs \<and>
     (f_map fs, f_pp fs, f_w fs, f_opcode fs) = opc \<and> f_reg fs = zno d \<and> f_vvvv fs = zno s1 \<and>
     f_rm fs = rm_field (src_rm s2) \<and> f_aaa fs = kno k \<and> f_sss fs = src_sss s2 \<and>
     \<not> f_eh fs \<and> f_rest fs = [])"

lemma mvex_some:
  assumes "operands_ok d s1 s2 k"
  shows "\<exists>bs. mvex mp p w (zno d) (zno s1) (src_rm s2) (kno k) opc None = Some bs"
  using assms by (simp add: mvex_def operands_ok_def)

lemma encoded_ok:
  assumes "operands_ok d s1 s2 k"
  shows "\<exists>x. make_insn (map_option (\<lambda>b. with_sss b (src_sss s2))
      (mvex mp p w (zno d) (zno s1) (src_rm s2) (kno k) opc None)) t = Some x \<and>
    encodes (map_no mp, pp_no p, w, opc) d s1 s2 k x"
proof -
  obtain bs where bs: "mvex mp p w (zno d) (zno s1) (src_rm s2) (kno k) opc None = Some bs"
    using mvex_some[OF assms] by blast
  have e: "encode_full mp p w (zno d) (zno s1) (src_rm s2) (kno k) opc None (src_sss s2) False = Some (with_sss bs (src_sss s2))"
    by (simp add: encode_full_def bs)
  from decode_mvex_encode[OF bs src_sss_less e] show ?thesis
    unfolding bs by (simp add: make_insn_def encodes_def fields_for_def)
qed

lemma arith_encodes:
  assumes "operands_ok d s1 s2 k"
  shows "\<exists>x. arith name mp w opc d s1 s2 k = Some x \<and> encodes (map_no mp, 1, w, opc) d s1 s2 k x"
    "\<exists>x. arith_ps name mp opc d s1 s2 k = Some x \<and> encodes (map_no mp, 0, False, opc) d s1 s2 k x"
  using encoded_ok[OF assms, of mp P66 w opc] encoded_ok[OF assms, of mp Pp_None False opc]
  by (simp_all add: arith_def arith_ps_def)

lemmas insn_defs = vaddps_def vsubps_def vmulps_def vaddpd_def vsubpd_def vmulpd_def vfmadd231ps_def
  vfmadd213ps_def vfmadd231pd_def vfmadd213pd_def vpaddd_def vpsubd_def vpandd_def vpandnd_def vpord_def vpxord_def

lemma arith_of_encodes:
  assumes "arith_of m = Some f" "operands_ok d s1 s2 k"
  shows "\<exists>x opc. opcode_of m = Some opc \<and> f d s1 s2 k = Some x \<and> encodes opc d s1 s2 k x"
  using assms(1) arith_encodes(1)[OF assms(2), of _ M0F, simplified] arith_encodes(1)[OF assms(2), of _ M0F38, simplified]
    arith_encodes(2)[OF assms(2), of _ M0F, simplified]
  by (cases m) (auto simp: insn_defs)

lemma opcode_of_distinct: "opcode_of m = opcode_of m' \<Longrightarrow> opcode_of m \<noteq> None \<Longrightarrow> m = m'"
  by (cases m; cases m') simp_all

section \<open>No panic\<close>

text \<open>The register numbers \<^verbatim>\<open>iced_x86\<close> can name.\<close>

definition regs_ok :: "instruction \<Rightarrow> bool" where
  "regs_ok i \<longleftrightarrow> (\<forall>n z. op_register i n = R_Zmm z \<longrightarrow> z < 32) \<and> (\<forall>k. op_mask i = R_K k \<longrightarrow> k < 8)"

lemma kreg_of_small: "regs_ok i \<Longrightarrow> kno (kreg_of (op_mask i)) < 8"
  by (cases "op_mask i") (auto simp: regs_ok_def)

lemma zmm_of_small: "regs_ok i \<Longrightarrow> zmm_of (op_register i n) = Some z \<Longrightarrow> zno z < 32"
  by (cases "op_register i n") (auto simp: regs_ok_def)

lemma gpr_of_no_sib: "gpr_of r = Some g \<Longrightarrow> gno g AND 7 \<noteq> 4"
  by (cases r; simp split: if_splits) (cases g; simp)

lemma mem_of_total: "\<exists>r. mem_of i = Some r"
  using gpr_of_no_sib[of "memory_base i"]
  by (auto simp: mem_of_def mem_new_def Let_def split: option.splits)

lemma src1_and_src2_total: "\<exists>r. src1_and_src2 i = Some r"
proof -
  obtain r where "mem_of i = Some r" using mem_of_total by blast
  then show ?thesis
    by (cases r) (simp_all add: src1_and_src2_def split: option.splits op_kind.splits)
qed

lemma src1_and_src2_ok:
  assumes "regs_ok i" "src1_and_src2 i = Some (Inr (s1, s2))"
  shows "zno s1 < 32" "rm_ok (src_rm s2)" "src_sss s2 = 0"
  using assms zmm_of_small[OF assms(1)]
  by (auto simp: src1_and_src2_def split: option.splits op_kind.splits sum.splits)

lemma three_operand_ok:
  assumes r: "regs_ok i" and f: "arith_of (mnemonic_of i) = Some f"
  shows "(\<exists>u. three_operand i f = Some (Inl u)) \<or>
    (\<exists>d s1 s2 x opc. three_operand i f = Some (Inr [x]) \<and> zmm_of (op_register i 0) = Some d \<and>
      src1_and_src2 i = Some (Inr (s1, s2)) \<and> opcode_of (mnemonic_of i) = Some opc \<and>
      encodes opc d s1 s2 (kreg_of (op_mask i)) x)"
proof (cases "zmm_of (op_register i 0)")
  case None
  then show ?thesis by (simp add: three_operand_def)
next
  case (Some d)
  obtain s where s: "src1_and_src2 i = Some s" using src1_and_src2_total by blast
  show ?thesis
  proof (cases s)
    case (Inl u)
    then show ?thesis using Some s by (simp add: three_operand_def)
  next
    case (Inr p)
    obtain s1 s2 where p: "p = (s1, s2)" by (cases p)
    have "operands_ok d s1 s2 (kreg_of (op_mask i))"
      using src1_and_src2_ok[OF r] s Inr p zmm_of_small[OF r Some] kreg_of_small[OF r]
      by (auto simp: operands_ok_def)
    from arith_of_encodes[OF f this] show ?thesis using Some s Inr p
      by (auto simp: three_operand_def)
  qed
qed

lemma move_some:
  assumes "zno z < 32" "kno k < 8"
  shows "\<exists>x. vmovaps_load z m = Some x" "\<exists>x. vmovaps_store m z = Some x"
    "\<exists>x. vloadunpackld z m k = Some x" "\<exists>x. vloadunpackhd z m k = Some x"
    "\<exists>x. vpackstoreld m z k = Some x" "\<exists>x. vpackstorehd m z k = Some x"
  using assms by (simp_all add: vmovaps_load_def vmovaps_store_def vloadunpackld_def vloadunpackhd_def
    vpackstoreld_def vpackstorehd_def make_insn_def mvex_def)

lemma aligned_move_total:
  assumes "regs_ok i" shows "\<exists>r. aligned_move i = Some r"
proof -
  obtain r where r: "mem_of i = Some r" using mem_of_total by blast
  have l: "\<exists>x. vmovaps_load z m = Some x" "\<exists>x. vmovaps_store m z = Some x"
    if "zmm_of (op_register i n) = Some z" for n z m
    using move_some(1,2)[of z "K 0"] zmm_of_small[OF assms that] by auto
  show ?thesis unfolding aligned_move_def r
    by (cases r; cases "zmm_of (op_register i 0)"; cases "zmm_of (op_register i 1)")
      (use l in \<open>fastforce+\<close>)
qed

lemma unaligned_move_total:
  assumes "regs_ok i" shows "\<exists>r. unaligned_move i = Some r"
proof -
  obtain r where r: "mem_of i = Some r" using mem_of_total by blast
  let ?k = "kreg_of (op_mask i)"
  have l: "\<exists>q. pair_of (vloadunpackld z m ?k) (vloadunpackhd z m' ?k) = Some q"
    "\<exists>q. pair_of (vpackstoreld m z ?k) (vpackstorehd m' z ?k) = Some q"
    if "zmm_of (op_register i n) = Some z" for n z m m'
    using move_some(3-6)[OF zmm_of_small[OF assms that] kreg_of_small[OF assms]]
    by (auto simp: pair_of_def) (metis option.simps(5))+
  show ?thesis
  proof (cases r)
    case (Inl u)
    then show ?thesis unfolding unaligned_move_def r Let_def by (simp split: option.splits)
  next
    case (Inr m)
    show ?thesis unfolding unaligned_move_def r Let_def Inr
      by (cases "zmm_of (op_register i 0)"; cases "zmm_of (op_register i 1)"; cases "mem_offset m 64")
        (simp_all add: l)
  qed
qed

lemma translate_total:
  assumes "regs_ok i" shows "\<exists>r. translate i = Some r"
proof (cases "check_common i")
  case (Some u)
  then show ?thesis by (simp add: translate_def)
next
  case None
  show ?thesis
  proof (cases "arith_of (mnemonic_of i)")
    case (Some f)
    then show ?thesis using None three_operand_ok[OF assms Some] by (auto simp: translate_def)
  next
    case c: None
    show ?thesis unfolding translate_def None c using aligned_move_total[OF assms] unaligned_move_total[OF assms]
      by auto
  qed
qed

section \<open>Properties\<close>

text \<open>
  C23. The translator never panics: every instruction a decoder can produce (register numbers in
  range) is translated or refused with a reason, also at every displacement, base and mask.
\<close>

theorem translate_never_panics:
  assumes "regs_ok i"
  shows "translate i \<noteq> None"
  using translate_total[OF assms] by auto

text \<open>A register form of \<^verbatim>\<open>vaddps zmm1 {k3}, zmm2, zmm5\<close>.\<close>

definition demo_add :: instruction where
  "demo_add = \<lparr>op_count = 3, op_kind_of = (\<lambda>_. Op_Register),
     op_register = (\<lambda>n. R_Zmm (if n = 0 then 1 else if n = 1 then 2 else 5)), op_mask = R_K 3, mnemonic_of = Vaddps,
     memory_base = R_None, memory_index = R_None, memory_displacement64 = 0, segment_prefix = R_None,
     zeroing_masking = False, rounding_control = False, is_broadcast = False, display = ''vaddps''\<rparr>"

lemma demo_add_regs: "regs_ok demo_add"
  by (simp add: regs_ok_def demo_add_def)

theorem translate_never_panics_witness: "translate demo_add \<noteq> None"
  by (rule translate_never_panics[OF demo_add_regs])

section \<open>What a faithful translation is\<close>

text \<open>
  The operands of an instruction, read from the decoder's accessors alone: a ModRM field names
  operand 2 when it is that register, or that memory operand (sixteen base registers in the
  hardware's order, no index, no segment, the same displacement).
\<close>

definition HARDWARE_GPRS :: "gpr list" where
  "HARDWARE_GPRS = [Rax, Rcx, Rdx, Rbx, Rsp, Rbp, Rsi, Rdi, R8, R9, R10, R11, R12, R13, R14, R15]"

fun names_operand2 :: "instruction \<Rightarrow> u8 + u8 \<times> i32 \<Rightarrow> bool" where
  "names_operand2 i (Inl z) \<longleftrightarrow> op_kind_of i 2 = Op_Register \<and> op_register i 2 = R_Zmm z"
| "names_operand2 i (Inr (b, d)) \<longleftrightarrow> op_kind_of i 2 = Op_Memory \<and> b < 16 \<and>
     memory_base i = R_Gpr (HARDWARE_GPRS ! unat b) \<and> memory_index i = R_None \<and> segment_prefix i = R_None \<and>
     sint d = sint (memory_displacement64 i)"

text \<open>The mask field of an instruction: \<^verbatim>\<open>k0\<close> where it has no mask.\<close>

definition names_mask :: "instruction \<Rightarrow> u8 \<Rightarrow> bool" where
  "names_mask i a \<longleftrightarrow> (\<forall>n. op_mask i = R_K n \<longrightarrow> a = n) \<and> (op_mask i = R_None \<longrightarrow> a = 0)"

text \<open>
  The decoded fields are the instruction: operation, destination, both sources and mask, and none
  of the modifiers (zeroing, rounding, broadcast, conversion, eviction hint) on either side.
\<close>

definition same_instruction :: "instruction \<Rightarrow> mvex_fields \<Rightarrow> bool" where
  "same_instruction i fs \<longleftrightarrow>
     opcode_of (mnemonic_of i) = Some (f_map fs, f_pp fs, f_w fs, f_opcode fs) \<and>
     op_register i 0 = R_Zmm (f_reg fs) \<and> op_register i 1 = R_Zmm (f_vvvv fs) \<and>
     names_operand2 i (f_rm fs) \<and> names_mask i (f_aaa fs) \<and>
     \<not> zeroing_masking i \<and> \<not> rounding_control i \<and> \<not> is_broadcast i \<and>
     f_sss fs = 0 \<and> \<not> f_eh fs \<and> f_rest fs = []"

lemma hardware_gprs: "gno g < 16 \<and> HARDWARE_GPRS ! unat (gno g) = g"
  by (cases g) (simp_all add: HARDWARE_GPRS_def)

lemma zmm_of_register: "zmm_of r = Some d \<Longrightarrow> r = R_Zmm (zno d)"
  by (cases r) auto

lemma kreg_names_mask: "names_mask i (kno (kreg_of (op_mask i)))"
  by (cases "op_mask i") (simp_all add: names_mask_def)

lemma sint_of_int32:
  assumes "- (2 ^ 31) \<le> d" "d < 2 ^ 31"
  shows "sint (word_of_int d :: i32) = d"
  using assms by (simp add: sint_sbintrunc' signed_take_bit_int_eq_self)

lemma mem_of_names:
  assumes "mem_of i = Some (Inr m)" "op_kind_of i 2 = Op_Memory"
  shows "names_operand2 i (Inr (gno (base m), disp m))"
proof -
  let ?d = "sint (memory_displacement64 i)"
  obtain b where b: "gpr_of (memory_base i) = Some b" and m: "mem_new b (word_of_int ?d) = Some m"
    and n: "memory_index i = R_None" "segment_prefix i = R_None" and d: "- (2 ^ 31) \<le> ?d" "?d < 2 ^ 31"
    using assms(1) by (auto simp: mem_of_def Let_def split: if_splits option.splits)
  have r: "memory_base i = R_Gpr b" using b by (cases "memory_base i") (auto split: if_splits)
  show ?thesis using m n d r assms(2) hardware_gprs[of b] sint_of_int32[OF d]
    by (auto simp: mem_new_def split: if_splits)
qed

lemma src1_and_src2_names:
  assumes "src1_and_src2 i = Some (Inr (s1, s2))"
  shows "op_register i 1 = R_Zmm (zno s1)" "names_operand2 i (rm_field (src_rm s2))" "src_sss s2 = 0"
  using assms by (auto simp: src1_and_src2_def dest: zmm_of_register mem_of_names
    split: option.splits op_kind.splits sum.splits)

text \<open>
  C14. A translated arithmetic instruction is the instruction that was asked for: one card
  instruction, whose bytes decode to the opcode of the mnemonic, the register number of operand 0
  as destination, that of operand 1 as first source, operand 2 (its register number, or its base
  and displacement, when it has no index and no segment) as second source, and the number of the
  write-mask (0 without one).  No modifier is lost: the original has no zeroing, rounding or
  broadcast, and the bytes set no conversion and no eviction hint.
\<close>

theorem arithmetic_is_faithful:
  assumes "regs_ok i" "arith_of (mnemonic_of i) \<noteq> None" "translate i = Some (Inr xs)"
  shows "\<exists>x fs. xs = [x] \<and> decode_mvex (ibytes x) = Some fs \<and> same_instruction i fs"
proof -
  obtain f where f: "arith_of (mnemonic_of i) = Some f" using assms(2) by blast
  have c: "check_common i = None" and "three_operand i f = Some (Inr xs)"
    using assms(3) f by (simp_all add: translate_def split: option.splits)
  then obtain d s1 s2 x opc where x: "xs = [x]" and d: "zmm_of (op_register i 0) = Some d"
    and s: "src1_and_src2 i = Some (Inr (s1, s2))" and o: "opcode_of (mnemonic_of i) = Some opc"
    and e: "encodes opc d s1 s2 (kreg_of (op_mask i)) x"
    using three_operand_ok[OF assms(1) f] by auto
  have z: "\<not> zeroing_masking i" "\<not> rounding_control i" "\<not> is_broadcast i"
    using c by (simp_all add: check_common_def split: if_splits)
  show ?thesis using e x o z zmm_of_register[OF d] src1_and_src2_names[OF s] kreg_names_mask[of i]
    by (auto simp: encodes_def same_instruction_def)
qed

theorem arithmetic_is_faithful_witness:
  "\<exists>x fs. translate demo_add = Some (Inr [x]) \<and> decode_mvex (ibytes x) = Some fs \<and>
    same_instruction demo_add fs \<and> f_reg fs = 1 \<and> f_vvvv fs = 2 \<and> f_rm fs = Inl 5 \<and> f_aaa fs = 3 \<and> f_opcode fs = 0x58"
proof -
  have c: "check_common demo_add = None" by (simp add: check_common_def demo_add_def)
  have m: "arith_of (mnemonic_of demo_add) = Some vaddps" by (simp add: demo_add_def)
  have "\<not> (\<exists>u. three_operand demo_add vaddps = Some (Inl u))"
    by (auto simp: three_operand_def src1_and_src2_def demo_add_def split: option.splits)
  then obtain x where x: "translate demo_add = Some (Inr [x])"
    using three_operand_ok[OF demo_add_regs m] c m by (auto simp: translate_def)
  have "arith_of (mnemonic_of demo_add) \<noteq> None" by (simp add: m)
  from arithmetic_is_faithful[OF demo_add_regs this x] obtain fs
    where fs: "decode_mvex (ibytes x) = Some fs" "same_instruction demo_add fs" by blast
  then have "f_reg fs = 1 \<and> f_vvvv fs = 2 \<and> f_rm fs = Inl 5 \<and> f_aaa fs = 3 \<and> f_opcode fs = 0x58"
    by (cases "f_rm fs") (auto simp: same_instruction_def names_mask_def demo_add_def)
  then show ?thesis using fs x by blast
qed

text \<open>
  The translation of an aligned move does not read the write-mask: a masked and an unmasked
  move of the same operands become the same (unmasked) card instruction.
\<close>

lemma aligned_move_drops_mask:
  assumes "mnemonic_of i \<in> {Vmovaps, Vmovapd, Vmovdqa32, Vmovdqa64}" "translate i = Some (Inr xs)"
  shows "translate (i\<lparr>op_mask := k, display := t\<rparr>) = Some (Inr xs)"
proof -
  let ?i = "i\<lparr>op_mask := k, display := t\<rparr>"
  have mem: "mem_of i = Some (Inr m) \<Longrightarrow> mem_of ?i = Some (Inr m)" for m
    by (auto simp: mem_of_def Let_def split: if_splits option.splits)
  have a: "arith_of (mnemonic_of i) = None" using assms(1) by auto
  have c: "check_common i = None" using assms(2) by (simp add: translate_def split: option.splits)
  then have c': "check_common ?i = None" by (simp add: check_common_def split: if_splits)
  have al: "aligned_move i = Some (Inr xs)" using assms a c by (simp add: translate_def)
  have "aligned_move ?i = Some (Inr xs)"
    using al mem unfolding aligned_move_def
    by (simp split: if_splits option.splits sum.splits)
  then show ?thesis using assms(1) a c' by (simp add: translate_def)
qed

text \<open>A masked load \<^verbatim>\<open>vmovaps zmm1 {k3}, [rax]\<close>.\<close>

definition demo_load :: instruction where
  "demo_load = demo_add\<lparr>op_count := 2, op_kind_of := (\<lambda>n. if n = 0 then Op_Register else Op_Memory),
     mnemonic_of := Vmovaps, memory_base := R_Gpr Rax\<rparr>"

end
