(* ===== verification/Iced.thy ===== *)
theory Iced
  imports Prelude
begin

text \<open>
  The decoded x86 instruction, as the crates that analyse and emulate programs see it.  It is
  \<^verbatim>\<open>iced_x86\<close>'s \<^verbatim>\<open>Instruction\<close> (a package that is not in this repository): a record of what its
  documented accessors and its \<^verbatim>\<open>InstructionInfoFactory\<close> return.  Mnemonics are their names.
\<close>

section \<open>Registers\<close>

text \<open>
  A general register by index and size in bytes (\<open>High\<close>: ah, ch, dh, bh), the instruction
  pointer, a segment register without (\<open>Seg_user\<close>: cs, ds, es, ss) or with a base of its own, a
  vector register by index and size in bytes, a mask register, any other by its size.
\<close>

datatype xreg = No_reg | Gp nat nat | High nat | Rip nat | Seg_user | Seg_base | Vec nat nat | Mask nat | Other_reg nat

fun full_register :: "xreg \<Rightarrow> xreg" where
  "full_register (Gp i s) = Gp i 8"
| "full_register (High i) = Gp i 8"
| "full_register (Rip s) = Rip 8"
| "full_register (Vec i s) = Vec i 64"
| "full_register r = r"

fun reg_size :: "xreg \<Rightarrow> nat" where
  "reg_size No_reg = 0"
| "reg_size (Gp i s) = s"
| "reg_size (High i) = 1"
| "reg_size (Rip s) = s"
| "reg_size Seg_user = 2"
| "reg_size Seg_base = 2"
| "reg_size (Vec i s) = s"
| "reg_size (Mask i) = 8"
| "reg_size (Other_reg n) = n"

fun is_gpr :: "xreg \<Rightarrow> bool" where
  "is_gpr (Gp i s) = True"
| "is_gpr (High i) = True"
| "is_gpr _ = False"

fun is_k :: "xreg \<Rightarrow> bool" where
  "is_k (Mask i) = True"
| "is_k _ = False"

section \<open>Instructions\<close>

datatype access = No_access | Acc_Read | Acc_CondRead | Acc_Write | Acc_CondWrite | Acc_ReadWrite | Acc_ReadCondWrite

datatype flow = Cond_branch | Uncond_branch | Fall_through | Other_flow

datatype cond = C_l | C_le | C_g | C_ge | C_b | C_be | C_a | C_ae | C_ne | C_e | C_other

text \<open>Operand kinds: \<open>K_Imm8\<close> is \<^verbatim>\<open>Immediate8\<close>, \<open>K_Immediate\<close> the other immediates.\<close>

datatype pkind = K_Register | K_Memory | K_Imm8 | K_Immediate | K_Other

record used_mem =
  um_base :: xreg
  um_index :: xreg
  um_scale :: u32
  um_disp :: u64
  um_access :: access
  um_size :: u64

record xinsn =
  xip :: u64
  next_ip :: u64
  flow_control :: flow
  branch_target :: u64
  condition_code :: cond
  mnem :: string
  xcount :: nat
  xkind :: "nat \<Rightarrow> pkind"
  xreg_of :: "nat \<Rightarrow> xreg"
  immediate :: "nat \<Rightarrow> u64"
  immediate8 :: u8
  mem_base :: xreg
  mem_index :: xreg
  mem_scale :: u32
  mem_disp :: u64
  mem_segment :: xreg
  mem_size :: nat
  ip_rel :: bool
  ip_rel_address :: u64
  xmask :: xreg
  zeroing :: bool
  broadcast :: bool
  used_regs :: "(xreg \<times> access) list"
  used_mems :: "used_mem list"

end
