(* ===== verification/Plan.thy ===== *)
theory Plan
  imports Iced "HOL-Library.Product_Lexorder"
begin

text \<open>
  Planning a region's run on the card, \<^verbatim>\<open>host/crates/phi512/src/plan.rs\<close>: the values the
  planner keeps for the integer registers, the loop it would split, its trip count, the memory
  ranges a phase touches and the test that lets a loop run on several threads.  An \<^verbatim>\<open>i64\<close> is kept as its 64 bits and read by \<open>sint\<close>.
\<close>

section \<open>Values\<close>

datatype val = Known u64 | Range u64 u64 u64 | Unknown

fun val_add :: "val \<Rightarrow> u64 \<Rightarrow> val" where
  "val_add (Known v) d = Known (v + d)"
| "val_add (Range lo hi step) d = Range (lo + d) (hi + d) step"
| "val_add Unknown d = Unknown"

fun val_plus :: "val \<Rightarrow> val \<Rightarrow> val" where
  "val_plus (Known a) (Known b) = Known (a + b)"
| "val_plus (Known a) (Range lo hi step) = Range (lo + a) (hi + a) step"
| "val_plus (Range lo hi step) (Known a) = Range (lo + a) (hi + a) step"
| "val_plus _ _ = Unknown"

fun val_times :: "val \<Rightarrow> u32 \<Rightarrow> val" where
  "val_times (Known v) s = Known (v * ucast s)"
| "val_times (Range lo hi step) s = Range (lo * ucast s) (hi * ucast s) (step * ucast s)"
| "val_times Unknown s = Unknown"

section \<open>What an instruction reads and writes\<close>

definition acc_reads :: "access \<Rightarrow> bool" where
  "acc_reads a \<longleftrightarrow> a \<in> {Acc_Read, Acc_CondRead, Acc_ReadWrite, Acc_ReadCondWrite}"

definition acc_writes :: "access \<Rightarrow> bool" where
  "acc_writes a \<longleftrightarrow> a \<in> {Acc_Write, Acc_ReadWrite, Acc_CondWrite, Acc_ReadCondWrite}"

text \<open>\<^verbatim>\<open>BTreeMap<u64, Instruction>\<close>: pairs in ascending address order.\<close>

type_synonym insns = "(u64 \<times> xinsn) list"

definition insns_ok :: "insns \<Rightarrow> bool" where
  "insns_ok is \<longleftrightarrow> sorted_wrt (\<lambda>a b. fst a < fst b) is"

definition insn_range :: "insns \<Rightarrow> u64 \<Rightarrow> u64 \<Rightarrow> insns" where
  "insn_range is a b = filter (\<lambda>p. a \<le> fst p \<and> fst p < b) is"

definition body_of :: "insns \<Rightarrow> u64 \<Rightarrow> u64 \<Rightarrow> xinsn list" where
  "body_of is a b = map snd (insn_range is a b)"

fun gpr_index :: "xreg \<Rightarrow> nat option" where
  "gpr_index r = (case full_register r of Gp i s \<Rightarrow> if i < 16 then Some i else None | _ \<Rightarrow> None)"

declare gpr_index.simps [simp del]

definition imm_of :: "xinsn \<Rightarrow> nat \<Rightarrow> u64 option" where
  "imm_of i n = (if xkind i n \<in> {K_Imm8, K_Immediate} then Some (immediate i n) else None)"

fun written_scan :: "(xreg \<times> access) list \<Rightarrow> nat list \<Rightarrow> nat list" where
  "written_scan [] v = v"
| "written_scan ((r, a) # us) v =
     written_scan us (case gpr_index r of
        Some i \<Rightarrow> if acc_writes a \<and> i \<notin> set v then v @ [i] else v
      | None \<Rightarrow> v)"

definition written_gprs :: "xinsn \<Rightarrow> nat list" where
  "written_gprs i = written_scan (used_regs i) []"

section \<open>The loop to split\<close>

datatype bound = B_Reg nat | B_Imm u64

record ploop =
  lhead :: u64
  lback :: u64
  lexit :: u64
  lind :: nat
  lstep :: u64
  lbound :: bound
  lcc :: cond
  via_cmp :: bool
  from_add :: bool
  lwidth :: nat

text \<open>What one instruction that writes \<open>ind\<close> adds to it, when that is a constant.\<close>

definition step_of :: "xinsn \<Rightarrow> nat \<Rightarrow> u64 option" where
  "step_of i ind =
     (if gpr_index (xreg_of i 0) \<noteq> Some ind then None
      else if mnem i = ''Add'' then imm_of i 1
      else if mnem i = ''Sub'' then map_option uminus (imm_of i 1)
      else if mnem i = ''Inc'' then Some 1
      else if mnem i = ''Dec'' then Some (- 1)
      else None)"

fun induction_scan :: "xinsn list \<Rightarrow> nat \<Rightarrow> (u64 \<times> u64) option \<Rightarrow> (u64 \<times> u64) option" where
  "induction_scan [] ind step = step"
| "induction_scan (i # is) ind step =
     (if ind \<notin> set (written_gprs i) then induction_scan is ind step
      else case (step_of i ind, step) of
        (Some s, None) \<Rightarrow> induction_scan is ind (Some (s, xip i))
      | _ \<Rightarrow> None)"

definition induction_step :: "xinsn list \<Rightarrow> nat \<Rightarrow> (u64 \<times> u64) option" where
  "induction_step body ind = induction_scan body ind None"

definition flow_inside :: "u64 \<Rightarrow> u64 \<Rightarrow> xinsn \<Rightarrow> bool" where
  "flow_inside h e i = (case flow_control i of
     Cond_branch \<Rightarrow> \<not> (branch_target i < h \<or> e \<le> branch_target i)
   | Uncond_branch \<Rightarrow> \<not> (branch_target i < h \<or> e \<le> branch_target i)
   | Fall_through \<Rightarrow> True
   | Other_flow \<Rightarrow> False)"

text \<open>The comparison in front of the back edge: the induction register, the bound, a \<^verbatim>\<open>cmp\<close> or not.\<close>

definition compared :: "xinsn \<Rightarrow> (nat \<times> bound \<times> bool) option" where
  "compared prev =
     (if mnem prev = ''Cmp'' then
        (case gpr_index (xreg_of prev 0) of
           None \<Rightarrow> None
         | Some i \<Rightarrow>
             (case imm_of prev 1 of
                Some b \<Rightarrow> Some (i, B_Imm b, True)
              | None \<Rightarrow> map_option (\<lambda>r. (i, B_Reg r, True)) (gpr_index (xreg_of prev 1))))
      else if mnem prev = ''Add'' \<or> mnem prev = ''Sub'' then
        Option.bind (gpr_index (xreg_of prev 0)) (\<lambda>i. map_option (\<lambda>b. (i, B_Imm b, False)) (imm_of prev 1))
      else None)"

text \<open>The loop that the conditional branch \<open>br\<close> at \<open>addr\<close> closes, if it is one to split.\<close>

definition loop_at :: "insns \<Rightarrow> u64 \<Rightarrow> u64 list \<Rightarrow> u64 \<Rightarrow> xinsn \<Rightarrow> ploop option" where
  "loop_at is entry exits addr br =
     (if flow_control br \<noteq> Cond_branch then None
      else let h = branch_target br; e = next_ip br in
        if addr < h \<or> h \<notin> fst ` set is then None
        else if \<not> (h \<le> entry \<and> entry < e) \<and> h < entry then None
        else if \<exists>x \<in> set exits. h \<le> x \<and> x < e then None
        else let body = body_of is h e in
          if \<not> (\<forall>i \<in> set body. flow_inside h e i) \<or> length body < 2 then None
          else let prev = body ! (length body - 2) in
            (case compared prev of
               None \<Rightarrow> None
             | Some (ind, b, vc) \<Rightarrow>
                 (case induction_step body ind of
                    None \<Rightarrow> None
                  | Some (s, _) \<Rightarrow>
                      if (case b of B_Reg r \<Rightarrow> \<exists>i \<in> set body. r \<in> set (written_gprs i) | B_Imm x \<Rightarrow> False) then None
                      else Some \<lparr>lhead = h, lback = addr, lexit = e, lind = ind, lstep = s, lbound = b,
                             lcc = condition_code br, via_cmp = vc, from_add = (mnem prev = ''Add''),
                             lwidth = reg_size (xreg_of prev 0) * 8\<rparr>)))"

definition better :: "ploop option \<Rightarrow> ploop \<Rightarrow> ploop option" where
  "better best lp = (case best of
     None \<Rightarrow> Some lp
   | Some b \<Rightarrow> if lexit b - lhead b < lexit lp - lhead lp then Some lp else Some b)"

definition find_loop :: "insns \<Rightarrow> u64 \<Rightarrow> u64 list \<Rightarrow> ploop option" where
  "find_loop is entry exits =
     fold (\<lambda>(addr, br) best. case loop_at is entry exits addr br of None \<Rightarrow> best | Some lp \<Rightarrow> better best lp) is None"

section \<open>Trip counts\<close>

text \<open>The low \<open>width\<close> bits of a value, and their signed reading.\<close>

definition cut_u :: "nat \<Rightarrow> u64 \<Rightarrow> u64" where
  "cut_u w x = x AND (push_bit w 1 - 1)"

definition cut_s :: "nat \<Rightarrow> u64 \<Rightarrow> int" where
  "cut_s w x = sint (signed_drop_bit (64 - w) (push_bit (64 - w) (cut_u w x)))"

fun cond_holds :: "cond \<Rightarrow> u64 \<Rightarrow> u64 \<Rightarrow> int \<Rightarrow> int \<Rightarrow> bool option" where
  "cond_holds C_l ua ub sa sb = Some (sa < sb)"
| "cond_holds C_le ua ub sa sb = Some (sa \<le> sb)"
| "cond_holds C_g ua ub sa sb = Some (sb < sa)"
| "cond_holds C_ge ua ub sa sb = Some (sb \<le> sa)"
| "cond_holds C_b ua ub sa sb = Some (ua < ub)"
| "cond_holds C_be ua ub sa sb = Some (ua \<le> ub)"
| "cond_holds C_a ua ub sa sb = Some (ub < ua)"
| "cond_holds C_ae ua ub sa sb = Some (ub \<le> ua)"
| "cond_holds C_ne ua ub sa sb = Some (ua \<noteq> ub)"
| "cond_holds C_e ua ub sa sb = Some (ua = ub)"
| "cond_holds C_other ua ub sa sb = None"

definition continues :: "u64 \<Rightarrow> u64 \<Rightarrow> cond \<Rightarrow> nat \<Rightarrow> bool option" where
  "continues a b cc w =
     (if 64 \<le> w then cond_holds cc a b (sint a) (sint b)
      else cond_holds cc (cut_u w a) (cut_u w b) (cut_s w a) (cut_s w b))"

text \<open>Whether the loop goes on from the value \<open>i\<close> before a step.\<close>

definition goes_on :: "ploop \<Rightarrow> u64 \<Rightarrow> u64 \<Rightarrow> bool option" where
  "goes_on lp b i =
     (if via_cmp lp then continues (i + lstep lp) b (lcc lp) (lwidth lp)
      else if from_add lp then continues (i + lstep lp) 0 (lcc lp) (lwidth lp)
      else continues i b (lcc lp) (lwidth lp))"

definition TRIPS_MAX :: nat where "TRIPS_MAX = 2 ^ 27"

function iter_loop :: "ploop \<Rightarrow> u64 \<Rightarrow> u64 \<Rightarrow> nat \<Rightarrow> nat option" where
  "iter_loop lp b i n =
     (case goes_on lp b i of
        None \<Rightarrow> None
      | Some go \<Rightarrow>
          if \<not> go then Some n
          else if TRIPS_MAX < n + 1 then None
          else iter_loop lp b (i + lstep lp) (n + 1))"
  by pat_completeness auto
termination
  by (relation "measure (\<lambda>(lp, b, i, n). TRIPS_MAX - n)") auto

declare iter_loop.simps [simp del]

definition iterations :: "ploop \<Rightarrow> u64 \<Rightarrow> u64 \<Rightarrow> nat option" where
  "iterations lp i0 b =
     (if \<not> via_cmp lp \<and> from_add lp \<and> lcc lp \<in> {C_b, C_be, C_a, C_ae} then None
      else iter_loop lp b i0 1)"

section \<open>Memory ranges and the tracker\<close>

type_synonym form = "xreg \<times> xreg \<times> u32 \<times> u64"

record mem_range =
  raddr :: u64
  rlen :: u64
  rwrite :: bool
  rform :: form
  from_ind :: "nat option"
  dense :: bool

record tracker =
  tgpr :: "val list"
  tranges :: "mem_range list"
  resolved :: bool
  stored :: "(u64 \<times> u64) list"

definition tracker_new :: "u64 list \<Rightarrow> tracker" where
  "tracker_new gs = \<lparr>tgpr = map Known gs, tranges = [], resolved = True, stored = []\<rparr>"

definition reg_val :: "tracker \<Rightarrow> xreg \<Rightarrow> val" where
  "reg_val t r =
     (if r = No_reg then Known 0
      else case gpr_index r of
        None \<Rightarrow> Unknown
      | Some i \<Rightarrow>
          (case (tgpr t ! i, reg_size r) of
             (Known v, s) \<Rightarrow> (if s = 4 then Known (v AND 0xffffffff) else if s = 8 then Known v
                else if s = 2 then Known (v AND 0xffff) else if s = 1 then Known (v AND 0xff) else Unknown)
           | (v, s) \<Rightarrow> if s = 8 then v else Unknown))"

definition cut_val :: "nat \<Rightarrow> val \<Rightarrow> val" where
  "cut_val s v =
     (if s = 8 then v
      else if s = 4 then (case v of
          Known x \<Rightarrow> Known (x AND 0xffffffff)
        | Range lo hi step \<Rightarrow> if hi \<le> 0xffffffff then Range lo hi step else Unknown
        | Unknown \<Rightarrow> Unknown)
      else Unknown)"

definition set_reg :: "xreg \<Rightarrow> val \<Rightarrow> tracker \<Rightarrow> tracker" where
  "set_reg r v t = (case gpr_index r of
     None \<Rightarrow> t
   | Some i \<Rightarrow> t\<lparr>tgpr := (tgpr t)[i := cut_val (reg_size r) v]\<rparr>)"

definition address :: "tracker \<Rightarrow> xinsn \<Rightarrow> xreg \<Rightarrow> xreg \<Rightarrow> u32 \<Rightarrow> u64 \<Rightarrow> val" where
  "address t i b x s d =
     (if b = Rip 8 then Known (mem_disp i)
      else if mem_segment i \<noteq> No_reg \<and> mem_segment i \<noteq> Seg_user then Unknown
      else val_add (val_plus (reg_val t b) (val_times (reg_val t x) s)) d)"

fun is_range :: "val \<Rightarrow> bool" where
  "is_range (Range lo hi step) = True"
| "is_range _ = False"

fun range_source_scan :: "tracker \<Rightarrow> xreg list \<Rightarrow> nat option \<Rightarrow> nat option" where
  "range_source_scan t [] found = found"
| "range_source_scan t (r # rs) found =
     (case gpr_index r of
        Some i \<Rightarrow>
          if is_range (tgpr t ! i)
          then (if found \<noteq> None then None else range_source_scan t rs (Some i))
          else range_source_scan t rs found
      | None \<Rightarrow> range_source_scan t rs found)"

definition range_source :: "tracker \<Rightarrow> xreg \<Rightarrow> xreg \<Rightarrow> nat option" where
  "range_source t b x = range_source_scan t [b, x] None"

definition note_range :: "val \<Rightarrow> u64 \<Rightarrow> bool \<Rightarrow> bool \<Rightarrow> form \<Rightarrow> nat option \<Rightarrow> tracker \<Rightarrow> tracker" where
  "note_range a n w whole f ind t =
     (case a of
        Known x \<Rightarrow> t\<lparr>tranges := tranges t @ [\<lparr>raddr = x, rlen = n, rwrite = w, rform = f, from_ind = None,
                      dense = (\<not> w \<or> whole)\<rparr>],
                    stored := (if w then stored t @ [(x, n)] else stored t)\<rparr>
      | Range lo hi step \<Rightarrow>
          t\<lparr>tranges := tranges t @ [\<lparr>raddr = lo, rlen = hi - lo + n, rwrite = w, rform = f, from_ind = ind,
                      dense = (step \<le> n \<and> (\<not> w \<or> whole))\<rparr>],
            stored := (if w then stored t @ [(lo, hi - lo + n)] else stored t)\<rparr>
      | Unknown \<Rightarrow> t\<lparr>resolved := False\<rparr>)"

section \<open>One instruction\<close>

type_synonym reader = "u64 \<Rightarrow> nat \<Rightarrow> u64 option"

text \<open>A memory operand: the range it touches, and the value a \<^verbatim>\<open>mov\<close> loads from a known slot.\<close>

definition mem_operand :: "reader \<Rightarrow> xinsn \<Rightarrow> bool \<Rightarrow> used_mem \<Rightarrow> tracker \<times> u64 option \<Rightarrow> tracker \<times> u64 option" where
  "mem_operand rd i skippable m acc =
     (case acc of (t, loaded) \<Rightarrow>
        let w = acc_writes (um_access m);
            whole = (um_access m \<in> {Acc_Write, Acc_ReadWrite} \<and> \<not> skippable);
            n = (if um_size m = 0 then 64 else um_size m);
            a = address t i (um_base m) (um_index m) (um_scale m) (um_disp m);
            l = (if \<not> w \<and> mnem i = ''Mov'' \<and> xkind i 0 = K_Register \<and> n \<le> 8
                 then (case a of
                     Known x \<Rightarrow> if \<exists>(s, k) \<in> set (stored t). x < s + k \<and> s < x + n then loaded else rd x (unat n)
                   | _ \<Rightarrow> loaded)
                 else loaded)
        in (note_range a n w whole (um_base m, um_index m, um_scale m, um_disp m)
              (range_source t (um_base m) (um_index m)) t, l))"

definition forget :: "nat list \<Rightarrow> tracker \<Rightarrow> tracker" where
  "forget ws t = fold (\<lambda>w t. t\<lparr>tgpr := (tgpr t)[w := Unknown]\<rparr>) ws t"

text \<open>The value an instruction gives its destination; \<open>None\<close> when it gives none.\<close>

definition new_value :: "tracker \<Rightarrow> xinsn \<Rightarrow> u64 option \<Rightarrow> val option" where
  "new_value t i loaded =
     (let d = xreg_of i 0; m = mnem i in
      if m = ''Mov'' then
        (case xkind i 1 of
           K_Register \<Rightarrow> Some (reg_val t (xreg_of i 1))
         | K_Memory \<Rightarrow> Some (case loaded of None \<Rightarrow> Unknown | Some x \<Rightarrow> Known x)
         | _ \<Rightarrow> map_option Known (imm_of i 1))
      else if m = ''Lea'' then Some (address t i (mem_base i) (mem_index i) (mem_scale i) (mem_disp i))
      else if m = ''Add'' \<or> m = ''Sub'' then
        Some (case xkind i 1 of
            K_Register \<Rightarrow>
              (if m = ''Add'' then val_plus (reg_val t d) (reg_val t (xreg_of i 1))
               else case reg_val t (xreg_of i 1) of Known x \<Rightarrow> val_add (reg_val t d) (- x) | _ \<Rightarrow> Unknown)
          | _ \<Rightarrow> (case imm_of i 1 of
              None \<Rightarrow> Unknown
            | Some x \<Rightarrow> val_add (reg_val t d) (if m = ''Add'' then x else - x)))
      else if m = ''Inc'' then Some (val_add (reg_val t d) 1)
      else if m = ''Dec'' then Some (val_add (reg_val t d) (- 1))
      else if m = ''Xor'' \<and> xkind i 1 = K_Register \<and> xreg_of i 1 = d then Some (Known 0)
      else if m = ''And'' then Some (case (reg_val t d, imm_of i 1) of (Known x, Some v) \<Rightarrow> Known (x AND v) | _ \<Rightarrow> Unknown)
      else if m = ''Shl'' then
        Some (case (reg_val t d, imm_of i 1) of (Known x, Some v) \<Rightarrow> Known (push_bit (unat (v AND 63)) x) | _ \<Rightarrow> Unknown)
      else if m = ''Shr'' then
        Some (case (reg_val t d, imm_of i 1) of (Known x, Some v) \<Rightarrow> Known (drop_bit (unat (v AND 63)) x) | _ \<Rightarrow> Unknown)
      else if m \<in> {''Cmp'', ''Test'', ''Push'', ''Pop''} then None
      else Some Unknown)"

text \<open>\<^verbatim>\<open>push\<close> and \<^verbatim>\<open>pop\<close> move the stack pointer.\<close>

definition stack_move :: "xinsn \<Rightarrow> tracker \<Rightarrow> tracker" where
  "stack_move i t =
     (if mnem i = ''Push'' then t\<lparr>tgpr := (tgpr t)[4 := val_add (tgpr t ! 4) (- 8)]\<rparr>
      else if mnem i = ''Pop'' then
        (let g = (tgpr t)[4 := val_add (tgpr t ! 4) 8] in
         t\<lparr>tgpr := (case gpr_index (xreg_of i 0) of None \<Rightarrow> g | Some d \<Rightarrow> g[d := Unknown])\<rparr>)
      else t)"

definition in_skips :: "(u64 \<times> u64) list \<Rightarrow> u64 \<Rightarrow> bool" where
  "in_skips skips a \<longleftrightarrow> (\<exists>(j, t) \<in> set skips. j < a \<and> a < t)"

definition track_step :: "reader \<Rightarrow> xinsn \<Rightarrow> (u64 \<times> u64) list \<Rightarrow> ploop list \<Rightarrow> tracker \<Rightarrow> tracker" where
  "track_step rd i skips inner t0 =
     (case fold (mem_operand rd i (in_skips skips (xip i))) (used_mems i) (t0, None) of (t, loaded) \<Rightarrow>
        let ws = written_gprs i in
        case find (\<lambda>lp. lhead lp \<le> xip i \<and> xip i < lexit lp) inner of
          Some lp \<Rightarrow> forget (filter (\<lambda>w. w \<noteq> lind lp) ws) t
        | None \<Rightarrow>
            if in_skips skips (xip i) then forget ws t
            else (case new_value t i loaded of
                None \<Rightarrow> stack_move i t
              | Some v \<Rightarrow>
                  forget (filter (\<lambda>w. Some w \<noteq> gpr_index (xreg_of i 0)) ws)
                    (if xkind i 0 = K_Register then set_reg (xreg_of i 0) v t else t)))"

section \<open>A phase\<close>

text \<open>The general registers of an instruction as (index, reads, writes).\<close>

definition gpr_uses :: "xinsn \<Rightarrow> (nat \<times> bool \<times> bool) list" where
  "gpr_uses i = concat (map (\<lambda>(r, a). case gpr_index r of
       None \<Rightarrow> [] | Some n \<Rightarrow> [(n, acc_reads a, acc_writes a)]) (used_regs i))"

definition carried_step :: "(nat \<times> bool \<times> bool) list \<Rightarrow> nat \<times> bool \<times> bool \<Rightarrow> nat list \<times> nat list \<Rightarrow> nat list \<times> nat list" where
  "carried_step uses u wc =
     (case (u, wc) of ((i, rd, wr), (written, carried)) \<Rightarrow>
        if i = 4 \<or> i = 5 then (written, carried)
        else (if wr \<and> i \<notin> set written then written @ [i] else written,
              if rd \<and> i \<notin> set written \<and> (\<exists>r. (i, r, True) \<in> set uses) \<and> i \<notin> set carried
              then carried @ [i] else carried))"

definition carried_gprs :: "insns \<Rightarrow> u64 \<Rightarrow> u64 \<Rightarrow> nat list" where
  "carried_gprs is a b =
     (let uses = concat (map gpr_uses (body_of is a b)) in snd (fold (carried_step uses) uses ([], [])))"

text \<open>A register stepped by \<open>s\<close>, over \<open>n\<close> trips from \<open>r0\<close>.\<close>

definition trip_range :: "u64 \<Rightarrow> u64 \<Rightarrow> u64 \<Rightarrow> val" where
  "trip_range r0 s n =
     (let lst = r0 + s * (n - 1) in
      if 0 < sint s then Range r0 lst s else Range lst r0 (- s))"

definition enter_outer :: "insns \<Rightarrow> u64 \<Rightarrow> u64 \<Rightarrow> nat \<times> u64 \<times> u64 \<times> u64 \<Rightarrow> tracker \<Rightarrow> tracker" where
  "enter_outer is a b outer t0 =
     (case outer of (ind, lo, hi, step) \<Rightarrow>
        let n = (if step = 0 then 1 else (hi - lo) div step + 1) in
        fold (\<lambda>r t. if r = ind then t else
            t\<lparr>tgpr := (tgpr t)[r := (case (tgpr t ! r, induction_step (body_of is a b) r) of
               (Known r0, Some (s, _)) \<Rightarrow> trip_range r0 s n
             | _ \<Rightarrow> Unknown)]\<rparr>)
          (carried_gprs is a b) (t0\<lparr>tgpr := (tgpr t0)[ind := Range lo hi step]\<rparr>))"

text \<open>The loops nested in a phase, the intervals a branch can skip, and whether every back edge is known.\<close>

definition branch_scan :: "insns \<Rightarrow> u64 \<Rightarrow> u64 \<Rightarrow> bool \<Rightarrow> u64 \<times> xinsn \<Rightarrow>
    ploop list \<times> (u64 \<times> u64) list \<times> bool \<Rightarrow> ploop list \<times> (u64 \<times> u64) list \<times> bool" where
  "branch_scan is a b has_outer ai acc =
     (case (ai, acc) of ((addr, i), (inner, skips, res)) \<Rightarrow>
        if flow_control i \<noteq> Cond_branch \<and> flow_control i \<noteq> Uncond_branch then acc
        else let t = branch_target i in
          if t \<le> addr then
            (let closed = (if a \<le> t then insn_range is t (next_ip i) else []);
                 found = (case find_loop closed t [] of
                     Some lp \<Rightarrow> if lhead lp = t \<and> lback lp = addr then Some lp else None
                   | None \<Rightarrow> None)
             in case found of
                  Some lp \<Rightarrow> (inner @ [lp], skips, res)
                | None \<Rightarrow> if has_outer \<and> t = a then acc else (inner, skips, False))
          else if t < b then (inner, skips @ [(addr, t)], res)
          else acc)"

definition leave_loops :: "(u64 \<times> nat \<times> val) list \<Rightarrow> u64 \<Rightarrow> tracker \<Rightarrow> tracker" where
  "leave_loops at addr t =
     fold (\<lambda>(e, r, v) t. if addr = e then t\<lparr>tgpr := (tgpr t)[r := v]\<rparr> else t) at t"

text \<open>The trip count of a nested loop from the values at its head; \<open>None\<close>: the phase is not resolved.\<close>

definition loop_trips :: "tracker \<Rightarrow> ploop \<Rightarrow> (u64 \<times> nat) option" where
  "loop_trips t lp =
     (case tgpr t ! lind lp of
        Known i0 \<Rightarrow>
          (case (case lbound lp of B_Imm b \<Rightarrow> Some b
                 | B_Reg r \<Rightarrow> (case tgpr t ! r of Known b \<Rightarrow> Some b | _ \<Rightarrow> None)) of
             None \<Rightarrow> None
           | Some b \<Rightarrow> map_option (\<lambda>n. (i0, n)) (iterations lp i0 b))
      | _ \<Rightarrow> None)"

definition enter_loop :: "insns \<Rightarrow> ploop \<Rightarrow> u64 \<Rightarrow> nat \<Rightarrow> tracker \<Rightarrow> tracker" where
  "enter_loop is lp i0 n t =
     forget (filter (\<lambda>w. w \<noteq> lind lp) (concat (map written_gprs (body_of is (lhead lp) (lexit lp)))))
       (t\<lparr>tgpr := (tgpr t)[lind lp := trip_range i0 (lstep lp) (of_nat n)]\<rparr>)"

definition run_step :: "reader \<Rightarrow> insns \<Rightarrow> (u64 \<times> u64) list \<Rightarrow> ploop list \<Rightarrow> u64 \<times> xinsn \<Rightarrow>
    (u64 \<times> nat \<times> val) list \<times> tracker \<Rightarrow> (u64 \<times> nat \<times> val) list \<times> tracker" where
  "run_step rd is skips inner ai lt =
     (case (ai, lt) of ((addr, i), (at, t0)) \<Rightarrow>
        let t = leave_loops at addr t0 in
        case find (\<lambda>lp. lhead lp = addr) inner of
          None \<Rightarrow> (at, track_step rd i skips inner t)
        | Some lp \<Rightarrow>
            (case loop_trips t lp of
               None \<Rightarrow> (at, t\<lparr>resolved := False\<rparr>)
             | Some (i0, n) \<Rightarrow>
                 (at @ [(lexit lp, lind lp, Known (i0 + lstep lp * of_nat n))],
                  track_step rd i skips inner (enter_loop is lp i0 n t))))"

definition track_run :: "reader \<Rightarrow> insns \<Rightarrow> u64 \<Rightarrow> u64 \<Rightarrow> (nat \<times> u64 \<times> u64 \<times> u64) option \<Rightarrow> tracker \<Rightarrow> tracker" where
  "track_run rd is a b outer t0 =
     (let t1 = (case outer of None \<Rightarrow> t0 | Some u \<Rightarrow> enter_outer is a b u t0);
          rng = insn_range is a b in
      case fold (branch_scan is a b (outer \<noteq> None)) rng ([], [], resolved t1) of (inner0, skips, res) \<Rightarrow>
        let inner = filter (\<lambda>lp. \<not> (outer \<noteq> None \<and> lhead lp = a)) inner0
        in snd (fold (run_step rd is skips inner) rng ([], t1\<lparr>resolved := res\<rparr>)))"

section \<open>The ranges of a phase\<close>

type_synonym seg = "u64 \<times> u64 \<times> bool \<times> bool \<times> bool"

definition seg_of :: "mem_range \<Rightarrow> seg" where
  "seg_of r = (raddr r, rlen r, rwrite r, \<not> rwrite r, dense r \<and> rwrite r)"

definition merge_seg :: "seg \<Rightarrow> seg list \<Rightarrow> seg list" where
  "merge_seg x out =
     (case x of (a, l, w, rd, d) \<Rightarrow>
        if out \<noteq> [] \<and> a \<le> fst (last out) + fst (snd (last out)) + 4095
        then (case last out of (a0, l0, w0, rd0, d0) \<Rightarrow>
          let gap = (a0 + l0 < a); e = max (a0 + l0) (a + l) in
          butlast out @ [(a0, e - a0, w0 \<or> w, rd0 \<or> rd, d0 \<and> d \<and> \<not> gap)])
        else out @ [x])"

definition merged :: "tracker \<Rightarrow> seg list" where
  "merged t = fold merge_seg (sort (map seg_of (tranges t))) []"

section \<open>Splitting a loop\<close>

definition split_step :: "(xreg \<times> bool \<times> bool) list \<Rightarrow> nat \<Rightarrow> xreg \<times> bool \<times> bool \<Rightarrow> xreg list option \<Rightarrow> xreg list option" where
  "split_step uses ind u acc =
     (case acc of None \<Rightarrow> None
      | Some written \<Rightarrow> (case u of (r, rd, wr) \<Rightarrow>
          if r = Rip 8 \<or> r = Gp 4 8 \<or> r = Gp 5 8 then Some written
          else if rd \<and> gpr_index r \<noteq> Some ind \<and> r \<notin> set written \<and> (\<exists>x. (r, x, True) \<in> set uses) then None
          else Some (if wr \<and> r \<notin> set written then written @ [r] else written)))"

definition reg_uses :: "xinsn \<Rightarrow> (xreg \<times> bool \<times> bool) list" where
  "reg_uses i = map (\<lambda>(r, a). (full_register r, acc_reads a, acc_writes a)) (used_regs i)"

datatype split_error = Carried_register | Store_not_indexed | Store_overlaps_load

definition overlaps :: "mem_range \<Rightarrow> mem_range \<Rightarrow> bool" where
  "overlaps w l \<longleftrightarrow> raddr w < raddr l + rlen l \<and> raddr l < raddr w + rlen w"

text \<open>\<open>None\<close> is \<^verbatim>\<open>Ok\<close>.\<close>

definition splittable :: "insns \<Rightarrow> ploop \<Rightarrow> tracker \<Rightarrow> split_error option" where
  "splittable is lp t =
     (let uses = concat (map reg_uses (body_of is (lhead lp) (lexit lp))) in
      if fold (split_step uses (lind lp)) uses (Some []) = None then Some Carried_register
      else if \<exists>r \<in> set (tranges t). rwrite r \<and> from_ind r \<noteq> Some (lind lp) then Some Store_not_indexed
      else if \<exists>w \<in> set (tranges t). rwrite w \<and> (\<exists>l \<in> set (tranges t). \<not> rwrite l \<and> overlaps w l \<and> rform w \<noteq> rform l)
      then Some Store_overlaps_load
      else None)"

end
