(* ===== verification/Plan_Trips.thy ===== *)
theory Plan_Trips
  imports Plan
begin

text \<open>
  The trip counts of \<^verbatim>\<open>host/crates/phi512/src/plan.rs\<close> against the flags of the processor: a
  specification of the flags that \<^verbatim>\<open>cmp\<close>, \<^verbatim>\<open>sub\<close> and \<^verbatim>\<open>add\<close> set at a width and of the conditions
  that read them, and the count of \<open>iterations\<close> as the number of times the body really runs.
\<close>

section \<open>Flags\<close>

text \<open>Carry, zero, sign and overflow after subtracting or adding at \<open>w\<close> bits.\<close>

record flags =
  CF :: bool
  ZF :: bool
  SF :: bool
  OF :: bool

definition sread :: "nat \<Rightarrow> u64 \<Rightarrow> int" where
  "sread w x = signed_take_bit (w - 1) (uint x)"

definition uread :: "nat \<Rightarrow> u64 \<Rightarrow> int" where
  "uread w x = take_bit w (uint x)"

definition sub_flags :: "nat \<Rightarrow> u64 \<Rightarrow> u64 \<Rightarrow> flags" where
  "sub_flags w a b = \<lparr>CF = (uread w a < uread w b), ZF = (take_bit w (uint a - uint b) = 0),
     SF = (signed_take_bit (w - 1) (uint a - uint b) < 0),
     OF = (signed_take_bit (w - 1) (uint a - uint b) \<noteq> sread w a - sread w b)\<rparr>"

definition add_flags :: "nat \<Rightarrow> u64 \<Rightarrow> u64 \<Rightarrow> flags" where
  "add_flags w a b = \<lparr>CF = (2 ^ w \<le> uread w a + uread w b), ZF = (take_bit w (uint a + uint b) = 0),
     SF = (signed_take_bit (w - 1) (uint a + uint b) < 0),
     OF = (signed_take_bit (w - 1) (uint a + uint b) \<noteq> sread w a + sread w b)\<rparr>"

fun cc_true :: "cond \<Rightarrow> flags \<Rightarrow> bool" where
  "cc_true C_l f = (SF f \<noteq> OF f)"
| "cc_true C_le f = (ZF f \<or> SF f \<noteq> OF f)"
| "cc_true C_g f = (\<not> ZF f \<and> SF f = OF f)"
| "cc_true C_ge f = (SF f = OF f)"
| "cc_true C_b f = CF f"
| "cc_true C_be f = (CF f \<or> ZF f)"
| "cc_true C_a f = (\<not> CF f \<and> \<not> ZF f)"
| "cc_true C_ae f = (\<not> CF f)"
| "cc_true C_ne f = (\<not> ZF f)"
| "cc_true C_e f = ZF f"
| "cc_true C_other f = False"

section \<open>Readings of a value\<close>

lemma cut_u_take_bit: "cut_u w x = take_bit w x"
  by (simp add: cut_u_def take_bit_eq_mask mask_eq_exp_minus_1 push_bit_eq_mult)

lemma uint_cut_u: "uint (cut_u w x) = uread w x"
  by (simp add: cut_u_take_bit uread_def unsigned_take_bit_eq)

lemma sint_cut_s:
  assumes "0 < w" "w < 64"
  shows "cut_s w x = sread w x"
proof (rule bit_eqI)
  fix n
  consider "n < w - 1" | "n = w - 1" | "w \<le> n" using assms(1) by linarith
  then show "bit (cut_s w x) n = bit (sread w x) n"
    using assms unfolding cut_s_def sread_def cut_u_take_bit
    by cases (auto simp: bit_simps bit_signed_take_bit_iff sint_uint min_def bit_uint_iff)
qed

text \<open>The operand widths of the instructions that set flags.\<close>

definition width_ok :: "nat \<Rightarrow> bool" where
  "width_ok w \<longleftrightarrow> w \<in> {8, 16, 32, 64}"

lemma width_okD: "width_ok w \<Longrightarrow> 0 < w" "width_ok w \<Longrightarrow> w \<le> 64"
  by (auto simp: width_ok_def)

lemma continues_readings:
  assumes "width_ok w"
  shows "continues a b cc w = (case cc of
      C_l \<Rightarrow> Some (sread w a < sread w b) | C_le \<Rightarrow> Some (sread w a \<le> sread w b)
    | C_g \<Rightarrow> Some (sread w b < sread w a) | C_ge \<Rightarrow> Some (sread w b \<le> sread w a)
    | C_b \<Rightarrow> Some (uread w a < uread w b) | C_be \<Rightarrow> Some (uread w a \<le> uread w b)
    | C_a \<Rightarrow> Some (uread w b < uread w a) | C_ae \<Rightarrow> Some (uread w b \<le> uread w a)
    | C_ne \<Rightarrow> Some (uread w a \<noteq> uread w b) | C_e \<Rightarrow> Some (uread w a = uread w b)
    | C_other \<Rightarrow> None)"
proof (cases "w = 64")
  case True
  have u: "uread 64 x = uint x" for x :: u64 by (simp add: uread_def take_bit_int_eq_self uint_lt2p[where 'a = 64, simplified])
  have s: "sread 64 x = sint x" for x :: u64 by (simp add: sread_def sint_uint)
  show ?thesis unfolding True continues_def by (cases cc) (simp_all add: u s word_less_def word_le_def word_uint_eq_iff)
next
  case False
  then have w: "0 < w" "w < 64" "\<not> 64 \<le> w" using assms by (auto simp: width_ok_def)
  show ?thesis using w(3) unfolding continues_def
    by (cases cc) (simp_all add: sint_cut_s[OF w(1,2)] uint_cut_u[symmetric] word_less_def word_le_def word_uint_eq_iff)
qed

section \<open>Conditions\<close>

lemma take_bit_diff: "take_bit w (uint a - uint b) = 0 \<longleftrightarrow> uread w a = uread w b"
  unfolding uread_def by (metis (no_types, opaque_lifting) mod_eq_dvd_iff take_bit_eq_mod mod_0_imp_dvd dvd_imp_mod_0)

lemma sread_bounds: "0 < w \<Longrightarrow> - (2 ^ (w - 1)) \<le> sread w x \<and> sread w x < 2 ^ (w - 1)"
  unfolding sread_def by (simp add: signed_take_bit_int_greater_eq_minus_exp signed_take_bit_int_less_exp)

lemma signed_take_bit_readings:
  "signed_take_bit (w - 1) (uint a - uint b) = signed_take_bit (w - 1) (sread w a - sread w b)"
  "signed_take_bit (w - 1) (uint a + uint b) = signed_take_bit (w - 1) (sread w a + sread w b)"
  unfolding sread_def by (simp_all add: signed_take_bit_diff signed_take_bit_add)

text \<open>A signed result is the exact one, or off by \<open>2 ^ w\<close> (and then of the other sign).\<close>

lemma signed_wrap:
  fixes x :: int
  assumes "0 < w" "- (2 ^ w) \<le> x" "x < 2 ^ w"
  shows "(signed_take_bit (w - 1) x < 0) \<noteq> (signed_take_bit (w - 1) x \<noteq> x) \<longleftrightarrow> x < 0"
proof -
  let ?h = "2 ^ (w - 1) :: int"
  have h: "2 ^ w = 2 * ?h" using assms(1) by (metis Suc_diff_1 power_Suc)
  have sb: "signed_take_bit (w - 1) x = (x + ?h) mod (2 * ?h) - ?h"
    using assms(1) unfolding h[symmetric] by (simp add: signed_take_bit_eq_take_bit_shift take_bit_eq_mod)
  have hp: "0 < ?h" by simp
  consider "x < - ?h" | "- ?h \<le> x" "x < ?h" | "?h \<le> x" by linarith
  then show ?thesis
  proof cases
    case 1
    have "(x + ?h) mod (2 * ?h) = x + ?h + 2 * ?h"
      by (subst mod_add_self2[symmetric], rule mod_pos_pos_trivial) (use 1 assms(2) h in linarith)+
    then show ?thesis using sb 1 assms(2) h hp by linarith
  next
    case 2
    have "(x + ?h) mod (2 * ?h) = x + ?h" using mod_pos_pos_trivial[of "x + ?h" "2 * ?h"] 2 by simp
    then show ?thesis using sb by simp
  next
    case 3
    have "(x + ?h) mod (2 * ?h) = x + ?h - 2 * ?h"
      by (subst minus_mod_self2[symmetric], rule mod_pos_pos_trivial) (use 3 assms(3) h in linarith)+
    then show ?thesis using sb 3 assms(3) h hp by linarith
  qed
qed

text \<open>After a comparison the conditions order the operands.\<close>

lemma cmp_conditions:
  assumes "width_ok w" "cc \<noteq> C_other"
  shows "continues a b cc w = Some (cc_true cc (sub_flags w a b))"
proof -
  have w: "0 < w" using width_okD[OF assms(1)] by simp
  have dbl: "2 ^ w = 2 * (2 ^ (w - 1) :: int)" using w by (metis Suc_diff_1 power_Suc)
  have lt: "(SF (sub_flags w a b) \<noteq> OF (sub_flags w a b)) \<longleftrightarrow> sread w a < sread w b"
    using signed_wrap[OF w, of "sread w a - sread w b"] sread_bounds[OF w, of a] sread_bounds[OF w, of b]
    unfolding sub_flags_def signed_take_bit_readings dbl by simp
  have z: "ZF (sub_flags w a b) \<longleftrightarrow> uread w a = uread w b" by (simp add: sub_flags_def take_bit_diff)
  have zs: "uread w a = uread w b \<longleftrightarrow> sread w a = sread w b"
    unfolding uread_def sread_def using w by (metis Suc_diff_1 signed_take_bit_eq_iff_take_bit_eq)
  have c: "CF (sub_flags w a b) \<longleftrightarrow> uread w a < uread w b" by (simp add: sub_flags_def)
  show ?thesis unfolding continues_readings[OF assms(1)]
    using lt z zs c assms(2) by (cases cc) auto
qed


text \<open>After an addition that does not overflow, the signed conditions compare the result with zero.\<close>

lemma add_conditions:
  assumes "width_ok w" "cc \<in> {C_l, C_le, C_g, C_ge, C_ne, C_e}" "\<not> OF (add_flags w a n)"
  shows "continues (a + n) 0 cc w = Some (cc_true cc (add_flags w a n))"
proof -
  have w: "0 < w" "w \<le> 64" using width_okD[OF assms(1)] by simp_all
  have ua: "take_bit 64 (uint a + uint n) = uint (a + n)" by (simp add: uint_word_ariths take_bit_eq_mod)
  have u: "uread w (a + n) = take_bit w (uint a + uint n)"
    unfolding uread_def ua[symmetric] using w(2) by (simp add: take_bit_take_bit min_def)
  have s: "sread w (a + n) = signed_take_bit (w - 1) (uint a + uint n)"
    unfolding sread_def ua[symmetric] using w by (auto simp: signed_take_bit_take_bit)
  have zero: "uread w 0 = 0" "sread w 0 = 0" by (simp_all add: uread_def sread_def)
  have zs: "uread w x = 0 \<longleftrightarrow> sread w x = 0" for x
    unfolding uread_def sread_def using w(1) by (metis Suc_diff_1 signed_take_bit_eq_iff_take_bit_eq signed_take_bit_of_0 take_bit_of_0)
  have f: "SF (add_flags w a n) \<longleftrightarrow> sread w (a + n) < 0" "ZF (add_flags w a n) \<longleftrightarrow> uread w (a + n) = 0"
    by (simp_all add: add_flags_def u s)
  show ?thesis unfolding continues_readings[OF assms(1)] zero
    using f zs[of "a + n"] assms(2,3) by auto
qed

section \<open>The loop\<close>

text \<open>The flags at the back edge of the trip that starts with \<open>i\<close> in the induction register.\<close>

definition trip_flags :: "ploop \<Rightarrow> u64 \<Rightarrow> u64 \<Rightarrow> flags" where
  "trip_flags lp b i =
     (if via_cmp lp then sub_flags (lwidth lp) (i + lstep lp) b
      else if from_add lp then add_flags (lwidth lp) i (lstep lp)
      else sub_flags (lwidth lp) i b)"

definition trip_value :: "ploop \<Rightarrow> u64 \<Rightarrow> nat \<Rightarrow> u64" where
  "trip_value lp i0 k = i0 + of_nat k * lstep lp"

text \<open>The body runs exactly \<open>n\<close> times: the branch is taken after every trip but the last.\<close>

definition runs :: "ploop \<Rightarrow> u64 \<Rightarrow> u64 \<Rightarrow> nat \<Rightarrow> bool" where
  "runs lp b i0 n \<longleftrightarrow> 0 < n \<and>
     (\<forall>k < n. cc_true (lcc lp) (trip_flags lp b (trip_value lp i0 k)) \<longleftrightarrow> k < n - 1)"

definition planned :: "ploop \<Rightarrow> bool" where
  "planned lp \<longleftrightarrow> width_ok (lwidth lp) \<and> lcc lp \<noteq> C_other \<and>
     (\<not> via_cmp lp \<and> from_add lp \<longrightarrow> lcc lp \<notin> {C_b, C_be, C_a, C_ae})"

definition adds_exactly :: "ploop \<Rightarrow> u64 \<Rightarrow> u64 \<Rightarrow> nat \<Rightarrow> bool" where
  "adds_exactly lp b i0 n \<longleftrightarrow> via_cmp lp \<or> \<not> from_add lp \<or> (\<forall>k < n. \<not> OF (trip_flags lp b (trip_value lp i0 k)))"

lemma goes_on_flags:
  assumes "planned lp" "via_cmp lp \<or> \<not> from_add lp \<or> \<not> OF (trip_flags lp b i)"
  shows "goes_on lp b i = Some (cc_true (lcc lp) (trip_flags lp b i))"
proof -
  have p: "width_ok (lwidth lp)" "lcc lp \<noteq> C_other" using assms(1) by (auto simp: planned_def)
  show ?thesis
  proof (cases "via_cmp lp \<or> \<not> from_add lp")
    case True
    then show ?thesis using cmp_conditions[OF p] by (auto simp: goes_on_def trip_flags_def)
  next
    case False
    then have "lcc lp \<in> {C_l, C_le, C_g, C_ge, C_ne, C_e}" using assms(1) by (cases "lcc lp") (auto simp: planned_def)
    from add_conditions[OF p(1) this, of i "lstep lp"] show ?thesis using False assms(2)
      by (auto simp: goes_on_def trip_flags_def)
  qed
qed

lemma trip_value_Suc: "trip_value lp (i + lstep lp) k = trip_value lp i (Suc k)"
  by (simp add: trip_value_def algebra_simps)

lemma iter_loop_ge: "iter_loop lp b i c = Some e \<Longrightarrow> c \<le> e"
proof (induction lp b i c rule: iter_loop.induct)
  case (1 lp b i c)
  consider "goes_on lp b i = None" | "goes_on lp b i = Some False" | "goes_on lp b i = Some True" "TRIPS_MAX < c + 1"
    | "goes_on lp b i = Some True" "\<not> TRIPS_MAX < c + 1" by (cases "goes_on lp b i") auto
  then show ?case
  proof cases
    case 4
    then have "iter_loop lp b i c = iter_loop lp b (i + lstep lp) (c + 1)" by (subst iter_loop.simps) simp
    then show ?thesis using 1(1)[OF 4(1) _ 4(2)] 1(2) by simp
  qed (use 1(2) iter_loop.simps[of lp b i c] in simp_all)
qed

lemma iter_loop_step:
  "goes_on lp b i = Some False \<Longrightarrow> iter_loop lp b i c = Some c"
  "goes_on lp b i = Some True \<Longrightarrow> c < TRIPS_MAX \<Longrightarrow> iter_loop lp b i c = iter_loop lp b (i + lstep lp) (c + 1)"
  by (subst iter_loop.simps, simp)+

lemma iter_loop_exact:
  assumes "planned lp" "adds_exactly lp b i n" "c \<le> TRIPS_MAX" "0 < n"
  shows "iter_loop lp b i c = Some (c + n - 1) \<longleftrightarrow> runs lp b i n \<and> c + n - 1 \<le> TRIPS_MAX"
  using assms(2-)
proof (induction n arbitrary: i c)
  case (Suc n)
  have v0: "trip_value lp i 0 = i" by (simp add: trip_value_def)
  have go: "goes_on lp b i = Some (cc_true (lcc lp) (trip_flags lp b i))"
    by (rule goes_on_flags[OF assms(1)]) (use Suc.prems(1) v0 in \<open>auto simp: adds_exactly_def dest: spec[of _ 0]\<close>)
  show ?case
  proof (cases "cc_true (lcc lp) (trip_flags lp b i)")
    case False
    then have it: "iter_loop lp b i c = Some c" by (subst iter_loop.simps) (simp add: go)
    have "runs lp b i (Suc n) \<longleftrightarrow> n = 0" using False v0 by (auto simp: runs_def)
    then show ?thesis using it Suc.prems(2) by auto
  next
    case True
    show ?thesis
    proof (cases n)
      case 0
      have nr: "\<not> runs lp b i (Suc 0)" using True v0 by (auto simp: runs_def)
      have "iter_loop lp b i c \<noteq> Some c"
        using iter_loop_ge[of lp b "i + lstep lp" "c + 1" c] True by (subst iter_loop.simps) (auto simp: go)
      then show ?thesis using nr 0 by simp
    next
      case (Suc m)
      have ex: "adds_exactly lp b (i + lstep lp) n"
        using Suc.prems(1) unfolding adds_exactly_def trip_value_Suc by auto
      have rn: "runs lp b i (Suc n) \<longleftrightarrow> runs lp b (i + lstep lp) n"
      proof -
        have all: "(\<forall>k < Suc n. P k) \<longleftrightarrow> P 0 \<and> (\<forall>k < n. P (Suc k))" for P :: "nat \<Rightarrow> bool"
          by (auto simp: less_Suc_eq_0_disj)
        show ?thesis unfolding runs_def trip_value_Suc all v0 using True Suc by auto
      qed
      show ?thesis
      proof (cases "TRIPS_MAX < c + 1")
        case big: True
        then have "iter_loop lp b i c = None" using True by (subst iter_loop.simps) (simp add: go)
        then show ?thesis using big Suc by auto
      next
        case False
        then have "iter_loop lp b i c = iter_loop lp b (i + lstep lp) (c + 1)"
          using True by (subst iter_loop.simps) (simp add: go)
        moreover have "iter_loop lp b (i + lstep lp) (c + 1) = Some (c + 1 + n - 1) \<longleftrightarrow>
            runs lp b (i + lstep lp) n \<and> c + 1 + n - 1 \<le> TRIPS_MAX"
          by (rule Suc.IH[OF ex]) (use False Suc in auto)
        ultimately show ?thesis using rn by simp
      qed
    qed
  qed
qed simp


section \<open>Properties\<close>

text \<open>
  C27. The trip count is the real one, for a recognised loop whose condition can be planned (\<open>planned\<close>: a
  width the flags have, a condition of \<^verbatim>\<open>continues\<close>, and no unsigned condition behind an \<^verbatim>\<open>add\<close>) and
  whose additions, when it ends on an \<^verbatim>\<open>add\<close>, do not overflow as signed numbers (\<open>adds_exactly\<close>).  Then
  \<^verbatim>\<open>iterations\<close> answers \<open>n\<close> exactly when the body runs \<open>n\<close> times by the processor's own flags
  (those of the \<^verbatim>\<open>cmp\<close>, the \<^verbatim>\<open>sub\<close> or the \<^verbatim>\<open>add\<close> before the branch, at the operand's width) and
  \<open>n\<close> is at most 2^27.  Past an overflow the count is wrong (\<open>add_trips_ignore_overflow\<close> below).
\<close>

theorem iterations_exact:
  assumes "planned lp" "0 < n" "adds_exactly lp b i0 n"
  shows "iterations lp i0 b = Some n \<longleftrightarrow> runs lp b i0 n \<and> n \<le> TRIPS_MAX"
proof -
  have "(1 :: nat) \<le> TRIPS_MAX" by (simp add: TRIPS_MAX_def)
  from iter_loop_exact[OF assms(1,3) this assms(2)] show ?thesis
    using assms(1) by (auto simp: iterations_def planned_def)
qed

text \<open>A loop that counts \<^verbatim>\<open>eax\<close> up by 8 below a bound.\<close>

definition demo_loop :: ploop where
  "demo_loop = \<lparr>lhead = 0x1000, lback = 0x1010, lexit = 0x1012, lind = 0, lstep = 8, lbound = B_Imm 24, lcc = C_b,
     via_cmp = True, from_add = False, lwidth = 32\<rparr>"

theorem iterations_exact_witness:
  "(iterations demo_loop 0 24 = Some 3 \<longleftrightarrow> runs demo_loop 24 0 3 \<and> 3 \<le> TRIPS_MAX) \<and> iterations demo_loop 0 24 = Some 3"
proof (rule conjI)
  show "iterations demo_loop 0 24 = Some 3 \<longleftrightarrow> runs demo_loop 24 0 3 \<and> 3 \<le> TRIPS_MAX"
    by (rule iterations_exact) (simp_all add: planned_def demo_loop_def width_ok_def adds_exactly_def)
  have g: "goes_on demo_loop 24 0 = Some True" "goes_on demo_loop 24 8 = Some True" "goes_on demo_loop 24 16 = Some False"
    by code_simp+
  have "lstep demo_loop = 8" "via_cmp demo_loop" by (simp_all add: demo_loop_def)
  then show "iterations demo_loop 0 24 = Some 3"
    unfolding iterations_def using iter_loop_step(2)[OF g(1)] iter_loop_step(2)[OF g(2)] iter_loop_step(1)[OF g(3)]
    by (simp add: TRIPS_MAX_def)
qed

text \<open>
  Past an overflow the count of a loop that ends on an \<^verbatim>\<open>add\<close> is not the processor's: with the
  signed condition \<open>l\<close> the branch reads SF and OF, the planner only the wrapped result.
\<close>

definition add_loop :: ploop where
  "add_loop = demo_loop\<lparr>lstep := 2 ^ 62, lcc := C_l, via_cmp := False, from_add := True, lwidth := 64\<rparr>"

lemma add_trips_ignore_overflow:
  "iterations add_loop (2 ^ 63 - 1) 0 = Some 3 \<and> runs add_loop 0 (2 ^ 63 - 1) 1"
proof
  have g: "goes_on add_loop 0 (2 ^ 63 - 1) = Some True" "goes_on add_loop 0 (2 ^ 63 - 1 + 2 ^ 62) = Some True"
    "goes_on add_loop 0 (2 ^ 63 - 1 + 2 ^ 62 + 2 ^ 62) = Some False" by code_simp+
  have "lstep add_loop = 2 ^ 62" "lcc add_loop = C_l" by (simp_all add: add_loop_def)
  then show "iterations add_loop (2 ^ 63 - 1) 0 = Some 3"
    unfolding iterations_def using iter_loop_step(2)[OF g(1), of 1] iter_loop_step(2)[OF g(2), of 2] iter_loop_step(1)[OF g(3), of 3]
    by (simp add: TRIPS_MAX_def flip: numeral_2_eq_2)
  have "\<not> cc_true (lcc add_loop) (trip_flags add_loop 0 (trip_value add_loop (2 ^ 63 - 1) 0))" by code_simp
  then show "runs add_loop 0 (2 ^ 63 - 1) 1" by (simp add: runs_def)
qed

end
