(* ===== verification/Plan_Ranges.thy ===== *)
theory Plan_Ranges
  imports Plan
begin

text \<open>
  What the ranges of \<^verbatim>\<open>host/crates/phi512/src/plan.rs\<close> promise: an abstract value stands for
  every concrete one, a noted range contains every access, a dense range is written whole, the
  merge loses no byte and separates what it keeps apart, and the registers found carried are
  those read before they are written.
\<close>

section \<open>What a value stands for\<close>

text \<open>\<open>Range lo hi step\<close>: from \<open>lo\<close> to \<open>hi\<close> inclusive, stepping by \<open>step\<close>.\<close>

fun denotes :: "val \<Rightarrow> u64 \<Rightarrow> bool" where
  "denotes (Known v) x = (x = v)"
| "denotes (Range lo hi step) x = (\<exists>k. unat x = unat lo + k * unat step \<and> unat x \<le> unat hi)"
| "denotes Unknown x = True"

text \<open>A range that does not wrap around and ends on a step.\<close>

fun proper :: "val \<Rightarrow> bool" where
  "proper (Range lo hi step) = denotes (Range lo hi step) hi"
| "proper _ = True"

lemma shift_range:
  fixes lo hi x d :: u64
  assumes "unat x = unat lo + k * unat step" "unat x \<le> unat hi" "lo + d \<le> hi + d"
  shows "unat (x + d) = unat (lo + d) + k * unat step \<and> unat (x + d) \<le> unat (hi + d)"
proof -
  have b: "unat hi < 2 ^ 64" "unat d < 2 ^ 64" "unat lo < 2 ^ 64" using u64_less[of hi] u64_less[of d] u64_less[of lo] by simp_all
  have p: "unat (y + d) = (if unat y + unat d < 2 ^ 64 then unat y + unat d else unat y + unat d - 2 ^ 64)" for y :: u64
    using unat_add_lem[of y d] unat_word_ariths(1)[of y d] u64_less[of y] b(2) by (simp add: mod_if)
  have o: "unat (lo + d) \<le> unat (hi + d)" using assms(3) by (simp add: word_le_nat_alt)
  show ?thesis using o assms(1,2) unfolding p[of x] p[of lo] p[of hi] using b by (auto split: if_splits)
qed

lemma denotes_add:
  assumes "denotes v x" "proper (val_add v d)"
  shows "denotes (val_add v d) (x + d)"
proof (cases v)
  case (Range lo hi step)
  obtain k where k: "unat x = unat lo + k * unat step" "unat x \<le> unat hi" using assms(1) Range by auto
  have "lo + d \<le> hi + d" using assms(2) Range by (auto simp: word_le_nat_alt)
  from shift_range[OF k this] show ?thesis using Range by auto
qed (use assms in auto)

lemma denotes_plus:
  assumes "denotes a x" "denotes b y" "proper (val_plus a b)"
  shows "denotes (val_plus a b) (x + y)"
proof (cases a; cases b)
  fix v lo hi step assume ab: "a = Known v" "b = Range lo hi step"
  have "denotes (val_add b v) (y + v)" by (rule denotes_add) (use assms ab in auto)
  then show ?thesis using assms ab by (simp add: add.commute)
next
  fix lo hi step v assume ab: "a = Range lo hi step" "b = Known v"
  have "denotes (val_add a v) (x + v)" by (rule denotes_add) (use assms ab in auto)
  then show ?thesis using assms ab by simp
qed (use assms in auto)

lemma denotes_times:
  assumes "denotes v x" "\<And>lo hi step. v = Range lo hi step \<Longrightarrow> unat hi * unat s < 2 ^ 64 \<and> unat step * unat s < 2 ^ 64"
  shows "denotes (val_times v s) (x * ucast s)"
proof (cases v)
  case (Range lo hi step)
  obtain k where k: "unat x = unat lo + k * unat step" "unat x \<le> unat hi" using assms(1) Range by auto
  have s: "unat (ucast s :: u64) = unat s" by simp
  have m: "unat (y * ucast s) = unat y * unat s" if "unat y * unat s < 2 ^ 64" for y :: u64
    using unat_mult_lem[of y "ucast s"] that by simp
  have hi: "unat hi * unat s < 2 ^ 64" and st: "unat step * unat s < 2 ^ 64" using assms(2)[OF Range] by auto
  have xs: "unat x * unat s < 2 ^ 64" using k(2) hi by (meson le_less_trans mult_le_mono1)
  have ls: "unat lo * unat s < 2 ^ 64" using k hi by (metis le_add1 le_less_trans mult_le_mono1)
  have "unat x * unat s \<le> unat hi * unat s" using k(2) by (rule mult_le_mono1)
  moreover have "unat x * unat s = unat lo * unat s + k * (unat step * unat s)" using k(1) by (simp add: algebra_simps)
  ultimately show ?thesis using m[OF xs] m[OF ls] m[OF hi] m[OF st] Range by (auto intro!: exI[of _ k])
qed (use assms in auto)

section \<open>Noted ranges\<close>

text \<open>A byte of a range, and the range an access becomes.\<close>

definition in_range :: "mem_range \<Rightarrow> nat \<Rightarrow> bool" where
  "in_range r x \<longleftrightarrow> unat (raddr r) \<le> x \<and> x < unat (raddr r) + unat (rlen r)"

text \<open>An access of \<open>n\<close> bytes at any address \<open>a\<close> stands for stays below the end of memory.\<close>

fun fits :: "val \<Rightarrow> u64 \<Rightarrow> bool" where
  "fits (Known x) n = (unat x + unat n < 2 ^ 64)"
| "fits (Range lo hi step) n = (unat hi + unat n < 2 ^ 64)"
| "fits Unknown n = True"

lemma note_range_covers:
  assumes "denotes a x" "proper a" "fits a n" "a \<noteq> Unknown" "unat x \<le> y" "y < unat x + unat n"
  shows "\<exists>r. tranges (note_range a n w whole f ind t) = tranges t @ [r] \<and> rwrite r = w \<and> rform r = f \<and> in_range r y"
proof (cases a)
  case (Range lo hi step)
  have le: "unat lo \<le> unat hi" using assms(2) Range by auto
  have "unat (hi - lo) = unat hi - unat lo" using le by (simp add: unat_sub word_le_nat_alt)
  then have "unat (hi - lo + n) = unat hi - unat lo + unat n"
    using unat_add_u64[of "hi - lo" n] assms(3) Range le by simp
  moreover have "unat lo \<le> unat x" "unat x \<le> unat hi" using assms(1) Range by auto
  ultimately show ?thesis using Range assms(5,6) le by (auto simp: note_range_def in_range_def)
qed (use assms in \<open>auto simp: note_range_def in_range_def\<close>)

text \<open>In a dense range every byte belongs to an access.\<close>

lemma note_range_dense:
  assumes "proper a" "fits a n" "a \<noteq> Unknown" "tranges (note_range a n w whole f ind t) = tranges t @ [r]" "dense r"
    "in_range r y"
  shows "\<exists>x. denotes a x \<and> unat x \<le> y \<and> y < unat x + unat n"
proof (cases a)
  case (Range lo hi step)
  obtain m where m: "unat hi = unat lo + m * unat step" using assms(1) Range by auto
  have d: "unat step \<le> unat n" using assms(4,5) Range by (auto simp: note_range_def word_le_nat_alt)
  have len: "unat (hi - lo + n) = m * unat step + unat n"
    using unat_add_u64[of "hi - lo" n] assms(2) Range m by (simp add: unat_sub word_le_nat_alt)
  have y: "unat lo \<le> y" "y < unat hi + unat n"
    using assms(4,6) Range len m by (auto simp: note_range_def in_range_def)
  let ?k = "if unat step = 0 then 0 else min m ((y - unat lo) div unat step)"
  let ?x = "lo + of_nat ?k * step"
  have k: "?k * unat step \<le> m * unat step" by simp
  have x: "unat ?x = unat lo + ?k * unat step"
  proof -
    have "unat lo + ?k * unat step < 2 ^ 64" using k m u64_less[of hi] by linarith
    then have "unat (word_of_nat (unat lo + ?k * unat step) :: u64) = unat lo + ?k * unat step"
      by (rule unat_of_nat_u64)
    moreover have "(word_of_nat (unat lo + ?k * unat step) :: u64) = ?x" by simp
    ultimately show ?thesis by metis
  qed
  have "y < unat ?x + unat n \<and> unat ?x \<le> y"
  proof (cases "unat step = 0")
    case True
    then show ?thesis using x y m by simp
  next
    case False
    show ?thesis
    proof (cases "m \<le> (y - unat lo) div unat step")
      case True
      then have "m * unat step \<le> y - unat lo" using False by (simp add: less_eq_div_iff_mult_less_eq)
      then show ?thesis using x y m True False by simp
    next
      case False': False
      define q where "q = (y - unat lo) div unat step"
      have q: "q * unat step \<le> y - unat lo" "y - unat lo < q * unat step + unat step"
        using False dividend_less_div_times[of "unat step" "y - unat lo"] unfolding q_def
        by (simp_all add: add.commute)
      have "unat ?x = unat lo + q * unat step" using x False False' by (simp add: q_def)
      then show ?thesis using y d q by linarith
    qed
  qed
  moreover have "denotes a ?x" using x k m Range by (auto intro!: exI[of _ ?k])
  ultimately show ?thesis by blast
qed (use assms in \<open>auto simp: note_range_def in_range_def\<close>)


section \<open>Merged ranges\<close>

text \<open>A range that ends, with a page to spare, below the end of memory.\<close>

definition range_fits :: "mem_range \<Rightarrow> bool" where
  "range_fits r \<longleftrightarrow> unat (raddr r) + unat (rlen r) + 4096 < 2 ^ 64"

definition seg_start :: "seg \<Rightarrow> nat" where "seg_start x = unat (fst x)"
definition seg_end :: "seg \<Rightarrow> nat" where "seg_end x = unat (fst x) + unat (fst (snd x))"
definition seg_written :: "seg \<Rightarrow> bool" where "seg_written x = fst (snd (snd x))"
definition seg_read :: "seg \<Rightarrow> bool" where "seg_read x = fst (snd (snd (snd x)))"
definition seg_dense :: "seg \<Rightarrow> bool" where "seg_dense x = snd (snd (snd (snd x)))"

lemmas seg_defs = seg_start_def seg_end_def seg_written_def seg_read_def seg_dense_def

definition in_seg :: "seg \<Rightarrow> nat \<Rightarrow> bool" where
  "in_seg x y \<longleftrightarrow> seg_start x \<le> y \<and> y < seg_end x"

text \<open>A merged segment and the parts \<open>ps\<close> it was made of.\<close>

definition made_of :: "seg \<Rightarrow> seg set \<Rightarrow> bool" where
  "made_of x ps \<longleftrightarrow> ps \<noteq> {} \<and> seg_end x + 4096 < 2 ^ 64 \<and>
     (\<forall>p \<in> ps. seg_start x \<le> seg_start p \<and> seg_end p \<le> seg_end x) \<and>
     (seg_written x \<longleftrightarrow> (\<exists>p \<in> ps. seg_written p)) \<and> (seg_read x \<longleftrightarrow> (\<exists>p \<in> ps. seg_read p)) \<and>
     (seg_dense x \<longrightarrow> (\<forall>p \<in> ps. seg_dense p) \<and> (\<forall>y. in_seg x y \<longrightarrow> (\<exists>p \<in> ps. in_seg p y)))"

text \<open>The segments so far: apart by more than a page, and nothing lost of the parts \<open>ps\<close>.\<close>

definition merge_inv :: "seg list \<Rightarrow> seg set \<Rightarrow> bool" where
  "merge_inv out ps \<longleftrightarrow> sorted_wrt (\<lambda>x y. seg_end x + 4095 < seg_start y) out \<and>
     (\<exists>f. (\<forall>x \<in> set out. made_of x (f x)) \<and> ps = (\<Union>x \<in> set out. f x))"

lemma merge_seg_end:
  assumes "made_of (a0, l0, w0, r0, d0) ps" "seg_start (a0, l0, w0, r0, d0) \<le> seg_start (a, l, w, r, d)"
    "seg_end (a, l, w, r, d) + 4096 < 2 ^ 64" "a \<le> a0 + l0 + 4095"
  shows "made_of (a0, max (a0 + l0) (a + l) - a0, w0 \<or> w, r0 \<or> r, d0 \<and> d \<and> \<not> a0 + l0 < a) (insert (a, l, w, r, d) ps)"
proof -
  have e0: "unat (a0 + l0) = unat a0 + unat l0" using assms(1) by (intro unat_add_u64) (simp add: made_of_def seg_defs)
  have e: "unat (a + l) = unat a + unat l" using assms(3) by (intro unat_add_u64) (simp add: seg_defs)
  let ?e = "max (a0 + l0) (a + l)"
  have m: "unat ?e = max (unat a0 + unat l0) (unat a + unat l)"
    unfolding e0[symmetric] e[symmetric] by (simp add: max_def word_le_nat_alt)
  have "unat a0 \<le> unat ?e" unfolding m by simp
  then have len: "unat a0 + unat (?e - a0) = unat ?e" by (simp add: unat_sub word_le_nat_alt)
  have lt: "a0 + l0 < a \<longleftrightarrow> unat a0 + unat l0 < unat a" by (simp add: word_less_nat_alt e0)
  let ?x = "(a0, ?e - a0, w0 \<or> w, r0 \<or> r, d0 \<and> d \<and> \<not> a0 + l0 < a)"
  let ?y = "(a0, l0, w0, r0, d0)" and ?n = "(a, l, w, r, d)"
  have se: "seg_start ?x = seg_start ?y" "seg_end ?x = max (seg_end ?y) (seg_end ?n)"
    by (simp_all add: seg_start_def seg_end_def len m)
  have old: "ps \<noteq> {}" "seg_end ?y + 4096 < 2 ^ 64" "\<forall>p \<in> ps. seg_start ?y \<le> seg_start p \<and> seg_end p \<le> seg_end ?y"
    "w0 \<longleftrightarrow> (\<exists>p \<in> ps. seg_written p)" "r0 \<longleftrightarrow> (\<exists>p \<in> ps. seg_read p)"
    "d0 \<Longrightarrow> (\<forall>p \<in> ps. seg_dense p) \<and> (\<forall>y. in_seg ?y y \<longrightarrow> (\<exists>p \<in> ps. in_seg p y))"
    using assms(1) unfolding made_of_def by (auto simp: seg_written_def seg_read_def seg_dense_def)
  have "\<exists>p \<in> insert ?n ps. in_seg p y" if "seg_dense ?x" "in_seg ?x y" for y
  proof (cases "y < seg_end ?y")
    case True
    then have "in_seg ?y y" using that(2) se by (simp add: in_seg_def)
    then show ?thesis using old(6) that(1) by (auto simp: seg_dense_def)
  next
    case False
    have "seg_start ?n \<le> seg_end ?y" using that(1) lt by (auto simp: seg_dense_def seg_start_def seg_end_def)
    then have "in_seg ?n y" using False that(2) se by (simp add: in_seg_def less_max_iff_disj)
    then show ?thesis by blast
  qed
  moreover have "\<forall>p \<in> insert ?n ps. seg_dense p" if "seg_dense ?x" using that old(6) by (auto simp: seg_dense_def)
  moreover have "\<forall>p \<in> insert ?n ps. seg_start ?x \<le> seg_start p \<and> seg_end p \<le> seg_end ?x"
    using old(3) assms(2) unfolding se by auto
  moreover have "seg_end ?x + 4096 < 2 ^ 64" using old(2) assms(3) unfolding se by simp
  ultimately show ?thesis unfolding made_of_def using old(4,5) by (auto simp: seg_written_def seg_read_def)
qed

lemma merge_seg_inv:
  assumes inv: "merge_inv out ps" and x: "seg_end x + 4096 < 2 ^ 64" and o: "\<forall>p \<in> set out. seg_start p \<le> seg_start x"
  shows "merge_inv (merge_seg x out) (insert x ps) \<and> (\<forall>p \<in> set (merge_seg x out). seg_start p \<le> seg_start x)"
proof -
  obtain a l w r d where xx: "x = (a, l, w, r, d)" by (cases x) auto
  obtain f where f: "\<forall>y \<in> set out. made_of y (f y)" "ps = (\<Union>y \<in> set out. f y)" and
    st: "sorted_wrt (\<lambda>x y. seg_end x + 4095 < seg_start y) out"
    using inv unfolding merge_inv_def by blast
  have single: "made_of x {x}" using x by (auto simp: made_of_def)
  show ?thesis
  proof (cases "out = []")
    case True
    then have "merge_seg x out = [x]" by (simp add: merge_seg_def xx)
    then show ?thesis using single f(2) True by (auto simp: merge_inv_def intro!: exI[of _ "\<lambda>_. {x}"])
  next
    case False
    obtain us y where out: "out = us @ [y]" using False by (metis append_butlast_last_id)
    obtain a0 l0 w0 r0 d0 where y: "y = (a0, l0, w0, r0, d0)" by (cases y) auto
    have my: "made_of y (f y)" using f(1) out by simp
    have sep: "\<forall>z \<in> set us. seg_end z + 4095 < seg_start y" "sorted_wrt (\<lambda>x y. seg_end x + 4095 < seg_start y) us"
      using st unfolding out by (simp_all add: sorted_wrt_append)
    have e0: "unat (a0 + l0 + 4095) = unat a0 + unat l0 + 4095"
      using my y by (simp add: made_of_def seg_end_def unat_add_u64)
    have far: "\<not> a \<le> a0 + l0 + 4095 \<longleftrightarrow> seg_end y + 4095 < seg_start x"
      by (simp add: word_le_nat_alt e0 xx y seg_end_def seg_start_def not_le)
    have us_start: "\<forall>z \<in> set us. seg_start z \<le> seg_start x" using o out by simp
    show ?thesis
    proof (cases "a \<le> a0 + l0 + 4095")
      case False
      have eq: "merge_seg x out = out @ [x]" using False by (simp add: merge_seg_def xx out y)
      have le: "seg_start y \<le> seg_end y" by (simp add: seg_start_def seg_end_def)
      have "sorted_wrt (\<lambda>x y. seg_end x + 4095 < seg_start y) (out @ [x])"
        using st sep(1) far False le unfolding out by (fastforce simp: sorted_wrt_append)
      moreover have "x \<notin> set out" using far False sep(1) le unfolding out by (auto simp: seg_start_def seg_end_def)
      moreover define g where "g = f(x := {x})"
      moreover have g: "z \<in> set out \<Longrightarrow> g z = f z" "g x = {x}" for z using calculation(2) by (auto simp: g_def)
      moreover have "insert x ps = (\<Union>z \<in> set (out @ [x]). g z)"
      proof -
        have "(\<Union>z \<in> set out. g z) = ps" unfolding f(2) by (intro SUP_cong) (auto simp: g)
        then show ?thesis using g(2) by simp
      qed
      moreover have "\<forall>z \<in> set (out @ [x]). made_of z (g z)" using f(1) single g by auto
      moreover have "\<forall>p \<in> set (out @ [x]). seg_start p \<le> seg_start x" using o by auto
      ultimately show ?thesis unfolding eq merge_inv_def by blast
    next
      case True
      let ?m = "(a0, max (a0 + l0) (a + l) - a0, w0 \<or> w, r0 \<or> r, d0 \<and> d \<and> \<not> a0 + l0 < a)"
      have eq: "merge_seg x out = us @ [?m]" using True by (simp add: merge_seg_def xx out y Let_def)
      have m: "made_of ?m (insert x (f y))"
        unfolding xx by (rule merge_seg_end) (use my y x o out xx True in auto)
      have sm: "seg_start ?m = seg_start y" by (simp add: seg_start_def y)
      have "sorted_wrt (\<lambda>x y. seg_end x + 4095 < seg_start y) (us @ [?m])"
        using sep sm by (simp add: sorted_wrt_append)
      moreover have "?m \<notin> set us"
      proof
        assume "?m \<in> set us"
        then have "seg_end ?m + 4095 < seg_start ?m" using sep(1) sm by auto
        then show False by (simp add: seg_start_def seg_end_def)
      qed
      moreover have "seg_start ?m \<le> seg_start x" using o out sm by simp
      moreover define g where "g = f(?m := insert x (f y))"
      moreover have g: "z \<in> set us \<Longrightarrow> g z = f z" "g ?m = insert x (f y)" for z using calculation(2) by (auto simp: g_def)
      moreover have "insert x ps = (\<Union>z \<in> set (us @ [?m]). g z)"
      proof -
        have "(\<Union>z \<in> set us. g z) = (\<Union>z \<in> set us. f z)" by (intro SUP_cong) (auto simp: g)
        then show ?thesis using g(2) f(2) out by auto
      qed
      moreover have "\<forall>z \<in> set (us @ [?m]). made_of z (g z)" using f(1) m g out by auto
      moreover have "\<forall>p \<in> set (us @ [?m]). seg_start p \<le> seg_start x" using us_start calculation(3) by auto
      ultimately show ?thesis unfolding eq merge_inv_def by blast
    qed
  qed
qed

lemma merge_all:
  "merge_inv out ps \<Longrightarrow> sorted (map fst xs) \<Longrightarrow> \<forall>x \<in> set xs. seg_end x + 4096 < 2 ^ 64 \<Longrightarrow>
   \<forall>p \<in> set out. \<forall>x \<in> set xs. seg_start p \<le> seg_start x \<Longrightarrow> merge_inv (fold merge_seg xs out) (ps \<union> set xs)"
proof (induction xs arbitrary: out ps)
  case (Cons x xs)
  have m: "merge_inv (merge_seg x out) (insert x ps)" "\<forall>p \<in> set (merge_seg x out). seg_start p \<le> seg_start x"
    using merge_seg_inv[OF Cons.prems(1)] Cons.prems(3,4) by auto
  have "\<forall>z \<in> set xs. seg_start x \<le> seg_start z" using Cons.prems(2) by (auto simp: seg_start_def word_le_nat_alt)
  then have "\<forall>p \<in> set (merge_seg x out). \<forall>z \<in> set xs. seg_start p \<le> seg_start z" using m(2) le_trans by blast
  from Cons.IH[OF m(1) _ _ this] Cons.prems(2,3) show ?case by simp
qed simp

lemma merged_inv:
  assumes "\<forall>r \<in> set (tranges t). range_fits r"
  shows "merge_inv (merged t) (seg_of ` set (tranges t))"
proof -
  let ?xs = "sort (map seg_of (tranges t))"
  have "sorted (map fst ?xs)"
  proof -
    have "sorted ?xs" by simp
    then show ?thesis unfolding sorted_map by (rule sorted_wrt_mono_rel[rotated]) (auto simp: less_eq_prod_def)
  qed
  moreover have "\<forall>x \<in> set ?xs. seg_end x + 4096 < 2 ^ 64" using assms by (auto simp: range_fits_def seg_end_def seg_of_def)
  moreover have "merge_inv [] {}" by (simp add: merge_inv_def)
  ultimately show ?thesis using merge_all[of "[]" "{}" ?xs] by (simp add: merged_def)
qed


section \<open>Carried registers\<close>

text \<open>Read before any write of a sequence of register uses, and written somewhere in it.\<close>

definition read_first :: "('r \<times> bool \<times> bool) list \<Rightarrow> 'r \<Rightarrow> bool" where
  "read_first us r \<longleftrightarrow> (\<exists>pre w post. us = pre @ (r, True, w) # post \<and> (\<forall>x. (r, x, True) \<notin> set pre)) \<and>
     (\<exists>x. (r, x, True) \<in> set us)"

definition read_unwritten :: "('r \<times> bool \<times> bool) list \<Rightarrow> 'r set \<Rightarrow> 'r \<Rightarrow> bool" where
  "read_unwritten us ws r \<longleftrightarrow> (\<exists>pre w post. us = pre @ (r, True, w) # post \<and> r \<notin> ws \<and> (\<forall>x. (r, x, True) \<notin> set pre))"

lemma read_unwritten_Cons:
  "read_unwritten ((s, rd, wr) # us) ws r \<longleftrightarrow>
     (s = r \<and> rd \<and> r \<notin> ws) \<or> read_unwritten us (if wr then insert s ws else ws) r"
proof
  assume "read_unwritten ((s, rd, wr) # us) ws r"
  then obtain pre w post where p: "(s, rd, wr) # us = pre @ (r, True, w) # post" "r \<notin> ws" "\<forall>x. (r, x, True) \<notin> set pre"
    unfolding read_unwritten_def by blast
  show "(s = r \<and> rd \<and> r \<notin> ws) \<or> read_unwritten us (if wr then insert s ws else ws) r"
  proof (cases pre)
    case Nil
    then show ?thesis using p by auto
  next
    case (Cons c pre')
    then have "us = pre' @ (r, True, w) # post" "c = (s, rd, wr)" using p(1) by auto
    moreover have "r \<notin> (if wr then insert s ws else ws)" using p(2,3) Cons calculation(2) by auto
    moreover have "\<forall>x. (r, x, True) \<notin> set pre'" using p(3) Cons by auto
    ultimately show ?thesis unfolding read_unwritten_def by blast
  qed
next
  assume "(s = r \<and> rd \<and> r \<notin> ws) \<or> read_unwritten us (if wr then insert s ws else ws) r"
  then show "read_unwritten ((s, rd, wr) # us) ws r"
  proof
    assume a: "s = r \<and> rd \<and> r \<notin> ws"
    then have "(s, rd, wr) # us = [] @ (r, True, wr) # us" by simp
    then show ?thesis using a unfolding read_unwritten_def by (intro exI[of _ "[]"]) auto
  next
    assume "read_unwritten us (if wr then insert s ws else ws) r"
    then obtain pre w post where p: "us = pre @ (r, True, w) # post" "r \<notin> (if wr then insert s ws else ws)" "\<forall>x. (r, x, True) \<notin> set pre"
      unfolding read_unwritten_def by blast
    have "(s, rd, wr) # us = ((s, rd, wr) # pre) @ (r, True, w) # post" using p(1) by simp
    moreover have "r \<notin> ws" "\<forall>x. (r, x, True) \<notin> set ((s, rd, wr) # pre)" using p(2,3) by (auto split: if_splits)
    ultimately show ?thesis unfolding read_unwritten_def by blast
  qed
qed

lemma carried_fold:
  "set (snd (fold (carried_step uses) us (ws, cs))) =
     set cs \<union> {r. r \<noteq> 4 \<and> r \<noteq> 5 \<and> read_unwritten us (set ws) r \<and> (\<exists>x. (r, x, True) \<in> set uses)}"
proof (induction us arbitrary: ws cs)
  case Nil
  then show ?case by (auto simp: read_unwritten_def)
next
  case (Cons u us)
  obtain s rd wr where u: "u = (s, rd, wr)" by (cases u) auto
  obtain ws' cs' where st: "carried_step uses u (ws, cs) = (ws', cs')" by (cases "carried_step uses u (ws, cs)") auto
  show ?case
  proof (cases "s = 4 \<or> s = 5")
    case True
    then have "ws' = ws" "cs' = cs" using st u by (auto simp: carried_step_def)
    moreover have "r \<noteq> 4 \<Longrightarrow> r \<noteq> 5 \<Longrightarrow> read_unwritten us (set ws) r = read_unwritten us (if wr then insert s (set ws) else set ws) r" for r
      using True by (auto simp: read_unwritten_def)
    ultimately show ?thesis using True unfolding u fold_simps st[unfolded u] o_def Cons.IH read_unwritten_Cons by auto
  next
    case False
    then have "set ws' = (if wr then insert s (set ws) else set ws)"
      "set cs' = set cs \<union> (if rd \<and> s \<notin> set ws \<and> (\<exists>x. (s, x, True) \<in> set uses) then {s} else {})"
      using st u by (auto simp: carried_step_def split: if_splits)
    then show ?thesis using False unfolding u fold_simps st[unfolded u] o_def Cons.IH read_unwritten_Cons by auto
  qed
qed

lemma carried_gprs_iff:
  "r \<in> set (carried_gprs is a b) \<longleftrightarrow> r \<noteq> 4 \<and> r \<noteq> 5 \<and> read_first (concat (map gpr_uses (body_of is a b))) r"
  unfolding carried_gprs_def Let_def carried_fold read_first_def read_unwritten_def by auto

lemma split_fold_None: "fold (split_step uses ind) us None = None"
  by (induction us) (simp_all add: split_step_def)

lemma split_fold:
  "fold (split_step uses ind) us (Some ws) = None \<longleftrightarrow>
     (\<exists>r. r \<noteq> Rip 8 \<and> r \<noteq> Gp 4 8 \<and> r \<noteq> Gp 5 8 \<and> gpr_index r \<noteq> Some ind \<and> read_unwritten us (set ws) r \<and>
        (\<exists>x. (r, x, True) \<in> set uses))"
proof (induction us arbitrary: ws)
  case Nil
  then show ?case by (auto simp: read_unwritten_def)
next
  case (Cons u us)
  obtain s rd wr where u: "u = (s, rd, wr)" by (cases u) auto
  let ?skip = "s = Rip 8 \<or> s = Gp 4 8 \<or> s = Gp 5 8"
  let ?bad = "rd \<and> gpr_index s \<noteq> Some ind \<and> s \<notin> set ws \<and> (\<exists>x. (s, x, True) \<in> set uses)"
  have stp: "split_step uses ind u (Some ws) =
      (if ?skip then Some ws else if ?bad then None else Some (if wr \<and> s \<notin> set ws then ws @ [s] else ws))"
    by (simp add: split_step_def u)
  consider "?skip" | "\<not> ?skip" "?bad" | "\<not> ?skip" "\<not> ?bad" by blast
  then show ?case
  proof cases
    case 1
    have same: "r \<noteq> s \<Longrightarrow> read_unwritten us (if wr then insert s (set ws) else set ws) r = read_unwritten us (set ws) r" for r
      by (auto simp: read_unwritten_def)
    have f: "fold (split_step uses ind) ((s, rd, wr) # us) (Some ws) = fold (split_step uses ind) us (Some ws)"
      using 1 stp u by simp
    have eq: "r \<noteq> Rip 8 \<Longrightarrow> r \<noteq> Gp 4 8 \<Longrightarrow> r \<noteq> Gp 5 8 \<Longrightarrow>
        read_unwritten ((s, rd, wr) # us) (set ws) r = read_unwritten us (set ws) r" for r
      unfolding read_unwritten_Cons using 1 same[of r] by blast
    show ?thesis unfolding u f Cons.IH by (rule iff_exI) (use eq in \<open>simp cong: conj_cong\<close>)
  next
    case 2
    then have "fold (split_step uses ind) ((s, rd, wr) # us) (Some ws) = None"
      using stp u by (simp add: split_fold_None)
    moreover have "read_unwritten ((s, rd, wr) # us) (set ws) s" unfolding read_unwritten_Cons using 2 by blast
    ultimately show ?thesis unfolding u using 2 by blast
  next
    case 3
    define ws' where "ws' = (if wr \<and> s \<notin> set ws then ws @ [s] else ws)"
    have f: "fold (split_step uses ind) ((s, rd, wr) # us) (Some ws) = fold (split_step uses ind) us (Some ws')"
      unfolding fold_simps o_def stp[unfolded u] ws'_def[symmetric] if_not_P[OF 3(1)] if_not_P[OF 3(2)] by (rule refl)
    have set: "set ws' = (if wr then insert s (set ws) else set ws)" by (auto simp: ws'_def)
    have same: "gpr_index r \<noteq> Some ind \<Longrightarrow> (\<exists>x. (r, x, True) \<in> set uses) \<Longrightarrow>
        read_unwritten ((s, rd, wr) # us) (set ws) r = read_unwritten us (set ws') r" for r
    proof (cases "s = r \<and> rd \<and> r \<notin> set ws")
      case True
      assume "gpr_index r \<noteq> Some ind" "\<exists>x. (r, x, True) \<in> set uses"
      then have False using True 3(2) by simp
      then show ?thesis ..
    qed (simp only: read_unwritten_Cons set simp_thms)
    show ?thesis unfolding u f Cons.IH by (rule iff_exI) (use same in blast)
  qed
qed

section \<open>Addresses\<close>

text \<open>A register file the tracker's values stand for.\<close>

definition tracks :: "tracker \<Rightarrow> u64 list \<Rightarrow> bool" where
  "tracks t g \<longleftrightarrow> length (tgpr t) = 16 \<and> length g = 16 \<and> (\<forall>k < 16. denotes (tgpr t ! k) (g ! k))"

text \<open>A 64-bit address register (or none), its contents, and the effective address.\<close>

definition wide :: "xreg \<Rightarrow> bool" where
  "wide r \<longleftrightarrow> r = No_reg \<or> (\<exists>k < 16. r = Gp k 8)"

definition reg_content :: "u64 list \<Rightarrow> xreg \<Rightarrow> u64" where
  "reg_content g r = (case gpr_index r of None \<Rightarrow> 0 | Some k \<Rightarrow> g ! k)"

definition effective :: "u64 list \<Rightarrow> xreg \<Rightarrow> xreg \<Rightarrow> u32 \<Rightarrow> u64 \<Rightarrow> u64" where
  "effective g b x s d = reg_content g b + reg_content g x * ucast s + d"

text \<open>No intermediate range of the address computation wraps around.\<close>

fun scalable :: "val \<Rightarrow> u32 \<Rightarrow> bool" where
  "scalable (Range lo hi step) s = (unat hi * unat s < 2 ^ 64 \<and> unat step * unat s < 2 ^ 64)"
| "scalable _ s = True"

definition no_wrap :: "tracker \<Rightarrow> xreg \<Rightarrow> xreg \<Rightarrow> u32 \<Rightarrow> u64 \<Rightarrow> u64 \<Rightarrow> bool" where
  "no_wrap t b x s d n \<longleftrightarrow>
     (let i = val_times (reg_val t x) s; a = val_plus (reg_val t b) i in
      scalable (reg_val t x) s \<and> proper a \<and> proper (val_add a d) \<and> fits (val_add a d) n)"

lemma reg_val_denotes:
  assumes "tracks t g" "wide r"
  shows "denotes (reg_val t r) (reg_content g r)"
proof (cases "r = No_reg")
  case True
  then show ?thesis by (simp add: reg_val_def reg_content_def gpr_index.simps)
next
  case False
  then obtain k where "k < 16" "r = Gp k 8" using assms(2) by (auto simp: wide_def)
  then show ?thesis using assms(1) by (auto simp: reg_val_def reg_content_def gpr_index.simps tracks_def split: val.split)
qed

lemma address_denotes:
  assumes "tracks t g" "wide b" "wide x" "no_wrap t b x s d n"
  shows "denotes (address t i b x s d) (effective g b x s d)"
proof -
  have "denotes (val_times (reg_val t x) s) (reg_content g x * ucast s)"
    by (rule denotes_times[OF reg_val_denotes[OF assms(1,3)]]) (use assms(4) in \<open>simp add: no_wrap_def Let_def\<close>)
  moreover have "proper (val_plus (reg_val t b) (val_times (reg_val t x) s))"
    "proper (val_add (val_plus (reg_val t b) (val_times (reg_val t x) s)) d)"
    using assms(4) by (simp_all add: no_wrap_def Let_def)
  ultimately have "denotes (val_add (val_plus (reg_val t b) (val_times (reg_val t x) s)) d)
      (reg_content g b + reg_content g x * ucast s + d)"
    by (intro denotes_add denotes_plus reg_val_denotes[OF assms(1,2)])
  moreover have "b \<noteq> Rip 8" using assms(2) by (auto simp: wide_def)
  ultimately show ?thesis by (simp add: address_def effective_def)
qed


section \<open>Properties\<close>

text \<open>
  C28. The range that one call of \<^verbatim>\<open>note\<close> records for a memory operand covers the access.  The operand's
  base and index are 64-bit registers or absent and it has no segment override; the tracker's values
  stand for the actual registers (\<open>tracks\<close>, an assumption on the tracker so far); its address is known
  and does not wrap around (\<open>no_wrap\<close>).  Then every byte of the \<open>n\<close> bytes at the actual effective
  address lies in the range that is recorded, with the access's direction and its address form.
\<close>

theorem noted_range_covers_access:
  assumes "tracks t g" "wide b" "wide x" "no_wrap t b x s d n"
    "mem_segment i = No_reg" "address t i b x s d \<noteq> Unknown"
    "unat (effective g b x s d) \<le> y" "y < unat (effective g b x s d) + unat n"
  shows "\<exists>r. tranges (note_range (address t i b x s d) n w whole (b, x, s, d) ind t) = tranges t @ [r] \<and>
    rwrite r = w \<and> rform r = (b, x, s, d) \<and> in_range r y"
proof -
  have "b \<noteq> Rip 8" using assms(2) by (auto simp: wide_def)
  then have a: "address t i b x s d = val_add (val_plus (reg_val t b) (val_times (reg_val t x) s)) d"
    using assms(5) by (simp add: address_def)
  have "proper (address t i b x s d)" "fits (address t i b x s d) n"
    using assms(4) unfolding a by (simp_all add: no_wrap_def Let_def)
  then show ?thesis using assms(6-8) address_denotes[OF assms(1-4)] by (intro note_range_covers)
qed

text \<open>A load of 64 bytes at \<^verbatim>\<open>[rdi + rax * 4 + 16]\<close>, \<^verbatim>\<open>rax\<close> running from 0 to 48 by 16.\<close>

definition demo_tracker :: tracker where
  "demo_tracker = \<lparr>tgpr = (replicate 16 (Known 0))[0 := Range 0 48 16, 7 := Known 0x1000], tranges = [], resolved = True,
     stored = []\<rparr>"

definition demo_insn :: xinsn where
  "demo_insn = \<lparr>xip = 0x1000, next_ip = 0x1004, flow_control = Fall_through, branch_target = 0, condition_code = C_other,
     mnem = ''Vmovups'', xcount = 2, xkind = (\<lambda>_. K_Register), xreg_of = (\<lambda>_. No_reg), immediate = (\<lambda>_. 0), immediate8 = 0,
     mem_base = No_reg, mem_index = No_reg, mem_scale = 1, mem_disp = 0, mem_segment = No_reg, mem_size = 0, ip_rel = False,
     ip_rel_address = 0, xmask = No_reg, zeroing = False, broadcast = False, used_regs = [], used_mems = []\<rparr>"

lemma demo_tracks: "k \<le> 3 \<Longrightarrow> tracks demo_tracker ((replicate 16 0)[0 := of_nat (16 * k), 7 := 0x1000])"
proof -
  assume k: "k \<le> 3"
  then have "unat (word_of_nat (16 * k) :: u64) = 16 * k" by (intro unat_of_nat_u64) simp
  then show ?thesis using k
    by (auto simp: tracks_def demo_tracker_def nth_list_update intro!: exI[of _ k])
qed

theorem noted_range_covers_access_witness:
  "\<exists>r. tranges (note_range (address demo_tracker demo_insn (Gp 7 8) (Gp 0 8) 4 16) 64 False False (Gp 7 8, Gp 0 8, 4, 16)
      (Some 0) demo_tracker) = tranges demo_tracker @ [r] \<and> rwrite r = False \<and> rform r = (Gp 7 8, Gp 0 8, 4, 16) \<and> in_range r 4245"
proof (rule noted_range_covers_access)
  show "tracks demo_tracker ((replicate 16 0)[0 := of_nat (16 * 2), 7 := 0x1000])" by (rule demo_tracks) simp
  show "no_wrap demo_tracker (Gp 7 8) (Gp 0 8) 4 16 64"
    by (auto simp: no_wrap_def Let_def reg_val_def demo_tracker_def gpr_index.simps intro!: exI[of _ 3])
  show "address demo_tracker demo_insn (Gp 7 8) (Gp 0 8) 4 16 \<noteq> Unknown" by code_simp
  show "unat (effective ((replicate 16 0)[0 := of_nat (16 * 2), 7 := 0x1000]) (Gp 7 8) (Gp 0 8) 4 16) \<le> 4245"
    "4245 < unat (effective ((replicate 16 0)[0 := of_nat (16 * 2), 7 := 0x1000]) (Gp 7 8) (Gp 0 8) 4 16) + unat (64 :: u64)"
    by (simp_all add: effective_def reg_content_def gpr_index.simps)
qed (simp_all add: wide_def demo_insn_def)

text \<open>
  A range recorded as dense is written whole: each of its bytes belongs to the access at some
  address the value stands for.
\<close>

lemma dense_range_has_no_hole:
  assumes "proper a" "fits a n" "a \<noteq> Unknown" "tranges (note_range a n w whole f ind t) = tranges t @ [r]" "dense r"
    "in_range r y"
  shows "\<exists>x. denotes a x \<and> unat x \<le> y \<and> y < unat x + unat n"
  using assms by (rule note_range_dense)

lemma merged_apart:
  assumes "\<forall>r \<in> set (tranges t). range_fits r"
  shows "sorted_wrt (\<lambda>x y. seg_end x + 4095 < seg_start y) (merged t)"
  using merged_inv[OF assms] by (simp add: merge_inv_def)

lemma seg_of_simps [simp]:
  "seg_written (seg_of r) = rwrite r" "seg_read (seg_of r) = (\<not> rwrite r)" "seg_dense (seg_of r) = (dense r \<and> rwrite r)"
  "in_seg (seg_of r) y = in_range r y" "seg_start (seg_of r) = unat (raddr r)"
  "seg_end (seg_of r) = unat (raddr r) + unat (rlen r)"
  by (auto simp: seg_of_def seg_defs in_seg_def in_range_def)

lemma merged_parts:
  assumes "\<forall>r \<in> set (tranges t). range_fits r"
  obtains f where "\<forall>x \<in> set (merged t). made_of x (f x)" "seg_of ` set (tranges t) = (\<Union>x \<in> set (merged t). f x)"
  using merged_inv[OF assms] unfolding merge_inv_def by blast

text \<open>What a merge promises: segments apart, no byte lost, no hole in a dense segment.\<close>

definition segs_apart :: "seg list \<Rightarrow> bool" where
  "segs_apart out \<longleftrightarrow> sorted_wrt (\<lambda>x y. seg_end x + 4095 < seg_start y) out"

definition keeps_bytes :: "mem_range list \<Rightarrow> seg list \<Rightarrow> bool" where
  "keeps_bytes rs out \<longleftrightarrow> (\<forall>r \<in> set rs. \<forall>y. in_range r y \<longrightarrow>
     (\<exists>x \<in> set out. in_seg x y \<and> (if rwrite r then seg_written x else seg_read x)))"

definition no_hole :: "mem_range list \<Rightarrow> seg list \<Rightarrow> bool" where
  "no_hole rs out \<longleftrightarrow> (\<forall>x \<in> set out. \<forall>y. seg_dense x \<and> in_seg x y \<longrightarrow>
     (\<exists>r \<in> set rs. rwrite r \<and> dense r \<and> in_range r y))"

text \<open>
  C29. The merge of the recorded ranges.  Different segments are more than 4095 bytes apart; every
  byte of a recorded range lies in a segment that is marked written (read) when the range is a
  store (a load); and each byte of a segment marked dense belongs to a recorded store that is
  itself dense, so uploading the segment back overwrites no byte the region leaves alone.
\<close>

theorem merged_segments:
  assumes "\<forall>r \<in> set (tranges t). range_fits r"
  shows "segs_apart (merged t) \<and> keeps_bytes (tranges t) (merged t) \<and> no_hole (tranges t) (merged t)"
  unfolding segs_apart_def keeps_bytes_def no_hole_def
proof (intro conjI ballI allI impI)
  obtain f where f: "\<forall>x \<in> set (merged t). made_of x (f x)" "seg_of ` set (tranges t) = (\<Union>x \<in> set (merged t). f x)"
    by (rule merged_parts[OF assms])
  show "sorted_wrt (\<lambda>x y. seg_end x + 4095 < seg_start y) (merged t)" by (rule merged_apart[OF assms])
  fix r y assume r: "r \<in> set (tranges t)" "in_range r y"
  then have "seg_of r \<in> (\<Union>x \<in> set (merged t). f x)" using f(2) by blast
  then obtain x where x: "x \<in> set (merged t)" "seg_of r \<in> f x" by blast
  then have m: "made_of x (f x)" using f(1) by blast
  have "seg_start x \<le> seg_start (seg_of r)" "seg_end (seg_of r) \<le> seg_end x" using m x(2) unfolding made_of_def by blast+
  then have "in_seg x y" using r(2) by (auto simp: in_seg_def in_range_def)
  moreover have "if rwrite r then seg_written x else seg_read x"
  proof (cases "rwrite r")
    case True
    then have "\<exists>p \<in> f x. seg_written p" using x(2) by force
    then show ?thesis using True m by (simp add: made_of_def)
  next
    case False
    then have "\<exists>p \<in> f x. seg_read p" using x(2) by force
    then show ?thesis using False m by (simp add: made_of_def)
  qed
  ultimately show "\<exists>x \<in> set (merged t). in_seg x y \<and> (if rwrite r then seg_written x else seg_read x)" using x(1) by blast
next
  obtain f where f: "\<forall>x \<in> set (merged t). made_of x (f x)" "seg_of ` set (tranges t) = (\<Union>x \<in> set (merged t). f x)"
    by (rule merged_parts[OF assms])
  fix x y assume x: "x \<in> set (merged t)" and d: "seg_dense x \<and> in_seg x y"
  then have "(\<forall>p \<in> f x. seg_dense p) \<and> (\<exists>p \<in> f x. in_seg p y)" using f(1) unfolding made_of_def by blast
  then obtain p where p: "p \<in> f x" "seg_dense p" "in_seg p y" by blast
  then have "p \<in> seg_of ` set (tranges t)" using f(2) x by blast
  then obtain r where "r \<in> set (tranges t)" "p = seg_of r" by blast
  then show "\<exists>r \<in> set (tranges t). rwrite r \<and> dense r \<and> in_range r y" using p by auto
qed

text \<open>Two stores that touch, and a load two pages further.\<close>

definition demo_ranges :: tracker where
  "demo_ranges = (let r = \<lparr>raddr = 0x1040, rlen = 0x40, rwrite = True, rform = (Gp 7 8, No_reg, 1, 0), from_ind = Some 7,
       dense = True\<rparr> in
     demo_tracker\<lparr>tranges := [r, r\<lparr>raddr := 0x1000\<rparr>, r\<lparr>raddr := 0x3000, rwrite := False\<rparr>]\<rparr>)"

theorem merged_segments_witness:
  "segs_apart (merged demo_ranges) \<and> keeps_bytes (tranges demo_ranges) (merged demo_ranges) \<and>
   no_hole (tranges demo_ranges) (merged demo_ranges) \<and>
   merged demo_ranges = [(0x1000, 0x80, True, False, True), (0x3000, 0x40, False, True, False)]"
proof -
  have "\<forall>r \<in> set (tranges demo_ranges). range_fits r" by (simp add: demo_ranges_def Let_def range_fits_def)
  from merged_segments[OF this] moreover
  have "merged demo_ranges = [(0x1000, 0x80, True, False, True), (0x3000, 0x40, False, True, False)]"
    by (simp add: merged_def demo_ranges_def demo_tracker_def seg_of_def merge_seg_def Let_def less_eq_prod_def)
  ultimately show ?thesis by blast
qed

text \<open>
  The registers that run on from trip to trip are those a body reads before it writes them:
  \<^verbatim>\<open>carried_gprs\<close> holds exactly the general registers, the stack and frame pointers excepted, whose
  first use without an earlier write is a read and which the body writes.
\<close>

lemma carried_registers:
  "r \<in> set (carried_gprs is a b) \<longleftrightarrow> r \<noteq> 4 \<and> r \<noteq> 5 \<and> read_first (concat (map gpr_uses (body_of is a b))) r"
  by (rule carried_gprs_iff)

end
