(* ===== verification/Plan_Loops.thy ===== *)
theory Plan_Loops
  imports Plan_Ranges
begin

text \<open>
  The loop that the planner of \<^verbatim>\<open>host/crates/phi512/src/plan.rs\<close> chooses, and the test that lets
  its trips run on several threads.
\<close>

section \<open>What the loop found has to be\<close>

text \<open>
  Read from the decoder's accessors alone: the register of an operand, the registers an instruction
  writes, its immediate operand, and the value its arithmetic gives an operand that holds \<open>v\<close>.
  An operand that is a part of a general register (\<^verbatim>\<open>eax\<close>, \<^verbatim>\<open>ah\<close>) names that register, as
  \<^verbatim>\<open>gpr_index\<close> has it; the sum is then that of the operand's own bits.
\<close>

definition names_gpr :: "xreg \<Rightarrow> nat \<Rightarrow> bool" where
  "names_gpr r n \<longleftrightarrow> n < 16 \<and> full_register r = Gp n 8"

definition writes_gpr :: "xinsn \<Rightarrow> nat \<Rightarrow> bool" where
  "writes_gpr i n \<longleftrightarrow> (\<exists>(r, a) \<in> set (used_regs i). names_gpr r n \<and> a \<notin> {No_access, Acc_Read, Acc_CondRead})"

definition immediate_operand :: "xinsn \<Rightarrow> nat \<Rightarrow> bool" where
  "immediate_operand i n \<longleftrightarrow> xkind i n = K_Imm8 \<or> xkind i n = K_Immediate"

definition sum_of :: "xinsn \<Rightarrow> u64 \<Rightarrow> u64 option" where
  "sum_of i v =
     (if mnem i = ''Add'' \<and> immediate_operand i 1 then Some (v + immediate i 1)
      else if mnem i = ''Sub'' \<and> immediate_operand i 1 then Some (v - immediate i 1)
      else if mnem i = ''Inc'' then Some (v + 1)
      else if mnem i = ''Dec'' then Some (v - 1)
      else None)"

text \<open>The instructions from the head of a loop to its exit.\<close>

definition loop_body :: "insns \<Rightarrow> ploop \<Rightarrow> xinsn list" where
  "loop_body is lp = map snd (filter (\<lambda>p. lhead lp \<le> fst p \<and> fst p < lexit lp) is)"

text \<open>
  Closed: the back edge is a conditional branch to a known head at or before it, with the loop's
  condition and exit; every branch of the body stays in it, and it holds no exit of the region.
\<close>

definition closed_loop :: "insns \<Rightarrow> u64 list \<Rightarrow> ploop \<Rightarrow> bool" where
  "closed_loop is exits lp \<longleftrightarrow>
     (\<exists>br. (lback lp, br) \<in> set is \<and> flow_control br = Cond_branch \<and> branch_target br = lhead lp \<and> next_ip br = lexit lp \<and>
        condition_code br = lcc lp) \<and>
     lhead lp \<le> lback lp \<and> lhead lp \<in> fst ` set is \<and>
     (\<forall>i \<in> set (loop_body is lp). flow_control i = Fall_through \<or>
        (flow_control i = Cond_branch \<or> flow_control i = Uncond_branch) \<and> lhead lp \<le> branch_target i \<and> branch_target i < lexit lp) \<and>
     (\<forall>x \<in> set exits. \<not> (lhead lp \<le> x \<and> x < lexit lp))"

text \<open>Counted: exactly one instruction writes the induction register, and it adds the step to it, whatever it holds.\<close>

definition counted_loop :: "insns \<Rightarrow> ploop \<Rightarrow> bool" where
  "counted_loop is lp \<longleftrightarrow>
     (\<exists>pre i post. loop_body is lp = pre @ i # post \<and> names_gpr (xreg_of i 0) (lind lp) \<and> writes_gpr i (lind lp) \<and>
        (\<forall>v. sum_of i v = Some (v + lstep lp)) \<and>
        (\<forall>j \<in> set (pre @ post). \<not> writes_gpr j (lind lp)))"

text \<open>
  Compared: the instruction in front of the last one of the body sets the flags on the induction register,
  at its width: a \<^verbatim>\<open>cmp\<close> with the bound (its immediate, or a register the body never writes), or the
  \<^verbatim>\<open>add\<close> or \<^verbatim>\<open>sub\<close> of an immediate, which is the bound.
\<close>

fun bound_of :: "xinsn \<Rightarrow> xinsn list \<Rightarrow> bound \<Rightarrow> bool" where
  "bound_of c body (B_Imm b) \<longleftrightarrow> immediate_operand c 1 \<and> b = immediate c 1"
| "bound_of c body (B_Reg r) \<longleftrightarrow> mnem c = ''Cmp'' \<and> \<not> immediate_operand c 1 \<and> names_gpr (xreg_of c 1) r \<and>
     (\<forall>i \<in> set body. \<not> writes_gpr i r)"

definition compared_loop :: "insns \<Rightarrow> ploop \<Rightarrow> bool" where
  "compared_loop is lp \<longleftrightarrow>
     (\<exists>pre c last. loop_body is lp = pre @ [c, last] \<and> mnem c \<in> {''Cmp'', ''Add'', ''Sub''} \<and>
        names_gpr (xreg_of c 0) (lind lp) \<and> bound_of c (loop_body is lp) (lbound lp) \<and>
        via_cmp lp = (mnem c = ''Cmp'') \<and> from_add lp = (mnem c = ''Add'') \<and>
        lwidth lp = reg_size (xreg_of c 0) * 8)"

text \<open>A loop to split: one that holds the entry or starts behind it.\<close>

definition loop_to_split :: "insns \<Rightarrow> u64 \<Rightarrow> u64 list \<Rightarrow> ploop \<Rightarrow> bool" where
  "loop_to_split is entry exits lp \<longleftrightarrow>
     closed_loop is exits lp \<and> counted_loop is lp \<and> compared_loop is lp \<and>
     (lhead lp \<le> entry \<and> entry < lexit lp \<or> entry \<le> lhead lp)"

section \<open>The planner's tests are these\<close>

lemma gpr_index_names: "gpr_index r = Some n \<longleftrightarrow> names_gpr r n"
  by (cases r) (auto simp: gpr_index.simps names_gpr_def)

lemma written_scan_set: "n \<in> set (written_scan us v) \<longleftrightarrow>
    n \<in> set v \<or> (\<exists>(r, a) \<in> set us. names_gpr r n \<and> a \<notin> {No_access, Acc_Read, Acc_CondRead})"
proof (induction us v rule: written_scan.induct)
  case (2 r a us v)
  have w: "acc_writes a \<longleftrightarrow> a \<notin> {No_access, Acc_Read, Acc_CondRead}" by (cases a) (simp_all add: acc_writes_def)
  show ?case
  proof (cases "gpr_index r")
    case None
    then have "\<not> names_gpr r n" using gpr_index_names[of r n] by simp
    then show ?thesis using 2 None by simp
  next
    case (Some k)
    have "names_gpr r n \<longleftrightarrow> n = k" using gpr_index_names[of r n] Some by auto
    then show ?thesis using 2 Some w by auto
  qed
qed simp

lemma written_gprs_names: "n \<in> set (written_gprs i) \<longleftrightarrow> writes_gpr i n"
  by (simp add: written_gprs_def written_scan_set writes_gpr_def)

lemma imm_of_operand: "imm_of i n = (if immediate_operand i n then Some (immediate i n) else None)"
  by (simp add: imm_of_def immediate_operand_def)

lemma step_of_sum: "step_of i n = Some s \<longleftrightarrow> names_gpr (xreg_of i 0) n \<and> (\<forall>v. sum_of i v = Some (v + s))"
proof -
  have "(\<forall>v. sum_of i v = Some (v + s)) \<longleftrightarrow> sum_of i 0 = Some s"
    by (auto simp: sum_of_def split: if_splits)
  then show ?thesis using gpr_index_names[of "xreg_of i 0" n]
    by (auto simp: step_of_def sum_of_def imm_of_operand)
qed

lemma flow_inside_iff: "flow_inside h e i \<longleftrightarrow> flow_control i = Fall_through \<or>
    (flow_control i = Cond_branch \<or> flow_control i = Uncond_branch) \<and> h \<le> branch_target i \<and> branch_target i < e"
  by (cases "flow_control i") (auto simp: flow_inside_def not_less not_le)

lemma compared_iff: "compared c = Some (n, b, vc) \<and> \<not> (\<exists>r. b = B_Reg r \<and> (\<exists>i \<in> set body. r \<in> set (written_gprs i))) \<longleftrightarrow>
    mnem c \<in> {''Cmp'', ''Add'', ''Sub''} \<and> names_gpr (xreg_of c 0) n \<and> bound_of c body b \<and> vc = (mnem c = ''Cmp'')"
  by (cases b) (auto simp: compared_def imm_of_operand gpr_index_names[symmetric] written_gprs_names bind_eq_Some_conv
    split: option.splits)

lemma induction_scan_Some:
  "induction_scan body ind (Some st) = Some r \<longleftrightarrow> r = st \<and> (\<forall>i \<in> set body. \<not> writes_gpr i ind)"
  by (induction body) (auto simp: written_gprs_names split: option.splits)

lemma induction_step_iff:
  "(\<exists>ip. induction_step body n = Some (s, ip)) \<longleftrightarrow>
     (\<exists>pre i post. body = pre @ i # post \<and> names_gpr (xreg_of i 0) n \<and> writes_gpr i n \<and>
        (\<forall>v. sum_of i v = Some (v + s)) \<and> (\<forall>j \<in> set (pre @ post). \<not> writes_gpr j n))" (is "?step body \<longleftrightarrow> ?one body")
proof (induction body)
  case (Cons a body)
  show ?case
  proof (cases "writes_gpr a n")
    case True
    have "?one (a # body) \<longleftrightarrow> step_of a n = Some s \<and> (\<forall>j \<in> set body. \<not> writes_gpr j n)"
    proof
      assume "step_of a n = Some s \<and> (\<forall>j \<in> set body. \<not> writes_gpr j n)"
      then show "?one (a # body)" using True by (intro exI[of _ "[]"] exI[of _ a] exI[of _ body]) (simp add: step_of_sum)
    qed (use True in \<open>auto simp: step_of_sum Cons_eq_append_conv\<close>)
    then show ?thesis using True
      by (auto simp: induction_step_def written_gprs_names induction_scan_Some split: option.splits)
  next
    case False
    have "?one (a # body) \<longleftrightarrow> ?one body"
    proof
      assume "?one (a # body)"
      then obtain pre i post where o: "a # body = pre @ i # post" "names_gpr (xreg_of i 0) n" "writes_gpr i n"
        "\<forall>v. sum_of i v = Some (v + s)" "\<forall>j \<in> set (pre @ post). \<not> writes_gpr j n" by blast
      then obtain pre' where "pre = a # pre'" "body = pre' @ i # post" using False by (cases pre) auto
      then show "?one body" using o by (intro exI[of _ pre'] exI[of _ i] exI[of _ post]) auto
    next
      assume "?one body"
      then obtain pre i post where "body = pre @ i # post" "names_gpr (xreg_of i 0) n" "writes_gpr i n"
        "\<forall>v. sum_of i v = Some (v + s)" "\<forall>j \<in> set (pre @ post). \<not> writes_gpr j n" by blast
      then show "?one (a # body)" using False by (intro exI[of _ "a # pre"] exI[of _ i] exI[of _ post]) auto
    qed
    then show ?thesis using False Cons by (simp add: induction_step_def written_gprs_names)
  qed
qed (simp add: induction_step_def)

lemma body_before_last:
  "2 \<le> length body \<and> P (body ! (length body - 2)) \<longleftrightarrow> (\<exists>pre c l. body = pre @ [c, l] \<and> P c)"
proof
  assume b: "2 \<le> length body \<and> P (body ! (length body - 2))"
  then obtain l rest where l: "body = rest @ [l]" by (cases body rule: rev_cases) auto
  then obtain c pre where "rest = pre @ [c]" using b by (cases rest rule: rev_cases) auto
  then show "\<exists>pre c l. body = pre @ [c, l] \<and> P c" using b l by (auto simp: nth_append)
qed (auto simp: nth_append)

lemma bound_written:
  "(case b of B_Reg r \<Rightarrow> P r | B_Imm x \<Rightarrow> False) \<longleftrightarrow> (\<exists>r. b = B_Reg r \<and> P r)"
  by (cases b) auto

lemma loop_body_of: "loop_body is lp = body_of is (lhead lp) (lexit lp)"
  by (simp add: loop_body_def body_of_def insn_range_def)

lemma loop_at_sound:
  assumes "loop_at is entry exits addr br = Some lp" "(addr, br) \<in> set is"
  shows "loop_to_split is entry exits lp"
proof -
  let ?h = "branch_target br" and ?e = "next_ip br"
  let ?body = "body_of is ?h ?e"
  let ?c = "?body ! (length ?body - 2)"
  have c: "flow_control br = Cond_branch" "\<not> addr < ?h" "?h \<in> fst ` set is" "(?h \<le> entry \<and> entry < ?e) \<or> \<not> ?h < entry"
    "\<forall>x \<in> set exits. \<not> (?h \<le> x \<and> x < ?e)" "\<forall>i \<in> set ?body. flow_inside ?h ?e i" "\<not> length ?body < 2"
    using assms(1) unfolding loop_at_def Let_def bound_written by (auto split: if_splits)
  obtain ind b vc s ip where d: "compared ?c = Some (ind, b, vc)" "induction_step ?body ind = Some (s, ip)"
    "\<not> (\<exists>r. b = B_Reg r \<and> (\<exists>i \<in> set ?body. r \<in> set (written_gprs i)))"
    and lp: "lp = \<lparr>lhead = ?h, lback = addr, lexit = ?e, lind = ind, lstep = s, lbound = b, lcc = condition_code br,
       via_cmp = vc, from_add = (mnem ?c = ''Add''), lwidth = reg_size (xreg_of ?c 0) * 8\<rparr>"
    using assms(1) unfolding loop_at_def Let_def bound_written by (auto split: if_splits option.splits)
  have body: "loop_body is lp = ?body" unfolding loop_body_of lp by simp
  have cmp: "mnem ?c \<in> {''Cmp'', ''Add'', ''Sub''} \<and> names_gpr (xreg_of ?c 0) ind \<and> bound_of ?c ?body b \<and> vc = (mnem ?c = ''Cmp'')"
    using d(1,3) compared_iff by blast
  have "closed_loop is exits lp" using c(1-3,5,6) assms(2) unfolding closed_loop_def body flow_inside_iff
    by (auto simp: lp not_less)
  moreover have "counted_loop is lp" using induction_step_iff[of ?body ind s] d(2) unfolding counted_loop_def body by (auto simp: lp)
  moreover have "compared_loop is lp" unfolding compared_loop_def body
    using cmp c(7) body_before_last[of ?body "\<lambda>c. mnem c \<in> {''Cmp'', ''Add'', ''Sub''} \<and> names_gpr (xreg_of c 0) (lind lp) \<and>
      bound_of c ?body (lbound lp) \<and> via_cmp lp = (mnem c = ''Cmp'') \<and> from_add lp = (mnem c = ''Add'') \<and>
      lwidth lp = reg_size (xreg_of c 0) * 8"] by (auto simp: lp not_less)
  moreover have "lhead lp \<le> entry \<and> entry < lexit lp \<or> entry \<le> lhead lp" using c(4) by (auto simp: lp not_less)
  ultimately show ?thesis unfolding loop_to_split_def by blast
qed

lemma loop_at_complete:
  assumes "loop_to_split is entry exits lp"
  obtains br where "(lback lp, br) \<in> set is" "loop_at is entry exits (lback lp) br = Some lp"
proof -
  let ?body = "loop_body is lp"
  let ?c = "?body ! (length ?body - 2)"
  obtain br where br: "(lback lp, br) \<in> set is" "flow_control br = Cond_branch" "branch_target br = lhead lp"
    "next_ip br = lexit lp" "condition_code br = lcc lp"
    using assms unfolding loop_to_split_def closed_loop_def by blast
  have c: "lhead lp \<le> lback lp" "lhead lp \<in> fst ` set is" "\<forall>i \<in> set ?body. flow_inside (lhead lp) (lexit lp) i"
    "\<forall>x \<in> set exits. \<not> (lhead lp \<le> x \<and> x < lexit lp)" "(lhead lp \<le> entry \<and> entry < lexit lp) \<or> entry \<le> lhead lp"
    using assms unfolding loop_to_split_def closed_loop_def flow_inside_iff by blast+
  obtain ip where ip: "induction_step ?body (lind lp) = Some (lstep lp, ip)"
    using assms induction_step_iff[of ?body "lind lp" "lstep lp"] unfolding loop_to_split_def counted_loop_def by blast
  have k: "2 \<le> length ?body \<and> mnem ?c \<in> {''Cmp'', ''Add'', ''Sub''} \<and> names_gpr (xreg_of ?c 0) (lind lp) \<and>
      bound_of ?c ?body (lbound lp) \<and> via_cmp lp = (mnem ?c = ''Cmp'') \<and> from_add lp = (mnem ?c = ''Add'') \<and>
      lwidth lp = reg_size (xreg_of ?c 0) * 8"
    using assms body_before_last[of ?body "\<lambda>c. mnem c \<in> {''Cmp'', ''Add'', ''Sub''} \<and> names_gpr (xreg_of c 0) (lind lp) \<and>
      bound_of c ?body (lbound lp) \<and> via_cmp lp = (mnem c = ''Cmp'') \<and> from_add lp = (mnem c = ''Add'') \<and>
      lwidth lp = reg_size (xreg_of c 0) * 8"] unfolding loop_to_split_def compared_loop_def by blast
  then have cmp: "compared ?c = Some (lind lp, lbound lp, via_cmp lp)"
    "\<not> (\<exists>r. lbound lp = B_Reg r \<and> (\<exists>i \<in> set ?body. r \<in> set (written_gprs i)))"
    using compared_iff[of ?c "lind lp" "lbound lp" "via_cmp lp" ?body] by blast+
  have "loop_at is entry exits (lback lp) br = Some lp"
    unfolding loop_at_def Let_def bound_written br(3,4) loop_body_of[symmetric] using br(2,5) c cmp ip k by (auto simp: not_less)
  then show ?thesis using that br(1) by blast
qed

definition loop_length :: "ploop \<Rightarrow> u64" where
  "loop_length lp = lexit lp - lhead lp"


text \<open>No loop to split of the region is longer.\<close>

definition longest :: "insns \<Rightarrow> u64 \<Rightarrow> u64 list \<Rightarrow> ploop \<Rightarrow> bool" where
  "longest is entry exits lp \<longleftrightarrow> (\<forall>l. loop_to_split is entry exits l \<longrightarrow> loop_length l \<le> loop_length lp)"

lemma better_fold:
  assumes "fold (\<lambda>(addr, br) best. case f addr br of None \<Rightarrow> best | Some lp \<Rightarrow> better best lp) xs best = Some lp"
  shows "(best = Some lp \<or> (\<exists>(addr, br) \<in> set xs. f addr br = Some lp)) \<and>
    (\<forall>l. best = Some l \<or> (\<exists>(addr, br) \<in> set xs. f addr br = Some l) \<longrightarrow> loop_length l \<le> loop_length lp)"
  using assms
proof (induction xs arbitrary: best)
  case (Cons x xs)
  obtain a br where x: "x = (a, br)" by (cases x)
  show ?case
  proof (cases "f a br")
    case None
    then show ?thesis using Cons.IH[of best] Cons.prems x by auto
  next
    case (Some l)
    have "\<exists>m. better best l = Some m \<and> (m = l \<or> best = Some m) \<and> loop_length l \<le> loop_length m \<and>
        (\<forall>b. best = Some b \<longrightarrow> loop_length b \<le> loop_length m)"
      by (auto simp: better_def loop_length_def split: option.split)
    then obtain m where m: "better best l = Some m" "m = l \<or> best = Some m" "loop_length l \<le> loop_length m"
      "\<forall>b. best = Some b \<longrightarrow> loop_length b \<le> loop_length m" by blast
    have p: "fold (\<lambda>(addr, br) best. case f addr br of None \<Rightarrow> best | Some lp \<Rightarrow> better best lp) xs (Some m) = Some lp"
      using Cons.prems Some x m(1) by simp
    note ih = Cons.IH[OF p]
    have "loop_length m \<le> loop_length lp" using ih by blast
    then have "loop_length l \<le> loop_length lp" "\<forall>b. best = Some b \<longrightarrow> loop_length b \<le> loop_length lp"
      using m(3,4) order_trans by blast+
    then show ?thesis using ih m(2) Some x by auto
  qed
qed auto

lemma better_fold_None:
  "fold (\<lambda>(addr, br) best. case f addr br of None \<Rightarrow> best | Some lp \<Rightarrow> better best lp) xs best = None \<Longrightarrow>
     best = None \<and> (\<forall>(addr, br) \<in> set xs. f addr br = None)"
proof (induction xs arbitrary: best)
  case (Cons x xs)
  obtain a br where x: "x = (a, br)" by (cases x)
  show ?case
  proof (cases "f a br")
    case None
    then show ?thesis using Cons x by simp
  next
    case (Some l)
    then have "better best l = None" using Cons x by simp
    then show ?thesis by (auto simp: better_def split: option.splits if_splits)
  qed
qed simp

lemma find_loop_some:
  assumes "find_loop is entry exits = Some lp"
  shows "loop_to_split is entry exits lp \<and> longest is entry exits lp"
proof -
  note f = better_fold[OF assms[unfolded find_loop_def]]
  have "loop_to_split is entry exits lp" using f loop_at_sound by blast
  moreover have "loop_length l \<le> loop_length lp" if "loop_to_split is entry exits l" for l
    by (rule loop_at_complete[OF that]) (use f in blast)
  ultimately show ?thesis by (simp add: longest_def)
qed

lemma find_loop_none:
  assumes "find_loop is entry exits = None"
  shows "\<not> loop_to_split is entry exits lp"
proof
  assume "loop_to_split is entry exits lp"
  then obtain br where "(lback lp, br) \<in> set is" "loop_at is entry exits (lback lp) br = Some lp"
    by (rule loop_at_complete)
  then show False using better_fold_None[OF assms[unfolded find_loop_def]] by fastforce
qed

section \<open>The threads of a split loop\<close>

text \<open>
  A register that runs from trip to trip: some instruction reads it before any has written it
  (a conditional write counts as one), and some instruction of the body writes it.
\<close>

definition carried :: "insns \<Rightarrow> ploop \<Rightarrow> xreg \<Rightarrow> bool" where
  "carried is lp r \<longleftrightarrow>
     (\<exists>pre q a post. concat (map used_regs (loop_body is lp)) = pre @ (q, a) # post \<and> full_register q = r \<and>
        a \<notin> {No_access, Acc_Write, Acc_CondWrite} \<and>
        (\<forall>(p, b) \<in> set pre. full_register p = r \<longrightarrow> b \<in> {No_access, Acc_Read, Acc_CondRead})) \<and>
     (\<exists>(q, a) \<in> set (concat (map used_regs (loop_body is lp))). full_register q = r \<and> a \<notin> {No_access, Acc_Read, Acc_CondRead})"

text \<open>
  The only registers carried are the induction register and the three the test never looks at:
  the instruction pointer, the stack pointer and \<^verbatim>\<open>rbp\<close>.
\<close>

definition private_registers :: "insns \<Rightarrow> ploop \<Rightarrow> bool" where
  "private_registers is lp \<longleftrightarrow> (\<forall>r. carried is lp r \<longrightarrow> names_gpr r (lind lp) \<or> r \<in> {Rip 8, Gp 4 8, Gp 5 8})"

text \<open>Every store walks with the induction register; no byte of a store is in a load of another address form.\<close>

definition stores_walk :: "mem_range list \<Rightarrow> ploop \<Rightarrow> bool" where
  "stores_walk rs lp \<longleftrightarrow> (\<forall>w \<in> set rs. rwrite w \<longrightarrow> from_ind w = Some (lind lp))"

definition stores_clear :: "mem_range list \<Rightarrow> bool" where
  "stores_clear rs \<longleftrightarrow> (\<forall>w \<in> set rs. \<forall>l \<in> set rs. rwrite w \<and> \<not> rwrite l \<and> rform w \<noteq> rform l \<longrightarrow>
     (\<forall>y. \<not> (in_range w y \<and> in_range l y)))"

definition recorded_range :: "mem_range \<Rightarrow> bool" where
  "recorded_range r \<longleftrightarrow> range_fits r \<and> 0 < rlen r"

lemma overlaps_iff:
  assumes "recorded_range w" "recorded_range l"
  shows "overlaps w l \<longleftrightarrow> (\<exists>y. in_range w y \<and> in_range l y)"
proof -
  have s: "unat (raddr w + rlen w) = unat (raddr w) + unat (rlen w)" "unat (raddr l + rlen l) = unat (raddr l) + unat (rlen l)"
    and p: "0 < unat (rlen w)" "0 < unat (rlen l)"
    using assms by (simp_all add: recorded_range_def range_fits_def unat_add_u64 word_less_nat_alt)
  show ?thesis
  proof
    assume "overlaps w l"
    then show "\<exists>y. in_range w y \<and> in_range l y" using s p
      by (intro exI[of _ "max (unat (raddr w)) (unat (raddr l))"]) (auto simp: overlaps_def in_range_def word_less_nat_alt)
  qed (use s in \<open>auto simp: overlaps_def in_range_def word_less_nat_alt\<close>)
qed

lemma access_kinds:
  "acc_reads a \<longleftrightarrow> a \<notin> {No_access, Acc_Write, Acc_CondWrite}" "acc_writes a \<longleftrightarrow> a \<notin> {No_access, Acc_Read, Acc_CondRead}"
  by (cases a; simp add: acc_reads_def acc_writes_def)+

definition reg_use :: "xreg \<times> access \<Rightarrow> xreg \<times> bool \<times> bool" where
  "reg_use u = (full_register (fst u), acc_reads (snd u), acc_writes (snd u))"

lemma reg_uses_concat: "concat (map reg_uses body) = map reg_use (concat (map used_regs body))"
  by (induction body) (auto simp: reg_uses_def reg_use_def)

lemma reg_use_written:
  "(\<exists>x. (r, x, True) \<in> set (map reg_use us)) \<longleftrightarrow>
     (\<exists>(q, a) \<in> set us. full_register q = r \<and> a \<notin> {No_access, Acc_Read, Acc_CondRead})"
proof -
  have "(\<exists>x. (r, x, True) \<in> set (map reg_use us)) \<longleftrightarrow> (\<exists>u \<in> set us. full_register (fst u) = r \<and> acc_writes (snd u))"
    by (auto simp: reg_use_def)
  then show ?thesis by (simp add: access_kinds(2) case_prod_unfold)
qed

lemma reg_use_split:
  "(\<exists>pre w post. map reg_use us = pre @ (r, True, w) # post \<and> P pre) \<longleftrightarrow>
     (\<exists>pre q a post. us = pre @ (q, a) # post \<and> full_register q = r \<and> acc_reads a \<and> P (map reg_use pre))"
proof
  assume "\<exists>pre w post. map reg_use us = pre @ (r, True, w) # post \<and> P pre"
  then obtain pre w post where "map reg_use us = pre @ (r, True, w) # post" "P pre" by blast
  then obtain us1 u us2 where "us = us1 @ u # us2" "map reg_use us1 = pre" "reg_use u = (r, True, w)"
    by (auto simp: map_eq_append_conv map_eq_Cons_conv)
  then show "\<exists>pre q a post. us = pre @ (q, a) # post \<and> full_register q = r \<and> acc_reads a \<and> P (map reg_use pre)"
    using \<open>P pre\<close> by (cases u) (auto simp: reg_use_def)
next
  assume "\<exists>pre q a post. us = pre @ (q, a) # post \<and> full_register q = r \<and> acc_reads a \<and> P (map reg_use pre)"
  then obtain pre q a post where u: "us = pre @ (q, a) # post" "full_register q = r" "acc_reads a" "P (map reg_use pre)" by blast
  then have "map reg_use us = map reg_use pre @ (r, True, acc_writes a) # map reg_use post" by (simp add: reg_use_def)
  then show "\<exists>pre w post. map reg_use us = pre @ (r, True, w) # post \<and> P pre" using u(4) by blast
qed

lemma carried_read_first: "carried is lp r \<longleftrightarrow> read_first (concat (map reg_uses (loop_body is lp))) r"
proof -
  have pre: "(\<forall>x. (r, x, True) \<notin> set (map reg_use us)) \<longleftrightarrow>
      (\<forall>(q, a) \<in> set us. full_register q = r \<longrightarrow> a \<in> {No_access, Acc_Read, Acc_CondRead})" for us
    using reg_use_written[of r us] by blast
  show ?thesis unfolding carried_def read_first_def reg_uses_concat reg_use_written reg_use_split pre access_kinds(1) ..
qed

lemma splittable_carried:
  "fold (split_step (concat (map reg_uses (loop_body is lp))) (lind lp)) (concat (map reg_uses (loop_body is lp))) (Some []) = None \<longleftrightarrow>
     \<not> private_registers is lp"
  unfolding split_fold private_registers_def carried_read_first read_first_def read_unwritten_def gpr_index_names by auto

lemma splittable_None:
  "splittable is lp t = None \<longleftrightarrow> private_registers is lp \<and> stores_walk (tranges t) lp \<and>
     (\<forall>w \<in> set (tranges t). \<forall>l \<in> set (tranges t). rwrite w \<and> \<not> rwrite l \<and> rform w \<noteq> rform l \<longrightarrow> \<not> overlaps w l)"
  unfolding splittable_def Let_def loop_body_of[symmetric] splittable_carried stores_walk_def by auto

section \<open>Properties\<close>

text \<open>
  C30. \<^verbatim>\<open>find_loop\<close> finds the longest loop the region has, and none only when it has none.  A loop is
  described from the decoder's accessors alone: its back edge is a conditional branch (whose
  condition is the loop's) to a known head, every branch of the body stays inside, no exit of the
  region lies in it, and it holds the entry or starts behind it; exactly one instruction of the body
  writes the induction register and adds the constant step to whatever it holds (an \<^verbatim>\<open>add\<close>, \<^verbatim>\<open>sub\<close>,
  \<^verbatim>\<open>inc\<close> or \<^verbatim>\<open>dec\<close>); the instruction in front of the last is the \<^verbatim>\<open>cmp\<close> of that register with the bound
  (its immediate, or a register the body never writes) or the \<^verbatim>\<open>add\<close> or \<^verbatim>\<open>sub\<close> of the bound to it, and
  the loop's width is that operand's.
\<close>

theorem find_loop_sound:
  "case find_loop is entry exits of
     None \<Rightarrow> \<forall>lp. \<not> loop_to_split is entry exits lp
   | Some lp \<Rightarrow> loop_to_split is entry exits lp \<and> longest is entry exits lp"
  using find_loop_some find_loop_none by (simp split: option.split)

text \<open>A loop of three instructions: a load, \<^verbatim>\<open>add rax, 8\<close>, \<^verbatim>\<open>cmp rax, rcx\<close> and the branch back.\<close>

definition plain_insn :: "u64 \<Rightarrow> u64 \<Rightarrow> string \<Rightarrow> xinsn" where
  "plain_insn a e m = demo_insn\<lparr>xip := a, next_ip := e, mnem := m\<rparr>"

definition demo_add :: xinsn where
  "demo_add = (plain_insn 0x1006 0x100a ''Add'')\<lparr>xkind := (\<lambda>n. if n = 0 then K_Register else K_Immediate),
     xreg_of := (\<lambda>n. if n = 0 then Gp 0 8 else No_reg), immediate := (\<lambda>_. 8), used_regs := [(Gp 0 8, Acc_ReadWrite)]\<rparr>"

definition demo_cmp :: xinsn where
  "demo_cmp = (plain_insn 0x100a 0x100d ''Cmp'')\<lparr>xreg_of := (\<lambda>n. if n = 0 then Gp 0 8 else Gp 1 8),
     used_regs := [(Gp 0 8, Acc_Read), (Gp 1 8, Acc_Read)]\<rparr>"

definition demo_branch :: xinsn where
  "demo_branch = (plain_insn 0x100d 0x100f ''Jb'')\<lparr>flow_control := Cond_branch, branch_target := 0x1000, condition_code := C_b\<rparr>"

definition demo_load :: xinsn where
  "demo_load = (plain_insn 0x1000 0x1006 ''Vmovups'')\<lparr>xreg_of := (\<lambda>n. if n = 0 then Vec 0 64 else No_reg),
     used_regs := [(Vec 0 64, Acc_Write), (Gp 7 8, Acc_Read), (Gp 0 8, Acc_Read)]\<rparr>"

definition demo_insns :: insns where
  "demo_insns = [(0x1000, demo_load), (0x1006, demo_add), (0x100a, demo_cmp), (0x100d, demo_branch)]"

definition demo_found :: ploop where
  "demo_found = \<lparr>lhead = 0x1000, lback = 0x100d, lexit = 0x100f, lind = 0, lstep = 8, lbound = B_Reg 1, lcc = C_b,
     via_cmp = True, from_add = False, lwidth = 64\<rparr>"

lemmas demo_insn_defs = demo_insns_def demo_load_def demo_add_def demo_cmp_def demo_branch_def plain_insn_def demo_insn_def

lemma demo_body: "body_of demo_insns 0x1000 0x100f = [demo_load, demo_add, demo_cmp, demo_branch]"
  by (simp add: demo_insns_def body_of_def insn_range_def)

lemma demo_find: "find_loop demo_insns 0x1000 [] = Some demo_found"
proof -
  have w: "written_gprs demo_load = []" "written_gprs demo_add = [0]" "written_gprs demo_cmp = []" "written_gprs demo_branch = []"
    by (simp_all add: written_gprs_def demo_insn_defs gpr_index.simps acc_writes_def)
  have b: "flow_control demo_branch = Cond_branch" "branch_target demo_branch = 0x1000" "next_ip demo_branch = 0x100f"
    "condition_code demo_branch = C_b" by (simp_all add: demo_insn_defs)
  have f: "flow_inside 0x1000 0x100f i" if "i \<in> {demo_load, demo_add, demo_cmp, demo_branch}" for i
    using that by (auto simp: demo_insn_defs flow_inside_def)
  have c: "compared demo_cmp = Some (0, B_Reg 1, True)" "step_of demo_add 0 = Some 8" "mnem demo_cmp = ''Cmp''"
    "reg_size (xreg_of demo_cmp 0) = 8"
    by (simp_all add: demo_insn_defs compared_def imm_of_def step_of_def gpr_index.simps)
  have h: "0x1000 \<in> fst ` set demo_insns" by (simp add: demo_insns_def)
  have "loop_at demo_insns 0x1000 [] 0x100d demo_branch = Some demo_found"
    unfolding loop_at_def Let_def b demo_body using f h by (simp add: w c induction_step_def demo_found_def)
  moreover have "loop_at demo_insns 0x1000 [] a i = None" if "i \<in> {demo_load, demo_add, demo_cmp}" for a i
    using that by (auto simp: loop_at_def demo_insn_defs)
  moreover have "fold f demo_insns n = f (0x100d, demo_branch) (f (0x100a, demo_cmp) (f (0x1006, demo_add) (f (0x1000, demo_load) n)))"
    for f and n :: "ploop option" by (simp add: demo_insns_def)
  ultimately show ?thesis by (simp add: find_loop_def better_def)
qed

theorem find_loop_sound_witness:
  "find_loop demo_insns 0x1000 [] = Some demo_found \<and> loop_to_split demo_insns 0x1000 [] demo_found \<and>
   longest demo_insns 0x1000 [] demo_found"
  using find_loop_sound[of demo_insns "0x1000" "[]"] demo_find by simp

text \<open>
  C31. The test for splitting, exactly.  \<^verbatim>\<open>splittable\<close> answers \<^verbatim>\<open>Ok\<close> for a loop and the ranges of its
  phase (each of at least one byte, none wrapping around) when and only when: every register that
  the body reads before it writes it, and writes, is the induction register, \<^verbatim>\<open>rip\<close>, \<^verbatim>\<open>rsp\<close> or \<^verbatim>\<open>rbp\<close>;
  every recorded store walks with the loop's own induction register; and no byte of a recorded store
  is in a recorded load of another address form.  The exemption of \<^verbatim>\<open>rbp\<close> is the code's: a loop that
  accumulates in it is accepted, although the comment names the induction as the only exception.
\<close>

theorem splittable_keeps_apart:
  assumes "\<forall>r \<in> set (tranges t). recorded_range r"
  shows "splittable is lp t = None \<longleftrightarrow> private_registers is lp \<and> stores_walk (tranges t) lp \<and> stores_clear (tranges t)"
  unfolding splittable_None stores_clear_def using assms overlaps_iff by blast

text \<open>The loop above with a store behind its load, to another array.\<close>

definition demo_store :: mem_range where
  "demo_store = \<lparr>raddr = 0x8000, rlen = 0x100, rwrite = True, rform = (Gp 6 8, Gp 0 8, 8, 0), from_ind = Some 0, dense = True\<rparr>"

definition demo_phase :: tracker where
  "demo_phase = demo_tracker\<lparr>tranges := [demo_store\<lparr>raddr := 0x2000, rwrite := False, rform := (Gp 7 8, Gp 0 8, 8, 0)\<rparr>, demo_store]\<rparr>"

lemma demo_body_found: "loop_body demo_insns demo_found = [demo_load, demo_add, demo_cmp, demo_branch]"
  by (simp add: loop_body_of demo_body demo_found_def)

lemma demo_private: "private_registers demo_insns demo_found"
proof -
  have u: "concat (map used_regs (loop_body demo_insns demo_found)) = [(Vec 0 64, Acc_Write), (Gp 7 8, Acc_Read),
      (Gp 0 8, Acc_Read), (Gp 0 8, Acc_ReadWrite), (Gp 0 8, Acc_Read), (Gp 1 8, Acc_Read)]"
    unfolding demo_body_found by (simp add: demo_insn_defs)
  show ?thesis unfolding private_registers_def carried_def u
    by (auto simp: names_gpr_def demo_found_def Cons_eq_append_conv)
qed

theorem splittable_keeps_apart_witness:
  "splittable demo_insns demo_found demo_phase = None \<and> private_registers demo_insns demo_found \<and>
   stores_walk (tranges demo_phase) demo_found \<and> stores_clear (tranges demo_phase)"
proof -
  have r: "\<forall>r \<in> set (tranges demo_phase). recorded_range r"
    by (simp add: demo_phase_def demo_store_def recorded_range_def range_fits_def)
  have "stores_walk (tranges demo_phase) demo_found"
    by (simp add: stores_walk_def demo_phase_def demo_store_def demo_found_def)
  moreover have "stores_clear (tranges demo_phase)"
    by (auto simp: stores_clear_def demo_phase_def demo_store_def in_range_def)
  ultimately show ?thesis using splittable_keeps_apart[OF r] demo_private by blast
qed




















end
