(* ===== verification/VState.thy ===== *)
theory VState
  imports Iced
begin

text \<open>
  The state of the AVX-512 emulator: the imaginary register file of
  \<^verbatim>\<open>host/crates/phi512/src/state.rs\<close>, the \<^verbatim>\<open>Cpu\<close> interface and the effective address of
  \<^verbatim>\<open>lib.rs\<close>, and the frame that a patched site hands over, \<^verbatim>\<open>frame.rs\<close>, which provides that
  interface.
\<close>

section \<open>Words and their bytes\<close>

primrec of_le :: "bytes \<Rightarrow> 'a::len word" where
  "of_le [] = 0"
| "of_le (b # bs) = ucast b OR push_bit 8 (of_le bs)"

primrec to_le :: "nat \<Rightarrow> 'a::len word \<Rightarrow> bytes" where
  "to_le 0 w = []"
| "to_le (Suc n) w = ucast w # to_le n (drop_bit 8 w)"

lemma length_to_le [simp]: "length (to_le n w) = n"
  by (induction n arbitrary: w) auto

lemma nth_to_le: "i < n \<Longrightarrow> to_le n w ! i = ucast (drop_bit (8 * i) w)"
proof (induction n arbitrary: w i)
  case (Suc n)
  then show ?case by (cases i) (simp_all add: algebra_simps)
qed simp

lemma bit_of_le:
  "bit (of_le bs :: 'a::len word) j \<longleftrightarrow> j < LENGTH('a) \<and> j div 8 < length bs \<and> bit (bs ! (j div 8)) (j mod 8)"
proof (induction bs arbitrary: j)
  case (Cons b bs)
  show ?case
  proof (cases "j < 8")
    case True
    then show ?thesis by (auto simp: bit_simps Cons)
  next
    case False
    then have "j div 8 = Suc ((j - 8) div 8)" "j mod 8 = (j - 8) mod 8" by (auto simp: div_if mod_if)
    moreover have "\<not> bit b j" using False by (auto dest: bit_imp_le_length)
    ultimately show ?thesis using False by (auto simp: bit_simps Cons)
  qed
qed simp

lemma of_le_to_le [simp]: "LENGTH('a) \<le> 8 * n \<Longrightarrow> of_le (to_le n w) = (w :: 'a::len word)"
  by (rule bit_word_eqI) (auto simp: bit_of_le nth_to_le bit_simps)

lemma to_le_of_le [simp]:
  assumes "length bs = n" "8 * n \<le> LENGTH('a)"
  shows "to_le n (of_le bs :: 'a::len word) = bs"
proof (rule nth_equalityI)
  fix i assume i: "i < length (to_le n (of_le bs :: 'a word))"
  show "to_le n (of_le bs :: 'a word) ! i = bs ! i"
    using i assms by (intro bit_word_eqI) (auto simp: nth_to_le bit_simps bit_of_le)
qed (simp add: assms)

section \<open>Byte arrays\<close>

text \<open>\<^verbatim>\<open>v[o..o + n]\<close>, and \<^verbatim>\<open>v[o..o + b.len()].copy_from_slice(b)\<close>.\<close>

definition bytes_at :: "nat \<Rightarrow> nat \<Rightarrow> bytes \<Rightarrow> bytes" where
  "bytes_at k n v = take n (drop k v)"

definition put_at :: "nat \<Rightarrow> bytes \<Rightarrow> bytes \<Rightarrow> bytes" where
  "put_at k b v = take k v @ b @ drop (k + length b) v"

lemma length_bytes_at [simp]: "k + n \<le> length v \<Longrightarrow> length (bytes_at k n v) = n"
  by (simp add: bytes_at_def)

lemma length_put_at [simp]: "k + length b \<le> length v \<Longrightarrow> length (put_at k b v) = length v"
  by (simp add: put_at_def)

lemma nth_put_at:
  "k + length b \<le> length v \<Longrightarrow> j < length v \<Longrightarrow> put_at k b v ! j = (if k \<le> j \<and> j < k + length b then b ! (j - k) else v ! j)"
  by (auto simp: put_at_def nth_append min_def)

lemma nth_bytes_at: "k + n \<le> length v \<Longrightarrow> j < n \<Longrightarrow> bytes_at k n v ! j = v ! (k + j)"
  by (simp add: bytes_at_def)

section \<open>The register file\<close>

record vstate =
  zmms :: "bytes list"
  km :: "u64 list"
  last_low :: "bytes list"

definition vstate_new :: vstate where
  "vstate_new = \<lparr>zmms = replicate 32 (replicate 64 0), km = replicate 8 0, last_low = replicate 16 (replicate 32 0)\<rparr>"

text \<open>The shape of the Rust arrays \<^verbatim>\<open>[[u8; 64]; 32]\<close>, \<^verbatim>\<open>[u64; 8]\<close> and \<^verbatim>\<open>[[u8; 32]; 16]\<close>.\<close>

definition vstate_ok :: "vstate \<Rightarrow> bool" where
  "vstate_ok st \<longleftrightarrow> length (zmms st) = 32 \<and> (\<forall>r < 32. length (zmms st ! r) = 64) \<and> length (km st) = 8 \<and>
     length (last_low st) = 16 \<and> (\<forall>i < 16. length (last_low st ! i) = 32)"

definition set_zmm :: "nat \<Rightarrow> bytes \<Rightarrow> vstate \<Rightarrow> vstate" where
  "set_zmm r v st = st\<lparr>zmms := (zmms st)[r := v]\<rparr>"

definition set_k :: "nat \<Rightarrow> u64 \<Rightarrow> vstate \<Rightarrow> vstate" where
  "set_k r v st = st\<lparr>km := (km st)[r := v]\<rparr>"

text \<open>The lanes; a float is the word of its bits.\<close>

definition f32_lane :: "vstate \<Rightarrow> nat \<Rightarrow> nat \<Rightarrow> u32" where
  "f32_lane st reg lane = of_le (bytes_at (lane * 4) 4 (zmms st ! reg))"

definition set_f32_lane :: "nat \<Rightarrow> nat \<Rightarrow> u32 \<Rightarrow> vstate \<Rightarrow> vstate" where
  "set_f32_lane reg lane v st = set_zmm reg (put_at (lane * 4) (to_le 4 v) (zmms st ! reg)) st"

definition f64_lane :: "vstate \<Rightarrow> nat \<Rightarrow> nat \<Rightarrow> u64" where
  "f64_lane st reg lane = of_le (bytes_at (lane * 8) 8 (zmms st ! reg))"

definition set_f64_lane :: "nat \<Rightarrow> nat \<Rightarrow> u64 \<Rightarrow> vstate \<Rightarrow> vstate" where
  "set_f64_lane reg lane v st = set_zmm reg (put_at (lane * 8) (to_le 8 v) (zmms st ! reg)) st"

definition i32_lane :: "vstate \<Rightarrow> nat \<Rightarrow> nat \<Rightarrow> i32" where
  "i32_lane st reg lane = of_le (bytes_at (lane * 4) 4 (zmms st ! reg))"

definition set_i32_lane :: "nat \<Rightarrow> nat \<Rightarrow> i32 \<Rightarrow> vstate \<Rightarrow> vstate" where
  "set_i32_lane reg lane v st = set_zmm reg (put_at (lane * 4) (to_le 4 v) (zmms st ! reg)) st"

definition lane_enabled :: "vstate \<Rightarrow> nat \<Rightarrow> nat \<Rightarrow> bool" where
  "lane_enabled st k lane \<longleftrightarrow> k = 0 \<or> drop_bit lane (km st ! k) AND 1 = 1"

section \<open>The low halves the processor does have\<close>

definition note_write :: "vstate \<Rightarrow> vstate" where
  "note_write st = st\<lparr>last_low := map (take 32) (take 16 (zmms st))\<rparr>"

definition upper_is_stale :: "vstate \<Rightarrow> nat \<Rightarrow> bytes \<Rightarrow> bool" where
  "upper_is_stale st i live \<longleftrightarrow> i < 16 \<and> live \<noteq> last_low st ! i"

definition masked_in :: "u32 \<Rightarrow> nat \<Rightarrow> bool" where
  "masked_in sel i \<longleftrightarrow> sel AND push_bit i 1 \<noteq> 0"

definition sync_in_one :: "bytes list \<Rightarrow> u32 \<Rightarrow> nat \<Rightarrow> vstate \<Rightarrow> vstate" where
  "sync_in_one live sel i st =
     (if \<not> masked_in sel i then st
      else let r = zmms st ! i;
               r' = (if upper_is_stale st i (live ! i) then take 32 r @ replicate 32 0 else r)
           in set_zmm i (put_at 0 (live ! i) r') st)"

definition sync_in_masked :: "bytes list \<Rightarrow> u32 \<Rightarrow> vstate \<Rightarrow> vstate" where
  "sync_in_masked live sel st = fold (sync_in_one live sel) [0..<length live] st"

definition sync_out_one :: "u32 \<Rightarrow> nat \<Rightarrow> vstate \<times> bytes list \<Rightarrow> vstate \<times> bytes list" where
  "sync_out_one sel i sl =
     (if \<not> masked_in sel i then sl
      else let low = take 32 (zmms (fst sl) ! i)
           in ((fst sl)\<lparr>last_low := (last_low (fst sl))[i := low]\<rparr>, (snd sl)[i := low]))"

definition sync_out_masked :: "bytes list \<Rightarrow> u32 \<Rightarrow> vstate \<Rightarrow> vstate \<times> bytes list" where
  "sync_out_masked live sel st = fold (sync_out_one sel) [0..<length live] (st, live)"

definition sync_in :: "bytes list \<Rightarrow> vstate \<Rightarrow> vstate" where
  "sync_in live = sync_in_masked live (- 1)"

definition sync_out :: "bytes list \<Rightarrow> vstate \<Rightarrow> vstate \<times> bytes list" where
  "sync_out live = sync_out_masked live (- 1)"

section \<open>The processor's own registers\<close>

text \<open>The trait \<^verbatim>\<open>Cpu\<close>.\<close>

record 'c cpu_ops =
  cget :: "'c \<Rightarrow> xreg \<Rightarrow> u64"
  cset :: "'c \<Rightarrow> xreg \<Rightarrow> u64 \<Rightarrow> 'c"
  cflags :: "'c \<Rightarrow> u64"
  cset_flags :: "'c \<Rightarrow> u64 \<Rightarrow> 'c"

definition effective_address :: "'c cpu_ops \<Rightarrow> xinsn \<Rightarrow> 'c \<Rightarrow> u64" where
  "effective_address C i c =
     (if ip_rel i then ip_rel_address i
      else let a0 = mem_disp i;
               a1 = (if mem_base i \<noteq> No_reg then a0 + cget C c (mem_base i) else a0)
           in if mem_index i \<noteq> No_reg then a1 + cget C c (mem_index i) * ucast (mem_scale i) else a1)"

definition touches_memory :: "xinsn \<Rightarrow> bool" where
  "touches_memory i \<longleftrightarrow> (\<exists>n \<in> set [0..<xcount i]. xkind i n = K_Memory)"

text \<open>What a provider of the interface promises to the instructions.\<close>

locale cpu_laws =
  fixes C :: "'c cpu_ops" and ok :: "'c \<Rightarrow> bool"
  assumes get_set: "ok c \<Longrightarrow> i < 16 \<Longrightarrow> i \<noteq> 4 \<Longrightarrow> cget C (cset C c (Gp i 8) v) (Gp i 8) = v"
    and get_set_32: "ok c \<Longrightarrow> i < 16 \<Longrightarrow> i \<noteq> 4 \<Longrightarrow> cget C (cset C c (Gp i 4) v) (Gp i 8) = v AND 0xffffffff"
    and get_set_other: "ok c \<Longrightarrow> full_register r \<noteq> full_register s \<Longrightarrow> cget C (cset C c r v) s = cget C c s"
    and flags_set: "ok c \<Longrightarrow> cflags C (cset_flags C c f) = f"
    and flags_kept: "ok c \<Longrightarrow> cflags C (cset C c r v) = cflags C c"
    and get_flags: "ok c \<Longrightarrow> cget C (cset_flags C c f) r = cget C c r"
    and ok_set: "ok c \<Longrightarrow> ok (cset C c r v)"
    and ok_flags: "ok c \<Longrightarrow> ok (cset_flags C c f)"

section \<open>The frame of a patched site\<close>

record patch_frame =
  pymm :: "bytes list"
  pflags :: u64
  pgpr :: "u64 list"

definition GPR_COUNT :: nat where "GPR_COUNT = 15"
definition YMM_OFFSET :: nat where "YMM_OFFSET = 0"
definition FLAGS_OFFSET :: nat where "FLAGS_OFFSET = 16 * 32"
definition GPR_OFFSET :: nat where "GPR_OFFSET = FLAGS_OFFSET + 8"
definition FRAME_SIZE :: nat where "FRAME_SIZE = GPR_OFFSET + GPR_COUNT * 8"
definition RSP_ABOVE_FRAME :: nat where "RSP_ABOVE_FRAME = FRAME_SIZE + 8 + 128"

text \<open>Slots by x86 register number (rax, rcx, rdx, rbx, rsp, rbp, rsi, rdi, r8 to r15).\<close>

definition gpr_slot :: "nat option list" where
  "gpr_slot = [Some 0, Some 2, Some 3, Some 1, None, Some 6, Some 4, Some 5,
               Some 7, Some 8, Some 9, Some 10, Some 11, Some 12, Some 13, Some 14]"

definition slot_of :: "xreg \<Rightarrow> nat option" where
  "slot_of r = (case full_register r of Gp i s \<Rightarrow> if i < 16 then gpr_slot ! i else None | _ \<Rightarrow> None)"

record patch_cpu =
  pframe :: patch_frame
  prsp :: u64

definition patch_cpu_new :: "u64 \<Rightarrow> patch_frame \<Rightarrow> patch_cpu" where
  "patch_cpu_new at f = \<lparr>pframe = f, prsp = at + of_nat RSP_ABOVE_FRAME\<rparr>"

definition patch_get :: "patch_cpu \<Rightarrow> xreg \<Rightarrow> u64" where
  "patch_get c r =
     (if full_register r = Gp 4 8 then prsp c
      else case slot_of r of Some i \<Rightarrow> pgpr (pframe c) ! i | None \<Rightarrow> 0)"

definition patch_set :: "patch_cpu \<Rightarrow> xreg \<Rightarrow> u64 \<Rightarrow> patch_cpu" where
  "patch_set c r v0 =
     (let v = (if reg_size r = 4 then v0 AND 0xffffffff else v0) in
      case slot_of r of
        Some i \<Rightarrow> c\<lparr>pframe := (pframe c)\<lparr>pgpr := (pgpr (pframe c))[i := v]\<rparr>\<rparr>
      | None \<Rightarrow> c)"

definition patch_flags :: "patch_cpu \<Rightarrow> u64" where
  "patch_flags c = pflags (pframe c)"

definition patch_set_flags :: "patch_cpu \<Rightarrow> u64 \<Rightarrow> patch_cpu" where
  "patch_set_flags c f = c\<lparr>pframe := (pframe c)\<lparr>pflags := f\<rparr>\<rparr>"

definition patch_ops :: "patch_cpu cpu_ops" where
  "patch_ops = \<lparr>cget = patch_get, cset = patch_set, cflags = patch_flags, cset_flags = patch_set_flags\<rparr>"

definition patch_ok :: "patch_cpu \<Rightarrow> bool" where
  "patch_ok c \<longleftrightarrow> length (pgpr (pframe c)) = GPR_COUNT"

lemma gpr_slot_register: "i < 16 \<Longrightarrow> gpr_slot ! i = Some a \<Longrightarrow> [0, 3, 1, 2, 6, 7, 5, 8, 9, 10, 11, 12, 13, 14, 15] ! a = i \<and> a < 15"
  by (simp add: gpr_slot_def nth_Cons' split: if_splits)

lemma gpr_slot_some: "i < 16 \<Longrightarrow> i \<noteq> 4 \<Longrightarrow> \<exists>a < 15. gpr_slot ! i = Some a"
  by (simp add: gpr_slot_def nth_Cons' split: if_splits)

lemma slot_of_inj:
  assumes "slot_of r = Some a" "slot_of s = Some a"
  shows "full_register r = full_register s"
proof -
  obtain i where i: "full_register r = Gp i 8" "i < 16" "gpr_slot ! i = Some a"
    using assms(1) by (cases r) (auto simp: slot_of_def split: if_splits)
  obtain j where j: "full_register s = Gp j 8" "j < 16" "gpr_slot ! j = Some a"
    using assms(2) by (cases s) (auto simp: slot_of_def split: if_splits)
  show ?thesis using gpr_slot_register[OF i(2,3)] gpr_slot_register[OF j(2,3)] i(1) j(1) by simp
qed

lemma slot_not_rsp: "slot_of r = Some a \<Longrightarrow> full_register r \<noteq> Gp 4 8"
  by (auto simp: slot_of_def gpr_slot_def)

interpretation pc: cpu_laws patch_ops patch_ok
proof unfold_locales
  fix c :: patch_cpu and i :: nat and v :: u64
  assume ok: "patch_ok c" and i: "i < 16" "i \<noteq> 4"
  obtain a where a: "a < 15" "gpr_slot ! i = Some a" using gpr_slot_some[OF i] by blast
  show "cget patch_ops (cset patch_ops c (Gp i 8) v) (Gp i 8) = v"
    "cget patch_ops (cset patch_ops c (Gp i 4) v) (Gp i 8) = v AND 0xffffffff"
    using a ok i by (simp_all add: patch_ops_def patch_get_def patch_set_def slot_of_def patch_ok_def GPR_COUNT_def)
next
  fix c :: patch_cpu and r s :: xreg and v :: u64
  assume "patch_ok c" and n: "full_register r \<noteq> full_register s"
  show "cget patch_ops (cset patch_ops c r v) s = cget patch_ops c s"
  proof (cases "slot_of r = None \<or> slot_of s = None")
    case True
    then show ?thesis by (auto simp: patch_ops_def patch_get_def patch_set_def Let_def split: option.split)
  next
    case False
    then obtain a b where ab: "slot_of r = Some a" "slot_of s = Some b" by auto
    then have "a \<noteq> b" using slot_of_inj[of r a s] n by auto
    then show ?thesis using ab by (simp add: patch_ops_def patch_get_def patch_set_def Let_def)
  qed
qed (auto simp: patch_ops_def patch_get_def patch_set_def patch_flags_def patch_set_flags_def patch_ok_def Let_def split: option.split)

section \<open>Synchronisation\<close>

text \<open>Both loops run over the sixteen registers; each step changes one entry of its own.\<close>

lemma sync_in_fold:
  assumes "vstate_ok st" "n \<le> 16" "\<And>i. i < n \<Longrightarrow> length (live ! i) = 32"
  shows "fold (sync_in_one live sel) [0..<n] st =
    st\<lparr>zmms := map (\<lambda>r. if r < n \<and> masked_in sel r
        then live ! r @ (if live ! r \<noteq> last_low st ! r then replicate 32 0 else drop 32 (zmms st ! r))
        else zmms st ! r) [0..<32]\<rparr>"
  using assms(2,3)
proof (induction n)
  case 0
  have "zmms st = map (\<lambda>r. zmms st ! r) [0..<32]" using assms(1) by (intro nth_equalityI) (simp_all add: vstate_ok_def)
  then show ?case by simp
next
  case (Suc n)
  let ?z = "\<lambda>n. map (\<lambda>r. if r < n \<and> masked_in sel r
        then live ! r @ (if live ! r \<noteq> last_low st ! r then replicate 32 0 else drop 32 (zmms st ! r))
        else zmms st ! r) [0..<32]"
  have ih: "fold (sync_in_one live sel) [0..<n] st = st\<lparr>zmms := ?z n\<rparr>" using Suc by simp
  have n: "n < 16" "n < 32" "length (live ! n) = 32" "length (zmms st ! n) = 64" using Suc.prems assms(1) by (auto simp: vstate_ok_def)
  have zn: "?z n ! n = zmms st ! n" using n by (simp add: nth_map_upt)
  have "sync_in_one live sel n (st\<lparr>zmms := ?z n\<rparr>) = st\<lparr>zmms := ?z (Suc n)\<rparr>"
  proof (cases "masked_in sel n")
    case False
    then have "?z n = ?z (Suc n)" by (intro map_cong) (auto simp: less_Suc_eq)
    then show ?thesis using False by (simp add: sync_in_one_def)
  next
    case True
    let ?v = "live ! n @ (if live ! n \<noteq> last_low st ! n then replicate 32 0 else drop 32 (zmms st ! n))"
    have "(?z n)[n := ?v] = ?z (Suc n)" using True n by (intro nth_equalityI) (auto simp: nth_list_update less_Suc_eq)
    moreover have "sync_in_one live sel n (st\<lparr>zmms := ?z n\<rparr>) = st\<lparr>zmms := (?z n)[n := ?v]\<rparr>"
      using True n zn by (simp add: sync_in_one_def set_zmm_def upper_is_stale_def put_at_def)
    ultimately show ?thesis by simp
  qed
  then show ?case using ih by simp
qed

lemma sync_out_fold:
  assumes "vstate_ok st" "n \<le> 16" "length live = 16"
  shows "fold (sync_out_one sel) [0..<n] (st, live) =
    (st\<lparr>last_low := map (\<lambda>r. if r < n \<and> masked_in sel r then take 32 (zmms st ! r) else last_low st ! r) [0..<16]\<rparr>,
     map (\<lambda>r. if r < n \<and> masked_in sel r then take 32 (zmms st ! r) else live ! r) [0..<16])"
  using assms(2)
proof (induction n)
  case 0
  have "last_low st = map (\<lambda>r. last_low st ! r) [0..<16]" "live = map (\<lambda>r. live ! r) [0..<16]"
    using assms(1,3) by (auto intro!: nth_equalityI simp: vstate_ok_def)
  then show ?case by simp
next
  case (Suc n)
  let ?f = "\<lambda>xs n. map (\<lambda>r. if r < n \<and> masked_in sel r then take 32 (zmms st ! r) else xs ! r) [0..<16]"
  have step: "?f xs (Suc n) = (if masked_in sel n then (?f xs n)[n := take 32 (zmms st ! n)] else ?f xs n)" for xs
    using Suc.prems by (intro nth_equalityI) (auto simp: nth_list_update less_Suc_eq)
  show ?case using Suc by (simp add: sync_out_one_def Let_def step)
qed


section \<open>Properties\<close>

text \<open>
  C32. The rule of VEX writes.  After the registers named by \<open>sel\<close> were written back and the program ran
  on, taking them in again keeps the whole 64 bytes of every register whose low half is what was left
  there; a register whose low half something else wrote gets that half and zeros above it; the
  registers not named, and the masks, are as they were.
\<close>

theorem vex_writes_zero_upper:
  assumes "vstate_ok st" "length live = 16" "sync_out_masked live sel st = (st', left)"
    "length live' = 16" "\<forall>i < 16. length (live' ! i) = 32"
  shows "sync_in_masked live' sel st' = st'\<lparr>zmms := map (\<lambda>r.
      if r < 16 \<and> masked_in sel r \<and> live' ! r \<noteq> left ! r then live' ! r @ replicate 32 0 else zmms st ! r) [0..<32]\<rparr>"
proof -
  have out: "st' = st\<lparr>last_low := map (\<lambda>r. if r < 16 \<and> masked_in sel r then take 32 (zmms st ! r) else last_low st ! r) [0..<16]\<rparr>"
    "left = map (\<lambda>r. if r < 16 \<and> masked_in sel r then take 32 (zmms st ! r) else live ! r) [0..<16]"
    using assms(3) sync_out_fold[OF assms(1) _ assms(2), of 16 sel] assms(2) by (simp_all add: sync_out_masked_def)
  have ok': "vstate_ok st'" using assms(1) unfolding out by (auto simp: vstate_ok_def)
  have "sync_in_masked live' sel st' = st'\<lparr>zmms := map (\<lambda>r. if r < 16 \<and> masked_in sel r
        then live' ! r @ (if live' ! r \<noteq> last_low st' ! r then replicate 32 0 else drop 32 (zmms st' ! r))
        else zmms st' ! r) [0..<32]\<rparr>"
    unfolding sync_in_masked_def using sync_in_fold[OF ok', of 16 live' sel] assms(4,5) by simp
  moreover have "map (\<lambda>r. if r < 16 \<and> masked_in sel r
        then live' ! r @ (if live' ! r \<noteq> last_low st' ! r then replicate 32 0 else drop 32 (zmms st' ! r))
        else zmms st' ! r) [0..<32] = map (\<lambda>r.
      if r < 16 \<and> masked_in sel r \<and> live' ! r \<noteq> left ! r then live' ! r @ replicate 32 0 else zmms st ! r) [0..<32]"
    using assms(1) by (intro map_cong refl) (auto simp: out vstate_ok_def)
  ultimately show ?thesis by simp
qed

text \<open>All registers written back; then a VEX instruction sets \<^verbatim>\<open>ymm1\<close> to ones.\<close>

definition demo_full :: vstate where
  "demo_full = vstate_new\<lparr>zmms := replicate 32 (replicate 64 7)\<rparr>"

definition demo_low :: "bytes list" where
  "demo_low = replicate 16 (replicate 32 7)"

definition demo_vex :: "bytes list" where
  "demo_vex = demo_low[1 := replicate 32 255]"

theorem vex_writes_zero_upper_witness:
  "sync_in_masked demo_vex (- 1) (fst (sync_out_masked (replicate 16 []) (- 1) demo_full)) =
   (fst (sync_out_masked (replicate 16 []) (- 1) demo_full))\<lparr>zmms := (replicate 32 (replicate 64 7))[1 := replicate 32 255 @ replicate 32 0]\<rparr>"
proof -
  have ok: "vstate_ok demo_full" by (simp add: vstate_ok_def demo_full_def vstate_new_def)
  have l: "snd (sync_out_masked (replicate 16 []) (- 1) demo_full) = demo_low" by code_simp
  have eq: "sync_out_masked (replicate 16 []) (- 1) demo_full =
      (fst (sync_out_masked (replicate 16 []) (- 1) demo_full), demo_low)" using l by (metis prod.collapse)
  have "sync_in_masked demo_vex (- 1) (fst (sync_out_masked (replicate 16 []) (- 1) demo_full)) =
      (fst (sync_out_masked (replicate 16 []) (- 1) demo_full))\<lparr>zmms := map (\<lambda>r.
      if r < 16 \<and> masked_in (- 1) r \<and> demo_vex ! r \<noteq> demo_low ! r
      then demo_vex ! r @ replicate 32 0 else zmms demo_full ! r) [0..<32]\<rparr>"
    by (rule vex_writes_zero_upper[OF ok _ eq]) (auto simp: nth_list_update demo_vex_def demo_low_def)
  moreover have "map (\<lambda>r. if r < 16 \<and> masked_in (- 1) r \<and> demo_vex ! r \<noteq> demo_low ! r
      then demo_vex ! r @ replicate 32 0 else zmms demo_full ! r) [0..<32] =
      (replicate 32 (replicate 64 7))[1 := replicate 32 255 @ replicate 32 0 :: bytes]"
    by (intro nth_equalityI) (auto simp: nth_list_update masked_in_def demo_full_def demo_vex_def demo_low_def)
  ultimately show ?thesis by simp
qed

end
