(* ===== verification/Emu_Core.thy ===== *)
theory Emu_Core
  imports VState
begin

text \<open>
  What every instruction of the emulator, \<^verbatim>\<open>host/crates/phi512/src/emulate.rs\<close>, is made of: the
  results and errors, memory, the source operands, the lanes of a register, floats as the words of
  their bits, and the masked write of a destination.
\<close>

section \<open>Results\<close>

text \<open>
  \<^verbatim>\<open>Unsupported\<close> by the kind of its message.  A memory access of the emulator that is not mapped
  faults in the program's place: \<open>Fault\<close> with its address.
\<close>

datatype reason = R_destination | R_source | R_kind | R_operation | R_no_mask | R_range | R_not_in_table

datatype 'a res = Ok 'a | Unsupported reason | Fault u64

fun and_then :: "'a res \<Rightarrow> ('a \<Rightarrow> 'b res) \<Rightarrow> 'b res" where
  "and_then (Ok x) f = f x"
| "and_then (Unsupported r) f = Unsupported r"
| "and_then (Fault a) f = Fault a"

lemma and_then_Ok: "and_then x f = Ok y \<longleftrightarrow> (\<exists>v. x = Ok v \<and> f v = Ok y)"
  by (cases x) auto

lemma and_then_Unsupported: "and_then x f = Unsupported r \<longleftrightarrow> x = Unsupported r \<or> (\<exists>v. x = Ok v \<and> f v = Unsupported r)"
  by (cases x) auto

text \<open>\<^verbatim>\<open>ok_or_else\<close>\<close>

definition need :: "reason \<Rightarrow> 'a option \<Rightarrow> 'a res" where
  "need r x = (case x of Some v \<Rightarrow> Ok v | None \<Rightarrow> Unsupported r)"

lemma need_Ok: "need r x = Ok v \<longleftrightarrow> x = Some v"
  by (simp add: need_def split: option.split)

lemma need_Unsupported: "need r x = Unsupported q \<longleftrightarrow> x = None \<and> r = q"
  by (simp add: need_def split: option.split)

section \<open>Memory\<close>

type_synonym ram = "u64 \<Rightarrow> u8 option"

definition mload :: "ram \<Rightarrow> u64 \<Rightarrow> nat \<Rightarrow> bytes res" where
  "mload m a n = (case those (map (\<lambda>j. m (a + of_nat j)) [0..<n]) of Some bs \<Rightarrow> Ok bs | None \<Rightarrow> Fault a)"

definition mstore :: "ram \<Rightarrow> u64 \<Rightarrow> bytes \<Rightarrow> ram res" where
  "mstore m a bs =
     (if list_all (\<lambda>j. m (a + of_nat j) \<noteq> None) [0..<length bs]
      then Ok (\<lambda>x. if unat (x - a) < length bs then Some (bs ! unat (x - a)) else m x)
      else Fault a)"

text \<open>The emulator's arguments: the register file, the processor and the program's memory.\<close>

record 'c mach =
  vs :: vstate
  cpu :: 'c
  ram :: ram

definition put_zmm :: "nat \<Rightarrow> bytes \<Rightarrow> 'c mach \<Rightarrow> 'c mach" where
  "put_zmm r v M = M\<lparr>vs := set_zmm r v (vs M)\<rparr>"

section \<open>Registers\<close>

datatype lanes = L_F32 | L_F64 | L_I32 | L_I64

fun lane_bytes :: "lanes \<Rightarrow> nat" where
  "lane_bytes L_F32 = 4"
| "lane_bytes L_I32 = 4"
| "lane_bytes L_F64 = 8"
| "lane_bytes L_I64 = 8"

fun zmm_index :: "xreg \<Rightarrow> nat option" where
  "zmm_index (Vec i s) = (if s = 64 \<or> s = 32 \<or> s = 16 then Some i else None)"
| "zmm_index _ = None"

fun mask_index :: "xreg \<Rightarrow> nat" where
  "mask_index (Mask i) = i"
| "mask_index _ = 0"

fun dest_width_of :: "xreg \<Rightarrow> nat" where
  "dest_width_of (Vec i s) = (if s = 64 then 64 else if s = 32 then 32 else 16)"
| "dest_width_of _ = 16"

definition dest_width :: "xinsn \<Rightarrow> nat" where
  "dest_width i = (case xreg_of i 0 of Vec r s \<Rightarrow> if s = 32 then 32 else if s = 16 then 16 else 64 | _ \<Rightarrow> 64)"

text \<open>An element in every lane.\<close>

definition splat :: "nat \<Rightarrow> bytes \<Rightarrow> bytes" where
  "splat e b = concat (replicate (64 div e) b)"

definition pad64 :: "bytes \<Rightarrow> bytes" where
  "pad64 b = b @ replicate (64 - length b) 0"

definition source_bytes :: "'c cpu_ops \<Rightarrow> xinsn \<Rightarrow> nat \<Rightarrow> lanes \<Rightarrow> 'c mach \<Rightarrow> bytes res" where
  "source_bytes C i n ln M =
     (case xkind i n of
        K_Register \<Rightarrow>
          (case zmm_index (xreg_of i n) of
             Some r \<Rightarrow> Ok (zmms (vs M) ! r)
           | None \<Rightarrow>
               if is_gpr (xreg_of i n)
               then Ok (splat (lane_bytes ln) (take (lane_bytes ln) (to_le 8 (cget C (cpu M) (xreg_of i n)))))
               else Unsupported R_source)
      | K_Memory \<Rightarrow>
          (let a = effective_address C i (cpu M) in
           if broadcast i then and_then (mload (ram M) a (lane_bytes ln)) (\<lambda>one. Ok (splat (lane_bytes ln) one))
           else and_then (mload (ram M) a (max 1 (min (mem_size i) 64))) (\<lambda>b. Ok (pad64 b)))
      | _ \<Rightarrow> Unsupported R_kind)"

definition lane32 :: "bytes \<Rightarrow> nat \<Rightarrow> u32" where
  "lane32 b i = of_le (bytes_at (i * 4) 4 b)"

definition lane64 :: "bytes \<Rightarrow> nat \<Rightarrow> u64" where
  "lane64 b i = of_le (bytes_at (i * 8) 8 b)"

section \<open>Masked writes\<close>

text \<open>
  The loop of every family: lane by lane, the enabled lanes get their value, the others are zeroed
  (under zeroing-masking) or left; then the bytes above the operand's width are zeroed.
\<close>

definition write_lane :: "(nat \<Rightarrow> bool) \<Rightarrow> bool \<Rightarrow> nat \<Rightarrow> (nat \<Rightarrow> bytes) \<Rightarrow> nat \<Rightarrow> bytes \<Rightarrow> bytes" where
  "write_lane en z e v i r =
     (if en i then put_at (i * e) (v i) r else if z then put_at (i * e) (replicate e 0) r else r)"

definition masked_write :: "(nat \<Rightarrow> bool) \<Rightarrow> bool \<Rightarrow> nat \<Rightarrow> nat \<Rightarrow> (nat \<Rightarrow> bytes) \<Rightarrow> bytes \<Rightarrow> bytes" where
  "masked_write en z e n v r = fold (write_lane en z e v) [0..<n] r"

definition zero_above :: "nat \<Rightarrow> bytes \<Rightarrow> bytes" where
  "zero_above w r = take w r @ replicate (64 - w) 0"

definition enabled :: "xinsn \<Rightarrow> 'c mach \<Rightarrow> nat \<Rightarrow> bool" where
  "enabled i M = lane_enabled (vs M) (mask_index (xmask i))"

text \<open>\<open>n\<close> lanes of \<open>e\<close> bytes written to register \<open>d\<close>, all above \<open>w\<close> bytes zeroed.\<close>

definition finish :: "xinsn \<Rightarrow> nat \<Rightarrow> nat \<Rightarrow> nat \<Rightarrow> nat \<Rightarrow> (nat \<Rightarrow> bytes) \<Rightarrow> 'c mach \<Rightarrow> 'c mach" where
  "finish i d e n w v M =
     put_zmm d (zero_above w (masked_write (enabled i M) (zeroing i) e n v (zmms (vs M) ! d))) M"

text \<open>Masked loads and stores touch the memory of the enabled lanes only.\<close>

fun masked_load :: "ram \<Rightarrow> u64 \<Rightarrow> (nat \<Rightarrow> bool) \<Rightarrow> bool \<Rightarrow> nat \<Rightarrow> nat list \<Rightarrow> bytes \<Rightarrow> bytes res" where
  "masked_load m a en z e [] r = Ok r"
| "masked_load m a en z e (j # js) r =
     (if en j then and_then (mload m (a + of_nat (j * e)) e) (\<lambda>b. masked_load m a en z e js (put_at (j * e) b r))
      else masked_load m a en z e js (if z then put_at (j * e) (replicate e 0) r else r))"

fun masked_store :: "u64 \<Rightarrow> (nat \<Rightarrow> bool) \<Rightarrow> nat \<Rightarrow> bytes \<Rightarrow> nat list \<Rightarrow> ram \<Rightarrow> ram res" where
  "masked_store a en e src [] m = Ok m"
| "masked_store a en e src (j # js) m =
     (if en j then and_then (mstore m (a + of_nat (j * e)) (bytes_at (j * e) e src)) (masked_store a en e src js)
      else masked_store a en e src js m)"

section \<open>Floats\<close>

text \<open>
  A float is the word of its bits.  Negation flips the sign bit; comparisons and conversions to
  integers are computed from sign, exponent and mantissa.  The arithmetic that rounds is IEEE 754's and a
  parameter: \<open>add\<close> to \<open>div\<close>, square root, fused multiply-add, rounding to an integral value
  (\<open>rte\<close>: ties to even), and the conversions that round.
\<close>

record fops =
  add32 :: "u32 \<Rightarrow> u32 \<Rightarrow> u32"
  sub32 :: "u32 \<Rightarrow> u32 \<Rightarrow> u32"
  mul32 :: "u32 \<Rightarrow> u32 \<Rightarrow> u32"
  div32 :: "u32 \<Rightarrow> u32 \<Rightarrow> u32"
  sqrt32 :: "u32 \<Rightarrow> u32"
  fma32 :: "u32 \<Rightarrow> u32 \<Rightarrow> u32 \<Rightarrow> u32"
  rte32 :: "u32 \<Rightarrow> u32"
  trunc32 :: "u32 \<Rightarrow> u32"
  add64 :: "u64 \<Rightarrow> u64 \<Rightarrow> u64"
  sub64 :: "u64 \<Rightarrow> u64 \<Rightarrow> u64"
  mul64 :: "u64 \<Rightarrow> u64 \<Rightarrow> u64"
  div64 :: "u64 \<Rightarrow> u64 \<Rightarrow> u64"
  sqrt64 :: "u64 \<Rightarrow> u64"
  fma64 :: "u64 \<Rightarrow> u64 \<Rightarrow> u64 \<Rightarrow> u64"
  rte64 :: "u64 \<Rightarrow> u64"
  trunc64 :: "u64 \<Rightarrow> u64"
  floor64 :: "u64 \<Rightarrow> u64"
  ceil64 :: "u64 \<Rightarrow> u64"
  f64_of_f32 :: "u32 \<Rightarrow> u64"
  f32_of_f64 :: "u64 \<Rightarrow> u32"
  f32_of_int :: "int \<Rightarrow> u32"
  f64_of_int :: "int \<Rightarrow> u64"

definition neg32 :: "u32 \<Rightarrow> u32" where "neg32 x = x XOR 0x80000000"
definition neg64 :: "u64 \<Rightarrow> u64" where "neg64 x = x XOR 0x8000000000000000"

definition nan32 :: "u32 \<Rightarrow> bool" where "nan32 x \<longleftrightarrow> 0x7f800000 < x AND 0x7fffffff"
definition nan64 :: "u64 \<Rightarrow> bool" where "nan64 x \<longleftrightarrow> 0x7ff0000000000000 < x AND 0x7fffffffffffffff"
definition inf64 :: "u64 \<Rightarrow> bool" where "inf64 x \<longleftrightarrow> x AND 0x7fffffffffffffff = 0x7ff0000000000000"

text \<open>Finite and infinite values in order: the magnitude's bits with the sign.\<close>

definition key32 :: "u32 \<Rightarrow> int" where
  "key32 x = (let a = int (unat (x AND 0x7fffffff)) in if bit x 31 then - a else a)"

definition key64 :: "u64 \<Rightarrow> int" where
  "key64 x = (let a = int (unat (x AND 0x7fffffffffffffff)) in if bit x 63 then - a else a)"

definition lt32 :: "u32 \<Rightarrow> u32 \<Rightarrow> bool" where "lt32 x y \<longleftrightarrow> \<not> nan32 x \<and> \<not> nan32 y \<and> key32 x < key32 y"
definition eq64 :: "u64 \<Rightarrow> u64 \<Rightarrow> bool" where "eq64 x y \<longleftrightarrow> \<not> nan64 x \<and> \<not> nan64 y \<and> key64 x = key64 y"
definition lt64 :: "u64 \<Rightarrow> u64 \<Rightarrow> bool" where "lt64 x y \<longleftrightarrow> \<not> nan64 x \<and> \<not> nan64 y \<and> key64 x < key64 y"
definition le64 :: "u64 \<Rightarrow> u64 \<Rightarrow> bool" where "le64 x y \<longleftrightarrow> \<not> nan64 x \<and> \<not> nan64 y \<and> key64 x \<le> key64 y"

text \<open>The value of a finite float without its fraction: sign, mantissa with the hidden bit, exponent.\<close>

definition scaled :: "bool \<Rightarrow> nat \<Rightarrow> int \<Rightarrow> int" where
  "scaled neg m e = (let a = (if 0 \<le> e then int m * 2 ^ nat e else int (m div 2 ^ nat (- e))) in if neg then - a else a)"

definition int32_of :: "u32 \<Rightarrow> int" where
  "int32_of x =
     (let e = unat (drop_bit 23 x AND 0xff); m = unat (x AND 0x7fffff) in
      scaled (bit x 31) (if e = 0 then m else m + 2 ^ 23) (int (if e = 0 then 1 else e) - 150))"

definition int64_of :: "u64 \<Rightarrow> int" where
  "int64_of x =
     (let e = unat (drop_bit 52 x AND 0x7ff); m = unat (x AND 0xfffffffffffff) in
      scaled (bit x 63) (if e = 0 then m else m + 2 ^ 52) (int (if e = 0 then 1 else e) - 1075))"

section \<open>The written lanes\<close>

lemma length_write_lane [simp]:
  "(en i \<Longrightarrow> length (v i) = e) \<Longrightarrow> Suc i * e \<le> length r \<Longrightarrow> length (write_lane en z e v i r) = length r"
  by (simp add: write_lane_def add.commute)

lemma length_masked_write:
  assumes "\<And>i. i < n \<Longrightarrow> en i \<Longrightarrow> length (v i) = e" "n * e \<le> length r"
  shows "length (masked_write en z e n v r) = length r"
  using assms
proof (induction n)
  case (Suc n)
  have "length (fold (write_lane en z e v) [0..<n] r) = length r" using Suc by (simp add: masked_write_def)
  then show ?case using Suc.prems by (simp add: masked_write_def)
qed (simp add: masked_write_def)

text \<open>Byte by byte: the value, zero, or the old byte, by the mask bit of its lane.\<close>

lemma nth_masked_write:
  assumes "\<And>i. i < n \<Longrightarrow> en i \<Longrightarrow> length (v i) = e" "n * e \<le> length r" "0 < e" "b < length r"
  shows "masked_write en z e n v r ! b =
    (if b < n * e then if en (b div e) then v (b div e) ! (b mod e) else if z then 0 else r ! b else r ! b)"
  using assms(1,2)
proof (induction n)
  case (Suc n)
  define rr where "rr = masked_write en z e n v r"
  have len: "length rr = length r" unfolding rr_def using Suc.prems by (intro length_masked_write) auto
  have fits: "n * e + e \<le> length r" using Suc.prems(2) by (simp add: add.commute)
  have step: "masked_write en z e (Suc n) v r ! b = write_lane en z e v n rr ! b" by (simp add: masked_write_def rr_def)
  have ih: "rr ! b = (if b < n * e then if en (b div e) then v (b div e) ! (b mod e) else if z then 0 else r ! b else r ! b)"
    using Suc unfolding rr_def by simp
  show ?case
  proof (cases "n * e \<le> b \<and> b < n * e + e")
    case True
    then have d: "b div e = n" "b mod e = b - n * e"
      by (simp_all add: div_nat_eqI mult.commute add.commute) (metis True div_nat_eqI modulo_nat_def mult.commute mult_Suc add.commute)
    have "write_lane en z e v n rr ! b = (if en n then v n ! (b - n * e) else if z then 0 else rr ! b)"
      using True Suc.prems(1)[of n] fits len assms(4) nth_replicate[of "b - n * e" e "0 :: u8"]
      by (simp add: write_lane_def nth_put_at less_diff_conv2 del: nth_replicate)
    then show ?thesis using True d ih step by (simp add: add.commute)
  next
    case False
    have "write_lane en z e v n rr ! b = rr ! b"
      using False Suc.prems(1)[of n] fits len assms(4) by (auto simp: write_lane_def nth_put_at)
    then show ?thesis using False ih step by (auto simp: add.commute)
  qed
qed (simp add: masked_write_def)

lemma length_zero_above [simp]: "w \<le> 64 \<Longrightarrow> length r = 64 \<Longrightarrow> length (zero_above w r) = 64"
  by (simp add: zero_above_def)

lemma nth_zero_above: "length r = 64 \<Longrightarrow> w \<le> 64 \<Longrightarrow> b < 64 \<Longrightarrow> zero_above w r ! b = (if b < w then r ! b else 0)"
  by (simp add: zero_above_def nth_append)

lemma zero_above_64 [simp]: "length r = 64 \<Longrightarrow> zero_above 64 r = r"
  by (simp add: zero_above_def)

end
