(* ===== verification/Emu_Arith.thy ===== *)
theory Emu_Arith
  imports Emu_Core
begin

text \<open>
  Lane arithmetic of \<^verbatim>\<open>host/crates/phi512/src/emulate.rs\<close>: the common case of \<^verbatim>\<open>step\<close> (float and
  integer operations lane by lane), the ternary logic, the blends, the other integer operations
  and the shifts.
\<close>

section \<open>The common case\<close>

text \<open>The lane type of the mnemonics that \<^verbatim>\<open>step\<close> performs itself.\<close>

definition f32_op :: "string \<Rightarrow> bool" where
  "f32_op m \<longleftrightarrow> m \<in> {
      ''Vaddps'', ''Vsubps'', ''Vmulps'', ''Vdivps'', ''Vmaxps'', ''Vminps'', ''Vsqrtps'', ''Vfmadd132ps'', ''Vfmadd213ps'',
      ''Vfmadd231ps'', ''Vfmsub132ps'', ''Vfmsub213ps'', ''Vfmsub231ps'', ''Vxorps'', ''Vandps'', ''Vorps'', ''Vbroadcastss'',
      ''Vfmaddsub132ps'', ''Vfmaddsub213ps'', ''Vfmaddsub231ps'', ''Vfmsubadd132ps'', ''Vfmsubadd213ps'', ''Vfmsubadd231ps'',
      ''Vfnmadd132ps'', ''Vfnmadd213ps'', ''Vfnmadd231ps'', ''Vfnmsub132ps'', ''Vfnmsub213ps'', ''Vfnmsub231ps''}"

definition f64_op :: "string \<Rightarrow> bool" where
  "f64_op m \<longleftrightarrow> m \<in> {
      ''Vaddpd'', ''Vsubpd'', ''Vmulpd'', ''Vdivpd'', ''Vmaxpd'', ''Vminpd'', ''Vsqrtpd'', ''Vfmadd132pd'', ''Vfmadd213pd'',
      ''Vfmadd231pd'', ''Vxorpd'', ''Vandpd'', ''Vorpd'', ''Vbroadcastsd'', ''Vfmaddsub132pd'', ''Vfmaddsub213pd'',
      ''Vfmaddsub231pd'', ''Vfmsubadd132pd'', ''Vfmsubadd213pd'', ''Vfmsubadd231pd'', ''Vfmsub132pd'', ''Vfmsub213pd'',
      ''Vfmsub231pd'', ''Vfnmadd132pd'', ''Vfnmadd213pd'', ''Vfnmadd231pd'', ''Vfnmsub132pd'', ''Vfnmsub213pd'', ''Vfnmsub231pd''}"

definition i32_op :: "string \<Rightarrow> bool" where
  "i32_op m \<longleftrightarrow> m \<in> {
      ''Vpaddd'', ''Vpsubd'', ''Vpmulld'', ''Vpandd'', ''Vpord'', ''Vpxord'', ''Vpandnd'', ''Vpbroadcastd''}"

definition i64_op :: "string \<Rightarrow> bool" where
  "i64_op m \<longleftrightarrow> m \<in> {
      ''Vpaddq'', ''Vpsubq'', ''Vpmullq'', ''Vpandq'', ''Vporq'', ''Vpxorq'', ''Vpandnq'', ''Vpbroadcastq''}"

definition lanes_of :: "string \<Rightarrow> lanes option" where
  "lanes_of m =
     (if f32_op m then Some L_F32 else if f64_op m then Some L_F64
      else if i32_op m then Some L_I32 else if i64_op m then Some L_I64 else None)"

definition one_source :: "string \<Rightarrow> bool" where
  "one_source m \<longleftrightarrow> m \<in> {''Vsqrtps'', ''Vsqrtpd'', ''Vbroadcastss'', ''Vbroadcastsd'', ''Vpbroadcastd'', ''Vpbroadcastq''}"

text \<open>The addend of lane \<open>i\<close> with its sign: vfmaddsub adds on the odd lanes, vfmsubadd on the even.\<close>

definition addsub_sign :: "string \<Rightarrow> nat \<Rightarrow> ('a \<Rightarrow> 'a) \<Rightarrow> 'a \<Rightarrow> 'a" where
  "addsub_sign m i neg v =
     (if (i mod 2 = 1) = (m \<in> {''Vfmaddsub132ps'', ''Vfmaddsub213ps'', ''Vfmaddsub231ps'',
                               ''Vfmaddsub132pd'', ''Vfmaddsub213pd'', ''Vfmaddsub231pd''})
      then v else neg v)"

definition is_addsub :: "string \<Rightarrow> bool" where
  "is_addsub m \<longleftrightarrow> m \<in> {
      ''Vfmaddsub132ps'', ''Vfmaddsub213ps'', ''Vfmaddsub231ps'', ''Vfmaddsub132pd'', ''Vfmaddsub213pd'', ''Vfmaddsub231pd'',
      ''Vfmsubadd132ps'', ''Vfmsubadd213ps'', ''Vfmsubadd231ps'', ''Vfmsubadd132pd'', ''Vfmsubadd213pd'', ''Vfmsubadd231pd''}"

text \<open>
  One lane of each type: \<open>x\<close>, \<open>y\<close> from the sources, \<open>c\<close> from the destination, \<open>a0\<close> the first
  source's lane 0.
\<close>

definition op_f32 :: "fops \<Rightarrow> string \<Rightarrow> nat \<Rightarrow> u32 \<Rightarrow> u32 \<Rightarrow> u32 \<Rightarrow> u32 \<Rightarrow> u32 option" where
  "op_f32 F m i x y c a0 =
     (if m = ''Vaddps'' then Some (add32 F x y)
     else if m = ''Vsubps'' then Some (sub32 F x y)
     else if m = ''Vmulps'' then Some (mul32 F x y)
     else if m = ''Vdivps'' then Some (div32 F x y)
     else if m = ''Vmaxps'' then Some (if lt32 y x then x else y)
     else if m = ''Vminps'' then Some (if lt32 x y then x else y)
     else if m = ''Vsqrtps'' then Some (sqrt32 F x)
     else if m = ''Vbroadcastss'' then Some a0
     else if m = ''Vfmadd132ps'' then Some (fma32 F c y x)
     else if m = ''Vfmadd213ps'' then Some (fma32 F x c y)
     else if m = ''Vfmadd231ps'' then Some (fma32 F x y c)
     else if m = ''Vfmsub132ps'' then Some (fma32 F c y (neg32 x))
     else if m = ''Vfmsub213ps'' then Some (fma32 F x c (neg32 y))
     else if m = ''Vfmsub231ps'' then Some (fma32 F x y (neg32 c))
     else if m = ''Vfmaddsub132ps'' \<or> m = ''Vfmsubadd132ps'' then Some (fma32 F c y (addsub_sign m i neg32 x))
     else if m = ''Vfmaddsub213ps'' \<or> m = ''Vfmsubadd213ps'' then Some (fma32 F x c (addsub_sign m i neg32 y))
     else if m = ''Vfmaddsub231ps'' \<or> m = ''Vfmsubadd231ps'' then Some (fma32 F x y (addsub_sign m i neg32 c))
     else if m = ''Vfnmadd132ps'' then Some (fma32 F (neg32 c) y x)
     else if m = ''Vfnmadd213ps'' then Some (fma32 F (neg32 x) c y)
     else if m = ''Vfnmadd231ps'' then Some (fma32 F (neg32 x) y c)
     else if m = ''Vfnmsub132ps'' then Some (fma32 F (neg32 c) y (neg32 x))
     else if m = ''Vfnmsub213ps'' then Some (fma32 F (neg32 x) c (neg32 y))
     else if m = ''Vfnmsub231ps'' then Some (fma32 F (neg32 x) y (neg32 c))
     else if m = ''Vxorps'' then Some (x XOR y)
     else if m = ''Vandps'' then Some (x AND y)
     else if m = ''Vorps'' then Some (x OR y)
      else None)"

definition op_f64 :: "fops \<Rightarrow> string \<Rightarrow> nat \<Rightarrow> u64 \<Rightarrow> u64 \<Rightarrow> u64 \<Rightarrow> u64 \<Rightarrow> u64 option" where
  "op_f64 F m i x y c a0 =
     (if m = ''Vaddpd'' then Some (add64 F x y)
     else if m = ''Vsubpd'' then Some (sub64 F x y)
     else if m = ''Vmulpd'' then Some (mul64 F x y)
     else if m = ''Vdivpd'' then Some (div64 F x y)
     else if m = ''Vmaxpd'' then Some (if lt64 y x then x else y)
     else if m = ''Vminpd'' then Some (if lt64 x y then x else y)
     else if m = ''Vsqrtpd'' then Some (sqrt64 F x)
     else if m = ''Vbroadcastsd'' then Some a0
     else if m = ''Vfmadd132pd'' then Some (fma64 F c y x)
     else if m = ''Vfmadd213pd'' then Some (fma64 F x c y)
     else if m = ''Vfmadd231pd'' then Some (fma64 F x y c)
     else if m = ''Vfmsub132pd'' then Some (fma64 F c y (neg64 x))
     else if m = ''Vfmsub213pd'' then Some (fma64 F x c (neg64 y))
     else if m = ''Vfmsub231pd'' then Some (fma64 F x y (neg64 c))
     else if m = ''Vfmaddsub132pd'' \<or> m = ''Vfmsubadd132pd'' then Some (fma64 F c y (addsub_sign m i neg64 x))
     else if m = ''Vfmaddsub213pd'' \<or> m = ''Vfmsubadd213pd'' then Some (fma64 F x c (addsub_sign m i neg64 y))
     else if m = ''Vfmaddsub231pd'' \<or> m = ''Vfmsubadd231pd'' then Some (fma64 F x y (addsub_sign m i neg64 c))
     else if m = ''Vfnmadd132pd'' then Some (fma64 F (neg64 c) y x)
     else if m = ''Vfnmadd213pd'' then Some (fma64 F (neg64 x) c y)
     else if m = ''Vfnmadd231pd'' then Some (fma64 F (neg64 x) y c)
     else if m = ''Vfnmsub132pd'' then Some (fma64 F (neg64 c) y (neg64 x))
     else if m = ''Vfnmsub213pd'' then Some (fma64 F (neg64 x) c (neg64 y))
     else if m = ''Vfnmsub231pd'' then Some (fma64 F (neg64 x) y (neg64 c))
     else if m = ''Vxorpd'' then Some (x XOR y)
     else if m = ''Vandpd'' then Some (x AND y)
     else if m = ''Vorpd'' then Some (x OR y)
      else None)"

definition op_i32 :: "string \<Rightarrow> u32 \<Rightarrow> u32 \<Rightarrow> u32 \<Rightarrow> u32 option" where
  "op_i32 m x y a0 =
     (if m = ''Vpaddd'' then Some (x + y)
     else if m = ''Vpsubd'' then Some (x - y)
     else if m = ''Vpmulld'' then Some (x * y)
     else if m = ''Vpandd'' then Some (x AND y)
     else if m = ''Vpord'' then Some (x OR y)
     else if m = ''Vpxord'' then Some (x XOR y)
     else if m = ''Vpandnd'' then Some (NOT x AND y)
     else if m = ''Vpbroadcastd'' then Some a0
      else None)"

definition op_i64 :: "string \<Rightarrow> u64 \<Rightarrow> u64 \<Rightarrow> u64 \<Rightarrow> u64 option" where
  "op_i64 m x y a0 =
     (if m = ''Vpaddq'' then Some (x + y)
     else if m = ''Vpsubq'' then Some (x - y)
     else if m = ''Vpmullq'' then Some (x * y)
     else if m = ''Vpandq'' then Some (x AND y)
     else if m = ''Vporq'' then Some (x OR y)
     else if m = ''Vpxorq'' then Some (x XOR y)
     else if m = ''Vpandnq'' then Some (NOT x AND y)
     else if m = ''Vpbroadcastq'' then Some a0
      else None)"

definition lane_value :: "fops \<Rightarrow> string \<Rightarrow> lanes \<Rightarrow> bytes \<Rightarrow> bytes \<Rightarrow> bytes \<Rightarrow> nat \<Rightarrow> bytes option" where
  "lane_value F m ln a b d i = (case ln of
     L_F32 \<Rightarrow> map_option (to_le 4) (op_f32 F m i (lane32 a i) (lane32 b i) (lane32 d i) (lane32 a 0))
   | L_F64 \<Rightarrow> map_option (to_le 8) (op_f64 F m i (lane64 a i) (lane64 b i) (lane64 d i) (lane64 a 0))
   | L_I32 \<Rightarrow> map_option (to_le 4) (op_i32 m (lane32 a i) (lane32 b i) (lane32 a 0))
   | L_I64 \<Rightarrow> map_option (to_le 8) (op_i64 m (lane64 a i) (lane64 b i) (lane64 a 0)))"

text \<open>The common case of \<^verbatim>\<open>step\<close>: the destination is read before anything is written.\<close>

definition do_arith :: "fops \<Rightarrow> 'c cpu_ops \<Rightarrow> lanes \<Rightarrow> xinsn \<Rightarrow> 'c mach \<Rightarrow> 'c mach res" where
  "do_arith F C ln i M =
     and_then (need R_destination (zmm_index (xreg_of i 0))) (\<lambda>dst.
     and_then (source_bytes C i 1 ln M) (\<lambda>a.
     and_then (if one_source (mnem i) then Ok a else source_bytes C i 2 ln M) (\<lambda>b.
       let d = zmms (vs M) ! dst; w = dest_width i; e = lane_bytes ln; n = w div e;
           v = lane_value F (mnem i) ln a b d
       in if \<exists>j \<in> set [0..<n]. enabled i M j \<and> v j = None then Unsupported R_operation
          else Ok (finish i dst e n w (\<lambda>j. the (v j)) M))))"

section \<open>Ternary logic and blends\<close>

text \<open>Bit \<open>i\<close> of the immediate: the result for the input combination \<open>i\<close>.\<close>

definition ternlog_term :: "u32 \<Rightarrow> u32 \<Rightarrow> u32 \<Rightarrow> u8 \<Rightarrow> nat \<Rightarrow> u32 \<Rightarrow> u32" where
  "ternlog_term a b c imm i r =
     (if bit imm i
      then r OR ((if bit i 2 then a else NOT a) AND (if bit i 1 then b else NOT b) AND (if bit i 0 then c else NOT c))
      else r)"

definition ternlog :: "u32 \<Rightarrow> u32 \<Rightarrow> u32 \<Rightarrow> u8 \<Rightarrow> u32" where
  "ternlog a b c imm = fold (ternlog_term a b c imm) [0..<8] 0"

definition do_ternlog :: "'c cpu_ops \<Rightarrow> xinsn \<Rightarrow> 'c mach \<Rightarrow> 'c mach res" where
  "do_ternlog C i M =
     and_then (need R_destination (zmm_index (xreg_of i 0))) (\<lambda>dst.
     and_then (source_bytes C i 1 L_I32 M) (\<lambda>b.
     and_then (source_bytes C i 2 L_I32 M) (\<lambda>c.
       let a = zmms (vs M) ! dst; w = dest_width i
       in Ok (finish i dst 4 (w div 4) w
            (\<lambda>j. to_le 4 (ternlog (lane32 a j) (lane32 b j) (lane32 c j) (immediate8 i))) M))))"

definition is_blend :: "string \<Rightarrow> bool" where
  "is_blend m \<longleftrightarrow> m \<in> {
      ''Vblendmps'', ''Vblendmpd'', ''Vpblendmd'', ''Vpblendmq''}"

text \<open>The mask chooses the source of a lane.\<close>

definition do_blend :: "'c cpu_ops \<Rightarrow> xinsn \<Rightarrow> 'c mach \<Rightarrow> 'c mach res" where
  "do_blend C i M =
     (let wide = (mnem i = ''Vblendmpd'' \<or> mnem i = ''Vpblendmq''); ln = (if wide then L_F64 else L_F32); e = lane_bytes ln in
      and_then (need R_destination (zmm_index (xreg_of i 0))) (\<lambda>dst.
      and_then (source_bytes C i 1 ln M) (\<lambda>a.
      and_then (source_bytes C i 2 ln M) (\<lambda>b.
        let w = dest_width i; from = (\<lambda>j. if enabled i M j then b else a)
        in Ok (put_zmm dst (zero_above w (masked_write (\<lambda>_. True) False e (w div e)
               (\<lambda>j. bytes_at (j * e) e (from j)) (zmms (vs M) ! dst))) M)))))"

section \<open>Other integer operations\<close>

definition is_misc_int :: "string \<Rightarrow> bool" where
  "is_misc_int m \<longleftrightarrow> m \<in> {
      ''Vpmuldq'', ''Vpmuludq'', ''Vpmaxsd'', ''Vpminsd'', ''Vpmaxud'', ''Vpminud'', ''Vpabsd'', ''Vpmaxsq'', ''Vpminsq'',
      ''Vpmaxuq'', ''Vpminuq''}"

definition abs32 :: "i32 \<Rightarrow> i32" where
  "abs32 x = (if sint x < 0 then - x else x)"

definition misc64 :: "string \<Rightarrow> u64 \<Rightarrow> u64 \<Rightarrow> u64" where
  "misc64 m x y =
     (if m = ''Vpmaxsq'' then (if sint x \<le> sint y then y else x)
      else if m = ''Vpminsq'' then (if sint x \<le> sint y then x else y)
      else if m = ''Vpmaxuq'' then max x y
      else min x y)"

definition misc32 :: "string \<Rightarrow> u32 \<Rightarrow> u32 \<Rightarrow> u32 option" where
  "misc32 m x y =
     (if m = ''Vpmaxsd'' then Some (if sint x \<le> sint y then y else x)
      else if m = ''Vpminsd'' then Some (if sint x \<le> sint y then x else y)
      else if m = ''Vpmaxud'' then Some (max x y)
      else if m = ''Vpminud'' then Some (min x y)
      else if m = ''Vpabsd'' then Some (abs32 x)
      else None)"

text \<open>\<^verbatim>\<open>vpmuldq\<close> multiplies the even 32-bit lanes to 64-bit products.\<close>

definition mul_even :: "string \<Rightarrow> bytes \<Rightarrow> bytes \<Rightarrow> nat \<Rightarrow> u64" where
  "mul_even m a b j =
     (let x = lane32 a (j * 2); y = lane32 b (j * 2) in
      if m = ''Vpmuldq'' then word_of_int (sint x * sint y) else ucast x * ucast y)"

definition do_misc_int :: "'c cpu_ops \<Rightarrow> xinsn \<Rightarrow> 'c mach \<Rightarrow> 'c mach res" where
  "do_misc_int C i M =
     and_then (need R_destination (zmm_index (xreg_of i 0))) (\<lambda>dst.
       let m = mnem i; w = dest_width i in
       if m = ''Vpmuldq'' \<or> m = ''Vpmuludq'' then
         and_then (source_bytes C i 1 L_I32 M) (\<lambda>a.
         and_then (source_bytes C i 2 L_I32 M) (\<lambda>b.
           Ok (finish i dst 8 (w div 8) w (\<lambda>j. to_le 8 (mul_even m a b j)) M)))
       else
         let ln = (if m \<in> {''Vpmaxsq'', ''Vpminsq'', ''Vpmaxuq'', ''Vpminuq''} then L_I64 else L_I32); e = lane_bytes ln in
         and_then (source_bytes C i 1 ln M) (\<lambda>a.
         and_then (if m = ''Vpabsd'' then Ok a else source_bytes C i 2 ln M) (\<lambda>b.
           if ln = L_I64 then Ok (finish i dst e (w div e) w (\<lambda>j. to_le 8 (misc64 m (lane64 a j) (lane64 b j))) M)
           else if \<exists>j \<in> set [0..<w div e]. enabled i M j \<and> misc32 m (lane32 a j) (lane32 b j) = None
           then Unsupported R_operation
           else Ok (finish i dst e (w div e) w (\<lambda>j. to_le 4 (the (misc32 m (lane32 a j) (lane32 b j)))) M))))"

section \<open>Shifts\<close>

definition is_shift :: "string \<Rightarrow> bool" where
  "is_shift m \<longleftrightarrow> m \<in> {
      ''Vpslld'', ''Vpsrld'', ''Vpsrad'', ''Vpsllq'', ''Vpsrlq'', ''Vpsraq'', ''Vpsllvd'', ''Vpsrlvd'', ''Vpsravd'', ''Vpsllvq'',
      ''Vpsrlvq'', ''Vpsravq''}"

definition shift32 :: "string \<Rightarrow> u32 \<Rightarrow> u64 \<Rightarrow> u32" where
  "shift32 m x cnt =
     (if m = ''Vpslld'' \<or> m = ''Vpsllvd'' then if 32 \<le> cnt then 0 else push_bit (unat cnt) x
      else if m = ''Vpsrld'' \<or> m = ''Vpsrlvd'' then if 32 \<le> cnt then 0 else drop_bit (unat cnt) x
      else signed_drop_bit (if 32 \<le> cnt then 31 else unat cnt) x)"

definition shift64 :: "string \<Rightarrow> u64 \<Rightarrow> u64 \<Rightarrow> u64 \<Rightarrow> u64" where
  "shift64 m x cnt bits =
     (if m = ''Vpsllq'' \<or> m = ''Vpsllvq'' then if bits \<le> cnt then 0 else push_bit (unat cnt) x
      else if m = ''Vpsrlq'' \<or> m = ''Vpsrlvq'' then if bits \<le> cnt then 0 else drop_bit (unat cnt) x
      else signed_drop_bit (unat (if bits \<le> cnt then bits - 1 else cnt)) x)"

definition per_lane :: "string \<Rightarrow> bool" where
  "per_lane m \<longleftrightarrow> m \<in> {''Vpsllvd'', ''Vpsrlvd'', ''Vpsravd'', ''Vpsllvq'', ''Vpsrlvq'', ''Vpsravq''}"

text \<open>The count of a lane: the common one, else the lane of the count vector.\<close>

definition shift_count :: "u64 option \<Rightarrow> bytes option \<Rightarrow> bool \<Rightarrow> nat \<Rightarrow> u64" where
  "shift_count counts cvec wide j = (case (counts, cvec) of
     (Some c, _) \<Rightarrow> c
   | (None, Some v) \<Rightarrow> if wide then lane64 v j else ucast (lane32 v j)
   | (None, None) \<Rightarrow> 0)"

definition do_shift :: "'c cpu_ops \<Rightarrow> xinsn \<Rightarrow> 'c mach \<Rightarrow> 'c mach res" where
  "do_shift C i M =
     (let m = mnem i;
          wide = (m \<in> {''Vpsllq'', ''Vpsrlq'', ''Vpsraq'', ''Vpsllvq'', ''Vpsrlvq'', ''Vpsravq''});
          ln = (if wide then L_I64 else L_I32); e = lane_bytes ln in
      and_then (need R_destination (zmm_index (xreg_of i 0))) (\<lambda>dst.
      and_then (source_bytes C i 1 ln M) (\<lambda>a.
      and_then (if xkind i 2 = K_Imm8 then Ok (Some (ucast (immediate8 i)))
                else if per_lane m then Ok None
                else and_then (source_bytes C i 2 L_I64 M) (\<lambda>c. Ok (Some (lane64 c 0)))) (\<lambda>counts.
      and_then (if per_lane m then and_then (source_bytes C i 2 ln M) (\<lambda>c. Ok (Some c)) else Ok None) (\<lambda>cvec.
        let w = dest_width i; cnt = shift_count counts cvec wide
        in Ok (finish i dst e (w div e) w
             (\<lambda>j. if wide then to_le 8 (shift64 m (lane64 a j) (cnt j) (of_nat (e * 8)))
                  else to_le 4 (shift32 m (lane32 a j) (cnt j))) M))))))"

end
