(* ===== verification/Emu_Mask.thy ===== *)
theory Emu_Mask
  imports Emu_Core
begin

text \<open>
  The instructions of \<^verbatim>\<open>host/crates/phi512/src/emulate.rs\<close> that make and test masks: the mask
  register operations, the vector compares and the scalar compares that set the flags.
\<close>

section \<open>Mask registers\<close>

text \<open>The operand width in bits, from the suffix.\<close>

definition mask_width :: "string \<Rightarrow> nat option" where
  "mask_width m =
     (if m \<in> {
      ''Kmovb'', ''Kandb'', ''Kandnb'', ''Korb'', ''Kxorb'', ''Kxnorb'', ''Knotb'', ''Kortestb'', ''Ktestb'', ''Kshiftlb'',
      ''Kshiftrb'', ''Kaddb''}
      then Some 8
     else if m \<in> {
      ''Kmovw'', ''Kandw'', ''Kandnw'', ''Korw'', ''Kxorw'', ''Kxnorw'', ''Knotw'', ''Kortestw'', ''Ktestw'', ''Kshiftlw'',
      ''Kshiftrw'', ''Kaddw'', ''Kunpckbw''}
      then Some 16
     else if m \<in> {
      ''Kmovd'', ''Kandd'', ''Kandnd'', ''Kord'', ''Kxord'', ''Kxnord'', ''Knotd'', ''Kortestd'', ''Ktestd'', ''Kshiftld'',
      ''Kshiftrd'', ''Kaddd'', ''Kunpckwd''}
      then Some 32
     else if m \<in> {
      ''Kmovq'', ''Kandq'', ''Kandnq'', ''Korq'', ''Kxorq'', ''Kxnorq'', ''Knotq'', ''Kortestq'', ''Ktestq'', ''Kshiftlq'',
      ''Kshiftrq'', ''Kaddq'', ''Kunpckdq''}
      then Some 64
      else None)"

definition width_mask :: "nat \<Rightarrow> u64" where
  "width_mask bits = (if 64 \<le> bits then - 1 else push_bit bits 1 - 1)"

definition is_mask_op :: "string \<Rightarrow> bool" where
  "is_mask_op m \<longleftrightarrow> mask_width m \<noteq> None"

definition read_mask :: "'c cpu_ops \<Rightarrow> xinsn \<Rightarrow> nat \<Rightarrow> nat \<Rightarrow> 'c mach \<Rightarrow> u64 res" where
  "read_mask C i bits n M =
     (case xkind i n of
        K_Register \<Rightarrow> (case xreg_of i n of Mask r \<Rightarrow> Ok (km (vs M) ! r) | r \<Rightarrow> Ok (cget C (cpu M) r))
      | K_Memory \<Rightarrow> and_then (mload (ram M) (effective_address C i (cpu M)) ((bits + 7) div 8)) (\<lambda>b. Ok (of_le b))
      | K_Imm8 \<Rightarrow> Ok (ucast (immediate8 i))
      | _ \<Rightarrow> Unsupported R_kind)"

definition is_kortest :: "string \<Rightarrow> bool" where
  "is_kortest m \<longleftrightarrow> m \<in> {''Kortestb'', ''Kortestw'', ''Kortestd'', ''Kortestq''}"

definition is_ktest :: "string \<Rightarrow> bool" where
  "is_ktest m \<longleftrightarrow> m \<in> {''Ktestb'', ''Ktestw'', ''Ktestd'', ''Ktestq''}"

text \<open>The six arithmetic flags, as bits: CF, PF, AF, ZF, SF, OF.\<close>

definition arith_flags :: u64 where
  "arith_flags = push_bit 0 1 OR push_bit 2 1 OR push_bit 4 1 OR push_bit 6 1 OR push_bit 7 1 OR push_bit 11 1"

definition test_flags :: "bool \<Rightarrow> bool \<Rightarrow> u64 \<Rightarrow> u64" where
  "test_flags zf cf f =
     (let f1 = f AND NOT arith_flags; f2 = (if cf then f1 OR push_bit 0 1 else f1)
      in if zf then f2 OR push_bit 6 1 else f2)"

text \<open>The binary operations; \<open>w\<close> the mask of the width.\<close>

definition mask_binary :: "string \<Rightarrow> nat \<Rightarrow> u64 \<Rightarrow> u64 \<Rightarrow> u64 option" where
  "mask_binary m bits x y =
     (if m \<in> {''Kandb'', ''Kandw'', ''Kandd'', ''Kandq''} then Some (x AND y)
      else if m \<in> {''Kandnb'', ''Kandnw'', ''Kandnd'', ''Kandnq''} then Some (NOT x AND y)
      else if m \<in> {''Korb'', ''Korw'', ''Kord'', ''Korq''} then Some (x OR y)
      else if m \<in> {''Kxorb'', ''Kxorw'', ''Kxord'', ''Kxorq''} then Some (x XOR y)
      else if m \<in> {''Kxnorb'', ''Kxnorw'', ''Kxnord'', ''Kxnorq''} then Some (NOT (x XOR y))
      else if m \<in> {''Kaddb'', ''Kaddw'', ''Kaddd'', ''Kaddq''} then Some (x + y)
      else if m \<in> {''Kshiftlb'', ''Kshiftlw'', ''Kshiftld'', ''Kshiftlq''} then
        Some (let s = y AND 0xff in if 64 \<le> s then 0 else push_bit (unat s) x)
      else if m \<in> {''Kshiftrb'', ''Kshiftrw'', ''Kshiftrd'', ''Kshiftrq''} then
        Some (let s = y AND 0xff in if 64 \<le> s then 0 else drop_bit (unat s) (x AND width_mask bits))
      else if m \<in> {''Kunpckbw'', ''Kunpckwd'', ''Kunpckdq''} then
        Some (push_bit (bits div 2) (x AND width_mask (bits div 2)) OR (y AND width_mask (bits div 2)))
      else None)"

definition mask_result :: "'c cpu_ops \<Rightarrow> xinsn \<Rightarrow> nat \<Rightarrow> u64 \<Rightarrow> 'c mach \<Rightarrow> u64 res" where
  "mask_result C i bits x M =
     (let m = mnem i; w = width_mask bits in
      if m \<in> {''Kmovb'', ''Kmovw'', ''Kmovd'', ''Kmovq''} then Ok (x AND w)
      else if m \<in> {''Knotb'', ''Knotw'', ''Knotd'', ''Knotq''} then Ok (NOT x AND w)
      else and_then (read_mask C i bits 2 M) (\<lambda>y. need R_operation (mask_binary m bits x y)))"

text \<open>ZF and CF of \<^verbatim>\<open>kortest\<close> (the OR empty, full) and of \<^verbatim>\<open>ktest\<close> (the AND, the AND NOT empty).\<close>

definition mask_tests :: "string \<Rightarrow> u64 \<Rightarrow> u64 \<Rightarrow> u64 \<Rightarrow> bool \<times> bool" where
  "mask_tests m w a b =
     (if is_kortest m then ((a OR b) AND w = 0, (a OR b) AND w = w)
      else ((a AND b) AND w = 0, (NOT a AND b) AND w = 0))"

definition do_mask :: "'c cpu_ops \<Rightarrow> xinsn \<Rightarrow> 'c mach \<Rightarrow> 'c mach res" where
  "do_mask C i M =
     and_then (need R_operation (mask_width (mnem i))) (\<lambda>bits.
       let w = width_mask bits in
       if is_kortest (mnem i) \<or> is_ktest (mnem i) then
         and_then (read_mask C i bits 0 M) (\<lambda>a0.
         and_then (read_mask C i bits 1 M) (\<lambda>b0.
           let t = mask_tests (mnem i) w (a0 AND w) (b0 AND w)
           in Ok (M\<lparr>cpu := cset_flags C (cpu M) (test_flags (fst t) (snd t) (cflags C (cpu M)))\<rparr>)))
       else
         and_then (read_mask C i bits 1 M) (\<lambda>x.
         and_then (mask_result C i bits x M) (\<lambda>v0.
           let v = v0 AND w in
           case xkind i 0 of
             K_Register \<Rightarrow>
               (case xreg_of i 0 of
                  Mask r \<Rightarrow> Ok (M\<lparr>vs := set_k r v (vs M)\<rparr>)
                | r \<Rightarrow> Ok (M\<lparr>cpu := cset C (cpu M) r v\<rparr>))
           | K_Memory \<Rightarrow>
               and_then (mstore (ram M) (effective_address C i (cpu M)) (to_le ((bits + 7) div 8) v)) (\<lambda>m. Ok (M\<lparr>ram := m\<rparr>))
           | _ \<Rightarrow> Unsupported R_kind)))"

section \<open>Vector compares\<close>

definition float_predicate :: "u8 \<Rightarrow> u64 \<Rightarrow> u64 \<Rightarrow> bool" where
  "float_predicate imm a b =
     (let unord = nan64 a \<or> nan64 b; p = unat (imm AND 0xf) in
      if p = 0 then eq64 a b
      else if p = 1 then lt64 a b
      else if p = 2 then le64 a b
      else if p = 3 then unord
      else if p = 4 then \<not> eq64 a b
      else if p = 5 then \<not> lt64 a b
      else if p = 6 then \<not> le64 a b
      else if p = 7 then \<not> unord
      else if p = 8 then eq64 a b \<or> unord
      else if p = 9 then \<not> le64 b a
      else if p = 10 then \<not> lt64 b a
      else if p = 11 then False
      else if p = 12 then \<not> eq64 a b \<and> \<not> unord
      else if p = 13 then le64 b a
      else if p = 14 then lt64 b a
      else True)"

definition uint_predicate :: "u8 \<Rightarrow> u64 \<Rightarrow> u64 \<Rightarrow> bool" where
  "uint_predicate imm a b =
     (let p = unat (imm AND 7) in
      if p = 0 then a = b else if p = 1 then a < b else if p = 2 then a \<le> b else if p = 3 then False
      else if p = 4 then a \<noteq> b else if p = 5 then b \<le> a else if p = 6 then b < a else True)"

definition int_predicate :: "u8 \<Rightarrow> int \<Rightarrow> int \<Rightarrow> bool" where
  "int_predicate imm a b =
     (let p = unat (imm AND 7) in
      if p = 0 then a = b else if p = 1 then a < b else if p = 2 then a \<le> b else if p = 3 then False
      else if p = 4 then a \<noteq> b else if p = 5 then b \<le> a else if p = 6 then b < a else True)"

definition is_compare :: "string \<Rightarrow> bool" where
  "is_compare m \<longleftrightarrow> m \<in> {
      ''Vcmpps'', ''Vcmppd'', ''Vpcmpd'', ''Vpcmpud'', ''Vpcmpq'', ''Vpcmpuq'', ''Vpcmpeqd'', ''Vpcmpgtd'', ''Vpcmpeqq'',
      ''Vpcmpgtq'', ''Vptestmd'', ''Vptestnmd'', ''Vptestmq'', ''Vptestnmq''}"

definition wide_compare :: "string \<Rightarrow> bool" where
  "wide_compare m \<longleftrightarrow> m \<in> {''Vcmppd'', ''Vpcmpq'', ''Vpcmpuq'', ''Vpcmpeqq'', ''Vpcmpgtq'', ''Vptestmq'', ''Vptestnmq''}"

definition compare_lane :: "fops \<Rightarrow> string \<Rightarrow> u8 \<Rightarrow> bytes \<Rightarrow> bytes \<Rightarrow> nat \<Rightarrow> bool option" where
  "compare_lane F m imm a b i =
     (if m = ''Vcmpps'' then Some (float_predicate imm (f64_of_f32 F (lane32 a i)) (f64_of_f32 F (lane32 b i)))
      else if m = ''Vcmppd'' then Some (float_predicate imm (lane64 a i) (lane64 b i))
      else if m = ''Vpcmpeqd'' then Some (lane32 a i = lane32 b i)
      else if m = ''Vpcmpgtd'' then Some (sint (lane32 b i) < sint (lane32 a i))
      else if m = ''Vptestmd'' then Some (lane32 a i AND lane32 b i \<noteq> 0)
      else if m = ''Vptestnmd'' then Some (lane32 a i AND lane32 b i = 0)
      else if m = ''Vpcmpd'' then Some (int_predicate imm (sint (lane32 a i)) (sint (lane32 b i)))
      else if m = ''Vpcmpud'' then Some (int_predicate imm (uint (lane32 a i)) (uint (lane32 b i)))
      else if m = ''Vpcmpeqq'' then Some (lane64 a i = lane64 b i)
      else if m = ''Vpcmpgtq'' then Some (sint (lane64 b i) < sint (lane64 a i))
      else if m = ''Vpcmpq'' then Some (int_predicate imm (sint (lane64 a i)) (sint (lane64 b i)))
      else if m = ''Vpcmpuq'' then Some (uint_predicate imm (lane64 a i) (lane64 b i))
      else if m = ''Vptestmq'' then Some (lane64 a i AND lane64 b i \<noteq> 0)
      else if m = ''Vptestnmq'' then Some (lane64 a i AND lane64 b i = 0)
      else None)"

text \<open>The result bits: a disabled lane gives zero.\<close>

definition compare_bit :: "(nat \<Rightarrow> bool) \<Rightarrow> (nat \<Rightarrow> bool option) \<Rightarrow> nat \<Rightarrow> u64 \<Rightarrow> u64" where
  "compare_bit en f i out = (if en i \<and> f i = Some True then out OR push_bit i 1 else out)"

definition do_compare :: "fops \<Rightarrow> 'c cpu_ops \<Rightarrow> xinsn \<Rightarrow> 'c mach \<Rightarrow> 'c mach res" where
  "do_compare F C i M =
     (let m = mnem i; ln = (if wide_compare m then L_F64 else L_F32); n = 64 div lane_bytes ln in
      case xreg_of i 0 of
        Mask dst \<Rightarrow>
          and_then (source_bytes C i 1 ln M) (\<lambda>a.
          and_then (source_bytes C i 2 ln M) (\<lambda>b.
            let imm = (if 3 < xcount i then immediate8 i else 0); f = compare_lane F m imm a b
            in if \<exists>j \<in> set [0..<n]. enabled i M j \<and> f j = None then Unsupported R_operation
               else Ok (M\<lparr>vs := set_k dst (fold (compare_bit (enabled i M) f) [0..<n] 0) (vs M)\<rparr>)))
      | _ \<Rightarrow> Unsupported R_destination)"

section \<open>Scalar compares\<close>

definition is_comis :: "string \<Rightarrow> bool" where
  "is_comis m \<longleftrightarrow> m \<in> {
      ''Vcomiss'', ''Vucomiss'', ''Vcomisd'', ''Vucomisd''}"

definition comis_flags :: "u64 \<Rightarrow> u64 \<Rightarrow> u64 \<Rightarrow> u64" where
  "comis_flags x y f =
     (let f0 = f AND NOT arith_flags in
      if nan64 x \<or> nan64 y then f0 OR (push_bit 6 1 OR push_bit 2 1 OR push_bit 0 1)
      else if eq64 x y then f0 OR push_bit 6 1
      else if lt64 x y then f0 OR push_bit 0 1
      else f0)"

definition do_comis :: "fops \<Rightarrow> 'c cpu_ops \<Rightarrow> xinsn \<Rightarrow> 'c mach \<Rightarrow> 'c mach res" where
  "do_comis F C i M =
     (let wide = (mnem i = ''Vcomisd'' \<or> mnem i = ''Vucomisd''); ln = (if wide then L_F64 else L_F32) in
      and_then (source_bytes C i 0 ln M) (\<lambda>a.
      and_then (source_bytes C i 1 ln M) (\<lambda>b.
        let x = (if wide then lane64 a 0 else f64_of_f32 F (lane32 a 0));
            y = (if wide then lane64 b 0 else f64_of_f32 F (lane32 b 0))
        in Ok (M\<lparr>cpu := cset_flags C (cpu M) (comis_flags x y (cflags C (cpu M)))\<rparr>))))"

end
