(* ===== verification/Emu_Move.thy ===== *)
theory Emu_Move
  imports Emu_Core
begin

text \<open>
  The instructions of \<^verbatim>\<open>host/crates/phi512/src/emulate.rs\<close> that move bytes: loads, stores and
  register moves, gathers and scatters, permutes, shuffles, groups extracted and inserted, and
  the widening and narrowing moves.
\<close>

section \<open>Moves\<close>

definition is_move :: "string \<Rightarrow> bool" where
  "is_move m \<longleftrightarrow> m \<in> {''Vmovups'', ''Vmovupd'', ''Vmovaps'', ''Vmovapd'', ''Vmovdqu32'', ''Vmovdqu64'', ''Vmovdqa32'', ''Vmovdqa64''}"

definition move_elem :: "string \<Rightarrow> nat" where
  "move_elem m = (if m \<in> {''Vmovupd'', ''Vmovapd'', ''Vmovdqu64'', ''Vmovdqa64''} then 8 else 4)"

definition do_move :: "'c cpu_ops \<Rightarrow> xinsn \<Rightarrow> 'c mach \<Rightarrow> 'c mach res" where
  "do_move C i M =
     (let e = move_elem (mnem i); a = effective_address C i (cpu M) in
      case (xkind i 0, xkind i 1) of
        (K_Register, K_Memory) \<Rightarrow>
          and_then (need R_destination (zmm_index (xreg_of i 0))) (\<lambda>dst.
            let w = dest_width i in
            and_then (masked_load (ram M) a (enabled i M) (zeroing i) e [0..<w div e] (zmms (vs M) ! dst)) (\<lambda>r.
              Ok (put_zmm dst (zero_above w r) M)))
      | (K_Memory, K_Register) \<Rightarrow>
          and_then (need R_source (zmm_index (xreg_of i 1))) (\<lambda>src.
            let w = dest_width_of (xreg_of i 1) in
            and_then (masked_store a (enabled i M) e (zmms (vs M) ! src) [0..<w div e] (ram M)) (\<lambda>m. Ok (M\<lparr>ram := m\<rparr>)))
      | (K_Register, K_Register) \<Rightarrow>
          and_then (need R_destination (zmm_index (xreg_of i 0))) (\<lambda>dst.
          and_then (need R_source (zmm_index (xreg_of i 1))) (\<lambda>src.
            let w = dest_width i; s = zmms (vs M) ! src
            in Ok (finish i dst e (w div e) w (\<lambda>j. bytes_at (j * e) e s) M)))
      | _ \<Rightarrow> Unsupported R_kind)"

text \<open>\<^verbatim>\<open>vmovd\<close> and \<^verbatim>\<open>vmovq\<close>, between a vector and a general register or memory.\<close>

definition is_movdq :: "string \<Rightarrow> bool" where
  "is_movdq m \<longleftrightarrow> m \<in> {
      ''Vmovd'', ''Vmovq''}"

definition movdq_source :: "'c cpu_ops \<Rightarrow> xinsn \<Rightarrow> nat \<Rightarrow> 'c mach \<Rightarrow> bytes res" where
  "movdq_source C i n M =
     (case xkind i 1 of
        K_Register \<Rightarrow>
          (case zmm_index (xreg_of i 1) of
             Some s \<Rightarrow> Ok (take 8 (zmms (vs M) ! s))
           | None \<Rightarrow> Ok (to_le 8 (cget C (cpu M) (xreg_of i 1))))
      | K_Memory \<Rightarrow> and_then (mload (ram M) (effective_address C i (cpu M)) n) (\<lambda>b. Ok (b @ replicate (8 - n) 0))
      | _ \<Rightarrow> Unsupported R_kind)"

definition do_movdq :: "'c cpu_ops \<Rightarrow> xinsn \<Rightarrow> 'c mach \<Rightarrow> 'c mach res" where
  "do_movdq C i M =
     (let n = (if mnem i = ''Vmovq'' then 8 else 4) in
      if xkind i 0 = K_Register \<and> zmm_index (xreg_of i 0) \<noteq> None then
        and_then (movdq_source C i n M) (\<lambda>v. Ok (put_zmm (the (zmm_index (xreg_of i 0))) (pad64 (take n v)) M))
      else
        and_then (need R_source (zmm_index (xreg_of i 1))) (\<lambda>s.
          let v = take n (zmms (vs M) ! s) in
          case xkind i 0 of
            K_Register \<Rightarrow> Ok (M\<lparr>cpu := cset C (cpu M) (xreg_of i 0) (of_le v)\<rparr>)
          | K_Memory \<Rightarrow> and_then (mstore (ram M) (effective_address C i (cpu M)) v) (\<lambda>m. Ok (M\<lparr>ram := m\<rparr>))
          | _ \<Rightarrow> Unsupported R_kind))"

section \<open>Gathers and scatters\<close>

definition is_gather_scatter :: "string \<Rightarrow> bool" where
  "is_gather_scatter m \<longleftrightarrow> m \<in> {
      ''Vpgatherdd'', ''Vgatherdps'', ''Vpgatherdq'', ''Vgatherdpd'', ''Vpscatterdd'', ''Vscatterdps'', ''Vpscatterdq'',
      ''Vscatterdpd''}"

definition is_scatter :: "string \<Rightarrow> bool" where
  "is_scatter m \<longleftrightarrow> m \<in> {''Vpscatterdd'', ''Vscatterdps'', ''Vpscatterdq'', ''Vscatterdpd''}"

definition lane_address :: "u64 \<Rightarrow> u64 \<Rightarrow> u64 \<Rightarrow> bytes \<Rightarrow> nat \<Rightarrow> u64" where
  "lane_address b s d ix j = b + scast (lane32 ix j) * s + d"

fun gather_lanes :: "ram \<Rightarrow> (nat \<Rightarrow> u64) \<Rightarrow> (nat \<Rightarrow> bool) \<Rightarrow> nat \<Rightarrow> nat list \<Rightarrow> bytes \<Rightarrow> bytes res" where
  "gather_lanes m at en e [] r = Ok r"
| "gather_lanes m at en e (j # js) r =
     (if en j then and_then (mload m (at j) e) (\<lambda>b. gather_lanes m at en e js (put_at (j * e) b r))
      else gather_lanes m at en e js r)"

fun scatter_lanes :: "(nat \<Rightarrow> u64) \<Rightarrow> (nat \<Rightarrow> bool) \<Rightarrow> nat \<Rightarrow> bytes \<Rightarrow> nat list \<Rightarrow> ram \<Rightarrow> ram res" where
  "scatter_lanes at en e src [] m = Ok m"
| "scatter_lanes at en e src (j # js) m =
     (if en j then and_then (mstore m (at j) (bytes_at (j * e) e src)) (scatter_lanes at en e src js)
      else scatter_lanes at en e src js m)"

text \<open>The mask is cleared at the end.\<close>

definition do_gather_scatter :: "'c cpu_ops \<Rightarrow> xinsn \<Rightarrow> 'c mach \<Rightarrow> 'c mach res" where
  "do_gather_scatter C i M =
     (let m = mnem i; e = (if m \<in> {''Vpgatherdq'', ''Vgatherdpd'', ''Vpscatterdq'', ''Vscatterdpd''} then 8 else 4);
          k = mask_index (xmask i) in
      if k = 0 then Unsupported R_no_mask
      else and_then (need R_source (zmm_index (mem_index i))) (\<lambda>idx.
           and_then (need R_source (zmm_index (xreg_of i (if is_scatter m then 1 else 0)))) (\<lambda>vreg.
             let b = (if mem_base i = No_reg then 0 else cget C (cpu M) (mem_base i));
                 at = lane_address b (ucast (mem_scale i)) (mem_disp i) (zmms (vs M) ! idx);
                 v = zmms (vs M) ! vreg; js = [0..<64 div e] in
             if is_scatter m then
               and_then (scatter_lanes at (enabled i M) e v js (ram M)) (\<lambda>mem.
                 Ok (M\<lparr>ram := mem, vs := set_k k 0 (vs M)\<rparr>))
             else
               and_then (gather_lanes (ram M) at (enabled i M) e js v) (\<lambda>r.
                 Ok (M\<lparr>vs := set_k k 0 (set_zmm vreg r (vs M))\<rparr>)))))"

section \<open>Permutes\<close>

definition is_permute :: "string \<Rightarrow> bool" where
  "is_permute m \<longleftrightarrow> m \<in> {
      ''Vpermd'', ''Vpermps'', ''Vpermq'', ''Vpermpd'', ''Vpermt2d'', ''Vpermt2ps'', ''Vpermi2d'', ''Vpermi2ps'', ''Vpermt2q'',
      ''Vpermt2pd'', ''Vpermi2q'', ''Vpermi2pd''}"

definition wide_permute :: "string \<Rightarrow> bool" where
  "wide_permute m \<longleftrightarrow> m \<in> {''Vpermq'', ''Vpermpd'', ''Vpermt2q'', ''Vpermt2pd'', ''Vpermi2q'', ''Vpermi2pd''}"

text \<open>The index of lane \<open>i\<close>: whole, or its low bits.\<close>

definition raw_index :: "bool \<Rightarrow> bytes \<Rightarrow> nat \<Rightarrow> nat" where
  "raw_index wide b i = (if wide then unat (lane64 b i) else unat (lane32 b i))"

definition read_index :: "bool \<Rightarrow> bytes \<Rightarrow> nat \<Rightarrow> nat" where
  "read_index wide b i = (if wide then unat (lane64 b i AND 7) else unat (lane32 b i AND 15))"

definition one_table :: "bool \<Rightarrow> bytes \<Rightarrow> bytes \<Rightarrow> nat \<Rightarrow> bytes" where
  "one_table wide ix src i = (let e = (if wide then 8 else 4) in bytes_at (read_index wide ix i * e) e src)"

definition two_tables :: "bool \<Rightarrow> bytes \<Rightarrow> bytes \<Rightarrow> bytes \<Rightarrow> nat \<Rightarrow> bytes" where
  "two_tables wide ta ix tb i =
     (let e = (if wide then 8 else 4); n = 64 div e; raw = raw_index wide ix i
      in bytes_at ((raw mod n) * e) e (if raw div n mod 2 \<noteq> 0 then tb else ta))"

definition do_permute :: "'c cpu_ops \<Rightarrow> xinsn \<Rightarrow> 'c mach \<Rightarrow> 'c mach res" where
  "do_permute C i M =
     (let m = mnem i; wide = wide_permute m; e = (if wide then 8 else 4); n = 64 div e;
          ln = (if wide then L_I64 else L_I32) in
      and_then (need R_destination (zmm_index (xreg_of i 0))) (\<lambda>dst.
      and_then (source_bytes C i 1 ln M) (\<lambda>s1.
      and_then (source_bytes C i 2 ln M) (\<lambda>s2.
        let d = zmms (vs M) ! dst in
        if m \<in> {''Vpermd'', ''Vpermps'', ''Vpermq'', ''Vpermpd''} then Ok (finish i dst e n 64 (one_table wide s1 s2) M)
        else if m \<in> {''Vpermt2d'', ''Vpermt2ps'', ''Vpermt2q'', ''Vpermt2pd''}
        then Ok (finish i dst e n 64 (two_tables wide d s1 s2) M)
        else if m \<in> {''Vpermi2d'', ''Vpermi2ps'', ''Vpermi2q'', ''Vpermi2pd''}
        then Ok (finish i dst e n 64 (two_tables wide s1 d s2) M)
        else Unsupported R_operation))))"

section \<open>Shuffles within the 128-bit groups\<close>

definition is_lane_move :: "string \<Rightarrow> bool" where
  "is_lane_move m \<longleftrightarrow> m \<in> {
      ''Valignd'', ''Valignq'', ''Vpermilps'', ''Vunpckhps'', ''Vunpcklps'', ''Vunpckhpd'', ''Vunpcklpd'', ''Vpunpckhdq'',
      ''Vpunpckldq'', ''Vpunpckhqdq'', ''Vpunpcklqdq'', ''Vshufps'', ''Vshufpd'', ''Vpshufd'', ''Vshuff32x4'', ''Vshufi32x4'',
      ''Vshuff64x2'', ''Vshufi64x2''}"

text \<open>\<^verbatim>\<open>copy_elem(out, to, from, idx, elem)\<close> as (to, from, idx), and a list of them.\<close>

type_synonym elem_copy = "nat \<times> bytes \<times> nat"

definition copy_elem :: "nat \<Rightarrow> elem_copy \<Rightarrow> bytes \<Rightarrow> bytes" where
  "copy_elem e c out = (case c of (to, from, idx) \<Rightarrow> put_at (to * e) (bytes_at (idx * e) e from) out)"

definition copies :: "nat \<Rightarrow> elem_copy list \<Rightarrow> bytes" where
  "copies e cs = fold (copy_elem e) cs (replicate 64 0)"

definition per_group :: "nat \<Rightarrow> nat \<Rightarrow> (nat \<Rightarrow> nat \<Rightarrow> elem_copy list) \<Rightarrow> elem_copy list" where
  "per_group groups n f = concat (map (\<lambda>g. concat (map (f g) [0..<n])) [0..<groups])"

text \<open>\<open>n\<close>-bit field number \<open>j\<close> of the immediate.\<close>

definition imm_field :: "u8 \<Rightarrow> nat \<Rightarrow> nat \<Rightarrow> nat" where
  "imm_field imm n j = unat (drop_bit (j * n) imm) mod 2 ^ n"

definition align_lane :: "nat \<Rightarrow> nat \<Rightarrow> bytes \<Rightarrow> bytes \<Rightarrow> nat \<Rightarrow> nat \<Rightarrow> bytes" where
  "align_lane e n a b shift j =
     (let cat = take (n * e) b @ take (n * e) a; from = j + shift
      in if from < 2 * n then bytes_at (from * e) e cat else replicate e 0)"

text \<open>The element copies of every shuffle; \<^verbatim>\<open>valign\<close> is \<open>align_lane\<close>.\<close>

definition shuffle_copies :: "string \<Rightarrow> u8 \<Rightarrow> bool \<Rightarrow> nat \<Rightarrow> bytes \<Rightarrow> bytes \<Rightarrow> elem_copy list option" where
  "shuffle_copies m imm by_imm groups a b =
     (if m = ''Vunpcklps'' \<or> m = ''Vpunpckldq'' then
        Some (per_group groups 2 (\<lambda>g j. [(g * 4 + j * 2, a, g * 4 + j), (g * 4 + j * 2 + 1, b, g * 4 + j)]))
      else if m = ''Vunpckhps'' \<or> m = ''Vpunpckhdq'' then
        Some (per_group groups 2 (\<lambda>g j. [(g * 4 + j * 2, a, g * 4 + 2 + j), (g * 4 + j * 2 + 1, b, g * 4 + 2 + j)]))
      else if m = ''Vunpcklpd'' \<or> m = ''Vpunpcklqdq'' then
        Some (per_group groups 1 (\<lambda>g _. [(g * 2, a, g * 2), (g * 2 + 1, b, g * 2)]))
      else if m = ''Vunpckhpd'' \<or> m = ''Vpunpckhqdq'' then
        Some (per_group groups 1 (\<lambda>g _. [(g * 2, a, g * 2 + 1), (g * 2 + 1, b, g * 2 + 1)]))
      else if m = ''Vshufps'' then
        Some (per_group groups 4 (\<lambda>g j. [(g * 4 + j, if j < 2 then a else b, g * 4 + imm_field imm 2 j)]))
      else if m = ''Vpshufd'' then
        Some (per_group groups 4 (\<lambda>g j. [(g * 4 + j, a, g * 4 + imm_field imm 2 j)]))
      else if m = ''Vpermilps'' then
        Some (per_group groups 4 (\<lambda>g j.
          [(g * 4 + j, a, g * 4 + (if by_imm then imm_field imm 2 j else unat (lane32 b (g * 4 + j) AND 3)))]))
      else if m = ''Vshufpd'' then
        Some (per_group groups 2 (\<lambda>g j. [(g * 2 + j, if j = 0 then a else b, g * 2 + imm_field imm 1 (g * 2 + j))]))
      else None)"

text \<open>\<^verbatim>\<open>vshuff32x4\<close> and its kin select whole 128-bit groups.\<close>

definition group_copies :: "u8 \<Rightarrow> nat \<Rightarrow> bytes \<Rightarrow> bytes \<Rightarrow> elem_copy list" where
  "group_copies imm groups a b =
     map (\<lambda>g. (g, if g < groups div 2 then a else b, imm_field imm 2 g)) [0..<groups]"

definition wide_lane_move :: "string \<Rightarrow> bool" where
  "wide_lane_move m \<longleftrightarrow> m \<in> {''Vunpckhpd'', ''Vunpcklpd'', ''Vpunpckhqdq'', ''Vpunpcklqdq'', ''Vshufpd'', ''Vshuff64x2'',
     ''Vshufi64x2'', ''Valignq''}"

definition shuffled :: "string \<Rightarrow> u8 \<Rightarrow> bool \<Rightarrow> nat \<Rightarrow> bytes \<Rightarrow> bytes \<Rightarrow> bytes option" where
  "shuffled m imm by_imm w a b =
     (let e = (if wide_lane_move m then 8 else 4) in
      if m = ''Valignd'' \<or> m = ''Valignq'' then
        (let n = w div e; shift = unat imm mod (2 * n)
         in Some (masked_write (\<lambda>_. True) False e n (align_lane e n a b shift) (replicate 64 0)))
      else if m \<in> {''Vshuff32x4'', ''Vshufi32x4'', ''Vshuff64x2'', ''Vshufi64x2''}
      then Some (copies 16 (group_copies imm (w div 16) a b))
      else map_option (copies e) (shuffle_copies m imm by_imm (w div 16) a b))"

definition do_lane_move :: "'c cpu_ops \<Rightarrow> xinsn \<Rightarrow> 'c mach \<Rightarrow> 'c mach res" where
  "do_lane_move C i M =
     (let m = mnem i; w = dest_width i; wide = wide_lane_move m; ln = (if wide then L_I64 else L_I32); e = lane_bytes ln;
          by_imm = (xkind i (xcount i - 1) = K_Imm8) in
      and_then (need R_destination (zmm_index (xreg_of i 0))) (\<lambda>dst.
      and_then (source_bytes C i 1 ln M) (\<lambda>a.
      and_then (if m = ''Vpshufd'' \<or> (m = ''Vpermilps'' \<and> by_imm) then Ok a else source_bytes C i 2 ln M) (\<lambda>b.
      and_then (need R_operation (shuffled m (if 2 < xcount i \<and> by_imm then immediate8 i else 0) by_imm w a b)) (\<lambda>s.
        Ok (finish i dst e (w div e) w (\<lambda>j. bytes_at (j * e) e s) M))))))"

text \<open>\<^verbatim>\<open>vinsertps\<close>: one dword replaced, the dwords named by the immediate's low bits zeroed.\<close>

definition insertps :: "u8 \<Rightarrow> bool \<Rightarrow> bytes \<Rightarrow> bytes \<Rightarrow> bytes" where
  "insertps imm from_mem a b =
     (let from = (if from_mem then 0 else imm_field imm 2 3); at = imm_field imm 2 2;
          s = put_at (at * 4) (bytes_at (from * 4) 4 b) (pad64 (take 16 a))
      in fold (\<lambda>j s. if bit imm j then put_at (j * 4) (replicate 4 0) s else s) [0..<4] s)"

definition do_insertps :: "'c cpu_ops \<Rightarrow> xinsn \<Rightarrow> 'c mach \<Rightarrow> 'c mach res" where
  "do_insertps C i M =
     and_then (need R_destination (zmm_index (xreg_of i 0))) (\<lambda>dst.
     and_then (source_bytes C i 1 L_F32 M) (\<lambda>a.
     and_then (source_bytes C i 2 L_F32 M) (\<lambda>b.
       Ok (put_zmm dst (insertps (immediate8 i) (xkind i 2 = K_Memory) a b) M))))"

section \<open>Groups extracted and inserted\<close>

definition is_extract_insert :: "string \<Rightarrow> bool" where
  "is_extract_insert m \<longleftrightarrow> m \<in> {
      ''Vextractf32x4'', ''Vextractf64x2'', ''Vextractf32x8'', ''Vextractf64x4'', ''Vextracti32x4'', ''Vextracti64x2'',
      ''Vextracti32x8'', ''Vextracti64x4'', ''Vinsertf32x4'', ''Vinsertf64x2'', ''Vinsertf32x8'', ''Vinsertf64x4'',
      ''Vinserti32x4'', ''Vinserti64x2'', ''Vinserti32x8'', ''Vinserti64x4''}"

definition is_insert :: "string \<Rightarrow> bool" where
  "is_insert m \<longleftrightarrow> take 7 m = ''Vinsert''"

definition chunk_bytes :: "string \<Rightarrow> nat" where
  "chunk_bytes m =
     (if m \<in> {''Vextractf32x4'', ''Vextracti32x4'', ''Vinsertf32x4'', ''Vinserti32x4'',
              ''Vextractf64x2'', ''Vextracti64x2'', ''Vinsertf64x2'', ''Vinserti64x2''} then 16 else 32)"

definition do_extract_insert :: "'c cpu_ops \<Rightarrow> xinsn \<Rightarrow> 'c mach \<Rightarrow> 'c mach res" where
  "do_extract_insert C i M =
     (let n = chunk_bytes (mnem i); slot = unat (immediate8 i) * n; a = effective_address C i (cpu M) in
      if is_insert (mnem i) then
        and_then (need R_destination (zmm_index (xreg_of i 0))) (\<lambda>dst.
        and_then (source_bytes C i 1 L_I32 M) (\<lambda>src1.
        and_then (case xkind i 2 of
            K_Register \<Rightarrow> and_then (need R_source (zmm_index (xreg_of i 2))) (\<lambda>r. Ok (zmms (vs M) ! r))
          | K_Memory \<Rightarrow> and_then (mload (ram M) a n) (\<lambda>b. Ok (pad64 b))
          | _ \<Rightarrow> Unsupported R_kind) (\<lambda>piece.
          Ok (put_zmm dst (if slot + n \<le> 64 then put_at slot (take n piece) src1 else src1) M))))
      else
        and_then (need R_source (zmm_index (xreg_of i 1))) (\<lambda>src.
          if 64 < slot + n then Unsupported R_range
          else let piece = bytes_at slot n (zmms (vs M) ! src) in
            case xkind i 0 of
              K_Register \<Rightarrow> and_then (need R_destination (zmm_index (xreg_of i 0))) (\<lambda>d. Ok (put_zmm d (pad64 piece) M))
            | K_Memory \<Rightarrow> and_then (mstore (ram M) a piece) (\<lambda>m. Ok (M\<lparr>ram := m\<rparr>))
            | _ \<Rightarrow> Unsupported R_kind))"

section \<open>Widening and narrowing\<close>

text \<open>Source and destination element bytes, and whether the widening is signed.\<close>

definition extend_shape :: "string \<Rightarrow> (nat \<times> nat \<times> bool) option" where
  "extend_shape m = map_of
     [(''Vpmovsxbd'', (1, 4, True)), (''Vpmovzxbd'', (1, 4, False)), (''Vpmovsxbq'', (1, 8, True)), (''Vpmovzxbq'', (1, 8, False)),
      (''Vpmovsxwd'', (2, 4, True)), (''Vpmovzxwd'', (2, 4, False)), (''Vpmovsxwq'', (2, 8, True)), (''Vpmovzxwq'', (2, 8, False)),
      (''Vpmovsxdq'', (4, 8, True)), (''Vpmovzxdq'', (4, 8, False)), (''Vpmovqd'', (8, 4, False)), (''Vpmovqw'', (8, 2, False)),
      (''Vpmovqb'', (8, 1, False)), (''Vpmovdw'', (4, 2, False)), (''Vpmovdb'', (4, 1, False))] m"

definition is_extend :: "string \<Rightarrow> bool" where
  "is_extend m \<longleftrightarrow> extend_shape m \<noteq> None"

definition extend_elem :: "nat \<Rightarrow> nat \<Rightarrow> bool \<Rightarrow> bytes \<Rightarrow> nat \<Rightarrow> bytes" where
  "extend_elem sw dw sx src j =
     (let v = (of_le (bytes_at (j * sw) sw src) :: u64);
          v' = (if sx \<and> v AND push_bit (sw * 8 - 1) 1 \<noteq> 0 then v OR push_bit (sw * 8) (- 1) else v)
      in take dw (to_le 8 v'))"

definition extend_source :: "'c cpu_ops \<Rightarrow> xinsn \<Rightarrow> nat \<Rightarrow> nat \<Rightarrow> 'c mach \<Rightarrow> bytes res" where
  "extend_source C i sw dw M =
     (case xkind i 1 of
        K_Register \<Rightarrow> and_then (need R_source (zmm_index (xreg_of i 1))) (\<lambda>r. Ok (zmms (vs M) ! r))
      | K_Memory \<Rightarrow>
          and_then (mload (ram M) (effective_address C i (cpu M)) (min (if sw < dw then 64 div dw * sw else 64) 64)) (\<lambda>b.
            Ok (pad64 b))
      | _ \<Rightarrow> Unsupported R_kind)"

definition do_extend :: "'c cpu_ops \<Rightarrow> xinsn \<Rightarrow> 'c mach \<Rightarrow> 'c mach res" where
  "do_extend C i M =
     and_then (need R_operation (extend_shape (mnem i))) (\<lambda>(sw, dw, sx).
       let to_memory = (xkind i 0 = K_Memory) in
       if to_memory \<and> sw < dw then Unsupported R_kind
       else and_then (if to_memory then Ok 0 else need R_destination (zmm_index (xreg_of i 0))) (\<lambda>dst.
            and_then (extend_source C i sw dw M) (\<lambda>src.
              let widening = (sw < dw); n = (if widening then 64 div dw else 64 div sw); v = extend_elem sw dw sx src in
              if to_memory then
                and_then (masked_store (effective_address C i (cpu M)) (enabled i M) dw
                    (masked_write (\<lambda>_. True) False dw n v (replicate 64 0)) [0..<n] (ram M)) (\<lambda>m. Ok (M\<lparr>ram := m\<rparr>))
              else Ok (finish i dst dw n (if widening then 64 else n * dw) v M))))"

end
