(* ===== verification/Emu_Convert.thy ===== *)
theory Emu_Convert
  imports Emu_Core
begin

text \<open>
  The conversions, roundings and scalar operations of
  \<^verbatim>\<open>host/crates/phi512/src/emulate.rs\<close>, and its half precision floats.
\<close>

section \<open>Lane conversions\<close>

definition is_convert :: "string \<Rightarrow> bool" where
  "is_convert m \<longleftrightarrow> m \<in> {
      ''Vcvtdq2ps'', ''Vcvtudq2ps'', ''Vcvtps2dq'', ''Vcvttps2dq'', ''Vcvtps2pd'', ''Vcvtpd2ps'', ''Vcvtdq2pd''}"

text \<open>\<^verbatim>\<open>as i32\<close> of a float saturates; above and below it the integer indefinite.\<close>

definition f32_to_i32 :: "u32 \<Rightarrow> i32" where
  "f32_to_i32 v =
     (if nan32 v \<or> lt32 0x4f000000 v \<or> lt32 v 0xcf000000 then 0x80000000
      else word_of_int (max (- (2 ^ 31)) (min (2 ^ 31 - 1) (int32_of v))))"

text \<open>One lane: the bytes of the destination's element.\<close>

definition convert_lane :: "fops \<Rightarrow> string \<Rightarrow> bytes \<Rightarrow> nat \<Rightarrow> bytes option" where
  "convert_lane F m a i =
     (if m = ''Vcvtdq2ps'' then Some (to_le 4 (f32_of_int F (sint (lane32 a i))))
      else if m = ''Vcvtudq2ps'' then Some (to_le 4 (f32_of_int F (uint (lane32 a i))))
      else if m = ''Vcvtps2dq'' then Some (to_le 4 (f32_to_i32 (rte32 F (lane32 a i))))
      else if m = ''Vcvttps2dq'' then Some (to_le 4 (f32_to_i32 (trunc32 F (lane32 a i))))
      else if m = ''Vcvtps2pd'' then Some (to_le 8 (f64_of_f32 F (lane32 a i)))
      else if m = ''Vcvtdq2pd'' then Some (to_le 8 (f64_of_int F (sint (lane32 a i))))
      else if m = ''Vcvtpd2ps'' then Some (to_le 4 (f32_of_f64 F (lane64 a i)))
      else None)"

definition do_convert :: "fops \<Rightarrow> 'c cpu_ops \<Rightarrow> xinsn \<Rightarrow> 'c mach \<Rightarrow> 'c mach res" where
  "do_convert F C i M =
     (let m = mnem i;
          ln = (if m \<in> {''Vcvtdq2ps'', ''Vcvtudq2ps'', ''Vcvtdq2pd''} then L_I32 else if m = ''Vcvtpd2ps'' then L_F64 else L_F32);
          n = (if m \<in> {''Vcvtps2pd'', ''Vcvtdq2pd'', ''Vcvtpd2ps''} then 8 else 16);
          e = (if m = ''Vcvtps2pd'' \<or> m = ''Vcvtdq2pd'' then 8 else 4);
          written = (if m = ''Vcvtpd2ps'' then 32 else 64) in
      and_then (need R_destination (zmm_index (xreg_of i 0))) (\<lambda>dst.
      and_then (source_bytes C i 1 ln M) (\<lambda>a.
        let v = convert_lane F m a in
        if \<exists>j \<in> set [0..<n]. enabled i M j \<and> v j = None then Unsupported R_operation
        else Ok (finish i dst e n written (\<lambda>j. the (v j)) M))))"

section \<open>Scalar operations\<close>

definition is_scalar :: "string \<Rightarrow> bool" where
  "is_scalar m \<longleftrightarrow> m \<in> {
      ''Vaddss'', ''Vaddsd'', ''Vsubss'', ''Vsubsd'', ''Vmulss'', ''Vmulsd'', ''Vdivss'', ''Vdivsd'', ''Vmaxss'', ''Vmaxsd'',
      ''Vminss'', ''Vminsd'', ''Vsqrtss'', ''Vsqrtsd'', ''Vmovss'', ''Vmovsd'', ''Vfmadd132ss'', ''Vfmadd213ss'',
      ''Vfmadd231ss'', ''Vfmadd132sd'', ''Vfmadd213sd'', ''Vfmadd231sd'', ''Vfmsub132ss'', ''Vfmsub213ss'', ''Vfmsub231ss'',
      ''Vfmsub132sd'', ''Vfmsub213sd'', ''Vfmsub231sd'', ''Vfnmadd132ss'', ''Vfnmadd213ss'', ''Vfnmadd231ss'', ''Vfnmadd132sd'',
      ''Vfnmadd213sd'', ''Vfnmadd231sd'', ''Vfnmsub132ss'', ''Vfnmsub213ss'', ''Vfnmsub231ss'', ''Vfnmsub132sd'',
      ''Vfnmsub213sd'', ''Vfnmsub231sd'', ''Vcvtss2sd'', ''Vcvtsd2ss''}"

definition wide_scalar :: "string \<Rightarrow> bool" where
  "wide_scalar m \<longleftrightarrow> m \<in> {
      ''Vaddsd'', ''Vsubsd'', ''Vmulsd'', ''Vdivsd'', ''Vmaxsd'', ''Vminsd'', ''Vsqrtsd'', ''Vmovsd'', ''Vfmadd132sd'',
      ''Vfmadd213sd'', ''Vfmadd231sd'', ''Vfmsub132sd'', ''Vfmsub213sd'', ''Vfmsub231sd'', ''Vfnmadd132sd'', ''Vfnmadd213sd'',
      ''Vfnmadd231sd'', ''Vfnmsub132sd'', ''Vfnmsub213sd'', ''Vfnmsub231sd'', ''Vcvtss2sd''}"

text \<open>Lane 0: \<open>x\<close>, \<open>y\<close> from the sources, \<open>c\<close> from the destination, \<open>z\<close> the operand of a conversion.\<close>

definition op_sd :: "fops \<Rightarrow> string \<Rightarrow> u64 \<Rightarrow> u64 \<Rightarrow> u64 \<Rightarrow> u32 \<Rightarrow> u64 option" where
  "op_sd F m x y c z =
     (if m = ''Vaddsd'' then Some (add64 F x y)
     else if m = ''Vsubsd'' then Some (sub64 F x y)
     else if m = ''Vmulsd'' then Some (mul64 F x y)
     else if m = ''Vdivsd'' then Some (div64 F x y)
     else if m = ''Vmaxsd'' then Some (if lt64 y x then x else y)
     else if m = ''Vminsd'' then Some (if lt64 x y then x else y)
     else if m = ''Vsqrtsd'' then Some (sqrt64 F y)
     else if m = ''Vmovsd'' then Some y
     else if m = ''Vcvtss2sd'' then Some (f64_of_f32 F z)
     else if m = ''Vfmadd132sd'' then Some (fma64 F c y x)
     else if m = ''Vfmadd213sd'' then Some (fma64 F x c y)
     else if m = ''Vfmadd231sd'' then Some (fma64 F x y c)
     else if m = ''Vfmsub132sd'' then Some (fma64 F c y (neg64 x))
     else if m = ''Vfmsub213sd'' then Some (fma64 F x c (neg64 y))
     else if m = ''Vfmsub231sd'' then Some (fma64 F x y (neg64 c))
     else if m = ''Vfnmadd132sd'' then Some (fma64 F (neg64 c) y x)
     else if m = ''Vfnmadd213sd'' then Some (fma64 F (neg64 x) c y)
     else if m = ''Vfnmadd231sd'' then Some (fma64 F (neg64 x) y c)
     else if m = ''Vfnmsub132sd'' then Some (fma64 F (neg64 c) y (neg64 x))
     else if m = ''Vfnmsub213sd'' then Some (fma64 F (neg64 x) c (neg64 y))
     else if m = ''Vfnmsub231sd'' then Some (fma64 F (neg64 x) y (neg64 c))
      else None)"

definition op_ss :: "fops \<Rightarrow> string \<Rightarrow> u32 \<Rightarrow> u32 \<Rightarrow> u32 \<Rightarrow> u64 \<Rightarrow> u32 option" where
  "op_ss F m x y c z =
     (if m = ''Vaddss'' then Some (add32 F x y)
     else if m = ''Vsubss'' then Some (sub32 F x y)
     else if m = ''Vmulss'' then Some (mul32 F x y)
     else if m = ''Vdivss'' then Some (div32 F x y)
     else if m = ''Vmaxss'' then Some (if lt32 y x then x else y)
     else if m = ''Vminss'' then Some (if lt32 x y then x else y)
     else if m = ''Vsqrtss'' then Some (sqrt32 F y)
     else if m = ''Vmovss'' then Some y
     else if m = ''Vcvtsd2ss'' then Some (f32_of_f64 F z)
     else if m = ''Vfmadd132ss'' then Some (fma32 F c y x)
     else if m = ''Vfmadd213ss'' then Some (fma32 F x c y)
     else if m = ''Vfmadd231ss'' then Some (fma32 F x y c)
     else if m = ''Vfmsub132ss'' then Some (fma32 F c y (neg32 x))
     else if m = ''Vfmsub213ss'' then Some (fma32 F x c (neg32 y))
     else if m = ''Vfmsub231ss'' then Some (fma32 F x y (neg32 c))
     else if m = ''Vfnmadd132ss'' then Some (fma32 F (neg32 c) y x)
     else if m = ''Vfnmadd213ss'' then Some (fma32 F (neg32 x) c y)
     else if m = ''Vfnmadd231ss'' then Some (fma32 F (neg32 x) y c)
     else if m = ''Vfnmsub132ss'' then Some (fma32 F (neg32 c) y (neg32 x))
     else if m = ''Vfnmsub213ss'' then Some (fma32 F (neg32 x) c (neg32 y))
     else if m = ''Vfnmsub231ss'' then Some (fma32 F (neg32 x) y (neg32 c))
      else None)"

definition scalar_value :: "fops \<Rightarrow> string \<Rightarrow> bytes \<Rightarrow> bytes \<Rightarrow> bytes \<Rightarrow> bytes option" where
  "scalar_value F m a b cur =
     (if wide_scalar m
      then map_option (to_le 8) (op_sd F m (lane64 a 0) (lane64 b 0) (lane64 cur 0) (lane32 b 0))
      else map_option (to_le 4) (op_ss F m (lane32 a 0) (lane32 b 0) (lane32 cur 0) (lane64 b 0)))"

definition one_scalar_source :: "string \<Rightarrow> bool" where
  "one_scalar_source m \<longleftrightarrow> m \<in> {''Vsqrtss'', ''Vsqrtsd'', ''Vcvtss2sd'', ''Vcvtsd2ss'', ''Vmovss'', ''Vmovsd''}"

text \<open>Lanes 1 to 3 come from the first source, the rest is zeroed.\<close>

definition scalar_op :: "fops \<Rightarrow> 'c cpu_ops \<Rightarrow> xinsn \<Rightarrow> 'c mach \<Rightarrow> 'c mach res" where
  "scalar_op F C i M =
     (let m = mnem i; ln = (if wide_scalar m then L_F64 else L_F32) in
      and_then (need R_destination (zmm_index (xreg_of i 0))) (\<lambda>dst.
      and_then (source_bytes C i 1 ln M) (\<lambda>a.
      and_then (if one_scalar_source m \<or> xcount i < 3 then Ok a else source_bytes C i 2 ln M) (\<lambda>b.
      and_then (need R_operation (scalar_value F m a b (zmms (vs M) ! dst))) (\<lambda>v.
        Ok (put_zmm dst (pad64 (take 16 (put_at 0 v a))) M))))))"

definition do_scalar :: "fops \<Rightarrow> 'c cpu_ops \<Rightarrow> xinsn \<Rightarrow> 'c mach \<Rightarrow> 'c mach res" where
  "do_scalar F C i M =
     (let m = mnem i; e = (if wide_scalar m then 8 else 4); adr = effective_address C i (cpu M) in
      if (m = ''Vmovss'' \<or> m = ''Vmovsd'') \<and> xkind i 0 = K_Memory \<and> xkind i 1 = K_Register then
        and_then (need R_source (zmm_index (xreg_of i 1))) (\<lambda>s.
        and_then (mstore (ram M) adr (take e (zmms (vs M) ! s))) (\<lambda>mem. Ok (M\<lparr>ram := mem\<rparr>)))
      else if (m = ''Vmovss'' \<or> m = ''Vmovsd'') \<and> xkind i 0 = K_Register \<and> xkind i 1 = K_Memory then
        and_then (need R_destination (zmm_index (xreg_of i 0))) (\<lambda>d.
        and_then (mload (ram M) adr e) (\<lambda>b. Ok (put_zmm d (pad64 b) M)))
      else scalar_op F C i M)"

section \<open>Conversions with a general register\<close>

definition is_scalar_cvt :: "string \<Rightarrow> bool" where
  "is_scalar_cvt m \<longleftrightarrow> m \<in> {
      ''Vcvtsi2ss'', ''Vcvtsi2sd'', ''Vcvtusi2ss'', ''Vcvtusi2sd'', ''Vcvttss2si'', ''Vcvtss2si'', ''Vcvttsd2si'', ''Vcvtsd2si'',
      ''Vcvttss2usi'', ''Vcvtss2usi'', ''Vcvttsd2usi'', ''Vcvtsd2usi''}"

text \<open>Integer to float in lane 0, by the mnemonic and the width of the source.\<close>

definition int_to_float :: "fops \<Rightarrow> string \<Rightarrow> bool \<Rightarrow> u64 \<Rightarrow> bytes" where
  "int_to_float F m wide raw =
     (let uns = (m = ''Vcvtusi2ss'' \<or> m = ''Vcvtusi2sd'');
          x = (if wide then if uns then uint raw else sint raw
               else if uns then uint (ucast raw :: u32) else sint (ucast raw :: u32))
      in if m = ''Vcvtsi2sd'' \<or> m = ''Vcvtusi2sd'' then to_le 8 (f64_of_int F x) else to_le 4 (f32_of_int F x))"

text \<open>Float (already integral) to integer: out of range and NaN give the integer indefinite.\<close>

definition float_to_int :: "bool \<Rightarrow> bool \<Rightarrow> u64 \<Rightarrow> u64" where
  "float_to_int wide uns x =
     (if wide \<and> \<not> uns then
        if nan64 x \<or> le64 0x43e0000000000000 x \<or> lt64 x 0xc3e0000000000000 then push_bit 63 1 else word_of_int (int64_of x)
      else if \<not> wide \<and> \<not> uns then
        if nan64 x \<or> le64 0x41e0000000000000 x \<or> lt64 x 0xc1e0000000000000 then 0x80000000
        else ucast (word_of_int (int64_of x) :: u32)
      else if wide then
        if nan64 x \<or> lt64 x 0 \<or> le64 0x43f0000000000000 x then - 1 else word_of_int (int64_of x)
      else
        if nan64 x \<or> lt64 x 0 \<or> le64 0x41f0000000000000 x then 0xffffffff else word_of_int (int64_of x))"

definition do_scalar_cvt :: "fops \<Rightarrow> 'c cpu_ops \<Rightarrow> xinsn \<Rightarrow> 'c mach \<Rightarrow> 'c mach res" where
  "do_scalar_cvt F C i M =
     (let m = mnem i in
      if m \<in> {''Vcvtsi2ss'', ''Vcvtsi2sd'', ''Vcvtusi2ss'', ''Vcvtusi2sd''} then
        and_then (need R_destination (zmm_index (xreg_of i 0))) (\<lambda>d.
        and_then (source_bytes C i 1 L_I32 M) (\<lambda>s1.
        and_then (case xkind i 2 of
            K_Register \<Rightarrow> Ok (reg_size (xreg_of i 2) = 8)
          | K_Memory \<Rightarrow> Ok (mem_size i = 8)
          | _ \<Rightarrow> Unsupported R_kind) (\<lambda>wide.
        and_then (if xkind i 2 = K_Register then Ok (cget C (cpu M) (xreg_of i 2))
                  else and_then (mload (ram M) (effective_address C i (cpu M)) (if wide then 8 else 4)) (\<lambda>b. Ok (of_le b))) (\<lambda>raw.
          Ok (put_zmm d (put_at 0 (int_to_float F m wide raw) (pad64 (take 16 s1))) M)))))
      else
        let r = xreg_of i 0; wide = (reg_size r = 8);
            from_double = (m \<in> {''Vcvttsd2si'', ''Vcvtsd2si'', ''Vcvttsd2usi'', ''Vcvtsd2usi''});
            tr = (m \<in> {''Vcvttss2si'', ''Vcvttsd2si'', ''Vcvttss2usi'', ''Vcvttsd2usi''});
            uns = (m \<in> {''Vcvttss2usi'', ''Vcvtss2usi'', ''Vcvttsd2usi'', ''Vcvtsd2usi''}) in
        and_then (source_bytes C i 1 (if from_double then L_F64 else L_F32) M) (\<lambda>a.
          let x0 = (if from_double then lane64 a 0 else f64_of_f32 F (lane32 a 0));
              x = (if tr then trunc64 F x0 else rte64 F x0)
          in Ok (M\<lparr>cpu := cset C (cpu M) r (float_to_int wide uns x)\<rparr>)))"

section \<open>Rounding to a number of fraction bits\<close>

definition is_rndscale :: "string \<Rightarrow> bool" where
  "is_rndscale m \<longleftrightarrow> m \<in> {
      ''Vrndscaleps'', ''Vrndscalepd'', ''Vrndscaless'', ''Vrndscalesd''}"

definition round_scaled :: "fops \<Rightarrow> u8 \<Rightarrow> u64 \<Rightarrow> u64" where
  "round_scaled F imm x =
     (let scale = f64_of_int F (2 ^ unat (drop_bit 4 imm)); y = mul64 F x scale;
          r = (if bit imm 2 \<or> imm AND 3 = 0 then rte64 F y
               else if imm AND 3 = 1 then floor64 F y
               else if imm AND 3 = 2 then ceil64 F y
               else trunc64 F y)
      in if inf64 y \<or> nan64 y then x else div64 F r scale)"

definition round_lane :: "fops \<Rightarrow> u8 \<Rightarrow> bool \<Rightarrow> bytes \<Rightarrow> nat \<Rightarrow> bytes" where
  "round_lane F imm wide a j =
     (if wide then to_le 8 (round_scaled F imm (lane64 a j))
      else to_le 4 (f32_of_f64 F (round_scaled F imm (f64_of_f32 F (lane32 a j)))))"

definition do_rndscale :: "fops \<Rightarrow> 'c cpu_ops \<Rightarrow> xinsn \<Rightarrow> 'c mach \<Rightarrow> 'c mach res" where
  "do_rndscale F C i M =
     (let m = mnem i; wide = (m = ''Vrndscalepd'' \<or> m = ''Vrndscalesd''); ln = (if wide then L_F64 else L_F32);
          e = lane_bytes ln; v = round_lane F (immediate8 i) wide in
      and_then (need R_destination (zmm_index (xreg_of i 0))) (\<lambda>dst.
      and_then (source_bytes C i 1 ln M) (\<lambda>a.
        if m = ''Vrndscaless'' \<or> m = ''Vrndscalesd'' then
          and_then (source_bytes C i 2 ln M) (\<lambda>b. Ok (put_zmm dst (put_at 0 (v b 0) (pad64 (take 16 a))) M))
        else let w = dest_width i in Ok (finish i dst e (w div e) w (v a) M))))"

section \<open>Half precision\<close>

definition is_half :: "string \<Rightarrow> bool" where
  "is_half m \<longleftrightarrow> m \<in> {
      ''Vcvtph2ps'', ''Vcvtps2ph''}"

text \<open>The loop that normalises a subnormal: ten shifts are enough for a nonzero 10-bit mantissa.\<close>

fun normalise :: "nat \<Rightarrow> u32 \<Rightarrow> int \<Rightarrow> u32 \<times> int" where
  "normalise 0 mm e = (mm, e)"
| "normalise (Suc n) mm e = (if mm AND 0x400 = 0 then normalise n (push_bit 1 mm) (e - 1) else (mm, e))"

definition half_to_f32 :: "u16 \<Rightarrow> u32" where
  "half_to_f32 h =
     (let sign = push_bit 31 (ucast (drop_bit 15 h) :: u32); exp = ucast (drop_bit 10 h AND 0x1f) :: u32;
          mant = ucast (h AND 0x3ff) :: u32 in
      if exp = 0 then
        if mant = 0 then sign
        else (case normalise 10 mant 113 of (mm, e) \<Rightarrow> sign OR push_bit 23 (word_of_int e) OR push_bit 13 (mm AND 0x3ff))
      else if exp = 31 then sign OR 0x7f800000 OR push_bit 13 mant
      else sign OR push_bit 23 (exp + 127 - 15) OR push_bit 13 mant)"

text \<open>
  The significand shifted right to float16 units, rounded in the mode (0 nearest even, 1 down, 2 up,
  3 toward zero); \<open>sh\<close> is the shift.
\<close>

definition round_units :: "nat \<Rightarrow> bool \<Rightarrow> nat \<Rightarrow> u32 \<Rightarrow> u32" where
  "round_units md negative sh sig =
     (if 25 \<le> sh then
        if (md = 1 \<and> negative \<and> sig \<noteq> 0) \<or> (md = 2 \<and> \<not> negative \<and> sig \<noteq> 0) then 1 else 0
      else
        let q = drop_bit sh sig; rem = sig AND (push_bit sh 1 - 1); half = push_bit (sh - 1) 1;
            up = (if md = 0 then half < rem \<or> (rem = half \<and> bit q 0)
                  else if md = 1 then negative \<and> rem \<noteq> 0
                  else if md = 2 then \<not> negative \<and> rem \<noteq> 0
                  else False)
        in q + (if up then 1 else 0))"

text \<open>A carry out of the rounding: into the smallest normal, or into the next exponent.\<close>

definition carry_units :: "nat \<Rightarrow> u32 \<Rightarrow> nat \<times> u32" where
  "carry_units hexp q =
     (if hexp = 0 \<and> q AND 0x400 \<noteq> 0 then (1, q AND 0x3ff)
      else if 0 < hexp \<and> q AND 0x800 \<noteq> 0 then (hexp + 1, drop_bit 1 q)
      else (hexp, q))"

definition f32_to_half :: "u32 \<Rightarrow> u8 \<Rightarrow> u16" where
  "f32_to_half f mode =
     (let sign = push_bit 15 (ucast (drop_bit 31 f)) :: u16; exp = unat (drop_bit 23 f AND 0xff); mant = f AND 0x7fffff in
      if exp = 255 then
        if mant = 0 then sign OR 0x7c00 else sign OR 0x7e00 OR (ucast (drop_bit 13 mant) AND 0x1ff)
      else
        let e = int exp - 127; sh = (if - 14 \<le> e then 13 else nat (13 + (- 14 - e)));
            hexp = (if - 14 \<le> e then nat (e + 15) else 0);
            sig = (if exp = 0 then mant else mant OR 0x800000); negative = bit f 31; md = unat (mode AND 3) in
        case carry_units hexp (round_units md negative sh sig) of (hexp2, q) \<Rightarrow>
          if exp = 0 \<and> mant = 0 then sign
          else if 31 \<le> hexp2 then
            if md = 0 \<or> (md = 1 \<and> negative) \<or> (md = 2 \<and> \<not> negative) then sign OR 0x7c00 else sign OR 0x7bff
          else sign OR push_bit 10 (of_nat hexp2) OR (ucast q AND 0x3ff))"

definition half_lane :: "bytes \<Rightarrow> nat \<Rightarrow> u16" where
  "half_lane b j = of_le (bytes_at (j * 2) 2 b)"

definition do_half :: "'c cpu_ops \<Rightarrow> xinsn \<Rightarrow> 'c mach \<Rightarrow> 'c mach res" where
  "do_half C i M =
     (let adr = effective_address C i (cpu M) in
      if mnem i = ''Vcvtph2ps'' then
        and_then (need R_destination (zmm_index (xreg_of i 0))) (\<lambda>dst.
          let w = dest_width i; n = w div 4 in
          and_then (case xkind i 1 of
              K_Register \<Rightarrow> and_then (need R_source (zmm_index (xreg_of i 1))) (\<lambda>r. Ok (zmms (vs M) ! r))
            | K_Memory \<Rightarrow> and_then (mload (ram M) adr (n * 2)) (\<lambda>b. Ok (pad64 b))
            | _ \<Rightarrow> Unsupported R_kind) (\<lambda>src.
            Ok (finish i dst 4 n w (\<lambda>j. to_le 4 (half_to_f32 (half_lane src j))) M)))
      else
        and_then (need R_source (zmm_index (xreg_of i 1))) (\<lambda>s.
          let n = dest_width_of (xreg_of i 1) div 4;
              mode = (if bit (immediate8 i) 2 then 0 else immediate8 i AND 3);
              v = (\<lambda>j. to_le 2 (f32_to_half (f32_lane (vs M) s j) mode)) in
          case xkind i 0 of
            K_Register \<Rightarrow> and_then (need R_destination (zmm_index (xreg_of i 0))) (\<lambda>d. Ok (finish i d 2 n (n * 2) v M))
          | K_Memory \<Rightarrow>
              and_then (masked_store adr (enabled i M) 2 (masked_write (\<lambda>_. True) False 2 n v (replicate 64 0)) [0..<n] (ram M))
                (\<lambda>m. Ok (M\<lparr>ram := m\<rparr>))
          | _ \<Rightarrow> Unsupported R_kind))"

end
