(* ===== verification/Emulate.thy ===== *)
theory Emulate
  imports Emu_Arith Emu_Mask Emu_Move Emu_Convert
begin

text \<open>
  One AVX-512 instruction without an AVX-512 processor: the dispatch of
  \<^verbatim>\<open>host/crates/phi512/src/emulate.rs\<close> over its families, and what holds of every step.
\<close>

section \<open>The dispatch\<close>

definition plain_table :: "string \<Rightarrow> bool" where
  "plain_table m \<longleftrightarrow> m \<in> {
      ''Vinsertps'', ''Vfmsub132pd'', ''Vfmsub213pd'', ''Vfmsub231pd'', ''Vfnmadd132ps'', ''Vfnmadd213ps'', ''Vfnmadd231ps'',
      ''Vfnmadd132pd'', ''Vfnmadd213pd'', ''Vfnmadd231pd'', ''Vfnmsub132ps'', ''Vfnmsub213ps'', ''Vfnmsub231ps'',
      ''Vfnmsub132pd'', ''Vfnmsub213pd'', ''Vfnmsub231pd'', ''Vmovups'', ''Vmovupd'', ''Vmovaps'', ''Vmovapd'', ''Vmovdqu32'',
      ''Vmovdqu64'', ''Vmovdqa32'', ''Vmovdqa64'', ''Vaddps'', ''Vsubps'', ''Vmulps'', ''Vdivps'', ''Vmaxps'', ''Vminps'',
      ''Vsqrtps'', ''Vaddpd'', ''Vsubpd'', ''Vmulpd'', ''Vdivpd'', ''Vmaxpd'', ''Vminpd'', ''Vsqrtpd'', ''Vfmadd132ps'',
      ''Vfmadd213ps'', ''Vfmadd231ps'', ''Vfmadd132pd'', ''Vfmadd213pd'', ''Vfmadd231pd'', ''Vfmsub132ps'', ''Vfmsub213ps'',
      ''Vfmsub231ps'', ''Vpaddd'', ''Vpsubd'', ''Vpmulld'', ''Vpandd'', ''Vpord'', ''Vpxord'', ''Vpandnd'', ''Vxorps'',
      ''Vxorpd'', ''Vandps'', ''Vandpd'', ''Vorps'', ''Vorpd'', ''Vbroadcastss'', ''Vbroadcastsd'', ''Vpbroadcastd'',
      ''Vpternlogd'', ''Vpternlogq'', ''Vpaddq'', ''Vpsubq'', ''Vpmullq'', ''Vpandq'', ''Vporq'', ''Vpxorq'', ''Vpandnq'',
      ''Vpbroadcastq''}"

definition supported :: "string \<Rightarrow> bool" where
  "supported m \<longleftrightarrow>
     is_mask_op m \<or> is_compare m \<or> is_blend m \<or> is_convert m \<or> is_shift m \<or> is_permute m \<or> is_misc_int m \<or>
     is_lane_move m \<or> is_extract_insert m \<or> is_scalar m \<or> is_extend m \<or> is_comis m \<or> is_addsub m \<or>
     is_gather_scatter m \<or> is_movdq m \<or> is_scalar_cvt m \<or> is_rndscale m \<or> is_half m \<or> plain_table m"

definition step_uncommon :: "fops \<Rightarrow> 'c cpu_ops \<Rightarrow> xinsn \<Rightarrow> 'c mach \<Rightarrow> 'c mach res" where
  "step_uncommon F C i M =
     (let m = mnem i in
      if is_extend m then do_extend C i M
      else if is_extract_insert m then do_extract_insert C i M
      else if is_scalar m then do_scalar F C i M
      else if is_misc_int m then do_misc_int C i M
      else if is_lane_move m then do_lane_move C i M
      else if is_shift m then do_shift C i M
      else if is_permute m then do_permute C i M
      else if is_mask_op m then do_mask C i M
      else if is_compare m then do_compare F C i M
      else if is_blend m then do_blend C i M
      else if is_convert m then do_convert F C i M
      else if m = ''Vpternlogd'' \<or> m = ''Vpternlogq'' then do_ternlog C i M
      else if is_comis m then do_comis F C i M
      else if m = ''Vinsertps'' then do_insertps C i M
      else if is_gather_scatter m then do_gather_scatter C i M
      else if is_movdq m then do_movdq C i M
      else if is_scalar_cvt m then do_scalar_cvt F C i M
      else if is_rndscale m then do_rndscale F C i M
      else if is_half m then do_half C i M
      else if is_move m then do_move C i M
      else Unsupported R_not_in_table)"

definition step :: "fops \<Rightarrow> 'c cpu_ops \<Rightarrow> xinsn \<Rightarrow> 'c mach \<Rightarrow> 'c mach res" where
  "step F C i M = (case lanes_of (mnem i) of
     Some ln \<Rightarrow> do_arith F C ln i M
   | None \<Rightarrow> step_uncommon F C i M)"

section \<open>The registers an instruction names\<close>

text \<open>What the decoder guarantees: vector registers below 32, mask registers below 8.\<close>

fun xreg_ok :: "xreg \<Rightarrow> bool" where
  "xreg_ok (Vec r s) = (r < 32)"
| "xreg_ok (Mask r) = (r < 8)"
| "xreg_ok _ = True"

definition xinsn_ok :: "xinsn \<Rightarrow> bool" where
  "xinsn_ok i \<longleftrightarrow> xreg_ok (xreg_of i 0) \<and> xreg_ok (xreg_of i 1) \<and> xreg_ok (xreg_of i 2) \<and> xreg_ok (xmask i) \<and>
     xreg_ok (mem_index i)"

lemma zmm_index_ok: "xreg_ok r \<Longrightarrow> zmm_index r = Some d \<Longrightarrow> d < 32"
  by (cases r) (auto split: if_splits)

lemma dest_width_le: "dest_width i \<in> {16, 32, 64}"
  by (auto simp: dest_width_def split: xreg.split)

lemma lane_bytes_cases: "lane_bytes ln \<in> {4, 8}"
  by (cases ln) auto

lemma length_mload: "mload m a n = Ok b \<Longrightarrow> length b = n"
proof -
  assume "mload m a n = Ok b"
  then have "those (map (\<lambda>j. m (a + of_nat j)) [0..<n]) = Some b" by (auto simp: mload_def split: option.splits)
  moreover have "those xs = Some ys \<Longrightarrow> length ys = length xs" for xs :: "u8 option list" and ys
    by (induction xs arbitrary: ys) (auto split: option.splits)
  ultimately show "length b = n" by fastforce
qed

lemma length_splat: "length b = e \<Longrightarrow> e \<in> {4, 8} \<Longrightarrow> length (splat e b) = 64"
  by (auto simp: splat_def length_concat sum_list_replicate)

lemma length_pad64 [simp]: "length b \<le> 64 \<Longrightarrow> length (pad64 b) = 64"
  by (simp add: pad64_def)

lemma source_bytes_length:
  assumes "source_bytes C i n ln M = Ok b" "vstate_ok (vs M)" "xreg_ok (xreg_of i n)"
  shows "length b = 64"
proof -
  have e: "lane_bytes ln \<in> {4, 8}" by (rule lane_bytes_cases)
  show ?thesis
  proof (cases "xkind i n")
    case K_Register
    then show ?thesis using assms e zmm_index_ok[OF assms(3)]
      by (auto simp: source_bytes_def vstate_ok_def split: option.splits if_splits intro!: length_splat)
  next
    case K_Memory
    then show ?thesis using assms(1) e
      by (auto simp: source_bytes_def Let_def and_then_Ok dest!: length_mload split: if_splits intro!: length_splat)
  qed (use assms(1) in \<open>simp_all add: source_bytes_def\<close>)
qed

section \<open>What a step may change\<close>

text \<open>
  The state after a step: well formed, no vector register changed but the destination, no mask
  register but a destination or the mask of a gather or scatter, memory only by a memory
  destination or a scatter, the processor's registers and flags only by the few families that
  name general registers or flags.
\<close>

definition writes_cpu :: "string \<Rightarrow> bool" where
  "writes_cpu m \<longleftrightarrow> is_mask_op m \<or> is_comis m \<or> is_movdq m \<or> is_scalar_cvt m"

definition framed :: "xinsn \<Rightarrow> 'c mach \<Rightarrow> 'c mach \<Rightarrow> bool" where
  "framed i M M' \<longleftrightarrow> vstate_ok (vs M') \<and> last_low (vs M') = last_low (vs M) \<and>
     (\<forall>r < 32. zmm_index (xreg_of i 0) \<noteq> Some r \<longrightarrow> zmms (vs M') ! r = zmms (vs M) ! r) \<and>
     (\<forall>k < 8. xreg_of i 0 \<noteq> Mask k \<and> \<not> (is_gather_scatter (mnem i) \<and> mask_index (xmask i) = k) \<longrightarrow>
        km (vs M') ! k = km (vs M) ! k) \<and>
     (xkind i 0 \<noteq> K_Memory \<and> \<not> is_scatter (mnem i) \<longrightarrow> ram M' = ram M) \<and>
     (\<not> writes_cpu (mnem i) \<longrightarrow> cpu M' = cpu M)"

lemma framed_put:
  assumes "zmm_index (xreg_of i 0) = Some d" "vstate_ok (vs M)" "length v = 64"
  shows "framed i M (put_zmm d v M)"
proof -
  have "length ((zmms (vs M))[d := v] ! r) = 64" if "r < 32" for r
    using assms(2,3) that by (cases "r = d") (auto simp: vstate_ok_def)
  then show ?thesis using assms by (auto simp: framed_def put_zmm_def set_zmm_def vstate_ok_def)
qed

lemma length_finish:
  assumes "length r = 64" "n * e \<le> 64" "w \<le> 64" "\<And>j. j < n \<Longrightarrow> en j \<Longrightarrow> length (v j) = e"
  shows "length (zero_above w (masked_write en z e n v r)) = 64"
  using assms length_masked_write[of n en v e r z] by simp

lemma framed_finish:
  assumes "zmm_index (xreg_of i 0) = Some d" "xinsn_ok i" "vstate_ok (vs M)" "n * e \<le> 64" "w \<le> 64"
    "\<And>j. j < n \<Longrightarrow> enabled i M j \<Longrightarrow> length (v j) = e"
  shows "framed i M (finish i d e n w v M)"
proof -
  have "d < 32" using zmm_index_ok assms(1,2) by (auto simp: xinsn_ok_def)
  then have "length (zmms (vs M) ! d) = 64" using assms(3) by (simp add: vstate_ok_def)
  from length_finish[OF this assms(4-6)] show ?thesis unfolding finish_def by (rule framed_put[OF assms(1,3)])
qed

lemma framed_ram:
  assumes "vstate_ok (vs M)" "xkind i 0 = K_Memory"
  shows "framed i M (M\<lparr>ram := m\<rparr>)"
  using assms by (simp add: framed_def)

lemma framed_cpu:
  assumes "vstate_ok (vs M)" "writes_cpu (mnem i)"
  shows "framed i M (M\<lparr>cpu := c\<rparr>)"
  using assms by (auto simp: framed_def)

lemma framed_k:
  assumes "vstate_ok (vs M)" "xreg_of i 0 = Mask k \<or> is_gather_scatter (mnem i) \<and> mask_index (xmask i) = k"
  shows "framed i M (M\<lparr>vs := set_k k v (vs M)\<rparr>)"
  using assms by (auto simp: framed_def set_k_def vstate_ok_def nth_list_update)

lemma widths_fit:
  assumes "e \<in> {2, 4, 8}"
  shows "dest_width i div e * e \<le> 64" "j < dest_width i div e \<Longrightarrow> j * e + e \<le> 64" "dest_width i \<le> 64"
  using dest_width_le[of i] assms by auto

lemma length_bytes_lane: "length b = 64 \<Longrightarrow> j * e + e \<le> 64 \<Longrightarrow> length (bytes_at (j * e) e b) = e"
  by simp

lemma length_lane_value: "lane_value F m ln a b d j = Some v \<Longrightarrow> length v = lane_bytes ln"
  by (cases ln) (auto simp: lane_value_def)

section \<open>The families\<close>

lemma do_arith_framed:
  assumes "do_arith F C ln i M = Ok M'" "xinsn_ok i" "vstate_ok (vs M)"
  shows "framed i M M'"
proof -
  let ?e = "lane_bytes ln" and ?n = "dest_width i div lane_bytes ln"
  obtain d a b where d: "zmm_index (xreg_of i 0) = Some d" and
    M': "M' = finish i d ?e ?n (dest_width i) (\<lambda>j. the (lane_value F (mnem i) ln a b (zmms (vs M) ! d) j)) M" and
    some: "\<forall>j \<in> set [0..<?n]. \<not> (enabled i M j \<and> lane_value F (mnem i) ln a b (zmms (vs M) ! d) j = None)"
    using assms(1) by (auto simp: do_arith_def and_then_Ok need_Ok Let_def split: if_splits)
  have "length (the (lane_value F (mnem i) ln a b (zmms (vs M) ! d) j)) = ?e" if "j < ?n" "enabled i M j" for j
    using some that length_lane_value[of F "mnem i" ln a b _ j] by fastforce
  then show ?thesis unfolding M' using d assms(2,3) widths_fit[where e = ?e and i = i] lane_bytes_cases[of ln]
    by (intro framed_finish) auto
qed

lemmas ok_elims = and_then_Ok need_Ok res.inject res.distinct Let_def

lemma do_ternlog_framed:
  assumes "do_ternlog C i M = Ok M'" "xinsn_ok i" "vstate_ok (vs M)"
  shows "framed i M M'"
proof -
  obtain d v where "zmm_index (xreg_of i 0) = Some d" "M' = finish i d 4 (dest_width i div 4) (dest_width i) v M" "\<And>j. length (v j) = 4"
    using assms(1) by (auto simp: do_ternlog_def and_then_Ok need_Ok Let_def)
  then show ?thesis using assms(2,3) widths_fit[where e = 4 and i = i] by (auto intro!: framed_finish)
qed

lemma do_blend_framed:
  assumes "do_blend C i M = Ok M'" "xinsn_ok i" "vstate_ok (vs M)"
  shows "framed i M M'"
proof -
  define ln where "ln = (if mnem i = ''Vblendmpd'' \<or> mnem i = ''Vpblendmq'' then L_F64 else L_F32)"
  obtain d a b where d: "zmm_index (xreg_of i 0) = Some d" and s: "source_bytes C i 1 ln M = Ok a" "source_bytes C i 2 ln M = Ok b" and
    M': "put_zmm d (zero_above (dest_width i) (masked_write (\<lambda>_. True) False (lane_bytes ln) (dest_width i div lane_bytes ln)
          (\<lambda>j. bytes_at (j * lane_bytes ln) (lane_bytes ln) (if enabled i M j then b else a)) (zmms (vs M) ! d))) M = M'"
    using assms(1) unfolding do_blend_def ok_elims ln_def[symmetric] by blast
  have l: "length a = 64" "length b = 64"
    using s source_bytes_length assms(2,3) by (auto simp: xinsn_ok_def)
  have "d < 32" using d assms(2) zmm_index_ok by (auto simp: xinsn_ok_def)
  then have "length (zmms (vs M) ! d) = 64" using assms(3) by (simp add: vstate_ok_def)
  moreover have "lane_bytes ln \<in> {2, 4, 8}" using lane_bytes_cases[of ln] by auto
  ultimately show ?thesis unfolding M'[symmetric] using d assms(3) l widths_fit[where e = "lane_bytes ln" and i = i]
    by (intro framed_put length_finish) auto
qed

lemma do_misc_int_framed:
  assumes "do_misc_int C i M = Ok M'" "xinsn_ok i" "vstate_ok (vs M)"
  shows "framed i M M'"
proof (cases "mnem i = ''Vpmuldq'' \<or> mnem i = ''Vpmuludq''")
  case True
  then obtain d a b where "zmm_index (xreg_of i 0) = Some d"
    "finish i d 8 (dest_width i div 8) (dest_width i) (\<lambda>j. to_le 8 (mul_even (mnem i) a b j)) M = M'"
    using assms(1) unfolding do_misc_int_def ok_elims if_P[OF True] by blast
  then show ?thesis using assms(2,3) widths_fit[where e = 8 and i = i] by (auto intro!: framed_finish)
next
  case False
  define ln where "ln = (if mnem i \<in> {''Vpmaxsq'', ''Vpminsq'', ''Vpmaxuq'', ''Vpminuq''} then L_I64 else L_I32)"
  let ?e = "lane_bytes ln" and ?n = "dest_width i div lane_bytes ln"
  obtain d a b where d: "zmm_index (xreg_of i 0) = Some d" and
    c: "(if ln = L_I64 then Ok (finish i d ?e ?n (dest_width i) (\<lambda>j. to_le 8 (misc64 (mnem i) (lane64 a j) (lane64 b j))) M)
           else if \<exists>j \<in> set [0..<?n]. enabled i M j \<and> misc32 (mnem i) (lane32 a j) (lane32 b j) = None
           then Unsupported R_operation
           else Ok (finish i d ?e ?n (dest_width i) (\<lambda>j. to_le 4 (the (misc32 (mnem i) (lane32 a j) (lane32 b j)))) M)) = Ok M'"
    using assms(1) unfolding do_misc_int_def Let_def if_not_P[OF False] ln_def[symmetric] and_then_Ok need_Ok by blast
  obtain v where M': "finish i d ?e ?n (dest_width i) v M = M'" and v: "\<And>j. length (v j) = ?e"
  proof (cases "ln = L_I64")
    case True
    then show ?thesis using c that[of "\<lambda>j. to_le 8 (misc64 (mnem i) (lane64 a j) (lane64 b j))"] by simp
  next
    case False
    then have "ln = L_I32" by (simp add: ln_def split: if_splits)
    then show ?thesis using c that[of "\<lambda>j. to_le 4 (the (misc32 (mnem i) (lane32 a j) (lane32 b j)))"] by (simp split: if_splits)
  qed
  show ?thesis unfolding M'[symmetric] using d assms(2,3) v lane_bytes_cases[of ln] widths_fit[where e = ?e and i = i]
    by (intro framed_finish) auto
qed

lemma do_shift_framed:
  assumes "do_shift C i M = Ok M'" "xinsn_ok i" "vstate_ok (vs M)"
  shows "framed i M M'"
proof -
  define wide where "wide = (mnem i \<in> {''Vpsllq'', ''Vpsrlq'', ''Vpsraq'', ''Vpsllvq'', ''Vpsrlvq'', ''Vpsravq''})"
  define ln where "ln = (if wide then L_I64 else L_I32)"
  obtain d a cnt where d: "zmm_index (xreg_of i 0) = Some d" and
    M': "finish i d (lane_bytes ln) (dest_width i div lane_bytes ln) (dest_width i)
             (\<lambda>j. if wide then to_le 8 (shift64 (mnem i) (lane64 a j) (cnt j) (of_nat (lane_bytes ln * 8)))
                  else to_le 4 (shift32 (mnem i) (lane32 a j) (cnt j))) M = M'"
    using assms(1) unfolding do_shift_def ok_elims wide_def[symmetric] ln_def[symmetric] by blast
  have "lane_bytes ln \<in> {2, 4, 8}" using lane_bytes_cases[of ln] by auto
  moreover have "length (if wide then to_le 8 (x :: u64) else to_le 4 (y :: u32)) = lane_bytes ln" for x y by (simp add: ln_def)
  ultimately show ?thesis unfolding M'[symmetric] using d assms(2,3) widths_fit[where e = "lane_bytes ln" and i = i]
    by (intro framed_finish) auto
qed

lemma do_convert_framed:
  assumes "do_convert F C i M = Ok M'" "xinsn_ok i" "vstate_ok (vs M)"
  shows "framed i M M'"
proof -
  define n where "n = (if mnem i \<in> {''Vcvtps2pd'', ''Vcvtdq2pd'', ''Vcvtpd2ps''} then 8 else 16 :: nat)"
  define e where "e = (if mnem i = ''Vcvtps2pd'' \<or> mnem i = ''Vcvtdq2pd'' then 8 else 4 :: nat)"
  define w where "w = (if mnem i = ''Vcvtpd2ps'' then 32 else 64 :: nat)"
  obtain d a where d: "zmm_index (xreg_of i 0) = Some d" and
    some: "\<not> (\<exists>j \<in> set [0..<n]. enabled i M j \<and> convert_lane F (mnem i) a j = None)" and
    M': "finish i d e n w (\<lambda>j. the (convert_lane F (mnem i) a j)) M = M'"
    using assms(1) unfolding do_convert_def ok_elims n_def[symmetric] e_def[symmetric] w_def[symmetric]
    by (metis res.distinct(1) res.inject(1))
  have "convert_lane F (mnem i) a j = Some v \<Longrightarrow> length v = e" for j v
    by (auto simp: convert_lane_def e_def split: if_splits)
  then have "length (the (convert_lane F (mnem i) a j)) = e" if "j < n" "enabled i M j" for j
    using some that by fastforce
  then show ?thesis unfolding M'[symmetric] using d assms(2,3) by (intro framed_finish) (auto simp: n_def e_def w_def)
qed

lemma do_rndscale_framed:
  assumes "do_rndscale F C i M = Ok M'" "xinsn_ok i" "vstate_ok (vs M)"
  shows "framed i M M'"
proof -
  define wide where "wide = (mnem i = ''Vrndscalepd'' \<or> mnem i = ''Vrndscalesd'')"
  define ln where "ln = (if wide then L_F64 else L_F32)"
  define v where "v = round_lane F (immediate8 i) wide"
  have v: "length (v a j) = lane_bytes ln" for a j by (simp add: v_def ln_def round_lane_def)
  have ln: "lane_bytes ln \<in> {2, 4, 8}" using lane_bytes_cases[of ln] by auto
  obtain d a where d: "zmm_index (xreg_of i 0) = Some d" and a: "source_bytes C i 1 ln M = Ok a" and
    c: "(if mnem i = ''Vrndscaless'' \<or> mnem i = ''Vrndscalesd''
      then and_then (source_bytes C i 2 ln M) (\<lambda>b. Ok (put_zmm d (put_at 0 (v b 0) (pad64 (take 16 a))) M))
      else Ok (finish i d (lane_bytes ln) (dest_width i div lane_bytes ln) (dest_width i) (v a) M)) = Ok M'"
    using assms(1) unfolding do_rndscale_def wide_def[symmetric] Let_def ln_def[symmetric] v_def[symmetric] and_then_Ok need_Ok
    by blast
  have M': "(\<exists>b. put_zmm d (put_at 0 (v b 0) (pad64 (take 16 a))) M = M') \<or>
      finish i d (lane_bytes ln) (dest_width i div lane_bytes ln) (dest_width i) (v a) M = M'"
    using c by (cases "mnem i = ''Vrndscaless'' \<or> mnem i = ''Vrndscalesd''") (auto simp: and_then_Ok)
  have "length a = 64" using a source_bytes_length assms(2,3) by (auto simp: xinsn_ok_def)
  then have "framed i M (put_zmm d (put_at 0 (v b 0) (pad64 (take 16 a))) M)" for b
    using d assms(3) v[of b 0] ln by (intro framed_put) auto
  moreover have "framed i M (finish i d (lane_bytes ln) (dest_width i div lane_bytes ln) (dest_width i) (v a) M)"
    using d assms(2,3) v ln widths_fit[where e = "lane_bytes ln" and i = i] by (intro framed_finish) auto
  ultimately show ?thesis using M' by auto
qed

lemma do_insertps_framed:
  assumes "do_insertps C i M = Ok M'" "xinsn_ok i" "vstate_ok (vs M)"
  shows "framed i M M'"
proof -
  obtain d a b where d: "zmm_index (xreg_of i 0) = Some d" and s: "source_bytes C i 1 L_F32 M = Ok a" "source_bytes C i 2 L_F32 M = Ok b" and
    M': "put_zmm d (insertps (immediate8 i) (xkind i 2 = K_Memory) a b) M = M'"
    using assms(1) unfolding do_insertps_def ok_elims by blast
  have l: "length a = 64" "length b = 64" using s source_bytes_length assms(2,3) by (auto simp: xinsn_ok_def)
  have f: "imm_field (immediate8 i) 2 j < 4" for j by (simp add: imm_field_def)
  have "length (fold (\<lambda>j s. if bit imm j then put_at (j * 4) (replicate 4 0) s else s) js r) = length r"
    if "\<forall>j \<in> set js. j * 4 + 4 \<le> length r" for js r and imm :: u8
    using that by (induction js arbitrary: r) auto
  then have "length (insertps (immediate8 i) (xkind i 2 = K_Memory) a b) = 64"
    using l f[of 2] f[of 3] by (simp add: insertps_def Let_def)
  then show ?thesis unfolding M'[symmetric] using d assms(3) by (intro framed_put)
qed

lemma scalar_op_framed:
  assumes "scalar_op F C i M = Ok M'" "xinsn_ok i" "vstate_ok (vs M)"
  shows "framed i M M'"
proof -
  obtain d a v where d: "zmm_index (xreg_of i 0) = Some d" and
    M': "put_zmm d (pad64 (take 16 (put_at 0 v a))) M = M'"
    using assms(1) unfolding scalar_op_def ok_elims by blast
  show ?thesis unfolding M'[symmetric] using d assms(3) by (intro framed_put) auto
qed

lemma do_scalar_framed:
  assumes "do_scalar F C i M = Ok M'" "xinsn_ok i" "vstate_ok (vs M)"
  shows "framed i M M'"
proof -
  consider "scalar_op F C i M = Ok M'" | m where "xkind i 0 = K_Memory" "M' = M\<lparr>ram := m\<rparr>"
    | d e b where "zmm_index (xreg_of i 0) = Some d" "M' = put_zmm d (pad64 b) M" "length b = e" "e \<in> {4, 8}"
    using assms(1) unfolding do_scalar_def by (auto simp: ok_elims dest: length_mload split: if_splits)
  then show ?thesis
  proof cases
    case 3
    then show ?thesis using assms(3) by (auto intro!: framed_put)
  qed (use assms framed_ram scalar_op_framed in auto)
qed

lemma do_comis_framed:
  assumes "do_comis F C i M = Ok M'" "is_comis (mnem i)" "vstate_ok (vs M)"
  shows "framed i M M'"
proof -
  obtain c where c: "M\<lparr>cpu := c\<rparr> = M'" using assms(1) unfolding do_comis_def ok_elims by blast
  show ?thesis unfolding c[symmetric] by (rule framed_cpu) (use assms in \<open>auto simp: writes_cpu_def\<close>)
qed

lemma do_compare_framed:
  assumes "do_compare F C i M = Ok M'" "vstate_ok (vs M)"
  shows "framed i M M'"
proof -
  obtain k where k: "xreg_of i 0 = Mask k" using assms(1) by (cases "xreg_of i 0") (auto simp: do_compare_def ok_elims)
  define ln where "ln = (if wide_compare (mnem i) then L_F64 else L_F32)"
  obtain c v where "(if c then Unsupported R_operation else Ok (M\<lparr>vs := set_k k v (vs M)\<rparr>)) = Ok M'"
    using assms(1) unfolding do_compare_def Let_def ln_def[symmetric] k xreg.case and_then_Ok by blast
  then have M': "M' = M\<lparr>vs := set_k k v (vs M)\<rparr>" by (simp split: if_splits)
  show ?thesis unfolding M' by (rule framed_k) (use assms k in auto)
qed

lemma do_mask_framed:
  assumes "do_mask C i M = Ok M'" "vstate_ok (vs M)"
  shows "framed i M M'"
proof -
  obtain bits where b: "mask_width (mnem i) = Some bits" using assms(1) unfolding do_mask_def ok_elims by blast
  then have w: "writes_cpu (mnem i)" by (simp add: writes_cpu_def is_mask_op_def)
  have "(\<exists>c. M' = M\<lparr>cpu := c\<rparr>) \<or> (\<exists>k v. xreg_of i 0 = Mask k \<and> M' = M\<lparr>vs := set_k k v (vs M)\<rparr>) \<or>
      (\<exists>m. xkind i 0 = K_Memory \<and> M' = M\<lparr>ram := m\<rparr>)"
  proof (cases "is_kortest (mnem i) \<or> is_ktest (mnem i)")
    case True
    then show ?thesis using assms(1) unfolding do_mask_def Let_def if_P[OF True] and_then_Ok res.inject by metis
  next
    case False
    then obtain v where "(case xkind i 0 of
             K_Register \<Rightarrow>
               (case xreg_of i 0 of
                  Mask r \<Rightarrow> Ok (M\<lparr>vs := set_k r v (vs M)\<rparr>)
                | r \<Rightarrow> Ok (M\<lparr>cpu := cset C (cpu M) r v\<rparr>))
           | K_Memory \<Rightarrow>
               and_then (mstore (ram M) (effective_address C i (cpu M)) (to_le ((bits + 7) div 8) v)) (\<lambda>m. Ok (M\<lparr>ram := m\<rparr>))
           | _ \<Rightarrow> Unsupported R_kind) = Ok M'"
      using assms(1) b unfolding do_mask_def Let_def if_not_P[OF False] and_then_Ok need_Ok by auto
    then show ?thesis by (auto simp: and_then_Ok split: pkind.splits xreg.splits)
  qed
  then show ?thesis
    by (elim disjE exE conjE; hypsubst) (rule framed_cpu framed_k framed_ram, use assms w in simp_all)+
qed

lemma length_masked_load:
  "masked_load m a en z e js r = Ok v \<Longrightarrow> \<forall>j \<in> set js. j * e + e \<le> length r \<Longrightarrow> length v = length r"
proof (induction js arbitrary: r)
  case (Cons j js)
  show ?case
  proof (cases "en j")
    case True
    then obtain b where b: "mload m (a + of_nat (j * e)) e = Ok b" "masked_load m a en z e js (put_at (j * e) b r) = Ok v"
      using Cons.prems(1) by (auto simp: and_then_Ok)
    have "length (put_at (j * e) b r) = length r" using length_mload[OF b(1)] Cons.prems(2) by simp
    then show ?thesis using Cons.IH[OF b(2)] Cons.prems(2) by simp
  next
    case False
    then have "masked_load m a en z e js (if z then put_at (j * e) (replicate e 0) r else r) = Ok v" using Cons.prems(1) by simp
    moreover have "length (if z then put_at (j * e) (replicate e 0) r else r) = length r" using Cons.prems(2) by simp
    ultimately show ?thesis using Cons.IH Cons.prems(2) by (metis list.set_intros(2))
  qed
qed simp

lemma move_elem_cases: "move_elem m \<in> {2, 4, 8}"
  by (simp add: move_elem_def)

lemma do_move_framed:
  assumes "do_move C i M = Ok M'" "xinsn_ok i" "vstate_ok (vs M)"
  shows "framed i M M'"
proof -
  define e where "e = move_elem (mnem i)"
  have e: "e \<in> {2, 4, 8}" unfolding e_def by (rule move_elem_cases)
  note fit = widths_fit[OF e, where i = i]
  consider (load) d r where "xkind i 0 = K_Register" "xkind i 1 = K_Memory" "zmm_index (xreg_of i 0) = Some d"
      "masked_load (ram M) (effective_address C i (cpu M)) (enabled i M) (zeroing i) e [0..<dest_width i div e] (zmms (vs M) ! d) = Ok r"
      "M' = put_zmm d (zero_above (dest_width i) r) M"
    | (store) m where "xkind i 0 = K_Memory" "M' = M\<lparr>ram := m\<rparr>"
    | (reg) d s where "zmm_index (xreg_of i 0) = Some d" "zmm_index (xreg_of i 1) = Some s"
      "M' = finish i d e (dest_width i div e) (dest_width i) (\<lambda>j. bytes_at (j * e) e (zmms (vs M) ! s)) M"
    using assms(1) unfolding do_move_def Let_def e_def[symmetric] by (cases "xkind i 0"; cases "xkind i 1") (auto simp: ok_elims)
  then show ?thesis
  proof cases
    case load
    have "d < 32" using load(3) assms(2) zmm_index_ok by (auto simp: xinsn_ok_def)
    then have "length (zmms (vs M) ! d) = 64" using assms(3) by (simp add: vstate_ok_def)
    then have "length r = 64" using length_masked_load[OF load(4)] fit(2) by simp
    then show ?thesis unfolding load(5) using load(3) assms(3) fit(3) by (intro framed_put) simp_all
  next
    case store
    show ?thesis unfolding store(2) by (rule framed_ram) (use assms store in auto)
  next
    case reg
    have "s < 32" using reg(2) assms(2) zmm_index_ok by (auto simp: xinsn_ok_def)
    then have "length (zmms (vs M) ! s) = 64" using assms(3) by (simp add: vstate_ok_def)
    then show ?thesis unfolding reg(3) using reg(1) assms(2,3) fit by (intro framed_finish) auto
  qed
qed

lemma do_movdq_framed:
  assumes "do_movdq C i M = Ok M'" "is_movdq (mnem i)" "vstate_ok (vs M)"
  shows "framed i M M'"
proof -
  define n where "n = (if mnem i = ''Vmovq'' then 8 else 4 :: nat)"
  have "(\<exists>d v. zmm_index (xreg_of i 0) = Some d \<and> M' = put_zmm d (pad64 (take n v)) M) \<or>
      (\<exists>c. M' = M\<lparr>cpu := c\<rparr>) \<or> (\<exists>m. xkind i 0 = K_Memory \<and> M' = M\<lparr>ram := m\<rparr>)"
  proof (cases "xkind i 0 = K_Register \<and> zmm_index (xreg_of i 0) \<noteq> None")
    case True
    then obtain d where d: "zmm_index (xreg_of i 0) = Some d" by blast
    have "\<exists>v. M' = put_zmm d (pad64 (take n v)) M"
      using assms(1) unfolding do_movdq_def Let_def n_def[symmetric] if_P[OF True] and_then_Ok by (auto simp: d)
    then show ?thesis using d by blast
  next
    case False
    then show ?thesis using assms(1) unfolding do_movdq_def Let_def n_def[symmetric] if_not_P[OF False] and_then_Ok
      by (cases "xkind i 0") (auto simp: and_then_Ok)
  qed
  then consider (vec) d v where "zmm_index (xreg_of i 0) = Some d" "M' = put_zmm d (pad64 (take n v)) M"
    | (gpr) c where "M' = M\<lparr>cpu := c\<rparr>"
    | (mem) m where "xkind i 0 = K_Memory" "M' = M\<lparr>ram := m\<rparr>" by blast
  then show ?thesis
  proof cases
    case vec
    have "n \<le> 8" by (simp add: n_def)
    then have "length (take n v) \<le> 64" by simp
    then show ?thesis unfolding vec(2) using vec(1) assms(3) by (intro framed_put) auto
  next
    case gpr
    show ?thesis unfolding gpr(1) by (rule framed_cpu) (use assms in \<open>auto simp: writes_cpu_def\<close>)
  next
    case mem
    show ?thesis unfolding mem(2) by (rule framed_ram) (use assms mem in auto)
  qed
qed

lemma length_gather_lanes:
  "gather_lanes m at en e js r = Ok v \<Longrightarrow> \<forall>j \<in> set js. j * e + e \<le> length r \<Longrightarrow> length v = length r"
proof (induction js arbitrary: r)
  case (Cons j js)
  show ?case
  proof (cases "en j")
    case True
    then obtain b where b: "mload m (at j) e = Ok b" "gather_lanes m at en e js (put_at (j * e) b r) = Ok v"
      using Cons.prems(1) by (auto simp: and_then_Ok)
    have "length (put_at (j * e) b r) = length r" using length_mload[OF b(1)] Cons.prems(2) by simp
    then show ?thesis using Cons.IH[OF b(2)] Cons.prems(2) by simp
  qed (use Cons in simp)
qed simp

lemma framed_then_k:
  assumes "framed i M N" "is_gather_scatter (mnem i)" "k = mask_index (xmask i)"
  shows "framed i M (N\<lparr>vs := set_k k v (vs N)\<rparr>)"
  using assms by (auto simp: framed_def set_k_def vstate_ok_def nth_list_update)

lemma do_gather_scatter_framed:
  assumes "do_gather_scatter C i M = Ok M'" "is_gather_scatter (mnem i)" "xinsn_ok i" "vstate_ok (vs M)"
  shows "framed i M M'"
proof -
  define e where "e = (if mnem i \<in> {''Vpgatherdq'', ''Vgatherdpd'', ''Vpscatterdq'', ''Vscatterdpd''} then 8 else 4 :: nat)"
  define k where "k = mask_index (xmask i)"
  have e: "64 div e * e = 64" "j < 64 div e \<Longrightarrow> j * e + e \<le> 64" for j by (auto simp: e_def split: if_splits)
  have k: "k \<noteq> 0" using assms(1) unfolding do_gather_scatter_def Let_def k_def[symmetric] by (auto split: if_splits)
  show ?thesis
  proof (cases "is_scatter (mnem i)")
    case True
    obtain m where M': "M\<lparr>ram := m, vs := set_k k 0 (vs M)\<rparr> = M'"
      using assms(1) unfolding do_gather_scatter_def Let_def if_P[OF True] k_def[symmetric] if_not_P[OF k] and_then_Ok res.inject by blast
    have "framed i M (M\<lparr>ram := m\<rparr>)" using True assms(4) by (simp add: framed_def)
    from framed_then_k[OF this assms(2) k_def] show ?thesis unfolding M'[symmetric] by simp
  next
    case False
    obtain d r where d: "zmm_index (xreg_of i 0) = Some d" and M': "M\<lparr>vs := set_k k 0 (set_zmm d r (vs M))\<rparr> = M'" and
      r: "\<exists>at. gather_lanes (ram M) at (enabled i M) e [0..<64 div e] (zmms (vs M) ! d) = Ok r"
      using assms(1) unfolding do_gather_scatter_def Let_def if_not_P[OF False] k_def[symmetric] if_not_P[OF k] e_def[symmetric]
        and_then_Ok need_Ok res.inject by blast
    have "d < 32" using d assms(3) zmm_index_ok by (auto simp: xinsn_ok_def)
    then have "length (zmms (vs M) ! d) = 64" using assms(4) by (simp add: vstate_ok_def)
    then have "length r = 64" using r length_gather_lanes e(2) by fastforce
    then have "framed i M (put_zmm d r M)" using d assms(4) by (intro framed_put)
    from framed_then_k[OF this assms(2) k_def] show ?thesis unfolding M'[symmetric] by (simp add: put_zmm_def)
  qed
qed

lemma length_one_table: "length s = 64 \<Longrightarrow> length (one_table wide ix s j) = (if wide then 8 else 4)"
proof -
  have a: "unat (x AND 7) \<le> 7" for x :: u64
    using word_and_le1[of x 7] by (simp add: word_le_nat_alt)
  have b: "unat (x AND 15) \<le> 15" for x :: u32
    using word_and_le1[of x 15] by (simp add: word_le_nat_alt)
  have "read_index wide ix j * (if wide then 8 else 4) + (if wide then 8 else 4) \<le> 64"
    using a[of "lane64 ix j"] b[of "lane32 ix j"] by (cases wide) (simp_all add: read_index_def)
  then show "length s = 64 \<Longrightarrow> length (one_table wide ix s j) = (if wide then 8 else 4)"
    unfolding one_table_def Let_def by (subst length_bytes_at) auto
qed

lemma length_two_tables:
  assumes "length a = 64" "length b = 64"
  shows "length (two_tables wide a ix b j) = (if wide then 8 else 4)"
proof -
  let ?e = "if wide then 8 else 4 :: nat"
  have "raw_index wide ix j mod (64 div ?e) * ?e + ?e \<le> 64"
    using mod_less_divisor[of "64 div ?e" "raw_index wide ix j"] by (cases wide) auto
  then show ?thesis unfolding two_tables_def Let_def by (subst length_bytes_at) (use assms in auto)
qed

lemma do_permute_framed:
  assumes "do_permute C i M = Ok M'" "xinsn_ok i" "vstate_ok (vs M)"
  shows "framed i M M'"
proof -
  define wide where "wide = wide_permute (mnem i)"
  let ?e = "if wide then 8 else 4 :: nat"
  define ln where "ln = (if wide then L_I64 else L_I32)"
  obtain d a b where d: "zmm_index (xreg_of i 0) = Some d" and s: "source_bytes C i 1 ln M = Ok a" "source_bytes C i 2 ln M = Ok b" and
    c: "(if mnem i \<in> {''Vpermd'', ''Vpermps'', ''Vpermq'', ''Vpermpd''} then Ok (finish i d ?e (64 div ?e) 64 (one_table wide a b) M)
        else if mnem i \<in> {''Vpermt2d'', ''Vpermt2ps'', ''Vpermt2q'', ''Vpermt2pd''}
        then Ok (finish i d ?e (64 div ?e) 64 (two_tables wide (zmms (vs M) ! d) a b) M)
        else if mnem i \<in> {''Vpermi2d'', ''Vpermi2ps'', ''Vpermi2q'', ''Vpermi2pd''}
        then Ok (finish i d ?e (64 div ?e) 64 (two_tables wide a (zmms (vs M) ! d) b) M)
        else Unsupported R_operation) = Ok M'"
    using assms(1) unfolding do_permute_def Let_def wide_def[symmetric] ln_def[symmetric] and_then_Ok need_Ok by blast
  have "d < 32" using d assms(2) zmm_index_ok by (auto simp: xinsn_ok_def)
  then have dl: "length (zmms (vs M) ! d) = 64" using assms(3) by (simp add: vstate_ok_def)
  have l: "length a = 64" "length b = 64" using s source_bytes_length assms(2,3) by (auto simp: xinsn_ok_def)
  obtain v where M': "finish i d ?e (64 div ?e) 64 v M = M'" and v: "\<And>j. length (v j) = ?e"
    using c length_one_table[OF l(2)] length_two_tables[OF dl l(2)] length_two_tables[OF l(1) l(2)] length_two_tables[OF l(1) l(2)]
    by (auto split: if_splits)
  show ?thesis unfolding M'[symmetric] using d assms(2,3) v by (intro framed_finish) auto
qed

text \<open>The shuffles: every element copy stays inside the registers.\<close>

definition copies_ok :: "nat \<Rightarrow> elem_copy list \<Rightarrow> bool" where
  "copies_ok e cs \<longleftrightarrow> (\<forall>(to, from, idx) \<in> set cs. to * e + e \<le> 64 \<and> idx * e + e \<le> 64 \<and> length from = 64)"

lemma length_copies:
  assumes "copies_ok e cs"
  shows "length (copies e cs) = 64"
proof -
  have "length (fold (copy_elem e) cs r) = 64" if "length r = 64" for r
    using assms that
  proof (induction cs arbitrary: r)
    case (Cons c cs)
    have "length (copy_elem e c r) = 64" using Cons.prems by (auto simp: copies_ok_def copy_elem_def)
    then show ?case using Cons by (simp add: copies_ok_def)
  qed simp
  then show ?thesis by (simp add: copies_def)
qed

lemma copies_ok_per_group:
  assumes "\<And>g j. g < groups \<Longrightarrow> j < n \<Longrightarrow> copies_ok e (f g j)"
  shows "copies_ok e (per_group groups n f)"
  using assms by (force simp: copies_ok_def per_group_def)

lemma imm_field_less: "imm_field imm n j < 2 ^ n"
  by (simp add: imm_field_def)

lemma and3_le: "unat (x AND 3 :: u32) \<le> 3"
  using word_and_le1[of x 3] by (simp add: word_le_nat_alt)

lemma if_Some_elim: "(if c then Some x else r) = Some y \<Longrightarrow> (c \<Longrightarrow> P x) \<Longrightarrow> (r = Some y \<Longrightarrow> P y) \<Longrightarrow> P y"
  by (auto split: if_splits)

lemma shuffle_copies_ok:
  assumes "shuffle_copies m imm by_imm groups a b = Some cs" "groups \<le> 4" "length a = 64" "length b = 64"
  shows "copies_ok (if wide_lane_move m then 8 else 4) cs"
proof -
  have f: "imm_field imm 2 j \<le> 3" "imm_field imm 1 j \<le> 1" for j using imm_field_less[of imm 2 j] imm_field_less[of imm 1 j] by auto
  have ok4: "copies_ok 4 (per_group groups n (\<lambda>g j. [(g * 4 + p j, s j, g * 4 + q g j)]))"
    if pq: "\<And>g j. j < n \<Longrightarrow> p j \<le> 3 \<and> q g j \<le> 3 \<and> length (s j) = 64" for n p q and s :: "nat \<Rightarrow> bytes"
  proof (rule copies_ok_per_group)
    fix g j assume g: "g < groups" "j < n"
    then have "g \<le> 3" "p j \<le> 3" "q g j \<le> 3" "length (s j) = 64" using assms(2) pq[of j g] by auto
    then show "copies_ok 4 [(g * 4 + p j, s j, g * 4 + q g j)]" by (simp add: copies_ok_def)
  qed
  have ok4': "copies_ok 4 (per_group groups 2 (\<lambda>g j. [(g * 4 + j * 2, a, g * 4 + (k + j)), (g * 4 + j * 2 + 1, b, g * 4 + (k + j))]))"
    if "k \<le> 2" for k
    by (rule copies_ok_per_group) (use that assms(2-4) in \<open>simp add: copies_ok_def\<close>)
  have ok8: "copies_ok 8 (per_group groups 1 (\<lambda>g _. [(g * 2, a, g * 2 + k), (g * 2 + 1, b, g * 2 + k)]))" if "k \<le> 1" for k
    by (rule copies_ok_per_group) (use that assms(2-4) in \<open>simp add: copies_ok_def\<close>)
  have ok8': "copies_ok 8 (per_group groups 2 (\<lambda>g j. [(g * 2 + j, if j = 0 then a else b, g * 2 + imm_field imm 1 (g * 2 + j))]))"
  proof (rule copies_ok_per_group)
    fix g j :: nat assume g: "g < groups" "j < 2"
    then have "g \<le> 3" "j \<le> 1" "imm_field imm 1 (g * 2 + j) \<le> 1" using assms(2) f(2) by auto
    then show "copies_ok 8 [(g * 2 + j, if j = 0 then a else b, g * 2 + imm_field imm 1 (g * 2 + j))]"
      using assms(3,4) by (simp add: copies_ok_def)
  qed
  have s1: "copies_ok 4 (per_group groups 4 (\<lambda>g j. [(g * 4 + j, if j < 2 then a else b, g * 4 + imm_field imm 2 j)]))"
    by (rule ok4) (use f assms(3,4) in auto)
  have s2: "copies_ok 4 (per_group groups 4 (\<lambda>g j. [(g * 4 + j, a, g * 4 + imm_field imm 2 j)]))"
    by (rule ok4) (use f assms(3,4) in auto)
  have s3: "copies_ok 4 (per_group groups 4 (\<lambda>g j.
      [(g * 4 + j, a, g * 4 + (if by_imm then imm_field imm 2 j else unat (lane32 b (g * 4 + j) AND 3)))]))"
    by (rule ok4) (use f and3_le assms(3,4) in auto)
  let ?S4 = "{''Vunpcklps'', ''Vpunpckldq'', ''Vunpckhps'', ''Vpunpckhdq'', ''Vshufps'', ''Vpshufd'', ''Vpermilps''}"
  let ?S8 = "{''Vunpcklpd'', ''Vpunpcklqdq'', ''Vunpckhpd'', ''Vpunpckhqdq'', ''Vshufpd''}"
  have u: "copies_ok 4 (per_group groups 2 (\<lambda>g j. [(g * 4 + j * 2, a, g * 4 + j), (g * 4 + j * 2 + 1, b, g * 4 + j)]))"
    "copies_ok 4 (per_group groups 2 (\<lambda>g j. [(g * 4 + j * 2, a, g * 4 + 2 + j), (g * 4 + j * 2 + 1, b, g * 4 + 2 + j)]))"
    "copies_ok 8 (per_group groups 1 (\<lambda>g _. [(g * 2, a, g * 2), (g * 2 + 1, b, g * 2)]))"
    "copies_ok 8 (per_group groups 1 (\<lambda>g _. [(g * 2, a, g * 2 + 1), (g * 2 + 1, b, g * 2 + 1)]))"
    using ok4'[of 0] ok4'[of 2] ok8[of 0] ok8[of 1] by (simp_all add: add.assoc)
  define E :: nat where "E = (if wide_lane_move m then 8 else 4)"
  have w4: "m \<in> ?S4 \<Longrightarrow> E = 4" by (auto simp: wide_lane_move_def E_def)
  have w8: "m \<in> ?S8 \<Longrightarrow> E = 8" by (auto simp: wide_lane_move_def E_def)
  show ?thesis using assms(1) unfolding shuffle_copies_def E_def[symmetric]
  proof (elim if_Some_elim[where P = "copies_ok E"])
    assume "m = ''Vunpcklps'' \<or> m = ''Vpunpckldq''"
    then have "m \<in> ?S4" by auto
    then have "E = 4" by (rule w4)
    then show "copies_ok E
        (per_group groups 2 (\<lambda>g j. [(g * 4 + j * 2, a, g * 4 + j), (g * 4 + j * 2 + 1, b, g * 4 + j)]))"
      using u(1) by (simp only:)
  next
    assume "m = ''Vunpckhps'' \<or> m = ''Vpunpckhdq''"
    then have "m \<in> ?S4" by auto
    then have "E = 4" by (rule w4)
    then show "copies_ok E
        (per_group groups 2 (\<lambda>g j. [(g * 4 + j * 2, a, g * 4 + 2 + j), (g * 4 + j * 2 + 1, b, g * 4 + 2 + j)]))"
      using u(2) by (simp only:)
  next
    assume "m = ''Vunpcklpd'' \<or> m = ''Vpunpcklqdq''"
    then have "m \<in> ?S8" by auto
    then have "E = 8" by (rule w8)
    then show "copies_ok E (per_group groups 1 (\<lambda>g _. [(g * 2, a, g * 2), (g * 2 + 1, b, g * 2)]))"
      using u(3) by (simp only:)
  next
    assume "m = ''Vunpckhpd'' \<or> m = ''Vpunpckhqdq''"
    then have "m \<in> ?S8" by auto
    then have "E = 8" by (rule w8)
    then show "copies_ok E
        (per_group groups 1 (\<lambda>g _. [(g * 2, a, g * 2 + 1), (g * 2 + 1, b, g * 2 + 1)]))"
      using u(4) by (simp only:)
  next
    assume "m = ''Vshufps''"
    then have "m \<in> ?S4" by auto
    then have "E = 4" by (rule w4)
    then show "copies_ok E (per_group groups 4 (\<lambda>g j. [(g * 4 + j, if j < 2 then a else b, g * 4 + imm_field imm 2 j)]))"
      using s1 by (simp only:)
  next
    assume "m = ''Vpshufd''"
    then have "m \<in> ?S4" by auto
    then have "E = 4" by (rule w4)
    then show "copies_ok E (per_group groups 4 (\<lambda>g j. [(g * 4 + j, a, g * 4 + imm_field imm 2 j)]))" using s2 by (simp only:)
  next
    assume "m = ''Vpermilps''"
    then have "m \<in> ?S4" by auto
    then have "E = 4" by (rule w4)
    then show "copies_ok E (per_group groups 4 (\<lambda>g j.
        [(g * 4 + j, a, g * 4 + (if by_imm then imm_field imm 2 j else unat (lane32 b (g * 4 + j) AND 3)))]))" using s3 by (simp only:)
  next
    assume "m = ''Vshufpd''"
    then have "m \<in> ?S8" by auto
    then have "E = 8" by (rule w8)
    then show "copies_ok E (per_group groups 2 (\<lambda>g j. [(g * 2 + j, if j = 0 then a else b, g * 2 + imm_field imm 1 (g * 2 + j))]))"
      using ok8' by (simp only:)
  qed simp
qed

lemma group_copies_ok:
  assumes "groups \<le> 4" "length a = 64" "length b = 64"
  shows "copies_ok 16 (group_copies imm groups a b)"
proof -
  have f: "imm_field imm 2 j \<le> 3" for j using imm_field_less[of imm 2 j] by simp
  have "g * 16 + 16 \<le> 64 \<and> imm_field imm 2 g * 16 + 16 \<le> 64" if "g < groups" for g using that assms(1) f[of g] by simp
  then show ?thesis using assms(2,3) by (auto simp: copies_ok_def group_copies_def)
qed

lemma length_align_lane:
  assumes "n * e \<le> 64" "length a = 64" "length b = 64"
  shows "length (align_lane e n a b shift j) = e"
proof -
  have "(j + shift) * e + e \<le> 2 * n * e" if "j + shift < 2 * n"
    using mult_le_mono1[of "j + shift + 1" "2 * n" e] that by simp
  moreover have "length (take (n * e) b @ take (n * e) a) = 2 * n * e" using assms by simp
  ultimately show ?thesis by (auto simp: align_lane_def Let_def)
qed

lemma length_shuffled:
  assumes "shuffled m imm by_imm w a b = Some s" "w \<in> {16, 32, 64}" "length a = 64" "length b = 64"
  shows "length s = 64"
proof -
  define e where "e = (if wide_lane_move m then 8 else 4 :: nat)"
  have w: "w div 16 \<le> 4" "w div e * e \<le> 64" using assms(2) by (auto simp: e_def)
  show ?thesis
  proof (cases "m = ''Valignd'' \<or> m = ''Valignq''")
    case True
    have "s = masked_write (\<lambda>_. True) False e (w div e) (align_lane e (w div e) a b (unat imm mod (2 * (w div e)))) (replicate 64 0)"
      using assms(1) unfolding shuffled_def Let_def if_P[OF True] e_def[symmetric] by simp
    moreover have "length (masked_write (\<lambda>_. True) False e (w div e)
        (align_lane e (w div e) a b (unat imm mod (2 * (w div e)))) (replicate 64 0)) = length (replicate 64 (0 :: u8))"
      using w(2) length_align_lane[OF w(2) assms(3,4)] by (intro length_masked_write) auto
    ultimately show ?thesis by simp
  next
    case False
    consider "s = copies 16 (group_copies imm (w div 16) a b)"
      | cs where "shuffle_copies m imm by_imm (w div 16) a b = Some cs" "s = copies e cs"
      using assms(1) unfolding shuffled_def Let_def if_not_P[OF False] e_def[symmetric]
      by (cases "m \<in> {''Vshuff32x4'', ''Vshufi32x4'', ''Vshuff64x2'', ''Vshufi64x2''}") auto
    then show ?thesis
    proof cases
      case 1
      then show ?thesis using group_copies_ok[OF w(1) assms(3,4)] length_copies by blast
    next
      case 2
      have "copies_ok e cs" using shuffle_copies_ok[OF 2(1) w(1) assms(3,4)] by (simp add: e_def)
      then show ?thesis using 2(2) length_copies by blast
    qed
  qed
qed

lemma do_lane_move_framed:
  assumes "do_lane_move C i M = Ok M'" "xinsn_ok i" "vstate_ok (vs M)"
  shows "framed i M M'"
proof -
  define ln where "ln = (if wide_lane_move (mnem i) then L_I64 else L_I32)"
  define by_imm where "by_imm = (xkind i (xcount i - 1) = K_Imm8)"
  obtain d a b imm s where d: "zmm_index (xreg_of i 0) = Some d" and a: "source_bytes C i 1 ln M = Ok a" and
    b: "(if mnem i = ''Vpshufd'' \<or> (mnem i = ''Vpermilps'' \<and> by_imm) then Ok a else source_bytes C i 2 ln M) = Ok b" and
    s: "shuffled (mnem i) imm by_imm (dest_width i) a b = Some s" and
    M': "finish i d (lane_bytes ln) (dest_width i div lane_bytes ln) (dest_width i) (\<lambda>j. bytes_at (j * lane_bytes ln) (lane_bytes ln) s) M = M'"
    using assms(1) unfolding do_lane_move_def Let_def ln_def[symmetric] by_imm_def[symmetric] and_then_Ok need_Ok res.inject by blast
  have la: "length a = 64" using a source_bytes_length assms(2,3) by (auto simp: xinsn_ok_def)
  then have "length b = 64" using b source_bytes_length[where i = i and n = 2] assms(2,3) by (auto simp: xinsn_ok_def split: if_splits)
  then have "length s = 64" using length_shuffled[OF s dest_width_le la] by simp
  then show ?thesis unfolding M'[symmetric] using d assms(2,3) lane_bytes_cases[of ln] widths_fit[where e = "lane_bytes ln" and i = i]
    by (intro framed_finish) auto
qed

lemma chunk_bytes_cases: "chunk_bytes m \<in> {16, 32}"
  unfolding chunk_bytes_def by (cases "m \<in> {''Vextractf32x4'', ''Vextracti32x4'', ''Vinsertf32x4'', ''Vinserti32x4'',
    ''Vextractf64x2'', ''Vextracti64x2'', ''Vinsertf64x2'', ''Vinserti64x2''}") simp_all

lemma do_extract_insert_framed:
  assumes "do_extract_insert C i M = Ok M'" "xinsn_ok i" "vstate_ok (vs M)"
  shows "framed i M M'"
proof -
  define n where "n = chunk_bytes (mnem i)"
  define slot where "slot = unat (immediate8 i) * n"
  have n: "n \<in> {16, 32}" unfolding n_def by (rule chunk_bytes_cases)
  show ?thesis
  proof (cases "is_insert (mnem i)")
    case True
    obtain d src piece where d: "zmm_index (xreg_of i 0) = Some d" and s: "source_bytes C i 1 L_I32 M = Ok src" and
      p: "(case xkind i 2 of
            K_Register \<Rightarrow> and_then (need R_source (zmm_index (xreg_of i 2))) (\<lambda>r. Ok (zmms (vs M) ! r))
          | K_Memory \<Rightarrow> and_then (mload (ram M) (effective_address C i (cpu M)) n) (\<lambda>b. Ok (pad64 b))
          | _ \<Rightarrow> Unsupported R_kind) = Ok piece" and
      M': "put_zmm d (if slot + n \<le> 64 then put_at slot (take n piece) src else src) M = M'"
      using assms(1) unfolding do_extract_insert_def Let_def if_P[OF True] n_def[symmetric] slot_def[symmetric] and_then_Ok need_Ok res.inject
      by blast
    have l: "length src = 64" using s source_bytes_length assms(2,3) by (auto simp: xinsn_ok_def)
    have "n \<le> length piece"
    proof (cases "xkind i 2")
      case K_Register
      then obtain r where "zmm_index (xreg_of i 2) = Some r" "piece = zmms (vs M) ! r" using p by (auto simp: ok_elims)
      then show ?thesis using assms(2,3) zmm_index_ok n by (auto simp: xinsn_ok_def vstate_ok_def)
    next
      case K_Memory
      then show ?thesis using p by (auto simp: ok_elims pad64_def dest: length_mload)
    qed (use p in simp_all)
    then have "length (if slot + n \<le> 64 then put_at slot (take n piece) src else src) = 64" using l by simp
    then show ?thesis unfolding M'[symmetric] using d assms(3) by (intro framed_put)
  next
    case False
    obtain s where s: "zmm_index (xreg_of i 1) = Some s" and
      c: "(if 64 < slot + n then Unsupported R_range
          else case xkind i 0 of
              K_Register \<Rightarrow> and_then (need R_destination (zmm_index (xreg_of i 0))) (\<lambda>d. Ok (put_zmm d (pad64 (bytes_at slot n (zmms (vs M) ! s))) M))
            | K_Memory \<Rightarrow> and_then (mstore (ram M) (effective_address C i (cpu M)) (bytes_at slot n (zmms (vs M) ! s))) (\<lambda>m. Ok (M\<lparr>ram := m\<rparr>))
            | _ \<Rightarrow> Unsupported R_kind) = Ok M'"
      using assms(1) unfolding do_extract_insert_def Let_def if_not_P[OF False] n_def[symmetric] slot_def[symmetric] and_then_Ok need_Ok
      by blast
    have fit: "length (bytes_at slot n b) \<le> 64" for b using n by (auto simp: bytes_at_def)
    have "(\<exists>d b. zmm_index (xreg_of i 0) = Some d \<and> M' = put_zmm d (pad64 (bytes_at slot n b)) M) \<or>
        (\<exists>m. xkind i 0 = K_Memory \<and> M' = M\<lparr>ram := m\<rparr>)"
      using c by (cases "64 < slot + n"; cases "xkind i 0") (auto simp: ok_elims)
    then show ?thesis
    proof (elim disjE exE conjE)
      fix d b assume d: "zmm_index (xreg_of i 0) = Some d" "M' = put_zmm d (pad64 (bytes_at slot n b)) M"
      show ?thesis unfolding d(2) using d(1) assms(3) fit by (intro framed_put) auto
    next
      fix m assume m: "xkind i 0 = K_Memory" "M' = M\<lparr>ram := m\<rparr>"
      show ?thesis unfolding m(2) by (rule framed_ram) (use assms m in auto)
    qed
  qed
qed

lemma extend_shape_cases: "extend_shape m = Some (sw, dw, sx) \<Longrightarrow> sw \<in> {1, 2, 4, 8} \<and> dw \<in> {1, 2, 4, 8}"
  unfolding extend_shape_def by (drule map_of_SomeD) auto

lemma do_extend_framed:
  assumes "do_extend C i M = Ok M'" "xinsn_ok i" "vstate_ok (vs M)"
  shows "framed i M M'"
proof -
  obtain sw dw sx where sh: "extend_shape (mnem i) = Some (sw, dw, sx)"
    using assms(1) by (cases "extend_shape (mnem i)") (auto simp: do_extend_def need_def)
  note bound = extend_shape_cases[OF sh]
  define n where "n = (if sw < dw then 64 div dw else 64 div sw)"
  define w where "w = (if sw < dw then 64 else n * dw)"
  have "(\<exists>d src. zmm_index (xreg_of i 0) = Some d \<and> M' = finish i d dw n w (extend_elem sw dw sx src) M) \<or>
      (\<exists>m. xkind i 0 = K_Memory \<and> M' = M\<lparr>ram := m\<rparr>)"
  proof (cases "xkind i 0 = K_Memory")
    case True
    then show ?thesis using assms(1) unfolding do_extend_def sh need_def option.case and_then.simps prod.case Let_def
      by (auto simp: ok_elims split: if_splits)
  next
    case False
    then show ?thesis using assms(1)
      unfolding do_extend_def sh need_def option.case and_then.simps prod.case Let_def n_def[symmetric] w_def[symmetric] simp_thms if_False
      by (auto simp: ok_elims simp flip: need_def)
  qed
  then show ?thesis
  proof (elim disjE exE conjE)
    fix d src assume d: "zmm_index (xreg_of i 0) = Some d" "M' = finish i d dw n w (extend_elem sw dw sx src) M"
    have "n * dw \<le> 64" "w \<le> 64" using bound by (auto simp: n_def w_def)
    moreover have "length (extend_elem sw dw sx src j) = dw" for j using bound by (auto simp: extend_elem_def Let_def)
    ultimately show ?thesis unfolding d(2) using d(1) assms(2,3) by (intro framed_finish)
  next
    fix m assume m: "xkind i 0 = K_Memory" "M' = M\<lparr>ram := m\<rparr>"
    show ?thesis unfolding m(2) by (rule framed_ram) (use assms m in auto)
  qed
qed

lemma length_int_to_float: "length (int_to_float F m wide raw) \<le> 8"
  by (simp add: int_to_float_def Let_def)

lemma do_scalar_cvt_framed:
  assumes "do_scalar_cvt F C i M = Ok M'" "is_scalar_cvt (mnem i)" "vstate_ok (vs M)"
  shows "framed i M M'"
proof (cases "mnem i \<in> {''Vcvtsi2ss'', ''Vcvtsi2sd'', ''Vcvtusi2ss'', ''Vcvtusi2sd''}")
  case True
  obtain d wide raw s1 where d: "zmm_index (xreg_of i 0) = Some d" and
    M': "put_zmm d (put_at 0 (int_to_float F (mnem i) wide raw) (pad64 (take 16 s1))) M = M'"
    using assms(1) unfolding do_scalar_cvt_def Let_def if_P[OF True] and_then_Ok need_Ok res.inject by blast
  have "length (put_at 0 (int_to_float F (mnem i) wide raw) (pad64 (take 16 s1))) = 64"
    using length_int_to_float[of F "mnem i" wide raw] by (subst length_put_at) auto
  then show ?thesis unfolding M'[symmetric] using d assms(3) by (intro framed_put)
next
  case False
  obtain c where c: "M\<lparr>cpu := c\<rparr> = M'"
    using assms(1) unfolding do_scalar_cvt_def Let_def if_not_P[OF False] and_then_Ok res.inject by blast
  show ?thesis unfolding c[symmetric] by (rule framed_cpu) (use assms in \<open>auto simp: writes_cpu_def\<close>)
qed

lemma do_half_framed:
  assumes "do_half C i M = Ok M'" "xinsn_ok i" "vstate_ok (vs M)"
  shows "framed i M M'"
proof (cases "mnem i = ''Vcvtph2ps''")
  case True
  obtain d src where d: "zmm_index (xreg_of i 0) = Some d" and
    M': "finish i d 4 (dest_width i div 4) (dest_width i) (\<lambda>j. to_le 4 (half_to_f32 (half_lane src j))) M = M'"
    using assms(1) unfolding do_half_def Let_def if_P[OF True] and_then_Ok need_Ok res.inject by blast
  show ?thesis unfolding M'[symmetric] using d assms(2,3) widths_fit[where e = 4 and i = i] by (intro framed_finish) auto
next
  case False
  define n where "n = dest_width_of (xreg_of i 1) div 4"
  have n: "n * 2 \<le> 64" by (cases "xreg_of i 1") (auto simp: n_def)
  obtain v where v: "\<And>j :: nat. length (v j) = 2" and
    c: "(\<exists>d. zmm_index (xreg_of i 0) = Some d \<and> M' = finish i d 2 n (n * 2) v M) \<or> (\<exists>m. xkind i 0 = K_Memory \<and> M' = M\<lparr>ram := m\<rparr>)"
  proof -
    obtain s where "zmm_index (xreg_of i 1) = Some s" and
      k: "(let mode = (if bit (immediate8 i) 2 then 0 else immediate8 i AND 3);
              v = (\<lambda>j. to_le 2 (f32_to_half (f32_lane (vs M) s j) mode)) in
          case xkind i 0 of
            K_Register \<Rightarrow> and_then (need R_destination (zmm_index (xreg_of i 0))) (\<lambda>d. Ok (finish i d 2 n (n * 2) v M))
          | K_Memory \<Rightarrow>
              and_then (masked_store (effective_address C i (cpu M)) (enabled i M) 2
                (masked_write (\<lambda>_. True) False 2 n v (replicate 64 0)) [0..<n] (ram M)) (\<lambda>m. Ok (M\<lparr>ram := m\<rparr>))
          | _ \<Rightarrow> Unsupported R_kind) = Ok M'"
      using assms(1) unfolding do_half_def Let_def if_not_P[OF False] n_def[symmetric] and_then_Ok need_Ok by blast
    show thesis using k unfolding Let_def
      by (cases "xkind i 0")
        (auto simp: ok_elims intro!: that[of "\<lambda>j. to_le 2 (f32_to_half (f32_lane (vs M) s j) (if bit (immediate8 i) 2 then 0 else immediate8 i AND 3))"])
  qed
  from c show ?thesis
  proof (elim disjE exE conjE)
    fix d assume d: "zmm_index (xreg_of i 0) = Some d" "M' = finish i d 2 n (n * 2) v M"
    show ?thesis unfolding d(2) using d(1) assms(2,3) n v by (intro framed_finish)
  next
    fix m assume m: "xkind i 0 = K_Memory" "M' = M\<lparr>ram := m\<rparr>"
    show ?thesis unfolding m(2) by (rule framed_ram) (use assms m in auto)
  qed
qed

lemmas family_framed = do_extend_framed do_extract_insert_framed do_scalar_framed do_misc_int_framed do_lane_move_framed
  do_shift_framed do_permute_framed do_mask_framed do_compare_framed do_blend_framed do_convert_framed do_ternlog_framed
  do_comis_framed do_insertps_framed do_gather_scatter_framed do_movdq_framed do_scalar_cvt_framed do_rndscale_framed
  do_half_framed do_move_framed

lemma if_Ok_elim: "(if c then x else r) = Ok y \<Longrightarrow> (c \<Longrightarrow> x = Ok y \<Longrightarrow> P) \<Longrightarrow> (r = Ok y \<Longrightarrow> P) \<Longrightarrow> P"
  by (auto split: if_splits)

lemma step_uncommon_framed:
  assumes "step_uncommon F C i M = Ok M'" "xinsn_ok i" "vstate_ok (vs M)"
  shows "framed i M M'"
  using assms(1) unfolding step_uncommon_def Let_def
  by (elim if_Ok_elim) ((rule family_framed, assumption, (assumption | rule assms)+) | simp)+

lemma step_framed:
  assumes "step F C i M = Ok M'" "xinsn_ok i" "vstate_ok (vs M)"
  shows "framed i M M'"
  using assms do_arith_framed step_uncommon_framed by (auto simp: step_def split: option.splits)

end
