(* ===== verification/Emu_Props.thy ===== *)
theory Emu_Props
  imports Emulate
begin

text \<open>
  What the emulator of \<^verbatim>\<open>host/crates/phi512/src/emulate.rs\<close> promises: the write-mask law, the
  memory a masked move touches, the masks and flags, the ternary logic and the shifts against
  their mathematical meaning, and that every supported mnemonic is dispatched.
\<close>

section \<open>Bitwise and shift operations\<close>

lemma bit_ternlog_term:
  "j < 32 \<Longrightarrow> i < 8 \<Longrightarrow> bit (ternlog_term a b c imm i r) j \<longleftrightarrow>
     bit r j \<or> bit imm i \<and> bit i 2 = bit a j \<and> bit i 1 = bit b j \<and> bit i 0 = bit c j"
  by (auto simp: ternlog_term_def bit_simps)

lemma sint_signed_drop_bit: "sint (signed_drop_bit n (x :: 'a::len word)) = sint x div 2 ^ n"
  by (simp add: sint_signed_drop_bit_eq drop_bit_eq_div)

lemma sint_div_large:
  fixes x :: "'a::len word"
  assumes "LENGTH('a) \<le> n + 1"
  shows "sint x div 2 ^ n = (if sint x < 0 then - 1 else 0)"
proof -
  have "- (2 ^ (LENGTH('a) - 1)) \<le> sint x" "sint x < 2 ^ (LENGTH('a) - 1)" by (rule sint_ge, rule sint_lt)
  moreover have "(2 :: int) ^ (LENGTH('a) - 1) \<le> 2 ^ n" using assms by (intro power_increasing) auto
  ultimately have "- (2 ^ n) \<le> sint x" "sint x < 2 ^ n" by linarith+
  then show ?thesis
    using int_div_pos_eq[of "sint x" "2 ^ n" "- 1" "sint x + 2 ^ n"] by (auto simp: div_pos_pos_trivial)
qed

lemma signed_drop_bit_meaning: "signed_drop_bit n (x :: 'a::len word) = word_of_int (sint x div 2 ^ n)"
  by (metis scast_eq scast_id sint_signed_drop_bit)

lemma drop_bit_ge: "LENGTH('a) \<le> n \<Longrightarrow> drop_bit n (x :: 'a::len word) = 0"
  by (rule bit_word_eqI) (simp add: bit_simps)

lemma push_bit_ge: "LENGTH('a) \<le> n \<Longrightarrow> push_bit n (x :: 'a::len word) = 0"
  by (rule bit_word_eqI) (simp add: bit_simps)

text \<open>Saturated counts are the plain shifts by them.\<close>

lemma shift32_alt:
  "shift32 m x cnt = (if m = ''Vpslld'' \<or> m = ''Vpsllvd'' then push_bit (unat cnt) x
     else if m = ''Vpsrld'' \<or> m = ''Vpsrlvd'' then drop_bit (unat cnt) x
     else word_of_int (sint x div 2 ^ unat cnt))"
proof -
  have c: "32 \<le> cnt \<longleftrightarrow> 32 \<le> unat cnt" by (simp add: word_le_nat_alt)
  have "signed_drop_bit (if 32 \<le> cnt then 31 else unat cnt) x = word_of_int (sint x div 2 ^ unat cnt)"
  proof (cases "32 \<le> cnt")
    case True
    then have "sint x div 2 ^ 31 = sint x div 2 ^ unat cnt" using sint_div_large[of 31 x] sint_div_large[of "unat cnt" x] c by simp
    then show ?thesis using True signed_drop_bit_meaning[of 31 x] by simp
  next
    case False
    then show ?thesis using signed_drop_bit_meaning[of "unat cnt" x] by simp
  qed
  then show ?thesis by (auto simp: shift32_def c drop_bit_ge push_bit_ge)
qed

lemma shift64_alt:
  "shift64 m x cnt 64 = (if m = ''Vpsllq'' \<or> m = ''Vpsllvq'' then push_bit (unat cnt) x
     else if m = ''Vpsrlq'' \<or> m = ''Vpsrlvq'' then drop_bit (unat cnt) x
     else word_of_int (sint x div 2 ^ unat cnt))"
proof -
  have c: "64 \<le> cnt \<longleftrightarrow> 64 \<le> unat cnt" by (simp add: word_le_nat_alt)
  have "signed_drop_bit (unat (if 64 \<le> cnt then 64 - 1 else cnt)) x = word_of_int (sint x div 2 ^ unat cnt)"
  proof (cases "64 \<le> cnt")
    case True
    then have "sint x div 2 ^ 63 = sint x div 2 ^ unat cnt" using sint_div_large[of 63 x] sint_div_large[of "unat cnt" x] c by simp
    then show ?thesis using True signed_drop_bit_meaning[of 63 x] by simp
  next
    case False
    then show ?thesis using signed_drop_bit_meaning[of "unat cnt" x] by simp
  qed
  then show ?thesis by (auto simp: shift64_def c drop_bit_ge push_bit_ge)
qed

text \<open>The meaning of a shift: multiplication, division and signed division by a power of two.\<close>

fun shift_meaning :: "bool \<Rightarrow> bool \<Rightarrow> 'a::len word \<Rightarrow> nat \<Rightarrow> 'a word" where
  "shift_meaning True arith x n = word_of_int (uint x * 2 ^ n)"
| "shift_meaning False False x n = word_of_int (uint x div 2 ^ n)"
| "shift_meaning False True x n = word_of_int (sint x div 2 ^ n)"

definition left_shift :: "string \<Rightarrow> bool" where
  "left_shift m \<longleftrightarrow> m \<in> {''Vpslld'', ''Vpsllvd'', ''Vpsllq'', ''Vpsllvq''}"

definition right_arith :: "string \<Rightarrow> bool" where
  "right_arith m \<longleftrightarrow> m \<in> {''Vpsrad'', ''Vpsravd'', ''Vpsraq'', ''Vpsravq''}"

lemma push_bit_meaning: "push_bit n (x :: 'a::len word) = word_of_int (uint x * 2 ^ n)"
  by (simp add: push_bit_eq_mult)

lemma drop_bit_meaning: "drop_bit n (x :: 'a::len word) = word_of_int (uint x div 2 ^ n)"
proof -
  have "uint (drop_bit n x) = uint x div 2 ^ n" by (subst unsigned_drop_bit_eq) (simp add: drop_bit_eq_div take_bit_int_eq_self unsigned_less)
  then show ?thesis by (metis word_of_int_uint)
qed

section \<open>The dispatch\<close>

definition in_table :: "'a res \<Rightarrow> bool" where
  "in_table x \<longleftrightarrow> x \<noteq> Unsupported R_not_in_table"

lemma in_table_basic:
  "in_table (Ok v)" "in_table (Fault a)" "r \<noteq> R_not_in_table \<Longrightarrow> in_table (Unsupported r)" "r \<noteq> R_not_in_table \<Longrightarrow> in_table (need r x)"
  "in_table (mload m a n)" "in_table (mstore m a b)"
  by (auto simp: in_table_def need_def mload_def mstore_def split: option.split)

lemma in_table_and_then: "in_table x \<Longrightarrow> (\<And>v. in_table (f v)) \<Longrightarrow> in_table (and_then x f)"
  by (auto simp: in_table_def and_then_Unsupported)

lemma in_table_cases:
  "in_table x \<Longrightarrow> in_table y \<Longrightarrow> in_table (if c then x else y)"
  "(\<And>a. in_table (f a)) \<Longrightarrow> in_table g \<Longrightarrow> in_table (case z of None \<Rightarrow> g | Some a \<Rightarrow> f a)"
  "in_table k1 \<Longrightarrow> in_table k2 \<Longrightarrow> in_table k3 \<Longrightarrow> in_table k4 \<Longrightarrow> in_table k5 \<Longrightarrow>
    in_table (case k of K_Register \<Rightarrow> k1 | K_Memory \<Rightarrow> k2 | K_Imm8 \<Rightarrow> k3 | K_Immediate \<Rightarrow> k4 | K_Other \<Rightarrow> k5)"
  "(\<And>a b. in_table (h a b)) \<Longrightarrow> in_table (case p of (a, b) \<Rightarrow> h a b)"
  by (simp_all split: option.split pkind.split prod.split)

lemma in_table_reg:
  "in_table x \<Longrightarrow> (\<And>i s. in_table (g i s)) \<Longrightarrow> (\<And>i. in_table (h i)) \<Longrightarrow> (\<And>s. in_table (p s)) \<Longrightarrow> in_table y \<Longrightarrow> in_table z \<Longrightarrow>
   (\<And>i s. in_table (v i s)) \<Longrightarrow> (\<And>i. in_table (k i)) \<Longrightarrow> (\<And>n. in_table (u n)) \<Longrightarrow>
   in_table (case r of No_reg \<Rightarrow> x | Gp i s \<Rightarrow> g i s | High i \<Rightarrow> h i | Rip s \<Rightarrow> p s | Seg_user \<Rightarrow> y | Seg_base \<Rightarrow> z
     | Vec i s \<Rightarrow> v i s | Mask i \<Rightarrow> k i | Other_reg n \<Rightarrow> u n)"
  by (simp split: xreg.split)

lemmas in_table_intros = in_table_basic in_table_and_then in_table_cases in_table_reg

lemma in_table_source: "in_table (source_bytes C i n ln M)"
  unfolding source_bytes_def Let_def by (intro in_table_intros; simp)

lemma in_table_masked:
  "in_table (masked_load m a en z e js r)" "in_table (masked_store a en e src js ml)"
  "in_table (gather_lanes m at en e js r)" "in_table (scatter_lanes at en e src js ml)"
proof -
  show "in_table (masked_load m a en z e js r)" by (induction js arbitrary: r) (auto intro!: in_table_intros)
  show "in_table (masked_store a en e src js ml)" by (induction js arbitrary: ml) (auto intro!: in_table_intros)
  show "in_table (gather_lanes m at en e js r)" by (induction js arbitrary: r) (auto intro!: in_table_intros)
  show "in_table (scatter_lanes at en e src js ml)" by (induction js arbitrary: ml) (auto intro!: in_table_intros)
qed

lemma in_table_parts:
  "in_table (read_mask C i bits n M)" "in_table (mask_result C i bits x M)" "in_table (movdq_source C i n M)"
  "in_table (extend_source C i sw dw M)" "in_table (scalar_op F C i M)"
  unfolding read_mask_def mask_result_def movdq_source_def extend_source_def scalar_op_def Let_def
  by (intro in_table_intros in_table_source; simp)+

lemmas in_table_rules = in_table_intros in_table_source in_table_masked in_table_parts

lemma in_table_arith: "in_table (do_arith F C ln i M)"
  unfolding do_arith_def Let_def by (intro in_table_rules; simp)

lemma in_table_families:
  "in_table (do_ternlog C i M)" "in_table (do_blend C i M)" "in_table (do_misc_int C i M)" "in_table (do_shift C i M)"
  "in_table (do_mask C i M)" "in_table (do_compare F C i M)" "in_table (do_comis F C i M)"
  "in_table (do_move C i M)" "in_table (do_movdq C i M)" "in_table (do_gather_scatter C i M)" "in_table (do_permute C i M)"
  "in_table (do_lane_move C i M)" "in_table (do_insertps C i M)" "in_table (do_extract_insert C i M)" "in_table (do_extend C i M)"
  "in_table (do_convert F C i M)" "in_table (do_scalar F C i M)" "in_table (do_scalar_cvt F C i M)"
  "in_table (do_rndscale F C i M)" "in_table (do_half C i M)"
  unfolding do_ternlog_def do_blend_def do_misc_int_def do_shift_def do_mask_def do_compare_def do_comis_def do_move_def
    do_movdq_def do_gather_scatter_def do_permute_def do_lane_move_def do_insertps_def do_extract_insert_def do_extend_def
    do_convert_def do_scalar_def do_scalar_cvt_def do_rndscale_def do_half_def Let_def
  by (intro in_table_rules; simp)+

lemma in_table_chain: "(c \<Longrightarrow> in_table x) \<Longrightarrow> (\<not> c \<Longrightarrow> in_table y) \<Longrightarrow> in_table (if c then x else y)"
  by simp

text \<open>The mnemonics of the table are those that \<^verbatim>\<open>step\<close> recognises.\<close>

lemma lanes_of_None: "lanes_of m = None \<longleftrightarrow> \<not> (f32_op m \<or> f64_op m \<or> i32_op m \<or> i64_op m)"
  by (simp add: lanes_of_def)

lemma table_in_step:
  "plain_table m \<Longrightarrow> f32_op m \<or> f64_op m \<or> i32_op m \<or> i64_op m \<or> is_move m \<or> m = ''Vinsertps'' \<or> m = ''Vpternlogd'' \<or> m = ''Vpternlogq''"
  unfolding plain_table_def by (elim insertE emptyE) (simp_all add: f32_op_def f64_op_def i32_op_def i64_op_def is_move_def)

lemma addsub_in_step: "is_addsub m \<Longrightarrow> f32_op m \<or> f64_op m"
  unfolding is_addsub_def by (elim insertE emptyE) (simp_all add: f32_op_def f64_op_def)

lemma step_in_table:
  "f32_op m \<Longrightarrow> is_addsub m \<or> plain_table m" "f64_op m \<Longrightarrow> is_addsub m \<or> plain_table m"
  "i32_op m \<Longrightarrow> plain_table m" "i64_op m \<Longrightarrow> plain_table m" "is_move m \<Longrightarrow> plain_table m"
  unfolding f32_op_def f64_op_def i32_op_def i64_op_def is_move_def
  by (elim insertE emptyE; simp add: plain_table_def is_addsub_def)+

lemma table_dispatched:
  "supported m \<longleftrightarrow> lanes_of m \<noteq> None \<or> is_extend m \<or> is_extract_insert m \<or> is_scalar m \<or> is_misc_int m \<or> is_lane_move m \<or>
     is_shift m \<or> is_permute m \<or> is_mask_op m \<or> is_compare m \<or> is_blend m \<or> is_convert m \<or> m = ''Vpternlogd'' \<or> m = ''Vpternlogq'' \<or>
     is_comis m \<or> m = ''Vinsertps'' \<or> is_gather_scatter m \<or> is_movdq m \<or> is_scalar_cvt m \<or> is_rndscale m \<or> is_half m \<or> is_move m"
proof -
  have "plain_table ''Vpternlogd''" "plain_table ''Vpternlogq''" "plain_table ''Vinsertps''" by (simp_all add: plain_table_def)
  then show ?thesis unfolding supported_def lanes_of_None not_not
    using table_in_step[of m] addsub_in_step[of m] step_in_table[of m] by metis
qed

section \<open>Flags and masks\<close>

lemma width_mask_bit: "bits \<le> 64 \<Longrightarrow> bit (width_mask bits) j \<longleftrightarrow> j < bits"
proof -
  assume b: "bits \<le> 64"
  have "width_mask bits = (mask bits :: u64)"
    using b by (cases "bits = 64") (simp_all add: width_mask_def mask_eq_exp_minus_1 push_bit_of_1 flip: take_bit_minus_one_eq_mask)
  then show ?thesis using b by (auto simp: bit_mask_iff)
qed

lemma mask_width_le: "mask_width m = Some bits \<Longrightarrow> bits \<in> {8, 16, 32, 64}"
  by (auto simp only: mask_width_def option.inject option.distinct insert_iff split: if_splits)

lemma and_width_less:
  assumes "bits \<le> 64"
  shows "unat (v AND width_mask bits :: u64) < 2 ^ bits"
proof -
  have "v AND width_mask bits = take_bit bits v" using assms by (intro bit_word_eqI) (auto simp: bit_simps width_mask_bit)
  then show ?thesis by (simp add: unsigned_take_bit_eq)
qed

lemma test_flags_bits:
  "bit (test_flags zf cf f) j \<longleftrightarrow> (if j = 0 then cf else if j = 6 then zf else if j \<in> {2, 4, 7, 11} then False else bit f j)"
proof (cases "j < 64")
  case True
  have "\<forall>j \<in> set [0..<64]. bit arith_flags j = (j \<in> {0, 2, 4, 6, 7, 11})" by code_simp
  then have "bit arith_flags j \<longleftrightarrow> j \<in> {0, 2, 4, 6, 7, 11}" using True by simp
  moreover have "\<forall>j \<in> set [0..<64]. bit (64 :: u64) j = (j = 6)" by code_simp
  then have "bit (64 :: u64) j \<longleftrightarrow> j = 6" using True by simp
  ultimately show ?thesis using True by (auto simp: test_flags_def Let_def bit_simps)
next
  case False
  then show ?thesis by (auto dest: bit_imp_le_length)
qed

context cpu_laws begin

text \<open>The flags of a test of two masks, for any processor that keeps the laws.\<close>

lemma mask_test_flags:
  assumes "ok (cpu M)" "mask_width (mnem i) = Some bits" "is_kortest (mnem i) \<or> is_ktest (mnem i)"
    "read_mask C i bits 0 M = Ok a" "read_mask C i bits 1 M = Ok b"
  shows "\<exists>c. do_mask C i M = Ok (M\<lparr>cpu := c\<rparr>) \<and> ok c \<and> (\<forall>r. cget C c r = cget C (cpu M) r) \<and>
    cflags C c = (let w = width_mask bits; t = mask_tests (mnem i) w (a AND w) (b AND w) in
      test_flags (fst t) (snd t) (cflags C (cpu M)))"
proof (intro exI conjI allI)
  let ?t = "mask_tests (mnem i) (width_mask bits) (a AND width_mask bits) (b AND width_mask bits)"
  let ?c = "cset_flags C (cpu M) (test_flags (fst ?t) (snd ?t) (cflags C (cpu M)))"
  show "do_mask C i M = Ok (M\<lparr>cpu := ?c\<rparr>)" using assms by (auto simp: do_mask_def need_def Let_def)
  show "ok ?c" "\<And>r. cget C ?c r = cget C (cpu M) r" using assms(1) by (simp_all add: get_flags ok_flags)
  show "cflags C ?c = (let w = width_mask bits; t = mask_tests (mnem i) w (a AND w) (b AND w) in
      test_flags (fst t) (snd t) (cflags C (cpu M)))" using assms(1) by (simp add: flags_set Let_def)
qed

end

section \<open>Concrete instances\<close>

text \<open>A float unit for the witnesses, a register instruction, and a machine with a patched frame.\<close>

definition demo_fops :: fops where
  "demo_fops = \<lparr>add32 = (+), sub32 = (-), mul32 = (*), div32 = (\<lambda>x y. x), sqrt32 = (\<lambda>x. x), fma32 = (\<lambda>x y z. x * y + z),
     rte32 = (\<lambda>x. x), trunc32 = (\<lambda>x. x), add64 = (+), sub64 = (-), mul64 = (*), div64 = (\<lambda>x y. x), sqrt64 = (\<lambda>x. x),
     fma64 = (\<lambda>x y z. x * y + z), rte64 = (\<lambda>x. x), trunc64 = (\<lambda>x. x), floor64 = (\<lambda>x. x), ceil64 = (\<lambda>x. x),
     f64_of_f32 = ucast, f32_of_f64 = ucast, f32_of_int = word_of_int, f64_of_int = word_of_int\<rparr>"

definition emu_insn :: "string \<Rightarrow> (nat \<Rightarrow> pkind) \<Rightarrow> (nat \<Rightarrow> xreg) \<Rightarrow> xreg \<Rightarrow> xinsn" where
  "emu_insn m ks rs k = \<lparr>xip = 0x1000, next_ip = 0x1006, flow_control = Fall_through, branch_target = 0, condition_code = C_other,
     mnem = m, xcount = 3, xkind = ks, xreg_of = rs, immediate = (\<lambda>_. 0), immediate8 = 0,
     mem_base = Gp 7 8, mem_index = No_reg, mem_scale = 1, mem_disp = 0, mem_segment = No_reg, mem_size = 64, ip_rel = False,
     ip_rel_address = 0, xmask = k, zeroing = True, broadcast = False, used_regs = [], used_mems = []\<rparr>"

definition demo_frame :: patch_frame where
  "demo_frame = \<lparr>pymm = [], pflags = 0x46, pgpr = (replicate 15 0)[5 := 0x8000]\<rparr>"

definition demo_mach :: "patch_cpu mach" where
  "demo_mach = \<lparr>vs = vstate_new\<lparr>km := [0, 5, 0xff00, 0xff, 0, 0, 0, 0], zmms := (replicate 32 (replicate 64 0))[2 := replicate 64 3, 3 := replicate 64 4]\<rparr>,
     cpu = patch_cpu_new 0x7000 demo_frame, ram = (\<lambda>x. if 0x8000 \<le> x \<and> x < 0x8010 then Some (ucast x) else None)\<rparr>"

lemma demo_mach_ok: "vstate_ok (vs demo_mach)"
  by (auto simp: demo_mach_def vstate_ok_def vstate_new_def nth_list_update)

lemma demo_cpu_ok: "patch_ok (cpu demo_mach)"
  by (simp add: demo_mach_def patch_ok_def patch_cpu_new_def demo_frame_def GPR_COUNT_def)

section \<open>Masked registers and memory\<close>

text \<open>The register after a masked write: zero above the width, else by the mask bit of the byte's lane.\<close>

definition masked_spec :: "(nat \<Rightarrow> bool) \<Rightarrow> bool \<Rightarrow> nat \<Rightarrow> nat \<Rightarrow> (nat \<Rightarrow> bytes) \<Rightarrow> bytes \<Rightarrow> bytes" where
  "masked_spec en z e w v old = map (\<lambda>k.
     if w \<le> k then 0 else if en (k div e) then v (k div e) ! (k mod e) else if z then 0 else old ! k) [0..<64]"

lemma masked_spec_eq:
  assumes "length old = 64" "e \<in> {2, 4, 8}" "w \<in> {16, 32, 64}" "\<And>j. j < w div e \<Longrightarrow> en j \<Longrightarrow> length (v j) = e"
  shows "zero_above w (masked_write en z e (w div e) v old) = masked_spec en z e w v old"
proof (rule nth_equalityI)
  have fit: "w div e * e = w" "w \<le> 64" "0 < e" using assms(2,3) by auto
  have len: "length (masked_write en z e (w div e) v old) = 64"
    using length_masked_write[of "w div e" en v e old z] assms(1,4) fit by simp
  then show "length (zero_above w (masked_write en z e (w div e) v old)) = length (masked_spec en z e w v old)"
    using fit by (simp add: masked_spec_def)
  fix k assume "k < length (zero_above w (masked_write en z e (w div e) v old))"
  then have k: "k < 64" using len fit by simp
  have "masked_write en z e (w div e) v old ! k =
      (if k < w then if en (k div e) then v (k div e) ! (k mod e) else if z then 0 else old ! k else old ! k)"
    using nth_masked_write[of "w div e" en v e old k z] assms(1,4) fit k by simp
  then show "zero_above w (masked_write en z e (w div e) v old) ! k = masked_spec en z e w v old ! k"
    using nth_zero_above[OF len fit(2) k] k by (simp add: masked_spec_def)
qed

text \<open>The memory of \<open>n\<close> lanes at \<open>a\<close>: the enabled ones are mapped.\<close>

definition lanes_mapped :: "ram \<Rightarrow> u64 \<Rightarrow> (nat \<Rightarrow> bool) \<Rightarrow> nat \<Rightarrow> nat \<Rightarrow> bool" where
  "lanes_mapped m a en e n \<longleftrightarrow> (\<forall>j < n. en j \<longrightarrow> (\<forall>t < e. m (a + of_nat (j * e + t)) \<noteq> None))"

definition stored_lanes :: "ram \<Rightarrow> u64 \<Rightarrow> (nat \<Rightarrow> bool) \<Rightarrow> nat \<Rightarrow> nat \<Rightarrow> bytes \<Rightarrow> ram" where
  "stored_lanes m a en e n src x =
     (let k = unat (x - a) in if k < n * e \<and> en (k div e) then Some (src ! k) else m x)"

lemma mload_eq:
  "mload m a n = (if \<forall>t < n. m (a + of_nat t) \<noteq> None then Ok (map (\<lambda>t. the (m (a + of_nat t))) [0..<n]) else Fault a)"
proof -
  have t: "those xs = (if \<forall>x \<in> set xs. x \<noteq> None then Some (map the xs) else None)" for xs :: "u8 option list"
    by (induction xs) (auto split: option.splits)
  show ?thesis unfolding mload_def t by (auto simp: comp_def)
qed

lemma mstore_eq:
  "mstore m a b = (if \<forall>t < length b. m (a + of_nat t) \<noteq> None
    then Ok (\<lambda>x. if unat (x - a) < length b then Some (b ! unat (x - a)) else m x) else Fault a)"
  by (auto simp: mstore_def list_all_iff)

lemma masked_store_append:
  "masked_store a en e src (xs @ ys) m = and_then (masked_store a en e src xs m) (masked_store a en e src ys)"
proof (induction xs arbitrary: m)
  case (Cons x xs)
  show ?case
  proof (cases "en x")
    case True
    then show ?thesis by (cases "mstore m (a + of_nat (x * e)) (bytes_at (x * e) e src)") (simp_all add: Cons)
  qed (simp add: Cons)
qed simp

lemma masked_load_append:
  "masked_load m a en z e (xs @ ys) r = and_then (masked_load m a en z e xs r) (masked_load m a en z e ys)"
proof (induction xs arbitrary: r)
  case (Cons x xs)
  show ?case
  proof (cases "en x")
    case True
    then show ?thesis by (cases "mload m (a + of_nat (x * e)) e") (simp_all add: Cons)
  qed (simp add: Cons)
qed simp

lemma word_offset: "k < 64 \<Longrightarrow> unat ((a + of_nat k) - a :: u64) = k"
  by (simp add: unat_of_nat_u64)

lemma lane_offset:
  fixes x a :: u64
  assumes "c + e \<le> 64"
  shows "unat (x - (a + of_nat c)) < e \<longleftrightarrow> c \<le> unat (x - a) \<and> unat (x - a) < c + e"
    "c \<le> unat (x - a) \<Longrightarrow> unat (x - (a + of_nat c)) = unat (x - a) - c"
proof -
  define y where "y = x - a"
  have xy: "x - (a + of_nat c) = y - of_nat c" by (simp add: y_def)
  have c: "unat (of_nat c :: u64) = c" using assms by (intro unat_of_nat_u64) simp
  have ge: "unat (y - of_nat c) = unat y - c" if "c \<le> unat y" using that c by (simp add: unat_sub word_le_nat_alt)
  then show "c \<le> unat (x - a) \<Longrightarrow> unat (x - (a + of_nat c)) = unat (x - a) - c" unfolding xy by (simp add: y_def)
  have lt: "64 \<le> unat (y - of_nat c)" if "\<not> c \<le> unat y"
  proof (rule ccontr)
    assume "\<not> 64 \<le> unat (y - of_nat c)"
    then have "unat (y - of_nat c) + c < 2 ^ 64" using assms by simp
    then have "unat (y - of_nat c + of_nat c) = unat (y - of_nat c) + c" using unat_add_u64[of "y - of_nat c" "of_nat c"] c by simp
    then show False using that by simp
  qed
  show "unat (x - (a + of_nat c)) < e \<longleftrightarrow> c \<le> unat (x - a) \<and> unat (x - a) < c + e"
    unfolding xy y_def[symmetric] using ge lt assms by (cases "c \<le> unat y") auto
qed

lemma lanes_mapped_Suc:
  "lanes_mapped m a en e (Suc n) \<longleftrightarrow> lanes_mapped m a en e n \<and> (en n \<longrightarrow> (\<forall>t < e. m (a + of_nat (n * e + t)) \<noteq> None))"
  unfolding lanes_mapped_def less_Suc_eq by blast

lemma masked_store_spec:
  assumes "n * e \<le> 64" "0 < e" "length src = 64"
  shows "if lanes_mapped m a en e n
    then masked_store a en e src [0..<n] m = Ok (stored_lanes m a en e n src)
    else \<exists>f. masked_store a en e src [0..<n] m = Fault f"
  using assms(1)
proof (induction n)
  case 0
  then show ?case by (auto simp: lanes_mapped_def stored_lanes_def)
next
  case (Suc n)
  have fit: "n * e + e \<le> 64" using Suc.prems by simp
  have app: "masked_store a en e src [0..<Suc n] m = and_then (masked_store a en e src [0..<n] m) (masked_store a en e src [n])"
    by (simp add: masked_store_append)
  show ?case
  proof (cases "lanes_mapped m a en e n")
    case False
    then have "\<not> lanes_mapped m a en e (Suc n)" by (simp add: lanes_mapped_Suc)
    moreover obtain f where "masked_store a en e src [0..<n] m = Fault f" using Suc False by auto
    ultimately show ?thesis using app by simp
  next
    case True
    let ?s = "stored_lanes m a en e n src"
    have ih: "masked_store a en e src [0..<n] m = Ok ?s" using Suc True by simp
    have len: "length (bytes_at (n * e) e src) = e" using fit assms(3) by simp
    have here: "?s (a + of_nat (n * e) + of_nat t) = m (a + of_nat (n * e + t))" if "t < e" for t
    proof -
      have "a + of_nat (n * e) + of_nat t = a + of_nat (n * e + t)" by simp
      moreover have "unat ((a + of_nat (n * e + t)) - a) = n * e + t" using that fit by (intro word_offset) simp
      ultimately show ?thesis by (simp add: stored_lanes_def add.assoc)
    qed
    show ?thesis
    proof (cases "en n")
      case False
      have "?s = stored_lanes m a en e (Suc n) src"
      proof
        fix x
        have "unat (x - a) < n * e + e \<Longrightarrow> \<not> unat (x - a) < n * e \<Longrightarrow> unat (x - a) div e = n"
          by (intro div_nat_eqI) (simp_all add: mult.commute)
        then show "?s x = stored_lanes m a en e (Suc n) src x" using False by (auto simp: stored_lanes_def Let_def add.commute)
      qed
      moreover have "lanes_mapped m a en e (Suc n)" using True False by (simp add: lanes_mapped_Suc)
      ultimately show ?thesis using app ih False by simp
    next
      case en: True
      have map: "lanes_mapped m a en e (Suc n) \<longleftrightarrow> (\<forall>t < e. m (a + of_nat (n * e + t)) \<noteq> None)"
        using True en by (simp add: lanes_mapped_Suc)
      have "(\<lambda>x. if unat (x - (a + of_nat (n * e))) < e then Some (bytes_at (n * e) e src ! unat (x - (a + of_nat (n * e)))) else ?s x)
          = stored_lanes m a en e (Suc n) src"
      proof
        fix x
        note off = lane_offset[OF fit, of x a]
        show "(if unat (x - (a + of_nat (n * e))) < e then Some (bytes_at (n * e) e src ! unat (x - (a + of_nat (n * e)))) else ?s x)
            = stored_lanes m a en e (Suc n) src x"
        proof (cases "n * e \<le> unat (x - a) \<and> unat (x - a) < n * e + e")
          case True
          then have "unat (x - a) div e = n" by (intro div_nat_eqI) (simp_all add: mult.commute)
          moreover have "bytes_at (n * e) e src ! (unat (x - a) - n * e) = src ! unat (x - a)"
            using True fit assms(3) by (subst nth_bytes_at) auto
          ultimately show ?thesis using True off en by (simp add: stored_lanes_def add.commute)
        next
          case False
          then show ?thesis using off(1) by (auto simp: stored_lanes_def Let_def add.commute)
        qed
      qed
      then have "masked_store a en e src [n] ?s =
          (if \<forall>t < e. m (a + of_nat (n * e + t)) \<noteq> None then Ok (stored_lanes m a en e (Suc n) src) else Fault (a + of_nat (n * e)))"
        using en here by (simp add: mstore_eq len and_then_Ok del: of_nat_mult of_nat_add)
      then show ?thesis using app ih map by simp
    qed
  qed
qed

text \<open>The lanes of memory that a load reads.\<close>

definition mem_lane :: "ram \<Rightarrow> u64 \<Rightarrow> nat \<Rightarrow> nat \<Rightarrow> bytes" where
  "mem_lane m a e j = map (\<lambda>t. the (m (a + of_nat (j * e + t)))) [0..<e]"

lemma masked_load_spec:
  "if lanes_mapped m a en e n
    then masked_load m a en z e [0..<n] r = Ok (masked_write en z e n (mem_lane m a e) r)
    else \<exists>f. masked_load m a en z e [0..<n] r = Fault f"
proof (induction n)
  case 0
  then show ?case by (auto simp: lanes_mapped_def masked_write_def)
next
  case (Suc n)
  have app: "masked_load m a en z e [0..<Suc n] r = and_then (masked_load m a en z e [0..<n] r) (masked_load m a en z e [n])"
    by (simp add: masked_load_append)
  have lane: "mload m (a + of_nat (n * e)) e =
      (if \<forall>t < e. m (a + of_nat (n * e + t)) \<noteq> None then Ok (mem_lane m a e n) else Fault (a + of_nat (n * e)))"
    by (simp add: mload_eq mem_lane_def add.assoc)
  note map = lanes_mapped_Suc[of m a en e n]
  have wr: "masked_write en z e (Suc n) v r = write_lane en z e v n (masked_write en z e n v r)" for v
    by (simp add: masked_write_def)
  show ?case
  proof (cases "lanes_mapped m a en e n")
    case True
    then have "masked_load m a en z e [0..<n] r = Ok (masked_write en z e n (mem_lane m a e) r)" using Suc by simp
    then show ?thesis using app lane True by (auto simp: map wr write_lane_def)
  next
    case False
    then obtain f where "masked_load m a en z e [0..<n] r = Fault f" using Suc by auto
    then show ?thesis using app False by (simp add: map)
  qed
qed

section \<open>Properties\<close>

text \<open>
  C34. Every mnemonic of the table is performed, and no other.  \<^verbatim>\<open>step\<close> answers that an
  instruction is not in the emulator's table exactly when \<^verbatim>\<open>supported\<close> says so, so the handler, which asks
  \<^verbatim>\<open>supported\<close> first, never patches a site the emulator then refuses by name.
\<close>

theorem supported_is_dispatched:
  "step F C i M = Unsupported R_not_in_table \<longleftrightarrow> \<not> supported (mnem i)"
proof -
  have "in_table (step F C i M)" if s: "supported (mnem i)"
  proof (cases "lanes_of (mnem i)")
    case None
    show ?thesis unfolding step_def None option.case step_uncommon_def Let_def
      by (intro in_table_chain; (rule in_table_families)?) (use s None in \<open>simp add: table_dispatched\<close>)
  qed (simp add: step_def in_table_arith)
  moreover have "step F C i M = Unsupported R_not_in_table" if "\<not> supported (mnem i)"
    using that unfolding table_dispatched step_def step_uncommon_def Let_def by (simp only: option.case if_False simp_thms de_Morgan_disj not_not)
  ultimately show ?thesis unfolding in_table_def by blast
qed

text \<open>
  C33. A step changes nothing but its destination.  After an instruction that is performed the
  register file keeps its shape, every vector register but the destination, every mask but a mask
  destination (or the mask of a gather or scatter) is unchanged, memory changes only for a memory
  destination or a scatter, and the processor's registers and flags only for the families that name them.
\<close>

theorem step_touches_its_destination:
  assumes "step F C i M = Ok M'" "xinsn_ok i" "vstate_ok (vs M)"
  shows "framed i M M'"
  using assms by (rule step_framed)

definition demo_kmov :: xinsn where
  "demo_kmov = emu_insn ''Kmovw'' (\<lambda>_. K_Register) (\<lambda>n. if n = 0 then Mask 3 else Mask 2) No_reg"

lemma demo_kmov_step: "step demo_fops patch_ops demo_kmov demo_mach = Ok (demo_mach\<lparr>vs := set_k 3 0xff00 (vs demo_mach)\<rparr>)"
  by (simp add: step_def lanes_of_def f32_op_def f64_op_def i32_op_def i64_op_def demo_kmov_def emu_insn_def step_uncommon_def Let_def
      is_extend_def extend_shape_def is_extract_insert_def is_scalar_def is_misc_int_def is_lane_move_def is_shift_def is_permute_def
      is_mask_op_def mask_width_def do_mask_def need_def is_kortest_def is_ktest_def read_mask_def mask_result_def width_mask_def
      demo_mach_def)

theorem step_touches_its_destination_witness:
  "framed demo_kmov demo_mach (demo_mach\<lparr>vs := set_k 3 0xff00 (vs demo_mach)\<rparr>)"
  by (rule step_touches_its_destination[OF demo_kmov_step _ demo_mach_ok]) (simp add: xinsn_ok_def demo_kmov_def emu_insn_def)

text \<open>
  Ternary logic is the truth table of its immediate: bit \<open>j\<close> of the result is the immediate's
  bit number \<open>4 a + 2 b + c\<close> for the bits \<open>a\<close>, \<open>b\<close>, \<open>c\<close> at \<open>j\<close> of the three operands.
\<close>

lemma ternlog_is_truth_table:
  "bit (ternlog a b c imm) j \<longleftrightarrow>
     j < 32 \<and> bit imm (4 * of_bool (bit a j) + 2 * of_bool (bit b j) + of_bool (bit c j))"
proof (cases "j < 32")
  case True
  have b: "bit (1 :: nat) 2 = False" "bit (2 :: nat) 2 = False" "bit (3 :: nat) 2 = False" "bit (4 :: nat) 2" "bit (5 :: nat) 2"
    "bit (6 :: nat) 2" "bit (7 :: nat) 2" "bit (1 :: nat) 1 = False" "bit (2 :: nat) 1" "bit (3 :: nat) 1" "bit (4 :: nat) 1 = False"
    "bit (5 :: nat) 1 = False" "bit (6 :: nat) 1" "bit (7 :: nat) 1" by code_simp+
  have "[0..<8] = [0, 1, 2, 3, 4, 5, 6, 7 :: nat]" by (simp add: upt_rec)
  then show ?thesis using True
    by (cases "bit a j"; cases "bit b j"; cases "bit c j") (simp_all add: ternlog_def bit_ternlog_term b[simplified] flip: numeral_2_eq_2 numeral_3_eq_3)
next
  case False
  then show ?thesis by (auto dest: bit_imp_le_length)
qed

text \<open>
  The shifts are arithmetic at every count.  A left shift multiplies by a power of two, a
  logical right shift divides the unsigned value, an arithmetic one the signed value, for counts past
  the lane's width as well: the saturation of the counts is exactly what that needs.
\<close>

lemma shifts_are_arithmetic:
  "shift32 m x cnt = shift_meaning (m = ''Vpslld'' \<or> m = ''Vpsllvd'') (m \<noteq> ''Vpsrld'' \<and> m \<noteq> ''Vpsrlvd'') x (unat cnt) \<and>
   shift64 m y cnt 64 = shift_meaning (m = ''Vpsllq'' \<or> m = ''Vpsllvq'') (m \<noteq> ''Vpsrlq'' \<and> m \<noteq> ''Vpsrlvq'') y (unat cnt)"
  by (auto simp: shift32_alt shift64_alt push_bit_meaning drop_bit_meaning)

end
