(* ===== verification/Emu_Laws.thy ===== *)
theory Emu_Laws
  imports Emu_Props
begin

text \<open>
  The laws of whole instructions of \<^verbatim>\<open>host/crates/phi512/src/emulate.rs\<close>: lane arithmetic under
  a write-mask, the memory a masked move touches, and the flags a mask test leaves to the branch
  after it.
\<close>

section \<open>The families are told apart by the mnemonic\<close>

lemma extend_family: "is_extend m \<Longrightarrow> hd m = CHR ''V''"
proof -
  assume "is_extend m"
  then obtain y where "extend_shape m = Some y" by (auto simp: is_extend_def)
  then show "hd m = CHR ''V''" unfolding extend_shape_def by (drule_tac map_of_SomeD) (simp, elim disjE conjE; simp)
qed

lemma vector_family:
  "is_extract_insert m \<Longrightarrow> hd m = CHR ''V''" "is_scalar m \<Longrightarrow> hd m = CHR ''V''"
  "is_misc_int m \<Longrightarrow> hd m = CHR ''V''" "is_lane_move m \<Longrightarrow> hd m = CHR ''V''" "is_shift m \<Longrightarrow> hd m = CHR ''V''"
  "is_permute m \<Longrightarrow> hd m = CHR ''V''" "f32_op m \<Longrightarrow> hd m = CHR ''V''" "f64_op m \<Longrightarrow> hd m = CHR ''V''"
  "i32_op m \<Longrightarrow> hd m = CHR ''V''" "i64_op m \<Longrightarrow> hd m = CHR ''V''"
  unfolding is_extract_insert_def is_scalar_def is_misc_int_def is_lane_move_def is_shift_def is_permute_def f32_op_def f64_op_def
    i32_op_def i64_op_def
  by (elim insertE emptyE; simp)+

lemma mask_family: "mask_width m = Some bits \<Longrightarrow> hd m = CHR ''K''"
  unfolding mask_width_def by (elim if_Some_elim[where P = "\<lambda>_. hd m = CHR ''K''"] insertE emptyE; simp)

lemma not_vector:
  assumes "hd m \<noteq> CHR ''V''"
  shows "\<not> is_extend m" "\<not> is_extract_insert m" "\<not> is_scalar m" "\<not> is_misc_int m" "\<not> is_lane_move m" "\<not> is_shift m"
    "\<not> is_permute m" "\<not> f32_op m" "\<not> f64_op m" "\<not> i32_op m" "\<not> i64_op m"
  using vector_family[of m] extend_family[of m] assms by blast+

lemma step_mask:
  assumes "mask_width (mnem i) = Some bits"
  shows "step F C i M = do_mask C i M"
proof -
  have "hd (mnem i) \<noteq> CHR ''V''" using mask_family[OF assms] by simp
  from not_vector[OF this] assms show ?thesis
    by (simp add: step_def lanes_of_def step_uncommon_def Let_def is_mask_op_def)
qed

lemma step_move: "is_move (mnem i) \<Longrightarrow> step F C i M = do_move C i M"
  by (frule is_move_def[THEN iffD1], elim insertE emptyE;
      simp add: step_def lanes_of_def step_uncommon_def Let_def is_mask_op_def mask_width_def is_extend_def extend_shape_def
        is_extract_insert_def is_scalar_def is_misc_int_def is_lane_move_def is_shift_def is_permute_def is_compare_def is_blend_def
        is_convert_def is_comis_def is_gather_scatter_def is_movdq_def is_scalar_cvt_def is_rndscale_def is_half_def
        f32_op_def f64_op_def i32_op_def i64_op_def)

section \<open>Lane arithmetic\<close>

text \<open>Every mnemonic of the common case has an operation of its lane type.\<close>

lemma f32_total: "f32_op m \<Longrightarrow> op_f32 F m i x y c a0 \<noteq> None"
  unfolding f32_op_def by (elim insertE emptyE; simp add: op_f32_def)

lemma f64_total: "f64_op m \<Longrightarrow> op_f64 F m i x y c a0 \<noteq> None"
  unfolding f64_op_def by (elim insertE emptyE; simp add: op_f64_def)

lemma i32_total: "i32_op m \<Longrightarrow> op_i32 m x y a0 \<noteq> None"
  unfolding i32_op_def by (elim insertE emptyE; simp add: op_i32_def)

lemma i64_total: "i64_op m \<Longrightarrow> op_i64 m x y a0 \<noteq> None"
  unfolding i64_op_def by (elim insertE emptyE; simp add: op_i64_def)

lemma lane_value_total:
  assumes "lanes_of m = Some ln"
  shows "lane_value F m ln a b d j \<noteq> None"
  using assms f32_total[of m F] f64_total[of m F] i32_total[of m] i64_total[of m]
  unfolding lanes_of_def by (simp add: lane_value_def split: if_split_asm)

text \<open>The two sources of an instruction of the common case.\<close>

definition arith_sources :: "'c cpu_ops \<Rightarrow> xinsn \<Rightarrow> lanes \<Rightarrow> 'c mach \<Rightarrow> bytes \<Rightarrow> bytes \<Rightarrow> bool" where
  "arith_sources C i ln M a b \<longleftrightarrow>
     source_bytes C i 1 ln M = Ok a \<and> (if one_source (mnem i) then b = a else source_bytes C i 2 ln M = Ok b)"

text \<open>
  C35. Lane arithmetic obeys the write-mask.  With its sources readable, an instruction of the common
  case succeeds whatever its mnemonic, and the destination holds, byte by byte: zero above the width of the
  operand, the operation's value in the lanes the mask enables, and in the others zero under
  zeroing-masking, else the byte that was there.  Nothing else changes.
\<close>

theorem arith_lanes_masked:
  assumes "lanes_of (mnem i) = Some ln" "zmm_index (xreg_of i 0) = Some d" "xinsn_ok i" "vstate_ok (vs M)"
    "arith_sources C i ln M a b"
  shows "step F C i M = Ok (put_zmm d (masked_spec (enabled i M) (zeroing i) (lane_bytes ln) (dest_width i)
    (\<lambda>j. the (lane_value F (mnem i) ln a b (zmms (vs M) ! d) j)) (zmms (vs M) ! d)) M)"
proof -
  let ?v = "lane_value F (mnem i) ln a b (zmms (vs M) ! d)"
  have "d < 32" using assms(2,3) zmm_index_ok by (auto simp: xinsn_ok_def)
  then have old: "length (zmms (vs M) ! d) = 64" using assms(4) by (simp add: vstate_ok_def)
  have v: "?v j \<noteq> None" for j using lane_value_total[OF assms(1)] by blast
  then have len: "length (the (?v j)) = lane_bytes ln" for j using length_lane_value by fastforce
  have "finish i d (lane_bytes ln) (dest_width i div lane_bytes ln) (dest_width i) (\<lambda>j. the (?v j)) M =
      put_zmm d (masked_spec (enabled i M) (zeroing i) (lane_bytes ln) (dest_width i) (\<lambda>j. the (?v j)) (zmms (vs M) ! d)) M"
    unfolding finish_def
    using masked_spec_eq[OF old, of "lane_bytes ln" "dest_width i" "enabled i M" "\<lambda>j. the (?v j)" "zeroing i"] len
      lane_bytes_cases[of ln] dest_width_le[of i] by simp
  moreover have "(if one_source (mnem i) then Ok a else source_bytes C i 2 ln M) = Ok b"
    using assms(5) by (simp add: arith_sources_def)
  ultimately show ?thesis using assms v by (simp add: step_def do_arith_def need_def arith_sources_def Let_def)
qed

definition demo_vpaddd :: xinsn where
  "demo_vpaddd = emu_insn ''Vpaddd'' (\<lambda>_. K_Register) (\<lambda>n. Vec (if n = 0 then 5 else n + 1) 64) (Mask 2)"

text \<open>The mask \<^verbatim>\<open>0xff00\<close> enables lanes 8 to 15; the others are zeroed.\<close>

definition demo_sum :: bytes where
  "demo_sum = replicate 32 0 @ replicate 32 7"

lemma demo_sum_eq:
  "masked_spec (enabled demo_vpaddd demo_mach) (zeroing demo_vpaddd) (lane_bytes L_I32) (dest_width demo_vpaddd)
     (\<lambda>j. the (lane_value demo_fops (mnem demo_vpaddd) L_I32 (replicate 64 3) (replicate 64 4) (zmms (vs demo_mach) ! 5) j))
     (zmms (vs demo_mach) ! 5) = demo_sum"
  by code_simp

theorem arith_lanes_masked_witness:
  "step demo_fops patch_ops demo_vpaddd demo_mach = Ok (put_zmm 5 demo_sum demo_mach)"
  unfolding demo_sum_eq[symmetric]
  by (rule arith_lanes_masked[OF _ _ _ demo_mach_ok])
    (simp_all add: demo_vpaddd_def emu_insn_def lanes_of_def f32_op_def f64_op_def i32_op_def xinsn_ok_def arith_sources_def
       one_source_def source_bytes_def demo_mach_def vstate_new_def nth_list_update numeral_2_eq_2)

section \<open>Masked moves\<close>

lemma masked_store_fault: "masked_store a en e src js m = Fault f \<Longrightarrow> \<exists>j \<in> set js. en j \<and> f = a + of_nat (j * e)"
proof (induction js arbitrary: m)
  case (Cons j js)
  show ?case
  proof (cases "en j")
    case True
    then show ?thesis using Cons by (cases "mstore m (a + of_nat (j * e)) (bytes_at (j * e) e src)")
      (auto simp: mstore_eq split: if_splits)
  qed (use Cons in auto)
qed simp

lemma masked_load_fault: "masked_load m a en z e js r = Fault f \<Longrightarrow> \<exists>j \<in> set js. en j \<and> f = a + of_nat (j * e)"
proof (induction js arbitrary: r)
  case (Cons j js)
  show ?case
  proof (cases "en j")
    case True
    then show ?thesis using Cons by (cases "mload m (a + of_nat (j * e)) e") (auto simp: mload_eq split: if_splits)
  qed (use Cons in auto)
qed simp

lemma move_elem_four_eight: "move_elem m \<in> {4, 8}"
  by (simp add: move_elem_def)

text \<open>The address of the memory operand and a faulting access of one of its enabled lanes.\<close>

definition faults_in_lane :: "'c cpu_ops \<Rightarrow> xinsn \<Rightarrow> 'c mach \<Rightarrow> nat \<Rightarrow> nat \<Rightarrow> 'b res \<Rightarrow> bool" where
  "faults_in_lane C i M e n r \<longleftrightarrow>
     (\<exists>j < n. enabled i M j \<and> r = Fault (effective_address C i (cpu M) + of_nat (j * e)))"

text \<open>
  C36. A masked store writes the enabled lanes and nothing else.  When the memory of the enabled
  lanes is mapped every byte of them is stored, all other memory, mapped or not, stays as it was, and the
  registers do not change; otherwise the instruction faults at the address of an enabled lane.  The
  lanes the mask turns off are never touched, so a loop's tail may end at the end of a mapping.
\<close>

theorem masked_store_exact:
  assumes "is_move (mnem i)" "xkind i 0 = K_Memory" "xkind i 1 = K_Register" "xreg_of i 1 = Vec s w" "w \<in> {16, 32, 64}"
    "s < 32" "vstate_ok (vs M)"
  shows "let e = move_elem (mnem i); a = effective_address C i (cpu M) in
    if lanes_mapped (ram M) a (enabled i M) e (w div e)
    then step F C i M = Ok (M\<lparr>ram := stored_lanes (ram M) a (enabled i M) e (w div e) (zmms (vs M) ! s)\<rparr>)
    else faults_in_lane C i M e (w div e) (step F C i M)"
proof -
  let ?e = "move_elem (mnem i)" and ?a = "effective_address C i (cpu M)"
  let ?s = "masked_store ?a (enabled i M) ?e (zmms (vs M) ! s) [0..<w div ?e] (ram M)"
  have "zmm_index (Vec s w) = Some s" "dest_width_of (Vec s w) = w" using assms(5) by auto
  then have step: "step F C i M = and_then ?s (\<lambda>m. Ok (M\<lparr>ram := m\<rparr>))"
    using assms(2-4) by (simp add: step_move[OF assms(1)] do_move_def need_def Let_def)
  have "w div ?e * ?e \<le> 64" "0 < ?e" "length (zmms (vs M) ! s) = 64"
    using move_elem_four_eight[of "mnem i"] assms(5-7) by (auto simp: vstate_ok_def)
  note spec = masked_store_spec[OF this, of "ram M" ?a "enabled i M"]
  show ?thesis
  proof (cases "lanes_mapped (ram M) ?a (enabled i M) ?e (w div ?e)")
    case False
    then obtain f where f: "?s = Fault f" using spec by auto
    then show ?thesis using False step masked_store_fault[OF f] by (auto simp: faults_in_lane_def Let_def)
  qed (use spec step in \<open>simp add: Let_def\<close>)
qed

text \<open>A store under the mask \<^verbatim>\<open>5\<close> at the 16 mapped bytes: the lanes 0 and 2.\<close>

lemma lanes_mapped_code:
  "lanes_mapped m a en e n \<longleftrightarrow> (\<forall>j \<in> set [0..<n]. en j \<longrightarrow> (\<forall>t \<in> set [0..<e]. m (a + of_nat (j * e + t)) \<noteq> None))"
  by (auto simp: lanes_mapped_def)

definition demo_store :: xinsn where
  "demo_store = emu_insn ''Vmovups'' (\<lambda>n. if n = 0 then K_Memory else K_Register) (\<lambda>n. Vec 2 64) (Mask 1)"

definition demo_load :: xinsn where
  "demo_load = emu_insn ''Vmovups'' (\<lambda>n. if n = 0 then K_Register else K_Memory) (\<lambda>n. Vec 3 64) (Mask 1)"

lemma demo_address:
  "effective_address patch_ops demo_store (cpu demo_mach) = 0x8000" "effective_address patch_ops demo_load (cpu demo_mach) = 0x8000"
  by code_simp+

lemma demo_mapped:
  "lanes_mapped (ram demo_mach) 0x8000 (enabled demo_store demo_mach) 4 (64 div 4)"
  "lanes_mapped (ram demo_mach) 0x8000 (enabled demo_load demo_mach) 4 (64 div 4)"
  unfolding lanes_mapped_code by code_simp+

lemma demo_move:
  "is_move (mnem demo_store)" "move_elem (mnem demo_store) = 4" "is_move (mnem demo_load)" "move_elem (mnem demo_load) = 4"
  by (simp_all add: demo_store_def demo_load_def emu_insn_def is_move_def move_elem_def)

theorem masked_store_exact_witness:
  "step demo_fops patch_ops demo_store demo_mach =
     Ok (demo_mach\<lparr>ram := stored_lanes (ram demo_mach) 0x8000 (enabled demo_store demo_mach) 4 (64 div 4) (zmms (vs demo_mach) ! 2)\<rparr>)"
  using masked_store_exact[where i = demo_store and s = 2 and w = 64 and M = demo_mach and F = demo_fops and C = patch_ops] demo_mach_ok
  unfolding demo_move demo_address Let_def if_P[OF demo_mapped(1)]
  by (simp add: demo_store_def emu_insn_def is_move_def)

text \<open>
  A masked load reads the enabled lanes and nothing else.  When their memory is mapped the
  destination holds it in the enabled lanes, zero or its old bytes in the others and zero above the operand's
  width; otherwise the instruction faults at the address of an enabled lane.
\<close>

lemma masked_load_exact:
  assumes "is_move (mnem i)" "xkind i 0 = K_Register" "xkind i 1 = K_Memory" "zmm_index (xreg_of i 0) = Some d" "xinsn_ok i"
    "vstate_ok (vs M)"
  shows "let e = move_elem (mnem i); a = effective_address C i (cpu M); w = dest_width i in
    if lanes_mapped (ram M) a (enabled i M) e (w div e)
    then step F C i M = Ok (put_zmm d (masked_spec (enabled i M) (zeroing i) e w (mem_lane (ram M) a e) (zmms (vs M) ! d)) M)
    else faults_in_lane C i M e (w div e) (step F C i M)"
proof -
  let ?e = "move_elem (mnem i)" and ?a = "effective_address C i (cpu M)" and ?w = "dest_width i"
  let ?l = "masked_load (ram M) ?a (enabled i M) (zeroing i) ?e [0..<?w div ?e] (zmms (vs M) ! d)"
  have "d < 32" using assms(4,5) zmm_index_ok by (auto simp: xinsn_ok_def)
  then have old: "length (zmms (vs M) ! d) = 64" using assms(6) by (simp add: vstate_ok_def)
  have step: "step F C i M = and_then ?l (\<lambda>r. Ok (put_zmm d (zero_above ?w r) M))"
    using assms(2-4) by (simp add: step_move[OF assms(1)] do_move_def need_def Let_def)
  note spec = masked_load_spec[of "ram M" ?a "enabled i M" ?e "?w div ?e" "zeroing i" "zmms (vs M) ! d"]
  show ?thesis
  proof (cases "lanes_mapped (ram M) ?a (enabled i M) ?e (?w div ?e)")
    case True
    have "zero_above ?w (masked_write (enabled i M) (zeroing i) ?e (?w div ?e) (mem_lane (ram M) ?a ?e) (zmms (vs M) ! d)) =
        masked_spec (enabled i M) (zeroing i) ?e ?w (mem_lane (ram M) ?a ?e) (zmms (vs M) ! d)"
      using move_elem_four_eight[of "mnem i"] dest_width_le[of i] by (intro masked_spec_eq old) (auto simp: mem_lane_def)
    then show ?thesis using True spec step by (simp add: Let_def)
  next
    case False
    then obtain f where f: "?l = Fault f" using spec by auto
    then show ?thesis using False step masked_load_fault[OF f] by (auto simp: faults_in_lane_def Let_def)
  qed
qed

section \<open>Mask tests\<close>

text \<open>ZF and CF as the branch after the test reads them: over the bits of the mask's width.\<close>

definition test_zf :: "string \<Rightarrow> nat \<Rightarrow> u64 \<Rightarrow> u64 \<Rightarrow> bool" where
  "test_zf m bits a b \<longleftrightarrow> (\<forall>n < bits. if is_kortest m then \<not> bit a n \<and> \<not> bit b n else \<not> (bit a n \<and> bit b n))"

definition test_cf :: "string \<Rightarrow> nat \<Rightarrow> u64 \<Rightarrow> u64 \<Rightarrow> bool" where
  "test_cf m bits a b \<longleftrightarrow> (\<forall>n < bits. if is_kortest m then bit a n \<or> bit b n else \<not> (\<not> bit a n \<and> bit b n))"

definition flags_after :: "bool \<Rightarrow> bool \<Rightarrow> u64 \<Rightarrow> u64 \<Rightarrow> bool" where
  "flags_after zf cf old f \<longleftrightarrow>
     (\<forall>j. bit f j = (if j = 0 then cf else if j = 6 then zf else if j \<in> {2, 4, 7, 11} then False else bit old j))"

lemma and_width_eq:
  assumes "bits \<le> 64"
  shows "x AND width_mask bits = 0 \<longleftrightarrow> (\<forall>n < bits. \<not> bit x n)" "x AND width_mask bits = width_mask bits \<longleftrightarrow> (\<forall>n < bits. bit x n)"
proof -
  have bits: "bit (x AND width_mask bits) n \<longleftrightarrow> bit x n \<and> n < bits" for n using assms by (simp add: bit_and_iff width_mask_bit)
  show "x AND width_mask bits = 0 \<longleftrightarrow> (\<forall>n < bits. \<not> bit x n)" using bits by (metis bit_0_eq bot_apply bot_bool_def bit_eq_iff)
  show "x AND width_mask bits = width_mask bits \<longleftrightarrow> (\<forall>n < bits. bit x n)" using bits width_mask_bit[OF assms] by (metis bit_eq_iff)
qed

lemma mask_tests_bits:
  assumes "bits \<le> 64"
  shows "mask_tests m (width_mask bits) (a AND width_mask bits) (b AND width_mask bits) = (test_zf m bits a b, test_cf m bits a b)"
  using assms
  by (simp add: mask_tests_def test_zf_def test_cf_def and_width_eq bit_and_iff bit_or_iff bit_not_iff width_mask_bit)

text \<open>
  C37. A mask test leaves the right branch.  On a patched site \<^verbatim>\<open>kortest\<close> sets ZF when no bit of
  either mask is set within the width and CF when every one is; \<^verbatim>\<open>ktest\<close> sets ZF when the masks have no
  common bit and CF when the second lies within the first.  PF, AF, SF and OF are cleared, every other flag and
  all registers are kept.
\<close>

theorem mask_tests_set_flags:
  assumes "patch_ok (cpu M)" "mask_width (mnem i) = Some bits" "is_kortest (mnem i) \<or> is_ktest (mnem i)"
    "read_mask patch_ops i bits 0 M = Ok a" "read_mask patch_ops i bits 1 M = Ok b"
  shows "\<exists>c. step F patch_ops i M = Ok (M\<lparr>cpu := c\<rparr>) \<and> (\<forall>r. patch_get c r = patch_get (cpu M) r) \<and>
    flags_after (test_zf (mnem i) bits a b) (test_cf (mnem i) bits a b) (patch_flags (cpu M)) (patch_flags c)"
proof -
  have "bits \<le> 64" using mask_width_le[OF assms(2)] by auto
  note t = mask_tests_bits[OF this]
  show ?thesis
    using pc.mask_test_flags[where i = i and M = M and a = a and b = b, OF assms]
    by (auto simp: step_mask[OF assms(2)] t Let_def patch_ops_def flags_after_def test_flags_bits)
qed

definition demo_kortest :: xinsn where
  "demo_kortest = emu_insn ''Kortestw'' (\<lambda>_. K_Register) (\<lambda>n. Mask (if n = 0 then 2 else 3)) No_reg"

text \<open>The masks \<^verbatim>\<open>0xff00\<close> and \<^verbatim>\<open>0xff\<close> together are full: CF is set, the stale ZF and PF cleared.\<close>

definition demo_flags :: bool where
  "demo_flags \<longleftrightarrow> (\<exists>c. step demo_fops patch_ops demo_kortest demo_mach = Ok (demo_mach\<lparr>cpu := c\<rparr>) \<and>
     (\<forall>r. patch_get c r = patch_get (cpu demo_mach) r) \<and> flags_after False True 0x46 (patch_flags c))"

lemma demo_tests: "test_zf ''Kortestw'' 16 0xff00 0xff = False" "test_cf ''Kortestw'' 16 0xff00 0xff = True"
proof -
  have "mask_tests ''Kortestw'' (width_mask 16) (0xff00 AND width_mask 16) (0xff AND width_mask 16) = (False, True)" by code_simp
  then show "test_zf ''Kortestw'' 16 0xff00 0xff = False" "test_cf ''Kortestw'' 16 0xff00 0xff = True"
    using mask_tests_bits[of 16 "''Kortestw''" "0xff00" "0xff"] by simp_all
qed

theorem mask_tests_set_flags_witness: "demo_flags"
proof -
  have "mnem demo_kortest = ''Kortestw''" "mask_width ''Kortestw'' = Some 16" "is_kortest ''Kortestw''"
    "read_mask patch_ops demo_kortest 16 0 demo_mach = Ok 0xff00" "read_mask patch_ops demo_kortest 16 1 demo_mach = Ok 0xff"
    "patch_flags (cpu demo_mach) = 0x46"
    by (simp_all add: demo_kortest_def emu_insn_def mask_width_def is_kortest_def read_mask_def demo_mach_def vstate_new_def
        patch_flags_def patch_cpu_new_def demo_frame_def)
  then show ?thesis
    using mask_tests_set_flags[where M = demo_mach and i = demo_kortest and a = "0xff00" and b = "0xff" and bits = 16 and F = demo_fops]
      demo_cpu_ok demo_tests by (simp add: demo_flags_def)
qed

section \<open>Where the emulator departs from the processor\<close>

text \<open>
  A conversion of 2147483648.0 to a signed integer gives 2147483647.  The guard compares with
  \<^verbatim>\<open>i32::MAX as f32\<close>, which rounds to that very float, so the value passes and the cast saturates; every
  larger float gives the integer indefinite the instruction defines.
\<close>

lemma conversion_misses_indefinite:
  "f32_to_i32 0x4f000000 = 0x7fffffff \<and> f32_to_i32 0x4f000001 = 0x80000000 \<and> int32_of 0x4f000000 = 2 ^ 31"
proof -
  have "\<not> nan32 0x4f000000" "\<not> lt32 0x4f000000 0x4f000000" "\<not> lt32 0x4f000000 0xcf000000" "lt32 0x4f000000 0x4f000001"
    by (simp_all add: nan32_def lt32_def key32_def Let_def)
  moreover have "int32_of 0x4f000000 = 2 ^ 31" by (simp add: int32_of_def scaled_def Let_def)
  ultimately show ?thesis by (simp add: f32_to_i32_def)
qed

lemma effective_address_other [simp]: "effective_address C (i\<lparr>xreg_of := f\<rparr>) c = effective_address C i c"
  by (simp add: effective_address_def Let_def)

lemma source_bytes_other:
  assumes "n \<noteq> j"
  shows "source_bytes C (i\<lparr>xreg_of := (xreg_of i)(j := r)\<rparr>) n ln M = source_bytes C i n ln M"
proof -
  have "xreg_of (i\<lparr>xreg_of := (xreg_of i)(j := r)\<rparr>) n = xreg_of i n" using assms by simp
  moreover have "xkind (i\<lparr>xreg_of := f\<rparr>) = xkind i" "broadcast (i\<lparr>xreg_of := f\<rparr>) = broadcast i" "mem_size (i\<lparr>xreg_of := f\<rparr>) = mem_size i"
    for f by simp_all
  ultimately show ?thesis unfolding source_bytes_def by (simp only: effective_address_other)
qed

text \<open>
  C39. A scalar square root, conversion or register move never reads its second source.
  For these mnemonics the step is the same whatever register the third operand names, although the
  instructions compute lane 0 from it and take only the other lanes from the second operand.
\<close>

theorem scalar_source_is_ignored:
  assumes "one_scalar_source (mnem i)"
  shows "step F C (i\<lparr>xreg_of := (xreg_of i)(2 := r)\<rparr>) M = step F C i M"
proof -
  have "scalar_op F C (i\<lparr>xreg_of := (xreg_of i)(2 := r)\<rparr>) M = scalar_op F C i M"
    using assms by (simp add: scalar_op_def source_bytes_other Let_def)
  then have "do_scalar F C (i\<lparr>xreg_of := (xreg_of i)(2 := r)\<rparr>) M = do_scalar F C i M"
    unfolding do_scalar_def Let_def by (simp split del: if_split cong: if_cong)
  moreover have "lanes_of (mnem i) = None" "\<not> is_extend (mnem i)" "\<not> is_extract_insert (mnem i)" "is_scalar (mnem i)"
    using assms unfolding one_scalar_source_def
    by (elim insertE emptyE;
        simp add: lanes_of_def f32_op_def f64_op_def i32_op_def i64_op_def is_extend_def extend_shape_def is_extract_insert_def is_scalar_def)+
  ultimately show ?thesis by (simp add: step_def step_uncommon_def Let_def)
qed

definition demo_sqrt :: "nat \<Rightarrow> xinsn" where
  "demo_sqrt r = emu_insn ''Vsqrtss'' (\<lambda>_. K_Register) ((\<lambda>n. Vec 3 16)(2 := Vec r 16)) No_reg"

theorem scalar_source_is_ignored_witness:
  "step demo_fops patch_ops (demo_sqrt 7) demo_mach = step demo_fops patch_ops (demo_sqrt 2) demo_mach"
  using scalar_source_is_ignored[where i = "demo_sqrt 2" and r = "Vec 7 16" and F = demo_fops and C = patch_ops and M = demo_mach]
  by (simp add: demo_sqrt_def emu_insn_def one_scalar_source_def)

end
