(* ===== verification/Emu_Half.thy ===== *)
theory Emu_Half
  imports Emu_Props
begin

text \<open>
  The half-precision conversions of \<^verbatim>\<open>host/crates/phi512/src/emulate.rs\<close>: the fields of a float
  word, the loop that normalises a subnormal, and that a half survives the trip through a float in every
  rounding mode.
\<close>

section \<open>The fields of a float\<close>

lemma masks:
  "(0xff :: u32) = mask 8" "(0x7fffff :: u32) = mask 23" "(0x1f :: u16) = mask 5" "(0x3ff :: u16) = mask 10" "(0x3ff :: u32) = mask 10"
  "(0x1ff :: u16) = mask 9"
  by (simp_all add: mask_eq_exp_minus_1)

lemma bit_consts:
  "bit (0x400 :: u32) n \<longleftrightarrow> n = 10" "bit (0x200 :: u32) n \<longleftrightarrow> n = 9" "bit (0x200 :: u16) n \<longleftrightarrow> n = 9"
  "bit (0x400 :: u16) n \<longleftrightarrow> n = 10" "bit (0x200 :: int) n \<longleftrightarrow> n = 9" "bit (0x400 :: int) n \<longleftrightarrow> n = 10"
  using bit_exp_iff[of 10 n, where ?'a = u16] bit_exp_iff[of 9 n, where ?'a = int] bit_exp_iff[of 10 n, where ?'a = int] bit_exp_iff[of 10 n, where ?'a = u32] bit_exp_iff[of 9 n, where ?'a = u32] bit_exp_iff[of 9 n, where ?'a = u16] by auto

lemma bit_at:
  "x AND 0x400 = 0 \<longleftrightarrow> \<not> bit (x :: u32) 10" "x AND 0x800 = 0 \<longleftrightarrow> \<not> bit (x :: u32) 11"
  using and_exp_eq_0_iff_not_bit[of x 10] and_exp_eq_0_iff_not_bit[of x 11] by simp_all

definition within :: "'a::len word \<Rightarrow> nat \<Rightarrow> bool" where
  "within x n \<longleftrightarrow> (\<forall>j. bit x j \<longrightarrow> j < n)"

lemma withinD: "within x n \<Longrightarrow> bit x j \<Longrightarrow> j < n"
  by (simp add: within_def)

lemma float_fields:
  fixes S E m :: u32
  assumes "within S 1" "within E 8" "within m 23"
  shows "drop_bit 31 (push_bit 31 S OR push_bit 23 E OR m) = S"
    "drop_bit 23 (push_bit 31 S OR push_bit 23 E OR m) AND 0xff = E"
    "(push_bit 31 S OR push_bit 23 E OR m) AND 0x7fffff = m"
    "bit (push_bit 31 S OR push_bit 23 E OR m) 31 = bit S 0"
  using assms unfolding masks within_def
  by (auto intro!: bit_word_eqI simp: bit_simps) fastforce+

section \<open>The normalising loop\<close>

text \<open>It shifts the highest set bit to place 10 and counts the shifts, within its fuel.\<close>

lemma normalise_spec:
  assumes "bit mm hi" "hi \<le> 10" "10 \<le> hi + n" "\<And>j. bit mm j \<Longrightarrow> j \<le> hi"
  shows "normalise n mm e = (push_bit (10 - hi) mm, e - int (10 - hi))"
  using assms
proof (induction n arbitrary: mm e hi)
  case (Suc n)
  show ?case
  proof (cases "bit mm 10")
    case True
    then show ?thesis using Suc.prems(2,4) by (fastforce simp: bit_at)
  next
    case False
    then have t: "hi < 10" using Suc.prems(1,2) by (cases "hi = 10") auto
    have "normalise n (push_bit 1 mm) (e - 1) = (push_bit (10 - Suc hi) (push_bit 1 mm), e - 1 - int (10 - Suc hi))"
    proof (rule Suc.IH)
      show "bit (push_bit 1 mm) (Suc hi)" "Suc hi \<le> 10" "10 \<le> Suc hi + n" using Suc.prems(1,3) t unfolding bit_push_bit_iff by simp_all
      fix j assume "bit (push_bit 1 mm) j"
      then show "j \<le> Suc hi" using Suc.prems(4)[of "j - 1"] unfolding bit_push_bit_iff by simp
    qed
    moreover have "push_bit (10 - Suc hi) (push_bit 1 mm) = push_bit (10 - hi) mm" using t by (simp flip: Suc_diff_Suc)
    ultimately show ?thesis using False t by (simp add: bit_at)
  qed
qed simp

lemma hi_bit:
  assumes "mant \<noteq> (0 :: u32)" "\<And>j. bit mant j \<Longrightarrow> j < 10"
  obtains hi where "bit mant hi" "hi < 10" "\<And>j. bit mant j \<Longrightarrow> j \<le> hi"
proof
  let ?B = "{j. bit mant j}"
  have fin: "finite ?B" using assms(2) by (intro finite_subset[of ?B "{..<10}"]) auto
  moreover have ne: "?B \<noteq> {}" using assms(1) by (auto simp: bit_eq_iff)
  ultimately show "bit mant (Max ?B)" "Max ?B < 10" using Max_in assms(2) by blast+
  show "j \<le> Max ?B" if "bit mant j" for j using that fin by simp
qed

section \<open>Exact values\<close>

lemma within_less:
  assumes "unat (x :: 'a::len word) < 2 ^ n"
  shows "within x n"
proof -
  have "take_bit n x = x" using assms(1) by (simp add: word_unat_eq_iff unsigned_take_bit_eq take_bit_nat_eq_self)
  then show ?thesis unfolding within_def by (metis bit_take_bit_iff)
qed

text \<open>A significand without bits below the unit is not rounded, whatever the mode.\<close>

lemma round_exact:
  assumes "1 \<le> sh" "sh < 25" "\<And>j. bit q j \<Longrightarrow> j + sh < 32"
  shows "round_units md negative sh (push_bit sh q) = q"
proof -
  have q: "drop_bit sh (push_bit sh q) = q" using assms(3) by (intro bit_word_eqI) (force simp: bit_simps add.commute)
  have "(push_bit sh 1 - 1 :: u32) = mask sh" by (simp add: mask_eq_exp_minus_1 push_bit_of_1)
  then have r: "push_bit sh q AND (push_bit sh 1 - 1) = 0" by (intro bit_word_eqI) (simp add: bit_simps)
  have "bit (push_bit (sh - 1) (1 :: u32)) (sh - 1)" using assms(1,2) by (simp add: bit_simps)
  then have "push_bit (sh - 1) (1 :: u32) \<noteq> 0" by (metis bit_0_eq bot_apply bot_bool_def)
  then show ?thesis using assms(2) unfolding round_units_def Let_def q r by auto
qed

text \<open>The fields of a half, and the half of its fields.\<close>

lemma half_fields:
  "push_bit 15 (drop_bit 15 h) OR push_bit 10 (drop_bit 10 h AND 0x1f) OR (h AND 0x3ff) = (h :: u16)"
  unfolding masks
proof (rule bit_word_eqI)
  fix n :: nat assume "n < LENGTH(16)"
  then show "bit (push_bit 15 (drop_bit 15 h) OR push_bit 10 (drop_bit 10 h AND mask 5) OR (h AND mask 10)) n = bit h n"
    by (cases "n = 15") (auto simp: bit_simps)
qed

lemma ucast_and: "ucast (ucast (h AND 0x3ff :: u16) :: u32) AND 0x3ff = (h AND 0x3ff :: u16)"
  "ucast (ucast x :: u32) = (x :: u16)"
  unfolding masks by (rule bit_word_eqI; auto simp: bit_simps)+

lemma field_bits:
  "within (ucast (drop_bit 15 h) :: u32) 1" "within (ucast (drop_bit 10 h AND 0x1f) :: u32) 5"
  "within (ucast (h AND 0x3ff) :: u32) 10" for h :: u16
  unfolding masks within_def by (auto simp: bit_simps dest: bit_imp_le_length)

text \<open>A float with the fields of a half comes back as their half.\<close>

definition half_of :: "u32 \<Rightarrow> nat \<Rightarrow> u32 \<Rightarrow> u16" where
  "half_of S x q = push_bit 15 (ucast S) OR push_bit 10 (of_nat x) OR (ucast q AND 0x3ff)"

lemma f32_to_half_normal:
  assumes "within S 1" "1 \<le> unat x" "unat x \<le> 30" "within t 10"
  shows "f32_to_half (push_bit 31 S OR push_bit 23 (x + 112) OR push_bit 13 t) mode = half_of S (unat x) (t OR 0x400)"
proof -
  have e: "unat (x + 112) = unat x + 112" using assms(3) by (simp add: unat_word_ariths)
  have x: "within (x + 112) 8" using e assms(3) by (intro within_less) simp
  have t: "within (push_bit 13 t) 23" using assms(4) by (fastforce simp: within_def bit_simps)
  note f = float_fields[OF assms(1) x t]
  have sig: "push_bit 13 t OR 0x800000 = push_bit 13 (t OR 0x400)" by (simp add: push_bit_or)
  have b: "bit (t OR 0x400) j \<longleftrightarrow> bit t j \<or> j = 10" for j
    using bit_exp_iff[of 10 j, where ?'a = u32] by (auto simp: bit_or_iff)
  have r: "round_units md neg 13 (push_bit 13 (t OR 0x400)) = t OR 0x400" for md neg
    using assms(4) by (intro round_exact) (auto simp: b dest!: withinD)
  have "\<not> bit (t OR 0x400) 11" using withinD[OF assms(4), of 11] by (auto simp: b)
  then have c: "carry_units (unat x) (t OR 0x400) = (unat x, t OR 0x400)" using assms(2) by (simp add: carry_units_def bit_at)
  have "(k + 112 = 255) = False" "(k + 112 = 0) = False" "(- 14 \<le> int (k + 112) - 127) = True"
    "nat (int (k + 112) - 127 + 15) = k" "(31 \<le> k) = False" if "1 \<le> k" "k \<le> 30" for k
    using that by auto
  note h = this[OF assms(2,3)]
  show ?thesis
    unfolding f32_to_half_def Let_def f e h if_True if_False sig r c prod.case simp_thms half_of_def by simp
qed

lemma f32_to_half_subnormal:
  assumes "within S 1" "bit t hi" "hi < 10" "\<And>j. bit t j \<Longrightarrow> j \<le> hi"
  shows "f32_to_half (push_bit 31 S OR push_bit 23 (of_nat (103 + hi)) OR push_bit 13 (push_bit (10 - hi) t AND 0x3ff)) mode = half_of S 0 t"
proof -
  let ?m = "push_bit 13 (push_bit (10 - hi) t AND 0x3ff)"
  have e: "unat (of_nat (103 + hi) :: u32) = 103 + hi" using assms(3) by (simp only: unat_of_nat) (simp add: take_bit_nat_eq_self)
  have x: "within (of_nat (103 + hi) :: u32) 8" using e assms(3) by (intro within_less) simp
  have t: "within ?m 23" unfolding masks within_def by (fastforce simp: bit_simps)
  note f = float_fields[OF assms(1) x t]
  have bits: "bit (push_bit (10 - hi) t) j \<longleftrightarrow> 10 - hi \<le> j \<and> j < 32 \<and> bit t (j - (10 - hi))" for j by (auto simp: bit_simps)
  have le: "bit (push_bit (10 - hi) t) j \<Longrightarrow> j \<le> 10" for j using assms(4)[of "j - (10 - hi)"] assms(3) by (auto simp: bits)
  have ten: "bit (push_bit (10 - hi) t) 10" using assms(2,3) by (simp add: bits)
  have "push_bit (10 - hi) t AND 0x3ff OR 0x400 = push_bit (10 - hi) t"
  proof (rule bit_word_eqI)
    fix j assume "j < LENGTH(32)"
    then show "bit (push_bit (10 - hi) t AND 0x3ff OR 0x400) j = bit (push_bit (10 - hi) t) j"
      using le[of j] ten bit_exp_iff[of 10 j, where ?'a = u32] unfolding masks by (cases "j = 10") (auto simp: bit_and_iff bit_or_iff bit_mask_iff)
  qed
  moreover have "?m OR 0x800000 = push_bit 13 (push_bit (10 - hi) t AND 0x3ff OR 0x400)" by (simp add: push_bit_or)
  ultimately have sig: "?m OR 0x800000 = push_bit (23 - hi) t" using assms(3) by (simp add: push_bit_push_bit)
  have r: "round_units md neg (23 - hi) (push_bit (23 - hi) t) = t" for md neg
    using assms(3) by (intro round_exact) (auto dest!: assms(4))
  have "\<not> bit t 10" using assms(3,4) by fastforce
  then have c: "carry_units 0 t = (0, t)" by (simp add: carry_units_def bit_at)
  have "(103 + k = 255) = False" "(103 + k = 0) = False" "(- 14 \<le> int (103 + k) - 127) = False"
    "nat (13 + (- 14 - (int (103 + k) - 127))) = 23 - k" if "k < 10" for k
    using that by auto
  note h = this[OF assms(3)]
  show ?thesis
    unfolding f32_to_half_def Let_def f e h if_True if_False sig r c prod.case simp_thms half_of_def by simp
qed

lemma f32_to_half_zero: "within S 1 \<Longrightarrow> f32_to_half (push_bit 31 S) mode = half_of S 0 0"
  using float_fields[of S 0 0] by (simp add: f32_to_half_def Let_def within_def half_of_def split: prod.split)

lemma f32_to_half_special:
  assumes "within S 1" "within t 10"
  shows "f32_to_half (push_bit 31 S OR 0x7f800000 OR push_bit 13 t) mode =
    (if t = 0 then half_of S 31 0 else half_of S 31 (t OR 0x200))"
proof -
  have "within (0xff :: u32) 8" by (rule within_less) simp
  moreover have "within (push_bit 13 t) 23" using assms(2) by (fastforce simp: within_def bit_simps)
  ultimately have f: "drop_bit 31 (push_bit 31 S OR 0x7f800000 OR push_bit 13 t) = S"
    "drop_bit 23 (push_bit 31 S OR 0x7f800000 OR push_bit 13 t) AND 0xff = 0xff"
    "(push_bit 31 S OR 0x7f800000 OR push_bit 13 t) AND 0x7fffff = push_bit 13 t"
    using float_fields[of S "0xff" "push_bit 13 t"] assms(1) by simp_all
  have t: "drop_bit 13 (push_bit 13 t) = t" using assms(2) by (intro bit_word_eqI) (fastforce simp: bit_simps within_def)
  then have z: "push_bit 13 t = 0 \<longleftrightarrow> t = 0" by (metis drop_bit_of_0 push_bit_of_0)
  have q: "(0x7e00 :: u16) OR (ucast t AND 0x1ff) = (push_bit 10 31 :: u16) OR (ucast (t OR 0x200) AND 0x3ff)"
  proof -
    have c: "(0x7e00 :: u16) = push_bit 9 (mask 6)" "(31 :: u16) = mask 5" "(0x200 :: u32) = push_bit 9 1"
      by (simp_all add: mask_eq_exp_minus_1)
    show ?thesis
    proof (rule bit_word_eqI)
      fix n :: nat assume "n < LENGTH(16)"
      moreover have "n < 16 \<Longrightarrow> n = 9 \<or> n < 9 \<or> 9 < n" by linarith
      ultimately show "bit ((0x7e00 :: u16) OR (ucast t AND 0x1ff)) n = bit ((push_bit 10 31 :: u16) OR (ucast (t OR 0x200) AND 0x3ff)) n"
        using bit_exp_iff[of 9 n, where ?'a = u32] unfolding c masks by (auto simp: bit_or_iff bit_and_iff bit_push_bit_iff bit_mask_iff bit_ucast_iff bit_1_iff)
    qed
  qed
  show ?thesis unfolding f32_to_half_def Let_def f z t half_of_def using q by (simp add: or.assoc)
qed

section \<open>The round trip\<close>

definition half_nan :: "u16 \<Rightarrow> bool" where
  "half_nan h \<longleftrightarrow> drop_bit 10 h AND 0x1f = 31 \<and> h AND 0x3ff \<noteq> 0"

lemma half_of_fields:
  assumes "k < 32"
  shows "half_of (ucast (drop_bit 15 h)) k (ucast t) = push_bit 15 (drop_bit 15 h) OR push_bit 10 (of_nat k) OR (t AND 0x3ff)"
  unfolding half_of_def masks by (rule bit_word_eqI) (auto simp: bit_simps)

lemma half_of_hidden: "half_of S k (t OR 0x400) = half_of S k t"
proof -
  have "ucast (t OR 0x400) AND (0x3ff :: u16) = ucast t AND 0x3ff"
    unfolding masks by (intro bit_word_eqI) (auto simp: bit_or_iff bit_and_iff bit_mask_iff bit_ucast_iff bit_consts)
  then show ?thesis by (simp add: half_of_def)
qed

lemma half_of_quiet:
  assumes "drop_bit 10 h AND 0x1f = 31"
  shows "half_of (ucast (drop_bit 15 h)) 31 (ucast (h AND 0x3ff) OR 0x200) = h OR (0x200 :: u16)"
proof -
  have q: "ucast (ucast (h AND 0x3ff) OR 0x200 :: u32) AND 0x3ff = (h AND 0x3ff) OR (0x200 :: u16)"
    unfolding masks by (intro bit_word_eqI) (auto simp: bit_or_iff bit_and_iff bit_mask_iff bit_ucast_iff bit_consts)
  have "half_of (ucast (drop_bit 15 h)) 31 (ucast (h AND 0x3ff) OR 0x200) =
      push_bit 15 (drop_bit 15 h) OR push_bit 10 31 OR ((h AND 0x3ff) OR 0x200)"
    unfolding half_of_def of_nat_numeral by (simp only: q ucast_and)
  also have "\<dots> = (push_bit 15 (drop_bit 15 h) OR push_bit 10 (drop_bit 10 h AND 0x1f) OR (h AND 0x3ff)) OR 0x200"
    unfolding assms by (simp only: or.assoc)
  finally show ?thesis unfolding half_fields .
qed

lemma half_to_f32_subnormal:
  assumes "drop_bit 10 h AND 0x1f = 0" "t = ucast (h AND 0x3ff)" "bit t hi" "hi < 10" "\<And>j. bit t j \<Longrightarrow> j \<le> hi"
  shows "half_to_f32 h = push_bit 31 (ucast (drop_bit 15 h)) OR push_bit 23 (of_nat (103 + hi)) OR push_bit 13 (push_bit (10 - hi) t AND 0x3ff)"
proof -
  have "normalise 10 t 113 = (push_bit (10 - hi) t, 113 - int (10 - hi))" using assms(3-5) by (intro normalise_spec) auto
  moreover have "113 - int (10 - hi) = int (103 + hi)" using assms(4) by simp
  moreover have "t \<noteq> 0" using assms(3) by auto
  ultimately show ?thesis using assms(1,2) unfolding half_to_f32_def Let_def
    by (simp only: unsigned_0 if_True if_False simp_thms prod.case of_int_of_nat_eq)
qed

lemma half_to_f32_normal:
  defines "x \<equiv> \<lambda>h :: 16 word. ucast (drop_bit 10 h AND 0x1f) :: u32"
  assumes "1 \<le> unat (x h)" "unat (x h) \<le> 30"
  shows "half_to_f32 h = push_bit 31 (ucast (drop_bit 15 h)) OR push_bit 23 (x h + 112) OR push_bit 13 (ucast (h AND 0x3ff))"
proof -
  have "unat (x h) \<noteq> unat (0 :: u32)" "unat (x h) \<noteq> unat (31 :: u32)" using assms by simp_all
  then have "(x h = 0) = False" "(x h = 31) = False" unfolding word_unat_eq_iff by blast+
  moreover have "x h + 127 - 15 = x h + 112" by simp
  ultimately show ?thesis unfolding half_to_f32_def Let_def x_def by (simp only: if_False)
qed

text \<open>
  C38. A half survives the trip through a float.  Widened to a float and rounded back, in any of the
  four modes, every half comes back bit for bit, the zeros, the subnormals and the infinities included; a NaN comes
  back as its quiet form.
\<close>

theorem half_round_trip:
  "f32_to_half (half_to_f32 h) mode = (if half_nan h then h OR 0x200 else h)"
proof -
  let ?S = "ucast (drop_bit 15 h) :: u32" and ?x = "drop_bit 10 h AND 0x1f" and ?t = "h AND 0x3ff"
  note w = field_bits[of h]
  have "?x = take_bit 5 (drop_bit 10 h)" by (simp add: masks take_bit_eq_mask)
  then have x: "unat ?x < 32" using take_bit_nat_less_exp[of 5] by (simp add: unsigned_take_bit_eq)
  have all: "push_bit 15 (drop_bit 15 h) OR push_bit 10 (of_nat (unat ?x)) OR (?t AND 0x3ff) = h"
    using half_fields[of h] by (simp add: and.assoc)
  let ?u = "ucast ?t :: u32"
  have zero: "?u = 0 \<longleftrightarrow> ?t = 0" by (metis ucast_and(2) unsigned_0)
  have fields: "half_of ?S (unat ?x) ?u = h" using half_of_fields[OF x, of h ?t] all by simp
  consider "?x = 0" "?t = 0" | "?x = 0" "?t \<noteq> 0" | "?x = 31" | "?x \<noteq> 0" "?x \<noteq> 31" by blast
  then show ?thesis
  proof cases
    case 1
    then have "half_to_f32 h = push_bit 31 ?S" by (simp add: half_to_f32_def)
    then show ?thesis using 1 f32_to_half_zero[OF w(1)] fields by (simp add: half_nan_def)
  next
    case 2
    then have "?u \<noteq> 0" using zero by simp
    then obtain hi where hi: "bit ?u hi" "hi < 10" "\<And>j. bit ?u j \<Longrightarrow> j \<le> hi" using hi_bit withinD[OF w(3)] by metis
    have "f32_to_half (half_to_f32 h) mode = half_of ?S 0 ?u"
      using half_to_f32_subnormal[OF 2(1) refl hi] f32_to_half_subnormal[OF w(1) hi] by metis
    then show ?thesis using 2 fields by (simp add: half_nan_def)
  next
    case 3
    then have "half_to_f32 h = push_bit 31 ?S OR 0x7f800000 OR push_bit 13 ?u" by (simp add: half_to_f32_def)
    then have r: "f32_to_half (half_to_f32 h) mode = (if ?t = 0 then half_of ?S 31 0 else half_of ?S 31 (?u OR 0x200))"
      using f32_to_half_special[OF w(1) w(3)] zero by simp
    show ?thesis
    proof (cases "?t = 0")
      case True
      then have "half_of ?S 31 0 = h" using fields 3 by simp
      then show ?thesis using True r by (simp add: half_nan_def)
    qed (use 3 r half_of_quiet[OF 3] in \<open>simp add: half_nan_def\<close>)
  next
    case 4
    let ?y = "ucast ?x :: u32"
    have u: "unat ?y = unat ?x" using x by (simp add: unsigned_ucast_eq take_bit_nat_eq_self)
    have "unat ?x \<noteq> 0" "unat ?x \<noteq> 31" using 4 by (simp_all add: word_unat_eq_iff)
    then have b: "1 \<le> unat ?y" "unat ?y \<le> 30" using x u by linarith+
    have "half_to_f32 h = push_bit 31 ?S OR push_bit 23 (?y + 112) OR push_bit 13 ?u"
      using half_to_f32_normal b by blast
    then show ?thesis using f32_to_half_normal[OF w(1) b w(3)] fields u 4 by (simp add: half_of_hidden half_nan_def)
  qed
qed

end
