(* ===== verification/Rw_Core.thy ===== *)
theory Rw_Core
  imports Iced
begin

text \<open>
  The region rewriter, \<^verbatim>\<open>host/crates/avx512-xlate/src/rewrite.rs\<close>: what a site becomes, the
  fields of the EVEX prefix, memory operands, and the emitter \<^verbatim>\<open>Em\<close>, which appends the bytes
  of a sequence and remembers what it clobbered.  Every method \<^verbatim>\<open>m\<close> of \<^verbatim>\<open>Em\<close> is a function
  \<open>em_m\<close> from the emitter to the emitter.  A panic, a refusal and a result are the three
  outcomes of the rewriting functions.
\<close>

section \<open>The decoded instruction\<close>

text \<open>
  What the rewriter reads beside the accessors of \<^typ>\<open>xinsn\<close>: the encoding, the length in bytes, the
  text, and whether the memory operand is a 64-bit integer.
\<close>

datatype encoding = Enc_EVEX | Enc_VEX | Enc_Other

record zinsn = xinsn +
  encoding_of :: encoding
  xlen :: nat
  shown :: string
  mem_int64 :: bool

section \<open>Results\<close>

record unsupported =
  utext :: string
  reason :: string

definition refuse :: "zinsn \<Rightarrow> string \<Rightarrow> unsupported" where
  "refuse i r = \<lparr>utext = shown i, reason = r\<rparr>"

datatype 'a outcome = Panics | Refused unsupported | Okay 'a

text \<open>The \<^verbatim>\<open>?\<close> operator, an unwrapped option, and the first \<open>n\<close> bytes of a slice.\<close>

fun attempt :: "'a outcome \<Rightarrow> ('a \<Rightarrow> 'b outcome) \<Rightarrow> 'b outcome" where
  "attempt Panics f = Panics"
| "attempt (Refused u) f = Refused u"
| "attempt (Okay x) f = f x"

definition unwrap :: "'a option \<Rightarrow> 'a outcome" where
  "unwrap x = (case x of None \<Rightarrow> Panics | Some v \<Rightarrow> Okay v)"

definition ok_or_refuse :: "zinsn \<Rightarrow> string \<Rightarrow> 'a option \<Rightarrow> 'a outcome" where
  "ok_or_refuse i r x = (case x of None \<Rightarrow> Refused (refuse i r) | Some v \<Rightarrow> Okay v)"

definition first_bytes :: "nat \<Rightarrow> bytes \<Rightarrow> bytes outcome" where
  "first_bytes n bs = (if n \<le> length bs then Okay (take n bs) else Panics)"

text \<open>The same, of which the bytes up to the index \<open>k\<close> are then written.\<close>

definition writable_bytes :: "nat \<Rightarrow> nat \<Rightarrow> bytes \<Rightarrow> bytes outcome" where
  "writable_bytes k n bs = (if n \<le> length bs \<and> k < n then Okay (take n bs) else Panics)"

section \<open>What a site becomes\<close>

datatype fixup_kind = FK_Const nat | FK_Rip u64

record fixup =
  disp_at :: nat
  insn_end :: nat
  what :: fixup_kind

record thunk =
  seq :: bytes
  fixups :: "fixup list"
  constants :: "bytes list"

datatype rewriting = In_place bytes | Out_of_line thunk

section \<open>The scratch area\<close>

record target =
  scratch :: i32

definition S_ZMM :: "i32 list" where "S_ZMM = [0, 64, 128, 192, 256, 320]"
definition S_RAX :: i32 where "S_RAX = 384"
definition S_RCX :: i32 where "S_RCX = 392"
definition S_K :: i32 where "S_K = 400"
definition S_GPR :: i32 where "S_GPR = 408"
definition S_FLAGS :: i32 where "S_FLAGS = 416"
definition S_CW :: i32 where "S_CW = 424"
definition S_CW2 :: i32 where "S_CW2 = 428"
definition S_XFER :: i32 where "S_XFER = 448"

section \<open>Registers\<close>

fun vreg :: "xreg \<Rightarrow> u8 option" where
  "vreg (Vec n s) = (if s = 64 \<or> s = 32 \<or> s = 16 then Some (of_nat n) else None)"
| "vreg _ = None"

fun kreg :: "xreg \<Rightarrow> u8 option" where
  "kreg (Mask n) = Some (of_nat n)"
| "kreg _ = None"

fun gpr :: "xreg \<Rightarrow> (u8 \<times> bool) option" where
  "gpr (Gp n s) = (if s = 8 then Some (of_nat n, True) else if s = 4 then Some (of_nat n, False) else None)"
| "gpr _ = None"

section \<open>The EVEX prefix\<close>

record ev =
  e_map :: u8
  e_pp :: u8
  e_w :: u8
  e_ll :: u8
  e_z :: bool
  e_b :: bool
  e_aaa :: u8
  e_op :: u8
  e_modrm :: u8
  e_reg :: u8
  e_vvvv :: u8
  e_rm :: u8
  e_is_reg_rm :: bool

definition parse :: "bytes \<Rightarrow> ev" where
  "parse bs =
     (let p0 = bs ! 1; p1 = bs ! 2; p2 = bs ! 3; modrm = bs ! 5 in
      \<lparr>e_map = p0 AND 3, e_pp = p1 AND 3, e_w = drop_bit 7 p1, e_ll = drop_bit 5 p2 AND 3,
       e_z = (drop_bit 7 p2 = 1), e_b = (drop_bit 4 p2 AND 1 = 1), e_aaa = p2 AND 7, e_op = bs ! 4,
       e_modrm = modrm,
       e_reg = (drop_bit 3 modrm AND 7) OR push_bit 3 (drop_bit 7 (NOT p0) AND 1)
                 OR push_bit 4 (drop_bit 4 (NOT p0) AND 1),
       e_vvvv = (drop_bit 3 (NOT p1) AND 0xf) OR push_bit 4 (drop_bit 3 (NOT p2) AND 1),
       e_rm = (modrm AND 7) OR push_bit 3 (drop_bit 5 (NOT p0) AND 1) OR push_bit 4 (drop_bit 6 (NOT p0) AND 1),
       e_is_reg_rm = (drop_bit 6 modrm = 3)\<rparr>)"

section \<open>Memory operands\<close>

text \<open>The displacement is an \<^verbatim>\<open>i64\<close>, as a word.\<close>

record mem_op =
  base :: "u8 option"
  index :: "u8 option"
  scale :: u8
  disp :: u64
  rip :: "u64 option"

definition mem_of :: "zinsn \<Rightarrow> mem_op option" where
  "mem_of i =
     (if \<not> list_ex (\<lambda>n. xkind i n = K_Memory) [0 ..< xcount i] then None
      else if ip_rel i then Some \<lparr>base = None, index = None, scale = 0, disp = 0, rip = Some (ip_rel_address i)\<rparr>
      else Some \<lparr>base = map_option fst (gpr (mem_base i)), index = map_option fst (gpr (mem_index i)),
                 scale = (if mem_scale i = 1 then 0 else if mem_scale i = 2 then 1 else if mem_scale i = 4 then 2 else 3),
                 disp = mem_disp i, rip = None\<rparr>)"

definition mem_plus :: "u64 \<Rightarrow> mem_op \<Rightarrow> mem_op" where
  "mem_plus d m = m\<lparr>disp := disp m + d, rip := map_option (\<lambda>r. r + d) (rip m)\<rparr>"

text \<open>The r/m operand of an emitted instruction.\<close>

datatype rm = Rm_Reg u8 | Rm_Mem mem_op | Rm_Fs i32 | Rm_Const nat

section \<open>The emitter\<close>

text \<open>\<^verbatim>\<open>Em\<close> extends the thunk it builds, its field \<^verbatim>\<open>t\<close>.\<close>

record em = thunk +
  tg :: target
  reserved :: u32
  temps :: "(u8 \<times> nat) list"
  kscr :: u8
  k_used :: bool
  rax_used :: bool
  rcx_used :: bool
  flags_used :: bool
  tail :: "(u8 \<times> bool \<times> i32) list"
  flags_out :: "i32 option"

definition reg_operands :: "zinsn \<Rightarrow> xreg list" where
  "reg_operands i = map (xreg_of i) (filter (\<lambda>n. xkind i n = K_Register) [0 ..< xcount i])"

definition reserve :: "xreg \<Rightarrow> u32 \<Rightarrow> u32" where
  "reserve r w = (case vreg r of None \<Rightarrow> w | Some z \<Rightarrow> w OR push_bit (unat z) 1)"

definition kmark :: "xreg \<Rightarrow> u8 \<Rightarrow> u8" where
  "kmark r w = (case kreg r of None \<Rightarrow> w | Some k \<Rightarrow> w OR push_bit (unat k) 1)"

definition em_new :: "target \<Rightarrow> zinsn \<Rightarrow> em" where
  "em_new t i =
     (let kmask = kmark (xmask i) (fold kmark (reg_operands i) 0) in
      \<lparr>seq = [], fixups = [], constants = [], tg = t, reserved = fold reserve (reg_operands i) 0, temps = [],
       kscr = (case List.find (\<lambda>k. kmask AND push_bit (unat k) 1 = 0) [7, 6, 5, 4, 3, 2, 1] of None \<Rightarrow> 7 | Some k \<Rightarrow> k),
       k_used = False, rax_used = False, rcx_used = False, flags_used = False, tail = [], flags_out = None\<rparr>)"

definition em_push :: "bytes \<Rightarrow> em \<Rightarrow> em" where
  "em_push bs e = e\<lparr>seq := seq e @ bs\<rparr>"

definition em_fix :: "nat \<Rightarrow> fixup_kind \<Rightarrow> em \<Rightarrow> em" where
  "em_fix d w e = e\<lparr>fixups := fixups e @ [\<lparr>disp_at = d, insn_end = length (seq e), what = w\<rparr>]\<rparr>"

definition em_fs :: "i32 \<Rightarrow> em \<Rightarrow> i32" where
  "em_fs off e = scratch (tg e) + off"

text \<open>ModRM and SIB of a memory operand that is not RIP-relative; a 32-bit displacement follows.\<close>

definition modrm_sib :: "u8 \<Rightarrow> mem_op \<Rightarrow> bytes" where
  "modrm_sib r3 m =
     (case (base m, index m) of
        (Some b, None) \<Rightarrow> if b AND 7 \<noteq> 4 then [0x80 OR r3 OR (b AND 7)] else [0x84 OR r3, 0x24]
      | (Some b, Some i) \<Rightarrow> [0x84 OR r3, push_bit 6 (scale m) OR push_bit 3 (i AND 7) OR (b AND 7)]
      | (None, Some i) \<Rightarrow> [0x04 OR r3, push_bit 6 (scale m) OR push_bit 3 (i AND 7) OR 5]
      | (None, None) \<Rightarrow> [0x04 OR r3, 0x25])"

text \<open>
  One MVEX.512 instruction.  \<open>operand_bytes\<close> is the r/m operand with, for a displacement that
  depends on where the thunk lands, what it is relative to; it starts after the ModRM byte.
\<close>

definition operand_bytes :: "u8 \<Rightarrow> rm \<Rightarrow> em \<Rightarrow> bytes \<times> fixup_kind option" where
  "operand_bytes r3 r e =
     (case r of
        Rm_Reg n \<Rightarrow> ([0xc0 OR r3 OR (n AND 7)], None)
      | Rm_Fs off \<Rightarrow> ([0x04 OR r3, 0x25] @ le_bytes32 (em_fs off e), None)
      | Rm_Const n \<Rightarrow> ([0x05 OR r3, 0, 0, 0, 0], Some (FK_Const n))
      | Rm_Mem m \<Rightarrow>
          (case rip m of
             Some a \<Rightarrow> ([0x05 OR r3, 0, 0, 0, 0], Some (FK_Rip a))
           | None \<Rightarrow> (modrm_sib r3 m @ le_bytes32 (ucast (disp m)), None)))"

definition mvex_prefix :: "u8 \<Rightarrow> u8 \<Rightarrow> u8 \<Rightarrow> u8 \<Rightarrow> u8 \<Rightarrow> u8 \<Rightarrow> rm \<Rightarrow> u8 \<Rightarrow> u8 \<Rightarrow> bytes" where
  "mvex_prefix mp pp w opc reg vvvv r k sss =
     (let xbar = (case r of Rm_Reg n \<Rightarrow> NOT (drop_bit 4 n) AND 1
                  | Rm_Mem m \<Rightarrow> (case index m of None \<Rightarrow> 1 | Some i \<Rightarrow> NOT (drop_bit 3 i) AND 1)
                  | _ \<Rightarrow> 1);
          bbar = (case r of Rm_Reg n \<Rightarrow> NOT (drop_bit 3 n) AND 1
                  | Rm_Mem m \<Rightarrow> (case base m of None \<Rightarrow> 1 | Some b \<Rightarrow> NOT (drop_bit 3 b) AND 1)
                  | _ \<Rightarrow> 1);
          p0 = push_bit 7 (NOT (drop_bit 3 reg) AND 1) OR push_bit 6 xbar OR push_bit 5 bbar
                 OR push_bit 4 (NOT (drop_bit 4 reg) AND 1) OR mp;
          p1 = push_bit 7 w OR push_bit 3 (NOT vvvv AND 0xf) OR pp;
          p2 = push_bit 4 sss OR push_bit 3 (NOT (drop_bit 4 vvvv) AND 1) OR (k AND 7) in
      (case r of Rm_Fs _ \<Rightarrow> [0x64] | _ \<Rightarrow> []) @ [0x62, p0, p1, p2, opc])"

definition em_mvex :: "u8 \<Rightarrow> u8 \<Rightarrow> u8 \<Rightarrow> u8 \<Rightarrow> u8 \<Rightarrow> u8 \<Rightarrow> rm \<Rightarrow> u8 \<Rightarrow> u8 \<Rightarrow> u8 option \<Rightarrow> em \<Rightarrow> em" where
  "em_mvex mp pp w opc reg vvvv r k sss imm e =
     (let e = em_push (mvex_prefix mp pp w opc reg vvvv r k sss) e;
          at = length (seq e) + 1;
          (bs, fix) = operand_bytes (push_bit 3 (reg AND 7)) r e;
          e = em_push bs e;
          e = (case imm of None \<Rightarrow> e | Some i \<Rightarrow> em_push [i] e) in
      (case fix of None \<Rightarrow> e | Some w \<Rightarrow> em_fix at w e))"

section \<open>Mask and integer instructions\<close>

definition em_vexk :: "u8 \<Rightarrow> u8 \<Rightarrow> u8 \<Rightarrow> em \<Rightarrow> em" where
  "em_vexk opc reg r e =
     (if reg < 8 \<and> r < 8 then em_push [0xc5, 0xf8, opc, 0xc0 OR push_bit 3 reg OR r] e
      else em_push [0xc4, push_bit 7 (NOT (drop_bit 3 reg) AND 1) OR push_bit 6 1
                           OR push_bit 5 (NOT (drop_bit 3 r) AND 1) OR 1,
                    0x78, opc, 0xc0 OR push_bit 3 (reg AND 7) OR (r AND 7)] e)"

definition em_kand :: "u8 \<Rightarrow> u8 \<Rightarrow> em \<Rightarrow> em" where "em_kand = em_vexk 0x41"
definition em_knot :: "u8 \<Rightarrow> u8 \<Rightarrow> em \<Rightarrow> em" where "em_knot = em_vexk 0x44"
definition em_kor :: "u8 \<Rightarrow> u8 \<Rightarrow> em \<Rightarrow> em" where "em_kor = em_vexk 0x45"
definition em_kmov_kk :: "u8 \<Rightarrow> u8 \<Rightarrow> em \<Rightarrow> em" where "em_kmov_kk = em_vexk 0x90"
definition em_kmov_k_r :: "u8 \<Rightarrow> u8 \<Rightarrow> em \<Rightarrow> em" where "em_kmov_k_r = em_vexk 0x92"
definition em_kmov_r_k :: "u8 \<Rightarrow> u8 \<Rightarrow> em \<Rightarrow> em" where "em_kmov_r_k = em_vexk 0x93"

definition em_gpr_scratch :: "u8 \<Rightarrow> bool \<Rightarrow> i32 \<Rightarrow> bool \<Rightarrow> em \<Rightarrow> em" where
  "em_gpr_scratch r wide off store e =
     (let rex = 0x40 OR push_bit 3 (of_bool wide) OR (drop_bit 3 r AND 1) in
      em_push ([0x64] @ (if rex \<noteq> 0x40 then [rex] else [])
               @ [if store then 0x89 else 0x8b, 0x04 OR push_bit 3 (r AND 7), 0x25] @ le_bytes32 (em_fs off e)) e)"

definition em_rax :: "em \<Rightarrow> em" where
  "em_rax e = (if rax_used e then e else em_gpr_scratch 0 True S_RAX True (e\<lparr>rax_used := True\<rparr>))"

definition em_rcx :: "em \<Rightarrow> em" where
  "em_rcx e = (if rcx_used e then e else em_gpr_scratch 1 True S_RCX True (e\<lparr>rcx_used := True\<rparr>))"

text \<open>
  The scratch mask register, saved on first use.  The methods that return it are functions to the
  emitter here: the register is \<open>kscr\<close> of the emitter, which no method changes.
\<close>

definition em_k :: "em \<Rightarrow> em" where
  "em_k e =
     (if k_used e then e
      else (let e = em_rax (e\<lparr>k_used := True\<rparr>);
                e = em_kmov_r_k 0 (kscr e) e in
            em_gpr_scratch 0 True S_K True e))"

definition em_flags :: "em \<Rightarrow> em" where
  "em_flags e =
     (if flags_used e then e
      else (let e = em_rax (e\<lparr>flags_used := True\<rparr>);
                e = em_push [0x9f, 0x0f, 0x90, 0xc0] e in
            em_gpr_scratch 0 True S_FLAGS True e))"

definition em_mov_eax :: "u32 \<Rightarrow> em \<Rightarrow> em" where
  "em_mov_eax v e = (let e = em_rax e in em_push ([0xb8] @ le_bytes32 v) e)"

definition em_mask_imm :: "u16 \<Rightarrow> em \<Rightarrow> em" where
  "em_mask_imm v e =
     (let e = em_k e;
          e = em_mov_eax (ucast v) e in
      em_kmov_k_r (kscr e) 0 e)"

section \<open>Temporaries and constants\<close>

definition R_NO_REG :: string where "R_NO_REG = ''no free vector register''"
definition R_NO_SLOT :: string where "R_NO_SLOT = ''more temporaries than scratch slots''"

text \<open>A temporary register, its value kept in the scratch area; its error mapped to a refusal.\<close>

definition em_temp :: "zinsn \<Rightarrow> em \<Rightarrow> (u8 \<times> em) outcome" where
  "em_temp i e =
     (case List.find (\<lambda>z. reserved e AND push_bit (unat z) 1 = 0) (map of_nat [0 ..< 32]) of
        None \<Rightarrow> Refused (refuse i R_NO_REG)
      | Some z \<Rightarrow>
          (let slot = length (temps e) in
           if length S_ZMM \<le> slot then Refused (refuse i R_NO_SLOT)
           else (let e = e\<lparr>reserved := reserved e OR push_bit (unat z) 1, temps := temps e @ [(z, slot)]\<rparr> in
                 Okay (z, em_mvex 1 0 0 0x29 z 0 (Rm_Fs (S_ZMM ! slot)) 0 0 None e))))"

fun position :: "'a \<Rightarrow> 'a list \<Rightarrow> nat option" where
  "position x [] = None"
| "position x (y # ys) = (if y = x then Some 0 else map_option Suc (position x ys))"

definition em_constant :: "bytes \<Rightarrow> em \<Rightarrow> nat \<times> em" where
  "em_constant c e =
     (case position c (constants e) of
        Some i \<Rightarrow> (i, e)
      | None \<Rightarrow> (length (constants e), e\<lparr>constants := constants e @ [c]\<rparr>))"

text \<open>Sixteen dwords, one dword sixteen times, one qword eight times.\<close>

definition em_const_dws :: "u32 list \<Rightarrow> em \<Rightarrow> nat \<times> em" where
  "em_const_dws v = em_constant (concat (map le_bytes32 v))"

definition em_const_dw :: "u32 \<Rightarrow> em \<Rightarrow> nat \<times> em" where
  "em_const_dw v = em_constant (concat (replicate 16 (le_bytes32 v)))"

definition le_bytes64 :: "u64 \<Rightarrow> bytes" where
  "le_bytes64 v = le_bytes32 (ucast v) @ le_bytes32 (ucast (drop_bit 32 v))"

definition em_const_qw :: "u64 \<Rightarrow> em \<Rightarrow> nat \<times> em" where
  "em_const_qw v = em_constant (concat (replicate 8 (le_bytes64 v)))"

end
