(* ===== verification/Rw_Emit.thy ===== *)
theory Rw_Emit
  imports Rw_Core
begin

text \<open>
  The instructions the sequences of \<^verbatim>\<open>host/crates/avx512-xlate/src/rewrite.rs\<close> are made of, the
  steps they share (\<^verbatim>\<open>commit\<close>, \<^verbatim>\<open>src2\<close>, the qword compares), the restores of \<^verbatim>\<open>finish\<close>, and
  \<^verbatim>\<open>thunk_bytes\<close>, which lays a sequence out.
\<close>

section \<open>The vector instructions the sequences use\<close>

definition em_vmov :: "u8 \<Rightarrow> rm \<Rightarrow> u8 \<Rightarrow> u8 \<Rightarrow> em \<Rightarrow> em" where
  "em_vmov d s k w = em_mvex 1 w w 0x28 d 0 s k 0 None"

definition em_zero :: "u8 \<Rightarrow> u8 \<Rightarrow> u8 \<Rightarrow> em \<Rightarrow> em" where
  "em_zero d k w = em_mvex 1 1 w 0xEF d d (Rm_Reg d) k 0 None"

definition em_zero_lanes :: "u8 \<Rightarrow> u16 \<Rightarrow> em \<Rightarrow> em" where
  "em_zero_lanes d v e = (if v \<noteq> 0 then (let e = em_mask_imm v e in em_zero d (kscr e) 0 e) else e)"

definition em_vpshufd :: "u8 \<Rightarrow> rm \<Rightarrow> u8 \<Rightarrow> u8 \<Rightarrow> em \<Rightarrow> em" where
  "em_vpshufd d s imm k = em_mvex 1 1 0 0x70 d 0 s k 0 (Some imm)"

definition em_vpermf32x4 :: "u8 \<Rightarrow> rm \<Rightarrow> u8 \<Rightarrow> u8 \<Rightarrow> em \<Rightarrow> em" where
  "em_vpermf32x4 d s imm k = em_mvex 3 1 0 0x07 d 0 s k 0 (Some imm)"

definition em_vpermd :: "u8 \<Rightarrow> u8 \<Rightarrow> rm \<Rightarrow> u8 \<Rightarrow> em \<Rightarrow> em" where
  "em_vpermd d idx s k = em_mvex 2 1 0 0x36 d idx s k 0 None"

definition em_valignd :: "u8 \<Rightarrow> u8 \<Rightarrow> rm \<Rightarrow> u8 \<Rightarrow> u8 \<Rightarrow> em \<Rightarrow> em" where
  "em_valignd d s1 s2 imm k = em_mvex 3 1 0 0x03 d s1 s2 k 0 (Some imm)"

definition em_i38 :: "u8 \<Rightarrow> u8 \<Rightarrow> u8 \<Rightarrow> rm \<Rightarrow> u8 \<Rightarrow> em \<Rightarrow> em" where
  "em_i38 opc d s1 s2 k = em_mvex 2 1 0 opc d s1 s2 k 0 None"

definition em_i0f :: "u8 \<Rightarrow> u8 \<Rightarrow> u8 \<Rightarrow> rm \<Rightarrow> u8 \<Rightarrow> u8 \<Rightarrow> em \<Rightarrow> em" where
  "em_i0f opc d s1 s2 k w = em_mvex 1 1 w opc d s1 s2 k 0 None"

definition em_shift_imm :: "u8 \<Rightarrow> u8 \<Rightarrow> rm \<Rightarrow> u8 \<Rightarrow> u8 \<Rightarrow> em \<Rightarrow> em" where
  "em_shift_imm which d s n k = em_mvex 1 1 0 0x72 which d s k 0 (Some n)"

definition em_vcmp :: "u8 \<Rightarrow> u8 \<Rightarrow> rm \<Rightarrow> u8 \<Rightarrow> u8 \<Rightarrow> u8 \<Rightarrow> u8 \<Rightarrow> em \<Rightarrow> em" where
  "em_vcmp kd s1 s2 pred k w sss = em_mvex 1 w w 0xC2 kd s1 s2 k sss (Some pred)"

definition em_load_unaligned :: "u8 \<Rightarrow> mem_op \<Rightarrow> u8 \<Rightarrow> u8 \<Rightarrow> bool \<Rightarrow> u8 \<Rightarrow> em \<Rightarrow> em" where
  "em_load_unaligned d m k w float sss e =
     (let lo = (if float then 0xD1 else 0xD0);
          e = em_mvex 2 0 w lo d 0 (Rm_Mem m) k sss None e in
      em_mvex 2 0 w (lo + 4) d 0 (Rm_Mem (mem_plus 64 m)) k sss None e)"

definition em_store_unaligned :: "mem_op \<Rightarrow> u8 \<Rightarrow> u8 \<Rightarrow> u8 \<Rightarrow> bool \<Rightarrow> u8 \<Rightarrow> em \<Rightarrow> em" where
  "em_store_unaligned m s k w float sss e =
     (let lo = (if float then 0xD1 else 0xD0);
          e = em_mvex 2 1 w lo s 0 (Rm_Mem m) k sss None e in
      em_mvex 2 1 w (lo + 4) s 0 (Rm_Mem (mem_plus 64 m)) k sss None e)"

definition em_load_block :: "u8 \<Rightarrow> rm \<Rightarrow> u8 \<Rightarrow> bool \<Rightarrow> em \<Rightarrow> em" where
  "em_load_block d m k half =
     (if half then em_mvex 2 1 1 0x5B d 0 m k 0 None else em_mvex 2 1 0 0x5A d 0 m k 0 None)"

definition em_broadcast :: "u8 \<Rightarrow> rm \<Rightarrow> u8 \<Rightarrow> u8 \<Rightarrow> em \<Rightarrow> em" where
  "em_broadcast d m k w = em_mvex 2 1 w (0x18 OR w) d 0 m k 0 None"

definition em_fma :: "u8 \<Rightarrow> u8 \<Rightarrow> u8 \<Rightarrow> rm \<Rightarrow> u8 \<Rightarrow> em \<Rightarrow> em" where
  "em_fma opc d s1 s2 w = em_mvex 2 1 w opc d s1 s2 0 0 None"

definition em_vmulp :: "u8 \<Rightarrow> u8 \<Rightarrow> rm \<Rightarrow> u8 \<Rightarrow> em \<Rightarrow> em" where
  "em_vmulp d s1 s2 w = em_mvex 1 w w 0x59 d s1 s2 0 0 None"

section \<open>Integer code of the sequences\<close>

text \<open>The bits of a qword-lane mask, each on both dword lanes, cut to \<open>limit\<close>.\<close>

definition dmask_code :: "u16 \<Rightarrow> bytes" where
  "dmask_code limit =
     [0x0f, 0xb6, 0xc0, 0x89, 0xc1, 0xc1, 0xe1, 0x04, 0x09, 0xc8, 0x25, 0x0f, 0x0f, 0x00, 0x00]
     @ [0x89, 0xc1, 0xc1, 0xe1, 0x02, 0x09, 0xc8, 0x25, 0x33, 0x33, 0x00, 0x00]
     @ [0x89, 0xc1, 0xd1, 0xe1, 0x09, 0xc8, 0x25, 0x55, 0x55, 0x00, 0x00]
     @ [0x89, 0xc1, 0xd1, 0xe1, 0x09, 0xc8, 0x25] @ le_bytes32 (ucast limit)"

definition em_qmask_to_dmask :: "u8 \<Rightarrow> u16 \<Rightarrow> em \<Rightarrow> em" where
  "em_qmask_to_dmask k limit e =
     (let e = em_k e;
          e = em_flags e;
          e = em_rcx e;
          e = em_kmov_r_k 0 k e;
          e = em_push (dmask_code limit) e in
      em_kmov_k_r (kscr e) 0 e)"

definition em_fs_op :: "bytes \<Rightarrow> u8 \<Rightarrow> i32 \<Rightarrow> em \<Rightarrow> em" where
  "em_fs_op opcodes reg off e =
     em_push ([0x64] @ opcodes @ [0x04 OR push_bit 3 reg, 0x25] @ le_bytes32 (em_fs off e)) e"

text \<open>The even bits of eax packed down, each even bit of eax copied to the odd bit above it.\<close>

definition pack_even_code :: bytes where
  "pack_even_code =
     [0x25, 0x55, 0x55, 0x00, 0x00]
     @ [0x89, 0xc1, 0xd1, 0xe9, 0x09, 0xc8, 0x25, 0x33, 0x33, 0x00, 0x00]
     @ [0x89, 0xc1, 0xc1, 0xe9, 0x02, 0x09, 0xc8, 0x25, 0x0f, 0x0f, 0x00, 0x00]
     @ [0x89, 0xc1, 0xc1, 0xe9, 0x04, 0x09, 0xc8, 0x25, 0xff, 0x00, 0x00, 0x00]"

definition pack_even :: "em \<Rightarrow> em" where "pack_even = em_push pack_even_code"

definition spread_even_code :: bytes where
  "spread_even_code = [0x25, 0x55, 0x55, 0x00, 0x00] @ [0x89, 0xc1, 0xd1, 0xe1, 0x09, 0xc8]"

definition spread_even :: "em \<Rightarrow> em" where "spread_even = em_push spread_even_code"

definition and_eax :: "u32 \<Rightarrow> em \<Rightarrow> em" where
  "and_eax imm = em_push ([0x25] @ le_bytes32 imm)"

text \<open>Each qword lane's lt into eax and its eq into the scratch slot, both on the even bits.\<close>

definition qword_lt_eq :: "u8 \<Rightarrow> u8 \<Rightarrow> bool \<Rightarrow> em \<Rightarrow> em" where
  "qword_lt_eq a b signd e =
     (let e = em_k e;
          e = em_flags e;
          e = em_rcx e;
          e = em_mvex 1 1 0 0x76 (kscr e) a (Rm_Reg b) 0 0 None e;
          e = em_kmov_r_k 0 (kscr e) e;
          e = em_push [0x89, 0xc1, 0xd1, 0xe9, 0x21, 0xc1] e;
          e = em_gpr_scratch 1 False S_XFER True e;
          e = em_push [0xd1, 0xe8] e;
          e = em_mvex 3 1 0 0x1E (kscr e) a (Rm_Reg b) 0 0 (Some 1) e;
          e = em_kmov_r_k 1 (kscr e) e;
          e = em_push [0x21, 0xc8] e;
          e = em_gpr_scratch 0 False (S_XFER + 8) True e;
          e = (if signd
               then (let e = em_mvex 3 1 0 0x1F (kscr e) a (Rm_Reg b) 0 0 (Some 1) e in em_kmov_r_k 0 (kscr e) e)
               else em_push [0x89, 0xc8] e);
          e = em_push [0xd1, 0xe8] e in
      em_fs_op [0x0b] 0 (S_XFER + 8) e)"

text \<open>A general-register memory operand of a legacy instruction, without the REX bits of its registers.\<close>

definition em_mem_modrm :: "u8 \<Rightarrow> mem_op \<Rightarrow> em \<Rightarrow> em" where
  "em_mem_modrm reg m e =
     (let r3 = push_bit 3 (reg AND 7) in
      case rip m of
        Some a \<Rightarrow>
          (let e = em_push [0x05 OR r3] e; at = length (seq e); e = em_push [0, 0, 0, 0] e in em_fix at (FK_Rip a) e)
      | None \<Rightarrow> em_push (modrm_sib r3 m @ le_bytes32 (ucast (disp m))) e)"

definition or_zero :: "u8 option \<Rightarrow> u8" where
  "or_zero x = (case x of None \<Rightarrow> 0 | Some v \<Rightarrow> v)"

definition em_store_rax :: "mem_op \<Rightarrow> bool \<Rightarrow> em \<Rightarrow> em" where
  "em_store_rax m wide e =
     (let rex = 0x40 OR push_bit 3 (of_bool wide) OR push_bit 1 (drop_bit 3 (or_zero (index m)) AND 1)
                  OR (drop_bit 3 (or_zero (base m)) AND 1);
          e = (if rex \<noteq> 0x40 then em_push [rex] e else e);
          e = em_push [0x89] e in
      em_mem_modrm 0 m e)"

section \<open>Finishing a sequence\<close>

definition em_gpr_result :: "u8 \<Rightarrow> bool \<Rightarrow> i32 \<Rightarrow> em \<Rightarrow> em" where
  "em_gpr_result r wide off e = e\<lparr>tail := tail e @ [(r, wide, off)]\<rparr>"

definition restore_temp :: "u8 \<times> nat \<Rightarrow> em \<Rightarrow> em" where
  "restore_temp zs = em_mvex 1 0 0 0x28 (fst zs) 0 (Rm_Fs (S_ZMM ! snd zs)) 0 0 None"

definition load_tail :: "u8 \<times> bool \<times> i32 \<Rightarrow> em \<Rightarrow> em" where
  "load_tail t = em_gpr_scratch (fst t) (fst (snd t)) (snd (snd t)) False"

definition em_finish :: "em \<Rightarrow> thunk" where
  "em_finish e =
     (let ts = temps e; e = e\<lparr>temps := []\<rparr>;
          e = fold restore_temp (rev ts) e;
          e = (if flags_used e then (let e = em_gpr_scratch 0 True S_FLAGS False e in em_push [0x04, 0x7f, 0x9e] e) else e);
          e = (if k_used e then (let e = em_gpr_scratch 0 True S_K False e in em_kmov_k_r (kscr e) 0 e) else e);
          e = (if rcx_used e then em_gpr_scratch 1 True S_RCX False e else e);
          e = (if rax_used e then em_gpr_scratch 0 True S_RAX False e else e);
          tl = tail e; e = e\<lparr>tail := []\<rparr>;
          e = fold load_tail tl e;
          e = (case flags_out e of
                 None \<Rightarrow> e
               | Some off \<Rightarrow> em_push ([0x85, 0xc0] @ [0x64, 0x8a, 0x24, 0x25] @ le_bytes32 (em_fs off e) @ [0x9e]
                                    @ [0x64, 0x8a, 0x24, 0x25] @ le_bytes32 (em_fs (S_RAX + 1) e)) e) in
      thunk.truncate e)"

definition finished :: "em \<Rightarrow> rewriting outcome" where
  "finished e = Okay (Out_of_line (em_finish e))"

section \<open>Vector lengths, the result and the second source\<close>

definition vl_lanes :: "u8 \<Rightarrow> u8 \<Rightarrow> u16" where
  "vl_lanes ll w =
     (if w = 0 \<and> ll = 0 then 0x000f else if w = 0 \<and> ll = 1 then 0x00ff else if w = 0 \<and> ll = 2 then 0xffff
      else if ll = 0 then 0x0003 else if ll = 1 then 0x000f else 0x00ff)"

definition upper :: "u8 \<Rightarrow> u16" where
  "upper ll = (if ll = 0 then 0xfff0 else if ll = 1 then 0xff00 else 0)"

text \<open>The result in \<open>r\<close> written to \<open>d\<close> under the mask and the length of the instruction.\<close>

definition commit :: "u8 \<Rightarrow> u8 \<Rightarrow> ev \<Rightarrow> em \<Rightarrow> em" where
  "commit d r v e =
     (let full = (e_ll v = 2);
          e = (if r \<noteq> d \<or> \<not> full \<or> e_aaa v \<noteq> 0 then
                 (let e = (if full \<and> e_aaa v = 0 then e
                           else (let e = em_mask_imm (vl_lanes (e_ll v) (e_w v)) e in
                                 if e_aaa v \<noteq> 0 then em_kand (kscr e) (e_aaa v) e else e));
                      k = (if full \<and> e_aaa v = 0 then 0 else kscr e);
                      e = (if r \<noteq> d then em_vmov d (Rm_Reg r) k (e_w v) e else e) in
                  if e_z v \<and> e_aaa v \<noteq> 0
                  then (let e = em_k e; e = em_knot (kscr e) k e in em_zero d (kscr e) (e_w v) e) else e)
               else e) in
      if full then e else em_zero_lanes d (upper (e_ll v)) e)"

text \<open>The second source in a register; its unused parameter \<^verbatim>\<open>_elems\<close> is left out.\<close>

definition src2 :: "zinsn \<Rightarrow> ev \<Rightarrow> em \<Rightarrow> (u8 \<times> em) outcome" where
  "src2 i v e =
     (case mem_of i of
        None \<Rightarrow> Okay (e_rm v, e)
      | Some m \<Rightarrow>
          attempt (em_temp i e) (\<lambda>(t, e).
            if e_b v then Okay (t, em_broadcast t (Rm_Mem m) 0 (e_w v) e)
            else (let dm = vl_lanes (e_ll v) 0;
                      e = (if dm = 0xffff then e else em_mask_imm dm e);
                      k = (if dm = 0xffff then 0 else kscr e) in
                  Okay (t, em_load_unaligned t m k 0 False 0 e))))"

definition dest_is_vvvv :: "ev \<Rightarrow> bool" where
  "dest_is_vvvv v \<longleftrightarrow> e_map v = 1 \<and> e_pp v = 1 \<and> (e_op v = 0x72 \<or> e_op v = 0x73 \<or> e_op v = 0x71)"

section \<open>Laying a thunk out\<close>

text \<open>
  The constants go on 64-byte boundaries after the sequence and its jump back; a fixup is the
  distance from the end of its instruction to its target.  An index out of range panics.
\<close>

definition place_const :: "u64 \<Rightarrow> bytes \<Rightarrow> bytes \<times> u64 list \<Rightarrow> bytes \<times> u64 list" where
  "place_const at c st =
     (let (t, ats) = st;
          t = t @ replicate ((64 - unat (at + of_nat (length t)) mod 64) mod 64) 0xcc in
      (t @ c, ats @ [at + of_nat (length t)]))"

definition patch_at :: "nat \<Rightarrow> bytes \<Rightarrow> bytes \<Rightarrow> bytes option" where
  "patch_at p bs t = (if p + length bs \<le> length t then Some (take p t @ bs @ drop (p + length bs) t) else None)"

definition fix_target :: "u64 list \<Rightarrow> fixup_kind \<Rightarrow> u64 option" where
  "fix_target ats w = (case w of FK_Const n \<Rightarrow> if n < length ats then Some (ats ! n) else None | FK_Rip a \<Rightarrow> Some a)"

definition apply_fix :: "u64 \<Rightarrow> u64 list \<Rightarrow> fixup \<Rightarrow> bytes \<Rightarrow> bytes option" where
  "apply_fix at ats f t =
     do { target \<leftarrow> fix_target ats (what f);
          patch_at (disp_at f) (le_bytes32 (ucast (target - (at + of_nat (insn_end f))))) t }"

fun apply_fixes :: "u64 \<Rightarrow> u64 list \<Rightarrow> fixup list \<Rightarrow> bytes \<Rightarrow> bytes option" where
  "apply_fixes at ats [] t = Some t"
| "apply_fixes at ats (f # fs) t = do { t \<leftarrow> apply_fix at ats f t; apply_fixes at ats fs t }"

definition site_bytes :: "u64 \<Rightarrow> u64 \<Rightarrow> nat \<Rightarrow> bytes" where
  "site_bytes at site len =
     (let s = 0xe9 # le_bytes32 (ucast (at - (site + 5))) in s @ replicate (len - length s) 0x90)"

definition thunk_bytes :: "thunk \<Rightarrow> u64 \<Rightarrow> u64 \<Rightarrow> nat \<Rightarrow> u64 \<Rightarrow> (bytes \<times> bytes) option" where
  "thunk_bytes t at site len nxt =
     (let back = nxt - (at + of_nat (length (seq t)) + 5);
          b = seq t @ 0xe9 # le_bytes32 (ucast back);
          (b, ats) = fold (place_const at) (constants t) (b, []) in
      do { b \<leftarrow> apply_fixes at ats (fixups t) b; Some (b, site_bytes at site len) })"

end
