(* ===== verification/Rw_Moves.thy ===== *)
theory Rw_Moves
  imports Rw_Emit
begin

text \<open>
  The families of \<^verbatim>\<open>host/crates/avx512-xlate/src/rewrite.rs\<close> that move lanes: extracts and
  inserts, bitwise functions of three sources, unaligned and scalar moves, scalar arithmetic,
  minima and maxima, broadcasts from registers, and shuffles within 128-bit blocks.
\<close>

section \<open>Extracts and inserts\<close>

definition is_half_extract :: "string \<Rightarrow> bool" where
  "is_half_extract m \<longleftrightarrow> m \<in> {''Vextractf64x4'', ''Vextracti64x4'', ''Vextractf32x8'', ''Vextracti32x8''}"

definition extract_block :: "zinsn \<Rightarrow> ev \<Rightarrow> target \<Rightarrow> rewriting outcome" where
  "extract_block i v tgt =
     (let e = em_new tgt i; s = e_reg v; imm = immediate8 i; half = is_half_extract (mnem i);
          perm = (if half then (if imm AND 1 = 1 then Some 0x4e else None)
                  else if imm AND 3 \<noteq> 0 then Some ((imm AND 3) * 0x55) else None);
          lanes = (if half then 0x00ff else 0x000f) in
      case mem_of i of
        Some m \<Rightarrow>
          attempt (em_temp i e) (\<lambda>(t, e).
            let e = (case perm of Some p \<Rightarrow> em_vpermf32x4 t (Rm_Reg s) p 0 e | None \<Rightarrow> em_vmov t (Rm_Reg s) 0 0 e);
                e = em_mask_imm lanes e;
                span = kscr e in
            if e_aaa v = 0 then finished (em_store_unaligned m t span 0 False 0 e)
            else (let e = (if e_w v = 1 then em_qmask_to_dmask (e_aaa v) lanes e else e);
                      k = (if e_w v = 1 then kscr e else e_aaa v) in
                  attempt (em_temp i e) (\<lambda>(old, e).
                    let e = em_load_unaligned old m span 0 False 0 e;
                        e = em_vmov old (Rm_Reg t) k 0 e in
                    finished (em_store_unaligned m old span 0 False 0 e))))
      | None \<Rightarrow>
          (let d = e_rm v; v2 = v\<lparr>e_ll := (if half then 1 else 0)\<rparr> in
           case perm of
             None \<Rightarrow> finished (commit d s v2 e)
           | Some p \<Rightarrow>
               if e_aaa v \<noteq> 0
               then attempt (em_temp i e) (\<lambda>(t, e). finished (commit d t v2 (em_vpermf32x4 t (Rm_Reg s) p 0 e)))
               else finished (commit d d v2 (em_vpermf32x4 d (Rm_Reg s) p 0 e))))"

definition is_half_insert :: "string \<Rightarrow> bool" where
  "is_half_insert m \<longleftrightarrow> m \<in> {''Vinsertf64x4'', ''Vinserti64x4'', ''Vinsertf32x8'', ''Vinserti32x8''}"

text \<open>A temporary when the condition holds, else the destination.\<close>

definition temp_if :: "bool \<Rightarrow> u8 \<Rightarrow> zinsn \<Rightarrow> em \<Rightarrow> (u8 \<times> em) outcome" where
  "temp_if b d i e = (if b then em_temp i e else Okay (d, e))"

definition insert_block :: "zinsn \<Rightarrow> ev \<Rightarrow> target \<Rightarrow> rewriting outcome" where
  "insert_block i v tgt =
     (let e = em_new tgt i; d = e_reg v; s1 = e_vvvv v; imm = immediate8 i; half = is_half_insert (mnem i) in
      attempt (src2 i v e) (\<lambda>(s2, e).
        let perm = (if half then 0x44 else 0x00);
            block_mask = (if half then (if imm AND 1 = 1 then 0xff00 else 0x00ff)
                          else push_bit (4 * unat (imm AND 3)) (0x000f :: u16)) in
        attempt (temp_if (d = s2 \<or> e_aaa v \<noteq> 0) d i e) (\<lambda>(r, e).
          let e = (if r \<noteq> s1 then em_vmov r (Rm_Reg s1) 0 0 e else e);
              e = em_mask_imm block_mask e;
              e = em_vpermf32x4 r (Rm_Reg s2) perm (kscr e) e in
          finished (commit d r v e))))"

section \<open>Bitwise functions\<close>

text \<open>
  A function of \<open>b\<close> and \<open>c\<close> from its truth table (bit \<open>2 * b + c\<close>) into \<open>t\<close>; \<open>ones\<close> is an
  xor of \<open>s\<close> with all ones.
\<close>

definition ones_xor :: "u8 \<Rightarrow> u8 \<Rightarrow> em \<Rightarrow> em" where
  "ones_xor t s e = (let (n, e) = em_const_dw 0xffffffff e in em_i0f 0xEF t s (Rm_Const n) 0 0 e)"

definition all_ones :: "u8 \<Rightarrow> em \<Rightarrow> em" where
  "all_ones t e = (let (n, e) = em_const_dw 0xffffffff e in em_vmov t (Rm_Const n) 0 0 e)"

definition bool2 :: "u8 \<Rightarrow> u8 \<Rightarrow> u8 \<Rightarrow> u8 \<Rightarrow> u8 \<Rightarrow> em \<Rightarrow> em" where
  "bool2 t b c table w e =
     (let f = table AND 0xf in
      if f = 0x0 then em_zero t 0 w e
      else if f = 0xf then all_ones t e
      else if f = 0xc then em_vmov t (Rm_Reg b) 0 w e
      else if f = 0xa then em_vmov t (Rm_Reg c) 0 w e
      else if f = 0x8 then em_i0f 0xDB t b (Rm_Reg c) 0 w e
      else if f = 0xe then em_i0f 0xEB t b (Rm_Reg c) 0 w e
      else if f = 0x6 then em_i0f 0xEF t b (Rm_Reg c) 0 w e
      else if f = 0x2 then em_i0f 0xDF t b (Rm_Reg c) 0 w e
      else if f = 0x4 then em_i0f 0xDF t c (Rm_Reg b) 0 w e
      else if f = 0x9 then ones_xor t t (em_i0f 0xEF t b (Rm_Reg c) 0 w e)
      else if f = 0x1 then ones_xor t t (em_i0f 0xEB t b (Rm_Reg c) 0 w e)
      else if f = 0x7 then ones_xor t t (em_i0f 0xDB t b (Rm_Reg c) 0 w e)
      else if f = 0x3 then ones_xor t b e
      else if f = 0x5 then ones_xor t c e
      else if f = 0xb then em_i0f 0xEB t t (Rm_Reg b) 0 w (ones_xor t c e)
      else em_i0f 0xEB t t (Rm_Reg c) 0 w (ones_xor t b e))"

definition ternlog_seq :: "zinsn \<Rightarrow> ev \<Rightarrow> target \<Rightarrow> rewriting outcome" where
  "ternlog_seq i v tgt =
     (let e = em_new tgt i; a = e_reg v; b = e_vvvv v; imm = immediate8 i; w = e_w v in
      if imm = 0xff then
        (let (n, e) = em_const_dw 0xffffffff e in
         attempt (temp_if (e_aaa v \<noteq> 0 \<or> e_ll v \<noteq> 2) a i e) (\<lambda>(r, e).
           finished (commit a r v (em_vmov r (Rm_Const n) 0 0 e))))
      else if imm = 0x00 then
        attempt (temp_if (e_aaa v \<noteq> 0 \<or> e_ll v \<noteq> 2) a i e) (\<lambda>(r, e). finished (commit a r v (em_zero r 0 w e)))
      else
        attempt (src2 i v e) (\<lambda>(c, e).
        attempt (em_temp i e) (\<lambda>(t1, e).
        attempt (em_temp i e) (\<lambda>(t2, e).
          let e = (if imm = 0x96
                   then (let e = em_i0f 0xEF t1 a (Rm_Reg b) 0 w e in em_i0f 0xEF t1 t1 (Rm_Reg c) 0 w e)
                   else (let e = bool2 t1 b c (drop_bit 4 imm) w e;
                             e = bool2 t2 b c (imm AND 0xf) w e;
                             e = em_i0f 0xDB t1 a (Rm_Reg t1) 0 w e;
                             e = em_i0f 0xDF t2 a (Rm_Reg t2) 0 w e in
                         em_i0f 0xEB t1 t1 (Rm_Reg t2) 0 w e)) in
          finished (commit a t1 v e)))))"

section \<open>Unaligned moves\<close>

definition R_BYTE_MASK :: string where "R_BYTE_MASK = ''a byte or word mask: the card masks 32-bit lanes only''"

definition unaligned_move_seq :: "zinsn \<Rightarrow> bytes \<Rightarrow> ev \<Rightarrow> target \<Rightarrow> rewriting outcome" where
  "unaligned_move_seq i bs v tgt =
     (let e = em_new tgt i; byte_wise = (mnem i \<in> {''Vmovdqu8'', ''Vmovdqu16''}) in
      if byte_wise \<and> e_aaa v \<noteq> 0 then Refused (refuse i R_BYTE_MASK)
      else
        (let w = (if byte_wise then 0 else e_w v); full = (e_ll v = 2); load = (xkind i 0 = K_Register) in
         case mem_of i of
           None \<Rightarrow>
             if full \<and> \<not> e_z v
             then attempt (writable_bytes 4 (xlen i) bs) (\<lambda>b.
                    Okay (In_place (b[1 := (b ! 1 AND 0xfc) OR 1,
                                      2 := (b ! 2 AND NOT 0x04 AND NOT 0x03) OR w,
                                      3 := bs ! 3 AND 0x0f,
                                      4 := if load then 0x28 else 0x29])))
             else (let (d, s) = (if load then (e_reg v, e_rm v) else (e_rm v, e_reg v)) in
                   finished (commit d s (v\<lparr>e_w := w\<rparr>) e))
         | Some m \<Rightarrow>
             (let dvl = vl_lanes (e_ll v) 0;
                  e = (if full then e else em_mask_imm dvl e);
                  span = (if full then 0 else kscr e);
                  e = (if e_aaa v \<noteq> 0 \<and> w = 1 then em_qmask_to_dmask (e_aaa v) dvl e else e);
                  prog = (if e_aaa v = 0 then None else if w = 1 then Some (kscr e) else Some (e_aaa v)) in
              if load then
                (let d = e_reg v;
                     fin = (\<lambda>e. finished (if full then e else em_zero_lanes d (upper (e_ll v)) e)) in
                 case prog of
                   None \<Rightarrow> fin (em_load_unaligned d m span 0 False 0 e)
                 | Some k \<Rightarrow>
                     attempt (em_temp i e) (\<lambda>(t, e).
                       let e = em_load_unaligned t m span 0 False 0 e;
                           e = em_vmov d (Rm_Reg t) k 0 e;
                           e = (if e_z v
                                then (let e = em_k e; e = em_knot (kscr e) k e in em_zero d (kscr e) 0 e) else e) in
                       fin e))
              else
                (case prog of
                   None \<Rightarrow> finished (em_store_unaligned m (e_reg v) span 0 False 0 e)
                 | Some k \<Rightarrow>
                     attempt (em_temp i e) (\<lambda>(t, e).
                       let e = em_load_unaligned t m span 0 False 0 e;
                           e = em_vmov t (Rm_Reg (e_reg v)) k 0 e in
                       finished (em_store_unaligned m t span 0 False 0 e))))))"

section \<open>Scalar moves and arithmetic\<close>

definition R_SCALAR_ZERO :: string where
  "R_SCALAR_ZERO = ''masked scalar move with zeroing: not expressed yet''"

text \<open>\<open>lane_mask\<close>: a lane mask in the scratch mask, cut to the program's mask when there is one.\<close>

definition lane_mask :: "u16 \<Rightarrow> u8 \<Rightarrow> em \<Rightarrow> em" where
  "lane_mask m aaa e = (let e = em_mask_imm m e in if aaa \<noteq> 0 then em_kand (kscr e) aaa e else e)"

text \<open>The rest of the low 128 bits from the first source, zero above: the end of every scalar form.\<close>

definition scalar_rest :: "u8 \<Rightarrow> u8 \<Rightarrow> u8 \<Rightarrow> em \<Rightarrow> em" where
  "scalar_rest d s1 w e =
     (let e = (if d \<noteq> s1
               then (let e = em_mask_imm (if w = 0 then 0xe else 0x2) e in em_vmov d (Rm_Reg s1) (kscr e) w e) else e) in
      em_zero_lanes d 0xfff0 e)"

definition scalar_move :: "zinsn \<Rightarrow> ev \<Rightarrow> target \<Rightarrow> rewriting outcome" where
  "scalar_move i v tgt =
     (let e = em_new tgt i; w = e_w v in
      if e_z v \<and> e_aaa v \<noteq> 0 then Refused (refuse i R_SCALAR_ZERO)
      else
        (case mem_of i of
           Some m \<Rightarrow>
             if xkind i 0 = K_Register then
               (let d = e_reg v;
                    e = (if e_aaa v \<noteq> 0 then lane_mask 1 (e_aaa v) e else e);
                    k = (if e_aaa v \<noteq> 0 then kscr e else 0);
                    e = em_broadcast d (Rm_Mem m) k w e in
                finished (em_zero_lanes d (push_bit (unat w) 0xfffe) e))
             else
               (let dl = (if w = 1 then 3 else 1);
                    e = (if e_aaa v \<noteq> 0 \<and> w = 1 then em_qmask_to_dmask (e_aaa v) dl e else lane_mask dl (e_aaa v) e) in
                finished (em_store_unaligned m (e_reg v) (kscr e) 0 False 0 e))
         | None \<Rightarrow>
             (let d = e_reg v; s1 = e_vvvv v; s2 = e_rm v;
                  e = lane_mask 1 (e_aaa v) e;
                  e = (if d \<noteq> s2 then em_vmov d (Rm_Reg s2) (kscr e) w e else e) in
              finished (scalar_rest d s1 w e))))"

definition R_SCALAR_OP_ZERO :: string where
  "R_SCALAR_OP_ZERO = ''masked scalar operation with zeroing: not expressed yet''"
definition R_SCALAR_OP_ROUND :: string where
  "R_SCALAR_OP_ROUND = ''scalar operation with embedded rounding: not expressed yet''"

text \<open>A memory operand read as a broadcast of one element, or the register.\<close>

definition bcast_or_reg :: "zinsn \<Rightarrow> ev \<Rightarrow> rm \<times> u8" where
  "bcast_or_reg i v = (case mem_of i of Some m \<Rightarrow> (Rm_Mem m, 1) | None \<Rightarrow> (Rm_Reg (e_rm v), 0))"

definition scalar_op :: "zinsn \<Rightarrow> ev \<Rightarrow> target \<Rightarrow> rewriting outcome" where
  "scalar_op i v tgt =
     (let e = em_new tgt i; w = e_w v in
      if e_z v \<and> e_aaa v \<noteq> 0 then Refused (refuse i R_SCALAR_OP_ZERO)
      else if e_b v then Refused (refuse i R_SCALAR_OP_ROUND)
      else
        (let d = e_reg v; s1 = e_vvvv v; (r, sss) = bcast_or_reg i v;
             e = lane_mask 1 (e_aaa v) e;
             e = em_mvex (e_map v) (if e_map v = 1 then w else 1) w (e_op v) d s1 r (kscr e) sss None e in
         finished (scalar_rest d s1 w e)))"

definition ordered_move :: "bool \<Rightarrow> u8 \<Rightarrow> u8 \<Rightarrow> u8 \<Rightarrow> u8 \<Rightarrow> em \<Rightarrow> em" where
  "ordered_move is_max r s1 s2 w e =
     (let e = em_k e;
          e = em_vmov r (Rm_Reg s2) 0 w e;
          e = (if is_max then em_vcmp (kscr e) s2 (Rm_Reg s1) 1 0 w 0 e else em_vcmp (kscr e) s1 (Rm_Reg s2) 1 0 w 0 e) in
      em_vmov r (Rm_Reg s1) (kscr e) w e)"

definition minmax :: "zinsn \<Rightarrow> ev \<Rightarrow> target \<Rightarrow> rewriting outcome" where
  "minmax i v tgt =
     (let e = em_new tgt i; is_max = (mnem i \<in> {''Vmaxps'', ''Vmaxpd''}); d = e_reg v; s1 = e_vvvv v in
      attempt (src2 i v e) (\<lambda>(s2, e).
      attempt (em_temp i e) (\<lambda>(r, e).
        finished (commit d r v (ordered_move is_max r s1 s2 (e_w v) e)))))"

definition R_SCALAR_MINMAX :: string where "R_SCALAR_MINMAX = ''masked scalar min/max: not expressed yet''"

text \<open>The second source of a scalar form: a memory operand broadcast into a temporary.\<close>

definition scalar_src2 :: "zinsn \<Rightarrow> ev \<Rightarrow> u8 \<Rightarrow> em \<Rightarrow> (u8 \<times> em) outcome" where
  "scalar_src2 i v w e =
     (case mem_of i of
        Some m \<Rightarrow> attempt (em_temp i e) (\<lambda>(t, e). Okay (t, em_broadcast t (Rm_Mem m) 0 w e))
      | None \<Rightarrow> Okay (e_rm v, e))"

text \<open>Lane 0 from \<open>r\<close>, then the rest as in every scalar form.\<close>

definition scalar_result :: "u8 \<Rightarrow> u8 \<Rightarrow> u8 \<Rightarrow> u8 \<Rightarrow> em \<Rightarrow> em" where
  "scalar_result d r s1 w e =
     (let e = em_mask_imm 1 e;
          e = em_vmov d (Rm_Reg r) (kscr e) w e in
      scalar_rest d s1 w e)"

definition scalar_minmax :: "zinsn \<Rightarrow> ev \<Rightarrow> target \<Rightarrow> rewriting outcome" where
  "scalar_minmax i v tgt =
     (let e = em_new tgt i; w = e_w v in
      if e_aaa v \<noteq> 0 then Refused (refuse i R_SCALAR_MINMAX)
      else
        (let is_max = (mnem i \<in> {''Vmaxss'', ''Vmaxsd''}); d = e_reg v; s1 = e_vvvv v in
         attempt (scalar_src2 i v w e) (\<lambda>(s2, e).
         attempt (em_temp i e) (\<lambda>(r, e).
           finished (scalar_result d r s1 w (ordered_move is_max r s1 s2 w e))))))"

section \<open>Moves to and from general registers, broadcasts from registers\<close>

definition R_MOVD_SRC :: string where "R_MOVD_SRC = ''vmovd source is not a general register''"
definition R_MOVD_SHAPE :: string where "R_MOVD_SHAPE = ''vmovd operand shape''"
definition R_MOVD_VEC :: string where "R_MOVD_VEC = ''vmovd source is not a vector register''"
definition R_MOVD_DST :: string where "R_MOVD_DST = ''vmovd destination is not a general register''"

definition movdq :: "zinsn \<Rightarrow> target \<Rightarrow> rewriting outcome" where
  "movdq i tgt =
     (let e = em_new tgt i; wide = (mnem i = ''Vmovq''); w = of_bool wide; above = (if wide then 0xfffc else 0xfffe) in
      case (if xkind i 0 = K_Register then vreg (xreg_of i 0) else None) of
        Some d \<Rightarrow>
          (let fin = (\<lambda>src e. finished (em_zero_lanes d above (em_broadcast d src 0 w e))) in
           case xkind i 1 of
             K_Memory \<Rightarrow> attempt (unwrap (mem_of i)) (\<lambda>m. fin (Rm_Mem m) e)
           | K_Register \<Rightarrow>
               (case vreg (xreg_of i 1) of
                  Some s \<Rightarrow>
                    (let e = em_mask_imm 1 e;
                         e = em_vmov d (Rm_Reg s) (kscr e) 1 e in
                     finished (em_zero_lanes d 0xfffc e))
                | None \<Rightarrow>
                    attempt (ok_or_refuse i R_MOVD_SRC (gpr (xreg_of i 1))) (\<lambda>(r, _).
                      fin (Rm_Fs S_GPR) (em_gpr_scratch r wide S_GPR True e)))
           | _ \<Rightarrow> Refused (refuse i R_MOVD_SHAPE))
      | None \<Rightarrow>
          attempt (ok_or_refuse i R_MOVD_VEC (vreg (xreg_of i 1))) (\<lambda>s.
            let e = em_mask_imm (if wide then 3 else 1) e in
            case xkind i 0 of
              K_Memory \<Rightarrow> attempt (unwrap (mem_of i)) (\<lambda>m. finished (em_store_unaligned m s (kscr e) 0 False 0 e))
            | K_Register \<Rightarrow>
                attempt (ok_or_refuse i R_MOVD_DST (gpr (xreg_of i 0))) (\<lambda>(r, _).
                  let e = em_mvex 2 1 0 0xD0 s 0 (Rm_Fs S_GPR) (kscr e) 0 None e in
                  finished (em_gpr_result r wide S_GPR e))
            | _ \<Rightarrow> Refused (refuse i R_MOVD_SHAPE)))"

definition broadcast_reg :: "zinsn \<Rightarrow> ev \<Rightarrow> target \<Rightarrow> rewriting outcome" where
  "broadcast_reg i v tgt =
     (let e = em_new tgt i; d = e_reg v; wide = (e_w v = 1) in
      attempt (temp_if (e_aaa v \<noteq> 0) d i e) (\<lambda>(r, e).
        let e = (case gpr (xreg_of i 1) of
                   Some (g, _) \<Rightarrow>
                     (let e = em_gpr_scratch g wide S_GPR True e in em_broadcast r (Rm_Fs S_GPR) 0 (e_w v) e)
                 | None \<Rightarrow>
                     (let e = em_vpermf32x4 r (Rm_Reg (e_rm v)) 0x00 0 e in
                      em_vpshufd r (Rm_Reg r) (if wide then 0x44 else 0x00) 0 e)) in
        finished (commit d r v e)))"

section \<open>Shuffles within blocks\<close>

definition R_SHUFPD :: string where
  "R_SHUFPD = ''vshufpd with a different selection per block: not expressed yet''"

text \<open>The shuffles of the two sources and the lanes of the second.\<close>

definition shuffles :: "zinsn \<Rightarrow> ev \<Rightarrow> (u8 \<times> u8 \<times> u16) outcome" where
  "shuffles i v =
     (let m = mnem i; imm = immediate8 i in
      if m = ''Vmovlhps'' then Okay (0x44, 0x44, 0xcccc)
      else if m = ''Vmovhlps'' then Okay (0xee, 0xee, 0x3333)
      else if m \<in> {''Vunpcklps'', ''Vpunpckldq''} then Okay (0x50, 0x50, 0xaaaa)
      else if m \<in> {''Vunpckhps'', ''Vpunpckhdq''} then Okay (0xfa, 0xfa, 0xaaaa)
      else if m \<in> {''Vunpcklpd'', ''Vpunpcklqdq''} then Okay (0x44, 0x44, 0xcccc)
      else if m \<in> {''Vunpckhpd'', ''Vpunpckhqdq''} then Okay (0xee, 0xee, 0xcccc)
      else if m = ''Vshufps'' then Okay (imm, imm, 0xcccc)
      else if m = ''Vshufpd'' then
        (let n = (if e_ll v = 2 then 4 else if e_ll v = 1 then 2 else 1); p = imm AND 3 in
         if list_ex (\<lambda>j. drop_bit (2 * j) imm AND 3 \<noteq> p) [0 ..< n] then Refused (refuse i R_SHUFPD)
         else Okay (if p AND 1 = 1 then 0xee else 0x44, if p AND 2 = 2 then 0xee else 0x44, 0xcccc))
      else Panics)"

definition interleave :: "zinsn \<Rightarrow> ev \<Rightarrow> target \<Rightarrow> rewriting outcome" where
  "interleave i v tgt =
     (let e = em_new tgt i; d = e_reg v; s1 = e_vvvv v in
      attempt (src2 i v e) (\<lambda>(s2, e).
      attempt (shuffles i v) (\<lambda>(sh1, sh2, from2).
      attempt (em_temp i e) (\<lambda>(r, e).
      attempt (em_temp i e) (\<lambda>(t, e).
        let e = em_vpshufd r (Rm_Reg s1) sh1 0 e;
            e = em_vpshufd t (Rm_Reg s2) sh2 0 e;
            e = em_mask_imm from2 e;
            e = em_vmov r (Rm_Reg t) (kscr e) 0 e in
        finished (commit d r v e))))))"

definition valignq :: "zinsn \<Rightarrow> ev \<Rightarrow> target \<Rightarrow> rewriting outcome" where
  "valignq i v tgt =
     (let e = em_new tgt i; d = e_reg v; s1 = e_vvvv v in
      attempt (src2 i v e) (\<lambda>(s2, e).
        let n = (immediate8 i AND 7) * 2 in
        attempt (em_temp i e) (\<lambda>(r, e).
          if e_ll v = 2 then finished (commit d r v (em_valignd r s1 (Rm_Reg s2) n 0 e))
          else attempt (em_temp i e) (\<lambda>(t, e).
            let e = em_vmov t (Rm_Reg s2) 0 0 e;
                e = em_mask_imm (if e_ll v = 1 then 0xff00 else 0x00f0) e;
                e = em_vpermf32x4 t (Rm_Reg s1) (if e_ll v = 1 then 0x4e else 0x00) (kscr e) e;
                e = em_valignd r t (Rm_Reg t) n 0 e in
            finished (commit d r v e)))))"

definition R_BYTE_SHIFT :: string where
  "R_BYTE_SHIFT = ''a byte shift within 128-bit blocks that is not a whole number of dwords: not expressed yet''"

text \<open>The shuffle that takes lane \<open>(i + by) mod 4\<close> to lane \<open>i\<close>, and four lanes of every block.\<close>

definition rot :: "u8 \<Rightarrow> u8" where
  "rot by = fold (\<lambda>j v. v OR push_bit (2 * j) ((of_nat j + by) AND 3)) [0 ..< 4] 0"

definition per_block :: "u16 \<Rightarrow> u16" where
  "per_block m = (m AND 0xf) * 0x1111"

definition byte_shift :: "zinsn \<Rightarrow> ev \<Rightarrow> target \<Rightarrow> rewriting outcome" where
  "byte_shift i v tgt =
     (let e = em_new tgt i; imm = immediate8 i in
      if imm mod 4 \<noteq> 0 then Refused (refuse i R_BYTE_SHIFT)
      else
        (let n = imm div 4; d = (if dest_is_vvvv v then e_vvvv v else e_reg v); s = e_rm v in
         attempt (em_temp i e) (\<lambda>(r, e).
           if mnem i = ''Vpsrldq'' then
             (let e = (if 4 \<le> n then em_zero r 0 0 e
                       else (let e = em_vpshufd r (Rm_Reg s) (rot n) 0 e in
                             em_zero_lanes r (per_block (push_bit (4 - unat n) 0xf)) e)) in
              finished (commit d r v e))
           else if mnem i = ''Vpslldq'' then
             (let e = (if 4 \<le> n then em_zero r 0 0 e
                       else (let e = em_vpshufd r (Rm_Reg s) (rot (4 - n)) 0 e in
                             em_zero_lanes r ((push_bit (unat n) 1 - 1) * 0x1111) e)) in
              finished (commit d r v e))
           else
             (let d = e_reg v; a = e_vvvv v in
              attempt (src2 i v e) (\<lambda>(b, e).
                if 8 \<le> n then finished (commit d r v (em_zero r 0 0 e))
                else if 4 \<le> n then
                  (let e = em_vpshufd r (Rm_Reg a) (rot (n - 4)) 0 e in
                   finished (commit d r v (em_zero_lanes r (per_block (push_bit (8 - unat n) 0xf)) e)))
                else attempt (em_temp i e) (\<lambda>(t, e).
                  let e = em_vpshufd r (Rm_Reg b) (rot n) 0 e;
                      e = em_vpshufd t (Rm_Reg a) (rot n) 0 e;
                      e = em_mask_imm (per_block (push_bit (4 - unat n) 0xf)) e;
                      e = em_vmov r (Rm_Reg t) (kscr e) 0 e in
                  finished (commit d r v e))))))) "

end
