(* ===== verification/Rw_Lanes.thy ===== *)
theory Rw_Lanes
  imports Rw_Moves
begin

text \<open>
  The families of \<^verbatim>\<open>host/crates/avx512-xlate/src/rewrite.rs\<close> that compute on lanes the card does
  not have: conversions of packed elements, qword arithmetic, compares and tests out of dword
  ones, block shuffles, narrowing, gathers, shifts.
\<close>

section \<open>Packed conversions\<close>

definition cvt_to_int :: "zinsn \<Rightarrow> ev \<Rightarrow> target \<Rightarrow> rewriting outcome" where
  "cvt_to_int i v tgt =
     (let e = em_new tgt i; d = e_reg v; truncated = (mnem i = ''Vcvttps2dq'') in
      attempt (src2 i v e) (\<lambda>(s, e).
      attempt (em_temp i e) (\<lambda>(r, e).
        let e = em_mvex 3 1 0 0xCB r 0 (Rm_Reg s) 0 0 (Some (if truncated then 3 else 0)) e;
            (big, e) = em_const_dw 0x4f000000 e;
            e = em_k e;
            e = em_vcmp (kscr e) s (Rm_Const big) 5 0 0 0 e;
            (ind, e) = em_const_dw 0x80000000 e;
            e = em_vmov r (Rm_Const ind) (kscr e) 0 e in
        finished (commit d r v e))))"

text \<open>The lanes of a packed source under which a load or a store runs, and its dwords of halves.\<close>

definition length_mask :: "ev \<Rightarrow> em \<Rightarrow> em" where
  "length_mask v e = (if e_ll v = 2 then e else em_mask_imm (vl_lanes (e_ll v) 0) e)"

definition length_k :: "ev \<Rightarrow> em \<Rightarrow> u8" where
  "length_k v e = (if e_ll v = 2 then 0 else kscr e)"

definition half_dwords :: "ev \<Rightarrow> u16" where
  "half_dwords v = (if e_ll v = 2 then 0xff else if e_ll v = 1 then 0xf else 0x3)"

definition cvt_ph2ps :: "zinsn \<Rightarrow> ev \<Rightarrow> target \<Rightarrow> rewriting outcome" where
  "cvt_ph2ps i v tgt =
     (let e = em_new tgt i; d = e_reg v in
      attempt (temp_if (e_aaa v \<noteq> 0 \<or> e_ll v \<noteq> 2) d i e) (\<lambda>(r, e).
        let e = (case mem_of i of
                   Some m \<Rightarrow> (let e = length_mask v e in em_load_unaligned r m (length_k v e) 0 True 3 e)
                 | None \<Rightarrow>
                     (let e = em_mask_imm (half_dwords v) e;
                          e = em_mvex 2 1 0 0xD0 (e_rm v) 0 (Rm_Fs S_XFER) (kscr e) 0 None e;
                          e = length_mask v e in
                      em_mvex 1 0 0 0x28 r 0 (Rm_Fs S_XFER) (length_k v e) 3 None e)) in
        finished (commit d r v e)))"

definition R_PS2PH_ROUND :: string where
  "R_PS2PH_ROUND = ''vcvtps2ph with a rounding other than nearest: not expressed yet''"
definition R_PS2PH_MASK :: string where
  "R_PS2PH_MASK = ''a masked float16 store: the pack store compresses through the mask''"

definition cvt_ps2ph :: "zinsn \<Rightarrow> ev \<Rightarrow> target \<Rightarrow> rewriting outcome" where
  "cvt_ps2ph i v tgt =
     (let e = em_new tgt i; imm = immediate8 i in
      if imm AND 3 \<noteq> 0 \<and> imm AND 4 = 0 then Refused (refuse i R_PS2PH_ROUND)
      else
        (let s = e_reg v; e = length_mask v e; k = length_k v e in
         case mem_of i of
           Some m \<Rightarrow>
             if e_aaa v \<noteq> 0 then Refused (refuse i R_PS2PH_MASK)
             else finished (em_store_unaligned m s k 0 True 3 e)
         | None \<Rightarrow>
             (let d = e_rm v; e = em_mvex 1 0 0 0x29 s 0 (Rm_Fs S_XFER) k 3 None e in
              attempt (temp_if (e_aaa v \<noteq> 0) d i e) (\<lambda>(r, e).
                let e = em_mask_imm (half_dwords v) e;
                    e = em_vmov r (Rm_Fs S_XFER) (kscr e) 0 e in
                finished (commit d r (v\<lparr>e_ll := (if e_ll v = 2 then 1 else 0), e_w := 0\<rparr>) e)))))"

text \<open>The conversion field and the bytes of an element; \<open>popcount\<close> is \<^verbatim>\<open>count_ones\<close>.\<close>

definition popcount :: "u16 \<Rightarrow> nat" where
  "popcount m = length (filter (bit m) [0 ..< 16])"

definition widening :: "string \<Rightarrow> u8 \<times> nat" where
  "widening m = (if m = ''Vpmovzxbd'' then (4, 1) else if m = ''Vpmovsxbd'' then (5, 1)
                 else if m = ''Vpmovzxwd'' then (6, 2) else (7, 2))"

definition widen :: "zinsn \<Rightarrow> ev \<Rightarrow> target \<Rightarrow> rewriting outcome" where
  "widen i v tgt =
     (let e = em_new tgt i; d = e_reg v; (conv, elem) = widening (mnem i); lanes = vl_lanes (e_ll v) 0 in
      attempt (temp_if (e_aaa v \<noteq> 0 \<or> e_ll v \<noteq> 2) d i e) (\<lambda>(r, e).
        let e = (case mem_of i of
                   Some m \<Rightarrow> (let e = length_mask v e in em_load_unaligned r m (length_k v e) 0 False conv e)
                 | None \<Rightarrow>
                     (let n = (popcount lanes * elem + 3) div 4;
                          e = em_mask_imm (push_bit n 1 - 1) e;
                          e = em_mvex 2 1 0 0xD0 (e_rm v) 0 (Rm_Fs S_XFER) (kscr e) 0 None e;
                          e = length_mask v e in
                      em_mvex 1 1 0 0x6F r 0 (Rm_Fs S_XFER) (length_k v e) conv None e)) in
        finished (commit d r v e)))"

definition widen_dq :: "zinsn \<Rightarrow> ev \<Rightarrow> target \<Rightarrow> rewriting outcome" where
  "widen_dq i v tgt =
     (let e = em_new tgt i; d = e_reg v; signd = (mnem i = ''Vpmovsxdq'') in
      attempt (em_temp i e) (\<lambda>(r, e).
      attempt (em_temp i e) (\<lambda>(t, e).
      attempt (case mem_of i of
                 Some m \<Rightarrow>
                   attempt (em_temp i e) (\<lambda>(u, e).
                     let e = em_mask_imm (push_bit (popcount (vl_lanes (e_ll v) 1)) 1 - 1) e in
                     Okay (u, em_load_unaligned u m (kscr e) 0 False 0 e))
               | None \<Rightarrow> Okay (e_rm v, e)) (\<lambda>(s, e).
        let (idx, e) = em_const_dws [0, 0, 1, 1, 2, 2, 3, 3, 4, 4, 5, 5, 6, 6, 7, 7] e;
            e = em_vmov t (Rm_Const idx) 0 0 e;
            e = em_vpermd r t (Rm_Reg s) 0 e;
            e = em_mask_imm 0xaaaa e;
            e = (if signd then em_shift_imm 4 r (Rm_Reg r) 31 (kscr e) e else em_zero r (kscr e) 0 e) in
        finished (commit d r (v\<lparr>e_w := 1\<rparr>) e)))))"

section \<open>Qword arithmetic and compares\<close>

definition add_sub_q :: "zinsn \<Rightarrow> ev \<Rightarrow> target \<Rightarrow> rewriting outcome" where
  "add_sub_q i v tgt =
     (let e = em_new tgt i; d = e_reg v; s1 = e_vvvv v; subs = (mnem i = ''Vpsubq'');
          opc = (if subs then 0xFA else 0xFE) in
      attempt (src2 i v e) (\<lambda>(s2, e).
      attempt (em_temp i e) (\<lambda>(r, e).
        let e = em_i0f opc r s1 (Rm_Reg s2) 0 0 e;
            e = em_flags e;
            e = em_k e;
            e = (if subs then em_mvex 3 1 0 0x1E (kscr e) s1 (Rm_Reg s2) 0 0 (Some 1) e
                 else em_mvex 3 1 0 0x1E (kscr e) r (Rm_Reg s1) 0 0 (Some 1) e);
            e = em_kmov_r_k 0 (kscr e) e;
            e = em_push [0x25, 0x55, 0x55, 0x00, 0x00] e;
            e = em_push [0xd1, 0xe0] e;
            e = em_kmov_k_r (kscr e) 0 e;
            (one, e) = em_const_dw 1 e;
            e = em_i0f opc r r (Rm_Const one) (kscr e) 0 e in
        finished (commit d r (v\<lparr>e_w := 1\<rparr>) e))))"

definition comis :: "zinsn \<Rightarrow> ev \<Rightarrow> target \<Rightarrow> rewriting outcome" where
  "comis i v tgt =
     (let e = em_new tgt i; w = e_w v; s1 = e_reg v; (r, sss) = bcast_or_reg i v;
          e = em_rax e;
          e = em_rcx e;
          e = em_k e;
          e = em_vcmp (kscr e) s1 r 1 0 w sss e;
          e = em_kmov_r_k 0 (kscr e) e;
          e = em_push [0x83, 0xe0, 0x01, 0x89, 0xc1] e;
          e = em_vcmp (kscr e) s1 r 0 0 w sss e;
          e = em_kmov_r_k 0 (kscr e) e;
          e = em_push [0x83, 0xe0, 0x01, 0xc1, 0xe0, 0x06, 0x09, 0xc1] e;
          e = em_vcmp (kscr e) s1 r 3 0 w sss e;
          e = em_kmov_r_k 0 (kscr e) e;
          e = em_push [0x83, 0xe0, 0x01, 0xf7, 0xd8, 0x83, 0xe0, 0x45, 0x09, 0xc1] e;
          e = em_gpr_scratch 1 False S_XFER True e in
      finished (e\<lparr>flags_out := Some S_XFER\<rparr>))"

text \<open>The program's mask over the result in eax, when there is one.\<close>

definition mask_eax :: "u8 \<Rightarrow> em \<Rightarrow> em" where
  "mask_eax aaa e = (if aaa \<noteq> 0 then (let e = em_kmov_r_k 1 aaa e in em_push [0x21, 0xc8] e) else e)"

definition cmp_pred :: "zinsn \<Rightarrow> u8" where
  "cmp_pred i = (if mnem i = ''Vpcmpeqq'' then 0 else if mnem i = ''Vpcmpgtq'' then 6 else immediate8 i AND 7)"

text \<open>A predicate from lt in eax and eq in the scratch slot.\<close>

definition from_lt_eq :: "u8 \<Rightarrow> em \<Rightarrow> em" where
  "from_lt_eq pred e =
     (if pred = 0 then em_gpr_scratch 0 False S_XFER False e
      else if pred = 1 then e
      else if pred = 2 then em_fs_op [0x0b] 0 S_XFER e
      else if pred = 4 then (let e = em_gpr_scratch 0 False S_XFER False e in em_push [0xf7, 0xd0] e)
      else if pred = 5 then em_push [0xf7, 0xd0] e
      else (let e = em_fs_op [0x0b] 0 S_XFER e in em_push [0xf7, 0xd0] e))"

definition cmp_q :: "zinsn \<Rightarrow> ev \<Rightarrow> target \<Rightarrow> rewriting outcome" where
  "cmp_q i v tgt =
     (let e = em_new tgt i; kd = e_reg v AND 7; pred = cmp_pred i; lanes = vl_lanes (e_ll v) 1;
          signd = (mnem i \<in> {''Vpcmpq'', ''Vpcmpeqq'', ''Vpcmpgtq''}) in
      if pred = 3 then (let e = em_mov_eax 0 e in finished (em_kmov_k_r kd 0 e))
      else
        attempt (src2 i v e) (\<lambda>(s2, e).
          let e = (if pred = 7 then (let e = em_flags e; e = em_rcx e in em_mov_eax (ucast lanes) e)
                   else (let e = qword_lt_eq (e_vvvv v) s2 signd e;
                             e = from_lt_eq pred e;
                             e = pack_even e in
                         and_eax (ucast lanes) e));
              e = mask_eax (e_aaa v) e in
          finished (em_kmov_k_r kd 0 e)))"

definition minmax_q :: "zinsn \<Rightarrow> ev \<Rightarrow> target \<Rightarrow> rewriting outcome" where
  "minmax_q i v tgt =
     (let e = em_new tgt i; d = e_reg v; s1 = e_vvvv v; is_max = (mnem i \<in> {''Vpmaxsq'', ''Vpmaxuq''});
          signd = (mnem i \<in> {''Vpmaxsq'', ''Vpminsq''}) in
      attempt (src2 i v e) (\<lambda>(s2, e).
      attempt (em_temp i e) (\<lambda>(r, e).
        let e = (if is_max then qword_lt_eq s2 s1 signd e else qword_lt_eq s1 s2 signd e);
            e = spread_even e;
            e = em_k e;
            e = em_kmov_k_r (kscr e) 0 e;
            e = em_vmov r (Rm_Reg s2) 0 1 e;
            e = em_vmov r (Rm_Reg s1) (kscr e) 0 e in
        finished (commit d r (v\<lparr>e_w := 1\<rparr>) e))))"

definition testm :: "zinsn \<Rightarrow> ev \<Rightarrow> target \<Rightarrow> rewriting outcome" where
  "testm i v tgt =
     (let e = em_new tgt i; kd = e_reg v AND 7; negate = (mnem i \<in> {''Vptestnmq'', ''Vptestnmd''});
          qword = (mnem i \<in> {''Vptestmq'', ''Vptestnmq''}); lanes = vl_lanes (e_ll v) (e_w v) in
      attempt (src2 i v e) (\<lambda>(s2, e).
        let e = em_k e;
            e = em_flags e;
            e = em_rcx e;
            e = em_mvex 2 1 0 0x27 (kscr e) (e_vvvv v) (Rm_Reg s2) 0 0 None e;
            e = em_kmov_r_k 0 (kscr e) e;
            e = (if qword
                 then (let e = em_push [0x89, 0xc1, 0xd1, 0xe9, 0x09, 0xc8] e;
                           e = (if negate then em_push [0xf7, 0xd0] e else e) in
                       pack_even e)
                 else if negate then em_push [0xf7, 0xd0] e else e);
            e = and_eax (ucast lanes) e;
            e = mask_eax (e_aaa v) e in
        finished (em_kmov_k_r kd 0 e)))"

section \<open>Inserts and block shuffles\<close>

definition insertps :: "zinsn \<Rightarrow> ev \<Rightarrow> target \<Rightarrow> rewriting outcome" where
  "insertps i v tgt =
     (let e = em_new tgt i; d = e_reg v; s1 = e_vvvv v; imm = immediate8 i;
          fin = (\<lambda>r e. finished (commit d r (v\<lparr>e_ll := 0, e_w := 0\<rparr>)
                                   (em_zero_lanes r (ucast (imm AND 0xf) OR 0xfff0) e))) in
      attempt (em_temp i e) (\<lambda>(r, e).
        let e = em_vmov r (Rm_Reg s1) 0 0 e;
            e = em_mask_imm (push_bit (unat (drop_bit 4 imm AND 3)) 1) e;
            k = kscr e in
        case mem_of i of
          Some m \<Rightarrow> fin r (em_broadcast r (Rm_Mem m) k 0 e)
        | None \<Rightarrow>
            attempt (em_temp i e) (\<lambda>(t, e).
              let e = em_vpshufd t (Rm_Reg (e_rm v)) ((drop_bit 6 imm AND 3) * 0x55) 0 e in
              fin r (em_vmov r (Rm_Reg t) k 0 e))))"

definition R_BLOCK_SHUFFLE :: string where "R_BLOCK_SHUFFLE = ''a 128-bit block shuffle: no such form''"

definition shuf_blocks :: "zinsn \<Rightarrow> ev \<Rightarrow> target \<Rightarrow> rewriting outcome" where
  "shuf_blocks i v tgt =
     (let e = em_new tgt i; d = e_reg v; s1 = e_vvvv v; imm = immediate8 i in
      attempt (src2 i v e) (\<lambda>(s2, e).
      attempt (em_temp i e) (\<lambda>(r, e).
        if e_ll v = 2 then
          (let e = em_vpermf32x4 r (Rm_Reg s1) (imm AND 0x0f) 0 e;
               e = em_mask_imm 0xff00 e in
           finished (commit d r v (em_vpermf32x4 r (Rm_Reg s2) (imm AND 0xf0) (kscr e) e)))
        else if e_ll v = 1 then
          (let e = em_vpermf32x4 r (Rm_Reg s1) (imm AND 1) 0 e;
               e = em_mask_imm 0x00f0 e in
           finished (commit d r v (em_vpermf32x4 r (Rm_Reg s2) (push_bit 2 (drop_bit 1 imm AND 1)) (kscr e) e)))
        else Refused (refuse i R_BLOCK_SHUFFLE))))"

definition fma_addsub :: "zinsn \<Rightarrow> ev \<Rightarrow> target \<Rightarrow> rewriting outcome" where
  "fma_addsub i v tgt =
     (let e = em_new tgt i; d = e_reg v; s1 = e_vvvv v; w = e_w v; b0 = e_op v AND 0xfe; subadd = (e_op v AND 1 = 1);
          sub_lanes = (if w = 0 then (if subadd then 0xaaaa else 0x5555) else if subadd then 0xcccc else 0x3333) in
      attempt (src2 i v e) (\<lambda>(s2, e).
      attempt (em_temp i e) (\<lambda>(r, e).
      attempt (em_temp i e) (\<lambda>(t, e).
        let e = em_vmov r (Rm_Reg d) 0 w e;
            e = em_vmov t (Rm_Reg d) 0 w e;
            e = em_fma (b0 + 2) r s1 (Rm_Reg s2) w e;
            e = em_fma (b0 + 4) t s1 (Rm_Reg s2) w e;
            e = em_mask_imm sub_lanes e;
            e = em_vmov r (Rm_Reg t) (kscr e) 0 e in
        finished (commit d r v e)))))"

section \<open>Narrowing, gathers and scatters\<close>

definition R_MASKED_NARROW :: string where
  "R_MASKED_NARROW = ''a masked byte narrowing: the card masks dword lanes only''"

text \<open>The bytes of the scratch slot to memory, eight or four at a time, from \<open>from\<close> to \<open>amount\<close>.\<close>

function store_pieces :: "mem_op \<Rightarrow> nat \<Rightarrow> nat \<Rightarrow> em \<Rightarrow> em" where
  "store_pieces m from amount e =
     (if from < amount then
        (let wide = (8 \<le> amount - from);
             e = em_gpr_scratch 0 wide (S_XFER + of_nat from) False e;
             e = em_store_rax (mem_plus (of_nat from) m) wide e in
         store_pieces m (from + (if wide then 8 else 4)) amount e)
      else e)"
  by auto
termination by (relation "measure (\<lambda>(m, from, amount, e). amount - from)") auto

declare store_pieces.simps [simp del]

definition narrow_db :: "zinsn \<Rightarrow> ev \<Rightarrow> target \<Rightarrow> rewriting outcome" where
  "narrow_db i v tgt =
     (let e = em_new tgt i in
      if e_aaa v \<noteq> 0 then Refused (refuse i R_MASKED_NARROW)
      else
        attempt (em_temp i e) (\<lambda>(r, e).
        attempt (em_temp i e) (\<lambda>(t, e).
          let (ff, e) = em_const_dw 0xff e;
              e = em_i0f 0xDB r (e_reg v) (Rm_Const ff) 0 0 e;
              e = em_vpshufd t (Rm_Reg r) 0x39 0 e;
              e = em_shift_imm 6 t (Rm_Reg t) 8 0 e;
              e = em_i0f 0xEB r r (Rm_Reg t) 0 0 e;
              e = em_vpshufd t (Rm_Reg r) 0x4e 0 e;
              e = em_shift_imm 6 t (Rm_Reg t) 16 0 e;
              e = em_i0f 0xEB r r (Rm_Reg t) 0 0 e;
              (idx, e) = em_const_dws [0, 4, 8, 12, 0, 0, 0, 0, 0, 0, 0, 0, 0, 0, 0, 0] e;
              e = em_vmov t (Rm_Const idx) 0 0 e;
              e = em_vpermd r t (Rm_Reg r) 0 e;
              ndw = popcount (vl_lanes (e_ll v) 0) div 4;
              span = push_bit ndw 1 - 1;
              e = em_mask_imm span e in
          case mem_of i of
            Some m \<Rightarrow>
              (let e = em_mvex 2 1 0 0xD0 r 0 (Rm_Fs S_XFER) (kscr e) 0 None e;
                   e = em_rax e in
               finished (store_pieces m 0 (ndw * 4) e))
          | None \<Rightarrow>
              (let d = e_rm v; e = em_vmov d (Rm_Reg r) (kscr e) 0 e in finished (em_zero_lanes d (NOT span) e)))))"

definition R_GATHER_MASK :: string where "R_GATHER_MASK = ''a gather or scatter without a mask''"
definition R_GATHER_NARROW :: string where "R_GATHER_NARROW = ''a narrow gather or scatter: not expressed yet''"

definition gather_scatter :: "zinsn \<Rightarrow> bytes \<Rightarrow> ev \<Rightarrow> target \<Rightarrow> rewriting outcome" where
  "gather_scatter i bs v tgt =
     (if e_aaa v = 0 then Refused (refuse i R_GATHER_MASK)
      else if e_ll v \<noteq> 2 then Refused (refuse i R_GATHER_NARROW)
      else
        (let e = em_new tgt i in
         attempt (writable_bytes 3 (xlen i) bs) (\<lambda>b.
           let b = b[2 := bs ! 2 AND NOT 0x04, 3 := bs ! 3 AND 0x0f];
               at = length (seq e);
               e = em_push b e;
               rel = of_nat at - (of_nat (length (seq e)) + 7);
               e = em_push [0xc5, 0x80 OR push_bit 3 (NOT (e_aaa v) AND 0xf), 0x85] e in
           finished (em_push (le_bytes32 rel) e))))"

section \<open>Shifts and products\<close>

definition even_lanes :: u16 where "even_lanes = 0x5555"
definition odd_lanes :: u16 where "odd_lanes = 0xaaaa"

definition shift_right_q :: "bool \<Rightarrow> u8 \<Rightarrow> u8 \<Rightarrow> u8 \<Rightarrow> u8 \<Rightarrow> em \<Rightarrow> em" where
  "shift_right_q arith n r t s e =
     (if 64 \<le> n then
        (if arith then (let e = em_vpshufd r (Rm_Reg s) 0xf5 0 e in em_shift_imm 4 r (Rm_Reg r) 31 0 e)
         else em_zero r 0 0 e)
      else if 32 \<le> n then
        (let e = em_vpshufd r (Rm_Reg s) 0xf5 0 e;
             e = em_mask_imm even_lanes e;
             e = em_shift_imm (if arith then 4 else 2) r (Rm_Reg r) (n - 32) (kscr e) e;
             e = em_mask_imm odd_lanes e in
         if arith then em_shift_imm 4 r (Rm_Reg r) 31 (kscr e) e else em_zero r (kscr e) 0 e)
      else if n = 0 then em_vmov r (Rm_Reg s) 0 0 e
      else
        (let e = em_shift_imm 2 r (Rm_Reg s) n 0 e;
             e = (if arith then (let e = em_mask_imm odd_lanes e in em_shift_imm 4 r (Rm_Reg s) n (kscr e) e) else e);
             e = em_vpshufd t (Rm_Reg s) 0xf5 0 e;
             e = em_shift_imm 6 t (Rm_Reg t) (32 - n) 0 e;
             e = em_mask_imm even_lanes e in
         em_i0f 0xEB r r (Rm_Reg t) (kscr e) 0 e))"

definition shift_left_q :: "u8 \<Rightarrow> u8 \<Rightarrow> u8 \<Rightarrow> u8 \<Rightarrow> em \<Rightarrow> em" where
  "shift_left_q n r t s e =
     (if 64 \<le> n then em_zero r 0 0 e
      else if 32 \<le> n then
        (let e = em_vpshufd r (Rm_Reg s) 0xa0 0 e;
             e = em_mask_imm odd_lanes e;
             e = em_shift_imm 6 r (Rm_Reg r) (n - 32) (kscr e) e;
             e = em_mask_imm even_lanes e in
         em_zero r (kscr e) 0 e)
      else if n = 0 then em_vmov r (Rm_Reg s) 0 0 e
      else
        (let e = em_shift_imm 6 r (Rm_Reg s) n 0 e;
             e = em_vpshufd t (Rm_Reg s) 0xa0 0 e;
             e = em_shift_imm 2 t (Rm_Reg t) (32 - n) 0 e;
             e = em_mask_imm odd_lanes e in
         em_i0f 0xEB r r (Rm_Reg t) (kscr e) 0 e))"

definition shift_q :: "zinsn \<Rightarrow> ev \<Rightarrow> target \<Rightarrow> rewriting outcome" where
  "shift_q i v tgt =
     (let e = em_new tgt i; d = e_vvvv v; n = immediate8 i in
      attempt (src2 i (v\<lparr>e_vvvv := 0\<rparr>) e) (\<lambda>(s, e).
      attempt (em_temp i e) (\<lambda>(r, e).
      attempt (em_temp i e) (\<lambda>(t, e).
        let e = (if mnem i \<in> {''Vpsrlq'', ''Vpsraq''} then shift_right_q (mnem i = ''Vpsraq'') n r t s e
                 else shift_left_q n r t s e) in
        finished (commit d r (v\<lparr>e_w := 1\<rparr>) e)))))"

definition abs_d :: "zinsn \<Rightarrow> ev \<Rightarrow> target \<Rightarrow> rewriting outcome" where
  "abs_d i v tgt =
     (let e = em_new tgt i; d = e_reg v in
      attempt (src2 i v e) (\<lambda>(s, e).
      attempt (em_temp i e) (\<lambda>(r, e).
      attempt (em_temp i e) (\<lambda>(t, e).
        let e = em_shift_imm 4 t (Rm_Reg s) 31 0 e;
            e = em_i0f 0xEF r s (Rm_Reg t) 0 0 e;
            e = em_i0f 0xFA r r (Rm_Reg t) 0 0 e in
        finished (commit d r v e)))))"

definition muludq :: "zinsn \<Rightarrow> ev \<Rightarrow> target \<Rightarrow> rewriting outcome" where
  "muludq i v tgt =
     (let e = em_new tgt i; d = e_reg v; s1 = e_vvvv v in
      attempt (src2 i v e) (\<lambda>(s2, e).
      attempt (em_temp i e) (\<lambda>(r, e).
      attempt (em_temp i e) (\<lambda>(t, e).
        let e = em_i38 0x40 r s1 (Rm_Reg s2) 0 e;
            e = em_i38 0x86 t s1 (Rm_Reg s2) 0 e;
            e = em_vpshufd t (Rm_Reg t) 0xa0 0 e;
            e = em_mask_imm 0xaaaa e;
            e = em_vmov r (Rm_Reg t) (kscr e) 0 e in
        finished (commit d r (v\<lparr>e_w := 1\<rparr>) e)))))"

definition shift_by_xmm :: "zinsn \<Rightarrow> ev \<Rightarrow> target \<Rightarrow> rewriting outcome" where
  "shift_by_xmm i v tgt =
     (let e = em_new tgt i; d = e_reg v; s1 = e_vvvv v;
          opc = (if mnem i = ''Vpslld'' then 0x47 else if mnem i = ''Vpsrld'' then 0x45 else 0x46) in
      attempt (em_temp i e) (\<lambda>(t, e).
        let e = (case mem_of i of
                   Some m \<Rightarrow> em_broadcast t (Rm_Mem m) 0 0 e
                 | None \<Rightarrow> (let e = em_vpermf32x4 t (Rm_Reg (e_rm v)) 0x00 0 e in em_vpshufd t (Rm_Reg t) 0x00 0 e)) in
        attempt (em_temp i e) (\<lambda>(r, e). finished (commit d r v (em_i38 opc r s1 (Rm_Reg t) 0 e)))))"

end
