(* ===== verification/Rw_Float.thy ===== *)
theory Rw_Float
  imports Rw_Lanes
begin

text \<open>
  The families of \<^verbatim>\<open>host/crates/avx512-xlate/src/rewrite.rs\<close> for permutes by vectors, the scalar
  conversions, rounding and scaling, and division and square root by refinement.
\<close>

section \<open>Permutes\<close>

definition cvt_pd2ps :: "zinsn \<Rightarrow> ev \<Rightarrow> target \<Rightarrow> rewriting outcome" where
  "cvt_pd2ps i v tgt =
     (let e = em_new tgt i; d = e_reg v in
      attempt (case mem_of i of
                 Some m \<Rightarrow>
                   attempt (em_temp i e) (\<lambda>(t, e).
                     let e = length_mask v e in Okay (t, em_load_unaligned t m (length_k v e) 0 False 0 e))
               | None \<Rightarrow> Okay (e_rm v, e)) (\<lambda>(s, e).
      attempt (temp_if (e_aaa v \<noteq> 0) d i e) (\<lambda>(r, e).
        let e = em_mvex 1 1 1 0x5A r 0 (Rm_Reg s) 0 0 None e;
            lanes = half_dwords v;
            e = (if e_ll v \<noteq> 2 then em_zero_lanes r (NOT lanes) e else e) in
        finished (commit d r (v\<lparr>e_ll := (if e_ll v = 2 then 1 else 0), e_w := 0\<rparr>) e))))"

definition qidx_to_didx :: "nat \<Rightarrow> u8 \<Rightarrow> u8 \<Rightarrow> em \<Rightarrow> em" where
  "qidx_to_didx od out q e =
     (let e = em_vpshufd out (Rm_Reg q) 0xa0 0 e;
          e = em_shift_imm 6 out (Rm_Reg out) 1 0 e in
      em_i0f 0xFE out out (Rm_Const od) 0 0 e)"

definition last_is_imm8 :: "zinsn \<Rightarrow> bool outcome" where
  "last_is_imm8 i = (if xcount i = 0 then Panics else Okay (xkind i (xcount i - 1) = K_Imm8))"

definition vpermq_table :: "u8 \<Rightarrow> u32 list" where
  "vpermq_table imm =
     map (\<lambda>j. of_nat (j div 8) * 8 + 2 * (drop_bit (2 * ((j div 2) mod 4)) (ucast imm) AND 3) + (of_nat j AND 1)) [0 ..< 16]"

definition vpermilpd_table :: "u8 \<Rightarrow> u32 list" where
  "vpermilpd_table imm =
     map (\<lambda>j. of_nat (j div 4) * 4 + 2 * (drop_bit (2 * (j div 4) + (j div 2) mod 2) (ucast imm) AND 1) + (of_nat j AND 1)) [0 ..< 16]"

definition two_tables :: "string set" where
  "two_tables = {''Vpermi2ps'', ''Vpermi2d'', ''Vpermt2ps'', ''Vpermt2d'', ''Vpermi2pd'', ''Vpermi2q'', ''Vpermt2pd'', ''Vpermt2q''}"

definition perm_two_tables :: "zinsn \<Rightarrow> ev \<Rightarrow> nat \<Rightarrow> u8 \<Rightarrow> u8 \<Rightarrow> em \<Rightarrow> em outcome" where
  "perm_two_tables i v od r t e =
     (let m = mnem i; is_i = (m \<in> {''Vpermi2ps'', ''Vpermi2d'', ''Vpermi2pd'', ''Vpermi2q''});
          qword = (m \<in> {''Vpermi2pd'', ''Vpermi2q'', ''Vpermt2pd'', ''Vpermt2q''}) in
      attempt (src2 i v e) (\<lambda>(s2, e).
        let (idx, s1) = (if is_i then (e_reg v, e_vvvv v) else (e_vvvv v, e_reg v));
            e = (if qword then qidx_to_didx od t idx e else e);
            ix = (if qword then t else idx);
            (sel, e) = em_const_dw 0x10 e;
            e = em_k e;
            e = em_mvex 2 1 0 0x27 (kscr e) ix (Rm_Const sel) 0 0 None e;
            e = em_vpermd r ix (Rm_Reg s1) 0 e in
        Okay (em_vpermd r ix (Rm_Reg s2) (kscr e) e)))"

text \<open>A permute of the second source by a constant table.\<close>

definition perm_by_table :: "zinsn \<Rightarrow> ev \<Rightarrow> u32 list \<Rightarrow> u8 \<Rightarrow> u8 \<Rightarrow> em \<Rightarrow> em outcome" where
  "perm_by_table i v table r t e =
     (let (c, e) = em_const_dws table e in
      attempt (src2 i (v\<lparr>e_vvvv := 0\<rparr>) e) (\<lambda>(s, e).
        let e = em_vmov t (Rm_Const c) 0 0 e in
        Okay (em_vpermd r t (Rm_Reg s) 0 e)))"

definition perm_by_vector :: "zinsn \<Rightarrow> ev \<Rightarrow> nat \<Rightarrow> u8 \<Rightarrow> u8 \<Rightarrow> em \<Rightarrow> em outcome" where
  "perm_by_vector i v od r t e =
     attempt (src2 i v e) (\<lambda>(s, e). Okay (em_vpermd r t (Rm_Reg s) 0 (qidx_to_didx od t (e_vvvv v) e)))"

definition permilpd_by_vector :: "zinsn \<Rightarrow> ev \<Rightarrow> u8 \<Rightarrow> u8 \<Rightarrow> em \<Rightarrow> em outcome" where
  "permilpd_by_vector i v r t e =
     attempt (src2 i v e) (\<lambda>(s2, e).
       let e = em_vpshufd t (Rm_Reg s2) 0xa0 0 e;
           e = em_shift_imm 2 t (Rm_Reg t) 1 0 e;
           (one, e) = em_const_dw 1 e;
           e = em_i0f 0xDB t t (Rm_Const one) 0 0 e;
           e = em_shift_imm 6 t (Rm_Reg t) 1 0 e;
           (bs, e) = em_const_dws [0, 1, 0, 1, 4, 5, 4, 5, 8, 9, 8, 9, 12, 13, 12, 13] e;
           e = em_i0f 0xFE t t (Rm_Const bs) 0 0 e in
       Okay (em_vpermd r t (Rm_Reg (e_vvvv v)) 0 e))"

definition permilps_by_vector :: "zinsn \<Rightarrow> ev \<Rightarrow> u8 \<Rightarrow> u8 \<Rightarrow> em \<Rightarrow> em outcome" where
  "permilps_by_vector i v r t e =
     attempt (src2 i v e) (\<lambda>(s2, e).
       let (three, e) = em_const_dw 3 e;
           e = em_i0f 0xDB t s2 (Rm_Const three) 0 0 e;
           (bs, e) = em_const_dws [0, 0, 0, 0, 4, 4, 4, 4, 8, 8, 8, 8, 12, 12, 12, 12] e;
           e = em_i0f 0xFE t t (Rm_Const bs) 0 0 e in
       Okay (em_vpermd r t (Rm_Reg (e_vvvv v)) 0 e))"

definition permd_narrow :: "zinsn \<Rightarrow> ev \<Rightarrow> u8 \<Rightarrow> u8 \<Rightarrow> em \<Rightarrow> em outcome" where
  "permd_narrow i v r t e =
     attempt (src2 i v e) (\<lambda>(s2, e).
       let (m, e) = em_const_dw (if e_ll v = 1 then 7 else 3) e;
           e = em_i0f 0xDB t (e_vvvv v) (Rm_Const m) 0 0 e in
       Okay (em_vpermd r t (Rm_Reg s2) 0 e))"

definition permute :: "zinsn \<Rightarrow> ev \<Rightarrow> target \<Rightarrow> rewriting outcome" where
  "permute i v tgt =
     (let e = em_new tgt i; m = mnem i; d = e_reg v in
      attempt (em_temp i e) (\<lambda>(r, e).
      attempt (em_temp i e) (\<lambda>(t, e).
        let (od, e) = em_const_dws [0, 1, 0, 1, 0, 1, 0, 1, 0, 1, 0, 1, 0, 1, 0, 1] e in
        attempt (if m \<in> {''Vpermq'', ''Vpermpd'', ''Vpermilpd''} then last_is_imm8 i else Okay False) (\<lambda>imm8.
        attempt (if m \<in> two_tables then perm_two_tables i v od r t e
                 else if m \<in> {''Vpermq'', ''Vpermpd''} \<and> imm8 then perm_by_table i v (vpermq_table (immediate8 i)) r t e
                 else if m \<in> {''Vpermq'', ''Vpermpd''} then perm_by_vector i v od r t e
                 else if m = ''Vpermilpd'' \<and> imm8 then perm_by_table i v (vpermilpd_table (immediate8 i)) r t e
                 else if m = ''Vpermilpd'' then permilpd_by_vector i v r t e
                 else if m = ''Vpermilps'' then permilps_by_vector i v r t e
                 else permd_narrow i v r t e) (\<lambda>e.
          finished (commit d r (v\<lparr>e_w := 0\<rparr>) e))))))"

section \<open>Scalar conversions\<close>

definition R_CVT_ROUND :: string where
  "R_CVT_ROUND = ''scalar conversion with embedded rounding: not expressed yet''"
definition R_CVT_SRC :: string where "R_CVT_SRC = ''conversion source is not a general register''"
definition R_CVT_DST :: string where "R_CVT_DST = ''conversion destination is not a general register''"

text \<open>The integer to the scratch slot as a qword, and whether it has 64 bits.\<close>

definition int_to_slot :: "zinsn \<Rightarrow> bool \<Rightarrow> em \<Rightarrow> (bool \<times> em) outcome" where
  "int_to_slot i unsignd e =
     (case mem_of i of
        Some m \<Rightarrow>
          (let wide = mem_int64 i;
               e = em_rax e;
               e = em_push (if wide then [0x48, 0x8b] else if unsignd then [0x8b] else [0x48, 0x63]) e;
               e = em_mem_modrm 0 m e in
           Okay (wide, em_gpr_scratch 0 True S_XFER True e))
      | None \<Rightarrow>
          attempt (ok_or_refuse i R_CVT_SRC (gpr (xreg_of i 2))) (\<lambda>(r, wide).
            if wide then Okay (wide, em_gpr_scratch r True S_XFER True e)
            else if unsignd then
              (let e = em_rax e;
                   e = (if r \<noteq> 0
                        then (let e = (if 8 \<le> r then em_push [0x41] e else e) in em_push [0x8b, 0xc0 OR (r AND 7)] e)
                        else e) in
               Okay (wide, em_gpr_scratch 0 True S_XFER True e))
            else
              (let e = em_rax e;
                   e = em_push [0x48 OR (drop_bit 3 r AND 1), 0x63, 0xc0 OR (r AND 7)] e in
               Okay (wide, em_gpr_scratch 0 True S_XFER True e))))"

definition add_two_64 :: "em \<Rightarrow> em" where
  "add_two_64 e =
     (let e = em_flags e;
          e = em_gpr_scratch 0 True S_XFER False e;
          e = em_push [0x48, 0xc1, 0xf8, 0x3f] e;
          e = em_rcx e;
          e = em_push ([0x48, 0xb9] @ le_bytes64 0x43f0000000000000) e;
          e = em_push [0x48, 0x21, 0xc8] e;
          e = em_gpr_scratch 0 True (S_XFER + 8) True e in
      em_fs_op [0xdc] 0 (S_XFER + 8) e)"

definition int_to_scalar :: "zinsn \<Rightarrow> ev \<Rightarrow> em \<Rightarrow> rewriting outcome" where
  "int_to_scalar i v e =
     (let to_double = (mnem i \<in> {''Vcvtsi2sd'', ''Vcvtusi2sd''}); unsignd = (mnem i \<in> {''Vcvtusi2ss'', ''Vcvtusi2sd''});
          d = e_reg v; s1 = e_vvvv v in
      attempt (int_to_slot i unsignd e) (\<lambda>(wide, e).
        let e = em_fs_op [0xdf] 5 S_XFER e;
            e = (if unsignd \<and> wide then add_two_64 e else e);
            e = em_fs_op (if to_double then [0xdd] else [0xd9]) 3 S_XFER e;
            e = em_mask_imm 1 e;
            e = em_broadcast d (Rm_Fs S_XFER) (kscr e) (of_bool to_double) e in
        finished (scalar_rest d s1 (of_bool to_double) e)))"

text \<open>The x87 conversion to an integer in the scratch slot, truncating when the instruction does.\<close>

definition x87_to_slot :: "bool \<Rightarrow> bool \<Rightarrow> em \<Rightarrow> em" where
  "x87_to_slot from_double truncated e =
     (let e = em_fs_op (if from_double then [0xdd] else [0xd9]) 0 S_XFER e;
          e = (if truncated then
                 (let e = em_flags e;
                      e = em_fs_op [0xd9] 7 S_CW e;
                      e = em_fs_op [0x0f, 0xb7] 0 S_CW e;
                      e = em_push [0x80, 0xcc, 0x0c] e;
                      e = em_push [0x66] e;
                      e = em_fs_op [0x89] 0 S_CW2 e in
                  em_fs_op [0xd9] 5 S_CW2 e)
               else e);
          e = em_fs_op [0xdf] 7 S_XFER e in
      if truncated then em_fs_op [0xd9] 5 S_CW e else e)"

definition fixpoint_to_slot :: "bool \<Rightarrow> bool \<Rightarrow> u8 \<Rightarrow> u8 \<Rightarrow> em \<Rightarrow> em" where
  "fixpoint_to_slot from_double truncated t s e =
     (let imm = (if truncated then 3 else 0);
          e = (if from_double then
                 (let e = em_mvex 3 3 1 0xE6 t 0 (Rm_Reg s) 0 0 (Some imm) e;
                      (big, e) = em_const_qw 0x41E0000000000000 e;
                      e = em_k e;
                      e = em_vcmp (kscr e) s (Rm_Const big) 5 0 1 0 e;
                      (ind, e) = em_const_dw 0x80000000 e in
                  em_vmov t (Rm_Const ind) (kscr e) 0 e)
               else
                 (let e = em_mvex 3 1 0 0xCB t 0 (Rm_Reg s) 0 0 (Some imm) e;
                      (big, e) = em_const_dw 0x4f000000 e;
                      e = em_k e;
                      e = em_vcmp (kscr e) s (Rm_Const big) 5 0 0 0 e;
                      (ind, e) = em_const_dw 0x80000000 e in
                  em_vmov t (Rm_Const ind) (kscr e) 0 e));
          e = em_mask_imm 1 e in
      em_mvex 2 1 0 0xD0 t 0 (Rm_Fs S_XFER) (kscr e) 0 None e)"

definition scalar_to_int :: "zinsn \<Rightarrow> ev \<Rightarrow> em \<Rightarrow> rewriting outcome" where
  "scalar_to_int i v e =
     (let m = mnem i; truncated = (m \<in> {''Vcvttss2si'', ''Vcvttsd2si'', ''Vcvttss2usi'', ''Vcvttsd2usi''});
          from_double = (m \<in> {''Vcvttsd2si'', ''Vcvtsd2si'', ''Vcvttsd2usi'', ''Vcvtsd2usi''});
          unsignd = (m \<in> {''Vcvttss2usi'', ''Vcvtss2usi'', ''Vcvttsd2usi'', ''Vcvtsd2usi''}) in
      attempt (ok_or_refuse i R_CVT_DST (gpr (xreg_of i 0))) (\<lambda>(r, wide).
      attempt (scalar_src2 i v (of_bool from_double) e) (\<lambda>(s, e).
      attempt (em_temp i e) (\<lambda>(t, e).
        if wide \<or> unsignd then
          (let e = em_vmov t (Rm_Reg s) 0 (of_bool from_double) e;
               e = em_mvex 2 1 0 0xD0 t 0 (Rm_Fs S_XFER) 0 0 None e;
               e = x87_to_slot from_double truncated e in
           finished (em_gpr_result r wide S_XFER e))
        else finished (em_gpr_result r False S_XFER (fixpoint_to_slot from_double truncated t s e))))))"

definition scalar_to_scalar :: "zinsn \<Rightarrow> ev \<Rightarrow> bool \<Rightarrow> em \<Rightarrow> rewriting outcome" where
  "scalar_to_scalar i v to_double e =
     (let d = e_reg v; s1 = e_vvvv v in
      attempt (scalar_src2 i v (if to_double then 0 else 1) e) (\<lambda>(s, e).
      attempt (em_temp i e) (\<lambda>(r, e).
        let e = (if to_double then em_mvex 1 0 0 0x5A r 0 (Rm_Reg s) 0 0 None e
                 else em_mvex 1 1 1 0x5A r 0 (Rm_Reg s) 0 0 None e) in
        finished (scalar_result d r s1 (of_bool to_double) e))))"

definition scalar_cvt :: "zinsn \<Rightarrow> ev \<Rightarrow> target \<Rightarrow> rewriting outcome" where
  "scalar_cvt i v tgt =
     (let e = em_new tgt i; m = mnem i in
      if e_b v then Refused (refuse i R_CVT_ROUND)
      else if m \<in> {''Vcvtsi2ss'', ''Vcvtsi2sd'', ''Vcvtusi2ss'', ''Vcvtusi2sd''} then int_to_scalar i v e
      else if m \<in> {''Vcvttss2si'', ''Vcvtss2si'', ''Vcvttsd2si'', ''Vcvtsd2si'', ''Vcvttss2usi'', ''Vcvtss2usi'',
                    ''Vcvttsd2usi'', ''Vcvtsd2usi''} then scalar_to_int i v e
      else scalar_to_scalar i v (m = ''Vcvtss2sd'') e)"

section \<open>Rounding and scaling\<close>

definition R_RND_FRACTION :: string where
  "R_RND_FRACTION = ''vrndscale to a fraction of a bit (M above 0): not expressed yet''"
definition R_RND_MXCSR :: string where
  "R_RND_MXCSR = ''vrndscale with the MXCSR rounding mode: not expressed yet''"
definition R_RND_MASK :: string where "R_RND_MASK = ''masked scalar round: not expressed yet''"

definition rndscale :: "zinsn \<Rightarrow> ev \<Rightarrow> target \<Rightarrow> rewriting outcome" where
  "rndscale i v tgt =
     (let e = em_new tgt i; imm = immediate8 i; rc = imm AND 3; w = e_w v in
      if drop_bit 4 imm \<noteq> 0 then Refused (refuse i R_RND_FRACTION)
      else if imm AND 4 \<noteq> 0 then Refused (refuse i R_RND_MXCSR)
      else if mnem i \<in> {''Vrndscaless'', ''Vrndscalesd''} then
        (if e_aaa v \<noteq> 0 then Refused (refuse i R_RND_MASK)
         else
           (let d = e_reg v; s1 = e_vvvv v; (r, sss) = bcast_or_reg i v;
                e = em_mask_imm 1 e;
                e = em_mvex 3 1 w 0x52 d 0 r (kscr e) sss (Some rc) e in
            finished (scalar_rest d s1 w e)))
      else
        (let d = e_reg v in
         attempt (src2 i (v\<lparr>e_vvvv := 0\<rparr>) e) (\<lambda>(s, e).
         attempt (temp_if (e_aaa v \<noteq> 0 \<or> e_ll v \<noteq> 2) d i e) (\<lambda>(r, e).
           finished (commit d r v (em_mvex 3 1 w 0x52 r 0 (Rm_Reg s) 0 0 (Some rc) e))))))"

definition scalef :: "zinsn \<Rightarrow> ev \<Rightarrow> target \<Rightarrow> rewriting outcome" where
  "scalef i v tgt =
     (let e = em_new tgt i; d = e_reg v; s1 = e_vvvv v in
      attempt (src2 i v e) (\<lambda>(s2, e).
      attempt (em_temp i e) (\<lambda>(t, e).
      attempt (em_temp i e) (\<lambda>(r, e).
        let e = em_mvex 3 1 0 0xCB t 0 (Rm_Reg s2) 0 0 (Some 1) e;
            e = em_mvex 2 1 0 0x84 r s1 (Rm_Reg t) 0 0 None e in
        finished (commit d r v e)))))"

end
