(* ===== verification/Rw_Divide.thy ===== *)
theory Rw_Divide
  imports Rw_Float
begin

text \<open>
  Division and square root of \<^verbatim>\<open>host/crates/avx512-xlate/src/rewrite.rs\<close>: refinement of the card's
  estimates, with the exponent arithmetic of the double forms.
\<close>

section \<open>Steps\<close>

definition em_recip_ps :: "u8 \<Rightarrow> u8 \<Rightarrow> u8 \<Rightarrow> em \<Rightarrow> em" where
  "em_recip_ps r b t e =
     (let e = em_mvex 2 1 0 0xCA r 0 (Rm_Reg b) 0 0 None e;
          (one, e) = em_const_dw 0x3f800000 e;
          e = em_vmov t (Rm_Const one) 0 0 e;
          e = em_fma 0xBC t b (Rm_Reg r) 0 e in
      em_fma 0xB8 r t (Rm_Reg r) 0 e)"

definition em_dexp :: "u8 \<Rightarrow> u8 \<Rightarrow> em \<Rightarrow> em" where
  "em_dexp t x e =
     (let e = em_shift_imm 2 t (Rm_Reg x) 20 0 e;
          (m, e) = em_const_dw 0x7ff e in
      em_i0f 0xDB t t (Rm_Const m) 0 0 e)"

definition em_dsetexp :: "u8 \<Rightarrow> u8 \<Rightarrow> u8 \<Rightarrow> u8 \<Rightarrow> em \<Rightarrow> em" where
  "em_dsetexp out x expo t e =
     (let e = em_mask_imm 0xaaaa e;
          (keep, e) = em_const_dw 0x800fffff e;
          e = em_vmov out (Rm_Reg x) 0 0 e;
          e = em_i0f 0xDB out out (Rm_Const keep) (kscr e) 0 e;
          e = em_shift_imm 6 t (Rm_Reg expo) 20 0 e in
      em_i0f 0xEB out out (Rm_Reg t) (kscr e) 0 e)"

definition em_dpow2 :: "u8 \<Rightarrow> u8 \<Rightarrow> em \<Rightarrow> em" where
  "em_dpow2 out expo e =
     (let e = em_shift_imm 6 out (Rm_Reg expo) 20 0 e;
          e = em_mask_imm 0x5555 e in
      em_zero out (kscr e) 0 e)"

text \<open>\<open>select\<close>: where a compare of \<open>x\<close> with a constant or a register holds, \<open>d\<close> takes \<open>s\<close>.\<close>

definition select :: "u8 \<Rightarrow> rm \<Rightarrow> u8 \<Rightarrow> u8 \<Rightarrow> rm \<Rightarrow> u8 \<Rightarrow> em \<Rightarrow> em" where
  "select x y pred d s w e =
     (let e = em_vcmp (kscr e) x y pred 0 w 0 e in em_vmov d s (kscr e) w e)"

section \<open>Single precision\<close>

definition div_ps :: "u8 \<Rightarrow> u8 \<Rightarrow> u8 \<Rightarrow> u8 \<Rightarrow> u8 \<Rightarrow> em \<Rightarrow> em" where
  "div_ps a b r t q e =
     (let e = em_recip_ps r b t e;
          e = em_vmulp q a (Rm_Reg r) 0 e;
          e = em_vmov t (Rm_Reg a) 0 0 e;
          e = em_fma 0xBC t b (Rm_Reg q) 0 e;
          e = em_fma 0xB8 q t (Rm_Reg r) 0 e;
          e = em_mvex 2 1 0 0xCA r 0 (Rm_Reg b) 0 0 None e;
          e = em_vmulp r a (Rm_Reg r) 0 e;
          (absm, e) = em_const_dw 0x7fffffff e;
          e = em_i0f 0xDB t b (Rm_Const absm) 0 0 e;
          (zero, e) = em_const_dw 0 e;
          e = select t (Rm_Const zero) 0 q (Rm_Reg r) 0 e;
          (inf, e) = em_const_dw 0x7f800000 e;
          e = select t (Rm_Const inf) 0 q (Rm_Reg r) 0 e;
          e = em_i0f 0xDB t a (Rm_Const absm) 0 0 e in
      select t (Rm_Const inf) 0 q (Rm_Reg r) 0 e)"

definition sqrt_ps :: "u8 \<Rightarrow> u8 \<Rightarrow> u8 \<Rightarrow> u8 \<Rightarrow> em \<Rightarrow> em" where
  "sqrt_ps a r t q e =
     (let e = em_mvex 2 1 0 0xCB r 0 (Rm_Reg a) 0 0 None e;
          (half, e) = em_const_dw 0x3f000000 e;
          (three_halves, e) = em_const_dw 0x3fc00000 e;
          e = em_vmulp t a (Rm_Reg r) 0 e;
          e = em_vmulp t t (Rm_Reg r) 0 e;
          e = em_vmov q (Rm_Const three_halves) 0 0 e;
          e = em_fma 0xBC q t (Rm_Const half) 0 e;
          e = em_vmulp r r (Rm_Reg q) 0 e;
          e = em_vmulp q a (Rm_Reg r) 0 e;
          e = em_vmov t (Rm_Reg a) 0 0 e;
          e = em_fma 0xBC t q (Rm_Reg q) 0 e;
          e = em_vmulp r r (Rm_Const half) 0 e;
          e = em_fma 0xB8 q t (Rm_Reg r) 0 e;
          (zero, e) = em_const_dw 0 e;
          e = select a (Rm_Const zero) 0 q (Rm_Reg a) 0 e;
          (inf, e) = em_const_dw 0x7f800000 e in
      select a (Rm_Const inf) 0 q (Rm_Reg a) 0 e)"

section \<open>Double precision\<close>

text \<open>One Newton step for a reciprocal, one for the inverse square root.\<close>

definition recip_step :: "nat \<Rightarrow> u8 \<Rightarrow> u8 \<Rightarrow> u8 \<Rightarrow> em \<Rightarrow> em" where
  "recip_step one r t q e =
     (let e = em_vmov t (Rm_Const one) 0 1 e;
          e = em_fma 0xBC t r (Rm_Reg q) 1 e in
      em_fma 0xB8 q t (Rm_Reg q) 1 e)"

definition rsqrt_step :: "nat \<Rightarrow> nat \<Rightarrow> u8 \<Rightarrow> u8 \<Rightarrow> u8 \<Rightarrow> em \<Rightarrow> em" where
  "rsqrt_step half mhalf r t q e =
     (let e = em_vmulp t r (Rm_Reg q) 1 e;
          e = em_vmulp t t (Rm_Reg q) 1 e;
          e = em_vmulp t t (Rm_Reg q) 1 e;
          e = em_vmulp t t (Rm_Const mhalf) 1 e;
          e = em_fma 0xB8 q q (Rm_Const half) 1 e in
      em_mvex 1 1 1 0x58 q q (Rm_Reg t) 0 0 None e)"

text \<open>Quotient in \<open>t\<close>: the operands scaled, refined, scaled back.\<close>

definition div_pd_quotient :: "u8 \<Rightarrow> u8 \<Rightarrow> u8 \<Rightarrow> u8 \<Rightarrow> u8 \<Rightarrow> u8 \<Rightarrow> em \<Rightarrow> em" where
  "div_pd_quotient a b r t q ex e =
     (let e = em_dexp ex b e;
          (c1023, e) = em_const_dw 1023 e;
          e = em_vmov t (Rm_Const c1023) 0 0 e;
          e = em_dsetexp r b t q e;
          (c2046, e) = em_const_dw 2046 e;
          e = em_vmov t (Rm_Const c2046) 0 0 e;
          e = em_i0f 0xFA t t (Rm_Reg ex) 0 0 e;
          e = em_dpow2 ex t e;
          e = em_vmulp ex ex (Rm_Reg a) 1 e;
          e = em_mvex 1 1 1 0x5A t 0 (Rm_Reg r) 0 0 None e;
          e = em_mvex 2 1 0 0xCA t 0 (Rm_Reg t) 0 0 None e;
          e = em_mvex 1 0 0 0x5A q 0 (Rm_Reg t) 0 0 None e;
          (one, e) = em_const_qw 0x3ff0000000000000 e;
          e = recip_step one r t q e;
          e = recip_step one r t q e;
          e = em_vmulp t ex (Rm_Reg q) 1 e;
          e = em_fma 0xBC ex r (Rm_Reg t) 1 e in
      em_fma 0xB8 t ex (Rm_Reg q) 1 e)"

definition div_pd_fixup :: "u8 \<Rightarrow> u8 \<Rightarrow> u8 \<Rightarrow> u8 \<Rightarrow> u8 \<Rightarrow> u8 \<Rightarrow> em \<Rightarrow> em" where
  "div_pd_fixup a b r t q ex e =
     (let (absm, e) = em_const_qw 0x7fffffffffffffff e;
          (signm, e) = em_const_qw 0x8000000000000000 e;
          (zero, e) = em_const_qw 0 e;
          (inf, e) = em_const_qw 0x7ff0000000000000 e;
          (nan, e) = em_const_qw 0xfff8000000000000 e;
          e = em_i0f 0xEF q a (Rm_Reg b) 0 1 e;
          e = em_i0f 0xDB q q (Rm_Const signm) 0 1 e;
          e = em_i0f 0xDB r b (Rm_Const absm) 0 1 e;
          e = em_vcmp (kscr e) r (Rm_Const zero) 0 0 1 0 e;
          e = em_i0f 0xEB ex q (Rm_Const inf) 0 1 e;
          e = em_vmov t (Rm_Reg ex) (kscr e) 1 e;
          e = select r (Rm_Const inf) 0 t (Rm_Reg q) 1 e;
          e = em_i0f 0xDB ex a (Rm_Const absm) 0 1 e;
          e = em_mvex 1 1 1 0x58 r r (Rm_Reg ex) 0 0 None e;
          e = select r (Rm_Const zero) 0 t (Rm_Const nan) 1 e;
          e = select a (Rm_Reg a) 3 t (Rm_Reg a) 1 e in
      select b (Rm_Reg b) 3 t (Rm_Reg b) 1 e)"

definition sqrt_pd :: "u8 \<Rightarrow> u8 \<Rightarrow> u8 \<Rightarrow> u8 \<Rightarrow> u8 \<Rightarrow> em \<Rightarrow> em" where
  "sqrt_pd a r t q ex e =
     (let e = em_dexp ex a e;
          (one_dw, e) = em_const_dw 1 e;
          e = em_i0f 0xFE t ex (Rm_Const one_dw) 0 0 e;
          e = em_i0f 0xDB t t (Rm_Const one_dw) 0 0 e;
          (c1023, e) = em_const_dw 1023 e;
          e = em_i0f 0xFE t t (Rm_Const c1023) 0 0 e;
          e = em_dsetexp r a t q e;
          (c2046, e) = em_const_dw 2046 e;
          e = em_i0f 0xFA q ex (Rm_Reg t) 0 0 e;
          e = em_i0f 0xFE q q (Rm_Const c2046) 0 0 e;
          e = em_shift_imm 4 q (Rm_Reg q) 1 0 e;
          e = em_dpow2 ex q e;
          e = em_mvex 1 1 1 0x5A t 0 (Rm_Reg r) 0 0 None e;
          e = em_mvex 2 1 0 0xCB t 0 (Rm_Reg t) 0 0 None e;
          e = em_mvex 1 0 0 0x5A q 0 (Rm_Reg t) 0 0 None e;
          (half, e) = em_const_qw 0x3fe0000000000000 e;
          (mhalf, e) = em_const_qw 0xbfe0000000000000 e;
          e = rsqrt_step half mhalf r t q e;
          e = rsqrt_step half mhalf r t q e;
          e = em_vmulp t r (Rm_Reg q) 1 e;
          e = em_vmulp q q (Rm_Const half) 1 e;
          e = em_fma 0xBC r t (Rm_Reg t) 1 e;
          e = em_fma 0xB8 t r (Rm_Reg q) 1 e;
          e = em_vmulp t t (Rm_Reg ex) 1 e;
          (zero, e) = em_const_qw 0 e;
          (inf, e) = em_const_qw 0x7ff0000000000000 e;
          e = select a (Rm_Const zero) 0 t (Rm_Reg a) 1 e;
          e = select a (Rm_Const inf) 0 t (Rm_Reg a) 1 e in
      select a (Rm_Reg a) 3 t (Rm_Reg a) 1 e)"

section \<open>The family\<close>

definition R_DIV_MASK :: string where
  "R_DIV_MASK = ''masked scalar divide or square root: not expressed yet''"
definition R_DIV_ROUND :: string where "R_DIV_ROUND = ''embedded rounding: not expressed yet''"

definition div_stage :: "zinsn \<Rightarrow> ev \<Rightarrow> bool \<Rightarrow> bool \<Rightarrow> em \<Rightarrow> (u8 \<times> em) outcome" where
  "div_stage i v scalar use_vvvv e =
     (if scalar then scalar_src2 i v (e_w v) e
      else src2 i (if use_vvvv then v else v\<lparr>e_vvvv := 0\<rparr>) e)"

definition divsqrt :: "zinsn \<Rightarrow> ev \<Rightarrow> target \<Rightarrow> rewriting outcome" where
  "divsqrt i v tgt =
     (let e = em_new tgt i; m = mnem i; w = e_w v; d = e_reg v;
          scalar = (m \<in> {''Vdivss'', ''Vdivsd'', ''Vsqrtss'', ''Vsqrtsd''});
          is_div = (m \<in> {''Vdivps'', ''Vdivpd'', ''Vdivss'', ''Vdivsd''});
          fin = (\<lambda>result e. if scalar then finished (scalar_result d result (e_vvvv v) w e)
                            else finished (commit d result v e)) in
      if scalar \<and> e_aaa v \<noteq> 0 then Refused (refuse i R_DIV_MASK)
      else if e_b v \<and> mem_of i = None then Refused (refuse i R_DIV_ROUND)
      else
        attempt (div_stage i v scalar is_div e) (\<lambda>(x, e).
          let (a, b) = (if is_div then (e_vvvv v, x) else (x, 0)) in
          attempt (em_temp i e) (\<lambda>(r, e).
          attempt (em_temp i e) (\<lambda>(t, e).
          attempt (em_temp i e) (\<lambda>(q, e).
            let e = em_k e in
            if is_div \<and> w = 0 then fin q (div_ps a b r t q e)
            else if is_div then
              attempt (em_temp i e) (\<lambda>(ex, e).
                let e = div_pd_quotient a b r t q ex e in
                fin t (div_pd_fixup a b r t q ex e))
            else if w = 0 then fin q (sqrt_ps a r t q e)
            else attempt (em_temp i e) (\<lambda>(ex, e). fin t (sqrt_pd a r t q ex e)))))))"

end
