(* ===== verification/Rw_Rewrite.thy ===== *)
theory Rw_Rewrite
  imports Rw_Divide
begin

text \<open>
  The dispatch of \<^verbatim>\<open>host/crates/avx512-xlate/src/rewrite.rs\<close>: the whitelist, compares, the mask
  instructions, the general masked form, the table of families, and \<^verbatim>\<open>rewrite\<close> itself.
\<close>

section \<open>Compares\<close>

text \<open>The card's predicate, whether its operands are swapped, and a second compare to join.\<close>

definition compare_plan :: "u8 \<Rightarrow> (u8 \<times> bool \<times> (u8 \<times> bool) option) option" where
  "compare_plan p =
     (if p = 8 \<or> p = 24 then Some (0, False, Some (3, False))
      else if p = 9 \<or> p = 25 then Some (6, True, None)
      else if p = 10 \<or> p = 26 then Some (5, True, None)
      else if p = 12 \<or> p = 28 then Some (1, False, Some (1, True))
      else if p = 13 \<or> p = 29 then Some (2, True, None)
      else if p = 14 \<or> p = 30 then Some (1, True, None)
      else if 16 \<le> p \<and> p \<le> 23 then Some (p - 16, False, None)
      else None)"

definition set_k :: "u8 \<Rightarrow> u32 \<Rightarrow> em \<Rightarrow> em" where
  "set_k kd val e = (let e = em_mov_eax val e in em_kmov_k_r kd 0 e)"

definition vcmp_swapped :: "bool \<Rightarrow> u8 \<Rightarrow> u8 \<Rightarrow> u8 \<Rightarrow> u8 \<Rightarrow> u8 \<Rightarrow> u8 \<Rightarrow> em \<Rightarrow> em" where
  "vcmp_swapped swap kd s1 s2 p k w =
     (if swap then em_vcmp kd s2 (Rm_Reg s1) p k w 0 else em_vcmp kd s1 (Rm_Reg s2) p k w 0)"

definition second_compare :: "u8 \<times> bool \<Rightarrow> ev \<Rightarrow> u8 \<Rightarrow> u8 \<Rightarrow> u8 \<Rightarrow> em \<Rightarrow> em" where
  "second_compare ps v kd s2 keff e =
     (let k2 = (case List.find (\<lambda>k. k \<noteq> kd \<and> k \<noteq> kscr e \<and> k \<noteq> e_aaa v) [7, 6, 5, 4, 3, 2, 1] of None \<Rightarrow> 1 | Some k \<Rightarrow> k);
          e = em_rcx e;
          e = em_kmov_r_k 1 k2 e;
          e = vcmp_swapped (snd ps) k2 (e_vvvv v) s2 (fst ps) keff (e_w v) e;
          e = em_kor kd k2 e in
      em_kmov_k_r k2 1 e)"

definition compare :: "zinsn \<Rightarrow> ev \<Rightarrow> target \<Rightarrow> rewriting outcome" where
  "compare i v tgt =
     (let e = em_new tgt i; kd = e_reg v AND 7; s1 = e_vvvv v; w = e_w v; vl = vl_lanes (e_ll v) w; full = (e_ll v = 2);
          e = (if full then e else lane_mask vl (e_aaa v) e);
          keff = (if full then e_aaa v else kscr e);
          pred = immediate8 i;
          true_mask = (\<lambda>e. if full \<and> e_aaa v = 0 then set_k kd 0xffff e else em_kmov_kk kd keff e) in
      if e_map v = 3 then finished (if pred AND 7 = 3 then set_k kd 0 e else true_mask e)
      else
        attempt (src2 i v e) (\<lambda>(s2, e).
          if pred = 11 \<or> pred = 27 then finished (set_k kd 0 e)
          else if pred = 15 \<or> pred = 31 then finished (true_mask e)
          else
            attempt (unwrap (compare_plan pred)) (\<lambda>(p, swap, second).
              let e = vcmp_swapped swap kd s1 s2 p keff w e;
                  e = (case second of None \<Rightarrow> e | Some ps \<Rightarrow> second_compare ps v kd s2 keff e);
                  e = (if \<not> full \<or> e_aaa v \<noteq> 0 then em_kand kd keff e else e) in
              finished e)))"

section \<open>Mask instructions\<close>

definition R_KMOV_SRC :: string where "R_KMOV_SRC = ''kmov source''"
definition R_KMOV_DST :: string where "R_KMOV_DST = ''kmov destination''"
definition R_KMOV_GPRS :: string where "R_KMOV_GPRS = ''kmov between general registers''"
definition R_KMOV_SHAPE :: string where "R_KMOV_SHAPE = ''kmov operand shape''"
definition R_VEX :: string where "R_VEX = ''a VEX instruction the card does not have''"

definition k_operand :: "zinsn \<Rightarrow> nat \<Rightarrow> u8 outcome" where
  "k_operand i n = unwrap (kreg (xreg_of i n))"

definition three :: "zinsn \<Rightarrow> u8 \<Rightarrow> em \<Rightarrow> em outcome" where
  "three i opc e =
     attempt (k_operand i 0) (\<lambda>k1.
     attempt (k_operand i 1) (\<lambda>k2.
     attempt (k_operand i 2) (\<lambda>k3.
       if k1 = k2 then Okay (em_vexk opc k1 k3 e)
       else if k1 = k3 \<and> opc \<in> {0x41, 0x45, 0x47, 0x46} then Okay (em_vexk opc k1 k2 e)
       else if k1 \<noteq> k3 then Okay (em_vexk opc k1 k3 (em_kmov_kk k1 k2 e))
       else
         (let e = em_k e;
              e = em_kmov_kk (kscr e) k2 e;
              e = em_vexk opc (kscr e) k3 e in
          Okay (em_kmov_kk k1 (kscr e) e)))))"

definition kmov :: "zinsn \<Rightarrow> em \<Rightarrow> em outcome" where
  "kmov i e =
     (case (xkind i 0, xkind i 1) of
        (K_Register, K_Register) \<Rightarrow>
          (case (kreg (xreg_of i 0), kreg (xreg_of i 1)) of
             (Some a, Some b) \<Rightarrow> Okay (em_kmov_kk a b e)
           | (Some a, None) \<Rightarrow>
               attempt (ok_or_refuse i R_KMOV_SRC (gpr (xreg_of i 1))) (\<lambda>(r, _). Okay (em_kmov_k_r a r e))
           | (None, Some b) \<Rightarrow>
               attempt (ok_or_refuse i R_KMOV_DST (gpr (xreg_of i 0))) (\<lambda>(r, _). Okay (em_kmov_r_k r b e))
           | (None, None) \<Rightarrow> Refused (refuse i R_KMOV_GPRS))
      | (K_Register, K_Memory) \<Rightarrow>
          attempt (k_operand i 0) (\<lambda>a.
          attempt (unwrap (mem_of i)) (\<lambda>m.
            let e = em_rax e;
                e = em_push [0x0f, 0xb7] e;
                e = em_mem_modrm 0 m e in
            Okay (em_kmov_k_r a 0 e)))
      | (K_Memory, K_Register) \<Rightarrow>
          attempt (k_operand i 1) (\<lambda>b.
          attempt (unwrap (mem_of i)) (\<lambda>m.
            let e = em_rax e;
                e = em_kmov_r_k 0 b e;
                e = em_push [0x66, 0x89] e in
            Okay (em_mem_modrm 0 m e)))
      | _ \<Rightarrow> Refused (refuse i R_KMOV_SHAPE))"

definition kunpck_code :: bytes where
  "kunpck_code = [0x0f, 0xb6, 0xc0] @ [0xc1, 0xe1, 0x08] @ [0x0f, 0xb6, 0xc9] @ [0xc1, 0xe1, 0x08] @ [0x09, 0xc8]"

definition kunpckbw :: "zinsn \<Rightarrow> em \<Rightarrow> em outcome" where
  "kunpckbw i e =
     attempt (k_operand i 0) (\<lambda>k1.
     attempt (k_operand i 1) (\<lambda>k2.
     attempt (k_operand i 2) (\<lambda>k3.
       let e = em_flags e;
           e = em_rcx e;
           e = em_kmov_r_k 0 k3 e;
           e = em_kmov_r_k 1 k2 e;
           e = em_push kunpck_code e in
       Okay (em_kmov_k_r k1 0 e))))"

definition kshift_code :: "bool \<Rightarrow> u8 \<Rightarrow> bytes" where
  "kshift_code left n =
     (if 16 \<le> n then [0x31, 0xc0]
      else [0xc1, if left then 0xe0 else 0xe8, n] @ (if left then [0x0f, 0xb7, 0xc0] else []))"

definition kshift :: "zinsn \<Rightarrow> em \<Rightarrow> em outcome" where
  "kshift i e =
     attempt (k_operand i 0) (\<lambda>k1.
     attempt (k_operand i 1) (\<lambda>k2.
       let left = (mnem i \<in> {''Kshiftlw'', ''Kshiftlb'', ''Kshiftld'', ''Kshiftlq''});
           e = em_flags e;
           e = em_kmov_r_k 0 k2 e;
           e = em_push (kshift_code left (immediate8 i)) e in
       Okay (em_kmov_k_r k1 0 e)))"

text \<open>VEX.L, read from the prefix bytes.\<close>

definition vex_l1 :: "bytes \<Rightarrow> bool" where
  "vex_l1 bs \<longleftrightarrow>
     (3 \<le> length bs \<and> bs ! 0 = 0xc5 \<and> drop_bit 2 (bs ! 1) AND 1 = 1)
     \<or> (4 \<le> length bs \<and> bs ! 0 = 0xc4 \<and> drop_bit 2 (bs ! 2) AND 1 = 1)"

definition in_place_as_is :: "zinsn \<Rightarrow> bytes \<Rightarrow> rewriting outcome" where
  "in_place_as_is i bs = attempt (first_bytes (xlen i) bs) (\<lambda>b. Okay (In_place b))"

text \<open>\<open>kortest\<close> outside the quick path: in place under the two-byte prefix, else the card's form.\<close>

definition kortest :: "zinsn \<Rightarrow> bytes \<Rightarrow> em \<Rightarrow> rewriting outcome" where
  "kortest i bs e =
     (let others = attempt (k_operand i 0) (\<lambda>a. attempt (k_operand i 1) (\<lambda>b. finished (em_vexk 0x98 a b e))) in
      if vex_l1 bs then others
      else if length bs = 0 then Panics
      else if bs ! 0 \<noteq> 0xc5 then others
      else if length bs = 1 then Panics
      else if bs ! 1 = 0xf8 then in_place_as_is i bs else others)"

definition kops :: "zinsn \<Rightarrow> bytes \<Rightarrow> target \<Rightarrow> rewriting outcome" where
  "kops i bs tgt =
     (let e = em_new tgt i; m = mnem i; done = (\<lambda>r. attempt r finished) in
      if \<not> vex_l1 bs \<and> m \<in> {''Kmovw'', ''Knotw'', ''Kortestw''} \<and> xkind i 0 = K_Register \<and> xkind i 1 = K_Register
      then in_place_as_is i bs
      else if m \<in> {''Kmovw'', ''Kmovd'', ''Kmovq'', ''Kmovb''} then done (kmov i e)
      else if m \<in> {''Kandw'', ''Kandd'', ''Kandq'', ''Kandb''} then done (three i 0x41 e)
      else if m \<in> {''Kandnw'', ''Kandnd'', ''Kandnq'', ''Kandnb''} then done (three i 0x42 e)
      else if m \<in> {''Korw'', ''Kord'', ''Korq'', ''Korb''} then done (three i 0x45 e)
      else if m \<in> {''Kxnorw'', ''Kxnord'', ''Kxnorq'', ''Kxnorb''} then done (three i 0x46 e)
      else if m \<in> {''Kxorw'', ''Kxord'', ''Kxorq'', ''Kxorb''} then done (three i 0x47 e)
      else if m \<in> {''Knotw'', ''Knotd'', ''Knotq'', ''Knotb''} then
        done (attempt (k_operand i 0) (\<lambda>a. attempt (k_operand i 1) (\<lambda>b. Okay (em_knot a b e))))
      else if m \<in> {''Kortestw'', ''Kortestd'', ''Kortestq'', ''Kortestb''} then kortest i bs e
      else if m = ''Kunpckbw'' then done (kunpckbw i e)
      else if m \<in> {''Kshiftlw'', ''Kshiftrw'', ''Kshiftlb'', ''Kshiftrb'', ''Kshiftld'', ''Kshiftrd'', ''Kshiftlq'', ''Kshiftrq''}
      then done (kshift i e)
      else Refused (refuse i R_VEX))"

section \<open>The whitelist\<close>

record canon_insn =
  c_map :: u8
  c_pp :: u8
  c_w :: u8
  c_op :: u8
  c_imm :: "u8 option"

definition canon :: "u8 \<Rightarrow> u8 \<Rightarrow> u8 \<Rightarrow> u8 \<Rightarrow> u8 \<Rightarrow> canon_insn option" where
  "canon mp pp w opc reg =
     (let same = Some \<lparr>c_map = mp, c_pp = pp, c_w = w, c_op = opc, c_imm = None\<rparr>;
          other = (\<lambda>a b c d. Some \<lparr>c_map = a, c_pp = b, c_w = c, c_op = d, c_imm = None\<rparr>);
          imm = (\<lambda>a b c d n. Some \<lparr>c_map = a, c_pp = b, c_w = c, c_op = d, c_imm = Some n\<rparr>);
          x = (mp, pp, w, opc) in
      if x \<in> {(1, 0, 0, 0x28), (1, 0, 0, 0x29), (1, 1, 1, 0x28), (1, 1, 1, 0x29)} then same
      else if x \<in> {(1, 0, 0, 0x58), (1, 0, 0, 0x59), (1, 0, 0, 0x5C)} then same
      else if x \<in> {(1, 1, 1, 0x58), (1, 1, 1, 0x59), (1, 1, 1, 0x5C)} then same
      else if x \<in> {(1, 1, 0, 0x6F), (1, 1, 0, 0x7F), (1, 1, 1, 0x6F), (1, 1, 1, 0x7F)} then same
      else if x \<in> {(1, 1, 0, 0xFE), (1, 1, 0, 0xFA), (1, 1, 0, 0xDB), (1, 1, 0, 0xDF), (1, 1, 0, 0xEB), (1, 1, 0, 0xEF)} then same
      else if x \<in> {(1, 1, 1, 0xDB), (1, 1, 1, 0xDF), (1, 1, 1, 0xEB), (1, 1, 1, 0xEF)} then same
      else if x = (1, 0, 0, 0x54) then other 1 1 0 0xDB
      else if x = (1, 0, 0, 0x55) then other 1 1 0 0xDF
      else if x = (1, 0, 0, 0x56) then other 1 1 0 0xEB
      else if x = (1, 0, 0, 0x57) then other 1 1 0 0xEF
      else if x = (1, 1, 1, 0x54) then other 1 1 1 0xDB
      else if x = (1, 1, 1, 0x55) then other 1 1 1 0xDF
      else if x = (1, 1, 1, 0x56) then other 1 1 1 0xEB
      else if x = (1, 1, 1, 0x57) then other 1 1 1 0xEF
      else if x \<in> {(1, 1, 0, 0x76), (1, 1, 0, 0x66)} then same
      else if x = (1, 1, 0, 0x72) \<and> reg \<in> {2, 4, 6} then same
      else if x = (1, 1, 0, 0x70) then same
      else if x = (3, 1, 0, 0x04) then other 1 1 0 0x70
      else if x = (1, 2, 0, 0x16) then imm 1 1 0 0x70 0xf5
      else if x = (1, 2, 0, 0x12) then imm 1 1 0 0x70 0xa0
      else if x = (1, 3, 1, 0x12) then imm 1 1 0 0x70 0x44
      else if x \<in> {(3, 1, 0, 0x1F), (3, 1, 0, 0x1E)} then same
      else if x \<in> {(1, 0, 0, 0xC2), (1, 1, 1, 0xC2)} then same
      else if x \<in> {(2, 1, 0, 0x18), (2, 1, 1, 0x19)} then same
      else if x \<in> {(2, 1, 0, 0x58), (2, 1, 1, 0x59)} then same
      else if x \<in> {(2, 1, 0, 0x5A), (2, 1, 1, 0x5B), (2, 1, 0, 0x1A), (2, 1, 1, 0x1B)} then same
      else if mp = 2 \<and> pp = 1 \<and>
        opc \<in> {0x98, 0xA8, 0xB8, 0x9A, 0xAA, 0xBA, 0x9C, 0xAC, 0xBC, 0x9E, 0xAE, 0xBE} then same
      else if x \<in> {(2, 1, 0, 0x40), (2, 1, 0, 0x36), (2, 1, 0, 0x45), (2, 1, 0, 0x46), (2, 1, 0, 0x47), (2, 1, 0, 0x39),
                   (2, 1, 0, 0x3B), (2, 1, 0, 0x3D), (2, 1, 0, 0x3F)} then same
      else if x = (2, 1, 0, 0x16) then other 2 1 0 0x36
      else if mp = 2 \<and> pp = 1 \<and> opc \<in> {0x64, 0x65} then same
      else if x = (2, 1, 0, 0x27) then same
      else if x \<in> {(2, 1, 0, 0x42), (3, 1, 0, 0x26)} then same
      else if x = (3, 1, 0, 0x03) then same
      else if x = (1, 0, 0, 0x5B) then imm 3 0 0 0xCB 0x00
      else if x = (1, 3, 0, 0x7A) then imm 3 0 0 0xCA 0x00
      else if x = (1, 0, 0, 0x5A) then same
      else None)"

section \<open>The general masked form\<close>

definition R_STORE :: string where "R_STORE = ''store without a memory operand''"

definition generic_store :: "zinsn \<Rightarrow> ev \<Rightarrow> em \<Rightarrow> rewriting outcome" where
  "generic_store i v e =
     attempt (ok_or_refuse i R_STORE (mem_of i)) (\<lambda>m.
       let full = (e_ll v = 2); kn = e_aaa v; dvl = vl_lanes (e_ll v) 0;
           e = (if full then e else em_mask_imm dvl e);
           span = (if full then 0 else kscr e) in
       if kn = 0 then finished (em_store_unaligned m (e_reg v) span 0 False 0 e)
       else
         (let e = (if e_w v = 1 then em_qmask_to_dmask kn dvl e else e);
              k = (if e_w v = 1 then kscr e else kn) in
          attempt (em_temp i e) (\<lambda>(t, e).
            let e = em_load_unaligned t m span 0 False 0 e;
                e = em_vmov t (Rm_Reg (e_reg v)) k 0 e in
            finished (em_store_unaligned m t span 0 False 0 e))))"

text \<open>The second operand as the card can address it.\<close>

definition generic_rm :: "zinsn \<Rightarrow> ev \<Rightarrow> em \<Rightarrow> (rm \<times> u8 \<times> em) outcome" where
  "generic_rm i v e =
     (case mem_of i of
        None \<Rightarrow> Okay (Rm_Reg (e_rm v), 0, e)
      | Some m \<Rightarrow>
          if e_b v then Okay (Rm_Mem m, 1, e)
          else
            (let full = (e_ll v = 2);
                 aligned_move = ((e_map v, e_op v) \<in> {(1, 0x28), (1, 0x6F)});
                 block = (e_map v = 2 \<and> e_op v \<in> {0x5A, 0x5B, 0x1A, 0x1B});
                 bcast = (e_map v = 2 \<and> e_op v \<in> {0x18, 0x19, 0x58, 0x59}) in
             if bcast \<or> (block \<and> full) then Okay (Rm_Mem m, 0, e)
             else if aligned_move \<and> \<not> full then
               attempt (em_temp i e) (\<lambda>(t, e). Okay (Rm_Reg t, 0, em_load_block t (Rm_Mem m) 0 (e_ll v = 1) e))
             else
               attempt (em_temp i e) (\<lambda>(t, e).
                 let e = length_mask v e in Okay (Rm_Reg t, 0, em_load_unaligned t m (length_k v e) 0 False 0 e))))"

definition is_store_op :: "ev \<Rightarrow> bool" where
  "is_store_op v \<longleftrightarrow> e_map v = 1 \<and> (e_op v = 0x29 \<or> e_op v = 0x7F)"

definition is_cmp_op :: "ev \<Rightarrow> bool" where
  "is_cmp_op v \<longleftrightarrow> (e_map v = 1 \<and> e_op v \<in> {0xC2, 0x76, 0x66}) \<or> (e_map v = 3 \<and> e_op v \<in> {0x1F, 0x1E})
                 \<or> (e_map v = 2 \<and> e_op v = 0x27)"

definition generic_imm :: "zinsn \<Rightarrow> canon_insn \<Rightarrow> u8 option" where
  "generic_imm i c =
     (case c_imm c of
        Some n \<Rightarrow> Some n
      | None \<Rightarrow> if 0 < xcount i \<and> xkind i (xcount i - 1) = K_Imm8 then Some (immediate8 i) else None)"

definition generic :: "zinsn \<Rightarrow> ev \<Rightarrow> canon_insn \<Rightarrow> target \<Rightarrow> rewriting outcome" where
  "generic i v c tgt =
     (let e = em_new tgt i; narrow = (e_ll v \<noteq> 2); kn = e_aaa v in
      if is_store_op v then generic_store i v e
      else
        (let d = (if dest_is_vvvv v then e_vvvv v else e_reg v) in
         attempt (generic_rm i v e) (\<lambda>(r, sss, e).
           let e = (if narrow then lane_mask (vl_lanes (e_ll v) (e_w v)) kn e else e);
               keff = (if narrow then kscr e else kn);
               (reg_field, vvvv_field) = (if dest_is_vvvv v then (e_reg v AND 7, d) else (e_reg v, e_vvvv v));
               e = em_mvex (c_map c) (c_pp c) (c_w c) (c_op c) reg_field vvvv_field r keff sss (generic_imm i c) e in
           if is_cmp_op v then finished (if narrow \<or> kn \<noteq> 0 then em_kand (e_reg v AND 7) keff e else e)
           else
             (let e = (if e_z v then (let e = em_k e; e = em_knot (kscr e) keff e in em_zero d (kscr e) (e_w v) e) else e) in
              finished (if narrow then em_zero_lanes d (upper (e_ll v)) e else e)))))"

section \<open>The families\<close>

definition last_kind_is :: "zinsn \<Rightarrow> (bool \<Rightarrow> rewriting option outcome) \<Rightarrow> rewriting option outcome" where
  "last_kind_is i f = attempt (last_is_imm8 i) f"

definition the_family :: "rewriting outcome \<Rightarrow> rewriting option outcome" where
  "the_family r = attempt r (\<lambda>x. Okay (Some x))"

definition scalar_arith :: "string set" where
  "scalar_arith =
     {''Vaddss'', ''Vsubss'', ''Vmulss'', ''Vaddsd'', ''Vsubsd'', ''Vmulsd'',
      ''Vfmadd132ss'', ''Vfmadd213ss'', ''Vfmadd231ss'', ''Vfmsub132ss'', ''Vfmsub213ss'', ''Vfmsub231ss'',
      ''Vfnmadd132ss'', ''Vfnmadd213ss'', ''Vfnmadd231ss'', ''Vfnmsub132ss'', ''Vfnmsub213ss'', ''Vfnmsub231ss'',
      ''Vfmadd132sd'', ''Vfmadd213sd'', ''Vfmadd231sd'', ''Vfmsub132sd'', ''Vfmsub213sd'', ''Vfmsub231sd'',
      ''Vfnmadd132sd'', ''Vfnmadd213sd'', ''Vfnmadd231sd'', ''Vfnmsub132sd'', ''Vfnmsub213sd'', ''Vfnmsub231sd''}"

definition special :: "zinsn \<Rightarrow> bytes \<Rightarrow> ev \<Rightarrow> target \<Rightarrow> rewriting option outcome" where
  "special i bs v tgt =
     (let m = mnem i in
      if m \<in> {''Vextractf64x4'', ''Vextractf32x4'', ''Vextracti64x4'', ''Vextracti32x4'', ''Vextractf64x2'', ''Vextracti64x2'',
              ''Vextractf32x8'', ''Vextracti32x8''} then the_family (extract_block i v tgt)
      else if m \<in> {''Vinsertf64x4'', ''Vinsertf32x4'', ''Vinserti64x4'', ''Vinserti32x4'', ''Vinsertf64x2'', ''Vinserti64x2'',
              ''Vinsertf32x8'', ''Vinserti32x8''} then the_family (insert_block i v tgt)
      else if m \<in> {''Vpternlogd'', ''Vpternlogq''} then the_family (ternlog_seq i v tgt)
      else if m \<in> {''Vmovups'', ''Vmovupd'', ''Vmovdqu32'', ''Vmovdqu64'', ''Vmovdqu8'', ''Vmovdqu16''}
      then the_family (unaligned_move_seq i bs v tgt)
      else if m \<in> {''Vmovss'', ''Vmovsd''} then the_family (scalar_move i v tgt)
      else if m \<in> scalar_arith then the_family (scalar_op i v tgt)
      else if m \<in> {''Vmaxss'', ''Vminss'', ''Vmaxsd'', ''Vminsd''} then the_family (scalar_minmax i v tgt)
      else if m \<in> {''Vmaxps'', ''Vminps'', ''Vmaxpd'', ''Vminpd''} then the_family (minmax i v tgt)
      else if m \<in> {''Vmovd'', ''Vmovq''} then the_family (movdq i tgt)
      else if m \<in> {''Vpbroadcastd'', ''Vpbroadcastq'', ''Vbroadcastss'', ''Vbroadcastsd''} \<and> mem_of i = None
      then the_family (broadcast_reg i v tgt)
      else if m \<in> {''Vmovlhps'', ''Vmovhlps'', ''Vunpcklps'', ''Vunpckhps'', ''Vunpcklpd'', ''Vunpckhpd'', ''Vpunpckldq'',
              ''Vpunpckhdq'', ''Vpunpcklqdq'', ''Vpunpckhqdq'', ''Vshufps'', ''Vshufpd''} then the_family (interleave i v tgt)
      else if m = ''Valignq'' then the_family (valignq i v tgt)
      else if m \<in> {''Vpalignr'', ''Vpsrldq'', ''Vpslldq''} then the_family (byte_shift i v tgt)
      else if m \<in> {''Vcvttps2dq'', ''Vcvtps2dq''} then the_family (cvt_to_int i v tgt)
      else if m = ''Vcvtph2ps'' then the_family (cvt_ph2ps i v tgt)
      else if m = ''Vcvtpd2ps'' then the_family (cvt_pd2ps i v tgt)
      else if m = ''Vscalefps'' then the_family (scalef i v tgt)
      else if m \<in> {''Vdivps'', ''Vdivpd'', ''Vdivss'', ''Vdivsd'', ''Vsqrtps'', ''Vsqrtpd'', ''Vsqrtss'', ''Vsqrtsd''}
      then the_family (divsqrt i v tgt)
      else if m \<in> {''Vrndscaleps'', ''Vrndscalepd'', ''Vrndscaless'', ''Vrndscalesd''} then the_family (rndscale i v tgt)
      else if m \<in> {''Vcvtsi2ss'', ''Vcvtsi2sd'', ''Vcvtusi2ss'', ''Vcvtusi2sd'', ''Vcvttss2si'', ''Vcvtss2si'', ''Vcvttsd2si'',
              ''Vcvtsd2si'', ''Vcvttss2usi'', ''Vcvtss2usi'', ''Vcvttsd2usi'', ''Vcvtsd2usi'', ''Vcvtss2sd'', ''Vcvtsd2ss''}
      then the_family (scalar_cvt i v tgt)
      else if m \<in> two_tables \<union> {''Vpermq'', ''Vpermpd'', ''Vpermilpd''} then the_family (permute i v tgt)
      else if m \<in> {''Vpermilps'', ''Vpermd'', ''Vpermps''} \<and> (e_is_reg_rm v \<or> \<not> e_b v) then
        last_kind_is i (\<lambda>imm8. if imm8 then Okay None
                                else if m = ''Vpermilps'' \<or> e_ll v \<noteq> 2 then the_family (permute i v tgt) else Okay None)
      else if m = ''Vcvtps2ph'' then the_family (cvt_ps2ph i v tgt)
      else if m \<in> {''Vpmovzxbd'', ''Vpmovsxbd'', ''Vpmovzxwd'', ''Vpmovsxwd''} then the_family (widen i v tgt)
      else if m \<in> {''Vpmovzxdq'', ''Vpmovsxdq''} then the_family (widen_dq i v tgt)
      else if m \<in> {''Vpaddq'', ''Vpsubq''} then the_family (add_sub_q i v tgt)
      else if m \<in> {''Vcomiss'', ''Vucomiss'', ''Vcomisd'', ''Vucomisd''} then the_family (comis i v tgt)
      else if m \<in> {''Vpcmpq'', ''Vpcmpuq'', ''Vpcmpeqq'', ''Vpcmpgtq''} then the_family (cmp_q i v tgt)
      else if m \<in> {''Vpmaxsq'', ''Vpminsq'', ''Vpmaxuq'', ''Vpminuq''} then the_family (minmax_q i v tgt)
      else if m \<in> {''Vptestmq'', ''Vptestnmq'', ''Vptestnmd''} then the_family (testm i v tgt)
      else if m = ''Vinsertps'' then the_family (insertps i v tgt)
      else if m \<in> {''Vshuff32x4'', ''Vshufi32x4'', ''Vshuff64x2'', ''Vshufi64x2''} then the_family (shuf_blocks i v tgt)
      else if m \<in> {''Vfmaddsub132ps'', ''Vfmaddsub213ps'', ''Vfmaddsub231ps'', ''Vfmaddsub132pd'', ''Vfmaddsub213pd'',
              ''Vfmaddsub231pd'', ''Vfmsubadd132ps'', ''Vfmsubadd213ps'', ''Vfmsubadd231ps'', ''Vfmsubadd132pd'',
              ''Vfmsubadd213pd'', ''Vfmsubadd231pd''} then the_family (fma_addsub i v tgt)
      else if m = ''Vpmovdb'' then the_family (narrow_db i v tgt)
      else if m \<in> {''Vpgatherdd'', ''Vgatherdps'', ''Vpgatherdq'', ''Vgatherdpd'', ''Vpscatterdd'', ''Vscatterdps'',
              ''Vpscatterdq'', ''Vscatterdpd''} then the_family (gather_scatter i bs v tgt)
      else if m \<in> {''Vpsrlq'', ''Vpsllq'', ''Vpsraq''} then
        last_kind_is i (\<lambda>imm8. if imm8 then the_family (shift_q i v tgt) else Okay None)
      else if m = ''Vpabsd'' then the_family (abs_d i v tgt)
      else if m = ''Vpmuludq'' then the_family (muludq i v tgt)
      else if m \<in> {''Vpslld'', ''Vpsrld'', ''Vpsrad''} then
        last_kind_is i (\<lambda>imm8. if imm8 then Okay None else the_family (shift_by_xmm i v tgt))
      else Okay None)"

section \<open>One instruction\<close>

definition R_NOT_EVEX :: string where "R_NOT_EVEX = ''not an EVEX instruction''"
definition R_NO_ROW :: string where "R_NO_ROW = ''not in the card's instruction table''"
definition R_SAE :: string where "R_SAE = ''embedded rounding or SAE: not expressed on the card yet''"
definition R_BYTECMP :: string where "R_BYTECMP = ''a byte or word compare the card cannot express''"

text \<open>The prefix payload of the card: P1 bit 2 cleared, the swizzle field set for a broadcast.\<close>

definition in_place_bytes :: "bool \<Rightarrow> bytes \<Rightarrow> bytes \<Rightarrow> bytes" where
  "in_place_bytes b bs piece =
     piece[2 := bs ! 2 AND NOT 0x04, 3 := (if b then 0x10 else 0) OR (bs ! 3 AND 0x0f)]"

definition card_addresses :: "ev \<Rightarrow> bool" where
  "card_addresses v \<longleftrightarrow>
     e_is_reg_rm v \<or> e_b v \<or> (e_map v, e_op v) \<in> {(1, 0x28), (1, 0x29), (1, 0x6F), (1, 0x7F)}
     \<or> (e_map v = 2 \<and> e_op v \<in> {0x18, 0x19, 0x58, 0x59, 0x5A, 0x5B, 0x1A, 0x1B})"

definition same_shape :: "ev \<Rightarrow> canon_insn \<Rightarrow> bool" where
  "same_shape v c \<longleftrightarrow> c = \<lparr>c_map = e_map v, c_pp = e_pp v, c_w = e_w v, c_op = e_op v, c_imm = None\<rparr>"

definition rewrite_row :: "zinsn \<Rightarrow> bytes \<Rightarrow> ev \<Rightarrow> canon_insn \<Rightarrow> target \<Rightarrow> rewriting outcome" where
  "rewrite_row i bs v c tgt =
     (if e_map v = 1 \<and> e_op v = 0xC2 \<and> 7 < immediate8 i then compare i v tgt
      else if e_map v = 3 \<and> (e_op v = 0x1F \<or> e_op v = 0x1E) \<and> immediate8 i AND 7 \<in> {3, 7} then compare i v tgt
      else if e_b v \<and> e_is_reg_rm v then Refused (refuse i R_SAE)
      else if e_ll v = 2 \<and> \<not> e_z v \<and> same_shape v c \<and> card_addresses v
      then attempt (writable_bytes 3 (xlen i) bs) (\<lambda>piece. Okay (In_place (in_place_bytes (e_b v) bs piece)))
      else generic i v c tgt)"

definition rewrite :: "zinsn \<Rightarrow> bytes \<Rightarrow> target \<Rightarrow> rewriting outcome" where
  "rewrite i bs tgt =
     (if encoding_of i = Enc_VEX then kops i bs tgt
      else if encoding_of i \<noteq> Enc_EVEX \<or> length bs < 6 \<or> bs ! 0 \<noteq> 0x62 then Refused (refuse i R_NOT_EVEX)
      else
        (let v = parse bs in
         attempt (special i bs v tgt) (\<lambda>r.
           case r of
             Some x \<Rightarrow> Okay x
           | None \<Rightarrow>
               attempt (ok_or_refuse i R_NO_ROW (canon (e_map v) (e_pp v) (e_w v) (e_op v) (drop_bit 3 (e_modrm v) AND 7)))
                 (\<lambda>c. rewrite_row i bs v c tgt))))"

text \<open>The decoder is a parameter: the bytes of the dword compare are decoded again.\<close>

definition rewrite_bytecmp_for_kortest :: "(bytes \<Rightarrow> u64 \<Rightarrow> zinsn) \<Rightarrow> zinsn \<Rightarrow> bytes \<Rightarrow> target \<Rightarrow> rewriting outcome" where
  "rewrite_bytecmp_for_kortest dec i bs tgt =
     (if encoding_of i \<noteq> Enc_EVEX \<or> length bs < 6 then Refused (refuse i R_NOT_EVEX)
      else
        attempt (writable_bytes 4 (xlen i) bs) (\<lambda>piece.
          let v = parse bs in
          attempt
            (if mnem i \<in> {''Vpcmpeqb'', ''Vpcmpeqw''} then
               Okay (piece[4 := 0x76])
             else if mnem i \<in> {''Vpcmpb'', ''Vpcmpub'', ''Vpcmpw'', ''Vpcmpuw''} \<and> e_map v = 3 \<and> immediate8 i AND 7 \<in> {0, 4}
             then Okay (piece[4 := 0x1F, 2 := piece ! 2 AND 0x7f])
             else Refused (refuse i R_BYTECMP))
            (\<lambda>piece. rewrite (dec piece (xip i)) piece tgt)))"

end
