(* ===== verification/Rw_Sound.thy ===== *)
theory Rw_Sound
  imports Rw_Rewrite
begin

text \<open>
  Every sequence of the rewriter (\<^verbatim>\<open>host/crates/avx512-xlate/src/rewrite.rs\<close>) can be laid out:
  the displacements left to patch lie inside it, apart from one another and before the end of
  their instructions, and the constants they name exist.  The emitter keeps that invariant
  operation by operation, and every family of instructions is composed of those operations.
\<close>

section \<open>Sequences that can be laid out\<close>

fun fixups_fit :: "nat \<Rightarrow> fixup list \<Rightarrow> nat \<Rightarrow> bool" where
  "fixups_fit lo [] hi \<longleftrightarrow> lo \<le> hi"
| "fixups_fit lo (f # fs) hi \<longleftrightarrow> lo \<le> disp_at f \<and> disp_at f + 4 \<le> insn_end f \<and> fixups_fit (insn_end f) fs hi"

definition names_const :: "nat \<Rightarrow> fixup \<Rightarrow> bool" where
  "names_const n f \<longleftrightarrow> (case what f of FK_Const i \<Rightarrow> i < n | FK_Rip _ \<Rightarrow> True)"

definition thunk_ok :: "'a thunk_scheme \<Rightarrow> bool" where
  "thunk_ok t \<longleftrightarrow> fixups_fit 0 (fixups t) (length (seq t)) \<and> list_all (names_const (length (constants t))) (fixups t)
     \<and> list_all (\<lambda>c. length c = 64) (constants t) \<and> distinct (constants t)"

text \<open>The emitter's invariant; \<open>n\<close> constants are known to exist.\<close>

definition good :: "nat \<Rightarrow> em \<Rightarrow> bool" where
  "good n e \<longleftrightarrow> thunk_ok e \<and> n \<le> length (constants e)"

lemma fixups_fit_grow: "fixups_fit lo fs hi \<Longrightarrow> hi \<le> hi' \<Longrightarrow> fixups_fit lo fs hi'"
  by (induction fs arbitrary: lo) auto

lemma fixups_fit_snoc:
  "fixups_fit lo fs hi \<Longrightarrow> hi \<le> d \<Longrightarrow> d + 4 \<le> n
   \<Longrightarrow> fixups_fit lo (fs @ [\<lparr>disp_at = d, insn_end = n, what = w\<rparr>]) n"
  by (induction fs arbitrary: lo) auto

lemma names_const_mono: "list_all (names_const n) fs \<Longrightarrow> n \<le> m \<Longrightarrow> list_all (names_const m) fs"
proof (induction fs)
  case (Cons f fs)
  then show ?case by (cases "what f") (auto simp: names_const_def)
qed simp

lemma good_mono: "good m e \<Longrightarrow> n \<le> m \<Longrightarrow> good n e"
  by (simp add: good_def)

section \<open>What the emitter does to its state\<close>

lemma em_push_simps [simp]:
  "seq (em_push bs e) = seq e @ bs" "fixups (em_push bs e) = fixups e" "constants (em_push bs e) = constants e"
  by (simp_all add: em_push_def)

lemma em_fix_simps [simp]:
  "seq (em_fix d w e) = seq e" "constants (em_fix d w e) = constants e"
  "fixups (em_fix d w e) = fixups e @ [\<lparr>disp_at = d, insn_end = length (seq e), what = w\<rparr>]"
  by (simp_all add: em_fix_def)

lemma good_push: "good n e \<Longrightarrow> good n (em_push bs e)"
  by (auto simp: good_def thunk_ok_def intro: fixups_fit_grow)

lemma good_flags_fields:
  "good n (e\<lparr>k_used := b\<rparr>) = good n e" "good n (e\<lparr>rax_used := b\<rparr>) = good n e" "good n (e\<lparr>rcx_used := b\<rparr>) = good n e"
  "good n (e\<lparr>flags_used := b\<rparr>) = good n e" "good n (e\<lparr>tail := ts'\<rparr>) = good n e" "good n (e\<lparr>flags_out := off\<rparr>) = good n e"
  "good n (e\<lparr>reserved := w\<rparr>) = good n e" "good n (e\<lparr>temps := ts\<rparr>) = good n e"
  by (simp_all add: good_def thunk_ok_def)

text \<open>The displacement of a constant or of an absolute address: four bytes after ModRM.\<close>

lemma good_fix:
  assumes "good n e" "case w of FK_Const i \<Rightarrow> i < n | FK_Rip _ \<Rightarrow> True" "length (seq e) \<le> d" "d + 4 \<le> length (seq e) + length bs"
  shows "good n (em_fix d w (em_push bs e))"
proof -
  have "names_const (length (constants e)) \<lparr>disp_at = d, insn_end = m, what = w\<rparr>" for m
    using assms(1,2) by (auto simp: names_const_def good_def split: fixup_kind.splits)
  then show ?thesis
    using assms(1,3,4) fixups_fit_snoc[of 0 "fixups e" "length (seq e)" d "length (seq e) + length bs" w]
    by (simp add: good_def thunk_ok_def)
qed

primrec rm_ok :: "nat \<Rightarrow> rm \<Rightarrow> bool" where
  "rm_ok n (Rm_Reg r) = True"
| "rm_ok n (Rm_Mem m) = True"
| "rm_ok n (Rm_Fs off) = True"
| "rm_ok n (Rm_Const i) = (i < n)"

lemma operand_fix:
  assumes "operand_bytes r3 r e = (bs, Some w)" "rm_ok n r"
  shows "length bs = 5" "case w of FK_Const i \<Rightarrow> i < n | FK_Rip _ \<Rightarrow> True"
  using assms by (auto simp: operand_bytes_def split: rm.splits option.splits)

lemma em_push_push: "em_push b (em_push a e) = em_push (a @ b) e"
  by (simp add: em_push_def)

text \<open>The bytes of an immediate.\<close>

definition imm_of :: "u8 option \<Rightarrow> bytes" where
  "imm_of x = (case x of None \<Rightarrow> [] | Some i \<Rightarrow> [i])"

lemma em_mvex_eq:
  "em_mvex mp pp w opc reg vvvv r k sss imm e =
     (let (bs, fix) = operand_bytes (push_bit 3 (reg AND 7)) r e;
          p = mvex_prefix mp pp w opc reg vvvv r k sss;
          e' = em_push (p @ bs @ imm_of imm) e in
      case fix of None \<Rightarrow> e' | Some w \<Rightarrow> em_fix (length (seq e) + length p + 1) w e')"
proof -
  have o: "operand_bytes r3 r (em_push p e) = operand_bytes r3 r e" for r3 p
    by (cases r) (simp_all add: operand_bytes_def em_fs_def em_push_def split: option.splits)
  have nil: "em_push [] e = e" for e by (simp add: em_push_def)
  show ?thesis
    by (auto simp: em_mvex_def Let_def o em_push_push imm_of_def split: prod.splits option.splits)
qed

lemma good_mvex:
  assumes "good n e" "rm_ok n r"
  shows "good n (em_mvex mp pp w opc reg vvvv r k sss imm e)"
proof (cases "operand_bytes (push_bit 3 (reg AND 7)) r e")
  case (Pair bs fx)
  then show ?thesis
    using assms operand_fix[of "push_bit 3 (reg AND 7)" r e bs _ n]
    by (cases fx) (auto simp: em_mvex_eq Let_def intro!: good_push good_fix)
qed

text \<open>A constant that is already there is found; a new one goes last.\<close>

lemma position_Some: "position x ys = Some i \<Longrightarrow> i < length ys \<and> ys ! i = x"
  by (induction ys arbitrary: i) (auto split: if_splits)

lemma position_None: "position x ys = None \<longleftrightarrow> x \<notin> set ys"
  by (induction ys) auto

definition const_ok :: "nat \<Rightarrow> nat \<times> em \<Rightarrow> bool" where
  "const_ok n r \<longleftrightarrow> good (max n (Suc (fst r))) (snd r)"

lemma const_ok_constant:
  assumes "good n e" "length c = 64"
  shows "const_ok n (em_constant c e)"
proof (cases "position c (constants e)")
  case None
  then have "em_constant c e = (length (constants e), e\<lparr>constants := constants e @ [c]\<rparr>)" by (simp add: em_constant_def)
  moreover have "c \<notin> set (constants e)" using None position_None by metis
  ultimately show ?thesis using assms names_const_mono[of "length (constants e)" "fixups e" "Suc (length (constants e))"]
    by (simp add: const_ok_def good_def thunk_ok_def)
next
  case (Some i)
  then show ?thesis using assms position_Some[OF Some] by (auto simp: const_ok_def em_constant_def good_def)
qed

lemma length_le_bytes64 [simp]: "length (le_bytes64 v) = 8"
  by (simp add: le_bytes64_def)

lemma concat_lengths:
  "length (concat (replicate m xs)) = m * length xs" "length (concat (map le_bytes32 v)) = 4 * length v"
  by (induction m, simp_all) (induction v, simp_all)

lemma const_ok_dw: "good n e \<Longrightarrow> const_ok n (em_const_dw v e)"
  unfolding em_const_dw_def by (rule const_ok_constant) (simp_all add: concat_lengths)

lemma const_ok_qw: "good n e \<Longrightarrow> const_ok n (em_const_qw v e)"
  unfolding em_const_qw_def by (rule const_ok_constant) (simp_all add: concat_lengths)

lemma const_ok_dws: "good n e \<Longrightarrow> length v = 16 \<Longrightarrow> const_ok n (em_const_dws v e)"
  unfolding em_const_dws_def by (rule const_ok_constant) (simp_all add: concat_lengths)

section \<open>Rules for sequences\<close>

text \<open>Lets of emitters, of constants, and of other values; conditionals and cases.\<close>

lemma good_let: "good n x \<Longrightarrow> (\<And>e. good n e \<Longrightarrow> good n (f e)) \<Longrightarrow> good n (let e = x in f e)"
  by (simp add: Let_def)

lemma good_let_const:
  "const_ok n x \<Longrightarrow> (\<And>i e. good (max n (Suc i)) e \<Longrightarrow> good (max n (Suc i)) (f i e)) \<Longrightarrow> good n (let (i, e) = x in f i e)"
proof -
  assume "const_ok n x" and f: "\<And>i e. good (max n (Suc i)) e \<Longrightarrow> good (max n (Suc i)) (f i e)"
  moreover obtain i e where x: "x = (i, e)" by (cases x)
  ultimately have "good (max n (Suc i)) (f i e)" by (simp add: const_ok_def)
  from good_mono[OF this, of n] show ?thesis by (simp add: x)
qed

lemma good_let_any: "good n (f x) \<Longrightarrow> good n (let y = x in f y)"
  by (simp add: Let_def)

lemma good_if: "(b \<Longrightarrow> good n x) \<Longrightarrow> (\<not> b \<Longrightarrow> good n y) \<Longrightarrow> good n (if b then x else y)"
  by simp

lemma good_option:
  "(x = None \<Longrightarrow> good n a) \<Longrightarrow> (\<And>y. x = Some y \<Longrightarrow> good n (f y)) \<Longrightarrow> good n (case x of None \<Rightarrow> a | Some y \<Rightarrow> f y)"
  by (cases x) simp_all

lemma good_prod: "(\<And>a b. p = (a, b) \<Longrightarrow> good n (f a b)) \<Longrightarrow> good n (case p of (a, b) \<Rightarrow> f a b)"
  by (cases p) simp

lemmas good_structure = good_let_const good_let good_let_any good_if good_option good_prod

text \<open>The operand of a form that reads one element.\<close>

lemma rm_ok_bcast: "bcast_or_reg i v = (r, s) \<Longrightarrow> rm_ok n r"
  by (auto simp: bcast_or_reg_def split: option.splits)

lemma const_known: "i < max n (Suc i)" "i < n \<Longrightarrow> i < max n m"
  by simp_all

lemma rm_ok_intros: "rm_ok n (Rm_Reg r)" "rm_ok n (Rm_Mem m)" "rm_ok n (Rm_Fs off)" "i < n \<Longrightarrow> rm_ok n (Rm_Const i)"
  by simp_all

section \<open>The operations keep the invariant\<close>

lemma good_vexk: "good n e \<Longrightarrow> good n (em_vexk opc reg r e)"
  by (simp add: em_vexk_def good_push)

lemma good_kand: "good n e \<Longrightarrow> good n (em_kand a b e)" by (simp add: em_kand_def good_vexk)
lemma good_knot: "good n e \<Longrightarrow> good n (em_knot a b e)" by (simp add: em_knot_def good_vexk)
lemma good_kor: "good n e \<Longrightarrow> good n (em_kor a b e)" by (simp add: em_kor_def good_vexk)
lemma good_kmov_kk: "good n e \<Longrightarrow> good n (em_kmov_kk a b e)" by (simp add: em_kmov_kk_def good_vexk)
lemma good_kmov_k_r: "good n e \<Longrightarrow> good n (em_kmov_k_r a b e)" by (simp add: em_kmov_k_r_def good_vexk)
lemma good_kmov_r_k: "good n e \<Longrightarrow> good n (em_kmov_r_k a b e)" by (simp add: em_kmov_r_k_def good_vexk)

lemma good_gpr_scratch: "good n e \<Longrightarrow> good n (em_gpr_scratch r w off st e)"
  unfolding em_gpr_scratch_def Let_def by (rule good_push)

lemma good_rax: "good n e \<Longrightarrow> good n (em_rax e)"
  by (simp add: em_rax_def good_gpr_scratch good_flags_fields)

lemma good_rcx: "good n e \<Longrightarrow> good n (em_rcx e)"
  by (simp add: em_rcx_def good_gpr_scratch good_flags_fields)

lemma good_k: "good n e \<Longrightarrow> good n (em_k e)"
  by (simp add: em_k_def Let_def good_gpr_scratch good_kmov_r_k good_rax good_flags_fields)

lemma good_flags: "good n e \<Longrightarrow> good n (em_flags e)"
  by (simp add: em_flags_def Let_def good_gpr_scratch good_push good_rax good_flags_fields)

lemma good_mov_eax: "good n e \<Longrightarrow> good n (em_mov_eax x e)"
  by (simp add: em_mov_eax_def Let_def good_push good_rax)

lemma good_mask_imm: "good n e \<Longrightarrow> good n (em_mask_imm x e)"
  by (simp add: em_mask_imm_def Let_def good_k good_mov_eax good_kmov_k_r)

lemmas good_masks =
  good_vexk good_kand good_knot good_kor good_kmov_kk good_kmov_k_r good_kmov_r_k good_gpr_scratch good_rax good_rcx
  good_k good_flags good_mov_eax good_mask_imm good_push

lemma good_vmov: "good n e \<Longrightarrow> rm_ok n s \<Longrightarrow> good n (em_vmov d s k w e)"
  by (simp add: em_vmov_def good_mvex)

lemma good_zero: "good n e \<Longrightarrow> good n (em_zero d k w e)"
  by (simp add: em_zero_def good_mvex)

lemma good_zero_lanes: "good n e \<Longrightarrow> good n (em_zero_lanes d x e)"
  by (simp add: em_zero_lanes_def Let_def good_zero good_mask_imm)

lemma good_vpshufd: "good n e \<Longrightarrow> rm_ok n s \<Longrightarrow> good n (em_vpshufd d s x k e)"
  by (simp add: em_vpshufd_def good_mvex)

lemma good_vpermf32x4: "good n e \<Longrightarrow> rm_ok n s \<Longrightarrow> good n (em_vpermf32x4 d s x k e)"
  by (simp add: em_vpermf32x4_def good_mvex)

lemma good_vpermd: "good n e \<Longrightarrow> rm_ok n s \<Longrightarrow> good n (em_vpermd d x s k e)"
  by (simp add: em_vpermd_def good_mvex)

lemma good_valignd: "good n e \<Longrightarrow> rm_ok n s \<Longrightarrow> good n (em_valignd d s1 s x k e)"
  by (simp add: em_valignd_def good_mvex)

lemma good_i38: "good n e \<Longrightarrow> rm_ok n s \<Longrightarrow> good n (em_i38 opc d s1 s k e)"
  by (simp add: em_i38_def good_mvex)

lemma good_i0f: "good n e \<Longrightarrow> rm_ok n s \<Longrightarrow> good n (em_i0f opc d s1 s k w e)"
  by (simp add: em_i0f_def good_mvex)

lemma good_shift_imm: "good n e \<Longrightarrow> rm_ok n s \<Longrightarrow> good n (em_shift_imm x d s c k e)"
  by (simp add: em_shift_imm_def good_mvex)

lemma good_vcmp: "good n e \<Longrightarrow> rm_ok n s \<Longrightarrow> good n (em_vcmp kd s1 s p k w sss e)"
  by (simp add: em_vcmp_def good_mvex)

lemma good_fma: "good n e \<Longrightarrow> rm_ok n s \<Longrightarrow> good n (em_fma opc d s1 s w e)"
  by (simp add: em_fma_def good_mvex)

lemma good_vmulp: "good n e \<Longrightarrow> rm_ok n s \<Longrightarrow> good n (em_vmulp d s1 s w e)"
  by (simp add: em_vmulp_def good_mvex)

lemma good_load_unaligned: "good n e \<Longrightarrow> good n (em_load_unaligned d m k w fl sss e)"
  by (simp add: em_load_unaligned_def Let_def good_mvex)

lemma good_store_unaligned: "good n e \<Longrightarrow> good n (em_store_unaligned m s k w fl sss e)"
  by (simp add: em_store_unaligned_def Let_def good_mvex)

lemma good_load_block: "good n e \<Longrightarrow> rm_ok n m \<Longrightarrow> good n (em_load_block d m k h e)"
  by (simp add: em_load_block_def good_mvex)

lemma good_broadcast: "good n e \<Longrightarrow> rm_ok n m \<Longrightarrow> good n (em_broadcast d m k w e)"
  by (simp add: em_broadcast_def good_mvex)

lemma good_fs_op: "good n e \<Longrightarrow> good n (em_fs_op ops reg off e)"
  by (simp add: em_fs_op_def good_push)

lemmas good_ops = good_masks good_mvex good_vmov good_zero good_zero_lanes good_vpshufd good_vpermf32x4 good_vpermd
  good_valignd good_i38 good_i0f good_shift_imm good_vcmp good_fma good_vmulp good_load_unaligned good_store_unaligned
  good_load_block good_broadcast good_fs_op

lemma good_pieces:
  "good n e \<Longrightarrow> good n (pack_even e)" "good n e \<Longrightarrow> good n (spread_even e)" "good n e \<Longrightarrow> good n (and_eax x e)"
  by (simp_all add: pack_even_def spread_even_def and_eax_def good_push)

lemma good_qmask: "good n e \<Longrightarrow> good n (em_qmask_to_dmask k lim e)"
  by (simp add: em_qmask_to_dmask_def Let_def good_masks)

lemma good_qword_lt_eq: "good n e \<Longrightarrow> good n (qword_lt_eq a b s e)"
  by (simp add: qword_lt_eq_def Let_def good_ops)

lemma good_mem_modrm: "good n e \<Longrightarrow> good n (em_mem_modrm reg m e)"
  using good_fix[of n "em_push [0x05 OR push_bit 3 (reg AND 7)] e" "FK_Rip _" "Suc (length (seq e))" "[0, 0, 0, 0]"]
  by (auto simp: em_mem_modrm_def Let_def good_push split: option.splits)

lemma good_store_rax: "good n e \<Longrightarrow> good n (em_store_rax m w e)"
  by (simp add: em_store_rax_def Let_def good_push good_mem_modrm)

lemma good_commit: "good n e \<Longrightarrow> good n (commit d r v e)"
  by (simp add: commit_def Let_def good_ops)

lemmas good_steps = good_pieces good_qmask good_qword_lt_eq good_mem_modrm good_store_rax good_commit good_ops

section \<open>Outcomes\<close>

text \<open>
  An outcome that carries an emitter keeps the invariant and is no panic; a rewriting is laid out:
  a sequence that fits, or \<open>len\<close> bytes in place.
\<close>

definition yields :: "nat \<Rightarrow> ('a \<times> em) outcome \<Rightarrow> bool" where
  "yields n r \<longleftrightarrow> (case r of Panics \<Rightarrow> False | Refused u \<Rightarrow> True | Okay p \<Rightarrow> good n (snd p))"

definition emits :: "nat \<Rightarrow> em outcome \<Rightarrow> bool" where
  "emits n r \<longleftrightarrow> (case r of Panics \<Rightarrow> False | Refused u \<Rightarrow> True | Okay e \<Rightarrow> good n e)"

definition rewriting_ok :: "nat \<Rightarrow> rewriting \<Rightarrow> bool" where
  "rewriting_ok len r \<longleftrightarrow> (case r of In_place b \<Rightarrow> length b = len | Out_of_line t \<Rightarrow> thunk_ok t)"

definition lays :: "nat \<Rightarrow> rewriting outcome \<Rightarrow> bool" where
  "lays len r \<longleftrightarrow> (case r of Panics \<Rightarrow> False | Refused u \<Rightarrow> True | Okay x \<Rightarrow> rewriting_ok len x)"

lemma outcome_simps [simp]:
  "yields n (Refused u)" "\<not> yields n Panics" "yields n (Okay (x, e)) = good n e"
  "emits n (Refused u)" "\<not> emits n Panics" "emits n (Okay e) = good n e"
  "lays len (Refused u)" "\<not> lays len Panics" "lays len (Okay rw) = rewriting_ok len rw"
  by (simp_all add: yields_def emits_def lays_def)

lemma lays_attempt:
  "yields n r \<Longrightarrow> (\<And>x e. good n e \<Longrightarrow> lays len (f x e)) \<Longrightarrow> lays len (attempt r (\<lambda>(x, e). f x e))"
  by (cases r) auto

lemma lays_attempt_em: "emits n r \<Longrightarrow> (\<And>e. good n e \<Longrightarrow> lays len (f e)) \<Longrightarrow> lays len (attempt r f)"
  by (cases r) auto

lemma yields_attempt:
  "yields n r \<Longrightarrow> (\<And>x e. good n e \<Longrightarrow> yields n (f x e)) \<Longrightarrow> yields n (attempt r (\<lambda>(x, e). f x e))"
  by (cases r) auto

lemma emits_attempt:
  "yields n r \<Longrightarrow> (\<And>x e. good n e \<Longrightarrow> emits n (f x e)) \<Longrightarrow> emits n (attempt r (\<lambda>(x, e). f x e))"
  by (cases r) auto

text \<open>A value that is not an emitter: the refusal, or what follows for every value it can have.\<close>

lemma attempt_value:
  "lays len (attempt r f) \<longleftrightarrow> (case r of Panics \<Rightarrow> False | Refused u \<Rightarrow> True | Okay x \<Rightarrow> lays len (f x))"
  "yields n (attempt r g) \<longleftrightarrow> (case r of Panics \<Rightarrow> False | Refused u \<Rightarrow> True | Okay x \<Rightarrow> yields n (g x))"
  "emits n (attempt r h) \<longleftrightarrow> (case r of Panics \<Rightarrow> False | Refused u \<Rightarrow> True | Okay x \<Rightarrow> emits n (h x))"
  by (cases r; simp)+

lemma lays_or_refuse: "(\<And>x. y = Some x \<Longrightarrow> lays len (f x)) \<Longrightarrow> lays len (attempt (ok_or_refuse i r y) f)"
  by (cases y) (simp_all add: ok_or_refuse_def)

lemma lays_unwrap: "y \<noteq> None \<Longrightarrow> (\<And>x. y = Some x \<Longrightarrow> lays len (f x)) \<Longrightarrow> lays len (attempt (unwrap y) f)"
  by (cases y) (simp_all add: unwrap_def)

lemma lays_let: "good n x \<Longrightarrow> (\<And>e. good n e \<Longrightarrow> lays len (f e)) \<Longrightarrow> lays len (let e = x in f e)"
  by (simp add: Let_def)

lemma lays_let_const:
  "const_ok n x \<Longrightarrow> (\<And>i e. good (max n (Suc i)) e \<Longrightarrow> lays len (f i e)) \<Longrightarrow> lays len (let (i, e) = x in f i e)"
  by (cases x) (simp add: const_ok_def)

lemma lays_let_any: "lays len (f x) \<Longrightarrow> lays len (let y = x in f y)"
  by (simp add: Let_def)

lemma lays_if: "(b \<Longrightarrow> lays len x) \<Longrightarrow> (\<not> b \<Longrightarrow> lays len y) \<Longrightarrow> lays len (if b then x else y)"
  by simp

lemma lays_option:
  "(x = None \<Longrightarrow> lays len a) \<Longrightarrow> (\<And>y. x = Some y \<Longrightarrow> lays len (f y)) \<Longrightarrow> lays len (case x of None \<Rightarrow> a | Some y \<Rightarrow> f y)"
  by (cases x) simp_all

lemma lays_prod: "(\<And>a b. p = (a, b) \<Longrightarrow> lays len (f a b)) \<Longrightarrow> lays len (case p of (a, b) \<Rightarrow> f a b)"
  by (cases p) simp

lemma yields_let: "good n x \<Longrightarrow> (\<And>e. good n e \<Longrightarrow> yields n (f e)) \<Longrightarrow> yields n (let e = x in f e)"
  by (simp add: Let_def)

lemma yields_let_any: "yields n (f x) \<Longrightarrow> yields n (let y = x in f y)"
  by (simp add: Let_def)

lemma yields_if: "(b \<Longrightarrow> yields n x) \<Longrightarrow> (\<not> b \<Longrightarrow> yields n y) \<Longrightarrow> yields n (if b then x else y)"
  by simp

lemma yields_option:
  "(x = None \<Longrightarrow> yields n a) \<Longrightarrow> (\<And>y. x = Some y \<Longrightarrow> yields n (f y))
   \<Longrightarrow> yields n (case x of None \<Rightarrow> a | Some y \<Rightarrow> f y)"
  by (cases x) simp_all

lemma emits_let: "good n x \<Longrightarrow> (\<And>e. good n e \<Longrightarrow> emits n (f e)) \<Longrightarrow> emits n (let e = x in f e)"
  by (simp add: Let_def)

lemma emits_let_const:
  "const_ok n x \<Longrightarrow> (\<And>i e. good (max n (Suc i)) e \<Longrightarrow> emits (max n (Suc i)) (f i e)) \<Longrightarrow> emits n (let (i, e) = x in f i e)"
proof -
  assume "const_ok n x" and f: "\<And>i e. good (max n (Suc i)) e \<Longrightarrow> emits (max n (Suc i)) (f i e)"
  moreover obtain i e where "x = (i, e)" by (cases x)
  ultimately have "emits (max n (Suc i)) (case x of (i, e) \<Rightarrow> f i e)" by (simp add: const_ok_def)
  then show ?thesis unfolding Let_def
    by (cases "case x of (i, e) \<Rightarrow> f i e") (auto intro: good_mono)
qed

lemma emits_let_any: "emits n (f x) \<Longrightarrow> emits n (let y = x in f y)"
  by (simp add: Let_def)

lemma emits_prod: "(\<And>a b. p = (a, b) \<Longrightarrow> emits n (f a b)) \<Longrightarrow> emits n (case p of (a, b) \<Rightarrow> f a b)"
  by (cases p) simp

lemma yields_Okay: "good n e \<Longrightarrow> yields n (Okay (x, e))"
  and emits_Okay: "good n e \<Longrightarrow> emits n (Okay e)"
  by simp_all

section \<open>Temporaries, sources and the end\<close>

lemma good_new: "good 0 (em_new tgt i)"
  by (simp add: good_def thunk_ok_def em_new_def Let_def)

lemma yields_temp:
  assumes "good n e" shows "yields n (em_temp i e)"
proof (cases "List.find (\<lambda>z. reserved e AND push_bit (unat z) 1 = 0) (map word_of_nat [0..<32] :: u8 list)")
  case (Some z)
  have "good n (em_mvex 1 0 0 0x29 z 0 (Rm_Fs off) 0 0 None (e\<lparr>reserved := w, temps := ts\<rparr>))" for off w ts
    using assms by (intro good_mvex) (simp_all add: good_flags_fields)
  then show ?thesis using Some by (simp add: em_temp_def Let_def del: push_bit_of_1)
qed (simp add: em_temp_def del: push_bit_of_1)

lemma yields_temp_if: "good n e \<Longrightarrow> yields n (temp_if b d i e)"
  by (simp add: temp_if_def yields_temp)

lemma yields_src2: "good n e \<Longrightarrow> yields n (src2 i v e)"
  unfolding src2_def
  by (intro yields_option yields_attempt yields_if yields_let_any yields_Okay yields_temp)
    (simp_all add: good_broadcast good_load_unaligned good_mask_imm)

lemma yields_scalar_src2: "good n e \<Longrightarrow> yields n (scalar_src2 i v w e)"
  unfolding scalar_src2_def
  by (intro yields_option yields_attempt yields_Okay yields_temp) (simp_all add: good_broadcast)

lemma good_fold: "(\<And>x e. good n e \<Longrightarrow> good n (f x e)) \<Longrightarrow> good n e \<Longrightarrow> good n (fold f xs e)"
  by (induction xs arbitrary: e) simp_all

lemma thunk_ok_truncate: "thunk_ok (thunk.truncate e) = thunk_ok e"
  by (simp add: thunk_ok_def thunk.defs)

lemma thunk_let: "good n x \<Longrightarrow> (\<And>e. good n e \<Longrightarrow> thunk_ok (f e)) \<Longrightarrow> thunk_ok (let e = x in f e)"
  by (simp add: Let_def)

lemma thunk_let_any: "thunk_ok (f x) \<Longrightarrow> thunk_ok (let y = x in f y)"
  by (simp add: Let_def)

lemma good_restore: "good n e \<Longrightarrow> good n (restore_temp zs e)"
  by (simp add: restore_temp_def good_mvex)

lemma good_load_tail: "good n e \<Longrightarrow> good n (load_tail t e)"
  by (simp add: load_tail_def good_gpr_scratch)

lemma finish_ok: "good n e \<Longrightarrow> thunk_ok (em_finish e)"
  unfolding em_finish_def
  apply (rule thunk_let_any)
  apply ((rule thunk_let thunk_let_any good_if good_option good_let good_fold good_masks good_restore good_load_tail
      | assumption | simp only: good_flags_fields thunk_ok_truncate | simp add: good_def; fail)+)
  done

lemma lays_finished: "good n e \<Longrightarrow> lays len (finished e)"
  by (simp add: finished_def rewriting_ok_def finish_ok)

end
