(* ===== verification/Rw_Families.thy ===== *)
theory Rw_Families
  imports Rw_Sound
begin

text \<open>
  The families of the rewriter (\<^verbatim>\<open>host/crates/avx512-xlate/src/rewrite.rs\<close>), one lemma each: no
  panic, and a sequence that can be laid out.
\<close>

lemmas lays_rules =
  lays_let_const lays_let lays_let_any lays_if lays_option lays_attempt lays_or_refuse lays_finished lays_prod

lemmas yields_rules =
  yields_temp yields_temp_if yields_src2 yields_scalar_src2 yields_attempt yields_let yields_let_any yields_if
  yields_option yields_Okay

lemmas const_rules = const_ok_dw const_ok_qw const_ok_dws

lemmas emit_rules = lays_rules yields_rules const_rules good_new good_steps good_structure rm_ok_intros const_known rm_ok_bcast

lemma good_lane_mask: "good n e \<Longrightarrow> good n (lane_mask m a e)"
  by (simp add: lane_mask_def Let_def good_masks)

lemma good_scalar_rest: "good n e \<Longrightarrow> good n (scalar_rest d s w e)"
  by (simp add: scalar_rest_def Let_def good_steps)

lemma good_scalar_result: "good n e \<Longrightarrow> good n (scalar_result d r s w e)"
  by (simp add: scalar_result_def Let_def good_steps good_scalar_rest)

lemma good_ordered_move: "good n e \<Longrightarrow> good n (ordered_move b r s1 s2 w e)"
  by (simp add: ordered_move_def Let_def good_steps)

lemmas good_shared = good_lane_mask good_scalar_rest good_scalar_result good_ordered_move

lemma lays_extract: "lays len (extract_block i v tgt)"
  unfolding extract_block_def by ((assumption | rule emit_rules | simp; fail)+)

lemma lays_insert: "lays len (insert_block i v tgt)"
  unfolding insert_block_def by ((assumption | rule emit_rules good_shared | simp; fail)+)

lemma good_ones_xor: "good n e \<Longrightarrow> good n (ones_xor t s e)"
  unfolding ones_xor_def by ((assumption | rule emit_rules good_shared | simp; fail)+)

lemma good_all_ones: "good n e \<Longrightarrow> good n (all_ones t e)"
  unfolding all_ones_def by ((assumption | rule emit_rules good_shared | simp; fail)+)

lemma good_bool2: "good n e \<Longrightarrow> good n (bool2 t b c f w e)"
  by (simp add: bool2_def Let_def good_steps good_ones_xor good_all_ones)

lemma lays_ternlog: "lays len (ternlog_seq i v tgt)"
  unfolding ternlog_seq_def by ((assumption | rule emit_rules good_bool2 | simp; fail)+)

lemma lays_scalar_move: "lays len (scalar_move i v tgt)"
  unfolding scalar_move_def by ((assumption | rule emit_rules good_shared | simp; fail)+)

lemma lays_scalar_op: "lays len (scalar_op i v tgt)"
  unfolding scalar_op_def by ((assumption | rule emit_rules good_shared | simp; fail)+)

lemma lays_minmax: "lays len (minmax i v tgt)"
  unfolding minmax_def by ((assumption | rule emit_rules good_shared | simp; fail)+)

lemma lays_scalar_minmax: "lays len (scalar_minmax i v tgt)"
  unfolding scalar_minmax_def by ((assumption | rule emit_rules good_shared | simp; fail)+)

lemma lays_broadcast_reg: "lays len (broadcast_reg i v tgt)"
  unfolding broadcast_reg_def by ((assumption | rule emit_rules good_shared | simp; fail)+)

lemma lays_valignq: "lays len (valignq i v tgt)"
  unfolding valignq_def by ((assumption | rule emit_rules good_shared | simp; fail)+)

lemma lays_byte_shift: "lays len (byte_shift i v tgt)"
  unfolding byte_shift_def by ((assumption | rule emit_rules good_shared | simp; fail)+)

text \<open>
  What the decoder gives for the bytes: a length within them, at least the six bytes of the EVEX
  prefix, opcode and ModRM, and a memory operand where an operand kind says so.
\<close>

definition evex_decoded :: "zinsn \<Rightarrow> bytes \<Rightarrow> bool" where
  "evex_decoded i bs \<longleftrightarrow> xlen i \<le> length bs \<and> 6 \<le> xlen i \<and> 0 < xcount i
     \<and> list_all (\<lambda>n. xkind i n = K_Memory \<longrightarrow> mem_of i \<noteq> None) [0, 1]"

lemma lays_writable:
  "k < n \<Longrightarrow> n \<le> length bs \<Longrightarrow> (\<And>b. length b = n \<Longrightarrow> lays len (f b)) \<Longrightarrow> lays len (attempt (writable_bytes k n bs) f)"
  by (simp add: writable_bytes_def)

lemma lays_unaligned_move: "evex_decoded i bs \<Longrightarrow> lays (xlen i) (unaligned_move_seq i bs v tgt)"
  unfolding unaligned_move_seq_def
  by ((assumption | rule emit_rules lays_writable | simp add: evex_decoded_def rewriting_ok_def; fail)+)

lemma lays_gather_scatter: "evex_decoded i bs \<Longrightarrow> lays len (gather_scatter i bs v tgt)"
  unfolding gather_scatter_def
  by ((assumption | rule emit_rules lays_writable | simp add: evex_decoded_def; fail)+)

lemma lays_kind:
  "(x = K_Register \<Longrightarrow> lays len a) \<Longrightarrow> (x = K_Memory \<Longrightarrow> lays len b) \<Longrightarrow> lays len c
   \<Longrightarrow> lays len (case x of K_Register \<Rightarrow> a | K_Memory \<Rightarrow> b | _ \<Rightarrow> c)"
  by (cases x) simp_all

lemma lays_movdq: "evex_decoded i bs \<Longrightarrow> lays len (movdq i tgt)"
  unfolding movdq_def
  by ((assumption | rule lays_kind lays_unwrap emit_rules good_flags_fields(5)[THEN iffD2] | simp add: evex_decoded_def em_gpr_result_def good_flags_fields; fail)+)

lemma shuffles_defined:
  "mnem i \<in> {''Vmovlhps'', ''Vmovhlps'', ''Vunpcklps'', ''Vunpckhps'', ''Vunpcklpd'', ''Vunpckhpd'', ''Vpunpckldq'',
    ''Vpunpckhdq'', ''Vpunpcklqdq'', ''Vpunpckhqdq'', ''Vshufps'', ''Vshufpd''} \<Longrightarrow> shuffles i v \<noteq> Panics"
  by (elim insertE emptyE) (simp_all add: shuffles_def Let_def)

lemma lays_interleave: "shuffles i v \<noteq> Panics \<Longrightarrow> lays len (interleave i v tgt)"
  unfolding interleave_def
  by ((assumption | rule emit_rules | cases "shuffles i v"; simp add: attempt_value(1); fail
      | simp only: attempt_value(1), cases "shuffles i v"; simp)+)

lemma lays_cvt_to_int: "lays len (cvt_to_int i v tgt)"
  unfolding cvt_to_int_def by ((assumption | rule emit_rules good_shared | simp; fail)+)

lemma good_length_mask: "good n e \<Longrightarrow> good n (length_mask v e)"
  by (simp add: length_mask_def good_masks)

lemma lays_cvt_ph2ps: "lays len (cvt_ph2ps i v tgt)"
  unfolding cvt_ph2ps_def by ((assumption | rule emit_rules good_shared good_length_mask | simp; fail)+)

lemma lays_cvt_ps2ph: "lays len (cvt_ps2ph i v tgt)"
  unfolding cvt_ps2ph_def by ((assumption | rule emit_rules good_shared good_length_mask | simp; fail)+)

lemma lays_widen: "lays len (widen i v tgt)"
  unfolding widen_def by ((assumption | rule emit_rules good_shared good_length_mask | simp; fail)+)

lemma lays_widen_dq: "lays len (widen_dq i v tgt)"
  unfolding widen_dq_def by ((assumption | rule emit_rules good_shared good_length_mask | simp; fail)+)

lemma lays_add_sub_q: "lays len (add_sub_q i v tgt)"
  unfolding add_sub_q_def by ((assumption | rule emit_rules good_shared good_length_mask | simp; fail)+)

lemma good_mask_eax: "good n e \<Longrightarrow> good n (mask_eax a e)"
  by (simp add: mask_eax_def Let_def good_masks)

lemma good_from_lt_eq: "good n e \<Longrightarrow> good n (from_lt_eq p e)"
  by (simp add: from_lt_eq_def Let_def good_steps)

lemma good_flags_out: "good n e \<Longrightarrow> good n (e\<lparr>flags_out := x\<rparr>)"
  by (simp add: good_flags_fields)

lemma good_store_pieces: "good n e \<Longrightarrow> good n (store_pieces m a b e)"
proof (induction m a b e rule: store_pieces.induct)
  case (1 m a b e)
  then show ?case by (subst store_pieces.simps) (simp add: Let_def good_gpr_scratch good_store_rax)
qed

lemma good_shift_right_q: "good n e \<Longrightarrow> good n (shift_right_q ar c r t s e)"
  by (simp add: shift_right_q_def Let_def good_steps)

lemma good_shift_left_q: "good n e \<Longrightarrow> good n (shift_left_q c r t s e)"
  by (simp add: shift_left_q_def Let_def good_steps)

lemmas good_qpieces = good_mask_eax good_from_lt_eq good_flags_out good_store_pieces good_shift_right_q good_shift_left_q

lemma lays_comis: "lays len (comis i v tgt)"
  unfolding comis_def by ((assumption | rule emit_rules good_shared good_length_mask good_qpieces | simp; fail)+)

lemma lays_cmp_q: "lays len (cmp_q i v tgt)"
  unfolding cmp_q_def by ((assumption | rule emit_rules good_shared good_length_mask good_qpieces | simp; fail)+)

lemma lays_minmax_q: "lays len (minmax_q i v tgt)"
  unfolding minmax_q_def by ((assumption | rule emit_rules good_shared good_length_mask good_qpieces | simp; fail)+)

lemma lays_testm: "lays len (testm i v tgt)"
  unfolding testm_def by ((assumption | rule emit_rules good_shared good_length_mask good_qpieces | simp; fail)+)

lemma lays_insertps: "lays len (insertps i v tgt)"
  unfolding insertps_def by ((assumption | rule emit_rules good_shared good_length_mask good_qpieces | simp; fail)+)

lemma lays_shuf_blocks: "lays len (shuf_blocks i v tgt)"
  unfolding shuf_blocks_def by ((assumption | rule emit_rules good_shared good_length_mask good_qpieces | simp; fail)+)

lemma lays_fma_addsub: "lays len (fma_addsub i v tgt)"
  unfolding fma_addsub_def by ((assumption | rule emit_rules good_shared good_length_mask good_qpieces | simp; fail)+)

lemma lays_narrow_db: "lays len (narrow_db i v tgt)"
  unfolding narrow_db_def by ((assumption | rule emit_rules good_shared good_length_mask good_qpieces | simp; fail)+)

lemma lays_shift_q: "lays len (shift_q i v tgt)"
  unfolding shift_q_def by ((assumption | rule emit_rules good_shared good_length_mask good_qpieces | simp; fail)+)

lemma lays_abs_d: "lays len (abs_d i v tgt)"
  unfolding abs_d_def by ((assumption | rule emit_rules good_shared good_length_mask good_qpieces | simp; fail)+)

lemma lays_muludq: "lays len (muludq i v tgt)"
  unfolding muludq_def by ((assumption | rule emit_rules good_shared good_length_mask good_qpieces | simp; fail)+)

lemma lays_shift_by_xmm: "lays len (shift_by_xmm i v tgt)"
  unfolding shift_by_xmm_def by ((assumption | rule emit_rules good_shared good_length_mask good_qpieces | simp; fail)+)

lemma lays_cvt_pd2ps: "lays len (cvt_pd2ps i v tgt)"
  unfolding cvt_pd2ps_def by ((assumption | rule emit_rules good_shared good_length_mask good_qpieces | simp; fail)+)

lemma lays_rndscale: "lays len (rndscale i v tgt)"
  unfolding rndscale_def by ((assumption | rule emit_rules good_shared good_length_mask good_qpieces | simp; fail)+)

lemma lays_scalef: "lays len (scalef i v tgt)"
  unfolding scalef_def by ((assumption | rule emit_rules good_shared good_length_mask good_qpieces | simp; fail)+)

section \<open>Permutes, conversions and division\<close>

lemma emits_if: "(b \<Longrightarrow> emits n x) \<Longrightarrow> (\<not> b \<Longrightarrow> emits n y) \<Longrightarrow> emits n (if b then x else y)"
  by simp

lemmas emits_rules = emits_let_const emits_let emits_let_any emits_if emits_prod emits_attempt emits_Okay

lemma good_qidx: "od < n \<Longrightarrow> good n e \<Longrightarrow> good n (qidx_to_didx od out q e)"
  by (simp add: qidx_to_didx_def Let_def good_steps)

lemma emits_two_tables: "good n e \<Longrightarrow> od < n \<Longrightarrow> emits n (perm_two_tables i v od r t e)"
  unfolding perm_two_tables_def
  by ((assumption | rule emits_rules emit_rules good_qidx | simp; fail)+)

lemma emits_by_table: "good n e \<Longrightarrow> length tab = 16 \<Longrightarrow> emits n (perm_by_table i v tab r t e)"
  unfolding perm_by_table_def
  by ((assumption | rule emits_rules emit_rules | simp; fail)+)

lemma emits_by_vector: "good n e \<Longrightarrow> od < n \<Longrightarrow> emits n (perm_by_vector i v od r t e)"
  unfolding perm_by_vector_def
  by ((assumption | rule emits_rules emit_rules good_qidx | simp; fail)+)

lemma emits_permilpd: "good n e \<Longrightarrow> emits n (permilpd_by_vector i v r t e)"
  unfolding permilpd_by_vector_def
  by ((assumption | rule emits_rules emit_rules | simp; fail)+)

lemma emits_permilps: "good n e \<Longrightarrow> emits n (permilps_by_vector i v r t e)"
  unfolding permilps_by_vector_def
  by ((assumption | rule emits_rules emit_rules | simp; fail)+)

lemma emits_permd: "good n e \<Longrightarrow> emits n (permd_narrow i v r t e)"
  unfolding permd_narrow_def
  by ((assumption | rule emits_rules emit_rules | simp; fail)+)

lemma lays_last_imm8:
  "0 < xcount i \<Longrightarrow> (\<And>b. lays len (f b)) \<Longrightarrow> lays len (attempt (if p then last_is_imm8 i else Okay False) f)"
  by (simp add: last_is_imm8_def)

lemma permute_tables: "length (vpermq_table imm) = 16" "length (vpermilpd_table imm) = 16"
  by (simp_all add: vpermq_table_def vpermilpd_table_def)

lemma lays_permute: "0 < xcount i \<Longrightarrow> lays len (permute i v tgt)"
  unfolding permute_def
  by ((assumption | rule lays_last_imm8 lays_let_const lays_let lays_let_any lays_attempt_em lays_finished lays_attempt emits_if emits_two_tables
        emits_by_table emits_by_vector emits_permilpd emits_permilps emits_permd yields_temp const_rules good_new good_commit | simp add: permute_tables; fail)+)

lemma yields_int_to_slot: "good n e \<Longrightarrow> yields n (int_to_slot i u e)"
  unfolding int_to_slot_def
  by (cases "gpr (xreg_of i 2)")
    ((assumption | rule yields_rules good_steps | simp add: ok_or_refuse_def Let_def good_steps split: prod.splits; fail)+)+

lemma good_add_two_64: "good n e \<Longrightarrow> good n (add_two_64 e)"
  by (simp add: add_two_64_def Let_def good_steps)

lemma lays_int_to_scalar: "good n e \<Longrightarrow> lays len (int_to_scalar i v e)"
  unfolding int_to_scalar_def
  by ((assumption | rule yields_int_to_slot emit_rules good_shared good_add_two_64 | simp; fail)+)

lemma good_x87: "good n e \<Longrightarrow> good n (x87_to_slot d t e)"
  by (simp add: x87_to_slot_def Let_def good_steps)

lemma good_fixpoint: "good n e \<Longrightarrow> good n (fixpoint_to_slot d tr t s e)"
  unfolding fixpoint_to_slot_def
  by ((assumption | rule emit_rules | simp; fail)+)

lemma good_gpr_result: "good n e \<Longrightarrow> good n (em_gpr_result r w off e)"
  by (simp add: em_gpr_result_def good_flags_fields)

lemma lays_scalar_to_int: "good n e \<Longrightarrow> lays len (scalar_to_int i v e)"
  unfolding scalar_to_int_def
  by ((assumption | rule emit_rules good_x87 good_fixpoint good_gpr_result | simp; fail)+)

lemma lays_scalar_to_scalar: "good n e \<Longrightarrow> lays len (scalar_to_scalar i v b e)"
  unfolding scalar_to_scalar_def
  by ((assumption | rule emit_rules good_shared | simp; fail)+)

lemma lays_scalar_cvt: "lays len (scalar_cvt i v tgt)"
  unfolding scalar_cvt_def
  by ((assumption | rule lays_let lays_let_any lays_if good_new lays_int_to_scalar lays_scalar_to_int lays_scalar_to_scalar | simp; fail)+)

lemma good_recip_ps: "good n e \<Longrightarrow> good n (em_recip_ps r b t e)"
  unfolding em_recip_ps_def by ((assumption | rule emit_rules | simp; fail)+)

lemma good_dexp: "good n e \<Longrightarrow> good n (em_dexp t x e)"
  unfolding em_dexp_def by ((assumption | rule emit_rules | simp; fail)+)

lemma good_dsetexp: "good n e \<Longrightarrow> good n (em_dsetexp out x ex t e)"
  unfolding em_dsetexp_def by ((assumption | rule emit_rules | simp; fail)+)

lemma good_dpow2: "good n e \<Longrightarrow> good n (em_dpow2 out ex e)"
  unfolding em_dpow2_def by ((assumption | rule emit_rules | simp; fail)+)

lemma good_select: "good n e \<Longrightarrow> rm_ok n y \<Longrightarrow> rm_ok n s \<Longrightarrow> good n (select x y p d s w e)"
  by (simp add: select_def Let_def good_steps)

lemma good_newton:
  "good n e \<Longrightarrow> one < n \<Longrightarrow> good n (recip_step one r t q e)"
  "good n e \<Longrightarrow> h < n \<Longrightarrow> m < n \<Longrightarrow> good n (rsqrt_step h m r t q e)"
  unfolding recip_step_def rsqrt_step_def by ((assumption | rule emit_rules | simp; fail)+)

lemmas good_division = good_recip_ps good_dexp good_dsetexp good_dpow2 good_select good_newton

lemma good_div_ps: "good n e \<Longrightarrow> good n (div_ps a b r t q e)"
  unfolding div_ps_def by ((assumption | rule emit_rules good_division | simp; fail)+)

lemma good_sqrt_ps: "good n e \<Longrightarrow> good n (sqrt_ps a r t q e)"
  unfolding sqrt_ps_def by ((assumption | rule emit_rules good_division | simp; fail)+)

lemma good_div_pd_quotient: "good n e \<Longrightarrow> good n (div_pd_quotient a b r t q ex e)"
  unfolding div_pd_quotient_def by ((assumption | rule emit_rules good_division | simp; fail)+)

lemma good_div_pd_fixup: "good n e \<Longrightarrow> good n (div_pd_fixup a b r t q ex e)"
  unfolding div_pd_fixup_def by ((assumption | rule emit_rules good_division | simp; fail)+)

lemma good_sqrt_pd: "good n e \<Longrightarrow> good n (sqrt_pd a r t q ex e)"
  unfolding sqrt_pd_def by ((assumption | rule emit_rules good_division | simp; fail)+)

lemma yields_div_stage: "good n e \<Longrightarrow> yields n (div_stage i v s u e)"
  by (simp add: div_stage_def yields_scalar_src2 yields_src2)

lemma lays_divsqrt: "lays len (divsqrt i v tgt)"
  unfolding divsqrt_def
  by ((assumption | rule yields_div_stage emit_rules good_shared good_div_ps good_sqrt_ps good_div_pd_quotient good_div_pd_fixup good_sqrt_pd | simp; fail)+)

end
