(* ===== verification/Rw_Props.thy ===== *)
theory Rw_Props
  imports Rw_Families
begin

text \<open>
  The whole of \<^verbatim>\<open>rewrite\<close> (\<^verbatim>\<open>host/crates/avx512-xlate/src/rewrite.rs\<close>): it never panics on what a
  decoder gives, save for one immediate; what it leaves in place and what it lays out.
\<close>

section \<open>Compares, masks and the general form\<close>

lemma compare_plan_defined:
  assumes "7 < p" "p < 32" "p \<noteq> 11" "p \<noteq> 27" "p \<noteq> 15" "p \<noteq> 31"
  shows "compare_plan p \<noteq> None"
proof -
  have u: "7 < unat p" "unat p < 32" using assms(1,2) by (simp_all add: word_less_nat_alt)
  then have "unat p \<in> set [8..<32]" unfolding set_upt atLeastLessThan_iff by linarith
  then have "of_nat (unat p) \<in> (of_nat ` set [8..<32] :: u8 set)" by (rule imageI)
  then have "p \<in> set (map of_nat [8..<32])" by simp
  then show ?thesis using assms(3-) by (simp add: upt_rec compare_plan_def) (elim disjE; auto)
qed

lemma good_set_k: "good n e \<Longrightarrow> good n (set_k kd x e)"
  by (simp add: set_k_def Let_def good_masks)

lemma good_vcmp_swapped: "good n e \<Longrightarrow> good n (vcmp_swapped sw kd s1 s2 p k w e)"
  by (simp add: vcmp_swapped_def good_steps)

lemma good_second_compare: "good n e \<Longrightarrow> good n (second_compare ps v kd s2 keff e)"
  by (simp add: second_compare_def Let_def good_masks good_vcmp_swapped)

lemma lays_compare:
  "e_map v = 3 \<or> (7 < immediate8 i \<and> immediate8 i < 32) \<Longrightarrow> lays len (compare i v tgt)"
  unfolding compare_def
  by ((assumption | rule lays_unwrap emit_rules good_shared good_set_k good_vcmp_swapped good_second_compare
      | simp add: compare_plan_defined; fail)+)

text \<open>
  The decoder's account of a mask instruction: mask registers where its operands are, and a
  memory operand where a kind says so.
\<close>

definition k_at :: "zinsn \<Rightarrow> nat list \<Rightarrow> bool" where
  "k_at i ns \<longleftrightarrow> list_all (\<lambda>n. kreg (xreg_of i n) \<noteq> None) ns"

definition vex_decoded :: "zinsn \<Rightarrow> bytes \<Rightarrow> bool" where
  "vex_decoded i bs \<longleftrightarrow> xlen i \<le> length bs \<and> 2 \<le> length bs
     \<and> (if mnem i \<in> {''Kmovw'', ''Kmovd'', ''Kmovq'', ''Kmovb''} then
          (case (xkind i 0, xkind i 1) of
             (K_Register, K_Memory) \<Rightarrow> k_at i [0] \<and> mem_of i \<noteq> None
           | (K_Memory, K_Register) \<Rightarrow> k_at i [1] \<and> mem_of i \<noteq> None
           | _ \<Rightarrow> True)
        else if mnem i \<in> {''Knotw'', ''Knotd'', ''Knotq'', ''Knotb'', ''Kortestw'', ''Kortestd'', ''Kortestq'', ''Kortestb'',
                         ''Kshiftlw'', ''Kshiftrw'', ''Kshiftlb'', ''Kshiftrb'', ''Kshiftld'', ''Kshiftrd'', ''Kshiftlq'',
                         ''Kshiftrq''} then k_at i [0, 1]
        else if mnem i \<in> {''Kandw'', ''Kandd'', ''Kandq'', ''Kandb'', ''Kandnw'', ''Kandnd'', ''Kandnq'', ''Kandnb'',
                         ''Korw'', ''Kord'', ''Korq'', ''Korb'', ''Kxnorw'', ''Kxnord'', ''Kxnorq'', ''Kxnorb'',
                         ''Kxorw'', ''Kxord'', ''Kxorq'', ''Kxorb'', ''Kunpckbw''} then k_at i [0, 1, 2]
        else True)"

lemma k_operand_at: "k_at i ns \<Longrightarrow> n \<in> set ns \<Longrightarrow> \<exists>k. k_operand i n = Okay k"
  by (cases "kreg (xreg_of i n)") (auto simp: k_at_def list_all_iff k_operand_def unwrap_def)

lemma emits_three: "k_at i [0, 1, 2] \<Longrightarrow> good n e \<Longrightarrow> emits n (three i opc e)"
  using k_operand_at[of i "[0, 1, 2]" 0] k_operand_at[of i "[0, 1, 2]" 1] k_operand_at[of i "[0, 1, 2]" 2]
  by (auto simp: three_def Let_def good_masks)

lemma emits_kunpckbw: "k_at i [0, 1, 2] \<Longrightarrow> good n e \<Longrightarrow> emits n (kunpckbw i e)"
  using k_operand_at[of i "[0, 1, 2]" 0] k_operand_at[of i "[0, 1, 2]" 1] k_operand_at[of i "[0, 1, 2]" 2]
  by (auto simp: kunpckbw_def Let_def good_masks)

lemma emits_kshift: "k_at i [0, 1] \<Longrightarrow> good n e \<Longrightarrow> emits n (kshift i e)"
  using k_operand_at[of i "[0, 1]" 0] k_operand_at[of i "[0, 1]" 1]
  by (auto simp: kshift_def Let_def good_masks)

lemma emits_kmov:
  "(case (xkind i 0, xkind i 1) of (K_Register, K_Memory) \<Rightarrow> k_at i [0] \<and> mem_of i \<noteq> None
     | (K_Memory, K_Register) \<Rightarrow> k_at i [1] \<and> mem_of i \<noteq> None | _ \<Rightarrow> True)
   \<Longrightarrow> good n e \<Longrightarrow> emits n (kmov i e)"
  using k_operand_at[of i "[0]" 0] k_operand_at[of i "[1]" 1]
  by (cases "xkind i 0"; cases "xkind i 1")
    (auto simp: kmov_def Let_def ok_or_refuse_def unwrap_def good_masks good_mem_modrm split: option.splits)

lemma lays_done: "emits n r \<Longrightarrow> lays len (attempt r finished)"
  by (rule lays_attempt_em) (auto intro: lays_finished)

lemma lays_as_is: "xlen i \<le> length bs \<Longrightarrow> lays (xlen i) (in_place_as_is i bs)"
  by (simp add: in_place_as_is_def first_bytes_def rewriting_ok_def)

lemma lays_kortest:
  "k_at i [0, 1] \<Longrightarrow> xlen i \<le> length bs \<Longrightarrow> 2 \<le> length bs \<Longrightarrow> good n e \<Longrightarrow> lays (xlen i) (kortest i bs e)"
  using k_operand_at[of i "[0, 1]" 0] k_operand_at[of i "[0, 1]" 1]
  by (auto simp: kortest_def Let_def intro!: lays_as_is lays_finished[of n] good_vexk)

lemma lays_kops:
  assumes "vex_decoded i bs"
  shows "lays (xlen i) (kops i bs tgt)"
proof -
  have g: "good 0 (em_new tgt i)" by (rule good_new)
  have k: "emits 0 (attempt (k_operand i 0) (\<lambda>a. attempt (k_operand i 1) (\<lambda>b. Okay (em_knot a b (em_new tgt i)))))"
    if "k_at i [0, 1]" using k_operand_at[OF that, of 0] k_operand_at[OF that, of 1] g by (auto simp: good_masks)
  note d = assms[unfolded vex_decoded_def]
  have two: "mnem i \<in> {''Knotw'', ''Knotd'', ''Knotq'', ''Knotb'', ''Kortestw'', ''Kortestd'', ''Kortestq'', ''Kortestb'', ''Kshiftlw'',
      ''Kshiftrw'', ''Kshiftlb'', ''Kshiftrb'', ''Kshiftld'', ''Kshiftrd'', ''Kshiftlq'', ''Kshiftrq''} \<Longrightarrow> k_at i [0, 1]"
    using d by (elim insertE emptyE) simp_all
  have three: "mnem i \<in> {''Kandw'', ''Kandd'', ''Kandq'', ''Kandb'', ''Kandnw'', ''Kandnd'', ''Kandnq'', ''Kandnb'', ''Korw'', ''Kord'',
      ''Korq'', ''Korb'', ''Kxnorw'', ''Kxnord'', ''Kxnorq'', ''Kxnorb'', ''Kxorw'', ''Kxord'', ''Kxorq'', ''Kxorb'', ''Kunpckbw''}
      \<Longrightarrow> k_at i [0, 1, 2]"
    using d by (elim insertE emptyE) simp_all
  have km: "mnem i \<in> {''Kmovw'', ''Kmovd'', ''Kmovq'', ''Kmovb''} \<Longrightarrow>
      case (xkind i 0, xkind i 1) of (K_Register, K_Memory) \<Rightarrow> k_at i [0] \<and> mem_of i \<noteq> None
        | (K_Memory, K_Register) \<Rightarrow> k_at i [1] \<and> mem_of i \<noteq> None | _ \<Rightarrow> True"
    using d by (simp only: if_True)
  have unp: "mnem i = ''Kunpckbw'' \<Longrightarrow> k_at i [0, 1, 2]" using d by simp
  have ln: "xlen i \<le> length bs" "2 \<le> length bs" using d by blast+
  show ?thesis
    unfolding kops_def Let_def
  proof (intro lays_if lays_as_is lays_done[OF emits_kmov[OF _ g]] lays_done[OF emits_three[OF _ g]] lays_done[OF k]
        lays_kortest[OF _ _ _ g] lays_done[OF emits_kunpckbw[OF _ g]] lays_done[OF emits_kshift[OF _ g]])
  qed ((rule outcome_simps(7)) | (rule km, assumption) | (rule ln; fail) | (rule unp, assumption) | (rule two[OF subsetD[rotated]], assumption, simp; fail)
      | (rule three[OF subsetD[rotated]], assumption, simp; fail))+
qed

section \<open>The general form\<close>

lemma lays_generic_store: "good n e \<Longrightarrow> lays len (generic_store i v e)"
  unfolding generic_store_def by ((assumption | rule emit_rules | simp; fail)+)

text \<open>The operand the general form chose.\<close>

definition rm_yields :: "nat \<Rightarrow> (rm \<times> u8 \<times> em) outcome \<Rightarrow> bool" where
  "rm_yields n r \<longleftrightarrow> (case r of Panics \<Rightarrow> False | Refused u \<Rightarrow> True | Okay (x, s, e) \<Rightarrow> rm_ok n x \<and> good n e)"

lemma rm_yields_generic:
  assumes "good n e" shows "rm_yields n (generic_rm i v e)"
proof (cases "em_temp i e")
  case (Okay p)
  then show ?thesis using assms yields_temp[OF assms, of i]
    by (cases p) (auto simp: generic_rm_def rm_yields_def Let_def good_steps good_length_mask split: option.splits)
qed (use yields_temp[OF assms, of i] in \<open>auto simp: generic_rm_def rm_yields_def Let_def assms split: option.splits\<close>)

lemma lays_rm:
  "rm_yields n r \<Longrightarrow> (\<And>x s e. rm_ok n x \<Longrightarrow> good n e \<Longrightarrow> lays len (f x s e)) \<Longrightarrow> lays len (attempt r (\<lambda>(x, s, e). f x s e))"
  by (cases r) (auto simp: rm_yields_def)

lemma lays_generic: "lays len (generic i v c tgt)"
  unfolding generic_def
  by ((assumption | rule lays_rm rm_yields_generic lays_generic_store emit_rules good_shared | simp; fail)+)

section \<open>The families together\<close>

definition lays_some :: "nat \<Rightarrow> rewriting option outcome \<Rightarrow> bool" where
  "lays_some len r \<longleftrightarrow> (case r of Panics \<Rightarrow> False | Refused u \<Rightarrow> True | Okay None \<Rightarrow> True | Okay (Some x) \<Rightarrow> rewriting_ok len x)"

lemma lays_some_family: "lays len r \<Longrightarrow> lays_some len (the_family r)"
  by (cases r) (simp_all add: the_family_def lays_some_def)

lemma lays_some_if: "(b \<Longrightarrow> lays_some len x) \<Longrightarrow> (\<not> b \<Longrightarrow> lays_some len y) \<Longrightarrow> lays_some len (if b then x else y)"
  by simp

lemma lays_some_last: "0 < xcount i \<Longrightarrow> (\<And>b. lays_some len (f b)) \<Longrightarrow> lays_some len (last_kind_is i f)"
  by (simp add: last_kind_is_def last_is_imm8_def)

lemma lays_some_none: "lays_some len (Okay None)"
  by (simp add: lays_some_def)

lemma decoded_count: "evex_decoded i bs \<Longrightarrow> 0 < xcount i"
  by (simp add: evex_decoded_def)

lemmas family_lays =
  lays_extract lays_insert lays_ternlog lays_scalar_move lays_scalar_op lays_scalar_minmax lays_minmax lays_broadcast_reg
  lays_valignq lays_byte_shift lays_cvt_to_int lays_cvt_ph2ps lays_cvt_pd2ps lays_scalef lays_divsqrt lays_rndscale
  lays_scalar_cvt lays_cvt_ps2ph lays_widen lays_widen_dq lays_add_sub_q lays_comis lays_cmp_q lays_minmax_q lays_testm
  lays_insertps lays_shuf_blocks lays_fma_addsub lays_narrow_db lays_shift_q lays_abs_d lays_muludq lays_shift_by_xmm

lemma lays_special:
  assumes d: "evex_decoded i bs" shows "lays_some (xlen i) (special i bs v tgt)"
  unfolding special_def Let_def
  by (intro lays_some_if lays_some_family lays_some_last decoded_count[OF d] lays_some_none lays_unaligned_move[OF d]
      lays_movdq[OF d] lays_interleave shuffles_defined lays_permute lays_gather_scatter[OF d] family_lays; assumption)

lemma lays_row:
  assumes "evex_decoded i bs" "e_map v = 1 \<and> e_op v = 0xC2 \<longrightarrow> immediate8 i < 32"
  shows "lays (xlen i) (rewrite_row i bs v c tgt)"
proof -
  have "e_map v = 1 \<and> e_op v = 0xC2 \<and> 7 < immediate8 i \<Longrightarrow> lays (xlen i) (compare i v tgt)"
    using assms(2) by (intro lays_compare) blast
  moreover have "e_map v = 3 \<Longrightarrow> lays (xlen i) (compare i v tgt)" by (intro lays_compare) simp
  moreover have "lays (xlen i) (attempt (writable_bytes 3 (xlen i) bs) (\<lambda>p. Okay (In_place (in_place_bytes b bs p))))" for b
    using assms(1) by (intro lays_writable) (simp_all add: evex_decoded_def rewriting_ok_def in_place_bytes_def)
  ultimately show ?thesis unfolding rewrite_row_def
    by (intro lays_if lays_generic outcome_simps(7)) blast+
qed

lemma lays_family_or:
  "lays_some len r \<Longrightarrow> lays len k
   \<Longrightarrow> lays len (attempt r (\<lambda>x. case x of Some y \<Rightarrow> Okay y | None \<Rightarrow> k))"
  by (cases r) (auto simp: lays_some_def split: option.splits)

lemma lays_rewrite_evex:
  assumes "encoding_of i = Enc_EVEX" "evex_decoded i bs"
    "e_map (parse bs) = 1 \<and> e_op (parse bs) = 0xC2 \<longrightarrow> immediate8 i < 32"
  shows "lays (xlen i) (rewrite i bs tgt)"
proof -
  have "lays (xlen i) (attempt (special i bs (parse bs) tgt) (\<lambda>r. case r of Some x \<Rightarrow> Okay x | None \<Rightarrow>
      attempt (ok_or_refuse i r' y) (\<lambda>c. rewrite_row i bs (parse bs) c tgt)))" for r' y
    using assms by (intro lays_family_or lays_special lays_or_refuse lays_row)
  then show ?thesis using assms(1) unfolding rewrite_def Let_def by (auto simp: outcome_simps)
qed

lemma lays_rewrite_vex: "encoding_of i = Enc_VEX \<Longrightarrow> vex_decoded i bs \<Longrightarrow> lays (xlen i) (rewrite i bs tgt)"
  by (simp add: rewrite_def lays_kops)

section \<open>Every instruction\<close>

definition decoded :: "zinsn \<Rightarrow> bytes \<Rightarrow> bool" where
  "decoded i bs \<longleftrightarrow>
     (case encoding_of i of Enc_EVEX \<Rightarrow> evex_decoded i bs | Enc_VEX \<Rightarrow> vex_decoded i bs | Enc_Other \<Rightarrow> True)"

text \<open>The compares whose immediate the rewriter reads whole.\<close>

definition float_compare :: "zinsn \<Rightarrow> bytes \<Rightarrow> bool" where
  "float_compare i bs \<longleftrightarrow> encoding_of i = Enc_EVEX \<and> e_map (parse bs) = 1 \<and> e_op (parse bs) = 0xC2"

text \<open>
  C4. The rewriter (\<^verbatim>\<open>rewrite\<close>) on a decoded instruction other than a \<^verbatim>\<open>vcmpps\<close> or \<^verbatim>\<open>vcmppd\<close> with an
  immediate of 32 or more (on which it panics): it does not panic (no unwrapped operand
  is missing, no index out of range, no \<^verbatim>\<open>unreachable!\<close>), an instruction left in place keeps
  its length, and a sequence out of line has its displacements inside it, apart from one another
  and each before the end of its instruction, names only constants it has, and has each 64-byte
  constant once.
\<close>

theorem rewrite_lays_out:
  assumes "decoded i bs" "\<not> (float_compare i bs \<and> 32 \<le> immediate8 i)"
  shows "lays (xlen i) (rewrite i bs tgt)"
proof (cases "encoding_of i")
  case Enc_EVEX
  then show ?thesis using assms by (intro lays_rewrite_evex) (auto simp: decoded_def float_compare_def not_le)
next
  case Enc_VEX
  then show ?thesis using assms by (intro lays_rewrite_vex) (simp_all add: decoded_def)
qed (simp add: rewrite_def outcome_simps)

text \<open>\<^verbatim>\<open>vpaddd zmm1{k1}, zmm2, [rip+..]\<close>, of ten bytes.\<close>

definition sample_add :: zinsn where
  "sample_add =
     \<lparr>xip = 0x401000, next_ip = 0x40100a, flow_control = Fall_through, branch_target = 0, condition_code = C_other,
      mnem = ''Vpaddd'', xcount = 3, xkind = (\<lambda>n. if n = 2 then K_Memory else K_Register),
      xreg_of = (\<lambda>n. if n = 0 then Vec 1 64 else Vec 2 64), immediate = (\<lambda>_. 0), immediate8 = 0,
      mem_base = Rip 8, mem_index = No_reg, mem_scale = 1, mem_disp = 0x402000, mem_segment = No_reg, mem_size = 64,
      ip_rel = True, ip_rel_address = 0x402000, xmask = Mask 1, zeroing = False, broadcast = False, used_regs = [], used_mems = [],
      encoding_of = Enc_EVEX, xlen = 10, shown = ''vpaddd zmm1{k1},zmm2,[402000h]'', mem_int64 = False\<rparr>"

definition sample_add_bytes :: bytes where
  "sample_add_bytes = [0x62, 0xf1, 0x6d, 0x49, 0xfe, 0x0d, 0xf6, 0x0f, 0x00, 0x00]"

lemma sample_add_decoded:
  "decoded sample_add sample_add_bytes" "immediate8 sample_add = 0" "xlen sample_add = 10" "encoding_of sample_add = Enc_EVEX"
  by (simp_all add: decoded_def evex_decoded_def sample_add_def sample_add_bytes_def)

theorem rewrite_lays_out_witness:
  "lays (xlen sample_add) (rewrite sample_add sample_add_bytes \<lparr>scratch = 0x1000\<rparr>)"
  by (rule rewrite_lays_out) (simp_all add: sample_add_decoded)

section \<open>The one panic\<close>

lemma special_vcmp: "mnem i \<in> {''Vcmpps'', ''Vcmppd''} \<Longrightarrow> special i bs v tgt = Okay None"
  by (elim insertE emptyE) (simp_all add: special_def Let_def two_tables_def scalar_arith_def)

lemma compare_plan_undefined: "32 \<le> p \<Longrightarrow> compare_plan p = None"
  by (auto simp: compare_plan_def word_le_nat_alt)

lemma compare_panics_above:
  assumes "e_map v = 1" "mem_of i = None" "32 \<le> immediate8 i"
  shows "compare i v tgt = Panics"
proof -
  have "immediate8 i \<noteq> 11" "immediate8 i \<noteq> 27" "immediate8 i \<noteq> 15" "immediate8 i \<noteq> 31"
    using assms(3) by (auto simp: word_le_nat_alt)
  then show ?thesis using assms compare_plan_undefined[OF assms(3)]
    by (simp add: compare_def Let_def src2_def unwrap_def)
qed

text \<open>
  C25. The immediate of \<^verbatim>\<open>vcmpps\<close> and \<^verbatim>\<open>vcmppd\<close> between registers: the rewriter panics on it
  exactly when it is 32 or more.  The processor reads its low five bits only, so that
  instruction is a valid one; the emulator masks it.
\<close>

theorem float_compare_panics_iff:
  assumes "evex_decoded i bs" "encoding_of i = Enc_EVEX" "bs ! 0 = 0x62" "mnem i \<in> {''Vcmpps'', ''Vcmppd''}" "mem_of i = None"
    "e_map (parse bs) = 1" "e_op (parse bs) = 0xC2" "(e_pp (parse bs), e_w (parse bs)) \<in> {(0, 0), (1, 1)}"
  shows "rewrite i bs tgt = Panics \<longleftrightarrow> 32 \<le> immediate8 i"
proof
  assume "rewrite i bs tgt = Panics"
  then show "32 \<le> immediate8 i" using lays_rewrite_evex[OF assms(2,1), of tgt] by (force simp: not_le[symmetric])
next
  assume big: "32 \<le> immediate8 i"
  obtain c where row: "canon 1 (e_pp (parse bs)) (e_w (parse bs)) 0xC2 (drop_bit 3 (e_modrm (parse bs)) AND 7) = Some c"
    using assms(8) by (auto simp: canon_def)
  have seven: "7 < immediate8 i" using big by (auto simp: word_le_nat_alt word_less_nat_alt)
  have "compare i (parse bs) tgt = Panics" using compare_panics_above[OF assms(6,5) big] .
  then show "rewrite i bs tgt = Panics" using assms row seven
    by (simp add: rewrite_def Let_def special_vcmp ok_or_refuse_def rewrite_row_def evex_decoded_def)
qed

text \<open>\<^verbatim>\<open>vcmpps k1, zmm2, zmm3, 0x28\<close>.\<close>

definition sample_cmp :: zinsn where
  "sample_cmp =
     \<lparr>xip = 0x401000, next_ip = 0x401007, flow_control = Fall_through, branch_target = 0, condition_code = C_other,
      mnem = ''Vcmpps'', xcount = 4, xkind = (\<lambda>n. if n = 3 then K_Imm8 else K_Register),
      xreg_of = (\<lambda>n. if n = 0 then Mask 1 else Vec (Suc n) 64), immediate = (\<lambda>_. 0x28), immediate8 = 0x28,
      mem_base = No_reg, mem_index = No_reg, mem_scale = 1, mem_disp = 0, mem_segment = No_reg, mem_size = 0,
      ip_rel = False, ip_rel_address = 0, xmask = No_reg, zeroing = False, broadcast = False, used_regs = [], used_mems = [],
      encoding_of = Enc_EVEX, xlen = 7, shown = ''vcmpps k1,zmm2,zmm3,28h'', mem_int64 = False\<rparr>"

definition sample_cmp_bytes :: bytes where
  "sample_cmp_bytes = [0x62, 0xf1, 0x6c, 0x48, 0xc2, 0xcb, 0x28]"

lemma sample_cmp_decoded:
  "evex_decoded sample_cmp sample_cmp_bytes" "encoding_of sample_cmp = Enc_EVEX" "mnem sample_cmp = ''Vcmpps''"
  "mem_of sample_cmp = None" "immediate8 sample_cmp = 0x28" "sample_cmp_bytes ! 0 = 0x62"
  "e_map (parse sample_cmp_bytes) = 1" "e_op (parse sample_cmp_bytes) = 0xC2" "e_pp (parse sample_cmp_bytes) = 0"
  "e_w (parse sample_cmp_bytes) = 0"
  by (simp_all add: evex_decoded_def mem_of_def sample_cmp_def sample_cmp_bytes_def parse_def Let_def upt_rec)

theorem float_compare_panics_iff_witness: "rewrite sample_cmp sample_cmp_bytes \<lparr>scratch = 0\<rparr> = Panics"
  using float_compare_panics_iff[of sample_cmp sample_cmp_bytes] by (simp add: sample_cmp_decoded)

end
