(* ===== verification/Rw_Layout.thy ===== *)
theory Rw_Layout
  imports Rw_Sound
begin

text \<open>
  Where a sequence of the rewriter lands: \<^verbatim>\<open>thunk_bytes\<close> of
  \<^verbatim>\<open>host/crates/avx512-xlate/src/rewrite.rs\<close> places the constants on 64-byte boundaries, resolves
  every displacement and links the site, the sequence and the next instruction by jumps.
\<close>

section \<open>Bytes at a position\<close>

definition at_pos :: "nat \<Rightarrow> bytes \<Rightarrow> bytes \<Rightarrow> bool" where
  "at_pos p c b \<longleftrightarrow> p + length c \<le> length b \<and> take (length c) (drop p b) = c"

lemma at_pos_nth: "at_pos p c b \<longleftrightarrow> p + length c \<le> length b \<and> list_all (\<lambda>k. b ! (p + k) = c ! k) [0..<length c]"
proof (cases "p + length c \<le> length b")
  case True
  then have "take (length c) (drop p b) = c \<longleftrightarrow> (\<forall>k<length c. b ! (p + k) = c ! k)"
    by (auto simp: list_eq_iff_nth_eq)
  then show ?thesis using True by (auto simp: at_pos_def list_all_iff)
qed (simp add: at_pos_def)

lemma at_pos_mono: "at_pos p c b \<Longrightarrow> at_pos p c (b @ r)"
  by (auto simp: at_pos_nth list_all_iff nth_append)

section \<open>Constants\<close>

definition aligned64 :: "u64 \<Rightarrow> bool" where "aligned64 a \<longleftrightarrow> unat a mod 64 = 0"

lemma pad_aligned: "aligned64 (x + of_nat ((64 - unat x mod 64) mod 64))"
proof -
  let ?k = "(64 - unat x mod 64) mod 64"
  have k: "unat (of_nat ?k :: u64) = ?k" by (rule unat_of_nat_u64) (rule order.strict_trans[of _ 64]; simp)
  have "unat (x + of_nat ?k) = (unat x + ?k) mod 2 ^ 64" using k by (simp only: unat_word_ariths(1)) simp
  then have "unat (x + of_nat ?k) mod 64 = (unat x + ?k) mod 64" by (simp add: mod_mod_cancel)
  also have "\<dots> = (unat x mod 64 + (64 - unat x mod 64)) mod 64" by (metis mod_add_eq mod_mod_trivial)
  finally show ?thesis by (simp add: aligned64_def)
qed

text \<open>The address of a constant, the position it stands for, and its bytes there.\<close>

definition const_placed :: "u64 \<Rightarrow> nat \<Rightarrow> bytes \<Rightarrow> bytes \<Rightarrow> u64 \<Rightarrow> bool" where
  "const_placed at lo b c a \<longleftrightarrow> aligned64 a \<and> (\<exists>p. lo \<le> p \<and> a = at + of_nat p \<and> at_pos p c b)"

lemma const_placed_mono: "const_placed at lo b c a \<Longrightarrow> const_placed at lo (b @ r) c a"
  by (auto simp: const_placed_def intro: at_pos_mono)

lemma place_consts:
  "fold (place_const at) cs (b, ats) = (b', ats') \<Longrightarrow> lo \<le> length b
   \<Longrightarrow> \<exists>r as. b' = b @ r \<and> ats' = ats @ as \<and> list_all2 (const_placed at lo b') cs as"
proof (induction cs arbitrary: b ats)
  case (Cons c cs)
  define b1 where "b1 = b @ replicate ((64 - unat (at + of_nat (length b)) mod 64) mod 64) 0xcc"
  define a where "a = at + of_nat (length b1)"
  have "a = at + of_nat (length b) + of_nat ((64 - unat (at + of_nat (length b)) mod 64) mod 64)"
    by (simp add: a_def b1_def)
  then have al: "aligned64 a" using pad_aligned by simp
  have "place_const at c (b, ats) = (b1 @ c, ats @ [a])" by (simp add: place_const_def Let_def b1_def a_def)
  then have "fold (place_const at) cs (b1 @ c, ats @ [a]) = (b', ats')" using Cons.prems(1) by simp
  moreover have "lo \<le> length (b1 @ c)" using Cons.prems(2) by (simp add: b1_def)
  ultimately obtain r as where r: "b' = (b1 @ c) @ r" "ats' = (ats @ [a]) @ as" "list_all2 (const_placed at lo b') cs as"
    using Cons.IH by blast
  have "at_pos (length b1) c b'" by (simp add: at_pos_def r(1))
  moreover have "lo \<le> length b1" using Cons.prems(2) by (simp add: b1_def)
  ultimately have "const_placed at lo b' c a" using al unfolding const_placed_def a_def by blast
  then show ?case using r by (auto simp: b1_def)
qed simp

section \<open>Displacements\<close>

definition outside :: "fixup list \<Rightarrow> nat \<Rightarrow> bool" where
  "outside fs k \<longleftrightarrow> list_all (\<lambda>f. \<not> (disp_at f \<le> k \<and> k < disp_at f + 4)) fs"

definition target_of :: "u64 list \<Rightarrow> fixup \<Rightarrow> u64" where
  "target_of ats f = (case what f of FK_Const n \<Rightarrow> ats ! n | FK_Rip a \<Rightarrow> a)"

definition rel_to :: "u64 \<Rightarrow> nat \<Rightarrow> u64 \<Rightarrow> bytes" where
  "rel_to at p target = le_bytes32 (ucast (target - (at + of_nat p)))"

lemma length_rel_to [simp]: "length (rel_to at p a) = 4"
  by (simp add: rel_to_def)

lemma patch_at_spec:
  assumes "p + length bs \<le> length t"
  shows "\<exists>t'. patch_at p bs t = Some t' \<and> length t' = length t \<and> at_pos p bs t'
     \<and> (\<forall>k. \<not> (p \<le> k \<and> k < p + length bs) \<longrightarrow> t' ! k = t ! k)"
proof (intro exI conjI allI impI)
  show "patch_at p bs t = Some (take p t @ bs @ drop (p + length bs) t)" using assms by (simp add: patch_at_def)
  fix k assume "\<not> (p \<le> k \<and> k < p + length bs)"
  then show "(take p t @ bs @ drop (p + length bs) t) ! k = t ! k" using assms by (auto simp: nth_append)
qed (use assms in \<open>simp_all add: at_pos_def\<close>)

lemma at_pos_cong: "at_pos p c b \<Longrightarrow> length b' = length b \<Longrightarrow> (\<And>k. p \<le> k \<Longrightarrow> k < p + length c \<Longrightarrow> b' ! k = b ! k) \<Longrightarrow> at_pos p c b'"
  by (auto simp: at_pos_nth list_all_iff)

lemma fixups_fit_le: "fixups_fit lo fs hi \<Longrightarrow> lo \<le> hi"
  by (induction fs arbitrary: lo) fastforce+

lemma fixups_above: "fixups_fit lo fs hi \<Longrightarrow> f \<in> set fs \<Longrightarrow> lo \<le> disp_at f \<and> disp_at f + 4 \<le> insn_end f \<and> insn_end f \<le> hi"
proof (induction fs arbitrary: lo)
  case (Cons g fs)
  then show ?case using fixups_fit_le[of "insn_end g" fs hi] by fastforce
qed simp

lemma apply_fixes_spec:
  "fixups_fit lo fs hi \<Longrightarrow> list_all (names_const (length ats)) fs \<Longrightarrow> hi \<le> length b
   \<Longrightarrow> \<exists>b'. apply_fixes at ats fs b = Some b' \<and> length b' = length b
        \<and> list_all (\<lambda>f. at_pos (disp_at f) (rel_to at (insn_end f) (target_of ats f)) b') fs
        \<and> (\<forall>k. outside fs k \<longrightarrow> b' ! k = b ! k)"
proof (induction fs arbitrary: lo b)
  case (Cons f fs)
  have fit: "lo \<le> disp_at f" "disp_at f + 4 \<le> insn_end f" "fixups_fit (insn_end f) fs hi" using Cons.prems(1) by simp_all
  have "insn_end f \<le> hi" using fixups_above[OF Cons.prems(1), of f] by simp
  then obtain b1 where b1: "patch_at (disp_at f) (rel_to at (insn_end f) (target_of ats f)) b = Some b1" "length b1 = length b"
      "at_pos (disp_at f) (rel_to at (insn_end f) (target_of ats f)) b1"
      "\<forall>k. \<not> (disp_at f \<le> k \<and> k < disp_at f + 4) \<longrightarrow> b1 ! k = b ! k"
    using patch_at_spec[of "disp_at f" "rel_to at (insn_end f) (target_of ats f)" b] fit(2) Cons.prems(3) by auto
  have "fix_target ats (what f) = Some (target_of ats f)"
    using Cons.prems(2) by (cases "what f") (simp_all add: fix_target_def target_of_def names_const_def)
  then have step: "apply_fix at ats f b = Some b1" using b1(1) by (simp add: apply_fix_def rel_to_def)
  obtain b2 where b2: "apply_fixes at ats fs b1 = Some b2" "length b2 = length b1"
      "list_all (\<lambda>f. at_pos (disp_at f) (rel_to at (insn_end f) (target_of ats f)) b2) fs"
      "\<forall>k. outside fs k \<longrightarrow> b2 ! k = b1 ! k"
    using Cons.IH[OF fit(3), of b1] Cons.prems(2,3) b1(2) by auto
  have out: "outside fs k" if "k < disp_at f + 4" for k
    using fixups_above[OF fit(3)] that fit(2) by (fastforce simp: outside_def list_all_iff)
  then have "at_pos (disp_at f) (rel_to at (insn_end f) (target_of ats f)) b2"
    using at_pos_cong[OF b1(3) b2(2)] b2(4) by simp
  moreover have "\<forall>k. outside (f # fs) k \<longrightarrow> b2 ! k = b ! k" using b1(4) b2(4) by (simp add: outside_def)
  ultimately show ?case using step b1(2) b2 by simp
qed (simp add: outside_def)

section \<open>What the processor reads\<close>

text \<open>
  A displacement is 32 bits, read as signed from the end of its instruction.  A target within
  2 GiB is reached.
\<close>

definition within :: "u64 \<Rightarrow> nat \<Rightarrow> u64 \<Rightarrow> bool" where
  "within at p target \<longleftrightarrow> - (2 ^ 31) \<le> sint (target - (at + of_nat p)) \<and> sint (target - (at + of_nat p)) < 2 ^ 31"

definition read_disp :: "u64 \<Rightarrow> nat \<Rightarrow> nat \<Rightarrow> bytes \<Rightarrow> u64" where
  "read_disp at q p b = at + of_nat p + scast (of_le_bytes32 (take 4 (drop q b)))"

lemma scast_ucast_near:
  fixes x :: u64
  assumes "- (2 ^ 31) \<le> sint x" "sint x < 2 ^ 31"
  shows "scast (ucast x :: u32) = x"
proof -
  have u: "(ucast x :: u32) = word_of_int (sint x)" by transfer (simp add: take_bit_signed_take_bit)
  have "sint (ucast x :: u32) = signed_take_bit 31 (sint x)" unfolding u by (subst sint_sbintrunc') simp
  also have "\<dots> = sint x" using assms by (simp add: signed_take_bit_int_eq_self)
  finally show ?thesis by (simp add: scast_eq)
qed

lemma read_rel:
  assumes "at_pos q (rel_to at p target) b" "within at p target"
  shows "read_disp at q p b = target"
  using assms scast_ucast_near[of "target - (at + of_nat p)"]
  by (simp add: at_pos_def read_disp_def within_def rel_to_def)

section \<open>A thunk in its place\<close>

text \<open>
  A fixup is resolved: its four bytes are there, and the processor reads its target from them
  when the target is near.
\<close>

definition resolved :: "u64 \<Rightarrow> u64 list \<Rightarrow> bytes \<Rightarrow> fixup \<Rightarrow> bool" where
  "resolved at ats b f \<longleftrightarrow>
     at_pos (disp_at f) (rel_to at (insn_end f) (target_of ats f)) b
     \<and> (within at (insn_end f) (target_of ats f) \<longrightarrow> read_disp at (disp_at f) (insn_end f) b = target_of ats f)"

text \<open>The jump of five bytes at \<open>p\<close> to \<open>target\<close>.\<close>

definition jumps :: "u64 \<Rightarrow> nat \<Rightarrow> u64 \<Rightarrow> bytes \<Rightarrow> bool" where
  "jumps at p target b \<longleftrightarrow> at_pos p [0xe9] b
     \<and> (within at (p + 5) target \<longrightarrow> read_disp at (p + 1) (p + 5) b = target)"

definition laid_out :: "thunk \<Rightarrow> u64 \<Rightarrow> u64 \<Rightarrow> bytes \<Rightarrow> bool" where
  "laid_out t at nxt b \<longleftrightarrow>
     (\<exists>ats. list_all2 (const_placed at (length (seq t) + 5) b) (constants t) ats \<and> list_all (resolved at ats b) (fixups t))
     \<and> list_all (\<lambda>k. outside (fixups t) k \<longrightarrow> b ! k = seq t ! k) [0..<length (seq t)]
     \<and> jumps at (length (seq t)) nxt b"

lemma at_pos_append: "at_pos p (a @ c) b \<longleftrightarrow> at_pos p a b \<and> at_pos (p + length a) c b"
proof -
  have "take (length a + length c) (drop p b) = take (length a) (drop p b) @ take (length c) (drop (p + length a) b)"
    by (simp add: take_add add.commute)
  then show ?thesis unfolding at_pos_def by (cases "p + length a \<le> length b") auto
qed

lemma at_pos_cons: "at_pos p (x # c) b \<longleftrightarrow> at_pos p [x] b \<and> at_pos (Suc p) c b"
  using at_pos_append[of p "[x]" c b] by simp

lemma jumpsI: "at_pos p (0xe9 # rel_to at (p + 5) target) b \<Longrightarrow> jumps at p target b"
  using read_rel[of "Suc p" at "p + 5" target b] at_pos_cons[of p "0xe9" "rel_to at (p + 5) target" b] by (simp add: jumps_def)

lemma outside_beyond: "fixups_fit 0 fs hi \<Longrightarrow> hi \<le> k \<Longrightarrow> outside fs k"
  unfolding outside_def list_all_iff
proof
  fix f assume f: "fixups_fit 0 fs hi" "hi \<le> k" "f \<in> set fs"
  then show "\<not> (disp_at f \<le> k \<and> k < disp_at f + 4)" using fixups_above[OF f(1,3)] by linarith
qed

lemma const_placed_cong:
  assumes "const_placed at lo b c a" "length b' = length b" "\<And>k. lo \<le> k \<Longrightarrow> b' ! k = b ! k"
  shows "const_placed at lo b' c a"
proof -
  obtain p where p: "aligned64 a" "lo \<le> p" "a = at + of_nat p" "at_pos p c b" using assms(1) by (auto simp: const_placed_def)
  then have "at_pos p c b'" using at_pos_cong[OF p(4) assms(2)] assms(3) by simp
  then show ?thesis using p unfolding const_placed_def by blast
qed

text \<open>
  C9. Laying a thunk out (\<^verbatim>\<open>thunk_bytes\<close>).  A sequence whose displacements fit it is laid out for
  every place, site and length without an index out of range: every constant is on a 64-byte
  boundary behind the sequence and its jump, every displacement leads from the end of its
  instruction to its constant or its absolute address when that is within 2 GiB, the bytes of
  the sequence outside the displacements are as they were emitted, and behind the sequence is a
  jump to the instruction after the site.
\<close>

theorem thunk_layout:
  assumes "thunk_ok t"
  shows "\<exists>b. thunk_bytes t at site len nxt = Some (b, site_bytes at site len) \<and> laid_out t at nxt b"
proof -
  let ?n = "length (seq t)"
  define b0 where "b0 = seq t @ 0xe9 # rel_to at (?n + 5) nxt"
  have b0': "b0 = seq t @ 0xe9 # le_bytes32 (ucast (nxt - (at + of_nat ?n + 5)))" by (simp add: b0_def rel_to_def algebra_simps)
  obtain b1 ats where b1: "fold (place_const at) (constants t) (b0, []) = (b1, ats)" by (meson surj_pair)
  obtain r where r: "b1 = b0 @ r" "list_all2 (const_placed at (?n + 5) b1) (constants t) ats"
    using place_consts[OF b1, of "?n + 5"] by (auto simp: b0_def)
  then have ats: "length ats = length (constants t)" by (simp add: list_all2_lengthD)
  have fit: "fixups_fit 0 (fixups t) ?n" "list_all (names_const (length ats)) (fixups t)"
    using assms ats by (simp_all add: thunk_ok_def)
  obtain b2 where b2: "apply_fixes at ats (fixups t) b1 = Some b2" "length b2 = length b1"
      "list_all (\<lambda>f. at_pos (disp_at f) (rel_to at (insn_end f) (target_of ats f)) b2) (fixups t)"
      "\<forall>k. outside (fixups t) k \<longrightarrow> b2 ! k = b1 ! k"
    using apply_fixes_spec[OF fit, of b1 at] r(1) by (auto simp: b0_def)
  have same: "b2 ! k = b1 ! k" if "?n \<le> k" for k using b2(4) outside_beyond[OF fit(1) that] by simp
  have placed: "list_all2 (const_placed at (?n + 5) b2) (constants t) ats"
    by (rule list_all2_mono[OF r(2)]) (rule const_placed_cong[OF _ b2(2)], simp_all add: same)
  have fixed: "list_all (resolved at ats b2) (fixups t)"
    using b2(3) read_rel by (auto simp: list_all_iff resolved_def)
  have kept: "b2 ! k = seq t ! k" if "outside (fixups t) k" "k < ?n" for k
    using b2(4) that by (simp add: r(1) b0_def nth_append)
  have "at_pos ?n (0xe9 # rel_to at (?n + 5) nxt) b1" by (simp add: r(1) b0_def at_pos_def)
  then have "at_pos ?n (0xe9 # rel_to at (?n + 5) nxt) b2" by (rule at_pos_cong[OF _ b2(2)]) (simp add: same)
  then have "laid_out t at nxt b2" unfolding laid_out_def list_all_iff[of _ "[0..<?n]"]
    using placed fixed kept jumpsI by auto
  then show ?thesis using b1 b2(1) by (simp add: thunk_bytes_def Let_def b0'[symmetric])
qed

text \<open>A sequence with a constant operand (\<^verbatim>\<open>vpxord\<close> with all ones) and one RIP-relative load.\<close>

definition sample_thunk :: thunk where
  "sample_thunk =
     \<lparr>seq = [0x62, 0xf1, 0x7d, 0x08, 0xef, 0x0d, 0, 0, 0, 0, 0x8b, 0x05, 0, 0, 0, 0],
      fixups = [\<lparr>disp_at = 6, insn_end = 10, what = FK_Const 0\<rparr>, \<lparr>disp_at = 12, insn_end = 16, what = FK_Rip 0x402000\<rparr>],
      constants = [replicate 64 0xff]\<rparr>"

theorem thunk_layout_witness:
  "\<exists>b. thunk_bytes sample_thunk 0x500000 0x401000 6 0x401006 = Some (b, site_bytes 0x500000 0x401000 6)
       \<and> laid_out sample_thunk 0x500000 0x401006 b"
  by (rule thunk_layout) (simp add: thunk_ok_def sample_thunk_def names_const_def)

end
