(* ===== verification/Rw_Agree.thy ===== *)
theory Rw_Agree
  imports Rw_Rewrite Mvex_Decode Emu_Mask
begin

text \<open>
  Where the rewriter (\<^verbatim>\<open>host/crates/avx512-xlate/src/rewrite.rs\<close>) meets the other crates: its
  own encoder and \<^verbatim>\<open>knc-mvex\<close> write the same bytes, and the compares it plans for the card
  compute the predicate the emulator of \<^verbatim>\<open>phi512\<close> computes.
\<close>

section \<open>Two encoders\<close>

text \<open>An operand of the encoder as one of the rewriter.\<close>

fun as_rm :: "Mvex.rm \<Rightarrow> Rw_Core.rm" where
  "as_rm (Mvex.Rm_Zmm z) = Rw_Core.Rm_Reg (zno z)"
| "as_rm (Mvex.Rm_Mem m) =
     Rw_Core.Rm_Mem \<lparr>mem_op.base = Some (gno (mem.base m)), index = None, scale = 0, mem_op.disp = scast (mem.disp m), rip = None\<rparr>"

fun no_sib :: "Mvex.rm \<Rightarrow> bool" where
  "no_sib (Mvex.Rm_Zmm z) \<longleftrightarrow> True"
| "no_sib (Mvex.Rm_Mem m) \<longleftrightarrow> gno (mem.base m) AND 7 \<noteq> 4"

lemma prefix_agrees:
  assumes "k < 8"
  shows "mvex_prefix (map_no mp) (pp_no p) (of_bool w) opc reg vvvv (as_rm r) k sss =
         [0x62, byte_p0 mp reg (rm_x r) (rm_b r), byte_p1 p w vvvv, push_bit 4 sss OR byte_p2 vvvv k, opc]"
proof -
  have k: "k AND 7 = k" by (rule byte_eqI) (use small_bits(3)[OF assms] in \<open>simp_all add: bit_simps\<close>)
  show ?thesis
    by (cases r)
      (auto simp: mvex_prefix_def Let_def byte_p0_def byte_p1_def byte_p2_def k ac_simps intro!: byte_eqI simp: bit_simps)
qed

lemma ucast_scast32: "ucast (scast (d :: u32) :: u64) = (d :: u32)"
  by (rule bit_word_eqI) (simp add: bit_simps)

lemma operand_agrees:
  assumes "no_sib r"
  shows "operand_bytes (push_bit 3 (reg AND 7)) (as_rm r) e = (rm_bytes reg r, None)"
  using assms
  by (cases r) (simp_all add: operand_bytes_def modrm_byte_def modrm_sib_def ucast_scast32 ac_simps)

lemma rm_bytes_long: "rm_bytes reg r \<noteq> []"
  by (cases r) simp_all

text \<open>
  C15. Two encoders of the card's instructions, one in each crate: whatever \<^verbatim>\<open>knc-mvex\<close>'s
  \<^verbatim>\<open>mvex\<close> encodes, with a register or a base and displacement as its operand, the emitter of
  the rewriter (\<^verbatim>\<open>Em::mvex\<close>) appends byte for byte, the swizzle set as \<^verbatim>\<open>with_sss\<close> sets it and
  no displacement left to patch.
\<close>

theorem encoders_agree:
  assumes "mvex mp p w reg vvvv r k opc imm = Some bs" "no_sib r"
  shows "em_mvex (map_no mp) (pp_no p) (of_bool w) opc reg vvvv (as_rm r) k sss imm e = em_push (with_sss bs sss) e"
proof -
  have k: "k < 8" using assms(1) by (simp add: mvex_def split: if_splits)
  have bs: "bs = [0x62, byte_p0 mp reg (rm_x r) (rm_b r), byte_p1 p w vvvv, byte_p2 vvvv k, opc] @ rm_bytes reg r @ imm_bytes imm"
    using assms(1) by (simp add: mvex_def split: if_splits)
  have ip: "imm_bytes imm = (case imm of None \<Rightarrow> [] | Some i \<Rightarrow> [i])" by (cases imm) simp_all
  show ?thesis unfolding em_mvex_def Let_def prefix_agrees[OF k] operand_agrees[OF assms(2)]
    by (simp add: em_push_def bs with_sss_def or_p2_def ip ac_simps split: option.splits)
qed

theorem encoders_agree_witness:
  "\<forall>e. em_mvex (map_no M0F38) (pp_no P66) (of_bool True) 0xb8 1 2 (as_rm (Mvex.Rm_Mem \<lparr>mem.base = Rdi, mem.disp = 0x40\<rparr>)) 3 1 None e
       = em_push (with_sss [0x62, 0xf2, 0xe9, 0x0b, 0xb8, 0x8f, 0x40, 0, 0, 0] 1) e"
proof
  fix e
  have "mvex M0F38 P66 True 1 2 (Mvex.Rm_Mem \<lparr>mem.base = Rdi, mem.disp = 0x40\<rparr>) 3 0xb8 None
        = Some [0x62, 0xf2, 0xe9, 0x0b, 0xb8, 0x8f, 0x40, 0, 0, 0]"
    by (simp add: mvex_def byte_p0_def byte_p1_def byte_p2_def modrm_byte_def le_bytes32_def)
  then show "em_mvex (map_no M0F38) (pp_no P66) (of_bool True) 0xb8 1 2 (as_rm (Mvex.Rm_Mem \<lparr>mem.base = Rdi, mem.disp = 0x40\<rparr>)) 3 1 None e
       = em_push (with_sss [0x62, 0xf2, 0xe9, 0x0b, 0xb8, 0x8f, 0x40, 0, 0, 0] 1) e"
    by (rule encoders_agree) simp
qed

section \<open>Compares\<close>

text \<open>
  The mask bit of a lane under a predicate of the card (its eight are the emulator's first eight),
  operands swapped or not, and of a plan: the first compare, joined by \<^verbatim>\<open>kor\<close> with the second.
\<close>

definition card_compare :: "u8 \<times> bool \<Rightarrow> u64 \<Rightarrow> u64 \<Rightarrow> bool" where
  "card_compare ps a b = (if snd ps then float_predicate (fst ps) b a else float_predicate (fst ps) a b)"

definition planned :: "u8 \<times> bool \<times> (u8 \<times> bool) option \<Rightarrow> u64 \<Rightarrow> u64 \<Rightarrow> bool" where
  "planned pl a b =
     (let (p, swap, second) = pl in
      card_compare (p, swap) a b \<or> (case second of None \<Rightarrow> False | Some ps \<Rightarrow> card_compare ps a b))"

text \<open>What \<^verbatim>\<open>compare\<close> computes in a lane: no mask, a full mask, or its plan.\<close>

definition rewritten_compare :: "u8 \<Rightarrow> u64 \<Rightarrow> u64 \<Rightarrow> bool option" where
  "rewritten_compare p a b =
     (if p = 11 \<or> p = 27 then Some False else if p = 15 \<or> p = 31 then Some True
      else map_option (\<lambda>pl. planned pl a b) (compare_plan p))"

definition card_predicates :: "u8 \<times> bool \<times> (u8 \<times> bool) option \<Rightarrow> bool" where
  "card_predicates pl = (let (p, swap, second) = pl in p < 8 \<and> (case second of None \<Rightarrow> True | Some ps \<Rightarrow> fst ps < 8))"

lemma high_predicates: "7 < (p :: u8) \<Longrightarrow> p < 32 \<Longrightarrow> p \<in> set (map of_nat [8..<32])"
proof -
  assume "7 < p" "p < 32"
  then have "unat p \<in> set [8..<32]" unfolding set_upt atLeastLessThan_iff by (simp add: word_less_nat_alt)
  then have "of_nat (unat p) \<in> (of_nat ` set [8..<32] :: u8 set)" by (rule imageI)
  then show ?thesis by simp
qed

text \<open>
  C16. Every predicate of \<^verbatim>\<open>vcmpps\<close> and \<^verbatim>\<open>vcmppd\<close> from 8 to 31 is composed of predicates the card
  has, and the composition is the predicate the emulator evaluates, on ordered, equal and
  unordered operands alike: a compare gives the same mask bit whether a program is emulated or
  its region is rewritten for the card.
\<close>

theorem compare_plan_agrees_with_emulator:
  assumes "7 < p" "p < 32"
  shows "rewritten_compare p a b = Some (float_predicate p a b)
         \<and> (\<forall>pl. compare_plan p = Some pl \<longrightarrow> card_predicates pl)"
  using high_predicates[OF assms]
  by (simp add: upt_rec)
    (elim disjE; simp add: rewritten_compare_def compare_plan_def planned_def card_compare_def card_predicates_def
      float_predicate_def eq64_def lt64_def le64_def; linarith?; auto)

theorem compare_plan_agrees_with_emulator_witness:
  "rewritten_compare 12 0x3ff0000000000000 0x4000000000000000 = Some (float_predicate 12 0x3ff0000000000000 0x4000000000000000)"
  using compare_plan_agrees_with_emulator[of 12 "0x3ff0000000000000" "0x4000000000000000"] by simp

end
