(* ===== verification/Rw_Code.thy ===== *)
theory Rw_Code
  imports Rw_Rewrite
begin

text \<open>
  The integer code inside the sequences of \<^verbatim>\<open>host/crates/avx512-xlate/src/rewrite.rs\<close>: the
  few x86 instructions on eax and ecx it consists of, their encodings and effects, and what the
  byte strings of the emitter compute on masks.
\<close>

section \<open>Instructions on eax and ecx\<close>

text \<open>
  \<open>I_movzx8 r\<close> is \<^verbatim>\<open>movzx r, r8\<close>, \<open>I_movzx16\<close> is \<^verbatim>\<open>movzx eax, ax\<close>; \<open>C\<close> stands for
  ecx and \<open>A\<close> for eax.
\<close>

datatype areg = A | C

datatype ains =
    I_movzx8 areg
  | I_movzx16
  | I_mov_ca
  | I_mov_ac
  | I_shl areg u8
  | I_shr areg u8
  | I_or_ac
  | I_and_ac
  | I_and_ca
  | I_and_imm u32
  | I_not
  | I_xor_aa

definition rno :: "areg \<Rightarrow> u8" where "rno r = (case r of A \<Rightarrow> 0 | C \<Rightarrow> 1)"

text \<open>A shift by one has its own opcode.\<close>

fun enc :: "ains \<Rightarrow> bytes" where
  "enc (I_movzx8 r) = [0x0f, 0xb6, 0xc0 OR push_bit 3 (rno r) OR rno r]"
| "enc I_movzx16 = [0x0f, 0xb7, 0xc0]"
| "enc I_mov_ca = [0x89, 0xc1]"
| "enc I_mov_ac = [0x89, 0xc8]"
| "enc (I_shl r n) = (if n = 1 then [0xd1, 0xe0 OR rno r] else [0xc1, 0xe0 OR rno r, n])"
| "enc (I_shr r n) = (if n = 1 then [0xd1, 0xe8 OR rno r] else [0xc1, 0xe8 OR rno r, n])"
| "enc I_or_ac = [0x09, 0xc8]"
| "enc I_and_ac = [0x21, 0xc8]"
| "enc I_and_ca = [0x21, 0xc1]"
| "enc (I_and_imm v) = 0x25 # le_bytes32 v"
| "enc I_not = [0xf7, 0xd0]"
| "enc I_xor_aa = [0x31, 0xc0]"

definition asm :: "ains list \<Rightarrow> bytes" where
  "asm p = concat (map enc p)"

type_synonym regs = "u32 \<times> u32"

definition on_reg :: "areg \<Rightarrow> (u32 \<Rightarrow> u32) \<Rightarrow> regs \<Rightarrow> regs" where
  "on_reg r f s = (case r of A \<Rightarrow> (f (fst s), snd s) | C \<Rightarrow> (fst s, f (snd s)))"

text \<open>A shift takes its count modulo 32.\<close>

fun exec1 :: "ains \<Rightarrow> regs \<Rightarrow> regs" where
  "exec1 (I_movzx8 r) s = on_reg r (take_bit 8) s"
| "exec1 I_movzx16 s = on_reg A (take_bit 16) s"
| "exec1 I_mov_ca s = (fst s, fst s)"
| "exec1 I_mov_ac s = (snd s, snd s)"
| "exec1 (I_shl r n) s = on_reg r (push_bit (unat n mod 32)) s"
| "exec1 (I_shr r n) s = on_reg r (drop_bit (unat n mod 32)) s"
| "exec1 I_or_ac s = (fst s OR snd s, snd s)"
| "exec1 I_and_ac s = (fst s AND snd s, snd s)"
| "exec1 I_and_ca s = (fst s, snd s AND fst s)"
| "exec1 (I_and_imm v) s = on_reg A (\<lambda>a. a AND v) s"
| "exec1 I_not s = on_reg A NOT s"
| "exec1 I_xor_aa s = (0, snd s)"

definition exec :: "ains list \<Rightarrow> regs \<Rightarrow> regs" where
  "exec p s = fold exec1 p s"

lemma exec_simps [simp]: "exec [] s = s" "exec (x # p) s = exec p (exec1 x s)"
  by (simp_all add: exec_def)

section \<open>Masks\<close>

definition dmask_prog :: "u16 \<Rightarrow> ains list" where
  "dmask_prog limit =
     [I_movzx8 A, I_mov_ca, I_shl C 4, I_or_ac, I_and_imm 0x0f0f, I_mov_ca, I_shl C 2, I_or_ac, I_and_imm 0x3333,
      I_mov_ca, I_shl C 1, I_or_ac, I_and_imm 0x5555, I_mov_ca, I_shl C 1, I_or_ac, I_and_imm (ucast limit)]"

definition pack_prog :: "ains list" where
  "pack_prog =
     [I_and_imm 0x5555, I_mov_ca, I_shr C 1, I_or_ac, I_and_imm 0x3333, I_mov_ca, I_shr C 2, I_or_ac, I_and_imm 0x0f0f,
      I_mov_ca, I_shr C 4, I_or_ac, I_and_imm 0xff]"

definition spread_prog :: "ains list" where
  "spread_prog = [I_and_imm 0x5555, I_mov_ca, I_shl C 1, I_or_ac]"

lemma asm_progs:
  "dmask_code limit = asm (dmask_prog limit)" "pack_even_code = asm pack_prog" "spread_even_code = asm spread_prog"
  by (simp_all add: asm_def rno_def dmask_code_def dmask_prog_def pack_even_code_def pack_prog_def spread_even_code_def
      spread_prog_def le_bytes32_def)

lemma dmask_bit: "n < 16 \<Longrightarrow> bit (fst (exec (dmask_prog limit) (a, c))) n \<longleftrightarrow> bit a (n div 2) \<and> bit limit n"
  by (drule upto16, elim insertE emptyE)
    (simp_all add: dmask_prog_def on_reg_def bit_simps del: push_bit_Suc)

lemma pack_bit: "n < 32 \<Longrightarrow> bit (fst (exec pack_prog (a, c))) n \<longleftrightarrow> n < 8 \<and> bit a (2 * n)"
proof (cases "n < 8")
  case True
  then show ?thesis
    by - (drule upto8, elim insertE emptyE; simp add: pack_prog_def on_reg_def bit_simps del: push_bit_Suc drop_bit_Suc; simp add: numeral_2_eq_2)
next
  case False
  then have "\<not> bit (0xff :: u32) n" using bit_take_bit_iff[of 8 "- 1 :: u32" n] by (simp add: take_bit_minus_one_eq_mask mask_eq_exp_minus_1)
  then show ?thesis using False by (simp add: pack_prog_def on_reg_def bit_simps)
qed

lemma spread_bit: "n < 16 \<Longrightarrow> bit (fst (exec spread_prog (a, c))) n \<longleftrightarrow> bit a (2 * (n div 2))"
  by (drule upto16, elim insertE emptyE) (simp_all add: spread_prog_def on_reg_def bit_simps del: push_bit_Suc)

end
