(* ===== verification/Rw_Qword.thy ===== *)
theory Rw_Qword
  imports Rw_Code Rw_Sound Emu_Mask
begin

text \<open>
  Qword compares on a card that compares dwords (\<^verbatim>\<open>qword_lt_eq\<close> and \<^verbatim>\<open>cmp_q\<close> of
  \<^verbatim>\<open>host/crates/avx512-xlate/src/rewrite.rs\<close>): the steps the sequence consists of, their
  effect, and that the mask they leave is the mask the emulator of \<^verbatim>\<open>phi512\<close> computes.
\<close>

section \<open>Steps\<close>

text \<open>
  The scratch mask \<open>k\<close> takes a compare of the two sources' dwords; a slot is four bytes of the
  scratch area; \<open>C_mov\<close> loads eax with a constant.
\<close>

datatype slot = Eq_slot | Hi_slot

datatype cins =
    C_int ains
  | C_mov u32
  | C_eq
  | C_ult
  | C_slt
  | C_get areg
  | C_mask u8
  | C_save areg slot
  | C_load slot
  | C_or slot

definition soff :: "slot \<Rightarrow> i32" where
  "soff s = (case s of Eq_slot \<Rightarrow> S_XFER | Hi_slot \<Rightarrow> S_XFER + 8)"

text \<open>What the emitter appends for a step on the sources \<open>a\<close> and \<open>b\<close>.\<close>

fun emit_step :: "u8 \<Rightarrow> u8 \<Rightarrow> cins \<Rightarrow> em \<Rightarrow> em" where
  "emit_step a b (C_int x) e = em_push (enc x) e"
| "emit_step a b (C_mov n) e = em_push ([0xb8] @ le_bytes32 n) e"
| "emit_step a b C_eq e = em_mvex 1 1 0 0x76 (kscr e) a (Rm_Reg b) 0 0 None e"
| "emit_step a b C_ult e = em_mvex 3 1 0 0x1E (kscr e) a (Rm_Reg b) 0 0 (Some 1) e"
| "emit_step a b C_slt e = em_mvex 3 1 0 0x1F (kscr e) a (Rm_Reg b) 0 0 (Some 1) e"
| "emit_step a b (C_get r) e = em_kmov_r_k (rno r) (kscr e) e"
| "emit_step a b (C_mask k) e = em_kmov_r_k 1 k e"
| "emit_step a b (C_save r s) e = em_gpr_scratch (rno r) False (soff s) True e"
| "emit_step a b (C_load s) e = em_gpr_scratch 0 False (soff s) False e"
| "emit_step a b (C_or s) e = em_fs_op [0x0b] 0 (soff s) e"

section \<open>Effects\<close>

record cstate =
  aregs :: regs
  kreg_s :: u32
  eq_slot :: u32
  hi_slot :: u32

definition mask16 :: "(nat \<Rightarrow> bool) \<Rightarrow> u32" where
  "mask16 f = horner_sum of_bool 2 (map f [0..<16])"

lemma bit_mask16 [simp]: "bit (mask16 f) n \<longleftrightarrow> n < 16 \<and> f n"
  by (auto simp: mask16_def bit_horner_sum_bit_word_iff)

definition slot_of :: "slot \<Rightarrow> cstate \<Rightarrow> u32" where
  "slot_of s t = (case s of Eq_slot \<Rightarrow> eq_slot t | Hi_slot \<Rightarrow> hi_slot t)"

definition reg_of :: "areg \<Rightarrow> cstate \<Rightarrow> u32" where
  "reg_of r t = (case r of A \<Rightarrow> fst (aregs t) | C \<Rightarrow> snd (aregs t))"

definition set_areg :: "areg \<Rightarrow> u32 \<Rightarrow> cstate \<Rightarrow> cstate" where
  "set_areg r v t = t\<lparr>aregs := on_reg r (\<lambda>_. v) (aregs t)\<rparr>"

text \<open>Over the dwords \<open>x\<close> and \<open>y\<close> of the sources and the program's mask registers \<open>K\<close>.\<close>

fun exec_step :: "(nat \<Rightarrow> u32) \<Rightarrow> (nat \<Rightarrow> u32) \<Rightarrow> (u8 \<Rightarrow> u32) \<Rightarrow> cins \<Rightarrow> cstate \<Rightarrow> cstate" where
  "exec_step x y K (C_int p) t = t\<lparr>aregs := exec1 p (aregs t)\<rparr>"
| "exec_step x y K (C_mov n) t = set_areg A n t"
| "exec_step x y K C_eq t = t\<lparr>kreg_s := mask16 (\<lambda>n. x n = y n)\<rparr>"
| "exec_step x y K C_ult t = t\<lparr>kreg_s := mask16 (\<lambda>n. x n < y n)\<rparr>"
| "exec_step x y K C_slt t = t\<lparr>kreg_s := mask16 (\<lambda>n. sint (x n) < sint (y n))\<rparr>"
| "exec_step x y K (C_get r) t = set_areg r (kreg_s t) t"
| "exec_step x y K (C_mask k) t = set_areg C (K k) t"
| "exec_step x y K (C_save r s) t =
     (case s of Eq_slot \<Rightarrow> t\<lparr>eq_slot := reg_of r t\<rparr> | Hi_slot \<Rightarrow> t\<lparr>hi_slot := reg_of r t\<rparr>)"
| "exec_step x y K (C_load s) t = set_areg A (slot_of s t) t"
| "exec_step x y K (C_or s) t = set_areg A (reg_of A t OR slot_of s t) t"

definition exec_steps :: "(nat \<Rightarrow> u32) \<Rightarrow> (nat \<Rightarrow> u32) \<Rightarrow> (u8 \<Rightarrow> u32) \<Rightarrow> cins list \<Rightarrow> cstate \<Rightarrow> cstate" where
  "exec_steps x y K p t = fold (exec_step x y K) p t"

lemma exec_steps_simps [simp]:
  "exec_steps x y K [] t = t" "exec_steps x y K (c # p) t = exec_steps x y K p (exec_step x y K c t)"
  "exec_steps x y K (p @ q) t = exec_steps x y K q (exec_steps x y K p t)"
  by (simp_all add: exec_steps_def)

section \<open>The program of a compare\<close>

definition lt_eq_prog :: "bool \<Rightarrow> cins list" where
  "lt_eq_prog signd =
     [C_eq, C_get A, C_int I_mov_ca, C_int (I_shr C 1), C_int I_and_ca, C_save C Eq_slot, C_int (I_shr A 1),
      C_ult, C_get C, C_int I_and_ac, C_save A Hi_slot]
     @ (if signd then [C_slt, C_get A] else [C_int I_mov_ac])
     @ [C_int (I_shr A 1), C_or Hi_slot]"

lemma lt_eq_emitted:
  "qword_lt_eq a b signd e = fold (emit_step a b) (lt_eq_prog signd) (em_rcx (em_flags (em_k e)))"
  by (simp add: qword_lt_eq_def lt_eq_prog_def Let_def em_push_push rno_def soff_def)

section \<open>Qwords from dwords\<close>

definition qlane :: "(nat \<Rightarrow> u32) \<Rightarrow> nat \<Rightarrow> u64" where
  "qlane x q = word_of_int (uint (x (2 * q + 1)) * 2 ^ 32 + uint (x (2 * q)))"

lemma u32_bounds: "0 \<le> uint (w :: u32)" "uint w < 2 ^ 32" "- (2 ^ 31) \<le> sint w" "sint w < 2 ^ 31"
  using uint_lt2p[of w] sint_greater_eq[of w] sint_less[of w] by simp_all

lemma uint_qlane: "uint (qlane x q) = uint (x (2 * q + 1)) * 2 ^ 32 + uint (x (2 * q))"
  unfolding qlane_def uint_word_of_int_eq
  using u32_bounds(1,2)[of "x (2 * q + 1)"] u32_bounds(1,2)[of "x (2 * q)"] by (intro take_bit_int_eq_self) simp_all

text \<open>Numbers in digits of 32 bits.\<close>

lemma digits_bound:
  fixes h l :: int
  assumes "- (2 ^ 31) \<le> h" "h < 2 ^ 31" "0 \<le> l" "l < 2 ^ 32"
  shows "- (2 ^ 63) \<le> h * 2 ^ 32 + l" "h * 2 ^ 32 + l < 2 ^ 63"
  using assms by simp_all

lemma digits_less:
  fixes h g l m :: int
  assumes "0 \<le> l" "l < 2 ^ 32" "0 \<le> m" "m < 2 ^ 32"
  shows "h * 2 ^ 32 + l < g * 2 ^ 32 + m \<longleftrightarrow> h < g \<or> (h = g \<and> l < m)"
    "h * 2 ^ 32 + l = g * 2 ^ 32 + m \<longleftrightarrow> h = g \<and> l = m"
proof -
  consider "h < g" | "h = g" | "g < h" by linarith
  then have "(h * 2 ^ 32 + l < g * 2 ^ 32 + m \<longleftrightarrow> h < g \<or> (h = g \<and> l < m))
     \<and> (h * 2 ^ 32 + l = g * 2 ^ 32 + m \<longleftrightarrow> h = g \<and> l = m)"
    using assms by cases simp_all
  then show "h * 2 ^ 32 + l < g * 2 ^ 32 + m \<longleftrightarrow> h < g \<or> (h = g \<and> l < m)"
    "h * 2 ^ 32 + l = g * 2 ^ 32 + m \<longleftrightarrow> h = g \<and> l = m" by blast+
qed

lemma sint_mod: "sint (w :: u32) mod 2 ^ 32 = uint w"
  using uint_sint[of w] by (simp add: take_bit_eq_mod)

lemma sint_qlane: "sint (qlane x q) = sint (x (2 * q + 1)) * 2 ^ 32 + uint (x (2 * q))"
proof -
  let ?h = "sint (x (2 * q + 1))" and ?l = "uint (x (2 * q))"
  have "uint (x (2 * q + 1)) = ?h - 2 ^ 32 * (?h div 2 ^ 32)"
    using sint_mod[of "x (2 * q + 1)"] by (simp add: minus_mult_div_eq_mod)
  then have "uint (x (2 * q + 1)) * 2 ^ 32 + ?l = ?h * 2 ^ 32 + ?l + 2 ^ 64 * (- (?h div 2 ^ 32))" by simp
  then have "take_bit 64 (uint (x (2 * q + 1)) * 2 ^ 32 + ?l) = take_bit 64 (?h * 2 ^ 32 + ?l)"
    by (simp only: take_bit_eq_mod mod_mult_self2)
  then have w: "qlane x q = word_of_int (?h * 2 ^ 32 + ?l)"
    unfolding qlane_def by (intro word_of_int_eq_iff[THEN iffD2]) simp
  have "- (2 ^ 63) \<le> ?h * 2 ^ 32 + ?l" "?h * 2 ^ 32 + ?l < 2 ^ 63"
    by (rule digits_bound[OF u32_bounds(3,4) u32_bounds(1,2)])+
  then have "signed_take_bit 63 (?h * 2 ^ 32 + ?l) = ?h * 2 ^ 32 + ?l" by (rule signed_take_bit_int_eq_self)
  then show ?thesis unfolding w by (subst sint_sbintrunc') simp
qed

lemma qlane_less:
  "qlane x q < qlane y q \<longleftrightarrow> x (2 * q + 1) < y (2 * q + 1) \<or> (x (2 * q + 1) = y (2 * q + 1) \<and> x (2 * q) < y (2 * q))"
  unfolding word_less_def uint_qlane using u32_bounds(1,2) by (subst digits_less) (auto simp: word_uint_eq_iff)

lemma qlane_sless:
  "sint (qlane x q) < sint (qlane y q) \<longleftrightarrow>
   sint (x (2 * q + 1)) < sint (y (2 * q + 1)) \<or> (x (2 * q + 1) = y (2 * q + 1) \<and> x (2 * q) < y (2 * q))"
  unfolding sint_qlane using u32_bounds(1,2) by (subst digits_less) (auto simp: word_less_def signed_word_eqI)

lemma qlane_eq: "qlane x q = qlane y q \<longleftrightarrow> x (2 * q + 1) = y (2 * q + 1) \<and> x (2 * q) = y (2 * q)"
  unfolding word_uint_eq_iff uint_qlane using u32_bounds(1,2) by (subst digits_less(2)) auto

section \<open>What the compare leaves\<close>

lemma set_areg_simps [simp]:
  "aregs (set_areg A v t) = (v, snd (aregs t))" "aregs (set_areg C v t) = (fst (aregs t), v)"
  "kreg_s (set_areg r v t) = kreg_s t" "eq_slot (set_areg r v t) = eq_slot t" "hi_slot (set_areg r v t) = hi_slot t"
  by (simp_all add: set_areg_def on_reg_def)

lemma reg_of_simps [simp]: "reg_of A t = fst (aregs t)" "reg_of C t = snd (aregs t)"
  by (simp_all add: reg_of_def)

lemma lt_eq_left:
  fixes t :: cstate
  assumes "q < 8" and t': "t' = exec_steps x y K (lt_eq_prog signd) t"
  shows "bit (fst (aregs t')) (2 * q) \<longleftrightarrow> (if signd then sint (qlane x q) < sint (qlane y q) else qlane x q < qlane y q)"
    "bit (eq_slot t') (2 * q) \<longleftrightarrow> qlane x q = qlane y q"
  using assms(1) unfolding t' qlane_sless qlane_less qlane_eq
  by (auto simp: lt_eq_prog_def on_reg_def slot_of_def bit_simps)

section \<open>The compare into a mask\<close>

definition pred_prog :: "u8 \<Rightarrow> cins list" where
  "pred_prog pred =
     (if pred = 0 then [C_load Eq_slot]
      else if pred = 1 then []
      else if pred = 2 then [C_or Eq_slot]
      else if pred = 4 then [C_load Eq_slot, C_int I_not]
      else if pred = 5 then [C_int I_not]
      else [C_or Eq_slot, C_int I_not])"

definition select_prog :: "u8 \<Rightarrow> cins list" where
  "select_prog aaa = (if aaa \<noteq> 0 then [C_mask aaa, C_int I_and_ac] else [])"

definition mask_prog :: "u16 \<Rightarrow> u8 \<Rightarrow> cins list" where
  "mask_prog lanes aaa = C_int (I_and_imm (ucast lanes)) # select_prog aaa"

definition cmp_prog :: "bool \<Rightarrow> u8 \<Rightarrow> u16 \<Rightarrow> u8 \<Rightarrow> cins list" where
  "cmp_prog signd pred lanes aaa = lt_eq_prog signd @ pred_prog pred @ map C_int pack_prog @ mask_prog lanes aaa"

lemma em_push_nil: "em_push [] e = e"
  by (simp add: em_push_def)

lemma emit_ints: "fold (emit_step a b) (map C_int p) e = em_push (asm p) e"
  by (induction p arbitrary: e) (simp_all add: asm_def em_push_push em_push_nil)

lemma exec_ints: "exec_steps x y K (map C_int p) t = t\<lparr>aregs := exec p (aregs t)\<rparr>"
  by (induction p arbitrary: t) simp_all

lemma pred_emitted: "from_lt_eq pred e = fold (emit_step a b) (pred_prog pred) e"
  by (simp add: from_lt_eq_def pred_prog_def Let_def soff_def)

lemma select_emitted: "mask_eax aaa e = fold (emit_step a b) (select_prog aaa) e"
  by (simp add: mask_eax_def select_prog_def Let_def)

lemma mask_emitted: "mask_eax aaa (and_eax (ucast lanes) e) = fold (emit_step a b) (mask_prog lanes aaa) e"
  by (simp add: select_emitted[of aaa _ a b] and_eax_def mask_prog_def)

lemma cmp_emitted:
  "mask_eax aaa (and_eax (ucast lanes) (pack_even (from_lt_eq pred (qword_lt_eq a b signd e))))
   = fold (emit_step a b) (cmp_prog signd pred lanes aaa) (em_rcx (em_flags (em_k e)))"
  by (simp add: cmp_prog_def lt_eq_emitted pred_emitted[of pred _ a b] mask_emitted[of aaa lanes _ a b] emit_ints pack_even_def
      asm_progs)

text \<open>The predicate the emulator evaluates, on signed or unsigned qwords.\<close>

definition qword_predicate :: "bool \<Rightarrow> u8 \<Rightarrow> u64 \<Rightarrow> u64 \<Rightarrow> bool" where
  "qword_predicate signd pred a b = (if signd then int_predicate pred (sint a) (sint b) else uint_predicate pred a b)"

definition three_bits :: "u8 \<Rightarrow> bool" where "three_bits p \<longleftrightarrow> p \<in> {0, 1, 2, 4, 5, 6}"

lemma sint_eq: "sint (a :: u64) = sint b \<longleftrightarrow> a = b"
  by (auto intro: signed_word_eqI)

lemma cmp_left:
  assumes q: "q < 8" and p: "three_bits pred"
  shows "bit (fst (aregs (exec_steps x y K (cmp_prog signd pred lanes aaa) t))) q \<longleftrightarrow>
         bit lanes q \<and> (aaa = 0 \<or> bit (K aaa) q) \<and> qword_predicate signd pred (qlane x q) (qlane y q)"
proof -
  define t1 where "t1 = exec_steps x y K (lt_eq_prog signd) t"
  define t2 where "t2 = exec_steps x y K (pred_prog pred) t1"
  note lt = lt_eq_left[OF q t1_def]
  have "bit (fst (aregs t2)) (2 * q) \<longleftrightarrow> qword_predicate signd pred (qlane x q) (qlane y q)"
    using p q unfolding three_bits_def t2_def
    by (elim insertE emptyE; simp add: pred_prog_def on_reg_def slot_of_def lt qword_predicate_def int_predicate_def
        uint_predicate_def sint_eq bit_simps; auto simp: not_less order_le_less sint_eq)
  moreover have "bit (fst (exec pack_prog (aregs t2))) q \<longleftrightarrow> bit (fst (aregs t2)) (2 * q)"
    using pack_bit[of q "fst (aregs t2)" "snd (aregs t2)"] q by simp
  ultimately show ?thesis using q
    by (auto simp: cmp_prog_def mask_prog_def select_prog_def t1_def[symmetric] t2_def[symmetric] exec_ints on_reg_def bit_simps)
qed

section \<open>The sequence and the emulator\<close>

lemma qlane_or: "qlane x q = push_bit 32 (ucast (x (2 * q + 1))) OR ucast (x (2 * q))"
proof -
  have "qlane x q = push_bit 32 (ucast (x (2 * q + 1))) + ucast (x (2 * q))"
    by (simp add: qlane_def push_bit_eq_mult)
  also have "\<dots> = push_bit 32 (ucast (x (2 * q + 1))) OR ucast (x (2 * q))"
    by (rule disjunctive_add_eq_or) (rule bit_word_eqI, auto simp: bit_simps dest: bit_imp_le_length)
  finally show ?thesis .
qed

lemma lane64_qlane:
  assumes "length b = 64" "q < 8"
  shows "lane64 b q = qlane (lane32 b) q"
proof (unfold qlane_or, rule bit_word_eqI)
  fix j assume "j < LENGTH(64)"
  then have j: "j < 64" by simp
  show "bit (lane64 b q) j = bit (push_bit 32 (ucast (lane32 b (2 * q + 1))) OR ucast (lane32 b (2 * q)) :: u64) j"
  proof (cases "j < 32")
    case True
    then have "j div 8 < 4" by (simp add: less_mult_imp_div_less)
    then show ?thesis using assms j True by (simp add: lane64_def lane32_def bit_of_le bytes_at_def bit_simps mult.commute)
  next
    case False
    then obtain k where k: "j = k + 32" by (metis le_add_diff_inverse2 not_less)
    then have "k < 32" using j by simp
    then have "k div 8 < 4" by (simp add: less_mult_imp_div_less)
    moreover have "(k + 32) div 8 = k div 8 + 4" "(k + 32) mod 8 = k mod 8" by presburger+
    ultimately show ?thesis using assms j k
      by (simp add: lane64_def lane32_def bit_of_le bytes_at_def bit_simps algebra_simps bit_imp_le_length)
  qed
qed

definition qword_compare :: "zinsn \<Rightarrow> bool" where
  "qword_compare i \<longleftrightarrow> mnem i \<in> {''Vpcmpq'', ''Vpcmpuq'', ''Vpcmpeqq'', ''Vpcmpgtq''}"

definition signed_compare :: "zinsn \<Rightarrow> bool" where
  "signed_compare i \<longleftrightarrow> mnem i \<in> {''Vpcmpq'', ''Vpcmpeqq'', ''Vpcmpgtq''}"

text \<open>
  The steps: a constant for the predicates that are always false (3) and always true (7), the
  compare of the dwords for the others; and what is saved before them.
\<close>

definition compare_steps :: "zinsn \<Rightarrow> ev \<Rightarrow> cins list" where
  "compare_steps i v =
     (if cmp_pred i = 3 then [C_mov 0]
      else if cmp_pred i = 7 then C_mov (ucast (vl_lanes (e_ll v) 1)) # select_prog (e_aaa v)
      else cmp_prog (signed_compare i) (cmp_pred i) (vl_lanes (e_ll v) 1) (e_aaa v))"

definition compare_saves :: "zinsn \<Rightarrow> em \<Rightarrow> em" where
  "compare_saves i e =
     (if cmp_pred i = 3 then em_rax e
      else if cmp_pred i = 7 then em_rax (em_rcx (em_flags e))
      else em_rcx (em_flags (em_k e)))"

lemma cmp_pred_cases: "cmp_pred i = 3 \<or> cmp_pred i = 7 \<or> three_bits (cmp_pred i)"
proof -
  have small: "n \<in> {0, 1, 2, 3, 4, 5, 6, 7}" if "0 \<le> n" "n < 8" for n :: int using that by auto
  have "p AND 7 \<in> {0, 1, 2, 3, 4, 5, 6, 7}" for p :: u8
  proof -
    have "uint (p AND mask 3) < 2 ^ 3" by (rule and_mask_lt_2p)
    then have "uint (p AND 7) < 8" by (simp add: mask_eq_exp_minus_1)
    then have "uint (p AND 7) \<in> {0, 1, 2, 3, 4, 5, 6, 7}" by (rule small[OF uint_ge_0])
    then have "word_of_int (uint (p AND 7)) \<in> (word_of_int ` {0, 1, 2, 3, 4, 5, 6, 7} :: u8 set)" by (rule imageI)
    then show ?thesis unfolding word_of_int_uint by simp
  qed
  then show ?thesis by (auto simp: cmp_pred_def three_bits_def)
qed

text \<open>The mask the steps leave in eax, on the 64-byte sources \<open>a\<close> and \<open>b\<close>.\<close>

definition compare_mask :: "bytes \<Rightarrow> bytes \<Rightarrow> (u8 \<Rightarrow> u32) \<Rightarrow> zinsn \<Rightarrow> ev \<Rightarrow> cstate \<Rightarrow> u32" where
  "compare_mask a b K i v t = fst (aregs (exec_steps (lane32 a) (lane32 b) K (compare_steps i v) t))"

definition lane_selected :: "(u8 \<Rightarrow> u32) \<Rightarrow> ev \<Rightarrow> nat \<Rightarrow> bool" where
  "lane_selected K v q \<longleftrightarrow> bit (vl_lanes (e_ll v) 1) q \<and> (e_aaa v = 0 \<or> bit (K (e_aaa v)) q)"

lemma predicate_is_lane:
  assumes "qword_compare i" "length a = 64" "length b = 64" "q < 8"
  shows "compare_lane F (mnem i) (immediate8 i) a b q
         = Some (qword_predicate (signed_compare i) (cmp_pred i) (qlane (lane32 a) q) (qlane (lane32 b) q))"
proof -
  have m: "(p AND 7) AND 7 = p AND 7" for p :: u8 by (simp add: and.assoc)
  have e: "(1 :: u8) AND 7 = 1" "(0 :: u8) AND 7 = 0" "(6 :: u8) AND 7 = 6" by simp_all
  show ?thesis using assms(1) unfolding qword_compare_def
    by (elim insertE emptyE)
      (simp_all add: compare_lane_def lane64_qlane[OF assms(2,4)] lane64_qlane[OF assms(3,4)] signed_compare_def cmp_pred_def
        qword_predicate_def int_predicate_def uint_predicate_def m e sint_eq)
qed

lemma compare_left:
  assumes "q < 8"
  shows "bit (fst (aregs (exec_steps x y K (compare_steps i v) t))) q \<longleftrightarrow>
         lane_selected K v q \<and> qword_predicate (signed_compare i) (cmp_pred i) (qlane x q) (qlane y q)"
proof -
  consider "cmp_pred i = 3" | "cmp_pred i = 7" | "three_bits (cmp_pred i)" using cmp_pred_cases by blast
  then show ?thesis
  proof cases
    case 1
    then show ?thesis by (simp add: compare_steps_def qword_predicate_def int_predicate_def uint_predicate_def)
  next
    case 2
    then show ?thesis using assms
      by (auto simp: compare_steps_def select_prog_def lane_selected_def qword_predicate_def int_predicate_def
          uint_predicate_def on_reg_def bit_simps)
  next
    case 3
    then have "cmp_pred i \<noteq> 3" "cmp_pred i \<noteq> 7" by (auto simp: three_bits_def)
    then show ?thesis using cmp_left[OF assms 3] by (simp add: compare_steps_def lane_selected_def)
  qed
qed

text \<open>
  C8. Qword compares between registers (\<^verbatim>\<open>vpcmpq\<close>, \<^verbatim>\<open>vpcmpuq\<close>, \<^verbatim>\<open>vpcmpeqq\<close>,
  \<^verbatim>\<open>vpcmpgtq\<close>, every predicate) on a card that compares dwords.  What \<^verbatim>\<open>cmp_q\<close> emits between the
  saves and the move to the destination is the byte string of a list of steps (dword compares into
  the scratch mask, moves, shifts and logic on eax and ecx, two scratch slots); and those steps, run
  on any two sources, leave in each lane of the vector length and write mask the bit the emulator of
  \<^verbatim>\<open>phi512\<close> computes for that instruction, and zero in every other lane.  The forms with a memory
  operand are not covered: their operand is read after eax was overwritten.
\<close>

theorem qword_compare_agrees_with_emulator:
  assumes "qword_compare i" "mem_of i = None" "length a = 64" "length b = 64"
  shows "cmp_q i v tgt = finished (em_kmov_k_r (e_reg v AND 7) 0
           (fold (emit_step (e_vvvv v) (e_rm v)) (compare_steps i v) (compare_saves i (em_new tgt i))))
    \<and> list_all (\<lambda>q. compare_lane F (mnem i) (immediate8 i) a b q \<noteq> None
         \<and> (bit (compare_mask a b K i v t) q \<longleftrightarrow> lane_selected K v q \<and> compare_lane F (mnem i) (immediate8 i) a b q = Some True)) [0..<8]"
proof
  show "cmp_q i v tgt = finished (em_kmov_k_r (e_reg v AND 7) 0
           (fold (emit_step (e_vvvv v) (e_rm v)) (compare_steps i v) (compare_saves i (em_new tgt i))))"
  proof (cases "cmp_pred i = 3 \<or> cmp_pred i = 7")
    case True
    then show ?thesis using assms(2) select_emitted[of "e_aaa v" _ "e_vvvv v" "e_rm v"]
      by (auto simp: cmp_q_def Let_def src2_def compare_steps_def compare_saves_def em_mov_eax_def)
  next
    case False
    then show ?thesis using assms(2)
      by (simp add: cmp_q_def Let_def src2_def compare_steps_def compare_saves_def cmp_emitted signed_compare_def)
  qed
  show "list_all (\<lambda>q. compare_lane F (mnem i) (immediate8 i) a b q \<noteq> None
         \<and> (bit (compare_mask a b K i v t) q \<longleftrightarrow> lane_selected K v q \<and> compare_lane F (mnem i) (immediate8 i) a b q = Some True)) [0..<8]"
    using predicate_is_lane[OF assms(1,3,4)] compare_left by (auto simp: list_all_iff compare_mask_def)
qed

text \<open>\<^verbatim>\<open>vpcmpgtq k1{k2}, zmm2, zmm3\<close>.\<close>

definition sample_gtq :: zinsn where
  "sample_gtq =
     \<lparr>xip = 0x401000, next_ip = 0x401006, flow_control = Fall_through, branch_target = 0, condition_code = C_other,
      mnem = ''Vpcmpgtq'', xcount = 3, xkind = (\<lambda>n. K_Register),
      xreg_of = (\<lambda>n. if n = 0 then Mask 1 else Vec (Suc n) 64), immediate = (\<lambda>_. 0), immediate8 = 0,
      mem_base = No_reg, mem_index = No_reg, mem_scale = 1, mem_disp = 0, mem_segment = No_reg, mem_size = 0,
      ip_rel = False, ip_rel_address = 0, xmask = Mask 2, zeroing = False, broadcast = False, used_regs = [], used_mems = [],
      encoding_of = Enc_EVEX, xlen = 6, shown = ''vpcmpgtq k1{k2},zmm2,zmm3'', mem_int64 = False\<rparr>"

theorem qword_compare_agrees_with_emulator_witness:
  "\<forall>F K t. list_all (\<lambda>q. compare_lane F (mnem sample_gtq) (immediate8 sample_gtq) (replicate 64 2) (replicate 64 1) q \<noteq> None
      \<and> (bit (compare_mask (replicate 64 2) (replicate 64 1) K sample_gtq (parse [0x62, 0xf2, 0xed, 0x4a, 0x37, 0xcb]) t) q
         \<longleftrightarrow> lane_selected K (parse [0x62, 0xf2, 0xed, 0x4a, 0x37, 0xcb]) q
             \<and> compare_lane F (mnem sample_gtq) (immediate8 sample_gtq) (replicate 64 2) (replicate 64 1) q = Some True)) [0..<8]"
  by (intro allI conjunct2[OF qword_compare_agrees_with_emulator])
    (simp_all add: qword_compare_def mem_of_def three_bits_def cmp_pred_def sample_gtq_def list_ex_iff)

section \<open>Unpacking masks\<close>

definition kunpck_prog :: "ains list" where
  "kunpck_prog = [I_movzx8 A, I_shl C 8, I_movzx8 C, I_shl C 8, I_or_ac]"

lemma low_byte: "x AND width_mask 8 = take_bit 8 x"
  unfolding take_bit_eq_mask by (simp add: width_mask_def mask_eq_exp_minus_1)

text \<open>
  C26. \<^verbatim>\<open>kunpckbw\<close> loses its first source.  The code the rewriter emits for it (the second
  source in eax, the first in ecx) shifts ecx left by 8 before it takes its low byte, so it
  leaves the low byte of the second source alone, whatever the first is; the instruction, and
  the emulator, put the first source's low byte above it.
\<close>

theorem kunpckbw_drops_first_source:
  "kunpck_code = asm kunpck_prog
   \<and> fst (exec kunpck_prog (y, x)) = take_bit 8 y
   \<and> mask_binary ''Kunpckbw'' 16 (ucast x) (ucast y) = Some (push_bit 8 (take_bit 8 (ucast x)) OR take_bit 8 (ucast y))"
proof (intro conjI)
  show "kunpck_code = asm kunpck_prog" by (simp add: asm_def rno_def kunpck_code_def kunpck_prog_def)
  show "fst (exec kunpck_prog (y, x)) = take_bit 8 y"
    by (rule bit_word_eqI) (auto simp: kunpck_prog_def on_reg_def bit_simps)
  show "mask_binary ''Kunpckbw'' 16 (ucast x) (ucast y) = Some (push_bit 8 (take_bit 8 (ucast x)) OR take_bit 8 (ucast y))"
    by (simp add: mask_binary_def low_byte)
qed

end
