(* ===== verification/Patch_Code.thy ===== *)
theory Patch_Code
  imports Emu_Core
begin

text \<open>
  The machine code of \<^verbatim>\<open>host/crates/phi512/src/patch.rs\<close>: the fixed buffer it is assembled in, the
  trampoline, the stub of a site, and the few instructions of the processor they are made of, with
  their encodings and effects.
\<close>

section \<open>Assembling\<close>

definition STUB_SIZE :: nat where "STUB_SIZE = 32"
definition STUB_RET_OFFSET :: nat where "STUB_RET_OFFSET = 10"
definition MAX_SITES :: nat where "MAX_SITES = 8192"
definition ARENA_SIZE :: nat where "ARENA_SIZE = 4096 + MAX_SITES * STUB_SIZE"

text \<open>\<^verbatim>\<open>Code\<close> is a buffer of 512 bytes; what does not fit panics (\<open>None\<close>).\<close>

definition code_push :: "u8 \<Rightarrow> bytes \<Rightarrow> bytes option" where
  "code_push b c = (if length c < 512 then Some (c @ [b]) else None)"

definition code_extend :: "bytes \<Rightarrow> bytes \<Rightarrow> bytes option" where
  "code_extend bs c = (if length c + length bs \<le> 512 then Some (c @ bs) else None)"

primrec emit_seq :: "(bytes \<Rightarrow> bytes option) list \<Rightarrow> bytes \<Rightarrow> bytes option" where
  "emit_seq [] c = Some c"
| "emit_seq (f # fs) c = Option.bind (f c) (emit_seq fs)"

definition emit_vmovups :: "u8 \<Rightarrow> i32 \<Rightarrow> bool \<Rightarrow> bytes \<Rightarrow> bytes option" where
  "emit_vmovups reg disp store =
     emit_seq [code_push 0xc5, code_push (if reg < 8 then 0xfc else 0x7c), code_push (if store then 0x11 else 0x10),
       code_push (0x84 OR push_bit 3 (reg AND 7)), code_push 0x24, code_extend (to_le 4 disp)]"

definition emit_lea_rsp :: "i32 \<Rightarrow> bytes \<Rightarrow> bytes option" where
  "emit_lea_rsp delta =
     emit_seq (code_extend [0x48, 0x8d] #
       (if - 128 \<le> sint delta \<and> sint delta \<le> 127 then [code_extend [0x64, 0x24, ucast delta]]
        else [code_extend [0xa4, 0x24], code_extend (to_le 4 delta)]))"

definition emit_push :: "u8 \<Rightarrow> bytes \<Rightarrow> bytes option" where
  "emit_push reg = emit_seq ((if reg \<ge> 8 then [code_push 0x41] else []) @ [code_push (0x50 OR (reg AND 7))])"

definition emit_pop :: "u8 \<Rightarrow> bytes \<Rightarrow> bytes option" where
  "emit_pop reg = emit_seq ((if reg \<ge> 8 then [code_push 0x41] else []) @ [code_push (0x58 OR (reg AND 7))])"

definition PUSH_ORDER :: "u8 list" where
  "PUSH_ORDER = [15, 14, 13, 12, 11, 10, 9, 8, 5, 7, 6, 2, 1, 3, 0]"

definition build_trampoline :: "u64 \<Rightarrow> bytes option" where
  "build_trampoline callee =
     emit_seq
       (map emit_push PUSH_ORDER @
        [code_push 0x9c, emit_lea_rsp (- 512)] @
        map (\<lambda>r. emit_vmovups (of_nat r) (of_nat r * 32) True) [0..<16] @
        [code_extend [0x48, 0x89, 0xe7], code_extend [0x48, 0x8b, 0xb4, 0x24], code_extend (to_le 4 (of_nat FRAME_SIZE :: i32)),
         code_extend [0x49, 0x89, 0xe7], code_extend [0x48, 0x83, 0xe4, 0xf0], code_extend [0x48, 0xb8],
         code_extend (to_le 8 callee), code_extend [0xff, 0xd0], code_extend [0x4c, 0x89, 0xfc]] @
        map (\<lambda>r. emit_vmovups (of_nat r) (of_nat r * 32) False) [0..<16] @
        [emit_lea_rsp 512, code_push 0x9d] @
        map emit_pop (rev PUSH_ORDER) @
        [code_push 0xc3]) []"

text \<open>The displacement of a five-byte jump or call, truncated to \<^verbatim>\<open>i32\<close>.\<close>

definition rel32 :: "u64 \<Rightarrow> u64 \<Rightarrow> i32" where
  "rel32 from to = ucast (to - (from + 5))"

definition build_stub :: "u64 \<Rightarrow> u64 \<Rightarrow> u64 \<Rightarrow> bytes option" where
  "build_stub stub_addr trampoline resume = do {
     c \<leftarrow> emit_lea_rsp (- 128) [];
     let call_site = stub_addr + of_nat (length c);
     c \<leftarrow> emit_seq [code_push 0xe8, code_extend (to_le 4 (rel32 call_site trampoline)), emit_lea_rsp 128] c;
     let jmp_site = stub_addr + of_nat (length c);
     c \<leftarrow> emit_seq [code_push 0xe9, code_extend (to_le 4 (rel32 jmp_site resume))] c;
     if length c \<le> STUB_SIZE then Some (c @ replicate (STUB_SIZE - length c) 0x90) else None }"

text \<open>Can a five-byte jump at \<open>from\<close> reach \<open>to\<close>?\<close>

definition in_jump_range :: "u64 \<Rightarrow> u64 \<Rightarrow> bool" where
  "in_jump_range from to = (let delta = sint (to - from) in - (2 ^ 31) \<le> delta \<and> delta < 2 ^ 31)"

section \<open>The instructions\<close>

datatype tins =
    T_push nat
  | T_pop nat
  | T_pushfq
  | T_popfq
  | T_lea_rsp i32
  | T_vmov nat i32 bool
  | T_mov_rdi_rsp
  | T_mov_rsi i32
  | T_mov_r15_rsp
  | T_and_rsp
  | T_movabs_rax u64
  | T_call_rax
  | T_mov_rsp_r15
  | T_ret
  | T_call i32
  | T_jmp i32

fun tenc :: "tins \<Rightarrow> bytes" where
  "tenc (T_push r) = (if r < 8 then [0x50 OR of_nat r] else [0x41, 0x50 OR (of_nat r AND 7)])"
| "tenc (T_pop r) = (if r < 8 then [0x58 OR of_nat r] else [0x41, 0x58 OR (of_nat r AND 7)])"
| "tenc T_pushfq = [0x9c]"
| "tenc T_popfq = [0x9d]"
| "tenc (T_lea_rsp d) =
     (if - 128 \<le> sint d \<and> sint d \<le> 127 then [0x48, 0x8d, 0x64, 0x24, ucast d] else [0x48, 0x8d, 0xa4, 0x24] @ to_le 4 d)"
| "tenc (T_vmov r d s) =
     [0xc5, if r < 8 then 0xfc else 0x7c, if s then 0x11 else 0x10, 0x84 OR push_bit 3 (of_nat r AND 7), 0x24] @ to_le 4 d"
| "tenc T_mov_rdi_rsp = [0x48, 0x89, 0xe7]"
| "tenc (T_mov_rsi d) = [0x48, 0x8b, 0xb4, 0x24] @ to_le 4 d"
| "tenc T_mov_r15_rsp = [0x49, 0x89, 0xe7]"
| "tenc T_and_rsp = [0x48, 0x83, 0xe4, 0xf0]"
| "tenc (T_movabs_rax v) = [0x48, 0xb8] @ to_le 8 v"
| "tenc T_call_rax = [0xff, 0xd0]"
| "tenc T_mov_rsp_r15 = [0x4c, 0x89, 0xfc]"
| "tenc T_ret = [0xc3]"
| "tenc (T_call d) = 0xe8 # to_le 4 d"
| "tenc (T_jmp d) = 0xe9 # to_le 4 d"

definition tasm :: "tins list \<Rightarrow> bytes" where
  "tasm p = concat (map tenc p)"

definition starts :: "bytes \<Rightarrow> bytes \<Rightarrow> bool" where
  "starts p bs \<longleftrightarrow> take (length p) bs = p"

text \<open>What the processor reads in the bytes at the instruction pointer, with the length.\<close>

definition tdec :: "bytes \<Rightarrow> (tins \<times> nat) option" where
  "tdec bs =
     (if starts [0x9c] bs then Some (T_pushfq, 1)
      else if starts [0x9d] bs then Some (T_popfq, 1)
      else if starts [0xc3] bs then Some (T_ret, 1)
      else if starts [0xe8] bs then Some (T_call (of_le (bytes_at 1 4 bs)), 5)
      else if starts [0xe9] bs then Some (T_jmp (of_le (bytes_at 1 4 bs)), 5)
      else if starts [0xff, 0xd0] bs then Some (T_call_rax, 2)
      else if starts [0x48, 0xb8] bs then Some (T_movabs_rax (of_le (bytes_at 2 8 bs)), 10)
      else if starts [0x48, 0x89, 0xe7] bs then Some (T_mov_rdi_rsp, 3)
      else if starts [0x49, 0x89, 0xe7] bs then Some (T_mov_r15_rsp, 3)
      else if starts [0x4c, 0x89, 0xfc] bs then Some (T_mov_rsp_r15, 3)
      else if starts [0x48, 0x83, 0xe4, 0xf0] bs then Some (T_and_rsp, 4)
      else if starts [0x48, 0x8b, 0xb4, 0x24] bs then Some (T_mov_rsi (of_le (bytes_at 4 4 bs)), 8)
      else if starts [0x48, 0x8d, 0x64, 0x24] bs then Some (T_lea_rsp (scast (bs ! 4)), 5)
      else if starts [0x48, 0x8d, 0xa4, 0x24] bs then Some (T_lea_rsp (of_le (bytes_at 4 4 bs)), 8)
      else if starts [0xc5] bs \<and> bs ! 1 \<in> {0xfc, 0x7c} \<and> bs ! 2 \<in> {0x10, 0x11} \<and> bs ! 3 AND 0xc7 = 0x84 \<and> bs ! 4 = 0x24 then
        Some (T_vmov ((if bs ! 1 = 0xfc then 0 else 8) + unat (drop_bit 3 (bs ! 3) AND 7)) (of_le (bytes_at 5 4 bs)) (bs ! 2 = 0x11), 9)
      else if hd bs AND 0xf8 = 0x50 then Some (T_push (unat (hd bs AND 7)), 1)
      else if hd bs AND 0xf8 = 0x58 then Some (T_pop (unat (hd bs AND 7)), 1)
      else if starts [0x41] bs \<and> bs ! 1 AND 0xf8 = 0x50 then Some (T_push (8 + unat (bs ! 1 AND 7)), 2)
      else if starts [0x41] bs \<and> bs ! 1 AND 0xf8 = 0x58 then Some (T_pop (8 + unat (bs ! 1 AND 7)), 2)
      else None)"

fun tvalid :: "tins \<Rightarrow> bool" where
  "tvalid (T_push r) = (r < 16)"
| "tvalid (T_pop r) = (r < 16)"
| "tvalid (T_vmov r d s) = (r < 16)"
| "tvalid _ = True"

lemma scast_ucast_byte: "- 128 \<le> sint (d :: i32) \<Longrightarrow> sint d \<le> 127 \<Longrightarrow> scast (ucast d :: u8) = d"
proof -
  assume d: "- 128 \<le> sint d" "sint d \<le> 127"
  have "ucast d = (word_of_int (sint d) :: u8)"
    by (rule bit_word_eqI) (simp add: bit_simps)
  then have "sint (ucast d :: u8) = sint (word_of_int (sint d) :: u8)" by (rule arg_cong)
  also have "\<dots> = signed_take_bit 7 (sint d)" unfolding sint_sbintrunc' by simp
  also have "\<dots> = sint d" using d by (intro signed_take_bit_int_eq_self) simp_all
  finally show ?thesis by (simp add: scast_eq)
qed

lemma tdec_tenc:
  assumes "tvalid i"
  shows "tdec (tenc i @ rest) = Some (i, length (tenc i))"
proof (cases i)
  case (T_push r)
  then have "r < 16" using assms by simp
  then show ?thesis unfolding T_push by (drule_tac upto16) (elim insertE emptyE; simp add: tdec_def starts_def)
next
  case (T_pop r)
  then have "r < 16" using assms by simp
  then show ?thesis unfolding T_pop by (drule_tac upto16) (elim insertE emptyE; simp add: tdec_def starts_def)
next
  case (T_vmov r d s)
  then have "r < 16" using assms by simp
  then show ?thesis unfolding T_vmov by (drule_tac upto16) (elim insertE emptyE; simp add: tdec_def starts_def bytes_at_def)
qed (simp_all add: tdec_def starts_def bytes_at_def scast_ucast_byte)

section \<open>What is emitted\<close>

definition emits :: "(bytes \<Rightarrow> bytes option) \<Rightarrow> bytes \<Rightarrow> bool" where
  "emits f bs \<longleftrightarrow> (\<forall>c. length c + length bs \<le> 512 \<longrightarrow> f c = Some (c @ bs))"

named_theorems emits_intros \<open>the bytes an emitter appends\<close>

lemma emits_code_push [emits_intros]: "emits (code_push b) [b]"
  by (simp add: emits_def code_push_def)

lemma emits_code_extend [emits_intros]: "emits (code_extend bs) bs"
  by (simp add: emits_def code_extend_def)

lemma emit_seq_emits:
  assumes "list_all2 emits fs bss" "length c + length (concat bss) \<le> 512"
  shows "emit_seq fs c = Some (c @ concat bss)"
  using assms
proof (induction fs bss arbitrary: c)
  case (Cons f fs bs bss)
  then show ?case by (simp add: emits_def)
qed simp

lemma emits_emit_seq: "list_all2 emits fs bss \<Longrightarrow> bs = concat bss \<Longrightarrow> emits (emit_seq fs) bs"
  using emit_seq_emits by (simp add: emits_def)

lemma emits_map: "(\<And>x. x \<in> set xs \<Longrightarrow> emits (f x) (g x)) \<Longrightarrow> list_all2 emits (map f xs) (map g xs)"
  by (simp add: list.rel_map list.rel_refl_strong)

lemma emits_emit_push [emits_intros]: "r < 16 \<Longrightarrow> emits (emit_push (of_nat r)) (tenc (T_push r))"
  unfolding emit_push_def
  by (rule emits_emit_seq[where bss = "if r < 8 then [[0x50 OR of_nat r]] else [[0x41], [0x50 OR (of_nat r AND 7)]]"];
      drule upto16; elim insertE emptyE; simp add: emits_intros word_le_nat_alt)

lemma emits_emit_pop [emits_intros]: "r < 16 \<Longrightarrow> emits (emit_pop (of_nat r)) (tenc (T_pop r))"
  unfolding emit_pop_def
  by (rule emits_emit_seq[where bss = "if r < 8 then [[0x58 OR of_nat r]] else [[0x41], [0x58 OR (of_nat r AND 7)]]"];
      drule upto16; elim insertE emptyE; simp add: emits_intros word_le_nat_alt)

lemma emits_emit_lea_rsp [emits_intros]: "emits (emit_lea_rsp d) (tenc (T_lea_rsp d))"
  unfolding emit_lea_rsp_def
  by (rule emits_emit_seq[where bss = "[0x48, 0x8d] # (if - 128 \<le> sint d \<and> sint d \<le> 127 then [[0x64, 0x24, ucast d]]
        else [[0xa4, 0x24], to_le 4 d])"]) (simp_all add: emits_intros)

lemma emits_emit_vmovups [emits_intros]: "r < 16 \<Longrightarrow> emits (emit_vmovups (of_nat r) d s) (tenc (T_vmov r d s))"
  unfolding emit_vmovups_def
  by (rule emits_emit_seq[where bss = "[[0xc5], [if r < 8 then 0xfc else 0x7c], [if s then 0x11 else 0x10],
        [0x84 OR push_bit 3 (of_nat r AND 7)], [0x24], to_le 4 d]"];
      drule upto16; elim insertE emptyE; simp add: emits_intros)

section \<open>The programs\<close>

definition push_regs :: "nat list" where
  "push_regs = [15, 14, 13, 12, 11, 10, 9, 8, 5, 7, 6, 2, 1, 3, 0]"

lemma push_regs_less: "r \<in> set push_regs \<Longrightarrow> r < 16"
  by (auto simp: push_regs_def)

definition enter_prog :: "tins list" where
  "enter_prog = map T_push push_regs @ [T_pushfq, T_lea_rsp (- 512)] @ map (\<lambda>r. T_vmov r (of_nat r * 32) True) [0..<16]"

definition hand_prog :: "u64 \<Rightarrow> tins list" where
  "hand_prog callee = [T_mov_rdi_rsp, T_mov_rsi 640, T_mov_r15_rsp, T_and_rsp, T_movabs_rax callee]"

definition leave_prog :: "tins list" where
  "leave_prog = T_mov_rsp_r15 # map (\<lambda>r. T_vmov r (of_nat r * 32) False) [0..<16] @ [T_lea_rsp 512, T_popfq] @ map T_pop (rev push_regs)"

definition tramp_prog :: "u64 \<Rightarrow> tins list" where
  "tramp_prog callee = enter_prog @ hand_prog callee @ [T_call_rax] @ leave_prog @ [T_ret]"

lemma tramp_bytes: "build_trampoline callee = Some (tasm (tramp_prog callee))"
proof -
  have p: "PUSH_ORDER = map of_nat push_regs" by (simp add: PUSH_ORDER_def push_regs_def)
  have "build_trampoline callee = emit_seq
       (map (\<lambda>r. emit_push (of_nat r)) push_regs @
        [code_push 0x9c, emit_lea_rsp (- 512)] @
        map (\<lambda>r. emit_vmovups (of_nat r) (of_nat r * 32) True) [0..<16] @
        [code_extend [0x48, 0x89, 0xe7], code_extend [0x48, 0x8b, 0xb4, 0x24], code_extend (to_le 4 (640 :: i32)),
         code_extend [0x49, 0x89, 0xe7], code_extend [0x48, 0x83, 0xe4, 0xf0], code_extend [0x48, 0xb8],
         code_extend (to_le 8 callee), code_extend [0xff, 0xd0], code_extend [0x4c, 0x89, 0xfc]] @
        map (\<lambda>r. emit_vmovups (of_nat r) (of_nat r * 32) False) [0..<16] @
        [emit_lea_rsp 512, code_push 0x9d] @
        map (\<lambda>r. emit_pop (of_nat r)) (rev push_regs) @
        [code_push 0xc3]) []"
    by (simp add: build_trampoline_def p rev_map comp_def FRAME_SIZE_def GPR_OFFSET_def FLAGS_OFFSET_def GPR_COUNT_def)
  also have "\<dots> = Some ([] @ concat
       (map (\<lambda>r. tenc (T_push r)) push_regs @
        [[0x9c], tenc (T_lea_rsp (- 512))] @
        map (\<lambda>r. tenc (T_vmov r (of_nat r * 32) True)) [0..<16] @
        [[0x48, 0x89, 0xe7], [0x48, 0x8b, 0xb4, 0x24], to_le 4 (640 :: i32),
         [0x49, 0x89, 0xe7], [0x48, 0x83, 0xe4, 0xf0], [0x48, 0xb8], to_le 8 callee, [0xff, 0xd0], [0x4c, 0x89, 0xfc]] @
        map (\<lambda>r. tenc (T_vmov r (of_nat r * 32) False)) [0..<16] @
        [tenc (T_lea_rsp 512), [0x9d]] @
        map (\<lambda>r. tenc (T_pop r)) (rev push_regs) @
        [[0xc3]]))"
  proof (rule emit_seq_emits, goal_cases)
    case 1
    show ?case
      by (intro list_all2_appendI emits_map) (simp_all add: emits_intros push_regs_less del: tenc.simps)
  next
    case 2
    show ?case by (simp add: push_regs_def upt_rec)
  qed
  also have "\<dots> = Some (tasm (tramp_prog callee))"
    by (simp add: tasm_def tramp_prog_def enter_prog_def hand_prog_def leave_prog_def comp_def)
  finally show ?thesis .
qed

lemma length_tramp: "length (tasm (tramp_prog callee)) = 386"
  by (simp add: tasm_def tramp_prog_def enter_prog_def hand_prog_def leave_prog_def push_regs_def upt_rec)

definition stub_prog :: "u64 \<Rightarrow> u64 \<Rightarrow> u64 \<Rightarrow> tins list" where
  "stub_prog stub_addr trampoline resume =
     [T_lea_rsp (- 128), T_call (rel32 (stub_addr + 5) trampoline), T_lea_rsp 128, T_jmp (rel32 (stub_addr + 18) resume)]"

lemma stub_bytes: "build_stub stub_addr trampoline resume = Some (tasm (stub_prog stub_addr trampoline resume) @ replicate 9 0x90)"
  by (simp add: build_stub_def emit_lea_rsp_def code_extend_def code_push_def stub_prog_def tasm_def STUB_SIZE_def)

section \<open>Code in memory\<close>

definition code_at :: "(u64 \<Rightarrow> u8) \<Rightarrow> u64 \<Rightarrow> bytes \<Rightarrow> bool" where
  "code_at c a bs \<longleftrightarrow> (\<forall>j < length bs. c (a + of_nat j) = bs ! j)"

lemma code_at_append:
  "code_at c a (bs @ ds) \<longleftrightarrow> code_at c a bs \<and> code_at c (a + of_nat (length bs)) ds"
proof -
  have "code_at c (a + of_nat (length bs)) ds" if "code_at c a (bs @ ds)"
    unfolding code_at_def
  proof (intro allI impI)
    fix j assume "j < length ds"
    then show "c (a + of_nat (length bs) + of_nat j) = ds ! j"
      using that[unfolded code_at_def, rule_format, of "length bs + j"] by (simp add: nth_append ac_simps)
  qed
  moreover have "code_at c a (bs @ ds)" if c: "code_at c a bs" "code_at c (a + of_nat (length bs)) ds"
    unfolding code_at_def
  proof (intro allI impI)
    fix j assume j: "j < length (bs @ ds)"
    show "c (a + of_nat j) = (bs @ ds) ! j"
    proof (cases "j < length bs")
      case True
      then show ?thesis using c(1) by (simp add: code_at_def nth_append)
    next
      case False
      then obtain k where k: "j = length bs + k" by (metis add_diff_inverse_nat)
      then show ?thesis using c(2)[unfolded code_at_def, rule_format, of k] j by (simp add: nth_append ac_simps)
    qed
  qed
  moreover have "code_at c a bs" if "code_at c a (bs @ ds)"
    using that by (auto simp: code_at_def nth_append)
  ultimately show ?thesis by blast
qed


text \<open>Two stretches of the cyclic address space that do not meet.\<close>

definition separate :: "u64 \<Rightarrow> nat \<Rightarrow> u64 \<Rightarrow> nat \<Rightarrow> bool" where
  "separate a n b m \<longleftrightarrow> n \<le> unat (b - a) \<and> m \<le> unat (a - b)"

definition cput :: "(u64 \<Rightarrow> u8) \<Rightarrow> u64 \<Rightarrow> bytes \<Rightarrow> u64 \<Rightarrow> u8" where
  "cput c a bs = (\<lambda>x. if unat (x - a) < length bs then bs ! unat (x - a) else c x)"

lemma separate_sym: "separate a n b m \<longleftrightarrow> separate b m a n"
  by (auto simp: separate_def)

lemma separate_ne:
  assumes "separate a n b m" "j < n" "k < m"
  shows "a + of_nat j \<noteq> b + of_nat k"
proof
  assume e: "a + of_nat j = b + of_nat k"
  have n: "n < 2 ^ 64" "m < 2 ^ 64" using assms(1) u64_less[of "b - a"] u64_less[of "a - b"] by (auto simp: separate_def)
  show False
  proof (cases "k \<le> j")
    case True
    then have "b - a = of_nat (j - k)" using e by (simp add: of_nat_diff algebra_simps)
    then have "unat (b - a) = j - k" using assms(2) n(1) by (simp add: unat_of_nat_u64)
    then show False using assms unfolding separate_def by linarith
  next
    case False
    then have "a - b = of_nat (k - j)" using e by (simp add: of_nat_diff algebra_simps)
    then have "unat (a - b) = k - j" using assms(3) n(2) by (simp add: unat_of_nat_u64)
    then show False using assms False unfolding separate_def by linarith
  qed
qed

lemma code_at_cput: "length bs \<le> 2 ^ 64 \<Longrightarrow> code_at (cput c a bs) a bs"
  by (auto simp: code_at_def cput_def unat_of_nat_u64)

definition away :: "u64 \<Rightarrow> nat \<Rightarrow> u64 \<Rightarrow> nat \<Rightarrow> bool" where
  "away a n b m \<longleftrightarrow> (\<forall>j < n. \<forall>k < m. a + of_nat j \<noteq> b + of_nat k)"

lemma separate_away: "separate a n b m \<Longrightarrow> away a n b m"
  using separate_ne by (simp add: away_def)

lemma away_sym: "away a n b m \<Longrightarrow> away b m a n"
  unfolding away_def by metis

lemma away_part:
  assumes "away a n b m" "k + l \<le> m"
  shows "away a n (b + of_nat k) l"
  unfolding away_def
proof (intro allI impI)
  fix j i assume "j < n" "i < l"
  then have "a + of_nat j \<noteq> b + of_nat (k + i)" using assms(1)[unfolded away_def, rule_format, of j "k + i"] assms(2) by linarith
  then show "a + of_nat j \<noteq> b + of_nat k + of_nat i" by (simp add: add.assoc)
qed

lemma away_offsets:
  assumes "p + n \<le> q \<or> q + m \<le> p" "p + n \<le> 2 ^ 64" "q + m \<le> 2 ^ 64"
  shows "away (base + of_nat p) n (base + of_nat q) m"
  unfolding away_def
proof (intro allI impI notI)
  fix j k assume j: "j < n" and k: "k < m" and e: "base + of_nat p + of_nat j = base + of_nat q + of_nat k"
  then have "(of_nat (p + j) :: u64) = of_nat (q + k)" by (simp add: add.assoc)
  then have "unat (of_nat (p + j) :: u64) = unat (of_nat (q + k) :: u64)" by simp
  then have "p + j = q + k" using assms j k by (simp add: unat_of_nat_u64 del: of_nat_add)
  then show False using assms(1) j k by linarith
qed

lemma cput_other:
  assumes "away a (length bs) b m" "k < m"
  shows "cput c a bs (b + of_nat k) = c (b + of_nat k)"
proof -
  have "b + of_nat k = a + of_nat (unat (b + of_nat k - a))" by simp
  then have "\<not> unat (b + of_nat k - a) < length bs" using assms unfolding away_def by metis
  then show ?thesis by (simp add: cput_def)
qed

lemma code_at_cput_away: "away a (length bs) b (length ds) \<Longrightarrow> code_at (cput c a bs) b ds = code_at c b ds"
  using cput_other by (auto simp: code_at_def)

end
