(* ===== verification/Patch_Site.thy ===== *)
theory Patch_Site
  imports Patch_Code
begin

text \<open>
  The table of rewritten sites of \<^verbatim>\<open>host/crates/phi512/src/patch.rs\<close>: what a site is, the arena,
  and the rewriting of one instruction as the sequence of its stores, in program order, so that
  what another thread sees between any two of them is a state of the model.
\<close>

section \<open>The table\<close>

datatype site_state = Site_Empty | Site_Patching | Site_Ready | Site_Failed

record site =
  site_rip :: u64
  site_len :: u32
  site_bytes :: bytes
  site_state :: site_state
  site_regs :: u32

definition site_new :: site where
  "site_new = \<lparr>site_rip = 0, site_len = 0, site_bytes = replicate 16 0, site_state = Site_Empty, site_regs = 0\<rparr>"

text \<open>The statics of the module and the memory that holds code (the program's and the arena's).\<close>

record patcher =
  sites :: "site list"
  site_count :: u32
  insn_cache :: "xinsn option list"
  arena :: u64
  stubs :: u64
  arena_failed :: bool
  patch_lock :: bool
  too_short :: u64
  patched :: u64
  code :: "u64 \<Rightarrow> u8"

definition published :: "patcher \<Rightarrow> nat" where
  "published P = min (unat (site_count P)) MAX_SITES"

definition site_at :: "patcher \<Rightarrow> u64 \<Rightarrow> nat option" where
  "site_at P addr =
     List.find (\<lambda>i. site_state (sites P ! i) \<in> {Site_Patching, Site_Ready} \<and> site_rip (sites P ! i) = addr) [0..<published P]"

text \<open>The loop of \<^verbatim>\<open>await_ready\<close> goes on while this holds.\<close>

definition awaits :: "patcher \<Rightarrow> nat \<Rightarrow> bool" where
  "awaits P i \<longleftrightarrow> site_state (sites P ! i) = Site_Patching"

definition nearest_site :: "patcher \<Rightarrow> u64 \<Rightarrow> u64" where
  "nearest_site P addr =
     fst (fold (\<lambda>i (best, dist).
         let r = site_rip (sites P ! i);
             d = (if r \<le> addr then addr - r else r - addr)
         in if d < dist then (r, d) else (best, dist)) [0..<published P] (0, - 1))"

text \<open>Which of the first sixteen vector registers an instruction names.\<close>

fun note_vec :: "xreg \<Rightarrow> u32 \<Rightarrow> u32" where
  "note_vec (Vec idx s) m = (if idx < 16 then m OR push_bit idx 1 else m)"
| "note_vec _ m = m"

definition vector_regs :: "xinsn \<Rightarrow> u32" where
  "vector_regs i = note_vec (mem_index i)
     (fold (\<lambda>n m. if xkind i n = K_Register then note_vec (xreg_of i n) m else m) [0..<xcount i] 0)"

section \<open>Stores\<close>

datatype store =
    St_code u64 u8
  | St_rip nat u64
  | St_len nat u32
  | St_byte nat nat u8
  | St_regs nat u32
  | St_insn nat xinsn
  | St_state nat site_state
  | St_count u32
  | St_stubs u64
  | St_arena u64
  | St_arena_failed
  | St_lock bool
  | St_patched
  | St_too_short

fun apply_store :: "store \<Rightarrow> patcher \<Rightarrow> patcher" where
  "apply_store (St_code a b) P = P\<lparr>code := (code P)(a := b)\<rparr>"
| "apply_store (St_rip i v) P = P\<lparr>sites := (sites P)[i := (sites P ! i)\<lparr>site_rip := v\<rparr>]\<rparr>"
| "apply_store (St_len i v) P = P\<lparr>sites := (sites P)[i := (sites P ! i)\<lparr>site_len := v\<rparr>]\<rparr>"
| "apply_store (St_byte i j b) P = P\<lparr>sites := (sites P)[i := (sites P ! i)\<lparr>site_bytes := (site_bytes (sites P ! i))[j := b]\<rparr>]\<rparr>"
| "apply_store (St_regs i v) P = P\<lparr>sites := (sites P)[i := (sites P ! i)\<lparr>site_regs := v\<rparr>]\<rparr>"
| "apply_store (St_insn i v) P = P\<lparr>insn_cache := (insn_cache P)[i := Some v]\<rparr>"
| "apply_store (St_state i v) P = P\<lparr>sites := (sites P)[i := (sites P ! i)\<lparr>site_state := v\<rparr>]\<rparr>"
| "apply_store (St_count n) P = P\<lparr>site_count := n\<rparr>"
| "apply_store (St_stubs v) P = P\<lparr>stubs := v\<rparr>"
| "apply_store (St_arena v) P = P\<lparr>arena := v\<rparr>"
| "apply_store St_arena_failed P = P\<lparr>arena_failed := True\<rparr>"
| "apply_store (St_lock b) P = P\<lparr>patch_lock := b\<rparr>"
| "apply_store St_patched P = P\<lparr>patched := patched P + 1\<rparr>"
| "apply_store St_too_short P = P\<lparr>too_short := too_short P + 1\<rparr>"

definition stores :: "store list \<Rightarrow> patcher \<Rightarrow> patcher" where
  "stores as P = fold apply_store as P"

text \<open>A copy of bytes, one store each.\<close>

definition copy_code :: "u64 \<Rightarrow> bytes \<Rightarrow> store list" where
  "copy_code a bs = map (\<lambda>j. St_code (a + of_nat j) (bs ! j)) [0..<length bs]"

section \<open>The arena\<close>

text \<open>
  The operating system: \<open>os_mmap hint\<close> is the mapping it grants, \<open>os_mprotect start len\<close> whether
  it makes pages writable.  The decoder and the address of the function the trampoline calls are
  parameters too.
\<close>

record os =
  os_mmap :: "u64 \<Rightarrow> u64 option"
  os_mprotect :: "u64 \<Rightarrow> u64 \<Rightarrow> bool"
  os_decode :: "bytes \<Rightarrow> u64 \<Rightarrow> xinsn"
  os_patched_fn :: u64

fun map_hints :: "os \<Rightarrow> u64 \<Rightarrow> u64 list \<Rightarrow> u64 option" where
  "map_hints S near [] = None"
| "map_hints S near (h # hs) =
     (case os_mmap S (h AND NOT 0xfff) of
        None \<Rightarrow> map_hints S near hs
      | Some addr \<Rightarrow>
          if in_jump_range near addr \<and> in_jump_range near (addr + of_nat ARENA_SIZE) then Some addr
          else map_hints S near hs)"

definition map_arena :: "os \<Rightarrow> u64 \<Rightarrow> u64 option" where
  "map_arena S near =
     (let MB = 1024 * 1024 in map_hints S near [near - 64 * MB, near + 64 * MB, near - 512 * MB, near + 512 * MB, 0])"

definition ensure_arena :: "os \<Rightarrow> u64 \<Rightarrow> patcher \<Rightarrow> store list \<times> (u64 \<times> u64) option" where
  "ensure_arena S near P =
     (if arena P \<noteq> 0 then ([], Some (arena P, stubs P))
      else if arena_failed P then ([], None)
      else case map_arena S near of
        None \<Rightarrow> ([St_arena_failed], None)
      | Some base \<Rightarrow>
          (case build_trampoline (os_patched_fn S) of
             None \<Rightarrow> ([], None)
           | Some c \<Rightarrow> (copy_code base c @ [St_stubs (base + 4096), St_arena base], Some (base, base + 4096))))"

section \<open>Rewriting\<close>

definition page_span :: "u64 \<Rightarrow> nat \<Rightarrow> u64 \<times> u64" where
  "page_span addr len =
     (let start = addr AND NOT 4095;
          e = addr + of_nat len;
          up = (e div 4096 + (if e mod 4096 \<noteq> 0 then 1 else 0)) * 4096
      in (start, up - start))"

definition unprotect :: "os \<Rightarrow> u64 \<Rightarrow> nat \<Rightarrow> bool" where
  "unprotect S addr len = (case page_span addr len of (start, n) \<Rightarrow> os_mprotect S start n)"

text \<open>The first byte becomes a breakpoint, the rest is written, the first byte becomes the jump.\<close>

definition three_steps :: "u64 \<Rightarrow> nat \<Rightarrow> u64 \<Rightarrow> store list" where
  "three_steps rip len stub_addr =
     (let disp = to_le 4 (rel32 rip stub_addr) in
      [St_code rip 0xcc] @
      map (\<lambda>i. St_code (rip + (1 + of_nat i)) (disp ! i)) [0..<4] @
      map (\<lambda>i. St_code (rip + of_nat i) 0x90) [5..<len] @
      [St_code rip 0xe9])"

definition fill_site :: "os \<Rightarrow> nat \<Rightarrow> u64 \<Rightarrow> nat \<Rightarrow> bytes \<Rightarrow> store list" where
  "fill_site S index rip len bytes =
     (let shown = take (min len 16) bytes;
          decoded = os_decode S shown rip
      in [St_rip index rip, St_len index (of_nat len)] @
         map (\<lambda>i. St_byte index i (shown ! i)) [0..<length shown] @
         [St_regs index (vector_regs decoded), St_insn index decoded, St_state index Site_Patching,
          St_count (of_nat index + 1)])"

definition patch_locked :: "os \<Rightarrow> u64 \<Rightarrow> nat \<Rightarrow> bytes \<Rightarrow> patcher \<Rightarrow> store list \<times> bool" where
  "patch_locked S rip len bytes P =
     (if site_at P rip \<noteq> None then ([], False)
      else case ensure_arena S rip P of
        (as, None) \<Rightarrow> (as, False)
      | (as, Some (base, first)) \<Rightarrow>
          let index = unat (site_count P);
              stub_addr = first + of_nat (index * STUB_SIZE)
          in if index \<ge> MAX_SITES then (as, False)
             else if \<not> in_jump_range rip stub_addr then (as, False)
             else let as1 = as @ fill_site S index rip len bytes
               in case build_stub stub_addr base (rip + of_nat len) of
                    None \<Rightarrow> (as1, False)
                  | Some stub \<Rightarrow>
                      let as2 = as1 @ copy_code stub_addr stub
                      in if \<not> unprotect S rip len then (as2 @ [St_state index Site_Failed], False)
                         else (as2 @ three_steps rip len stub_addr @ [St_state index Site_Ready, St_patched], True))"

definition try_patch :: "os \<Rightarrow> u64 \<Rightarrow> nat \<Rightarrow> bytes \<Rightarrow> patcher \<Rightarrow> store list \<times> bool" where
  "try_patch S rip len bytes P =
     (if len < 5 then ([St_too_short], False)
      else if patch_lock P then ([], False)
      else case patch_locked S rip len bytes P of (as, r) \<Rightarrow> ([St_lock True] @ as @ [St_lock False], r))"

section \<open>What a patched site calls\<close>

text \<open>The index of the site behind a return address; \<open>None\<close> where the function returns at once.\<close>

definition site_of_return :: "patcher \<Rightarrow> u64 \<Rightarrow> nat option" where
  "site_of_return P ret =
     (if stubs P = 0 \<or> ret < stubs P then None
      else let index = unat ((ret - stubs P) div of_nat STUB_SIZE)
        in if index \<ge> MAX_SITES then None
           else if site_state (sites P ! index) = Site_Empty then None else Some index)"

end
