(* ===== verification/Patch_Inv.thy ===== *)
theory Patch_Inv
  imports Patch_Site
begin

text \<open>
  Correctness of the rewriting protocol of \<^verbatim>\<open>host/crates/phi512/src/patch.rs\<close>: the invariant of
  the site table between two rewrites, what every intermediate state of a rewrite looks like to
  another thread, and what the code of a finished site is.
\<close>

section \<open>Stores of code\<close>

lemma stores_simps [simp]: "stores [] P = P" "stores (s # as) P = stores as (apply_store s P)"
  "stores (as @ bs) P = stores bs (stores as P)"
  by (simp_all add: stores_def)

fun code_store :: "store \<Rightarrow> bool" where
  "code_store (St_code a b) = True"
| "code_store _ = False"

lemma code_keeps: "\<not> code_store s \<Longrightarrow> code (apply_store s P) = code P"
  by (cases s) auto

lemma codes_keep: "list_all (\<lambda>s. \<not> code_store s) as \<Longrightarrow> code (stores as P) = code P"
  by (induction as arbitrary: P) (simp_all add: code_keeps)

text \<open>The part of the state that stores of code leave alone.\<close>

lemma code_stores_rest: "list_all code_store as \<Longrightarrow> stores as P = P\<lparr>code := code (stores as P)\<rparr>"
proof (induction as arbitrary: P)
  case (Cons s as)
  obtain a b where s: "s = St_code a b" using Cons.prems by (cases s) auto
  have "stores as (apply_store s P) = (apply_store s P)\<lparr>code := code (stores as (apply_store s P))\<rparr>"
    using Cons.prems by (intro Cons.IH) simp
  also have "\<dots> = P\<lparr>code := code (stores as (apply_store s P))\<rparr>" by (simp add: s)
  finally show ?case by simp
qed simp

lemma code_of_map:
  assumes "b \<le> 2 ^ 64"
  shows "code (stores (map (\<lambda>i. St_code (r + of_nat i) (g i)) [a..<b]) P) x =
    (if a \<le> unat (x - r) \<and> unat (x - r) < b then g (unat (x - r)) else code P x)"
  using assms
proof (induction b)
  case (Suc b)
  have "x = r + of_nat b \<longleftrightarrow> unat (x - r) = b"
  proof
    assume "x = r + of_nat b"
    then show "unat (x - r) = b" using Suc.prems by (simp add: unat_of_nat_u64)
  next
    assume "unat (x - r) = b"
    moreover have "x = r + of_nat (unat (x - r))" by simp
    ultimately show "x = r + of_nat b" by metis
  qed
  then show ?case using Suc by (cases "a \<le> b") (auto simp: less_Suc_eq)
qed simp

lemma code_copy:
  assumes "length bs \<le> 2 ^ 64"
  shows "code (stores (copy_code a bs) P) = cput (code P) a bs"
  unfolding copy_code_def by (rule ext) (simp only: code_of_map[OF assms], simp add: cput_def)

lemma copy_is_code: "list_all code_store (copy_code a bs)"
  by (simp add: copy_code_def list_all_iff)

definition jump_bytes :: "u64 \<Rightarrow> nat \<Rightarrow> u64 \<Rightarrow> bytes" where
  "jump_bytes rip len stub_addr = 0xe9 # to_le 4 (rel32 rip stub_addr) @ replicate (len - 5) 0x90"

lemma three_steps_eq:
  assumes "5 \<le> len"
  shows "three_steps rip len stub =
    St_code rip 0xcc # map (\<lambda>i. St_code (rip + of_nat i) (jump_bytes rip len stub ! i)) [1..<len] @ [St_code rip 0xe9]"
proof -
  have l: "length (to_le 4 (rel32 rip stub)) = 4" by simp
  have "map (\<lambda>i. St_code (rip + of_nat i) (jump_bytes rip len stub ! i)) [1..<5] =
      map (\<lambda>i. St_code (rip + (1 + of_nat i)) (to_le 4 (rel32 rip stub) ! i)) [0..<4]"
    by (simp add: upt_rec jump_bytes_def nth_append eval_nat_numeral)
  moreover have "map (\<lambda>i. St_code (rip + of_nat i) (jump_bytes rip len stub ! i)) [5..<len] =
      map (\<lambda>i. St_code (rip + of_nat i) 0x90) [5..<len]"
    by (auto simp: jump_bytes_def nth_Cons' nth_append)
  moreover have "[1..<len] = [1..<5] @ [5..<len]" using upt_add_eq_append[of 1 5 "len - 5"] assms by simp
  ultimately show ?thesis by (simp add: three_steps_def)
qed

lemma three_steps_are_code: "list_all code_store (three_steps rip len stub)"
  by (auto simp: three_steps_def list_all_iff)

text \<open>Whatever part of the rewrite has been done, the first byte stops everyone until the last store.\<close>

lemma three_steps_partial:
  assumes "5 \<le> len" "len < 2 ^ 64" "0 < n" "n \<le> len"
  shows "code (stores (take n (three_steps rip len stub)) P) rip = 0xcc"
proof -
  let ?m = "map (\<lambda>i. St_code (rip + of_nat i) (jump_bytes rip len stub ! i)) [1..<len]"
  have "take n (three_steps rip len stub) = St_code rip 0xcc # take (n - 1) ?m"
    unfolding three_steps_eq[OF assms(1)] using assms(3,4) by (simp add: take_Cons')
  also have "take (n - 1) ?m = map (\<lambda>i. St_code (rip + of_nat i) (jump_bytes rip len stub ! i)) [1..<n]"
    using assms by (simp add: take_map)
  finally have t: "take n (three_steps rip len stub) =
      St_code rip 0xcc # map (\<lambda>i. St_code (rip + of_nat i) (jump_bytes rip len stub ! i)) [1..<n]" .
  show ?thesis unfolding t using assms by (simp add: code_of_map)
qed

lemma three_steps_whole:
  assumes "5 \<le> len" "len < 2 ^ 64"
  shows "code (stores (three_steps rip len stub) P) = cput (code P) rip (jump_bytes rip len stub)"
proof (rule ext)
  fix x
  have "x = rip \<longleftrightarrow> unat (x - rip) = 0" by (simp add: unat_eq_0)
  moreover have "length (jump_bytes rip len stub) = len" using assms(1) by (simp add: jump_bytes_def)
  moreover have "jump_bytes rip len stub ! 0 = 0xe9" by (simp add: jump_bytes_def)
  ultimately show "code (stores (three_steps rip len stub) P) x = cput (code P) rip (jump_bytes rip len stub) x"
    unfolding three_steps_eq[OF assms(1)] using assms by (auto simp: code_of_map cput_def Suc_le_eq)
qed

section \<open>The table\<close>

definition site_stub :: "patcher \<Rightarrow> nat \<Rightarrow> u64" where
  "site_stub P i = stubs P + of_nat (i * STUB_SIZE)"

text \<open>A site that can be executed: its stub, its jump, its decoded instruction.\<close>

definition site_complete :: "patcher \<Rightarrow> nat \<Rightarrow> bool" where
  "site_complete P i =
     (let s = sites P ! i; len = unat (site_len s) in
      5 \<le> len \<and> in_jump_range (site_rip s) (site_stub P i) \<and>
      code_at (code P) (site_stub P i) (tasm (stub_prog (site_stub P i) (arena P) (site_rip s + of_nat len))) \<and>
      (case insn_cache P ! i of Some d \<Rightarrow> site_regs s = vector_regs d | None \<Rightarrow> False))"

definition site_jumps :: "patcher \<Rightarrow> nat \<Rightarrow> bool" where
  "site_jumps P i =
     (let s = sites P ! i in code_at (code P) (site_rip s) (jump_bytes (site_rip s) (unat (site_len s)) (site_stub P i)))"

definition pinv :: "os \<Rightarrow> patcher \<Rightarrow> bool" where
  "pinv S P \<longleftrightarrow>
     length (sites P) = MAX_SITES \<and> length (insn_cache P) = MAX_SITES \<and> unat (site_count P) \<le> MAX_SITES \<and>
     (if arena P = 0 then site_count P = 0
      else stubs P = arena P + 4096 \<and> code_at (code P) (arena P) (tasm (tramp_prog (os_patched_fn S)))) \<and>
     (\<forall>i < unat (site_count P).
        site_state (sites P ! i) = Site_Failed \<or>
        site_state (sites P ! i) = Site_Ready \<and> site_complete P i \<and> site_jumps P i \<and>
        separate (site_rip (sites P ! i)) (unat (site_len (sites P ! i))) (arena P) ARENA_SIZE)"

text \<open>
  What the instruction to rewrite must satisfy: at most fifteen bytes, none of them in the arena
  (the one there is, or the one the system will grant) or in a site already rewritten.
\<close>

definition clear :: "os \<Rightarrow> u64 \<Rightarrow> nat \<Rightarrow> patcher \<Rightarrow> bool" where
  "clear S rip len P \<longleftrightarrow>
     len \<le> 15 \<and>
     (if arena P \<noteq> 0 then separate rip len (arena P) ARENA_SIZE
      else case map_arena S rip of None \<Rightarrow> True | Some base \<Rightarrow> base \<noteq> 0 \<and> separate rip len base ARENA_SIZE) \<and>
     (\<forall>i < unat (site_count P). site_state (sites P ! i) = Site_Ready \<longrightarrow>
        separate rip len (site_rip (sites P ! i)) (unat (site_len (sites P ! i))))"

section \<open>Filling an entry\<close>

lemma store_bytes:
  assumes "index < length (sites P)"
  shows "stores (map (\<lambda>i. St_byte index i (g i)) xs) P =
    P\<lparr>sites := (sites P)[index := (sites P ! index)\<lparr>site_bytes := fold (\<lambda>i bs. bs[i := g i]) xs (site_bytes (sites P ! index))\<rparr>]\<rparr>"
  using assms
proof (induction xs arbitrary: P)
  case (Cons x xs)
  have "stores (map (\<lambda>i. St_byte index i (g i)) xs) (apply_store (St_byte index x (g x)) P) =
      P\<lparr>sites := (sites P)[index := (sites P ! index)\<lparr>site_bytes := fold (\<lambda>i bs. bs[i := g i]) xs ((site_bytes (sites P ! index))[x := g x])\<rparr>]\<rparr>"
    using Cons.prems by (subst Cons.IH) simp_all
  then show ?case by simp
qed simp

text \<open>The new entry: published, not yet ready.\<close>

lemma fill_site_effect:
  assumes "index < length (sites P)" "len < 2 ^ 32"
  obtains e where "stores (fill_site S index rip len bytes) P =
      P\<lparr>sites := (sites P)[index := e],
        insn_cache := (insn_cache P)[index := Some (os_decode S (take (min len 16) bytes) rip)], site_count := of_nat index + 1\<rparr>"
    "site_rip e = rip" "unat (site_len e) = len" "site_state e = Site_Patching"
    "site_regs e = vector_regs (os_decode S (take (min len 16) bytes) rip)"
proof -
  let ?b = "(sites P ! index)\<lparr>site_rip := rip, site_len := of_nat len\<rparr>"
  let ?sh = "take (min len 16) bytes"
  let ?d = "os_decode S ?sh rip"
  let ?e = "?b\<lparr>site_bytes := fold (\<lambda>i bs. bs[i := ?sh ! i]) [0..<length ?sh] (site_bytes ?b), site_regs := vector_regs ?d, site_state := Site_Patching\<rparr>"
  define Q where "Q = stores [St_rip index rip, St_len index (of_nat len)] P"
  have q: "Q = P\<lparr>sites := (sites P)[index := ?b]\<rparr>" using assms(1) by (simp add: Q_def)
  have "stores (fill_site S index rip len bytes) P =
      stores [St_regs index (vector_regs ?d), St_insn index ?d, St_state index Site_Patching, St_count (of_nat index + 1)]
        (stores (map (\<lambda>i. St_byte index i (?sh ! i)) [0..<length ?sh]) Q)"
    unfolding fill_site_def Let_def stores_simps(3) Q_def ..
  also have "stores (map (\<lambda>i. St_byte index i (?sh ! i)) [0..<length ?sh]) Q = P\<lparr>sites := (sites P)[index :=
      ?b\<lparr>site_bytes := fold (\<lambda>i bs. bs[i := ?sh ! i]) [0..<length ?sh] (site_bytes ?b)\<rparr>]\<rparr>"
    using assms(1) by (subst store_bytes) (simp_all add: q)
  finally have 1: "stores (fill_site S index rip len bytes) P =
      P\<lparr>sites := (sites P)[index := ?e], insn_cache := (insn_cache P)[index := Some ?d], site_count := of_nat index + 1\<rparr>"
    using assms(1) by simp
  have "unat (site_len ?e) = len" using assms(2) by (simp add: unsigned_of_nat take_bit_nat_eq_self)
  then show ?thesis using that[OF 1] by simp
qed

lemma find_snoc:
  assumes "List.find p [0..<n] = None" "p n"
  shows "List.find p [0..<Suc n] = Some n"
proof -
  have "List.find p (xs @ [n]) = Some n" if "\<forall>i \<in> set xs. \<not> p i" for xs using that assms(2) by (induction xs) auto
  then show ?thesis using assms(1) by (simp add: find_None_iff)
qed

lemma find_cong_upt: "(\<And>i. i < n \<Longrightarrow> p i = q i) \<Longrightarrow> List.find p [0..<n] = List.find q [0..<n]"
  by (intro find_cong) simp_all

text \<open>Once published, the entry is what is found at its address.\<close>

lemma site_at_new:
  assumes "site_at P rip = None" "index = unat (site_count P)" "index < MAX_SITES" "length (sites P) = MAX_SITES"
    "site_rip e = rip" "site_state e \<in> {Site_Patching, Site_Ready}" "sites Q = (sites P)[index := e]" "site_count Q = of_nat index + 1"
  shows "site_at Q rip = Some index"
proof -
  have "unat (site_count Q) = Suc index" using assms(2,3,8) by (simp add: MAX_SITES_def unat_word_ariths)
  then have q: "published Q = Suc index" using assms(3) by (simp add: published_def)
  have p: "published P = index" using assms(2,3) by (simp add: published_def)
  let ?p = "\<lambda>P i. site_state (sites P ! i) \<in> {Site_Patching, Site_Ready} \<and> site_rip (sites P ! i) = rip"
  have "List.find (?p Q) [0..<index] = List.find (?p P) [0..<index]"
    using assms(7) by (intro find_cong_upt) simp
  also have "\<dots> = None" using assms(1) unfolding site_at_def p .
  finally have n: "List.find (?p Q) [0..<index] = None" .
  have "?p Q index" using assms(3-7) by simp
  then show ?thesis unfolding site_at_def q using n by (intro find_snoc)
qed

section \<open>Along a sequence of stores\<close>

definition along :: "(patcher \<Rightarrow> bool) \<Rightarrow> store list \<Rightarrow> patcher \<Rightarrow> bool" where
  "along Q as P \<longleftrightarrow> (\<forall>n. Q (stores (take n as) P))"

lemma along_append: "along Q as P \<Longrightarrow> along Q bs (stores as P) \<Longrightarrow> along Q (as @ bs) P"
  unfolding along_def
proof
  fix n
  assume a: "\<forall>n. Q (stores (take n as) P)" and b: "\<forall>n. Q (stores (take n bs) (stores as P))"
  show "Q (stores (take n (as @ bs)) P)"
  proof (cases "n \<le> length as")
    case True
    then show ?thesis using a by simp
  next
    case False
    then show ?thesis using b by (simp del: stores_simps(1,2))
  qed
qed

lemma along_Nil: "Q P \<Longrightarrow> along Q [] P"
  by (simp add: along_def)

lemma along_Cons: "Q P \<Longrightarrow> along Q as (apply_store s P) \<Longrightarrow> along Q (s # as) P"
  unfolding along_def by (simp add: take_Cons split: nat.split)

lemma along_last: "along Q as P \<Longrightarrow> Q (stores as P)"
  unfolding along_def by (metis order_refl take_all)

text \<open>What another thread finds at a site while it is rewritten.\<close>

definition untouched :: "u64 \<Rightarrow> nat \<Rightarrow> (u64 \<Rightarrow> u8) \<Rightarrow> patcher \<Rightarrow> bool" where
  "untouched rip len c Q \<longleftrightarrow> (\<forall>j < len. code Q (rip + of_nat j) = c (rip + of_nat j))"

definition seen :: "u64 \<Rightarrow> nat \<Rightarrow> (u64 \<Rightarrow> u8) \<Rightarrow> patcher \<Rightarrow> bool" where
  "seen rip len c Q \<longleftrightarrow>
     untouched rip len c Q \<or>
     (case site_at Q rip of
        None \<Rightarrow> False
      | Some i \<Rightarrow> code Q rip = 0xcc \<and> awaits Q i \<or> site_complete Q i \<and> site_jumps Q i)"

definition misses :: "u64 \<Rightarrow> nat \<Rightarrow> store \<Rightarrow> bool" where
  "misses rip len s = (case s of St_code a b \<Rightarrow> away rip len a 1 | _ \<Rightarrow> True)"

lemma misses_untouched: "misses rip len s \<Longrightarrow> untouched rip len c Q \<Longrightarrow> untouched rip len c (apply_store s Q)"
  by (cases s) (auto simp: misses_def untouched_def away_def)

lemma along_misses:
  assumes "list_all (misses rip len) as" "untouched rip len c P"
  shows "along (untouched rip len c) as P"
  using assms
proof (induction as arbitrary: P)
  case (Cons s as)
  have "along (untouched rip len c) as (apply_store s P)"
    using Cons.prems misses_untouched by (intro Cons.IH) simp_all
  then show ?case using Cons.prems by (intro along_Cons) simp_all
qed (simp add: along_Nil)

lemma along_mono: "along Q as P \<Longrightarrow> (\<And>R. Q R \<Longrightarrow> Q' R) \<Longrightarrow> along Q' as P"
  by (simp add: along_def)

lemma copy_misses:
  assumes "away rip len a (length bs)"
  shows "list_all (misses rip len) (copy_code a bs)"
proof -
  have "away rip len (a + of_nat j) 1" if "j < length bs" for j using away_part[OF assms, of j 1] that by simp
  then show ?thesis by (simp add: copy_code_def list_all_iff misses_def)
qed

lemma fill_misses: "list_all (misses rip len) (fill_site S index r l bytes)"
  by (auto simp: fill_site_def Let_def list_all_iff misses_def)

section \<open>One rewrite\<close>

lemma arena_bounds: "i < MAX_SITES \<Longrightarrow> 4096 + i * STUB_SIZE + 32 \<le> ARENA_SIZE" "ARENA_SIZE \<le> 2 ^ 64"
  by (simp_all add: ARENA_SIZE_def MAX_SITES_def STUB_SIZE_def)

lemma length_stub: "length (tasm (stub_prog a t r) @ replicate 9 0x90) = 32" "length (tasm (stub_prog a t r)) = 23"
  by (simp_all add: tasm_def stub_prog_def)

lemma length_jump: "5 \<le> len \<Longrightarrow> length (jump_bytes rip len stub) = len"
  by (simp add: jump_bytes_def)

text \<open>Where the stubs of a table lie.\<close>

lemma stub_places:
  assumes "stubs P = arena P + 4096" "i < MAX_SITES"
  shows "site_stub P i = arena P + of_nat (4096 + i * STUB_SIZE)"
  using assms by (simp add: site_stub_def)

lemma stub_away_stub:
  assumes "stubs P = arena P + 4096" "i < MAX_SITES" "j < MAX_SITES" "i \<noteq> j"
  shows "away (site_stub P i) 32 (site_stub P j) 32"
  unfolding stub_places[OF assms(1,2)] stub_places[OF assms(1,3)]
  by (rule away_offsets) (use assms(2-4) in \<open>auto simp: STUB_SIZE_def MAX_SITES_def\<close>)

lemma stub_away_tramp:
  assumes "stubs P = arena P + 4096" "i < MAX_SITES"
  shows "away (site_stub P i) 32 (arena P) 386"
  unfolding stub_places[OF assms]
  using away_offsets[of "4096 + i * STUB_SIZE" 32 0 386 "arena P"] assms(2) by (simp add: STUB_SIZE_def MAX_SITES_def)

lemma away_stub:
  assumes "away a n (arena P) ARENA_SIZE" "stubs P = arena P + 4096" "i < MAX_SITES"
  shows "away a n (site_stub P i) 32"
  unfolding stub_places[OF assms(2,3)] by (rule away_part[OF assms(1)]) (rule arena_bounds(1)[OF assms(3)])

text \<open>The arena is there after \<^verbatim>\<open>ensure_arena\<close>, and nothing else has changed.\<close>

definition same_table :: "patcher \<Rightarrow> patcher \<Rightarrow> bool" where
  "same_table P Q \<longleftrightarrow> sites Q = sites P \<and> site_count Q = site_count P \<and> insn_cache Q = insn_cache P \<and> patch_lock Q = patch_lock P"

lemma ensure_arena_effect:
  assumes "pinv S P" "clear S rip len P" "ensure_arena S rip P = (as, r)"
  shows "pinv S (stores as P) \<and> same_table P (stores as P) \<and> list_all (misses rip len) as \<and>
    (\<forall>base first. r = Some (base, first) \<longrightarrow> base \<noteq> 0 \<and> arena (stores as P) = base \<and> stubs (stores as P) = first \<and>
       first = base + 4096 \<and> away rip len base ARENA_SIZE)"
proof (cases "arena P \<noteq> 0")
  case True
  then show ?thesis
    using assms separate_away by (auto simp: ensure_arena_def pinv_def clear_def same_table_def)
next
  case False
  then have count: "site_count P = 0" using assms(1) by (simp add: pinv_def)
  show ?thesis
  proof (cases "map_arena S rip")
    case None
    then show ?thesis using assms False count
      by (auto simp: ensure_arena_def same_table_def misses_def pinv_def split: if_splits)
  next
    case (Some base)
    show ?thesis
    proof (cases "arena_failed P")
      case True
      then show ?thesis using assms False by (auto simp: ensure_arena_def same_table_def)
    next
      case nf: False
      let ?t = "tasm (tramp_prog (os_patched_fn S))"
      have as: "as = copy_code base ?t @ [St_stubs (base + 4096), St_arena base]" "r = Some (base, base + 4096)"
        using assms(3) False nf Some by (simp_all add: ensure_arena_def tramp_bytes)
      have d: "base \<noteq> 0" "away rip len base ARENA_SIZE"
        using assms(2) False Some separate_away by (auto simp: clear_def)
      have "stores (copy_code base ?t) P = P\<lparr>code := cput (code P) base ?t\<rparr>"
        using code_stores_rest[OF copy_is_code, of base ?t P] code_copy[of ?t base P] by (simp add: length_tramp)
      then have q: "stores as P = P\<lparr>code := cput (code P) base ?t, stubs := base + 4096, arena := base\<rparr>"
        by (simp add: as(1))
      have "away rip len base (length ?t)"
        using away_part[OF d(2), of 0 386] by (simp add: length_tramp ARENA_SIZE_def)
      then have "list_all (misses rip len) as" by (simp add: as(1) copy_misses) (simp add: misses_def)
      then show ?thesis using assms(1) d count code_at_cput[of ?t "code P" base]
        by (simp add: q as(2) pinv_def same_table_def length_tramp)
    qed
  qed
qed

definition agree_on :: "(u64 \<Rightarrow> u8) \<Rightarrow> (u64 \<Rightarrow> u8) \<Rightarrow> u64 \<Rightarrow> nat \<Rightarrow> bool" where
  "agree_on c d a n \<longleftrightarrow> (\<forall>j < n. c (a + of_nat j) = d (a + of_nat j))"

lemma agree_on_cput: "away a (length bs) b n \<Longrightarrow> agree_on c d b n \<Longrightarrow> agree_on (cput c a bs) d b n"
  by (simp add: agree_on_def cput_other)

lemma agree_on_refl: "agree_on c c a n"
  by (simp add: agree_on_def)

lemma code_at_agree: "agree_on c d a n \<Longrightarrow> length bs \<le> n \<Longrightarrow> code_at c a bs = code_at d a bs"
  by (auto simp: agree_on_def code_at_def)

lemma site_kept:
  assumes "arena Q = arena P" "stubs Q = stubs P" "sites Q ! i = sites P ! i" "insn_cache Q ! i = insn_cache P ! i"
    "agree_on (code Q) (code P) (site_stub P i) 32"
    "agree_on (code Q) (code P) (site_rip (sites P ! i)) (unat (site_len (sites P ! i)))"
  shows "site_complete Q i = site_complete P i" "5 \<le> unat (site_len (sites P ! i)) \<Longrightarrow> site_jumps Q i = site_jumps P i"
proof -
  have st: "site_stub Q i = site_stub P i" by (simp add: site_stub_def assms(2))
  show "site_complete Q i = site_complete P i"
    using code_at_agree[OF assms(5)] by (simp add: site_complete_def Let_def st assms(1,3,4) length_stub)
  show "site_jumps Q i = site_jumps P i" if "5 \<le> unat (site_len (sites P ! i))"
    using code_at_agree[OF assms(6)] that by (simp add: site_jumps_def Let_def st assms(3) length_jump)
qed

text \<open>The state between two rewrites, with the entry \<open>e\<close> appended and the code \<open>c\<close>.\<close>

definition appended :: "patcher \<Rightarrow> site \<Rightarrow> xinsn \<Rightarrow> (u64 \<Rightarrow> u8) \<Rightarrow> patcher" where
  "appended P e d c =
     P\<lparr>sites := (sites P)[unat (site_count P) := e], insn_cache := (insn_cache P)[unat (site_count P) := Some d],
       site_count := of_nat (unat (site_count P)) + 1, code := c\<rparr>"

lemma appended_count: "pinv S P \<Longrightarrow> unat (site_count P) < MAX_SITES \<Longrightarrow> unat (site_count (appended P e d c)) = Suc (unat (site_count P))"
  by (simp add: appended_def MAX_SITES_def unat_word_ariths)

lemma appended_stub: "site_stub (appended P e d c) i = site_stub P i"
  by (simp add: appended_def site_stub_def)

lemma pinv_appended:
  assumes inv: "pinv S P" and ar: "arena P \<noteq> 0" and room: "unat (site_count P) < MAX_SITES"
    and tramp: "agree_on c (code P) (arena P) 386"
    and old: "\<And>i. i < unat (site_count P) \<Longrightarrow> agree_on c (code P) (site_stub P i) 32"
    "\<And>i. i < unat (site_count P) \<Longrightarrow> site_state (sites P ! i) = Site_Ready \<Longrightarrow>
       agree_on c (code P) (site_rip (sites P ! i)) (unat (site_len (sites P ! i)))"
    and new: "site_state e = Site_Failed \<or>
      site_state e = Site_Ready \<and> site_complete (appended P e d c) (unat (site_count P)) \<and> site_jumps (appended P e d c) (unat (site_count P)) \<and>
      separate (site_rip e) (unat (site_len e)) (arena P) ARENA_SIZE"
  shows "pinv S (appended P e d c)"
proof -
  let ?Q = "appended P e d c" and ?n = "unat (site_count P)"
  have l: "length (sites P) = MAX_SITES" "length (insn_cache P) = MAX_SITES" using inv by (simp_all add: pinv_def)
  have a: "arena ?Q = arena P" "stubs ?Q = stubs P" "code ?Q = c" by (simp_all add: appended_def)
  have entry: "site_state (sites ?Q ! i) = Site_Failed \<or> site_state (sites ?Q ! i) = Site_Ready \<and> site_complete ?Q i \<and> site_jumps ?Q i \<and>
      separate (site_rip (sites ?Q ! i)) (unat (site_len (sites ?Q ! i))) (arena ?Q) ARENA_SIZE" if i: "i < Suc ?n" for i
  proof (cases "i = ?n")
    case True
    then show ?thesis using new l room by (simp add: a) (simp add: appended_def)
  next
    case False
    then have i': "i < ?n" using i by simp
    have s: "sites ?Q ! i = sites P ! i" "insn_cache ?Q ! i = insn_cache P ! i" using False by (simp_all add: appended_def)
    show ?thesis
    proof (cases "site_state (sites P ! i) = Site_Ready")
      case True
      then have c: "site_complete P i" "site_jumps P i" using inv i' by (auto simp: pinv_def)
      then have "5 \<le> unat (site_len (sites P ! i))" by (simp add: site_complete_def Let_def)
      then show ?thesis using site_kept[OF a(1,2) s] old(1)[OF i'] old(2)[OF i' True] c inv i' True by (auto simp: a s pinv_def)
    next
      case False
      then show ?thesis using inv i' by (auto simp: s pinv_def)
    qed
  qed
  have "code_at c (arena P) (tasm (tramp_prog (os_patched_fn S)))"
    using inv ar code_at_agree[OF tramp] by (simp add: pinv_def length_tramp)
  then show ?thesis
    unfolding pinv_def appended_count[OF inv room] using entry inv ar room l
    by (auto simp: a) (auto simp: appended_def pinv_def Suc_le_eq)
qed

lemma pinv_counters [simp]:
  "pinv S (P\<lparr>patched := x\<rparr>) = pinv S P" "pinv S (P\<lparr>patch_lock := b\<rparr>) = pinv S P" "pinv S (P\<lparr>too_short := x\<rparr>) = pinv S P"
  by (simp_all add: pinv_def site_complete_def site_jumps_def site_stub_def)

lemma seen_counters [simp]:
  "seen rip len c (P\<lparr>patched := x\<rparr>) = seen rip len c P" "seen rip len c (P\<lparr>patch_lock := b\<rparr>) = seen rip len c P"
  by (simp_all add: seen_def untouched_def site_at_def published_def awaits_def site_complete_def site_jumps_def site_stub_def cong: option.case_cong)

lemma site_at_code [simp]: "site_at (P\<lparr>code := c\<rparr>) a = site_at P a" "awaits (P\<lparr>code := c\<rparr>) i = awaits P i"
  by (simp_all add: site_at_def published_def awaits_def)

lemma appended_code [simp]: "(appended P e d c)\<lparr>code := c'\<rparr> = appended P e d c'" "code (appended P e d c) = c"
  by (simp_all add: appended_def)

text \<open>What the rewriter relies on after the arena is there.\<close>

definition ready_to_write :: "os \<Rightarrow> u64 \<Rightarrow> nat \<Rightarrow> patcher \<Rightarrow> bool" where
  "ready_to_write S rip len P \<longleftrightarrow>
     pinv S P \<and> arena P \<noteq> 0 \<and> unat (site_count P) < MAX_SITES \<and> site_at P rip = None \<and> 5 \<le> len \<and> len \<le> 15 \<and>
     in_jump_range rip (site_stub P (unat (site_count P))) \<and> separate rip len (arena P) ARENA_SIZE \<and>
     (\<forall>i < unat (site_count P). site_state (sites P ! i) = Site_Ready \<longrightarrow>
        separate rip len (site_rip (sites P ! i)) (unat (site_len (sites P ! i))))"

lemma ready_facts:
  assumes "ready_to_write S rip len P"
  shows "pinv S P" "arena P \<noteq> 0" "stubs P = arena P + 4096" "unat (site_count P) < MAX_SITES" "length (sites P) = MAX_SITES"
    "length (insn_cache P) = MAX_SITES" "away rip len (arena P) ARENA_SIZE" "5 \<le> len" "len \<le> 15"
  using assms separate_away by (auto simp: ready_to_write_def pinv_def)

lemma ready_away_stub: "ready_to_write S rip len P \<Longrightarrow> i < MAX_SITES \<Longrightarrow> away rip len (site_stub P i) 32"
  by (rule away_stub) (simp_all add: ready_facts)

lemma ready_complete:
  assumes r: "ready_to_write S rip len P"
    and sb: "build_stub (site_stub P (unat (site_count P))) (arena P) (rip + of_nat len) = Some sb"
    and e: "site_rip e = rip" "unat (site_len e) = len" "site_regs e = vector_regs d"
    and c: "agree_on c (cput (code P) (site_stub P (unat (site_count P))) sb) (site_stub P (unat (site_count P))) 32"
  shows "site_complete (appended P e d c) (unat (site_count P))"
proof -
  let ?n = "unat (site_count P)" and ?a = "site_stub P (unat (site_count P))"
  note f = ready_facts[OF r]
  have sb': "sb = tasm (stub_prog ?a (arena P) (rip + of_nat len)) @ replicate 9 0x90" using sb by (simp add: stub_bytes)
  have "code_at (cput (code P) ?a sb) ?a sb" unfolding sb' by (rule code_at_cput) (simp only: length_stub, simp)
  then have "code_at c ?a sb" using code_at_agree[OF c, of sb] sb' length_stub(1) by simp
  then have "code_at c ?a (tasm (stub_prog ?a (arena P) (rip + of_nat len)))" unfolding sb' code_at_append by simp
  moreover have "(of_nat len :: u64) = ucast (site_len e)" unfolding e(2)[symmetric] by simp
  ultimately show ?thesis using r e f by (simp add: site_complete_def Let_def appended_stub) (simp add: appended_def ready_to_write_def)
qed

lemma site_at_appended:
  assumes "ready_to_write S rip len P" "site_rip e = rip" "site_state e \<in> {Site_Patching, Site_Ready}"
  shows "site_at (appended P e d c) rip = Some (unat (site_count P))"
  using assms(1) by (intro site_at_new[OF _ refl _ _ assms(2,3)]) (auto simp: ready_to_write_def pinv_def appended_def)

lemma appended_state: "ready_to_write S rip len P \<Longrightarrow> sites (appended P e d c) ! unat (site_count P) = e"
  using ready_facts by (simp add: appended_def)

lemma jumps_appended:
  assumes r: "ready_to_write S rip len P" and e: "site_rip e = rip" "unat (site_len e) = len"
  shows "site_jumps (appended P e d (cput c rip (jump_bytes rip len (site_stub P (unat (site_count P)))))) (unat (site_count P))"
  using code_at_cput[of "jump_bytes rip len (site_stub P (unat (site_count P)))" c rip] ready_facts[OF r] e
  by (simp add: site_jumps_def Let_def appended_state[OF r] appended_stub length_jump)

lemma three_steps_seen:
  assumes r: "ready_to_write S rip len P"
    and sb: "build_stub (site_stub P (unat (site_count P))) (arena P) (rip + of_nat len) = Some sb"
    and e: "site_rip e = rip" "unat (site_len e) = len" "site_regs e = vector_regs d" "site_state e = Site_Patching"
  shows "along (seen rip len (code P)) (three_steps rip len (site_stub P (unat (site_count P))))
    (appended P e d (cput (code P) (site_stub P (unat (site_count P))) sb))"
  unfolding along_def
proof
  fix n
  let ?i = "unat (site_count P)" and ?a = "site_stub P (unat (site_count P))"
  let ?c = "cput (code P) ?a sb" and ?t = "three_steps rip len (site_stub P (unat (site_count P)))"
  let ?Q = "stores (take n ?t) (appended P e d ?c)"
  note f = ready_facts[OF r]
  have q: "?Q = appended P e d (code ?Q)"
    using code_stores_rest[of "take n ?t" "appended P e d ?c"] three_steps_are_code[of rip len ?a]
    by (simp add: list_all_iff) (meson in_set_takeD)
  have lt: "length ?t = len + 1" using f(8) by (simp add: three_steps_eq)
  have sl: "length sb = 32" using sb length_stub(1) by (auto simp: stub_bytes)
  have aw: "away ?a (length sb) rip len" using away_sym[OF ready_away_stub[OF r f(4)]] by (simp add: sl)
  consider "n = 0" | "0 < n" "n \<le> len" | "len < n" by linarith
  then show "seen rip len (code P) ?Q"
  proof cases
    case 1
    have "agree_on ?c (code P) rip len" by (rule agree_on_cput[OF aw agree_on_refl])
    then show ?thesis using 1 by (simp add: seen_def untouched_def agree_on_def)
  next
    case 2
    have "code ?Q rip = 0xcc" using three_steps_partial[OF f(8) _ 2] f(9) by simp
    moreover have "site_at ?Q rip = Some ?i" by (subst q) (rule site_at_appended[OF r e(1)], simp add: e)
    moreover have "awaits ?Q ?i" by (subst q) (simp add: awaits_def appended_state[OF r] e(4))
    ultimately show ?thesis by (simp add: seen_def)
  next
    case 3
    then have "take n ?t = ?t" using lt by simp
    then have c: "code ?Q = cput ?c rip (jump_bytes rip len ?a)" using three_steps_whole[OF f(8)] f(9) by simp
    have "away rip (length (jump_bytes rip len ?a)) ?a 32" using ready_away_stub[OF r f(4)] f(8) by (simp add: length_jump)
    then have "agree_on (code ?Q) ?c ?a 32" unfolding c by (rule agree_on_cput[OF _ agree_on_refl])
    then have "site_complete ?Q ?i" by (subst q) (rule ready_complete[OF r sb e(1-3)])
    moreover have "site_jumps ?Q ?i" by (subst q) (simp only: c jumps_appended[OF r e(1,2)])
    moreover have "site_at ?Q rip = Some ?i" by (subst q) (rule site_at_appended[OF r e(1)], simp add: e)
    ultimately show ?thesis by (simp add: seen_def)
  qed
qed

lemma appended_set_state:
  assumes "ready_to_write S rip len P"
  shows "apply_store (St_state (unat (site_count P)) x) (appended P e d c) = appended P (e\<lparr>site_state := x\<rparr>) d c"
  using ready_facts[OF assms] by (simp add: appended_def)

lemma publish_effect:
  assumes r: "ready_to_write S rip len P"
    and sb: "build_stub (site_stub P (unat (site_count P))) (arena P) (rip + of_nat len) = Some sb"
  obtains e d where
    "stores (fill_site S (unat (site_count P)) rip len bytes @ copy_code (site_stub P (unat (site_count P))) sb) P =
      appended P e d (cput (code P) (site_stub P (unat (site_count P))) sb)"
    "site_rip e = rip" "unat (site_len e) = len" "site_regs e = vector_regs d" "site_state e = Site_Patching"
proof -
  let ?i = "unat (site_count P)" and ?a = "site_stub P (unat (site_count P))"
  note f = ready_facts[OF r]
  have sl: "length sb = 32" using sb length_stub(1) by (auto simp: stub_bytes)
  have l: "len < 2 ^ 32" using f(9) by simp
  have i: "?i < length (sites P)" using f(4,5) by simp
  obtain e where e: "stores (fill_site S ?i rip len bytes) P = P\<lparr>sites := (sites P)[?i := e],
      insn_cache := (insn_cache P)[?i := Some (os_decode S (take (min len 16) bytes) rip)], site_count := of_nat ?i + 1\<rparr>"
    "site_rip e = rip" "unat (site_len e) = len" "site_state e = Site_Patching"
    "site_regs e = vector_regs (os_decode S (take (min len 16) bytes) rip)"
    by (rule fill_site_effect[OF i l])
  let ?d = "os_decode S (take (min len 16) bytes) rip"
  have 1: "stores (fill_site S ?i rip len bytes) P = appended P e ?d (code P)" by (simp add: e(1) appended_def)
  have "stores (copy_code ?a sb) (appended P e ?d (code P)) = appended P e ?d (cput (code P) ?a sb)"
    using code_stores_rest[OF copy_is_code, of ?a sb "appended P e ?d (code P)"] code_copy[of sb ?a "appended P e ?d (code P)"] sl by simp
  then have "stores (fill_site S ?i rip len bytes @ copy_code ?a sb) P = appended P e ?d (cput (code P) ?a sb)" by (simp add: 1)
  then show ?thesis using that e by blast
qed

lemma publish_seen:
  assumes r: "ready_to_write S rip len P" and sl: "length sb = 32"
  shows "along (seen rip len (code P)) (fill_site S (unat (site_count P)) rip len bytes @ copy_code (site_stub P (unat (site_count P))) sb) P"
proof (rule along_mono)
  have "away rip len (site_stub P (unat (site_count P))) (length sb)" using ready_away_stub[OF r] ready_facts[OF r] sl by simp
  then show "along (untouched rip len (code P)) (fill_site S (unat (site_count P)) rip len bytes @ copy_code (site_stub P (unat (site_count P))) sb) P"
    by (intro along_misses) (simp_all add: fill_misses copy_misses untouched_def)
qed (simp add: seen_def)

lemma finish_effect:
  fixes d :: xinsn
  assumes r: "ready_to_write S rip len P"
    and sb: "build_stub (site_stub P (unat (site_count P))) (arena P) (rip + of_nat len) = Some sb"
    and e: "site_rip e = rip" "unat (site_len e) = len" "site_regs e = vector_regs d" "site_state e = Site_Patching"
  defines "Q \<equiv> appended P (e\<lparr>site_state := Site_Ready\<rparr>) d
      (cput (cput (code P) (site_stub P (unat (site_count P))) sb) rip (jump_bytes rip len (site_stub P (unat (site_count P)))))"
  shows "apply_store (St_state (unat (site_count P)) Site_Ready) (stores (three_steps rip len (site_stub P (unat (site_count P))))
      (appended P e d (cput (code P) (site_stub P (unat (site_count P))) sb))) = Q"
    and "pinv S Q" "site_at Q rip = Some (unat (site_count P))" "site_complete Q (unat (site_count P))" "site_jumps Q (unat (site_count P))"
proof -
  let ?i = "unat (site_count P)" and ?a = "site_stub P (unat (site_count P))"
  let ?c = "cput (code P) ?a sb" and ?j = "jump_bytes rip len (site_stub P (unat (site_count P)))"
  note f = ready_facts[OF r]
  have sl: "length sb = 32" using sb length_stub(1) by (auto simp: stub_bytes)
  have jl: "length ?j = len" using f(8) by (simp add: length_jump)
  have "code (stores (three_steps rip len ?a) (appended P e d ?c)) = cput ?c rip ?j"
    using three_steps_whole[OF f(8)] f(9) by simp
  then have "stores (three_steps rip len ?a) (appended P e d ?c) = appended P e d (cput ?c rip ?j)"
    using code_stores_rest[OF three_steps_are_code, of rip len ?a "appended P e d ?c"] by simp
  then show "apply_store (St_state ?i Site_Ready) (stores (three_steps rip len ?a) (appended P e d ?c)) = Q"
    unfolding Q_def using appended_set_state[OF r] by simp
  let ?e = "e\<lparr>site_state := Site_Ready\<rparr>"
  have e': "site_rip ?e = rip" "unat (site_len ?e) = len" "site_regs ?e = vector_regs d" using e by simp_all
  show "site_at Q rip = Some ?i" unfolding Q_def by (rule site_at_appended[OF r e'(1)]) simp
  have "agree_on (cput ?c rip ?j) ?c ?a 32"
    using ready_away_stub[OF r f(4)] by (intro agree_on_cput agree_on_refl) (simp add: jl)
  then show c: "site_complete Q ?i" unfolding Q_def by (rule ready_complete[OF r sb e'])
  show j: "site_jumps Q ?i" unfolding Q_def by (rule jumps_appended[OF r e'(1,2)])
  have st: "agree_on (cput ?c rip ?j) (code P) b n" if "away rip len b n" "away ?a 32 b n" for b n
    using that by (intro agree_on_cput agree_on_refl) (simp_all add: jl sl)
  show "pinv S Q"
    unfolding Q_def
  proof (rule pinv_appended[OF f(1,2,4)], goal_cases)
    case 1
    then show ?case using away_part[OF f(7), of 0 386] stub_away_tramp[OF f(3,4)] by (intro st) (simp_all add: ARENA_SIZE_def)
  next
    case (2 i)
    then show ?case using ready_away_stub[OF r, of i] stub_away_stub[OF f(3,4), of i] f(4) by (intro st) simp_all
  next
    case (3 i)
    have "away rip len (site_rip (sites P ! i)) (unat (site_len (sites P ! i)))"
      using r 3 by (auto simp: ready_to_write_def separate_away)
    moreover have "away (site_rip (sites P ! i)) (unat (site_len (sites P ! i))) (arena P) ARENA_SIZE"
      using f(1) 3 by (auto simp: pinv_def separate_away)
    then have "away ?a 32 (site_rip (sites P ! i)) (unat (site_len (sites P ! i)))"
      using away_sym away_stub f(3,4) by blast
    ultimately show ?case by (rule st)
  next
    case 4
    then show ?case using c j r e by (auto simp: Q_def ready_to_write_def)
  qed
qed

lemma fail_effect:
  fixes d :: xinsn
  assumes r: "ready_to_write S rip len P" and sl: "length sb = 32" and e: "site_state e = Site_Failed"
  defines "Q \<equiv> appended P e d (cput (code P) (site_stub P (unat (site_count P))) sb)"
  shows "pinv S Q" "untouched rip len (code P) Q"
proof -
  let ?a = "site_stub P (unat (site_count P))"
  note f = ready_facts[OF r]
  have st: "agree_on (cput (code P) ?a sb) (code P) b n" if "away ?a 32 b n" for b n
    using that by (intro agree_on_cput agree_on_refl) (simp add: sl)
  show "untouched rip len (code P) Q"
    using st[OF away_sym[OF ready_away_stub[OF r f(4)]]] by (simp add: Q_def untouched_def agree_on_def)
  show "pinv S Q"
    unfolding Q_def
  proof (rule pinv_appended[OF f(1,2,4)], goal_cases)
    case 1
    then show ?case using stub_away_tramp[OF f(3,4)] by (rule st)
  next
    case (2 i)
    then show ?case using stub_away_stub[OF f(3,4), of i] f(4) by (intro st) simp
  next
    case (3 i)
    have "away (site_rip (sites P ! i)) (unat (site_len (sites P ! i))) (arena P) ARENA_SIZE"
      using f(1) 3 by (auto simp: pinv_def separate_away)
    then show ?case using away_sym away_stub f(3,4) by (intro st) blast
  next
    case 4
    then show ?case using e by simp
  qed
qed

lemma seen_agree:
  assumes "untouched rip len c P" "seen rip len (code P) Q"
  shows "seen rip len c Q"
  using assms by (auto simp: seen_def untouched_def)

lemma store_lock: "\<not> (\<exists>b. s = St_lock b) \<Longrightarrow> patch_lock (apply_store s P) = patch_lock P"
  by (cases s) auto

lemma stores_lock: "list_all (\<lambda>s. \<not> (\<exists>b. s = St_lock b)) as \<Longrightarrow> patch_lock (stores as P) = patch_lock P"
  by (induction as arbitrary: P) (simp_all add: store_lock)

lemma locked_no_lock: "patch_locked S rip len bytes P = (as, r) \<Longrightarrow> list_all (\<lambda>s. \<not> (\<exists>b. s = St_lock b)) as"
  by (auto simp: patch_locked_def ensure_arena_def fill_site_def copy_code_def three_steps_def Let_def list_all_iff
      split: if_splits option.splits)

text \<open>A rewrite under the lock.\<close>

lemma locked_correct:
  assumes inv: "pinv S P" and cl: "clear S rip len P" and len: "5 \<le> len" and eq: "patch_locked S rip len bytes P = (as, r)"
  shows "along (seen rip len (code P)) as P \<and> pinv S (stores as P) \<and>
    (if r then \<exists>i. site_at (stores as P) rip = Some i \<and> site_complete (stores as P) i \<and> site_jumps (stores as P) i
     else untouched rip len (code P) (stores as P))"
proof -
  have u0: "untouched rip len (code P) P" by (simp add: untouched_def)
  obtain as0 r0 where a: "ensure_arena S rip P = (as0, r0)" by (cases "ensure_arena S rip P")
  let ?P = "stores as0 P"
  have ae: "pinv S ?P" "same_table P ?P" "list_all (misses rip len) as0"
    "\<And>base first. r0 = Some (base, first) \<Longrightarrow> base \<noteq> 0 \<and> arena ?P = base \<and> stubs ?P = first \<and> first = base + 4096 \<and> away rip len base ARENA_SIZE"
    using ensure_arena_effect[OF inv cl a] by blast+
  have al0: "along (untouched rip len (code P)) as0 P" by (rule along_misses[OF ae(3) u0])
  then have u1: "untouched rip len (code P) ?P" by (rule along_last)
  have s0: "along (seen rip len (code P)) as0 P" by (rule along_mono[OF al0]) (simp add: seen_def)
  consider (site) "site_at P rip \<noteq> None" | (arena) "site_at P rip = None" "as = as0" "r = False"
    | (go) base first where "site_at P rip = None" "r0 = Some (base, first)" "unat (site_count P) < MAX_SITES"
        "in_jump_range rip (first + of_nat (unat (site_count P) * STUB_SIZE))"
    using eq a by (cases r0) (auto simp: patch_locked_def Let_def split: if_splits)
  then show ?thesis
  proof cases
    case site
    then have "as = []" "r = False" using eq by (auto simp: patch_locked_def)
    then show ?thesis using inv u0 by (simp add: along_Nil seen_def)
  next
    case arena
    then show ?thesis using s0 ae(1) u1 by simp
  next
    case (go base first)
    have t: "sites ?P = sites P" "site_count ?P = site_count P" "insn_cache ?P = insn_cache P" using ae(2) by (simp_all add: same_table_def)
    note b = ae(4)[OF go(2)]
    let ?i = "unat (site_count ?P)"
    have stub: "site_stub ?P ?i = first + of_nat (unat (site_count P) * STUB_SIZE)" using b by (simp add: site_stub_def t)
    have w: "ready_to_write S rip len ?P"
    proof -
      have "site_at ?P rip = None" using go(1) by (simp add: site_at_def published_def t)
      moreover have "separate rip len (arena ?P) ARENA_SIZE"
        using cl a go(2) b by (auto simp: clear_def ensure_arena_def split: if_splits option.splits)
      ultimately show ?thesis using ae(1) b go len cl stub by (simp add: ready_to_write_def t clear_def)
    qed
    obtain sb where sb: "build_stub (site_stub ?P ?i) (arena ?P) (rip + of_nat len) = Some sb" by (simp add: stub_bytes)
    have sl: "length sb = 32" using sb length_stub(1) by (auto simp: stub_bytes)
    let ?pub = "fill_site S ?i rip len bytes @ copy_code (site_stub ?P ?i) sb"
    obtain e d where pe: "stores ?pub ?P = appended ?P e d (cput (code ?P) (site_stub ?P ?i) sb)"
      "site_rip e = rip" "unat (site_len e) = len" "site_regs e = vector_regs d" "site_state e = Site_Patching"
      by (rule publish_effect[OF w sb])
    have sp: "along (seen rip len (code ?P)) ?pub ?P" by (rule publish_seen[OF w sl])
    have up: "along (seen rip len (code P)) xs Q" if "along (seen rip len (code ?P)) xs Q" for xs Q
      using that by (rule along_mono) (rule seen_agree[OF u1])
    have acts: "as = as0 @ ?pub @ (if unprotect S rip len then three_steps rip len (site_stub ?P ?i) @ [St_state ?i Site_Ready, St_patched]
        else [St_state ?i Site_Failed])" "r = unprotect S rip len"
    proof -
      define A where "A = first + of_nat (unat (site_count P) * STUB_SIZE)"
      have "build_stub A base (rip + of_nat len) = Some sb" "in_jump_range rip A" "site_stub ?P ?i = A"
        using sb go(4) b stub by (simp_all only: A_def)
      then have "patch_locked S rip len bytes P = (as0 @ ?pub @ (if unprotect S rip len
          then three_steps rip len (site_stub ?P ?i) @ [St_state ?i Site_Ready, St_patched] else [St_state ?i Site_Failed]), unprotect S rip len)"
        using go(1-3) by (simp add: patch_locked_def a Let_def t A_def[symmetric] del: of_nat_mult)
      then show "as = as0 @ ?pub @ (if unprotect S rip len then three_steps rip len (site_stub ?P ?i) @ [St_state ?i Site_Ready, St_patched]
        else [St_state ?i Site_Failed])" "r = unprotect S rip len"
        using eq by simp_all
    qed
    show ?thesis
    proof (cases r)
      case True
      let ?three = "three_steps rip len (site_stub ?P ?i)"
      let ?Q4 = "stores ?three (stores ?pub ?P)"
      let ?Q = "apply_store (St_state ?i Site_Ready) ?Q4"
      have "along (seen rip len (code ?P)) ?three (stores ?pub ?P)" unfolding pe(1) by (rule three_steps_seen[OF w sb pe(2-5)])
      then have st: "along (seen rip len (code P)) ?three (stores ?pub ?P)" by (rule up)
      note fe = finish_effect[OF w sb pe(2-5)]
      have fin: "pinv S ?Q" "site_at ?Q rip = Some ?i" "site_complete ?Q ?i" "site_jumps ?Q ?i"
        unfolding pe(1) fe(1) by (rule fe(2-5))+
      then have sq: "seen rip len (code P) ?Q" by (simp add: seen_def)
      then have "along (seen rip len (code P)) [St_state ?i Site_Ready, St_patched] ?Q4"
        using along_last[OF st] by (intro along_Cons along_Nil) simp_all
      then have "along (seen rip len (code P)) (as0 @ ?pub @ ?three @ [St_state ?i Site_Ready, St_patched]) P"
        by (rule along_append[OF s0 along_append[OF up[OF sp] along_append[OF st]]])
      moreover have "stores as P = ?Q\<lparr>patched := patched ?Q + 1\<rparr>" using acts True by simp
      moreover have "site_at (?Q\<lparr>patched := x\<rparr>) rip = site_at ?Q rip" "site_complete (?Q\<lparr>patched := x\<rparr>) i = site_complete ?Q i"
        "site_jumps (?Q\<lparr>patched := x\<rparr>) i = site_jumps ?Q i" for x i
        by (simp_all add: site_at_def published_def site_complete_def site_jumps_def site_stub_def cong: option.case_cong)
      ultimately show ?thesis using acts True fin by (simp del: apply_store.simps)
    next
      case False
      have q: "stores as P = appended ?P (e\<lparr>site_state := Site_Failed\<rparr>) d (cput (code ?P) (site_stub ?P ?i) sb)"
        using acts False pe(1) appended_set_state[OF w] by simp
      have fe: "pinv S (stores as P)" "untouched rip len (code ?P) (stores as P)"
        unfolding q by (rule fail_effect[OF w sl], simp)+
      then have u: "untouched rip len (code P) (stores as P)" using u1 by (simp add: untouched_def)
      have "stores as P = apply_store (St_state ?i Site_Failed) (stores ?pub ?P)" using acts False by simp
      then have "along (seen rip len (code P)) [St_state ?i Site_Failed] (stores ?pub ?P)"
        using along_last[OF up[OF sp]] u by (intro along_Cons along_Nil) (simp_all add: seen_def del: apply_store.simps)
      then have "along (seen rip len (code P)) (as0 @ ?pub @ [St_state ?i Site_Failed]) P"
        by (rule along_append[OF s0 along_append[OF up[OF sp]]])
      then show ?thesis using acts False fe(1) u by simp
    qed
  qed
qed

end
