(* ===== verification/Patch_Run.thy ===== *)
theory Patch_Run
  imports Patch_Code
begin

text \<open>
  What the code of \<^verbatim>\<open>host/crates/phi512/src/patch.rs\<close> does when the processor runs it: a machine
  that fetches, decodes and executes the instructions of \<open>tins\<close>, the rule for straight pieces
  of code, and the effect of the trampoline before and after its call.
\<close>

section \<open>The processor\<close>

text \<open>
  The general registers by x86 number, the low 256 bits of the vector registers, the flags, the
  instruction pointer, the memory, and the thread's own copy of the wide registers.
\<close>

record xm =
  xg :: "nat \<Rightarrow> u64"
  xymm :: "nat \<Rightarrow> bytes"
  xfl :: u64
  xrip :: u64
  xram :: ram
  xvs :: vstate

definition ldn :: "ram \<Rightarrow> u64 \<Rightarrow> nat \<Rightarrow> bytes option" where
  "ldn m a n = those (map (\<lambda>j. m (a + of_nat j)) [0..<n])"

definition put :: "ram \<Rightarrow> u64 \<Rightarrow> bytes \<Rightarrow> ram" where
  "put m a bs = (\<lambda>x. if unat (x - a) < length bs then Some (bs ! unat (x - a)) else m x)"

definition mapped :: "ram \<Rightarrow> u64 \<Rightarrow> nat \<Rightarrow> bool" where
  "mapped m a n \<longleftrightarrow> list_all (\<lambda>j. m (a + of_nat j) \<noteq> None) [0..<n]"

definition stn :: "ram \<Rightarrow> u64 \<Rightarrow> bytes \<Rightarrow> ram option" where
  "stn m a bs = (if mapped m a (length bs) then Some (put m a bs) else None)"

text \<open>A logical operation clears CF and OF (and AF here) and sets ZF, SF and PF by its result.\<close>

definition and_flags :: "u64 \<Rightarrow> u64 \<Rightarrow> u64" where
  "and_flags f r =
     (f AND NOT 0x8d5) OR (if r = 0 then 0x40 else 0) OR (if bit r 63 then 0x80 else 0) OR
     (if even (length (filter (bit r) [0..<8])) then 0x4 else 0)"

abbreviation rsp :: "xm \<Rightarrow> u64" where "rsp s \<equiv> xg s 4"

definition push8 :: "u64 \<Rightarrow> xm \<Rightarrow> xm option" where
  "push8 v s = map_option (\<lambda>m. s\<lparr>xram := m, xg := (xg s)(4 := rsp s - 8)\<rparr>) (stn (xram s) (rsp s - 8) (to_le 8 v))"

fun texec :: "tins \<Rightarrow> xm \<Rightarrow> xm option" where
  "texec (T_push r) s = push8 (xg s r) s"
| "texec (T_pop r) s = map_option (\<lambda>b. s\<lparr>xg := (xg s)(4 := rsp s + 8, r := of_le b)\<rparr>) (ldn (xram s) (rsp s) 8)"
| "texec T_pushfq s = push8 (xfl s) s"
| "texec T_popfq s = map_option (\<lambda>b. s\<lparr>xg := (xg s)(4 := rsp s + 8), xfl := of_le b\<rparr>) (ldn (xram s) (rsp s) 8)"
| "texec (T_lea_rsp d) s = Some (s\<lparr>xg := (xg s)(4 := rsp s + scast d)\<rparr>)"
| "texec (T_vmov r d True) s = map_option (\<lambda>m. s\<lparr>xram := m\<rparr>) (stn (xram s) (rsp s + scast d) (xymm s r))"
| "texec (T_vmov r d False) s = map_option (\<lambda>b. s\<lparr>xymm := (xymm s)(r := b)\<rparr>) (ldn (xram s) (rsp s + scast d) 32)"
| "texec T_mov_rdi_rsp s = Some (s\<lparr>xg := (xg s)(7 := rsp s)\<rparr>)"
| "texec (T_mov_rsi d) s = map_option (\<lambda>b. s\<lparr>xg := (xg s)(6 := of_le b)\<rparr>) (ldn (xram s) (rsp s + scast d) 8)"
| "texec T_mov_r15_rsp s = Some (s\<lparr>xg := (xg s)(15 := rsp s)\<rparr>)"
| "texec T_and_rsp s = Some (s\<lparr>xg := (xg s)(4 := rsp s AND - 16), xfl := and_flags (xfl s) (rsp s AND - 16)\<rparr>)"
| "texec (T_movabs_rax v) s = Some (s\<lparr>xg := (xg s)(0 := v)\<rparr>)"
| "texec T_mov_rsp_r15 s = Some (s\<lparr>xg := (xg s)(4 := xg s 15)\<rparr>)"
| "texec T_call_rax s = map_option (\<lambda>t. t\<lparr>xrip := xg s 0\<rparr>) (push8 (xrip s) s)"
| "texec (T_call d) s = map_option (\<lambda>t. t\<lparr>xrip := xrip s + scast d\<rparr>) (push8 (xrip s) s)"
| "texec (T_jmp d) s = Some (s\<lparr>xrip := xrip s + scast d\<rparr>)"
| "texec T_ret s = map_option (\<lambda>b. s\<lparr>xg := (xg s)(4 := rsp s + 8), xrip := of_le b\<rparr>) (ldn (xram s) (rsp s) 8)"

text \<open>
  The code memory, the address of the function that the trampoline calls and what a call of that
  function does (\<open>None\<close> when the process ends there).
\<close>

record env =
  ecode :: "u64 \<Rightarrow> u8"
  ecallee :: u64
  ehandler :: "xm \<Rightarrow> xm option"

definition tfetch :: "env \<Rightarrow> u64 \<Rightarrow> bytes" where
  "tfetch E a = map (\<lambda>j. ecode E (a + of_nat j)) [0..<15]"

definition xstep :: "env \<Rightarrow> xm \<Rightarrow> xm option" where
  "xstep E s =
     (if xrip s = ecallee E then ehandler E s
      else Option.bind (tdec (tfetch E (xrip s))) (\<lambda>(i, n). texec i (s\<lparr>xrip := xrip s + of_nat n\<rparr>)))"

primrec xsteps :: "env \<Rightarrow> nat \<Rightarrow> xm \<Rightarrow> xm option" where
  "xsteps E 0 s = Some s"
| "xsteps E (Suc n) s = Option.bind (xstep E s) (xsteps E n)"

lemma xsteps_add: "xsteps E (m + n) s = Option.bind (xsteps E m s) (xsteps E n)"
  by (induction m arbitrary: s) (auto split: bind_split)

section \<open>Pieces of code\<close>

lemma length_tenc_le: "length (tenc i) \<le> 15"
  by (cases i) auto

lemma tfetch_code:
  assumes "code_at (ecode E) a (tenc i)"
  shows "\<exists>rest. tfetch E a = tenc i @ rest"
proof -
  have "take (length (tenc i)) (tfetch E a) = tenc i"
    using assms length_tenc_le[of i] by (intro nth_equalityI) (auto simp: tfetch_def code_at_def)
  then show ?thesis by (metis append_take_drop_id)
qed

lemma xstep_at:
  assumes "code_at (ecode E) (xrip s) (tenc i)" "tvalid i" "xrip s \<noteq> ecallee E"
  shows "xstep E s = texec i (s\<lparr>xrip := xrip s + of_nat (length (tenc i))\<rparr>)"
proof -
  obtain rest where "tfetch E (xrip s) = tenc i @ rest" using tfetch_code[OF assms(1)] by blast
  then show ?thesis using tdec_tenc[OF assms(2), of rest] assms(3) by (simp add: xstep_def)
qed

fun falls :: "tins \<Rightarrow> bool" where
  "falls T_call_rax = False"
| "falls (T_call d) = False"
| "falls (T_jmp d) = False"
| "falls T_ret = False"
| "falls _ = True"

text \<open>A straight piece of code, the instruction pointer aside.\<close>

primrec trun :: "tins list \<Rightarrow> xm \<Rightarrow> xm option" where
  "trun [] s = Some s"
| "trun (i # p) s = Option.bind (texec i s) (trun p)"

lemma trun_append: "trun (p @ q) s = Option.bind (trun p s) (trun q)"
  by (induction p arbitrary: s) (auto split: bind_split)

lemma trun_append3: "trun (p @ q @ r) s = Option.bind (trun p s) (\<lambda>t. Option.bind (trun q t) (trun r))"
  by (cases "trun p s") (simp_all add: trun_append)

lemma texec_rip: "falls i \<Longrightarrow> texec i (s\<lparr>xrip := a\<rparr>) = map_option (xrip_update (\<lambda>_. a)) (texec i s)"
  by (cases "(i, s)" rule: texec.cases) (auto simp: push8_def map_option_case split: option.split)

lemma texec_keeps_rip: "falls i \<Longrightarrow> texec i s = Some t \<Longrightarrow> xrip t = xrip s"
  using texec_rip[of i "xrip s" s] by (cases t) (auto simp: map_option_case split: option.splits)

lemma trun_rip: "list_all falls p \<Longrightarrow> trun p (s\<lparr>xrip := a\<rparr>) = map_option (xrip_update (\<lambda>_. a)) (trun p s)"
  by (induction p arbitrary: s) (auto simp: texec_rip split: bind_split option.split)

text \<open>The addresses of a piece of code do not meet the called function.\<close>

definition apart :: "u64 \<Rightarrow> u64 \<Rightarrow> nat \<Rightarrow> bool" where
  "apart x a n \<longleftrightarrow> n \<le> unat (x - a)"

lemma apart_start: "apart x a n \<Longrightarrow> 0 < n \<Longrightarrow> a \<noteq> x"
  by (auto simp: apart_def)

lemma apart_append:
  assumes "apart x a (k + n)"
  shows "apart x a k \<and> apart x (a + of_nat k) n"
proof -
  have k: "k + n \<le> unat (x - a)" using assms by (simp add: apart_def)
  have u: "unat (of_nat k :: u64) = k" using k u64_less[of "x - a"] by (intro unat_of_nat_u64) linarith
  then have "(of_nat k :: u64) \<le> x - a" using k by (simp add: word_le_nat_alt)
  then have "unat (x - a - of_nat k) = unat (x - a) - k" by (simp add: unat_sub u)
  then show ?thesis using k by (simp add: apart_def diff_diff_eq)
qed

lemma xsteps_straight:
  assumes "code_at (ecode E) a (tasm p)" "list_all tvalid p" "list_all falls p" "apart (ecallee E) a (length (tasm p))" "xrip s = a"
    "trun p s = Some t"
  shows "xsteps E (length p) s = Some (t\<lparr>xrip := a + of_nat (length (tasm p))\<rparr>)"
  using assms
proof (induction p arbitrary: a s t)
  case Nil
  then show ?case by (simp add: tasm_def)
next
  case (Cons i p)
  let ?b = "a + of_nat (length (tenc i))"
  obtain u where u: "texec i s = Some u" "trun p u = Some t" using Cons.prems(6) by (auto simp: bind_eq_Some_conv)
  have len: "length (tasm (i # p)) = length (tenc i) + length (tasm p)" by (simp add: tasm_def)
  have c: "code_at (ecode E) a (tenc i)" "code_at (ecode E) ?b (tasm p)" using Cons.prems(1) by (simp_all add: tasm_def code_at_append)
  have ap: "apart (ecallee E) a (length (tenc i))" "apart (ecallee E) ?b (length (tasm p))"
    using apart_append Cons.prems(4) unfolding len by blast+
  have "0 < length (tenc i)" by (cases i) auto
  then have "xstep E s = texec i (s\<lparr>xrip := ?b\<rparr>)"
    using xstep_at[of E s i] c(1) Cons.prems(2,5) apart_start[OF ap(1)] by simp
  also have "\<dots> = Some (u\<lparr>xrip := ?b\<rparr>)" using Cons.prems(3) u(1) by (simp add: texec_rip)
  finally have 1: "xstep E s = Some (u\<lparr>xrip := ?b\<rparr>)" .
  have "trun p (u\<lparr>xrip := ?b\<rparr>) = Some (t\<lparr>xrip := ?b\<rparr>)" using Cons.prems(3) u(2) by (simp add: trun_rip)
  then have "xsteps E (length p) (u\<lparr>xrip := ?b\<rparr>) = Some (t\<lparr>xrip := ?b\<rparr>\<lparr>xrip := ?b + of_nat (length (tasm p))\<rparr>)"
    using Cons.prems(2,3) c(2) ap(2) Cons.IH[of ?b "u\<lparr>xrip := ?b\<rparr>" "t\<lparr>xrip := ?b\<rparr>"] by simp
  then show ?case using 1 by (simp add: len add.assoc)
qed

section \<open>The stack\<close>

lemma unat_sub_of_nat:
  "k < 2 ^ 64 \<Longrightarrow> unat (x - (a + of_nat k) :: u64) = (if k \<le> unat (x - a) then unat (x - a) - k else unat (x - a) + 2 ^ 64 - k)"
  using unat_sub_if'[of "x - a" "of_nat k"] by (simp add: unat_of_nat_u64 diff_diff_add)

lemma put_put_below:
  assumes "length cs + length bs \<le> 2 ^ 64" "length cs < 2 ^ 64"
  shows "put (put m (a + of_nat (length cs)) bs) a cs = put m a (cs @ bs)"
proof (rule ext)
  fix x
  show "put (put m (a + of_nat (length cs)) bs) a cs x = put m a (cs @ bs) x"
    using unat_sub_of_nat[OF assms(2), of x a] by (auto simp: put_def nth_append)
qed

lemma put_put_above:
  assumes "length bs + length cs \<le> 2 ^ 64" "length bs < 2 ^ 64"
  shows "put (put m a bs) (a + of_nat (length bs)) cs = put m a (bs @ cs)"
proof (rule ext)
  fix x
  show "put (put m a bs) (a + of_nat (length bs)) cs x = put m a (bs @ cs) x"
    using unat_sub_of_nat[OF assms(2), of x a] assms(1) by (auto simp: put_def nth_append)
qed

lemma put_nil [simp]: "put m a [] = m"
  by (simp add: put_def)

lemma those_map_Some [simp]: "those (map (\<lambda>x. Some (f x)) xs) = Some (map f xs)"
  by (induction xs) simp_all

lemma ldn_put:
  assumes "k + n \<le> length bs" "length bs \<le> 2 ^ 64"
  shows "ldn (put m a bs) (a + of_nat k) n = Some (take n (drop k bs))"
proof -
  have "put m a bs (a + of_nat k + of_nat j) = Some (bs ! (k + j))" if "j < n" for j
  proof -
    have "unat (of_nat (k + j) :: u64) = k + j" using that assms by (intro unat_of_nat_u64) linarith
    then show ?thesis using that assms by (simp add: put_def add.assoc)
  qed
  then have "ldn (put m a bs) (a + of_nat k) n = those (map (\<lambda>j. Some (bs ! (k + j))) [0..<n])"
    unfolding ldn_def by (intro arg_cong[where f = those] map_cong) simp_all
  also have "map (\<lambda>j. bs ! (k + j)) [0..<n] = take n (drop k bs)" using assms by (intro nth_equalityI) simp_all
  ultimately show ?thesis by simp
qed

lemma mapped_part: "mapped m a n \<Longrightarrow> k + l \<le> n \<Longrightarrow> mapped m (a + of_nat k) l"
  unfolding mapped_def list_all_iff
proof (rule ballI)
  fix j assume m: "\<forall>j \<in> set [0..<n]. m (a + of_nat j) \<noteq> None" and k: "k + l \<le> n" and j: "j \<in> set [0..<l]"
  have "k + j \<in> set [0..<n]" using k j by simp
  then show "m (a + of_nat k + of_nat j) \<noteq> None" using m by (metis of_nat_add add.assoc)
qed

lemma mapped_put: "mapped m b n \<Longrightarrow> mapped (put m a bs) b n"
  by (auto simp: mapped_def put_def list_all_iff)

section \<open>The trampoline\<close>

definition frame_bytes :: "patch_frame \<Rightarrow> bytes" where
  "frame_bytes f = concat (pymm f) @ to_le 8 (pflags f) @ concat (map (to_le 8) (pgpr f))"

text \<open>The frame that holds the registers of a state.\<close>

definition frame_of :: "xm \<Rightarrow> patch_frame" where
  "frame_of s = \<lparr>pymm = map (xymm s) [0..<16], pflags = xfl s, pgpr = map (xg s) (rev push_regs)\<rparr>"

definition frame_ok :: "patch_frame \<Rightarrow> bool" where
  "frame_ok f \<longleftrightarrow> length (pymm f) = 16 \<and> list_all (\<lambda>y. length y = 32) (pymm f) \<and> length (pgpr f) = 15"

lemma trun_pushes:
  assumes "4 \<notin> set rs" "mapped (xram s) a (8 * length rs)" "length rs \<le> 16" "rsp s = a + of_nat (8 * length rs)"
  shows "trun (map T_push rs) s = Some (s\<lparr>xram := put (xram s) a (concat (map (to_le 8) (map (xg s) (rev rs)))), xg := (xg s)(4 := a)\<rparr>)"
  using assms
proof (induction rs arbitrary: s)
  case (Cons r rs)
  let ?n = "8 * length rs" and ?w = "to_le 8 (xg s r)" and ?c = "concat (map (to_le 8) (map (xg s) (rev rs)))"
  have a: "rsp s - 8 = a + of_nat ?n" using Cons.prems(4) by simp
  have "mapped (xram s) (a + of_nat ?n) 8" using Cons.prems(2) by (rule mapped_part) simp
  then have st: "stn (xram s) (rsp s - 8) ?w = Some (put (xram s) (a + of_nat ?n) ?w)" unfolding a by (simp add: stn_def)
  define u where "u = s\<lparr>xram := put (xram s) (a + of_nat ?n) ?w, xg := (xg s)(4 := a + of_nat ?n)\<rparr>"
  have ex: "texec (T_push r) s = Some u" by (simp only: texec.simps push8_def st) (simp add: a u_def)
  have "mapped (xram s) a ?n" using mapped_part[OF Cons.prems(2), of 0 ?n] by simp
  then have "mapped (xram u) a ?n" unfolding u_def by (simp add: mapped_put)
  then have ih: "trun (map T_push rs) u = Some (u\<lparr>xram := put (xram u) a (concat (map (to_le 8) (map (xg u) (rev rs)))), xg := (xg u)(4 := a)\<rparr>)"
    using Cons.prems by (intro Cons.IH) (simp_all add: u_def)
  have c: "map (xg u) (rev rs) = map (xg s) (rev rs)" using Cons.prems(1) by (auto simp: u_def)
  have l: "length ?c = ?n" by (simp add: length_concat comp_def sum_list_triv)
  have "put (put (xram s) (a + of_nat ?n) ?w) a ?c = put (xram s) a (?c @ ?w)"
    using put_put_below[of ?c ?w "xram s" a] Cons.prems(3) l by simp
  then have "u\<lparr>xram := put (xram u) a (concat (map (to_le 8) (map (xg u) (rev rs)))), xg := (xg u)(4 := a)\<rparr> =
      s\<lparr>xram := put (xram s) a (?c @ ?w), xg := (xg s)(4 := a)\<rparr>"
    unfolding c by (simp add: u_def)
  then show ?case using ex ih by (simp add: fun_upd_def)
qed (simp add: fun_upd_idem)

lemma trun_push8:
  assumes "mapped (xram s) a 8" "rsp s = a + 8"
  shows "push8 v s = Some (s\<lparr>xram := put (xram s) a (to_le 8 v), xg := (xg s)(4 := a)\<rparr>)"
  using assms by (simp add: push8_def stn_def)

lemma vmov_disp: "r < 16 \<Longrightarrow> (scast (of_nat r * 32 :: i32) :: u64) = of_nat (32 * r)"
  by (drule upto16, elim insertE emptyE) simp_all

lemma length_concat_const: "(\<And>x. x \<in> set xs \<Longrightarrow> length x = n) \<Longrightarrow> length (concat xs) = n * length xs"
  by (induction xs) simp_all

lemma length_concat_map: "(\<And>x. x \<in> set xs \<Longrightarrow> length (f x) = n) \<Longrightarrow> length (concat (map f xs)) = n * length xs"
  using length_concat_const[of "map f xs" n] by auto

lemma trun_vstores:
  assumes "n \<le> 16" "\<And>r. r < 16 \<Longrightarrow> length (xymm s r) = 32" "mapped (xram s) (rsp s) 512"
  shows "trun (map (\<lambda>r. T_vmov r (of_nat r * 32) True) [0..<n]) s =
    Some (s\<lparr>xram := put (xram s) (rsp s) (concat (map (xymm s) [0..<n]))\<rparr>)"
  using assms(1)
proof (induction n)
  case (Suc n)
  let ?c = "concat (map (xymm s) [0..<n])"
  have l: "length ?c = 32 * n" using length_concat_map[of "[0..<n]" "xymm s" 32] assms(2) Suc.prems by simp
  have ly: "length (xymm s n) = 32" using assms(2) Suc.prems by simp
  have "mapped (xram s) (rsp s + of_nat (32 * n)) 32" using assms(3) by (rule mapped_part) (use Suc.prems in simp)
  then have "mapped (put (xram s) (rsp s) ?c) (rsp s + of_nat (32 * n)) 32" by (rule mapped_put)
  then have "texec (T_vmov n (of_nat n * 32) True) (s\<lparr>xram := put (xram s) (rsp s) ?c\<rparr>) =
      Some (s\<lparr>xram := put (put (xram s) (rsp s) ?c) (rsp s + of_nat (32 * n)) (xymm s n)\<rparr>)"
    using Suc.prems vmov_disp[of n] ly by (simp add: stn_def)
  moreover have "put (put (xram s) (rsp s) ?c) (rsp s + of_nat (32 * n)) (xymm s n) = put (xram s) (rsp s) (?c @ xymm s n)"
    using put_put_above[of ?c "xymm s n" "xram s" "rsp s"] Suc.prems l ly by simp
  ultimately have "trun [T_vmov n (of_nat n * 32) True] (s\<lparr>xram := put (xram s) (rsp s) ?c\<rparr>) =
      Some (s\<lparr>xram := put (xram s) (rsp s) (?c @ xymm s n)\<rparr>)"
    by (simp only: trun.simps bind.simps)
  then show ?case using Suc by (simp add: trun_append del: trun.simps)
qed simp

lemma length_frame_bytes: "frame_ok f \<Longrightarrow> length (frame_bytes f) = 640"
  using length_concat_const[of "pymm f" 32] length_concat_map[of "pgpr f" "to_le 8" 8]
  by (simp add: frame_ok_def frame_bytes_def list_all_iff)

lemma frame_ok_of: "(\<And>r. r < 16 \<Longrightarrow> length (xymm s r) = 32) \<Longrightarrow> frame_ok (frame_of s)"
  by (auto simp: frame_ok_def frame_of_def list_all_iff push_regs_def)

lemma trun_enter:
  assumes "\<And>r. r < 16 \<Longrightarrow> length (xymm s r) = 32" "mapped (xram s) f 640" "rsp s = f + 640"
  shows "trun enter_prog s = Some (s\<lparr>xram := put (xram s) f (frame_bytes (frame_of s)), xg := (xg s)(4 := f)\<rparr>)"
proof -
  let ?g = "concat (map (to_le 8) (map (xg s) (rev push_regs)))" and ?l = "to_le 8 (xfl s)" and ?y = "concat (map (xymm s) [0..<16])"
  have lg: "length ?g = 120" by (subst length_concat_map[where n = 8]) (simp_all add: push_regs_def)
  have ly: "length ?y = 512" using length_concat_map[of "[0..<16]" "xymm s" 32] assms(1) by simp
  define u where "u = s\<lparr>xram := put (xram s) (f + 520) ?g, xg := (xg s)(4 := f + 520)\<rparr>"
  have "trun (map T_push push_regs) s = Some u"
    unfolding u_def using assms mapped_part[OF assms(2), of 520 120]
    by (intro trun_pushes) (simp_all add: push_regs_def)
  moreover have "mapped (xram u) (f + 512) 8"
    unfolding u_def using mapped_part[OF assms(2), of 512 8] by (simp add: mapped_put)
  then have "push8 (xfl u) u = Some (u\<lparr>xram := put (xram u) (f + 512) ?l, xg := (xg u)(4 := f + 512)\<rparr>)"
    using trun_push8[of u "f + 512"] by (simp add: u_def)
  moreover have "put (put (xram s) (f + 520) ?g) (f + 512) ?l = put (xram s) (f + 512) (?l @ ?g)"
    using put_put_below[of ?l ?g "xram s" "f + 512"] lg by (simp add: ac_simps)
  ultimately have p: "trun (map T_push push_regs @ [T_pushfq, T_lea_rsp (- 512)]) s =
      Some (s\<lparr>xram := put (xram s) (f + 512) (?l @ ?g), xg := (xg s)(4 := f)\<rparr>)" (is "_ = Some ?v")
    by (simp add: trun_append u_def)
  have m: "mapped (xram ?v) (rsp ?v) 512" using mapped_part[OF assms(2), of 0 512] by (simp add: mapped_put)
  have "trun (map (\<lambda>r. T_vmov r (of_nat r * 32) True) [0..<16]) ?v =
      Some (?v\<lparr>xram := put (xram ?v) (rsp ?v) (concat (map (xymm ?v) [0..<16]))\<rparr>)"
    using assms(1) m by (intro trun_vstores) simp_all
  moreover have "put (put (xram s) (f + 512) (?l @ ?g)) f ?y = put (xram s) f (?y @ ?l @ ?g)"
    using put_put_below[of ?y "?l @ ?g" "xram s" f] lg ly by simp
  ultimately show ?thesis
    using p unfolding enter_prog_def append_assoc[symmetric] trun_append
    by (simp add: frame_bytes_def frame_of_def)
qed

lemma trun_hand:
  assumes "ldn (xram s) (rsp s + 640) 8 = Some b"
  shows "\<exists>t. trun (hand_prog callee) s = Some t \<and> xram t = xram s \<and> xg t 7 = rsp s \<and> xg t 6 = of_le b \<and> xg t 15 = rsp s \<and>
    xg t 4 = rsp s AND - 16 \<and> xg t 0 = callee \<and> xvs t = xvs s \<and> xrip t = xrip s"
  using assms by (simp add: hand_prog_def)

lemma concat_slice:
  assumes "\<And>x. x \<in> set xs \<Longrightarrow> length x = n" "i < length xs"
  shows "take n (drop (n * i) (concat xs @ rest)) = xs ! i"
  using assms
proof (induction xs arbitrary: i)
  case (Cons x xs)
  then show ?case by (cases i) simp_all
qed simp

lemma frame_bytes_ymm: "frame_ok f \<Longrightarrow> r < 16 \<Longrightarrow> take 32 (drop (32 * r) (frame_bytes f)) = pymm f ! r"
  unfolding frame_bytes_def by (rule concat_slice) (simp_all add: frame_ok_def list_all_iff)

lemma frame_bytes_rest:
  assumes "frame_ok f"
  shows "drop 512 (frame_bytes f) = to_le 8 (pflags f) @ concat (map (to_le 8) (pgpr f))"
proof -
  have "length (concat (pymm f)) = 512" using assms length_concat_const[of "pymm f" 32] by (simp add: frame_ok_def list_all_iff)
  then show ?thesis by (simp add: frame_bytes_def)
qed

lemma frame_bytes_flags: "frame_ok f \<Longrightarrow> take 8 (drop 512 (frame_bytes f)) = to_le 8 (pflags f)"
  by (simp add: frame_bytes_rest)

lemma frame_bytes_gpr:
  assumes "frame_ok f" "k < 15"
  shows "take 8 (drop (520 + 8 * k) (frame_bytes f)) = to_le 8 (pgpr f ! k)"
proof -
  have "drop (520 + 8 * k) (frame_bytes f) = drop (8 + 8 * k) (drop 512 (frame_bytes f))" by (simp add: ac_simps)
  moreover have "\<dots> = drop (8 * k) (concat (map (to_le 8) (pgpr f)))" using assms(1) by (simp add: frame_bytes_rest)
  moreover have "length x = 8" if "x \<in> set (map (to_le 8) (pgpr f))" for x :: bytes using that by auto
  ultimately show ?thesis using concat_slice[of "map (to_le 8) (pgpr f)" 8 k "[]"] assms by (auto simp: frame_ok_def)
qed

lemma trun_vloads:
  assumes "n \<le> 16" "\<And>r. r < n \<Longrightarrow> ldn (xram s) (rsp s + of_nat (32 * r)) 32 = Some (ys ! r)"
  shows "trun (map (\<lambda>r. T_vmov r (of_nat r * 32) False) [0..<n]) s = Some (s\<lparr>xymm := (\<lambda>r. if r < n then ys ! r else xymm s r)\<rparr>)"
  using assms
proof (induction n)
  case (Suc n)
  have "(\<lambda>r. if r < n then ys ! r else xymm s r)(n := ys ! n) = (\<lambda>r. if r < Suc n then ys ! r else xymm s r)" by auto
  then have "texec (T_vmov n (of_nat n * 32) False) (s\<lparr>xymm := (\<lambda>r. if r < n then ys ! r else xymm s r)\<rparr>) =
      Some (s\<lparr>xymm := (\<lambda>r. if r < Suc n then ys ! r else xymm s r)\<rparr>)"
    using Suc.prems(1) Suc.prems(2)[of n] vmov_disp[of n] by simp
  then have "trun [T_vmov n (of_nat n * 32) False] (s\<lparr>xymm := (\<lambda>r. if r < n then ys ! r else xymm s r)\<rparr>) =
      Some (s\<lparr>xymm := (\<lambda>r. if r < Suc n then ys ! r else xymm s r)\<rparr>)"
    by (simp only: trun.simps bind.simps)
  then show ?case using Suc by (simp add: trun_append del: trun.simps)
qed simp

lemma trun_pops:
  assumes "distinct rs" "4 \<notin> set rs" "length vals = length rs"
    "\<And>k. k < length rs \<Longrightarrow> ldn (xram s) (rsp s + of_nat (8 * k)) 8 = Some (to_le 8 (vals ! k))"
  shows "trun (map T_pop rs) s = Some (s\<lparr>xg := (\<lambda>i. case map_of (zip rs vals) i of Some v \<Rightarrow> v
      | None \<Rightarrow> if i = 4 then rsp s + of_nat (8 * length rs) else xg s i)\<rparr>)"
  using assms
proof (induction rs arbitrary: s vals)
  case Nil
  have "s\<lparr>xg := (\<lambda>i. if i = 4 then rsp s + of_nat (8 * length ([] :: nat list)) else xg s i)\<rparr> = s" by (cases s) auto
  then show ?case by (simp del: list.size)
next
  case (Cons r rs)
  obtain v ws where vals: "vals = v # ws" "length ws = length rs" using Cons.prems(3) by (cases vals) auto
  define u where "u = s\<lparr>xg := (xg s)(4 := rsp s + 8, r := v)\<rparr>"
  have r4: "r \<noteq> 4" using Cons.prems(2) by auto
  have "ldn (xram s) (rsp s) 8 = Some (to_le 8 v)" using Cons.prems(4)[of 0] vals by simp
  then have ex: "texec (T_pop r) s = Some u" by (simp add: u_def)
  have "ldn (xram u) (rsp u + of_nat (8 * k)) 8 = Some (to_le 8 (ws ! k))" if "k < length rs" for k
    using Cons.prems(4)[of "Suc k"] that vals r4 by (simp add: u_def ac_simps)
  then have "trun (map T_pop rs) u = Some (u\<lparr>xg := (\<lambda>i. case map_of (zip rs ws) i of Some v \<Rightarrow> v
      | None \<Rightarrow> if i = 4 then rsp u + of_nat (8 * length rs) else xg u i)\<rparr>)"
    using Cons.prems(1,2) vals(2) by (intro Cons.IH) simp_all
  moreover have none: "map_of (zip rs ws) r = None" using Cons.prems(1) vals(2) by (simp add: map_of_zip_is_None)
  have "(\<lambda>i. case map_of (zip rs ws) i of Some v \<Rightarrow> v | None \<Rightarrow> if i = 4 then rsp u + of_nat (8 * length rs) else xg u i) =
    (\<lambda>i. case map_of (zip (r # rs) vals) i of Some v \<Rightarrow> v
      | None \<Rightarrow> if i = 4 then rsp s + of_nat (8 * length (r # rs)) else xg s i)"
    (is "?f = ?g")
  proof (rule ext)
    fix i
    show "?f i = ?g i"
    proof (cases "i = r")
      case True
      then show ?thesis using r4 vals by (simp add: none u_def)
    next
      case False
      then have "(if i = 4 then rsp u + of_nat (8 * length rs) else xg u i) =
          (if i = 4 then rsp s + of_nat (8 * length (r # rs)) else xg s i)"
        using r4 by (simp add: u_def ac_simps)
      moreover have "map_of (zip (r # rs) vals) i = map_of (zip rs ws) i" using False vals by simp
      ultimately show ?thesis by (simp only:)
    qed
  qed
  moreover have "u\<lparr>xg := g\<rparr> = s\<lparr>xg := g\<rparr>" for g by (simp add: u_def)
  ultimately show ?case by (simp only: list.map trun.simps ex bind.simps)
qed

lemma trun_leave:
  assumes "frame_ok fr" "xram s = put m f (frame_bytes fr)" "xg s 15 = f"
  shows "\<exists>t. trun leave_prog s = Some t \<and> xram t = xram s \<and> xvs t = xvs s \<and> xrip t = xrip s \<and> rsp t = f + 640 \<and>
    xfl t = pflags fr \<and> (\<forall>r < 16. xymm t r = pymm fr ! r) \<and>
    (\<forall>i < 16. i \<noteq> 4 \<longrightarrow> xg t i = patch_get (patch_cpu_new f fr) (Gp i 8))"
proof -
  have ld: "ldn (xram s) (f + of_nat k) n = Some (take n (drop k (frame_bytes fr)))" if "k + n \<le> 640" for k n
    unfolding assms(2) by (rule ldn_put) (use that length_frame_bytes[OF assms(1)] in simp_all)
  define u where "u = s\<lparr>xg := (xg s)(4 := f), xymm := (\<lambda>r. if r < 16 then pymm fr ! r else xymm s r)\<rparr>"
  have "trun (map (\<lambda>r. T_vmov r (of_nat r * 32) False) [0..<16]) (s\<lparr>xg := (xg s)(4 := f)\<rparr>) = Some u"
    unfolding u_def using ld frame_bytes_ymm[OF assms(1)]
    by (subst trun_vloads[of 16 _ "pymm fr"]) (simp_all del: of_nat_mult cong: if_cong)
  then have 1: "trun (T_mov_rsp_r15 # map (\<lambda>r. T_vmov r (of_nat r * 32) False) [0..<16]) s = Some u"
    using assms(3) by simp
  define v where "v = u\<lparr>xg := (xg u)(4 := f + 520), xfl := pflags fr\<rparr>"
  have "ldn (xram s) (f + 512) 8 = Some (to_le 8 (pflags fr))" using ld[of 512 8] frame_bytes_flags[OF assms(1)] by simp
  then have 2: "trun [T_lea_rsp 512, T_popfq] u = Some v" by (simp add: u_def v_def add.commute)
  define t where "t = v\<lparr>xg := (\<lambda>i. case map_of (zip (rev push_regs) (pgpr fr)) i of Some v \<Rightarrow> v
      | None \<Rightarrow> if i = 4 then rsp v + of_nat (8 * length (rev push_regs)) else xg v i)\<rparr>"
  have "ldn (xram v) (rsp v + of_nat (8 * k)) 8 = Some (to_le 8 (pgpr fr ! k))" if "k < 15" for k
    using ld[of "520 + 8 * k" 8] that frame_bytes_gpr[OF assms(1) that] by (simp add: u_def v_def ac_simps)
  then have 3: "trun (map T_pop (rev push_regs)) v = Some t"
    unfolding t_def using assms(1) by (intro trun_pops) (simp_all add: push_regs_def frame_ok_def)
  obtain a b c d e f' g h i' j k l m' n o' where g: "pgpr fr = [a, b, c, d, e, f', g, h, i', j, k, l, m', n, o']"
    using assms(1) by (auto simp: frame_ok_def numeral_eq_Suc length_Suc_conv)
  have "trun leave_prog s = Some t"
  proof -
    have lp: "leave_prog = (T_mov_rsp_r15 # map (\<lambda>r. T_vmov r (of_nat r * 32) False) [0..<16]) @ [T_lea_rsp 512, T_popfq] @ map T_pop (rev push_regs)"
      by (simp add: leave_prog_def)
    have "trun leave_prog s = Option.bind (trun (T_mov_rsp_r15 # map (\<lambda>r. T_vmov r (of_nat r * 32) False) [0..<16]) s)
        (\<lambda>s. Option.bind (trun [T_lea_rsp 512, T_popfq] s) (trun (map T_pop (rev push_regs))))"
      unfolding lp by (rule trun_append3)
    then show ?thesis unfolding 1 by (simp only: bind.simps 2 3)
  qed
  moreover have "xg t i = patch_get (patch_cpu_new f fr) (Gp i 8)" if i: "i < 16" "i \<noteq> 4" for i
    using i by - (drule upto16, elim insertE emptyE; simp add: t_def push_regs_def g patch_get_def slot_of_def gpr_slot_def patch_cpu_new_def)
  moreover have "rsp t = f + 640" by (simp add: t_def push_regs_def g v_def ac_simps)
  ultimately show ?thesis by (intro exI[of _ t]) (simp add: t_def v_def u_def)
qed

end
