(* ===== verification/Patch_Props.thy ===== *)
theory Patch_Props
  imports Patch_Inv Patch_Run Emu_Props
begin

text \<open>
  The properties of the rewriting of sites (\<^verbatim>\<open>host/crates/phi512/src/patch.rs\<close>): what another
  thread can meet while a site is rewritten, the invariant of the table, and the reach of the jump.
\<close>

section \<open>A concrete system\<close>

text \<open>Nothing rewritten yet; the system grants the arena at \<^verbatim>\<open>0x10000000\<close>.\<close>

definition demo_decoded :: xinsn where
  "demo_decoded = emu_insn ''Vaddps'' (\<lambda>_. K_Register) (\<lambda>n. Vec (n + 1) 64) No_reg"

definition demo_os :: os where
  "demo_os = \<lparr>os_mmap = (\<lambda>_. Some 0x10000000), os_mprotect = (\<lambda>_ _. True), os_decode = (\<lambda>_ _. demo_decoded), os_patched_fn = 0x20000000\<rparr>"

definition demo_patcher :: patcher where
  "demo_patcher = \<lparr>sites = replicate MAX_SITES site_new, site_count = 0, insn_cache = replicate MAX_SITES None, arena = 0, stubs = 0,
     arena_failed = False, patch_lock = False, too_short = 0, patched = 0, code = (\<lambda>_. 0x62)\<rparr>"

definition demo_instruction :: bytes where
  "demo_instruction = [0x62, 0xf1, 0x74, 0x48, 0x58, 0xc2, 0x90, 0x90, 0x90, 0x90, 0x90, 0x90, 0x90, 0x90, 0x90]"

lemma demo_patcher_inv: "pinv demo_os demo_patcher"
  by (simp add: pinv_def demo_patcher_def)

lemma demo_arena: "map_arena demo_os 0x401000 = Some 0x10000000"
  by (simp add: map_arena_def demo_os_def Let_def in_jump_range_def ARENA_SIZE_def MAX_SITES_def STUB_SIZE_def)

lemma demo_clear: "clear demo_os 0x401000 6 demo_patcher"
  by (simp add: clear_def demo_patcher_def demo_arena[unfolded demo_patcher_def] separate_def ARENA_SIZE_def MAX_SITES_def STUB_SIZE_def)

section \<open>Properties\<close>

lemma try_patch_correct:
  assumes "pinv S P" "clear S rip len P" "try_patch S rip len bytes P = (as, r)"
  shows "along (seen rip len (code P)) as P \<and> pinv S (stores as P) \<and> patch_lock (stores as P) = patch_lock P \<and>
    (if r then \<exists>i. site_at (stores as P) rip = Some i \<and> site_complete (stores as P) i \<and> site_jumps (stores as P) i
     else untouched rip len (code P) (stores as P))"
proof -
  have u: "seen rip len (code P) P" "untouched rip len (code P) P" by (simp_all add: seen_def untouched_def)
  consider "len < 5" | "5 \<le> len" "patch_lock P" | "5 \<le> len" "\<not> patch_lock P" by linarith
  then show ?thesis
  proof cases
    case 1
    then have a: "as = [St_too_short]" "r = False" using assms(3) by (auto simp: try_patch_def)
    have "seen rip len (code P) (P\<lparr>too_short := too_short P + 1\<rparr>)" by (simp add: seen_def untouched_def)
    then show ?thesis using assms(1) u by (simp add: a along_Nil along_Cons untouched_def)
  next
    case 2
    then have "as = []" "r = False" using assms(3) by (auto simp: try_patch_def)
    then show ?thesis using assms(1) u by (simp add: along_Nil)
  next
    case 3
    let ?P = "P\<lparr>patch_lock := True\<rparr>"
    obtain bs where bs: "patch_locked S rip len bytes P = (bs, r)" "as = [St_lock True] @ bs @ [St_lock False]"
      using assms(3) 3 by (auto simp: try_patch_def split: prod.splits)
    have same: "patch_locked S rip len bytes ?P = patch_locked S rip len bytes P"
      by (simp add: patch_locked_def site_at_def published_def ensure_arena_def)
    have "pinv S ?P" "clear S rip len ?P" using assms(1,2) by (simp_all add: clear_def)
    then have l: "along (seen rip len (code ?P)) bs ?P \<and> pinv S (stores bs ?P) \<and>
      (if r then \<exists>i. site_at (stores bs ?P) rip = Some i \<and> site_complete (stores bs ?P) i \<and> site_jumps (stores bs ?P) i
       else untouched rip len (code ?P) (stores bs ?P))"
      using 3 bs(1) same by (intro locked_correct) simp_all
    let ?Q = "stores bs ?P"
    have q: "stores as P = ?Q\<lparr>patch_lock := False\<rparr>" by (simp add: bs(2))
    have "seen rip len (code P) ?Q" using along_last l by auto
    then have "along (seen rip len (code P)) [St_lock False] ?Q" by (intro along_Cons along_Nil) simp_all
    then have "along (seen rip len (code P)) (bs @ [St_lock False]) ?P" using l by (intro along_append) simp_all
    then have "along (seen rip len (code P)) as P" unfolding bs(2) using u(1) by (simp add: along_Cons)
    moreover have "site_at (?Q\<lparr>patch_lock := False\<rparr>) rip = site_at ?Q rip" "site_complete (?Q\<lparr>patch_lock := False\<rparr>) i = site_complete ?Q i"
      "site_jumps (?Q\<lparr>patch_lock := False\<rparr>) i = site_jumps ?Q i" for i
      by (simp_all add: site_at_def published_def site_complete_def site_jumps_def site_stub_def cong: option.case_cong)
    ultimately show ?thesis unfolding q using l 3(2) by (auto simp: untouched_def)
  qed
qed

text \<open>
  C6. A rewrite is never seen half done.  After any number of the stores of a rewrite, a thread
  that reaches the instruction finds its original bytes; or the breakpoint, at an address the
  breakpoint handler knows as a site being rewritten, so that it waits; or the whole jump, with
  the stub it leads to and the decoded instruction in place.
\<close>

theorem rewrite_is_never_torn:
  assumes "pinv S P" "clear S rip len P" "try_patch S rip len bytes P = (as, r)"
  shows "seen rip len (code P) (stores (take n as) P)"
  using try_patch_correct[OF assms] by (simp add: along_def)

text \<open>In the middle of the rewrite of the first site: the breakpoint and two bytes of the displacement are written.\<close>

theorem rewrite_is_never_torn_witness:
  "seen 0x401000 6 (\<lambda>_. 0x62) (stores (take 434 (fst (try_patch demo_os 0x401000 6 demo_instruction demo_patcher))) demo_patcher)"
  using rewrite_is_never_torn[OF demo_patcher_inv demo_clear prod.collapse[symmetric], where n = 434] by (simp add: demo_patcher_def)

text \<open>
  C7. The invariant of the table.  Whether it succeeds or not, a rewrite leaves every published
  site finished (none is waited for any more), every ready site with its jump, its stub and its
  decoded instruction in place, the trampoline whole and the lock as it was; it reports success
  exactly when the site is found and jumps, and otherwise the instruction is what it was.
\<close>

theorem patching_keeps_table:
  assumes "pinv S P" "clear S rip len P" "try_patch S rip len bytes P = (as, r)"
  shows "pinv S (stores as P) \<and> patch_lock (stores as P) = patch_lock P \<and>
    (\<forall>i < unat (site_count (stores as P)). \<not> awaits (stores as P) i) \<and>
    (if r then \<exists>i. site_at (stores as P) rip = Some i \<and> site_complete (stores as P) i \<and> site_jumps (stores as P) i
     else untouched rip len (code P) (stores as P))"
  using try_patch_correct[OF assms] by (auto simp: pinv_def awaits_def split: if_splits)

theorem patching_keeps_table_witness:
  "pinv demo_os (stores (fst (try_patch demo_os 0x401000 6 demo_instruction demo_patcher)) demo_patcher)"
  using patching_keeps_table[OF demo_patcher_inv demo_clear prod.collapse[symmetric]] by blast

section \<open>The reach of a jump\<close>

lemma sint_word_of_int64: "- (2 ^ 63) \<le> k \<Longrightarrow> k < 2 ^ 63 \<Longrightarrow> sint (word_of_int k :: u64) = k"
  unfolding sint_sbintrunc' by (simp add: signed_take_bit_int_eq_self)

lemma sint_bounds64: "- (2 ^ 63) \<le> sint (d :: u64)" "sint d < 2 ^ 63"
  using sint_greater_eq[of d] sint_less[of d] by simp_all

lemma sext_trunc: "(scast (ucast d :: i32) :: u64) = d \<longleftrightarrow> - (2 ^ 31) \<le> sint d \<and> sint d < 2 ^ 31"
proof -
  let ?k = "signed_take_bit 31 (sint d)"
  have "(ucast d :: i32) = word_of_int (sint d)" by (rule bit_word_eqI) (simp add: bit_simps)
  then have "sint (ucast d :: i32) = sint (word_of_int (sint d) :: i32)" by (rule arg_cong)
  also have "\<dots> = ?k" unfolding sint_sbintrunc' by simp
  finally have s: "(scast (ucast d :: i32) :: u64) = word_of_int ?k" by (simp only: scast_eq)
  have k: "- (2 ^ 31) \<le> ?k" "?k < 2 ^ 31" by (rule signed_take_bit_int_greater_eq_minus_exp, rule signed_take_bit_int_less_exp)
  have "(word_of_int ?k :: u64) = d \<longleftrightarrow> ?k = sint d"
  proof
    assume "(word_of_int ?k :: u64) = d"
    moreover have "sint (word_of_int ?k :: u64) = ?k" using k by (intro sint_word_of_int64) simp_all
    ultimately show "?k = sint d" by simp
  qed simp
  also have "\<dots> \<longleftrightarrow> - (2 ^ 31) \<le> sint d \<and> sint d < 2 ^ 31" by (rule signed_take_bit_int_eq_self_iff)
  finally show ?thesis by (simp only: s)
qed

lemma rel32_lands:
  "from + 5 + scast (rel32 from to) = to \<longleftrightarrow> - (2 ^ 31) \<le> sint (to - (from + 5)) \<and> sint (to - (from + 5)) < 2 ^ 31"
proof -
  have "from + 5 + scast (rel32 from to) = to \<longleftrightarrow> scast (rel32 from to) = to - (from + 5)"
    by (metis add_diff_cancel_left' add.commute diff_add_cancel)
  then show ?thesis unfolding rel32_def sext_trunc .
qed

lemma sint_shift:
  assumes "- (2 ^ 62) \<le> sint (w :: u64)" "sint w < 2 ^ 62" "- (2 ^ 62) \<le> k" "k < 2 ^ 62"
  shows "sint (w + word_of_int k) = sint w + k"
proof -
  have "w + word_of_int k = word_of_int (sint w + k)" by simp
  moreover have "sint (word_of_int (sint w + k) :: u64) = sint w + k" using assms by (intro sint_word_of_int64) simp_all
  ultimately show ?thesis by simp
qed

lemma jump_reach_both:
  assumes "in_jump_range rip stub" "len \<le> 15"
  shows "(rip + 5 + scast (rel32 rip stub) = stub \<longleftrightarrow> - (2 ^ 31) + 5 \<le> sint (stub - rip)) \<and>
    (stub + 18 + 5 + scast (rel32 (stub + 18) (rip + of_nat len)) = rip + of_nat len \<longleftrightarrow> sint (stub - rip) < 2 ^ 31 - 22 + int len)"
proof -
  let ?d = "sint (stub - rip)"
  have d: "- (2 ^ 31) \<le> ?d" "?d < 2 ^ 31" using assms(1) by (simp_all add: in_jump_range_def Let_def)
  have "stub - (rip + 5) = (stub - rip) + word_of_int (- 5)" by (simp add: diff_diff_eq)
  moreover have "sint ((stub - rip) + word_of_int (- 5)) = ?d - 5" using d by (subst sint_shift) simp_all
  ultimately have 1: "sint (stub - (rip + 5)) = ?d - 5" by (simp only: minus_diff_eq diff_conv_add_uminus)
  have m: "sint (- (stub - rip)) = - ?d"
  proof -
    have "- (stub - rip) = word_of_int (- ?d)" by (simp only: word_of_int_minus[symmetric] wi_hom_syms) simp
    moreover have "sint (word_of_int (- ?d) :: u64) = - ?d" using d by (intro sint_word_of_int64) simp_all
    ultimately show ?thesis by simp
  qed
  have "rip + of_nat len - (stub + 18 + 5) = - (stub - rip) + word_of_int (int len - 23)" by (simp add: algebra_simps)
  moreover have "sint (- (stub - rip) + word_of_int (int len - 23)) = - ?d + (int len - 23)"
    using d assms(2) m by (subst sint_shift) simp_all
  ultimately have 2: "sint (rip + of_nat len - (stub + 18 + 5)) = - ?d + (int len - 23)" by (simp only:)
  show ?thesis unfolding rel32_lands 1 2 using d assms(2) by linarith
qed

text \<open>
  C24. The range check is a few bytes too wide.  A stub that \<^verbatim>\<open>in_jump_range\<close> accepts is reached by
  the jump written at the site unless it lies in the five lowest places the check admits, and its
  own jump leads back behind the instruction unless it lies in the \<open>22 - len\<close> highest.
\<close>

theorem jump_range_reach:
  assumes "in_jump_range rip stub" "len \<le> 15"
  shows "(rip + 5 + scast (rel32 rip stub) = stub \<longleftrightarrow> - (2 ^ 31) + 5 \<le> sint (stub - rip)) \<and>
    (stub + 18 + 5 + scast (rel32 (stub + 18) (rip + of_nat len)) = rip + of_nat len \<longleftrightarrow> sint (stub - rip) < 2 ^ 31 - 22 + int len)"
  using assms by (rule jump_reach_both)

text \<open>The lowest place accepted, which the jump misses.\<close>

theorem jump_range_reach_witness:
  "in_jump_range 0x180000000 0x100000000 \<and> 0x180000000 + 5 + scast (rel32 0x180000000 0x100000000) \<noteq> (0x100000000 :: u64)"
proof -
  have r: "in_jump_range 0x180000000 0x100000000" by (simp add: in_jump_range_def Let_def)
  then show ?thesis using jump_range_reach[OF r, of 6] by simp
qed

end
