(* ===== verification/Patch_Whole.thy ===== *)
theory Patch_Whole
  imports Patch_Props
begin

text \<open>
  A patched site from end to end: the jump, the stub, the trampoline, the emulator behind
  \<^verbatim>\<open>phi512_patched\<close> of \<^verbatim>\<open>host/crates/phi512/src/patch.rs\<close> and the way back.
\<close>

section \<open>The function behind the trampoline\<close>

definition frame_at :: "bytes \<Rightarrow> patch_frame" where
  "frame_at bs = \<lparr>pymm = map (\<lambda>r. bytes_at (32 * r) 32 bs) [0..<16], pflags = of_le (bytes_at FLAGS_OFFSET 8 bs),
     pgpr = map (\<lambda>k. of_le (bytes_at (GPR_OFFSET + 8 * k) 8 bs)) [0..<GPR_COUNT]\<rparr>"

text \<open>\<open>None\<close> where the process is aborted.\<close>

definition phi512_patched :: "fops \<Rightarrow> patcher \<Rightarrow> xm \<Rightarrow> xm option" where
  "phi512_patched F P s =
     (let at = xg s 7 in
      case site_of_return P (xg s 6) of
        None \<Rightarrow> Some s
      | Some index \<Rightarrow>
          (case (insn_cache P ! index, ldn (xram s) at FRAME_SIZE) of
             (Some insn, Some bs) \<Rightarrow>
               let fr = frame_at bs;
                   sel = site_regs (sites P ! index);
                   st = sync_in_masked (pymm fr) sel (xvs s)
               in (case step F patch_ops insn \<lparr>vs = st, cpu = patch_cpu_new at fr, ram = xram s\<rparr> of
                     Ok M \<Rightarrow>
                       (case sync_out_masked (pymm (pframe (cpu M))) sel (vs M) of
                          (st', low) \<Rightarrow> Some (s\<lparr>xvs := st', xram := put (ram M) at (frame_bytes ((pframe (cpu M))\<lparr>pymm := low\<rparr>))\<rparr>))
                   | _ \<Rightarrow> None)
           | _ \<Rightarrow> None))"

text \<open>
  The call: what the compiled function does beside that to the registers it need not keep is the
  parameter \<open>clob\<close>; its own stack is not modelled.
\<close>

definition keeps_abi :: "(xm \<Rightarrow> xm) \<Rightarrow> bool" where
  "keeps_abi clob \<longleftrightarrow> (\<forall>s. xg (clob s) 4 = xg s 4 \<and> xg (clob s) 15 = xg s 15 \<and> xram (clob s) = xram s \<and> xvs (clob s) = xvs s)"

definition site_env :: "fops \<Rightarrow> os \<Rightarrow> patcher \<Rightarrow> (xm \<Rightarrow> xm) \<Rightarrow> env" where
  "site_env F S P clob = \<lparr>ecode = code P, ecallee = os_patched_fn S,
     ehandler = (\<lambda>s. Option.bind (phi512_patched F P s) (\<lambda>t. texec T_ret (clob t)))\<rparr>"

lemma frame_at_bytes:
  assumes "frame_ok f"
  shows "frame_at (frame_bytes f) = f"
proof -
  have "map (\<lambda>r. bytes_at (32 * r) 32 (frame_bytes f)) [0..<16] = pymm f"
    using assms frame_bytes_ymm[OF assms] by (intro nth_equalityI) (simp_all add: bytes_at_def frame_ok_def)
  moreover have "map (\<lambda>k. of_le (bytes_at (520 + 8 * k) 8 (frame_bytes f))) [0..<15] = pgpr f"
    using assms frame_bytes_gpr[OF assms] by (intro nth_equalityI) (simp_all add: bytes_at_def frame_ok_def)
  ultimately show ?thesis
    using frame_bytes_flags[OF assms]
    by (simp add: frame_at_def bytes_at_def FLAGS_OFFSET_def GPR_OFFSET_def GPR_COUNT_def)
qed

section \<open>Runs\<close>

definition runs :: "env \<Rightarrow> xm \<Rightarrow> xm \<Rightarrow> bool" where
  "runs E s t \<longleftrightarrow> (\<exists>n. xsteps E n s = Some t)"

lemma runs_trans: "runs E s t \<Longrightarrow> runs E t u \<Longrightarrow> runs E s u"
  unfolding runs_def by (metis xsteps_add bind.bind_lunit)

lemma runs_step: "xstep E s = Some t \<Longrightarrow> runs E s t"
  unfolding runs_def by (rule exI[of _ 1]) simp

lemma runs_straight:
  assumes "code_at (ecode E) (xrip s) (tasm p)" "list_all tvalid p" "list_all falls p" "apart (ecallee E) (xrip s) (length (tasm p))"
    "trun p s = Some t"
  shows "runs E s (t\<lparr>xrip := xrip s + of_nat (length (tasm p))\<rparr>)"
  using xsteps_straight[OF assms(1-4) refl assms(5)] unfolding runs_def by blast

text \<open>The last instruction of a piece of code transfers control.\<close>

lemma runs_one:
  assumes "code_at (ecode E) (xrip s) (tenc i)" "tvalid i" "xrip s \<noteq> ecallee E"
    "texec i (s\<lparr>xrip := xrip s + of_nat (length (tenc i))\<rparr>) = Some t"
  shows "runs E s t"
  using xstep_at[OF assms(1-3)] assms(4) by (intro runs_step) simp

lemma straight_progs:
  "list_all tvalid (enter_prog @ hand_prog callee)" "list_all falls (enter_prog @ hand_prog callee)"
  "list_all tvalid leave_prog" "list_all falls leave_prog"
  by (auto simp: enter_prog_def hand_prog_def leave_prog_def push_regs_def list_all_iff)

lemma length_progs: "length (tasm (enter_prog @ hand_prog callee)) = 204" "length (tasm leave_prog) = 179"
  by (simp_all add: tasm_def enter_prog_def hand_prog_def leave_prog_def push_regs_def upt_rec)

lemma tasm_append: "tasm (p @ q) = tasm p @ tasm q" "tasm (i # p) = tenc i @ tasm p" "tasm [] = []"
  by (simp_all add: tasm_def)

section \<open>The stack of a call\<close>

lemma ldn_agree: "(\<And>j. j < n \<Longrightarrow> m (a + of_nat j) = m' (a + of_nat j)) \<Longrightarrow> ldn m a n = ldn m' a n"
  unfolding ldn_def by (intro arg_cong[where f = those] map_cong) simp_all

lemma put_outside:
  assumes "away a (length bs) b n" "j < n"
  shows "put m a bs (b + of_nat j) = m (b + of_nat j)"
proof -
  have "b + of_nat j = a + of_nat (unat (b + of_nat j - a))" by simp
  then have "\<not> unat (b + of_nat j - a) < length bs" using assms unfolding away_def by metis
  then show ?thesis by (simp add: put_def)
qed

lemma ldn_put_outside: "away a (length bs) b n \<Longrightarrow> ldn (put m a bs) b n = ldn m b n"
  by (rule ldn_agree) (rule put_outside)

lemma ldn_put_whole: "length bs = n \<Longrightarrow> n \<le> 2 ^ 64 \<Longrightarrow> ldn (put m a bs) a n = Some bs"
  using ldn_put[of 0 n bs m a] by simp

lemma and_minus16: "(f :: u64) AND - 16 = f - (f AND 15)"
proof -
  have "f = (f AND NOT 15) + (f AND 15)"
    by (subst disjunctive_add) (auto simp: bit_simps intro: bit_word_eqI)
  moreover have "NOT (15 :: u64) = - 16" by simp
  ultimately show ?thesis by (metis add_diff_cancel_right')
qed

text \<open>The address the callee's return address is pushed to, from the bottom of the stack block.\<close>

lemma aligned_slot:
  obtains k where "k + 8 \<le> 24" "((b + 24 :: u64) AND - 16) - 8 = b + of_nat k"
proof -
  let ?g = "(b + 24 :: u64) AND 15"
  have g: "unat ?g \<le> 15" using word_and_le1[of "b + 24" 15] by (simp add: word_le_nat_alt)
  have "((b + 24) AND - 16) - 8 = b + (16 - ?g)" by (simp add: and_minus16)
  also have "(16 :: u64) - ?g = of_nat (16 - unat ?g)" using g by (simp add: of_nat_diff)
  finally have "((b + 24) AND - 16) - 8 = b + of_nat (16 - unat ?g)" .
  then show ?thesis using that[of "16 - unat ?g"] g by simp
qed

section \<open>A site that can be run\<close>

text \<open>
  A ready site of a table that keeps its invariant, within reach of its stub, at the instruction
  pointer; 800 bytes of stack below the stack pointer (the red zone and the frame) are mapped, and
  the function of the trampoline does not lie in the code that is run.
\<close>

definition runnable :: "os \<Rightarrow> patcher \<Rightarrow> nat \<Rightarrow> xm \<Rightarrow> bool" where
  "runnable S P i s \<longleftrightarrow>
     (let e = sites P ! i; len = unat (site_len e); a = site_stub P i; d = sint (a - site_rip e) in
      pinv S P \<and> i < unat (site_count P) \<and> site_state e = Site_Ready \<and> xrip s = site_rip e \<and> len \<le> 15 \<and>
      unat (arena P) + ARENA_SIZE < 2 ^ 64 \<and> - (2 ^ 31) + 5 \<le> d \<and> d < 2 ^ 31 - 22 + int len \<and>
      apart (os_patched_fn S) (arena P) 386 \<and> apart (os_patched_fn S) a 23 \<and> os_patched_fn S \<noteq> site_rip e \<and>
      list_all (\<lambda>r. length (xymm s r) = 32) [0..<16] \<and> mapped (xram s) (rsp s - 800) 672)"

text \<open>The memory as the emulator finds it: the two return addresses and the frame are on the stack.\<close>

definition call_ram :: "patcher \<Rightarrow> nat \<Rightarrow> xm \<Rightarrow> ram" where
  "call_ram P i s =
     (let f = rsp s - 776 in
      put (put (put (xram s) (rsp s - 136) (to_le 8 (site_stub P i + 10))) f (frame_bytes (frame_of s)))
        ((f AND - 16) - 8) (to_le 8 (arena P + 206)))"

lemma site_of_stub:
  assumes "pinv S P" "i < unat (site_count P)" "site_state (sites P ! i) = Site_Ready" "unat (arena P) + ARENA_SIZE < 2 ^ 64"
  shows "site_of_return P (site_stub P i + 10) = Some i"
proof -
  have f: "stubs P = arena P + 4096" "i < MAX_SITES" "arena P \<noteq> 0" using assms(1,2) by (auto simp: pinv_def split: if_splits)
  have u: "unat (stubs P) = unat (arena P) + 4096" unfolding f(1)
    using assms(4) by (subst unat_add_u64) (simp_all add: ARENA_SIZE_def)
  have o: "unat (of_nat (i * STUB_SIZE + 10) :: u64) = i * STUB_SIZE + 10"
    using f(2) by (intro unat_of_nat_u64) (simp add: MAX_SITES_def STUB_SIZE_def)
  have r: "site_stub P i + 10 = stubs P + of_nat (i * STUB_SIZE + 10)" by (simp add: site_stub_def)
  have "unat (site_stub P i + 10) = unat (stubs P) + (i * STUB_SIZE + 10)"
    unfolding r using assms(4) f(2) u o by (subst unat_add_u64) (simp_all add: ARENA_SIZE_def MAX_SITES_def STUB_SIZE_def)
  then have le: "\<not> site_stub P i + 10 < stubs P" by (simp add: word_less_nat_alt)
  have e: "site_stub P i + 10 - stubs P = of_nat (i * STUB_SIZE + 10)" unfolding r by (simp only: add_diff_cancel_left')
  have "unat ((site_stub P i + 10 - stubs P) div of_nat STUB_SIZE) = (i * STUB_SIZE + 10) div unat (of_nat STUB_SIZE :: u64)"
    unfolding e unat_div o ..
  then have "unat ((site_stub P i + 10 - stubs P) div of_nat STUB_SIZE) = (i * STUB_SIZE + 10) div STUB_SIZE"
    by (simp add: STUB_SIZE_def)
  then have "unat ((site_stub P i + 10 - stubs P) div of_nat STUB_SIZE) = i" by (simp add: STUB_SIZE_def)
  moreover have "stubs P \<noteq> 0" using u by auto
  ultimately show ?thesis using le f(2) assms(3) by (simp add: site_of_return_def Let_def)
qed

section \<open>From the site into the emulator\<close>

lemma tramp_code:
  "tasm (tramp_prog c) = tasm (enter_prog @ hand_prog c) @ tenc T_call_rax @ tasm leave_prog @ tenc T_ret"
  by (simp add: tramp_prog_def tasm_append)

lemma apart_at: "apart x a n \<Longrightarrow> k < n \<Longrightarrow> a + of_nat k \<noteq> x"
  using apart_append[of x a k "n - k"] apart_start[of x "a + of_nat k" "n - k"] by simp

lemma apart_part: "apart x a n \<Longrightarrow> k + l \<le> n \<Longrightarrow> apart x (a + of_nat k) l"
  using apart_append[of x a k "n - k"] by (simp add: apart_def)

text \<open>What a runnable site gives: its code, piece by piece, and the targets of the jumps.\<close>

lemma runnable_code:
  assumes "runnable S P i s"
  defines "a \<equiv> site_stub P i" and "len \<equiv> unat (site_len (sites P ! i))"
  shows "code_at (code P) (xrip s) (tenc (T_jmp (rel32 (xrip s) a)))"
    "code_at (code P) a (tenc (T_lea_rsp (- 128)))" "code_at (code P) (a + 5) (tenc (T_call (rel32 (a + 5) (arena P))))"
    "code_at (code P) (a + 10) (tenc (T_lea_rsp 128))" "code_at (code P) (a + 18) (tenc (T_jmp (rel32 (a + 18) (xrip s + of_nat len))))"
    "code_at (code P) (arena P) (tasm (enter_prog @ hand_prog (os_patched_fn S)))"
    "code_at (code P) (arena P + 204) (tenc T_call_rax)" "code_at (code P) (arena P + 206) (tasm leave_prog)"
    "code_at (code P) (arena P + 385) (tenc T_ret)"
proof -
  have r: "site_complete P i" "site_jumps P i" "xrip s = site_rip (sites P ! i)" "pinv S P" "arena P \<noteq> 0"
    using assms(1) by (auto simp: runnable_def Let_def pinv_def split: if_splits)
  have "code_at (code P) (xrip s) (tenc (T_jmp (rel32 (xrip s) a)) @ replicate (len - 5) 0x90)"
    using r(2,3) by (simp add: site_jumps_def Let_def jump_bytes_def a_def len_def)
  then show "code_at (code P) (xrip s) (tenc (T_jmp (rel32 (xrip s) a)))" unfolding code_at_append by simp
  have "code_at (code P) a (tasm (stub_prog a (arena P) (xrip s + of_nat len)))"
    using r(1,3) by (simp add: site_complete_def Let_def a_def len_def)
  then have st: "code_at (code P) a (tenc (T_lea_rsp (- 128)) @ tenc (T_call (rel32 (a + 5) (arena P))) @ tenc (T_lea_rsp 128) @
      tenc (T_jmp (rel32 (a + 18) (xrip s + of_nat len))))"
    by (simp only: stub_prog_def tasm_append append_Nil2)
  show "code_at (code P) a (tenc (T_lea_rsp (- 128)))" "code_at (code P) (a + 5) (tenc (T_call (rel32 (a + 5) (arena P))))"
    "code_at (code P) (a + 10) (tenc (T_lea_rsp 128))" "code_at (code P) (a + 18) (tenc (T_jmp (rel32 (a + 18) (xrip s + of_nat len))))"
    using st unfolding code_at_append by (simp_all add: add.assoc)
  have "code_at (code P) (arena P) (tasm (tramp_prog (os_patched_fn S)))" using r(4,5) by (simp add: pinv_def)
  then have t: "code_at (code P) (arena P) (tasm (enter_prog @ hand_prog (os_patched_fn S)) @ tenc T_call_rax @ tasm leave_prog @ tenc T_ret)"
    by (simp only: tramp_code)
  show "code_at (code P) (arena P) (tasm (enter_prog @ hand_prog (os_patched_fn S)))"
    "code_at (code P) (arena P + 204) (tenc T_call_rax)" "code_at (code P) (arena P + 206) (tasm leave_prog)"
    "code_at (code P) (arena P + 385) (tenc T_ret)"
    using t unfolding code_at_append length_progs by (simp_all add: add.assoc)
qed

lemma runnable_targets:
  assumes "runnable S P i s"
  defines "a \<equiv> site_stub P i" and "len \<equiv> unat (site_len (sites P ! i))"
  shows "xrip s + 5 + scast (rel32 (xrip s) a) = a" "a + 5 + 5 + scast (rel32 (a + 5) (arena P)) = arena P"
    "a + 18 + 5 + scast (rel32 (a + 18) (xrip s + of_nat len)) = xrip s + of_nat len"
proof -
  have r: "site_complete P i" "xrip s = site_rip (sites P ! i)" "len \<le> 15" "i < MAX_SITES" "stubs P = arena P + 4096"
    "- (2 ^ 31) + 5 \<le> sint (a - xrip s)" "sint (a - xrip s) < 2 ^ 31 - 22 + int len"
    using assms(1) by (auto simp: runnable_def Let_def pinv_def a_def len_def split: if_splits)
  have "in_jump_range (xrip s) a" using r(1,2) by (simp add: site_complete_def Let_def a_def)
  then show "xrip s + 5 + scast (rel32 (xrip s) a) = a"
    "a + 18 + 5 + scast (rel32 (a + 18) (xrip s + of_nat len)) = xrip s + of_nat len"
    using jump_reach_both[of "xrip s" a len] r(3,6,7) by simp_all
  have "arena P - (a + 5 + 5) = word_of_int (- (4106 + 32 * int i))"
    by (simp add: a_def stub_places[OF r(5,4)] STUB_SIZE_def algebra_simps)
  moreover have "sint (word_of_int (- (4106 + 32 * int i)) :: u64) = - (4106 + 32 * int i)"
    using r(4) by (intro sint_word_of_int64) (simp_all add: MAX_SITES_def)
  ultimately have "sint (arena P - (a + 5 + 5)) = - (4106 + 32 * int i)" by (simp only:)
  then show "a + 5 + 5 + scast (rel32 (a + 5) (arena P)) = arena P"
    unfolding rel32_lands using r(4) by (simp add: MAX_SITES_def)
qed

lemma frame_of_cong: "xymm t = xymm s \<Longrightarrow> xfl t = xfl s \<Longrightarrow> (\<And>r. r \<noteq> 4 \<Longrightarrow> xg t r = xg s r) \<Longrightarrow> frame_of t = frame_of s"
  by (simp add: frame_of_def push_regs_def)

lemma runs_to_trampoline:
  assumes r: "runnable S P i s"
  defines "a \<equiv> site_stub P i"
  shows "runs (site_env F S P clob) s (s\<lparr>xrip := arena P, xg := (xg s)(4 := rsp s - 136),
    xram := put (xram s) (rsp s - 136) (to_le 8 (a + 10))\<rparr>)"
proof -
  let ?E = "site_env F S P clob"
  have E: "ecode ?E = code P" "ecallee ?E = os_patched_fn S" by (simp_all add: site_env_def)
  note c = runnable_code[OF r, folded a_def] and t = runnable_targets[OF r, folded a_def]
  have x: "xrip s \<noteq> os_patched_fn S" "apart (os_patched_fn S) a 23" "mapped (xram s) (rsp s - 800) 672"
    using r by (auto simp: runnable_def Let_def a_def)
  have ne: "a \<noteq> os_patched_fn S" "a + 5 \<noteq> os_patched_fn S"
    using apart_at[OF x(2), of 0] apart_at[OF x(2), of 5] by simp_all
  let ?s1 = "s\<lparr>xrip := a\<rparr>"
  have "runs ?E s ?s1"
    by (rule runs_one[where i = "T_jmp (rel32 (xrip s) a)"]) (use c(1) x(1) t(1) in \<open>simp_all add: E\<close>)
  moreover let ?s2 = "s\<lparr>xrip := a + 5, xg := (xg s)(4 := rsp s - 128)\<rparr>"
  have "runs ?E ?s1 ?s2"
    by (rule runs_one[where i = "T_lea_rsp (- 128)"]) (use c(2) ne in \<open>simp_all add: E\<close>)
  moreover let ?s3 = "s\<lparr>xrip := arena P, xg := (xg s)(4 := rsp s - 136), xram := put (xram s) (rsp s - 136) (to_le 8 (a + 10))\<rparr>"
  have "mapped (xram s) (rsp s - 136) 8" using mapped_part[OF x(3), of 664 8] by simp
  then have "runs ?E ?s2 ?s3"
    by (intro runs_one[where i = "T_call (rel32 (a + 5) (arena P))"])
      (use c(3) ne t(2) in \<open>simp_all add: E push8_def stn_def add.assoc\<close>)
  ultimately show ?thesis using runs_trans by blast
qed

lemma runs_to_callee:
  assumes r: "runnable S P i s"
  defines "a \<equiv> site_stub P i" and "f \<equiv> rsp s - 776"
  shows "\<exists>u. runs (site_env F S P clob) s u \<and> xrip u = os_patched_fn S \<and> xram u = call_ram P i s \<and> xg u 7 = f \<and> xg u 6 = a + 10 \<and>
    xg u 15 = f \<and> rsp u = (f AND - 16) - 8 \<and> xvs u = xvs s"
proof -
  let ?E = "site_env F S P clob" and ?b = "rsp s - 800" and ?p = "enter_prog @ hand_prog (os_patched_fn S)"
  have E: "ecode ?E = code P" "ecallee ?E = os_patched_fn S" by (simp_all add: site_env_def)
  note c = runnable_code[OF r, folded a_def]
  have x: "apart (os_patched_fn S) (arena P) 386" "mapped (xram s) ?b 672" "\<And>r. r < 16 \<Longrightarrow> length (xymm s r) = 32"
    using r by (auto simp: runnable_def Let_def list_all_iff)
  define s3 where "s3 = s\<lparr>xrip := arena P, xg := (xg s)(4 := rsp s - 136), xram := put (xram s) (rsp s - 136) (to_le 8 (a + 10))\<rparr>"
  have r3: "runs ?E s s3" unfolding s3_def a_def by (rule runs_to_trampoline[OF r])
  have f3: "frame_of s3 = frame_of s" by (rule frame_of_cong) (simp_all add: s3_def)
  have "mapped (xram s) (?b + of_nat 24) 640" by (rule mapped_part[OF x(2)]) simp
  then have m3: "mapped (xram s3) f 640" by (simp add: s3_def f_def mapped_put)
  let ?s4 = "s3\<lparr>xram := put (xram s3) f (frame_bytes (frame_of s)), xg := (xg s3)(4 := f)\<rparr>"
  have e: "trun enter_prog s3 = Some ?s4"
    using trun_enter[of s3 f] x(3) m3 by (simp add: f3) (simp add: s3_def f_def)
  have fl: "length (frame_bytes (frame_of s)) = 640" by (rule length_frame_bytes[OF frame_ok_of[OF x(3)]])
  have away: "away f (length (frame_bytes (frame_of s))) (f + 640) 8"
    using away_offsets[of 24 640 664 8 ?b] by (simp add: fl f_def)
  have "ldn (xram ?s4) (rsp ?s4 + 640) 8 = Some (to_le 8 (a + 10))"
    using ldn_put_outside[OF away] ldn_put_whole[of "to_le 8 (a + 10)" 8] by (simp add: s3_def f_def)
  then obtain t where t: "trun (hand_prog (os_patched_fn S)) ?s4 = Some t" "xram t = xram ?s4" "xg t 7 = f" "xg t 6 = a + 10" "xg t 15 = f"
    "rsp t = f AND - 16" "xg t 0 = os_patched_fn S" "xvs t = xvs s" "xrip t = arena P"
    using trun_hand[of ?s4 "to_le 8 (a + 10)" "os_patched_fn S"] by (auto simp: s3_def)
  have "trun ?p s3 = Some t" using e t(1) by (simp add: trun_append)
  moreover have rip: "xrip s3 = arena P" by (simp add: s3_def)
  moreover have "apart (os_patched_fn S) (arena P) (length (tasm ?p))" using apart_part[OF x(1), of 0 204] by (simp only: length_progs) simp
  ultimately have r4: "runs ?E s3 (t\<lparr>xrip := arena P + 204\<rparr>)"
    using runs_straight[of ?E s3 ?p t] c(6) straight_progs by (simp only: E rip length_progs) simp
  obtain k where k: "k + 8 \<le> 24" "(f AND - 16) - 8 = ?b + of_nat k" using aligned_slot[of ?b] by (auto simp: f_def)
  have "mapped (xram s) (?b + of_nat k) 8" by (rule mapped_part[OF x(2)]) (use k in simp)
  then have m: "mapped (xram t) ((f AND - 16) - 8) 8" unfolding k(2) t(2) by (simp add: s3_def mapped_put)
  define u where "u = t\<lparr>xrip := os_patched_fn S, xg := (xg t)(4 := (f AND - 16) - 8), xram := put (xram t) ((f AND - 16) - 8) (to_le 8 (arena P + 206))\<rparr>"
  have "arena P + 204 \<noteq> os_patched_fn S" using apart_at[OF x(1), of 204] by simp
  then have "runs ?E (t\<lparr>xrip := arena P + 204\<rparr>) u"
    by (intro runs_one[where i = T_call_rax]) (use c(7) m t in \<open>simp_all add: E push8_def stn_def u_def add.assoc\<close>)
  then have "runs ?E s u" using r3 r4 runs_trans by blast
  moreover have "xram u = call_ram P i s" by (simp add: u_def t(2) s3_def call_ram_def f_def a_def Let_def)
  ultimately show ?thesis using t by (intro exI[of _ u]) (simp add: u_def)
qed

section \<open>The way back\<close>

lemma stack_slot:
  fixes b :: u64
  assumes "k + n \<le> 672" "j < n"
  shows "unat (b + of_nat k + of_nat j - b) < 672"
proof -
  have e: "b + of_nat k + of_nat j - b = of_nat (k + j)" by simp
  have u: "unat (of_nat (k + j) :: u64) = k + j" using assms by (intro unat_of_nat_u64) simp
  show ?thesis unfolding e u using assms by linarith
qed

lemma runs_back:
  assumes r: "runnable S P i s" and fr: "frame_ok fr"
    and u: "xrip u = arena P + 206" "xg u 15 = rsp s - 776" "xram u = put m (rsp s - 776) (frame_bytes fr)"
    and ret: "ldn m (rsp s - 136) 8 = Some (to_le 8 (site_stub P i + 10))"
  shows "\<exists>t. runs (site_env F S P clob) u t \<and> xrip t = xrip s + of_nat (unat (site_len (sites P ! i))) \<and> rsp t = rsp s \<and>
    (\<forall>k < 16. k \<noteq> 4 \<longrightarrow> xg t k = patch_get (patch_cpu_new (rsp s - 776) fr) (Gp k 8)) \<and> xfl t = pflags fr \<and>
    (\<forall>k < 16. xymm t k = pymm fr ! k) \<and> xvs t = xvs u \<and> xram t = xram u"
proof -
  let ?E = "site_env F S P clob" and ?a = "site_stub P i" and ?f = "rsp s - 776" and ?n = "xrip s + of_nat (unat (site_len (sites P ! i)))"
  have E: "ecode ?E = code P" "ecallee ?E = os_patched_fn S" by (simp_all add: site_env_def)
  note c = runnable_code[OF r] and t = runnable_targets[OF r]
  have x: "apart (os_patched_fn S) (arena P) 386" "apart (os_patched_fn S) ?a 23"
    using r by (auto simp: runnable_def Let_def)
  obtain v where v: "trun leave_prog u = Some v" "xram v = xram u" "xvs v = xvs u" "rsp v = ?f + 640" "xfl v = pflags fr"
    "\<forall>k < 16. xymm v k = pymm fr ! k" "\<forall>k < 16. k \<noteq> 4 \<longrightarrow> xg v k = patch_get (patch_cpu_new ?f fr) (Gp k 8)"
    using trun_leave[OF fr u(3,2)] by blast
  have "apart (os_patched_fn S) (arena P + 206) (length (tasm leave_prog))" using apart_part[OF x(1), of 206 179] by (simp only: length_progs) simp
  then have "runs ?E u (v\<lparr>xrip := arena P + 206 + of_nat 179\<rparr>)"
    using runs_straight[of ?E u leave_prog v] c(8) straight_progs(3,4) v(1) by (simp only: E u(1) length_progs)
  moreover have "arena P + 206 + of_nat 179 = arena P + 385" by simp
  ultimately have 1: "runs ?E u (v\<lparr>xrip := arena P + 385\<rparr>)" by (simp only:)
  have "away ?f (length (frame_bytes fr)) (rsp s - 136) 8"
    using away_offsets[of 0 640 640 8 ?f] by (simp add: length_frame_bytes[OF fr])
  then have l: "ldn (xram v) (?f + 640) 8 = Some (to_le 8 (?a + 10))" using ret ldn_put_outside by (simp add: v(2) u(3))
  have ne: "arena P + 385 \<noteq> os_patched_fn S" "?a + 10 \<noteq> os_patched_fn S" "?a + 18 \<noteq> os_patched_fn S"
    using apart_at[OF x(1), of 385] apart_at[OF x(2), of 10] apart_at[OF x(2), of 18] by simp_all
  let ?v1 = "v\<lparr>xrip := ?a + 10, xg := (xg v)(4 := rsp s - 128)\<rparr>"
  have 2: "runs ?E (v\<lparr>xrip := arena P + 385\<rparr>) ?v1"
    by (rule runs_one[where i = T_ret]) (use c(9) ne(1) l v(4) in \<open>simp_all add: E\<close>)
  let ?v2 = "v\<lparr>xrip := ?a + 18, xg := (xg v)(4 := rsp s)\<rparr>"
  have 3: "runs ?E ?v1 ?v2"
    by (rule runs_one[where i = "T_lea_rsp 128"]) (use c(4) ne(2) in \<open>simp_all add: E add.assoc\<close>)
  let ?v3 = "v\<lparr>xrip := ?n, xg := (xg v)(4 := rsp s)\<rparr>"
  have 4: "runs ?E ?v2 ?v3"
    by (rule runs_one[where i = "T_jmp (rel32 (?a + 18) ?n)"]) (use c(5) ne(3) t(3) in \<open>simp_all add: E add.assoc\<close>)
  have "runs ?E u ?v3" using 1 2 3 4 runs_trans by blast
  then show ?thesis using v by (intro exI[of _ ?v3]) simp
qed

lemma patch_get_pymm: "k \<noteq> 4 \<Longrightarrow> patch_get (patch_cpu_new f ((pframe c)\<lparr>pymm := y\<rparr>)) (Gp k 8) = patch_get c (Gp k 8)"
  by (simp add: patch_get_def patch_cpu_new_def split: option.split)

lemma runs_emulator:
  assumes r: "runnable S P i s" and abi: "keeps_abi clob" and d: "insn_cache P ! i = Some d"
    and st: "step F patch_ops d \<lparr>vs = sync_in_masked (map (xymm s) [0..<16]) (vector_regs d) (xvs s),
        cpu = \<lparr>pframe = frame_of s, prsp = rsp s\<rparr>, ram = call_ram P i s\<rparr> = Ok M"
    and out: "sync_out_masked (pymm (pframe (cpu M))) (vector_regs d) (vs M) = (wide, low)"
    and shape: "frame_ok ((pframe (cpu M))\<lparr>pymm := low\<rparr>)"
    and stack: "\<forall>x. unat (x - (rsp s - 800)) < 672 \<longrightarrow> ram M x = call_ram P i s x"
  shows "\<exists>t. runs (site_env F S P clob) s t \<and> xrip t = arena P + 206 \<and> xg t 15 = rsp s - 776 \<and> xvs t = wide \<and>
    xram t = put (ram M) (rsp s - 776) (frame_bytes ((pframe (cpu M))\<lparr>pymm := low\<rparr>))"
proof -
  let ?E = "site_env F S P clob" and ?f = "rsp s - 776" and ?b = "rsp s - 800" and ?fr = "(pframe (cpu M))\<lparr>pymm := low\<rparr>"
  have x: "pinv S P" "i < unat (site_count P)" "site_state (sites P ! i) = Site_Ready" "unat (arena P) + ARENA_SIZE < 2 ^ 64"
    "\<And>k. k < 16 \<Longrightarrow> length (xymm s k) = 32" "site_regs (sites P ! i) = vector_regs d"
    using r d by (auto simp: runnable_def Let_def list_all_iff pinv_def site_complete_def)
  obtain u where u: "runs ?E s u" "xrip u = os_patched_fn S" "xram u = call_ram P i s" "xg u 7 = ?f" "xg u 6 = site_stub P i + 10"
    "xg u 15 = ?f" "rsp u = (?f AND - 16) - 8" "xvs u = xvs s"
    using runs_to_callee[OF r, of F clob] by blast
  obtain k where k: "k + 8 \<le> 24" "(?f AND - 16) - 8 = ?b + of_nat k" using aligned_slot[of ?b] by auto
  have fs: "frame_ok (frame_of s)" by (rule frame_ok_of[OF x(5)])
  have "away (?b + of_nat k) 8 (?b + of_nat 24) 640" by (rule away_offsets) (use k in simp_all)
  then have af: "away ((?f AND - 16) - 8) (length (to_le 8 (arena P + 206))) ?f 640" unfolding k(2) by simp
  have fb: "ldn (call_ram P i s) ?f FRAME_SIZE = Some (frame_bytes (frame_of s))"
    unfolding call_ram_def Let_def using ldn_put_outside[OF af] ldn_put_whole[of "frame_bytes (frame_of s)" 640] length_frame_bytes[OF fs]
    by (simp add: FRAME_SIZE_def GPR_OFFSET_def FLAGS_OFFSET_def GPR_COUNT_def)
  have cpu: "patch_cpu_new ?f (frame_of s) = \<lparr>pframe = frame_of s, prsp = rsp s\<rparr>"
    by (simp add: patch_cpu_new_def RSP_ABOVE_FRAME_def FRAME_SIZE_def GPR_OFFSET_def FLAGS_OFFSET_def GPR_COUNT_def)
  have pf: "pymm (frame_of s) = map (xymm s) [0..<16]" by (simp add: frame_of_def)
  let ?m = "put (ram M) ?f (frame_bytes ?fr)"
  define t0 where "t0 = u\<lparr>xvs := wide, xram := ?m\<rparr>"
  have ph: "phi512_patched F P u = Some t0"
    unfolding phi512_patched_def Let_def u(3-5,8) site_of_stub[OF x(1-4)] using d fb x(6) st out
    by (simp add: frame_at_bytes[OF fs] cpu pf t0_def)
  have "ldn (ram M) (?b + of_nat k) 8 = ldn (call_ram P i s) (?b + of_nat k) 8"
    using stack stack_slot[of k 8 _ ?b] k(1) by (intro ldn_agree) simp
  moreover have "ldn (call_ram P i s) ((?f AND - 16) - 8) 8 = Some (to_le 8 (arena P + 206))"
    unfolding call_ram_def Let_def by (rule ldn_put_whole) simp_all
  ultimately have l1: "ldn (ram M) ((?f AND - 16) - 8) 8 = Some (to_le 8 (arena P + 206))" unfolding k(2) by simp
  have "away (?b + of_nat 24) 640 (?b + of_nat k) 8" by (rule away_offsets) (use k in simp_all)
  then have "away ?f (length (frame_bytes ?fr)) ((?f AND - 16) - 8) 8" unfolding k(2) length_frame_bytes[OF shape] by simp
  then have l2: "ldn ?m ((?f AND - 16) - 8) 8 = Some (to_le 8 (arena P + 206))" using l1 ldn_put_outside by simp
  have ab: "xg (clob t0) 4 = (?f AND - 16) - 8" "xg (clob t0) 15 = ?f" "xram (clob t0) = ?m" "xvs (clob t0) = wide"
    using abi u by (simp_all add: keeps_abi_def t0_def)
  define t1 where "t1 = (clob t0)\<lparr>xg := (xg (clob t0))(4 := ?f AND - 16), xrip := arena P + 206\<rparr>"
  have "texec T_ret (clob t0) = Some t1" using l2 by (simp add: ab t1_def)
  then have "xstep ?E u = Some t1" using ph u(2) by (simp add: xstep_def site_env_def)
  then have r1: "runs ?E s t1" using u(1) runs_step runs_trans by blast
  have "xrip t1 = arena P + 206" "xg t1 15 = ?f" "xvs t1 = wide" "xram t1 = ?m" by (simp_all add: t1_def ab)
  then show ?thesis using r1 by blast
qed

lemma site_return_kept:
  assumes r: "runnable S P i s" and stack: "\<forall>x. unat (x - (rsp s - 800)) < 672 \<longrightarrow> m x = call_ram P i s x"
  shows "ldn m (rsp s - 136) 8 = Some (to_le 8 (site_stub P i + 10))"
proof -
  let ?f = "rsp s - 776" and ?b = "rsp s - 800"
  have fs: "frame_ok (frame_of s)" using r by (intro frame_ok_of) (auto simp: runnable_def Let_def list_all_iff)
  obtain k where k: "k + 8 \<le> 24" "(?f AND - 16) - 8 = ?b + of_nat k" using aligned_slot[of ?b] by auto
  have "away ((?f AND - 16) - 8) (length (to_le 8 (arena P + 206))) (?b + of_nat 664) 8"
    unfolding k(2) by (rule away_offsets) (use k in simp_all)
  moreover have "away (?b + of_nat 24) (length (frame_bytes (frame_of s))) (?b + of_nat 664) 8"
    by (rule away_offsets) (simp_all add: length_frame_bytes[OF fs])
  ultimately have "ldn (call_ram P i s) (?b + of_nat 664) 8 = Some (to_le 8 (site_stub P i + 10))"
    unfolding call_ram_def Let_def using ldn_put_whole[of "to_le 8 (site_stub P i + 10)" 8 "xram s" "rsp s - 136"]
    by (simp add: ldn_put_outside)
  moreover have "ldn m (?b + of_nat 664) 8 = ldn (call_ram P i s) (?b + of_nat 664) 8"
    using stack stack_slot[of 664 8 _ ?b] by (intro ldn_agree) simp
  ultimately show ?thesis by simp
qed

section \<open>A concrete run\<close>

text \<open>One site, \<^verbatim>\<open>kmovq k3, k2\<close> (five bytes), rewritten.\<close>

definition demo_kmovq :: xinsn where
  "demo_kmovq = (emu_insn ''Kmovq'' (\<lambda>_. K_Register) (\<lambda>n. if n = 0 then Mask 3 else Mask 2) No_reg)\<lparr>xcount := 2\<rparr>"

definition demo_site :: site where
  "demo_site = \<lparr>site_rip = 0x401000, site_len = 5, site_bytes = [0xc4, 0xe1, 0xf8, 0x90, 0xda], site_state = Site_Ready, site_regs = 0\<rparr>"

definition demo_table :: patcher where
  "demo_table = \<lparr>sites = (replicate MAX_SITES site_new)[0 := demo_site], site_count = 1,
     insn_cache = (replicate MAX_SITES None)[0 := Some demo_kmovq], arena = 0x10000000, stubs = 0x10001000,
     arena_failed = False, patch_lock = False, too_short = 0, patched = 1,
     code = cput (cput (cput (\<lambda>_. 0x62) 0x10000000 (tasm (tramp_prog 0x20000000)))
         0x10001000 (tasm (stub_prog 0x10001000 0x10000000 0x401005)))
       0x401000 (jump_bytes 0x401000 5 0x10001000)\<rparr>"

definition demo_start :: xm where
  "demo_start = \<lparr>xg = (\<lambda>i. if i = 4 then 0x7fff0000 else of_nat i), xymm = (\<lambda>_. replicate 32 0), xfl = 0x46, xrip = 0x401000,
     xram = (\<lambda>_. Some 0), xvs = vstate_new\<lparr>km := [0, 0, 0xabcd, 0, 0, 0, 0, 0]\<rparr>\<rparr>"

lemma demo_code:
  "code_at (code demo_table) 0x10000000 (tasm (tramp_prog 0x20000000))"
  "code_at (code demo_table) 0x10001000 (tasm (stub_prog 0x10001000 0x10000000 0x401005))"
  "code_at (code demo_table) 0x401000 (jump_bytes 0x401000 5 0x10001000)"
proof -
  have j: "length (jump_bytes 0x401000 5 0x10001000) = 5" by (simp add: jump_bytes_def)
  have a: "away 0x401000 5 0x10000000 386" "away 0x401000 5 0x10001000 23" "away 0x10001000 23 0x10000000 386"
    by (rule separate_away, simp add: separate_def)+
  show "code_at (code demo_table) 0x401000 (jump_bytes 0x401000 5 0x10001000)"
    unfolding demo_table_def patcher.simps by (rule code_at_cput) (simp add: j)
  show "code_at (code demo_table) 0x10001000 (tasm (stub_prog 0x10001000 0x10000000 0x401005))"
    unfolding demo_table_def patcher.simps by (subst code_at_cput_away) (simp_all add: j length_stub a code_at_cput)
  show "code_at (code demo_table) 0x10000000 (tasm (tramp_prog 0x20000000))"
    unfolding demo_table_def patcher.simps
    by (subst code_at_cput_away, simp add: j length_tramp a, subst code_at_cput_away, simp add: length_stub length_tramp a,
        rule code_at_cput, simp add: length_tramp)
qed

lemma demo_entry: "sites demo_table ! 0 = demo_site" "insn_cache demo_table ! 0 = Some demo_kmovq" "site_stub demo_table 0 = 0x10001000"
  "arena demo_table = 0x10000000" "unat (site_count demo_table) = 1"
  by (simp_all add: demo_table_def site_stub_def MAX_SITES_def)

lemma demo_regs: "vector_regs demo_kmovq = 0"
  by (simp add: vector_regs_def demo_kmovq_def emu_insn_def upt_rec)

lemma demo_runnable: "runnable demo_os demo_table 0 demo_start"
proof -
  have "pinv demo_os demo_table"
    using demo_code demo_regs
    by (simp add: pinv_def site_complete_def site_jumps_def Let_def demo_entry demo_os_def in_jump_range_def separate_def
        ARENA_SIZE_def STUB_SIZE_def demo_site_def) (simp add: demo_table_def MAX_SITES_def)
  then show ?thesis
    by (simp add: runnable_def Let_def demo_entry demo_os_def apart_def ARENA_SIZE_def MAX_SITES_def STUB_SIZE_def mapped_def
        list_all_iff demo_start_def) (simp add: demo_site_def)
qed

lemma kmovq_step:
  "vs M = vstate_new\<lparr>km := [0, 0, 0xabcd, 0, 0, 0, 0, 0]\<rparr> \<Longrightarrow>
   step demo_fops patch_ops demo_kmovq M = Ok (M\<lparr>vs := set_k 3 0xabcd (vs M)\<rparr>)"
  by (simp add: step_def lanes_of_def f32_op_def f64_op_def i32_op_def i64_op_def demo_kmovq_def emu_insn_def step_uncommon_def Let_def
      is_extend_def extend_shape_def is_extract_insert_def is_scalar_def is_misc_int_def is_lane_move_def is_shift_def is_permute_def
      is_mask_op_def mask_width_def do_mask_def need_def is_kortest_def is_ktest_def read_mask_def mask_result_def width_mask_def)

lemma sync_none: "sync_in_masked live 0 st = st" "sync_out_masked live 0 st = (st, live)"
proof -
  have "fold (sync_in_one live 0) xs st = st" for xs by (induction xs) (simp_all add: sync_in_one_def masked_in_def)
  then show "sync_in_masked live 0 st = st" by (simp add: sync_in_masked_def)
  have "fold (sync_out_one 0) xs p = p" for xs p by (induction xs) (simp_all add: sync_out_one_def masked_in_def)
  then show "sync_out_masked live 0 st = (st, live)" by (simp add: sync_out_masked_def)
qed

section \<open>The property\<close>

text \<open>
  C5. A patched site is the emulated instruction.  Running the code at a ready site, from the jump
  through the stub, the trampoline, \<^verbatim>\<open>phi512_patched\<close> and back, ends behind the instruction with
  the stack pointer where it was and every register, the flags, the vector registers, the wide
  registers of the thread and the memory (beside the 672 bytes below the red zone) as one step of
  the emulator leaves them, started on the registers of the program.  The instruction must not
  store into these bytes.
\<close>

theorem patched_site_emulates:
  assumes r: "runnable S P i s" and abi: "keeps_abi clob" and d: "insn_cache P ! i = Some d"
    and st: "step F patch_ops d \<lparr>vs = sync_in_masked (map (xymm s) [0..<16]) (vector_regs d) (xvs s),
        cpu = \<lparr>pframe = frame_of s, prsp = rsp s\<rparr>, ram = call_ram P i s\<rparr> = Ok M"
    and out: "sync_out_masked (pymm (pframe (cpu M))) (vector_regs d) (vs M) = (wide, low)"
    and shape: "frame_ok ((pframe (cpu M))\<lparr>pymm := low\<rparr>)"
    and stack: "\<forall>x. unat (x - (rsp s - 800)) < 672 \<longrightarrow> ram M x = call_ram P i s x"
  shows "\<exists>t. runs (site_env F S P clob) s t \<and> xrip t = xrip s + of_nat (unat (site_len (sites P ! i))) \<and> rsp t = rsp s \<and>
    (\<forall>k < 16. k \<noteq> 4 \<longrightarrow> xg t k = patch_get (cpu M) (Gp k 8)) \<and> xfl t = patch_flags (cpu M) \<and>
    (\<forall>k < 16. xymm t k = low ! k) \<and> xvs t = wide \<and>
    (\<forall>x. \<not> unat (x - (rsp s - 800)) < 672 \<longrightarrow> xram t x = ram M x)"
proof -
  let ?E = "site_env F S P clob" and ?f = "rsp s - 776" and ?b = "rsp s - 800" and ?fr = "(pframe (cpu M))\<lparr>pymm := low\<rparr>"
  obtain t1 where t1: "runs ?E s t1" "xrip t1 = arena P + 206" "xg t1 15 = ?f" "xvs t1 = wide" "xram t1 = put (ram M) ?f (frame_bytes ?fr)"
    using runs_emulator[OF assms] by blast
  obtain t where t: "runs ?E t1 t" "xrip t = xrip s + of_nat (unat (site_len (sites P ! i)))" "rsp t = rsp s"
    "\<forall>k < 16. k \<noteq> 4 \<longrightarrow> xg t k = patch_get (patch_cpu_new ?f ?fr) (Gp k 8)" "xfl t = pflags ?fr"
    "\<forall>k < 16. xymm t k = pymm ?fr ! k" "xvs t = xvs t1" "xram t = xram t1"
    using runs_back[OF r shape t1(2,3,5) site_return_kept[OF r stack], of F clob] by blast
  have "xram t x = ram M x" if "\<not> unat (x - ?b) < 672" for x
  proof -
    have "\<not> unat (x - (?b + of_nat 24)) < 640"
      using that unat_sub_of_nat[of 24 x ?b] u64_less[of "x - ?b"] by (auto split: if_splits)
    then show ?thesis by (simp add: t(8) t1(5) put_def length_frame_bytes[OF shape])
  qed
  then show ?thesis using t runs_trans[OF t1(1) t(1)]
    by (intro exI[of _ t]) (simp add: patch_get_pymm patch_flags_def t1(4))
qed

theorem patched_site_emulates_witness:
  "\<exists>t. runs (site_env demo_fops demo_os demo_table (\<lambda>s. s)) demo_start t \<and> xrip t = 0x401005 \<and> rsp t = 0x7fff0000 \<and>
     xg t 1 = 1 \<and> xfl t = 0x46 \<and> km (xvs t) ! 3 = 0xabcd"
proof -
  let ?s = "demo_start" and ?P = "demo_table"
  let ?v = "vstate_new\<lparr>km := [0, 0, 0xabcd, 0, 0, 0, 0, 0]\<rparr>"
  let ?M = "\<lparr>vs = set_k 3 0xabcd ?v, cpu = \<lparr>pframe = frame_of ?s, prsp = rsp ?s\<rparr>, ram = call_ram ?P 0 ?s\<rparr>"
  have "xvs ?s = ?v" by (simp add: demo_start_def)
  then have st: "step demo_fops patch_ops demo_kmovq \<lparr>vs = sync_in_masked (map (xymm ?s) [0..<16]) (vector_regs demo_kmovq) (xvs ?s),
      cpu = \<lparr>pframe = frame_of ?s, prsp = rsp ?s\<rparr>, ram = call_ram ?P 0 ?s\<rparr> = Ok ?M"
    using kmovq_step[of "\<lparr>vs = ?v, cpu = \<lparr>pframe = frame_of ?s, prsp = rsp ?s\<rparr>, ram = call_ram ?P 0 ?s\<rparr>"] by (simp add: demo_regs sync_none)
  have out: "sync_out_masked (pymm (pframe (cpu ?M))) (vector_regs demo_kmovq) (vs ?M) = (vs ?M, pymm (frame_of ?s))"
    by (simp add: demo_regs sync_none)
  have "frame_ok (frame_of ?s)" by (rule frame_ok_of) (simp add: demo_start_def)
  then have sh: "frame_ok ((pframe (cpu ?M))\<lparr>pymm := pymm (frame_of ?s)\<rparr>)" by simp
  have abi: "keeps_abi (\<lambda>s. s)" by (simp add: keeps_abi_def)
  obtain t where t: "runs (site_env demo_fops demo_os ?P (\<lambda>s. s)) ?s t" "xrip t = xrip ?s + of_nat (unat (site_len (sites ?P ! 0)))"
    "rsp t = rsp ?s" "\<forall>k < 16. k \<noteq> 4 \<longrightarrow> xg t k = patch_get (cpu ?M) (Gp k 8)" "xfl t = patch_flags (cpu ?M)" "xvs t = vs ?M"
    using patched_site_emulates[OF demo_runnable abi demo_entry(2) st out sh] by auto
  have "xg t 1 = 1" using t(4) by (simp add: patch_get_def slot_of_def gpr_slot_def frame_of_def push_regs_def demo_start_def)
  then show ?thesis using t by (intro exI[of _ t])
    (simp add: demo_entry demo_site_def patch_flags_def frame_of_def demo_start_def set_k_def vstate_new_def)
qed

end
