(* ===== verification/Spec2Isabelle.thy ===== *)
theory Spec2Isabelle
  imports Sim Xlate Plan_Trips Plan_Loops Emu_Laws Emu_Half Rw_Props Rw_Layout Rw_Agree Rw_Qword Patch_Whole
begin

text \<open>
  A verification development for the Rust crates under \<^verbatim>\<open>src/host/crates\<close>: programs built
  for AVX-512 run on a host without it, with a Knights Corner card (an Intel Xeon Phi) beside
  it.

  \<^bold>\<open>The program.\<close>  Four crates carry the logic.
  \<^item> \<^verbatim>\<open>phi-pld\<close> drives a language model and drafts tokens ahead of it: an exact-match drafter
    over the prompt and the output (\<^verbatim>\<open>lookup.rs\<close>), n-gram caches learnt from the output and from
    files (\<^verbatim>\<open>ngram_cache.rs\<close>), a generation loop that verifies each draft in one batch and takes
    the rejected tail back (\<^verbatim>\<open>decode.rs\<close>), and a replay of a known output at measured prices
    (\<^verbatim>\<open>sim.rs\<close>).
  \<^item> \<^verbatim>\<open>knc-mvex\<close> encodes the card's vector instructions; \<^verbatim>\<open>avx512-xlate\<close> translates AVX-512
    instructions into them: one by one (\<^verbatim>\<open>lib.rs\<close>), and, for a whole region of a program that
    the card is to run, into sequences of its instructions with constants of their own, laid out
    behind a jump (\<^verbatim>\<open>rewrite.rs\<close>).
  \<^item> \<^verbatim>\<open>phi512\<close> runs the AVX-512 instructions of a host program without such a processor: an
    emulator of single instructions over an imaginary register file (\<^verbatim>\<open>emulate.rs\<close>,
    \<^verbatim>\<open>state.rs\<close>, \<^verbatim>\<open>frame.rs\<close>), the rewriting of an instruction into a jump to that emulator, so
    that it faults only once (\<^verbatim>\<open>patch.rs\<close>), and a planner that finds the loop of a region, its trip count and
    the memory it touches, so that its trips can be split between host and card (\<^verbatim>\<open>plan.rs\<close>).

  \<^bold>\<open>The theories, in the order of their imports.\<close>
  \<^item> \<^verbatim>\<open>Prelude\<close>: the machine integer types and the generic lemmas.
  \<^item> \<^verbatim>\<open>Probe\<close>, \<^verbatim>\<open>Entry_Table\<close>: linear probing, the walk of every table of \<^verbatim>\<open>phi-pld\<close>; the locales
    \<^verbatim>\<open>open_table\<close> and \<^verbatim>\<open>entry_table\<close> (a \<^verbatim>\<open>sublocale\<close> of it) prove once that a table with a free
    slot finds what was put in it and that growing it keeps its contents.  They are interpreted
    on the slots of \<^verbatim>\<open>Lookup\<close>, on \<^verbatim>\<open>Ngram_Cache\<close> and on \<^verbatim>\<open>Ngram_Static\<close>.
  \<^item> \<^verbatim>\<open>Lookup\<close> (\<^verbatim>\<open>lookup.rs\<close>): tables of first and last occurrences; a draft is what followed the
    longest earlier match of the context's tail, and where no hashes collide exactly what a search
    without them finds.
  \<^item> \<^verbatim>\<open>Ngram_Part\<close>, \<^verbatim>\<open>Ngram_Cache\<close>, \<^verbatim>\<open>Ngram_Counts\<close>, \<^verbatim>\<open>Ngram_File\<close>, \<^verbatim>\<open>Ngram_Static\<close>,
    \<^verbatim>\<open>Ngram_Draft\<close> (\<^verbatim>\<open>ngram_cache.rs\<close>): the followers of one n-gram, the cache as a finite map
    (refinement, through the locale \<^verbatim>\<open>follower_store\<close>), what it counts and how two are merged,
    the file format and its round trip, the static table and the thresholds of drafting.
  \<^item> \<^verbatim>\<open>Decode\<close>, \<^verbatim>\<open>Prefill\<close>, \<^verbatim>\<open>Lossless\<close> (\<^verbatim>\<open>decode.rs\<close>): prefill, one batch, verification,
    roll-back, adaptation of the draft length and the loop.  \<^verbatim>\<open>Lossless\<close> proves, inside the
    locale \<^verbatim>\<open>greedy_model\<close> (what the engine relies on of llama.cpp), that generation with
    drafts is greedy decoding and ends, for a request that fits the context and whose bounds on
    the draft length are in order.
  \<^item> \<^verbatim>\<open>Sim\<close> (\<^verbatim>\<open>sim.rs\<close>): the replay model, an interpretation of \<^verbatim>\<open>greedy_model\<close>, on which the
    properties of the engine are stated.
  \<^item> \<^verbatim>\<open>Mvex\<close>, \<^verbatim>\<open>Mvex_Decode\<close> (\<^verbatim>\<open>knc-mvex\<close>): every builder with its bytes and its text; a decoder
    of the prefix written from the layout comment, and the round trip.
  \<^item> \<^verbatim>\<open>Xlate\<close> (\<^verbatim>\<open>avx512-xlate/src/lib.rs\<close>): the translation of one instruction: no panic,
    operands, mask and modifiers that are those of the original, read back from the bytes, and the
    masked moves that lose their mask.
  \<^item> \<^verbatim>\<open>Iced\<close>: the decoded instruction as the crates see it; \<^verbatim>\<open>Plan\<close>, \<^verbatim>\<open>Plan_Trips\<close>,
    \<^verbatim>\<open>Plan_Ranges\<close>, \<^verbatim>\<open>Plan_Loops\<close> (\<^verbatim>\<open>plan.rs\<close>): abstract values, the trip count against the
    flags of the processor, the memory ranges a loop touches, the choice of the loop (against a
    description of it that reads the decoder's accessors alone) and, exactly, the test that lets
    it be split, with its exemption of \<^verbatim>\<open>rbp\<close> and its blindness to the step.
  \<^item> \<^verbatim>\<open>VState\<close> (\<^verbatim>\<open>state.rs\<close>, \<^verbatim>\<open>frame.rs\<close>): the register file with the staleness of its low
    halves, the interface to the processor as the record \<^verbatim>\<open>cpu_ops\<close> with the laws
    \<^verbatim>\<open>cpu_laws\<close>, interpreted on the frame of a patched site.
  \<^item> \<^verbatim>\<open>Emu_Core\<close>, \<^verbatim>\<open>Emu_Arith\<close>, \<^verbatim>\<open>Emu_Mask\<close>, \<^verbatim>\<open>Emu_Move\<close>, \<^verbatim>\<open>Emu_Convert\<close>, \<^verbatim>\<open>Emulate\<close>
    (\<^verbatim>\<open>emulate.rs\<close>): the families of instructions and the dispatch; \<^verbatim>\<open>Emu_Props\<close>,
    \<^verbatim>\<open>Emu_Laws\<close>, \<^verbatim>\<open>Emu_Half\<close>: the law of the write-mask for arithmetic, loads and stores, the
    agreement of \<^verbatim>\<open>supported\<close> with the dispatch, truth tables, shifts, flags, and the round trip
    of half precision.
  \<^item> \<^verbatim>\<open>Rw_Core\<close> (the emitter, its temporaries and constants), \<^verbatim>\<open>Rw_Emit\<close> (the builders and
    \<^verbatim>\<open>thunk_bytes\<close>), \<^verbatim>\<open>Rw_Moves\<close>, \<^verbatim>\<open>Rw_Lanes\<close>, \<^verbatim>\<open>Rw_Float\<close>, \<^verbatim>\<open>Rw_Divide\<close> (the families of
    instructions) and \<^verbatim>\<open>Rw_Rewrite\<close> (dispatch, mask instructions, \<^verbatim>\<open>rewrite\<close>) model
    \<^verbatim>\<open>avx512-xlate/src/rewrite.rs\<close>.  \<^verbatim>\<open>Rw_Sound\<close> and \<^verbatim>\<open>Rw_Families\<close> hold the invariant of the
    emitter and its preservation, family by family; \<^verbatim>\<open>Rw_Props\<close>: a decoded instruction makes no
    panic (beside the one found) and a well-formed sequence; \<^verbatim>\<open>Rw_Layout\<close>: the laid-out bytes
    resolve every displacement; \<^verbatim>\<open>Rw_Agree\<close>: the emitter encodes as \<^verbatim>\<open>knc-mvex\<close> does, and the
    float predicates are composed as the emulator evaluates them; \<^verbatim>\<open>Rw_Code\<close>, \<^verbatim>\<open>Rw_Qword\<close>: the
    integer code inside a sequence is executed, and a qword compare on a card that compares
    dwords gives the emulator's mask.
  \<^item> \<^verbatim>\<open>Patch_Code\<close> (assembly of trampoline and stubs), \<^verbatim>\<open>Patch_Site\<close> (the table of sites and the
    rewriting of one as its sequence of stores) model \<^verbatim>\<open>patch.rs\<close>.  \<^verbatim>\<open>Patch_Inv\<close>: the invariant
    of the table, and what every state between two stores looks like; \<^verbatim>\<open>Patch_Run\<close>: a machine
    that fetches and executes the emitted bytes; \<^verbatim>\<open>Patch_Props\<close>: no thread sees half a rewrite,
    the table keeps its invariant, the reach of the jumps; \<^verbatim>\<open>Patch_Whole\<close>: running a rewritten
    site is one step of the emulator on the program's registers.

  \<^bold>\<open>How code is represented.\<close>  Rust integers are words (\<^verbatim>\<open>u32\<close> is \<^typ>\<open>32 word\<close>) where the
  code wraps or masks, and \<^typ>\<open>nat\<close> for \<^verbatim>\<open>usize\<close> lengths and indices; structs are records,
  enums are datatypes, a panic, an error and an early return are values.  Memory is a function
  from addresses that may fault.  A fault of the emulator carries no state: the caller of
  \<^verbatim>\<open>step\<close> gives up on the instruction there.

  \<^bold>\<open>Parameters.\<close>  What is not in the repository is an argument of the definitions: llama.cpp
  (the record of model operations, with the contract \<^verbatim>\<open>greedy_model\<close>), the decoder
  \<^verbatim>\<open>iced_x86\<close> (an instruction is a record of its accessors), the processor behind the emulator
  (\<^verbatim>\<open>cpu_ops\<close>), the reader of program memory in the planner, and the floating point operations
  that round (\<^verbatim>\<open>fops\<close>; prices of the replay in \<^verbatim>\<open>f64\<close>).  For the rewriting of sites they are
  \<^verbatim>\<open>mmap\<close> and \<^verbatim>\<open>mprotect\<close> (the record \<open>os\<close>) and what the compiled callee does to the registers it
  need not keep.  The hypotheses on a decoded instruction (\<open>decoded\<close>, \<open>xinsn_ok\<close>) are what the
  decoder documents: register numbers in range, operands of the kinds of the mnemonic; those on a
  site to rewrite (\<open>clear\<close>) that it meets neither the arena nor another site, and on a run of one
  (\<open>runnable\<close>) that the stack below it is mapped.  The half-precision conversions are bit
  manipulations in the source and are modelled whole.

  \<^bold>\<open>Bounds and fuel.\<close>  Probe loops are \<^verbatim>\<open>partial_function (option)\<close>; the invariants of the
  tables (a free slot) give that they return.  The planner's loop that counts trips has the
  bound 2^27 of the source itself and reports when it reaches it.  Normalising a subnormal half
  takes at most ten shifts of its ten-bit mantissa, the fuel of that loop.  The generation loop
  is bounded by the number of tokens asked for; \<^verbatim>\<open>Lossless\<close> proves that it returns.

  A rewrite of a site is a finite list of stores; other threads are observers between any two of
  them, and the lock makes the rewriters exclude each other, so the list is not interleaved with
  another.  The processor's memory order and its instruction cache are not modelled.

  \<^bold>\<open>Not modelled.\<close>  The bindings of llama.cpp (\<^verbatim>\<open>llm.rs\<close>, \<^verbatim>\<open>sys.rs\<close>: foreign calls), the HTTP
  server and the command lines (input and output), the signal handler (\<^verbatim>\<open>handler.rs\<close>: the kernel's
  signal frame and messages), the submission of work to the card (\<^verbatim>\<open>offload.rs\<close>: the process map
  and device memory) and the driver \<^verbatim>\<open>phi-vpu\<close> (declarations of shared memory and a self-check
  against the device).  The thread-local storage of the register file, wall-clock times, JSON
  reports, the atomic rename on saving a cache and the statistics counters are left out of
  components that are modelled.  What the card computes from a rewritten sequence is proved for
  the integer code and the compares named above only: the card's vector instructions themselves
  have no semantics in the repository.
\<close>

end
